(* ===== verification/Prelude.thy ===== *)
theory Prelude
  imports Main "HOL-Library.Word" "HOL-Library.AList" "HOL-Library.Code_Target_Numeral"
begin

text \<open>
  Shared vocabulary of the development: the machine integers of the Rust sources as words,
  the three ways in which a Rust computation ends (a value, an error value, a panic), loops
  that stop at the first error, the \<open>HashMap\<close> and \<open>BTreeMap\<close> operations the code uses, and
  the lemma collections that the component theories extend.

  The arithmetic is that of the release profile, which the pipeline of the repository ships:
  integer addition, subtraction and multiplication wrap around at their width, and
  \<open>debug_assert\<close> is not executed. Index errors, \<open>unwrap\<close> on an absent value, failed
  \<open>assert\<close>, \<open>unreachable\<close> and \<open>unimplemented\<close> are panics in every profile.
\<close>

unbundle bit_operations_syntax

subsection \<open>Machine integers\<close>

type_synonym u8 = "8 word"
type_synonym u16 = "16 word"
type_synonym u32 = "32 word"
type_synonym u64 = "64 word"
type_synonym usize = "64 word"

text \<open>A signed integer is the word of its two's complement; \<open>sint\<close> reads it.\<close>

type_synonym i8 = "8 word"
type_synonym i32 = "32 word"
type_synonym i64 = "64 word"

text \<open>\<open>Bin\<close> of \<open>bin.rs\<close>: a vector of bytes.\<close>

type_synonym bin = "u8 list"

subsection \<open>Results and panics\<close>

datatype ('a, 'e) result = Ok 'a | Err 'e | Panic | Diverge

text \<open>
  \<open>and_then m f\<close> is \<open>f(m?)\<close>: an error or a panic of \<open>m\<close> ends the computation. \<open>Diverge\<close> is
  the outcome of a loop that does not end; \<open>returns\<close> reads it off a \<open>partial_function\<close>.
\<close>

fun and_then :: "('a, 'e) result \<Rightarrow> ('a \<Rightarrow> ('b, 'e) result) \<Rightarrow> ('b, 'e) result" where
  "and_then (Ok x) f = f x"
| "and_then (Err e) f = Err e"
| "and_then Panic f = Panic"
| "and_then Diverge f = Diverge"

definition returns :: "('a, 'e) result option \<Rightarrow> ('a, 'e) result" where
  "returns m = (case m of None \<Rightarrow> Diverge | Some r \<Rightarrow> r)"

fun is_ok :: "('a, 'e) result \<Rightarrow> bool" where
  "is_ok (Ok x) = True"
| "is_ok _ = False"

fun is_panic :: "('a, 'e) result \<Rightarrow> bool" where
  "is_panic Panic = True"
| "is_panic _ = False"

fun ok_value :: "('a, 'e) result \<Rightarrow> 'a option" where
  "ok_value (Ok x) = Some x"
| "ok_value _ = None"

definition unwrap :: "'a option \<Rightarrow> ('a, 'e) result" where
  "unwrap x = (case x of None \<Rightarrow> Panic | Some v \<Rightarrow> Ok v)"

definition assert_rs :: "bool \<Rightarrow> (unit, 'e) result" where
  "assert_rs b = (if b then Ok () else Panic)"

text \<open>A \<open>for\<close> loop whose body may end the function with \<open>?\<close>.\<close>

fun for_each :: "('x \<Rightarrow> 's \<Rightarrow> ('s, 'e) result) \<Rightarrow> 'x list \<Rightarrow> 's \<Rightarrow> ('s, 'e) result" where
  "for_each f [] s = Ok s"
| "for_each f (x # xs) s = and_then (f x s) (for_each f xs)"

fun map_err :: "('e \<Rightarrow> 'f) \<Rightarrow> ('a, 'e) result \<Rightarrow> ('a, 'f) result" where
  "map_err f (Ok x) = Ok x"
| "map_err f (Err e) = Err (f e)"
| "map_err f Panic = Panic"
| "map_err f Diverge = Diverge"

text \<open>A \<open>collect\<close> of results: the values in order, or the first error.\<close>

fun map_results :: "('x \<Rightarrow> ('y, 'e) result) \<Rightarrow> 'x list \<Rightarrow> ('y list, 'e) result" where
  "map_results f [] = Ok []"
| "map_results f (x # xs) =
     and_then (f x) (\<lambda>y. and_then (map_results f xs) (\<lambda>ys. Ok (y # ys)))"

named_theorems result_simps \<open>inversion of successful computations\<close>

lemma and_then_Ok_iff [result_simps]:
  "and_then m f = Ok y \<longleftrightarrow> (\<exists>x. m = Ok x \<and> f x = Ok y)"
  by (cases m) auto

lemma and_then_Err_iff [result_simps]:
  "and_then m f = Err e \<longleftrightarrow> m = Err e \<or> (\<exists>x. m = Ok x \<and> f x = Err e)"
  by (cases m) auto

lemma and_then_Panic_iff [result_simps]:
  "and_then m f = Panic \<longleftrightarrow> m = Panic \<or> (\<exists>x. m = Ok x \<and> f x = Panic)"
  by (cases m) auto

lemma and_then_Diverge_iff [result_simps]:
  "and_then m f = Diverge \<longleftrightarrow> m = Diverge \<or> (\<exists>x. m = Ok x \<and> f x = Diverge)"
  by (cases m) auto

lemma returns_simps [simp]: "returns (Some r) = r" "returns None = Diverge"
  by (simp_all add: returns_def)

lemma is_ok_iff [result_simps]: "is_ok m \<longleftrightarrow> (\<exists>x. m = Ok x)"
  by (cases m) auto

lemma unwrap_simps [simp]: "unwrap (Some v) = Ok v" "unwrap None = Panic"
  by (simp_all add: unwrap_def)

lemma unwrap_Ok_iff [result_simps]: "unwrap x = Ok v \<longleftrightarrow> x = Some v"
  by (cases x) auto

lemma assert_rs_simps [simp]: "assert_rs True = Ok ()" "assert_rs False = Panic"
  by (simp_all add: assert_rs_def)

lemma assert_rs_Ok_iff [result_simps]: "assert_rs b = Ok u \<longleftrightarrow> b"
  by (cases b) auto

lemma and_then_assoc: "and_then (and_then m f) g = and_then m (\<lambda>x. and_then (f x) g)"
  by (cases m) auto

lemma and_then_cong:
  assumes "m = m'" and "\<And>x. m' = Ok x \<Longrightarrow> f x = g x"
  shows "and_then m f = and_then m' g"
  using assms by (cases m') auto

lemma for_each_append:
  "for_each f (xs @ ys) s = and_then (for_each f xs s) (for_each f ys)"
  by (induction xs arbitrary: s) (auto simp: and_then_assoc intro: and_then_cong)

text \<open>The invariant rule of a loop: what one successful body keeps, the loop keeps.\<close>

lemma for_each_invariant:
  assumes "for_each f xs s = Ok t" and "P s"
    and "\<And>x a b. x \<in> set xs \<Longrightarrow> P a \<Longrightarrow> f x a = Ok b \<Longrightarrow> P b"
  shows "P t"
  using assms
proof (induction xs arbitrary: s)
  case Nil
  then show ?case by simp
next
  case (Cons x xs)
  from Cons.prems(1) obtain s' where s': "f x s = Ok s'" "for_each f xs s' = Ok t"
    by (auto simp: result_simps)
  have "P s'" using Cons.prems(2,3) s'(1) by (meson list.set_intros(1))
  with s'(2) show ?case
    by (rule Cons.IH) (meson Cons.prems(3) list.set_intros(2))
qed

text \<open>A loop whose body succeeds from every state that satisfies the invariant ends with \<open>Ok\<close>.\<close>

lemma for_each_total:
  assumes "P s"
    and "\<And>x a. x \<in> set xs \<Longrightarrow> P a \<Longrightarrow> \<exists>b. f x a = Ok b \<and> P b"
  shows "\<exists>t. for_each f xs s = Ok t \<and> P t"
  using assms
proof (induction xs arbitrary: s)
  case Nil
  then show ?case by simp
next
  case (Cons x xs)
  then obtain s' where "f x s = Ok s'" "P s'" by (meson list.set_intros(1))
  with Cons show ?case by (simp add: result_simps)
qed

lemma map_err_Ok_iff [result_simps]: "map_err f m = Ok x \<longleftrightarrow> m = Ok x"
  by (cases m) auto

lemma map_results_Ok:
  "map_results f xs = Ok ys \<longleftrightarrow> list_all2 (\<lambda>x y. f x = Ok y) xs ys"
  by (induction xs arbitrary: ys) (auto simp: result_simps list_all2_Cons1)

subsection \<open>Computations on a mutable state\<close>

text \<open>
  A method with \<open>&mut self\<close> maps a state to a result and the state it leaves behind, which the
  caller still sees when the result is an error.
\<close>

type_synonym ('s, 'a, 'e) action = "'s \<Rightarrow> ('a, 'e) result \<times> 's"

definition return_st :: "'a \<Rightarrow> ('s, 'a, 'e) action" where
  "return_st x s = (Ok x, s)"

definition read_st :: "('s \<Rightarrow> ('a, 'e) result) \<Rightarrow> ('s, 'a, 'e) action" where
  "read_st f s = (f s, s)"

fun bind_res :: "('a, 'e) result \<times> 's \<Rightarrow> ('a \<Rightarrow> ('s, 'b, 'e) action) \<Rightarrow> ('b, 'e) result \<times> 's" where
  "bind_res (Ok x, s) f = f x s"
| "bind_res (Err e, s) f = (Err e, s)"
| "bind_res (Panic, s) f = (Panic, s)"
| "bind_res (Diverge, s) f = (Diverge, s)"

definition bind_st :: "('s, 'a, 'e) action \<Rightarrow> ('a \<Rightarrow> ('s, 'b, 'e) action) \<Rightarrow> ('s, 'b, 'e) action" where
  "bind_st m f s = bind_res (m s) f"

fun for_st :: "('x \<Rightarrow> ('s, unit, 'e) action) \<Rightarrow> 'x list \<Rightarrow> ('s, unit, 'e) action" where
  "for_st f [] = return_st ()"
| "for_st f (x # xs) = bind_st (f x) (\<lambda>_. for_st f xs)"

text \<open>A loop that carries an accumulator besides the state.\<close>

fun fold_st :: "('x \<Rightarrow> 'a \<Rightarrow> ('s, 'a, 'e) action) \<Rightarrow> 'x list \<Rightarrow> 'a \<Rightarrow> ('s, 'a, 'e) action" where
  "fold_st f [] a = return_st a"
| "fold_st f (x # xs) a = bind_st (f x a) (\<lambda>b. fold_st f xs b)"

lemma bind_res_Ok_iff [result_simps]:
  "bind_res r f = (Ok y, t) \<longleftrightarrow> (\<exists>x s'. r = (Ok x, s') \<and> f x s' = (Ok y, t))"
  by (cases "(r, f)" rule: bind_res.cases) auto

lemma bind_st_Ok_iff [result_simps]:
  "bind_st m f s = (Ok y, t) \<longleftrightarrow> (\<exists>x s'. m s = (Ok x, s') \<and> f x s' = (Ok y, t))"
  by (simp add: bind_st_def bind_res_Ok_iff)

lemma bind_st_Ok [simp]: "m s = (Ok x, s') \<Longrightarrow> bind_st m f s = f x s'"
  by (simp add: bind_st_def)

lemma bind_st_assoc: "bind_st (bind_st m f) g = bind_st m (\<lambda>x. bind_st (f x) g)"
proof
  fix s
  obtain r t where "m s = (r, t)" by fastforce
  then show "bind_st (bind_st m f) g s = bind_st m (\<lambda>x. bind_st (f x) g) s"
    by (cases r) (simp_all add: bind_st_def)
qed

lemma return_st_simps [simp]: "return_st x s = (Ok x, s)" "bind_st (return_st x) f s = f x s"
  by (simp_all add: return_st_def bind_st_def)

lemma read_st_Ok_iff [result_simps]: "read_st f s = (Ok x, t) \<longleftrightarrow> f s = Ok x \<and> t = s"
  by (auto simp: read_st_def)

lemma read_st_bind: "f s = Ok x \<Longrightarrow> bind_st (read_st f) g s = g x s"
  by (simp add: bind_st_def read_st_def)

lemma fold_st_append: "fold_st f (xs @ ys) a = bind_st (fold_st f xs a) (fold_st f ys)"
proof (induction xs arbitrary: a)
  case Nil
  show ?case by (rule ext) (simp add: return_st_def bind_st_def)
next
  case (Cons x xs)
  have "fold_st f (xs @ ys) = (\<lambda>b. bind_st (fold_st f xs b) (fold_st f ys))"
    by (rule ext) (rule Cons.IH)
  then show ?case by (simp add: bind_st_assoc)
qed

text \<open>The invariant rules of the stateful loops.\<close>

text \<open>An action preserves a property of the state, whatever its outcome.\<close>

definition preserves :: "('s \<Rightarrow> bool) \<Rightarrow> ('s, 'a, 'e) action \<Rightarrow> bool" where
  "preserves I act \<longleftrightarrow> (\<forall>s. I s \<longrightarrow> I (snd (act s)))"

named_theorems preserves \<open>composition of actions that preserve a property\<close>

lemma preservesD: "preserves I act \<Longrightarrow> I s \<Longrightarrow> act s = (r, s') \<Longrightarrow> I s'"
  unfolding preserves_def by (metis snd_conv)

lemma preserves_return [preserves]: "preserves I (return_st x)"
  by (simp add: preserves_def)

lemma preserves_read [preserves]: "preserves I (read_st f)"
  by (simp add: preserves_def read_st_def)

lemma preserves_bind_res:
  assumes "I s" "\<And>x. preserves I (f x)"
  shows "I (snd (bind_res (r, s) f))"
  using assms by (cases r) (auto simp: preserves_def)

lemma preserves_bind [preserves]:
  assumes "preserves I m" "\<And>x. preserves I (f x)"
  shows "preserves I (bind_st m f)"
  unfolding preserves_def bind_st_def
proof (intro allI impI)
  fix s assume "I s"
  then have "I (snd (m s))" using assms(1) by (simp add: preserves_def)
  from preserves_bind_res [OF this assms(2), of "fst (m s)"] show "I (snd (bind_res (m s) f))" by simp
qed

lemma preserves_for [preserves]: "(\<And>x. preserves I (f x)) \<Longrightarrow> preserves I (for_st f xs)"
  by (induction xs) (auto intro: preserves_return preserves_bind)

lemma preserves_fold [preserves]: "(\<And>x a. preserves I (f x a)) \<Longrightarrow> preserves I (fold_st f xs a)"
  by (induction xs arbitrary: a) (auto intro: preserves_return preserves_bind)

lemma for_st_invariant:
  assumes "for_st f xs s = (Ok u, t)" and "P s"
    and "\<And>x a b. x \<in> set xs \<Longrightarrow> P a \<Longrightarrow> f x a = (Ok (), b) \<Longrightarrow> P b"
  shows "P t"
  using assms
proof (induction xs arbitrary: s)
  case (Cons x xs)
  from Cons.prems(1) obtain s' where s': "f x s = (Ok (), s')" "for_st f xs s' = (Ok u, t)"
    by (auto simp: result_simps)
  have "P s'" using Cons.prems(2,3) s'(1) by (meson list.set_intros(1))
  with s'(2) show ?case
    by (rule Cons.IH) (meson Cons.prems(3) list.set_intros(2))
qed simp

lemma fold_st_invariant:
  assumes "fold_st f xs a s = (Ok c, t)" and "P a s"
    and "\<And>x a s b s'. x \<in> set xs \<Longrightarrow> P a s \<Longrightarrow> f x a s = (Ok b, s') \<Longrightarrow> P b s'"
  shows "P c t"
  using assms
proof (induction xs arbitrary: a s)
  case (Cons x xs)
  from Cons.prems(1) obtain b s' where s': "f x a s = (Ok b, s')" "fold_st f xs b s' = (Ok c, t)"
    by (auto simp: result_simps)
  have "P b s'" using Cons.prems(2,3) s'(1) by (meson list.set_intros(1))
  with s'(2) show ?case
    by (rule Cons.IH) (meson Cons.prems(3) list.set_intros(2))
qed simp

subsection \<open>Hash maps\<close>

text \<open>
  A \<open>HashMap\<close> (or \<open>HashSet\<close>) is an association list (a list) with distinct keys. Its order
  stands for the iteration order, which the Rust library leaves open.
\<close>

type_synonym ('k, 'v) hash_map = "('k \<times> 'v) list"

abbreviation hm_get :: "('k, 'v) hash_map \<Rightarrow> 'k \<Rightarrow> 'v option" where
  "hm_get m k \<equiv> map_of m k"

abbreviation hm_insert :: "'k \<Rightarrow> 'v \<Rightarrow> ('k, 'v) hash_map \<Rightarrow> ('k, 'v) hash_map" where
  "hm_insert k v m \<equiv> AList.update k v m"

abbreviation hm_remove :: "'k \<Rightarrow> ('k, 'v) hash_map \<Rightarrow> ('k, 'v) hash_map" where
  "hm_remove k m \<equiv> AList.delete k m"

abbreviation hm_ok :: "('k, 'v) hash_map \<Rightarrow> bool" where
  "hm_ok m \<equiv> distinct (map fst m)"

named_theorems map_simps \<open>lookups after updates of hash maps and ordered maps\<close>

lemmas hm_laws [map_simps] = update_conv' delete_conv'

text \<open>\<open>HashSet::insert\<close>, with the flag that says whether the element is new.\<close>

definition hs_insert :: "'a \<Rightarrow> 'a list \<Rightarrow> bool \<times> 'a list" where
  "hs_insert x xs = (if x \<in> set xs then (False, xs) else (True, xs @ [x]))"

lemma hs_insert_set [simp]: "set (snd (hs_insert x xs)) = insert x (set xs)"
  by (auto simp: hs_insert_def)

lemma hs_insert_distinct [simp]: "distinct (snd (hs_insert x xs)) = distinct xs"
  by (auto simp: hs_insert_def)

lemma hs_insert_new [simp]: "fst (hs_insert x xs) \<longleftrightarrow> x \<notin> set xs"
  by (auto simp: hs_insert_def)

subsection \<open>Ordered maps\<close>

text \<open>A \<open>BTreeMap\<close> is its list of entries, in ascending key order.\<close>

type_synonym ('k, 'v) btree_map = "('k \<times> 'v) list"

fun bt_insert :: "'k::linorder \<Rightarrow> 'v \<Rightarrow> ('k, 'v) btree_map \<Rightarrow> ('k, 'v) btree_map" where
  "bt_insert k v [] = [(k, v)]"
| "bt_insert k v ((k', v') # m) =
     (if k < k' then (k, v) # (k', v') # m
      else if k = k' then (k, v) # m
      else (k', v') # bt_insert k v m)"

abbreviation bt_get :: "('k, 'v) btree_map \<Rightarrow> 'k \<Rightarrow> 'v option" where
  "bt_get m k \<equiv> map_of m k"

definition bt_remove :: "'k \<Rightarrow> ('k, 'v) btree_map \<Rightarrow> ('k, 'v) btree_map" where
  "bt_remove k m = filter (\<lambda>e. fst e \<noteq> k) m"

definition bt_split_off :: "'k::linorder \<Rightarrow> ('k, 'v) btree_map \<Rightarrow> ('k, 'v) btree_map" where
  "bt_split_off k m = filter (\<lambda>e. k \<le> fst e) m"

abbreviation bt_ok :: "('k::linorder, 'v) btree_map \<Rightarrow> bool" where
  "bt_ok m \<equiv> sorted_wrt (<) (map fst m)"

lemma bt_get_insert [map_simps]: "bt_ok m \<Longrightarrow> map_of (bt_insert k v m) = (map_of m)(k \<mapsto> v)"
proof (induction m)
  case (Cons e m)
  obtain k' v' where e: "e = (k', v')" by (cases e)
  show ?case
  proof (cases "k < k'")
    case True
    then have "k \<notin> fst ` set m" using Cons.prems e by force
    with True show ?thesis by (auto simp: e fun_eq_iff)
  next
    case False
    with Cons show ?thesis by (auto simp: e fun_eq_iff)
  qed
qed simp

lemma bt_insert_keys: "fst ` set (bt_insert k v m) = insert k (fst ` set m)"
  by (induction k v m rule: bt_insert.induct) auto

lemma bt_insert_ok [simp, intro]: "bt_ok m \<Longrightarrow> bt_ok (bt_insert k v m)"
proof (induction k v m rule: bt_insert.induct)
  case (2 k v k' v' m)
  have "k' < x" if "x \<in> fst ` set (bt_insert k v m)" "\<not> k < k'" "k \<noteq> k'" for x
    using that 2 by (auto simp: bt_insert_keys)
  moreover have "k < x" if "x \<in> fst ` set m" "k < k'" for x
    using that 2 by force
  ultimately show ?case using 2 by auto
qed simp

lemma bt_get_remove [map_simps]: "map_of (bt_remove k m) = (map_of m)(k := None)"
  by (induction m) (auto simp: bt_remove_def fun_eq_iff)

lemma bt_ok_filter: "bt_ok m \<Longrightarrow> bt_ok (filter P m)"
  by (induction m) auto

lemma bt_remove_ok [simp, intro]: "bt_ok m \<Longrightarrow> bt_ok (bt_remove k m)"
  by (simp add: bt_remove_def bt_ok_filter)

lemma bt_split_off_ok [simp, intro]: "bt_ok m \<Longrightarrow> bt_ok (bt_split_off k m)"
  by (simp add: bt_split_off_def bt_ok_filter)

lemma bt_get_split_off [map_simps]:
  "map_of (bt_split_off k m) x = (if k \<le> x then map_of m x else None)"
  by (induction m) (auto simp: bt_split_off_def)

lemma bt_ok_distinct: "bt_ok m \<Longrightarrow> distinct (map fst m)"
  by (simp add: strict_sorted_iff)

text \<open>An ordered map is determined by its entries.\<close>

lemma bt_ok_ext: "bt_ok m \<Longrightarrow> bt_ok n \<Longrightarrow> map_of m = map_of n \<Longrightarrow> m = n"
proof -
  assume ok: "bt_ok m" "bt_ok n" and eq: "map_of m = map_of n"
  have rebuild: "l = map (\<lambda>k. (k, the (map_of l k))) (map fst l)" if "bt_ok l" for l :: "('a \<times> 'b) list"
    using bt_ok_distinct [OF that] by (auto simp: map_idI comp_def intro!: map_idI [symmetric])
  have "fst ` set m = fst ` set n" using eq by (metis dom_map_of_conv_image_fst)
  then have "map fst m = map fst n"
    using ok by (metis set_map sorted_list_of_set.idem_if_sorted_distinct strict_sorted_iff)
  then show "m = n" using rebuild [OF ok(1)] rebuild [OF ok(2)] eq by metis
qed

lemma bt_insert_fold:
  assumes "bt_ok acc" "distinct (map fst es)" "fst ` set es \<inter> fst ` set acc = {}"
  shows "bt_ok (fold (\<lambda>(k, v). bt_insert k v) es acc) \<and>
    map_of (fold (\<lambda>(k, v). bt_insert k v) es acc) = map_of acc ++ map_of es"
  using assms
proof (induction es arbitrary: acc)
  case (Cons e es)
  obtain k v where e: "e = (k, v)" by (cases e)
  have "fst ` set es \<inter> fst ` set (bt_insert k v acc) = {}"
    using Cons.prems(2,3) by (auto simp: e bt_insert_keys)
  then have "bt_ok (fold (\<lambda>(k, v). bt_insert k v) es (bt_insert k v acc)) \<and>
    map_of (fold (\<lambda>(k, v). bt_insert k v) es (bt_insert k v acc)) =
      map_of (bt_insert k v acc) ++ map_of es"
    using Cons.IH [of "bt_insert k v acc"] Cons.prems(1,2) by (simp add: e)
  moreover have "map_of es k = None"
    using Cons.prems(2) by (simp add: e map_of_eq_None_iff)
  then have "map_of (bt_insert k v acc) ++ map_of es = map_of acc ++ map_of (e # es)"
    using Cons.prems(1) by (simp add: e map_simps fun_eq_iff map_add_def split: option.split)
  ultimately show ?case unfolding e by (simp del: map_of.simps fun_upd_apply)
qed simp

subsection \<open>Words and natural numbers\<close>

lemma unat_less_2p64: "unat (x :: 64 word) < 2 ^ 64"
  using unsigned_less [of x, where 'a = nat] by simp

lemma unat_of_nat_u64: "n < 2 ^ 64 \<Longrightarrow> unat (of_nat n :: 64 word) = n"
  by (simp add: unat_of_nat take_bit_nat_eq_self)

lemma unat_sub_of_nat: "n \<le> unat (w :: 64 word) \<Longrightarrow> unat (w - of_nat n) = unat w - n"
  using unat_less_2p64 [of w] by (simp add: unat_sub_if' unat_of_nat_u64)

lemma unat_Suc_u64: "Suc (unat (w :: 64 word)) < 2 ^ 64 \<Longrightarrow> unat (w + 1) = Suc (unat w)"
  by (simp add: unat_plus_if')

end
