(* ===== verification/Base16.thy ===== *)
theory Base16
  imports Prelude
begin

text \<open>
  \<open>core/src/base16.rs\<close>: printing bytes as hexadecimal digits and reading them back. A Rust
  \<open>&str\<close> is the list of its UTF-8 bytes (a HOL \<open>char\<close> is a byte); slicing one off a
  character boundary panics.
\<close>

subsection \<open>String slices and the radix parser of the standard library\<close>

definition is_char_boundary :: "string \<Rightarrow> nat \<Rightarrow> bool" where
  "is_char_boundary s i \<longleftrightarrow>
     i = 0 \<or> i = length s \<or>
     (i < length s \<and> \<not> (128 \<le> (of_char (s ! i) :: nat) \<and> (of_char (s ! i) :: nat) < 192))"

definition str_slice :: "string \<Rightarrow> nat \<Rightarrow> nat \<Rightarrow> (string, 'e) result" where
  "str_slice s i j =
     (if i \<le> j \<and> j \<le> length s \<and> is_char_boundary s i \<and> is_char_boundary s j
      then Ok (take (j - i) (drop i s)) else Panic)"

definition to_digit16 :: "char \<Rightarrow> nat option" where
  "to_digit16 ch =
     (let n = (of_char ch :: nat) in
      if 48 \<le> n \<and> n \<le> 57 then Some (n - 48)
      else if 97 \<le> n \<and> n \<le> 102 then Some (n - 87)
      else if 65 \<le> n \<and> n \<le> 70 then Some (n - 55)
      else None)"

fun radix16_u8_loop :: "nat \<Rightarrow> string \<Rightarrow> nat option" where
  "radix16_u8_loop acc [] = Some acc"
| "radix16_u8_loop acc (ch # cs) =
     (case to_digit16 ch of
        None \<Rightarrow> None
      | Some d \<Rightarrow> if acc * 16 + d < 256 then radix16_u8_loop (acc * 16 + d) cs else None)"

text \<open>\<open>u8::from_str_radix(_, 16)\<close>: one leading plus sign is allowed, overflow is an error.\<close>

definition u8_from_str_radix16 :: "string \<Rightarrow> u8 option" where
  "u8_from_str_radix16 s =
     (let digits = (case s of [] \<Rightarrow> [] | ch # cs \<Rightarrow> if ch = CHR ''+'' then cs else s) in
      if digits = [] then None else map_option of_nat (radix16_u8_loop 0 digits))"

subsection \<open>The module's own functions\<close>

definition BASE16_DIGITS :: string where
  "BASE16_DIGITS = ''0123456789abcdef''"

definition base16_digit :: "nat \<Rightarrow> char" where
  "base16_digit n = BASE16_DIGITS ! n"

fun from_bin :: "bin \<Rightarrow> string" where
  "from_bin [] = []"
| "from_bin (byte # rest) =
     (let upper = drop_bit 4 byte; lower = byte AND 15
      in base16_digit (unat upper) # base16_digit (unat lower) # from_bin rest)"

fun to_bin_loop :: "string \<Rightarrow> nat \<Rightarrow> bin \<Rightarrow> (bin, string) result" where
  "to_bin_loop s i res =
     (if i = 0 then Ok res
      else and_then (str_slice s (i - 2) i)
        (\<lambda>str_segment. case u8_from_str_radix16 str_segment of
           Some value \<Rightarrow> to_bin_loop s (i - 2) (res @ [value])
         | None \<Rightarrow> Err ''Invalid character.''))"

declare to_bin_loop.simps [simp del]

definition to_bin :: "string \<Rightarrow> (bin, string) result" where
  "to_bin base16 =
     and_then (if 3 \<le> length base16 then str_slice base16 0 2 else Ok [])
       (\<lambda>front.
          let s = (if front = ''0x'' then drop 2 base16 else base16);
              i = length s
          in if i = 0 then Err ''Value is empty.''
             else and_then (to_bin_loop s i []) (\<lambda>result. Ok (rev result)))"

subsection \<open>Digits\<close>

lemma digit_table:
  "list_all (\<lambda>n. to_digit16 (base16_digit n) = Some n \<and> (of_char (base16_digit n) :: nat) < 128 \<and>
     base16_digit n \<noteq> CHR ''+'' \<and> base16_digit n \<noteq> CHR ''x'') [0..<16]"
  by code_simp

lemma digit_props:
  assumes "n < 16"
  shows to_digit_digit: "to_digit16 (base16_digit n) = Some n"
    and digit_ascii: "(of_char (base16_digit n) :: nat) < 128"
    and digit_not_plus: "base16_digit n \<noteq> CHR ''+''"
    and digit_not_x: "base16_digit n \<noteq> CHR ''x''"
  using assms digit_table by (auto simp: list_all_iff)

lemma nibbles:
  fixes b :: u8
  shows upper_unat: "unat (drop_bit 4 b) = unat b div 16"
    and lower_unat: "unat (b AND 15) = unat b mod 16"
proof -
  show "unat (drop_bit 4 b) = unat b div 16"
    by (simp only: unat_drop_bit_eq) (simp add: drop_bit_eq_div)
  have "b AND 15 = take_bit 4 b"
    by (simp add: take_bit_eq_mask mask_eq_exp_minus_1)
  then show "unat (b AND 15) = unat b mod 16"
    by (simp add: take_bit_eq_mod unat_mod)
qed

lemma unat_u8: "unat (b :: u8) < 256"
  using unsigned_less [of b, where 'a = nat] by simp

lemma from_bin_byte:
  "from_bin (b # bs) = base16_digit (unat b div 16) # base16_digit (unat b mod 16) # from_bin bs"
  by (simp add: nibbles Let_def)

lemma nibble_bounds [simp]: "unat (b :: u8) div 16 < 16" "unat (b :: u8) mod 16 < 16"
  using unat_u8 [of b] by auto

lemma radix_byte: "u8_from_str_radix16 (from_bin [b]) = Some b"
proof -
  have "unat b div 16 * 16 + unat b mod 16 < 256" using unat_u8 [of b] by simp
  then show ?thesis
    by (simp add: from_bin_byte u8_from_str_radix16_def to_digit_digit digit_not_plus
        del: from_bin.simps(2))
qed

subsection \<open>Printed bytes as strings\<close>

lemma length_from_bin [simp]: "length (from_bin bs) = 2 * length bs"
  by (induction bs) (auto simp: Let_def)

lemma from_bin_append: "from_bin (as @ bs) = from_bin as @ from_bin bs"
  by (induction as) (auto simp: Let_def)

lemma drop_from_bin: "drop (2 * k) (from_bin bs) = from_bin (drop k bs)"
proof (induction k arbitrary: bs)
  case (Suc k)
  then show ?case by (cases bs) (auto simp: Let_def)
qed simp

lemma take_from_bin: "take (2 * k) (from_bin bs) = from_bin (take k bs)"
proof (induction k arbitrary: bs)
  case (Suc k)
  then show ?case by (cases bs) (auto simp: Let_def)
qed simp

lemma from_bin_ascii: "ch \<in> set (from_bin bs) \<Longrightarrow> (of_char ch :: nat) < 128"
  by (induction bs) (auto simp: from_bin_byte digit_ascii simp del: from_bin.simps(2))

lemma ascii_boundary:
  assumes "\<And>ch. ch \<in> set s \<Longrightarrow> (of_char ch :: nat) < 128" and "i \<le> length s"
  shows "is_char_boundary s i"
  using assms by (auto simp: is_char_boundary_def not_le dest!: nth_mem)

lemma str_slice_ascii:
  assumes "\<And>ch. ch \<in> set s \<Longrightarrow> (of_char ch :: nat) < 128" and "i \<le> j" and "j \<le> length s"
  shows "str_slice s i j = Ok (take (j - i) (drop i s))"
  using assms ascii_boundary [of s i] ascii_boundary [of s j] by (simp add: str_slice_def)

lemma from_bin_not_0x: "take 2 (from_bin bs) \<noteq> ''0x''"
proof (cases bs)
  case (Cons b bs')
  then show ?thesis
    using digit_not_x [of "unat b mod 16"] by (simp add: from_bin_byte del: from_bin.simps(2))
qed simp

lemma to_bin_loop_from_bin:
  "k \<le> length bs \<Longrightarrow> to_bin_loop (from_bin bs) (2 * k) res = Ok (res @ rev (take k bs))"
proof (induction k arbitrary: res)
  case 0
  then show ?case by (simp add: to_bin_loop.simps [of _ 0])
next
  case (Suc k)
  have "str_slice (from_bin bs) (2 * k) (2 * Suc k)
      = (Ok (take 2 (drop (2 * k) (from_bin bs))) :: (string, string) result)"
    using Suc.prems by (subst str_slice_ascii) (auto intro: from_bin_ascii)
  also have "take 2 (drop (2 * k) (from_bin bs)) = from_bin (take 1 (drop k bs))"
    using take_from_bin [of 1 "drop k bs"] by (simp add: drop_from_bin)
  also have "take 1 (drop k bs) = [bs ! k]"
    using Suc.prems by (simp add: take_Suc_conv_app_nth)
  finally have "str_slice (from_bin bs) (2 * Suc k - 2) (2 * Suc k)
      = (Ok (from_bin [bs ! k]) :: (string, string) result)"
    by simp
  then have "to_bin_loop (from_bin bs) (2 * Suc k) res
      = to_bin_loop (from_bin bs) (2 * k) (res @ [bs ! k])"
    by (simp add: to_bin_loop.simps [of "from_bin bs" "Suc (Suc (2 * k))"] radix_byte
        del: from_bin.simps(2))
  with Suc show ?case by (simp add: take_Suc_conv_app_nth)
qed

lemma from_bin_Nil_iff [simp]: "from_bin bs = [] \<longleftrightarrow> bs = []"
  by (cases bs) (auto simp: Let_def)

lemma to_bin_from_bin:
  assumes "bs \<noteq> []"
  shows "to_bin (from_bin bs) = Ok bs"
proof -
  let ?s = "from_bin bs"
  have "str_slice ?s 0 2 = (Ok (take 2 ?s) :: (string, string) result)"
    using assms by (subst str_slice_ascii) (auto intro: from_bin_ascii simp: Suc_le_eq)
  moreover have "to_bin_loop ?s (length ?s) [] = Ok (rev bs)"
    using to_bin_loop_from_bin [of "length bs" bs "[]"] by simp
  ultimately show ?thesis
    using assms by (simp add: to_bin_def Let_def from_bin_not_0x)
qed

text \<open>The same bytes are read when the digits follow a \<open>0x\<close> prefix, the printed form of a hash.\<close>

lemma to_bin_0x_from_bin:
  assumes "bs \<noteq> []"
  shows "to_bin (''0x'' @ from_bin bs) = Ok bs"
proof -
  let ?s = "''0x'' @ from_bin bs"
  have len: "3 \<le> length ?s" using assms by (cases bs) auto
  have "str_slice ?s 0 2 = (Ok ''0x'' :: (string, string) result)"
    by (subst str_slice_ascii) (auto dest: from_bin_ascii)
  moreover have "to_bin_loop (from_bin bs) (length (from_bin bs)) [] = Ok (rev bs)"
    using to_bin_loop_from_bin [of "length bs" bs "[]"] by simp
  ultimately show ?thesis
    using assms len by (simp add: to_bin_def Let_def)
qed

end
