(* ===== verification/Big_Uint.thy ===== *)
theory Big_Uint
  imports Base16
begin

text \<open>
  \<open>core/src/primitives/u256.rs\<close> and \<open>u160.rs\<close>: the fixed-width identifiers of blocks,
  transactions (256 bits, four \<open>u64\<close> limbs) and accounts (160 bits, five \<open>u32\<close> limbs). The
  limb of index 0 is the least significant one and is the first argument of the constructor.
  The comparisons, the conversions to and from bytes and the hexadecimal text form are
  modelled as the code has them, and related to the number that the limbs denote.
\<close>

subsection \<open>Bytes and numbers\<close>

text \<open>Little-endian bytes of a number, and the number of little-endian bytes.\<close>

fun nat_of_le :: "bin \<Rightarrow> nat" where
  "nat_of_le [] = 0"
| "nat_of_le (b # bs) = unat b + 256 * nat_of_le bs"

fun nat_to_le :: "nat \<Rightarrow> nat \<Rightarrow> bin" where
  "nat_to_le 0 m = []"
| "nat_to_le (Suc n) m = of_nat (m mod 256) # nat_to_le n (m div 256)"

lemma length_nat_to_le [simp]: "length (nat_to_le n m) = n"
  by (induction n arbitrary: m) auto

lemma unat_of_nat_u8: "m < 256 \<Longrightarrow> unat (of_nat m :: u8) = m"
  by (simp add: unat_of_nat take_bit_nat_eq_self)

lemma nat_of_to_le: "nat_of_le (nat_to_le n m) = m mod 256 ^ n"
proof (induction n arbitrary: m)
  case (Suc n)
  have "m mod 256 ^ Suc n = m mod 256 + 256 * (m div 256 mod 256 ^ n)"
    by (simp add: mod_mult2_eq)
  with Suc show ?case by (simp add: unat_of_nat_u8)
qed simp

lemma nat_to_of_le: "nat_to_le (length bs) (nat_of_le bs) = bs"
proof (induction bs)
  case (Cons b bs)
  have "(unat b + 256 * nat_of_le bs) mod 256 = unat b"
    and "(unat b + 256 * nat_of_le bs) div 256 = nat_of_le bs"
    using unat_u8 [of b] by auto
  with Cons show ?case by simp
qed simp

lemma nat_of_le_bound: "nat_of_le bs < 256 ^ length bs"
proof (induction bs)
  case (Cons b bs)
  have "256 * nat_of_le bs + 256 \<le> 256 * 256 ^ length bs"
    using Cons.IH by (simp add: Suc_le_eq [symmetric])
  then show ?case using unat_u8 [of b] by simp
qed simp

lemma nat_of_le_append: "nat_of_le (as @ bs) = nat_of_le as + 256 ^ length as * nat_of_le bs"
  by (induction as) (auto simp: algebra_simps)

lemma nat_to_le_append:
  "nat_to_le (m + n) x = nat_to_le m x @ nat_to_le n (x div 256 ^ m)"
  by (induction m arbitrary: x) (auto simp: div_mult2_eq)

lemma nat_of_le_inj: "length as = length bs \<Longrightarrow> nat_of_le as = nat_of_le bs \<Longrightarrow> as = bs"
  by (metis nat_to_of_le)

text \<open>The fixed-width reads and writes of the byte-order library, for a word of \<open>n\<close> bytes.\<close>

definition read_le :: "bin \<Rightarrow> 'a::len word" where
  "read_le bs = of_nat (nat_of_le bs)"

definition write_le :: "nat \<Rightarrow> 'a::len word \<Rightarrow> bin" where
  "write_le n w = nat_to_le n (unat w)"

definition read_be :: "bin \<Rightarrow> 'a::len word" where
  "read_be bs = read_le (rev bs)"

definition write_be :: "nat \<Rightarrow> 'a::len word \<Rightarrow> bin" where
  "write_be n w = rev (write_le n w)"

lemma length_write [simp]: "length (write_le n w) = n" "length (write_be n w) = n"
  by (simp_all add: write_le_def write_be_def)

lemma read_write_le:
  assumes "LENGTH('a::len) = 8 * n"
  shows "read_le (write_le n w) = (w :: 'a word)"
proof -
  have "unat w < 256 ^ n"
    using unsigned_less [of w, where 'a = nat] assms by (simp add: power_mult)
  then show ?thesis by (simp add: read_le_def write_le_def nat_of_to_le)
qed

lemma write_read_le:
  assumes "LENGTH('a::len) = 8 * n" and "length bs = n"
  shows "write_le n (read_le bs :: 'a word) = bs"
proof -
  have "nat_of_le bs < 2 ^ LENGTH('a)"
    using nat_of_le_bound [of bs] assms by (simp add: power_mult)
  then show ?thesis
    using nat_to_of_le [of bs] assms(2)
    by (simp add: read_le_def write_le_def unat_of_nat take_bit_nat_eq_self)
qed

lemma read_write_be: "LENGTH('a::len) = 8 * n \<Longrightarrow> read_be (write_be n w) = (w :: 'a word)"
  by (simp add: read_be_def write_be_def read_write_le)

lemma write_read_be:
  "LENGTH('a::len) = 8 * n \<Longrightarrow> length bs = n \<Longrightarrow> write_be n (read_be bs :: 'a word) = bs"
  by (simp add: read_be_def write_be_def write_read_le)

lemma unat_read_le:
  assumes "LENGTH('a::len) = 8 * n" and "length bs = n"
  shows "unat (read_le bs :: 'a word) = nat_of_le bs"
  using nat_of_le_bound [of bs] assms
  by (simp add: read_le_def unat_of_nat take_bit_nat_eq_self power_mult)

lemma write_le_inj:
  "LENGTH('a::len) = 8 * n \<Longrightarrow> write_le n (v :: 'a word) = write_le n w \<longleftrightarrow> v = w"
  by (metis read_write_le)

subsection \<open>Comparison of limbs\<close>

datatype ordering = Less | Equal | Greater

definition word_cmp :: "'a::len word \<Rightarrow> 'a word \<Rightarrow> ordering" where
  "word_cmp a b = (if a < b then Less else if a = b then Equal else Greater)"

text \<open>The loop of \<open>cmp\<close>, over the limbs from the most significant one.\<close>

fun cmp_limbs :: "('a::len word \<times> 'a word) list \<Rightarrow> ordering" where
  "cmp_limbs [] = Equal"
| "cmp_limbs ((a, b) # rest) =
     (let order = word_cmp a b in if order \<noteq> Equal then order else cmp_limbs rest)"

text \<open>The number of a list of limbs, the most significant one first.\<close>

fun limbs_nat :: "'a::len word list \<Rightarrow> nat" where
  "limbs_nat [] = 0"
| "limbs_nat (a # as) = unat a * (2 ^ LENGTH('a)) ^ length as + limbs_nat as"

lemma limbs_nat_bound: "limbs_nat (as :: 'a::len word list) < (2 ^ LENGTH('a)) ^ length as"
proof (induction as)
  case (Cons a as)
  let ?B = "(2::nat) ^ LENGTH('a)"
  have "unat a + 1 \<le> ?B" by (simp add: Suc_leI del: Suc_le_eq)
  then have "(unat a + 1) * ?B ^ length as \<le> ?B * ?B ^ length as" by (rule mult_le_mono1)
  with Cons.IH show ?case by simp
qed simp

lemma limbs_nat_step:
  fixes a b :: "'a::len word"
  assumes "a < b" and "length as = length bs"
  shows "limbs_nat (a # as) < limbs_nat (b # bs)"
proof -
  let ?B = "(2::nat) ^ LENGTH('a)"
  have "unat a + 1 \<le> unat b" using assms(1) by (simp add: word_less_nat_alt)
  then have "(unat a + 1) * ?B ^ length as \<le> unat b * ?B ^ length as" by (rule mult_le_mono1)
  then show ?thesis using limbs_nat_bound [of as] assms(2) by simp
qed

lemma cmp_limbs_zip:
  assumes "length as = length bs"
  shows "cmp_limbs (zip as bs) =
    (if limbs_nat as < limbs_nat bs then Less
     else if limbs_nat as = limbs_nat bs then Equal else Greater)"
  using assms
proof (induction as bs rule: list_induct2)
  case (Cons a as b bs)
  then consider "a < b" | "a = b" | "b < a" by (meson less_linear)
  then show ?case
  proof cases
    case 1
    with limbs_nat_step [OF this, of as bs] Cons show ?thesis by (simp add: word_cmp_def)
  next
    case 2
    with Cons show ?thesis by (simp add: word_cmp_def)
  next
    case 3
    with limbs_nat_step [OF this, of bs as] Cons show ?thesis by (auto simp: word_cmp_def)
  qed
qed simp

lemma limbs_nat_inj: "length as = length bs \<Longrightarrow> limbs_nat as = limbs_nat bs \<Longrightarrow> as = bs"
proof (induction as bs rule: list_induct2)
  case (Cons a as b bs)
  have "a = b"
    using limbs_nat_step [of a b as bs] limbs_nat_step [of b a bs as] Cons.hyps Cons.prems
    by (metis less_irrefl neqE)
  with Cons show ?case by simp
qed simp

subsection \<open>U256\<close>

datatype u256 = U256 u64 u64 u64 u64

fun u256_limbs :: "u256 \<Rightarrow> u64 list" where
  "u256_limbs (U256 a b c d) = [a, b, c, d]"

definition U256_ZERO :: u256 where
  "U256_ZERO = U256 0 0 0 0"

definition U256_MAX :: u256 where
  "U256_MAX = U256 (- 1) (- 1) (- 1) (- 1)"

definition u256_cmp :: "u256 \<Rightarrow> u256 \<Rightarrow> ordering" where
  "u256_cmp x rhs = cmp_limbs (rev (zip (u256_limbs x) (u256_limbs rhs)))"

definition u256_lt :: "u256 \<Rightarrow> u256 \<Rightarrow> bool" where
  "u256_lt x rhs = (case u256_cmp x rhs of Less \<Rightarrow> True | _ \<Rightarrow> False)"

definition u256_le :: "u256 \<Rightarrow> u256 \<Rightarrow> bool" where
  "u256_le x rhs = (case u256_cmp x rhs of Less \<Rightarrow> True | Equal \<Rightarrow> True | _ \<Rightarrow> False)"

definition u256_gt :: "u256 \<Rightarrow> u256 \<Rightarrow> bool" where
  "u256_gt x rhs = (\<not> u256_le x rhs)"

definition u256_ge :: "u256 \<Rightarrow> u256 \<Rightarrow> bool" where
  "u256_ge x rhs = (\<not> u256_lt x rhs)"

definition u256_from_u64 :: "u64 \<Rightarrow> u256" where
  "u256_from_u64 v = U256 v 0 0 0"

fun u256_into_u64 :: "u256 \<Rightarrow> u64" where
  "u256_into_u64 (U256 a b c d) = a"

definition u256_is_zero :: "u256 \<Rightarrow> bool" where
  "u256_is_zero x = (x = U256_ZERO)"

text \<open>One chunk of a byte slice.\<close>

definition chunk :: "nat \<Rightarrow> nat \<Rightarrow> bin \<Rightarrow> bin" where
  "chunk w i buf = take w (drop (i * w) buf)"

definition u256_from_little_endian :: "bin \<Rightarrow> (u256, 'e) result" where
  "u256_from_little_endian buf =
     (if 32 \<le> length buf
      then Ok (U256 (read_le (chunk 8 0 buf)) (read_le (chunk 8 1 buf))
                    (read_le (chunk 8 2 buf)) (read_le (chunk 8 3 buf)))
      else Panic)"

text \<open>The loop of \<open>from_big_endian\<close>, for a buffer that is long enough.\<close>

definition u256_read_big_endian :: "bin \<Rightarrow> u256" where
  "u256_read_big_endian buf =
     U256 (read_be (chunk 8 3 buf)) (read_be (chunk 8 2 buf))
          (read_be (chunk 8 1 buf)) (read_be (chunk 8 0 buf))"

definition u256_from_big_endian :: "bin \<Rightarrow> (u256, 'e) result" where
  "u256_from_big_endian buf =
     (if 32 \<le> length buf then Ok (u256_read_big_endian buf) else Panic)"

text \<open>The writers overwrite the first 32 bytes of the slice they are given.\<close>

definition u256_to_little_endian :: "u256 \<Rightarrow> bin \<Rightarrow> (bin, 'e) result" where
  "u256_to_little_endian x buf =
     (if 32 \<le> length buf
      then Ok (concat (map (write_le 8) (u256_limbs x)) @ drop 32 buf) else Panic)"

definition u256_to_big_endian :: "u256 \<Rightarrow> bin \<Rightarrow> (bin, 'e) result" where
  "u256_to_big_endian x buf =
     (if 32 \<le> length buf
      then Ok (concat (map (write_be 8) (rev (u256_limbs x))) @ drop 32 buf) else Panic)"

text \<open>\<open>to_vec\<close>: the bounded bincode form, which the module's test shows to be little-endian.\<close>

definition u256_to_vec :: "u256 \<Rightarrow> bin" where
  "u256_to_vec x = concat (map (write_le 8) (u256_limbs x))"

text \<open>\<open>{:016x}\<close> and \<open>{:08x}\<close>: zero-padded lower-case hexadecimal of a given width.\<close>

fun fmt_hex :: "nat \<Rightarrow> nat \<Rightarrow> string" where
  "fmt_hex 0 m = []"
| "fmt_hex (Suc n) m = fmt_hex n (m div 16) @ [base16_digit (m mod 16)]"

definition u256_to_string :: "u256 \<Rightarrow> string" where
  "u256_to_string x =
     ''0x'' @ concat (map (\<lambda>limb. fmt_hex 16 (unat limb)) (rev (u256_limbs x)))"

text \<open>\<open>from_str\<close> pads the reversed bytes with zeros up to the length 33.\<close>

definition u256_from_str :: "string \<Rightarrow> (u256, string) result" where
  "u256_from_str v =
     and_then (to_bin v)
       (\<lambda>bin. if 32 < length bin then Err ''Value too large.''
              else u256_from_little_endian (rev bin @ replicate (33 - length bin) 0))"

subsection \<open>U160\<close>

datatype u160 = U160 u32 u32 u32 u32 u32

fun u160_limbs :: "u160 \<Rightarrow> u32 list" where
  "u160_limbs (U160 a b c d e) = [a, b, c, d, e]"

definition U160_ZERO :: u160 where
  "U160_ZERO = U160 0 0 0 0 0"

definition U160_MAX :: u160 where
  "U160_MAX = U160 (- 1) (- 1) (- 1) (- 1) (- 1)"

definition u160_cmp :: "u160 \<Rightarrow> u160 \<Rightarrow> ordering" where
  "u160_cmp x rhs = cmp_limbs (rev (zip (u160_limbs x) (u160_limbs rhs)))"

definition u160_lt :: "u160 \<Rightarrow> u160 \<Rightarrow> bool" where
  "u160_lt x rhs = (case u160_cmp x rhs of Less \<Rightarrow> True | _ \<Rightarrow> False)"

definition u160_le :: "u160 \<Rightarrow> u160 \<Rightarrow> bool" where
  "u160_le x rhs = (case u160_cmp x rhs of Less \<Rightarrow> True | Equal \<Rightarrow> True | _ \<Rightarrow> False)"

definition u160_from_u64 :: "u64 \<Rightarrow> u160" where
  "u160_from_u64 v = U160 (ucast v) (ucast (drop_bit 32 v)) 0 0 0"

definition u160_is_zero :: "u160 \<Rightarrow> bool" where
  "u160_is_zero x = (x = U160_ZERO)"

definition u160_from_little_endian :: "bin \<Rightarrow> (u160, 'e) result" where
  "u160_from_little_endian buf =
     (if 20 \<le> length buf
      then Ok (U160 (read_le (chunk 4 0 buf)) (read_le (chunk 4 1 buf))
                    (read_le (chunk 4 2 buf)) (read_le (chunk 4 3 buf))
                    (read_le (chunk 4 4 buf)))
      else Panic)"

definition u160_read_big_endian :: "bin \<Rightarrow> u160" where
  "u160_read_big_endian buf =
     U160 (read_be (chunk 4 4 buf)) (read_be (chunk 4 3 buf)) (read_be (chunk 4 2 buf))
          (read_be (chunk 4 1 buf)) (read_be (chunk 4 0 buf))"

definition u160_from_big_endian :: "bin \<Rightarrow> (u160, 'e) result" where
  "u160_from_big_endian buf =
     (if 20 \<le> length buf then Ok (u160_read_big_endian buf) else Panic)"

definition u160_to_little_endian :: "u160 \<Rightarrow> bin \<Rightarrow> (bin, 'e) result" where
  "u160_to_little_endian x buf =
     (if 20 \<le> length buf
      then Ok (concat (map (write_le 4) (u160_limbs x)) @ drop 20 buf) else Panic)"

definition u160_to_big_endian :: "u160 \<Rightarrow> bin \<Rightarrow> (bin, 'e) result" where
  "u160_to_big_endian x buf =
     (if 20 \<le> length buf
      then Ok (concat (map (write_be 4) (rev (u160_limbs x))) @ drop 20 buf) else Panic)"

definition u160_to_vec :: "u160 \<Rightarrow> bin" where
  "u160_to_vec x = concat (map (write_le 4) (u160_limbs x))"

definition u160_to_string :: "u160 \<Rightarrow> string" where
  "u160_to_string x =
     ''0x'' @ concat (map (\<lambda>limb. fmt_hex 8 (unat limb)) (rev (u160_limbs x)))"

definition u160_from_str :: "string \<Rightarrow> (u160, string) result" where
  "u160_from_str v =
     and_then (to_bin v)
       (\<lambda>bin. if 20 < length bin then Err ''Value too large.''
              else u160_from_little_endian (rev bin @ replicate (21 - length bin) 0))"

subsection \<open>What the two types share\<close>

lemma fmt_hex_from_bin: "fmt_hex (2 * k) m = from_bin (rev (nat_to_le k m))"
proof (induction k arbitrary: m)
  case (Suc k)
  have "m mod 256 = 16 * (m div 16 mod 16) + m mod 16"
    using mod_mult2_eq [of m 16 16] by simp
  then have "m mod 256 div 16 = m div 16 mod 16" "m mod 256 mod 16 = m mod 16" by simp_all
  then have "unat (drop_bit 4 (of_nat (m mod 256) :: u8)) = m div 16 mod 16"
    and "unat ((of_nat (m mod 256) :: u8) AND 15) = m mod 16"
    by (simp_all add: nibbles unat_of_nat_u8)
  moreover have "m div 16 div 16 = m div 256" by (simp add: div_mult2_eq [symmetric])
  ultimately show ?case using Suc by (simp add: from_bin_append)
qed simp

lemma concat_write_be: "concat (map (write_be w) (rev ls)) = rev (concat (map (write_le w) ls))"
  by (induction ls) (auto simp: write_be_def)

lemma length_concat_write_le [simp]: "length (concat (map (write_le w) ls)) = w * length ls"
  by (induction ls) auto

lemma concat_write_le_value:
  assumes "LENGTH('a::len) = 8 * w"
  shows "nat_of_le (concat (map (write_le w) (ls :: 'a word list))) = limbs_nat (rev ls)"
proof -
  have append: "limbs_nat (as @ [l]) = limbs_nat as * 2 ^ LENGTH('a) + unat l"
    for as and l :: "'a word" by (induction as) (auto simp: algebra_simps)
  have limb: "nat_of_le (write_le w l) = unat l" for l :: "'a word"
    using unat_read_le [OF assms, of "write_le w l"] by (simp add: read_write_le assms)
  have "(256::nat) ^ w = 2 ^ LENGTH('a)" by (simp add: assms power_mult)
  then show ?thesis
    by (induction ls) (simp_all add: nat_of_le_append append limb mult.commute)
qed

text \<open>
  The laws a fixed-width identifier of \<open>n\<close> limbs of \<open>w\<close> bytes keeps: the limbs determine the
  value, the comparison runs over them from the most significant one, and reading from
  little-endian bytes is the inverse of writing the limbs.
\<close>

locale limb_uint =
  fixes limbs :: "'u \<Rightarrow> 'a::len word list"
    and uint_cmp :: "'u \<Rightarrow> 'u \<Rightarrow> ordering"
    and read_uint :: "bin \<Rightarrow> ('u, string) result"
    and num :: "'u \<Rightarrow> nat"
    and n w :: nat
  assumes limbs_inj: "limbs x = limbs y \<Longrightarrow> x = y"
    and length_limbs: "length (limbs x) = n"
    and limb_width: "LENGTH('a) = 8 * w"
    and nonempty: "0 < n"
    and num_def: "num x = limbs_nat (rev (limbs x))"
    and cmp_limbs: "uint_cmp x y = cmp_limbs (rev (zip (limbs x) (limbs y)))"
    and read_write: "read_uint (concat (map (write_le w) (limbs x)) @ bs) = Ok x"
    and write_read: "w * n \<le> length bs \<Longrightarrow>
      \<exists>x. read_uint bs = Ok x \<and> concat (map (write_le w) (limbs x)) = take (w * n) bs"
begin

lemma num_inj: "num x = num y \<longleftrightarrow> x = y"
  by (metis length_limbs length_rev limbs_inj limbs_nat_inj num_def rev_rev_ident)

lemma num_bound: "num x < 256 ^ (w * n)"
  using limbs_nat_bound [of "rev (limbs x)"]
  by (simp add: num_def length_limbs limb_width power_mult)

lemma cmp_num:
  "uint_cmp x y = (if num x < num y then Less else if x = y then Equal else Greater)"
proof -
  have "rev (zip (limbs x) (limbs y)) = zip (rev (limbs x)) (rev (limbs y))"
    by (simp add: zip_rev length_limbs)
  then show ?thesis
    using cmp_limbs_zip [of "rev (limbs x)" "rev (limbs y)"] num_inj [of x y]
    by (simp add: cmp_limbs length_limbs num_def)
qed

lemma bytes_num: "nat_of_le (concat (map (write_le w) (limbs x))) = num x"
  by (simp add: num_def concat_write_le_value [OF limb_width])

lemma bytes_inj: "concat (map (write_le w) (limbs x)) = concat (map (write_le w) (limbs y)) \<longleftrightarrow> x = y"
  by (metis bytes_num num_inj)

lemma text_bytes:
  "concat (map (\<lambda>limb. fmt_hex (2 * w) (unat limb)) (rev (limbs x))) =
   from_bin (rev (concat (map (write_le w) (limbs x))))"
proof -
  have "concat (map (\<lambda>limb. fmt_hex (2 * w) (unat limb)) ls) =
        from_bin (concat (map (write_be w) ls))" for ls :: "'a word list"
    by (induction ls) (auto simp: fmt_hex_from_bin write_be_def write_le_def from_bin_append)
  then show ?thesis by (simp add: concat_write_be)
qed

text \<open>The text form is read back; any number of zero bytes may follow the ones of the value.\<close>

lemma text_round_trip:
  assumes "rev bs = concat (map (write_le w) (limbs x))"
  shows "and_then (to_bin (''0x'' @ from_bin bs))
    (\<lambda>bin. if w * n < length bin then Err e else read_uint (rev bin @ pad bin)) = Ok x"
proof -
  have len: "length bs = w * n" using assms by (metis length_concat_write_le length_limbs length_rev)
  have "0 < w" using limb_width by (metis len_gt_0 mult_0_right neq0_conv)
  then have "bs \<noteq> []" using len nonempty by auto
  then show ?thesis using assms len to_bin_0x_from_bin [of bs] by (simp add: read_write)
qed

end

definition u256_num :: "u256 \<Rightarrow> nat" where
  "u256_num x = limbs_nat (rev (u256_limbs x))"

definition u160_num :: "u160 \<Rightarrow> nat" where
  "u160_num x = limbs_nat (rev (u160_limbs x))"

lemma chunk_append:
  "chunk w 0 (a @ bs) = take w (a @ bs)"
  "length a = w \<Longrightarrow> chunk w (Suc i) (a @ bs) = chunk w i bs"
  by (simp_all add: chunk_def)

lemma chunks_take:
  assumes "w * n \<le> length bs"
  shows "concat (map (\<lambda>i. chunk w i bs) [0..<n]) = take (w * n) bs"
  using assms
proof (induction n)
  case (Suc n)
  have "take (w * Suc n) bs = take (w * n) bs @ take w (drop (w * n) bs)"
    by (simp add: take_add [symmetric] add.commute)
  with Suc show ?case by (simp add: chunk_def mult.commute)
qed simp

lemma length_chunk: "i < n \<Longrightarrow> w * n \<le> length bs \<Longrightarrow> length (chunk w i bs) = w"
proof -
  assume "i < n" "w * n \<le> length bs"
  then have "w * i + w \<le> length bs" by (metis Suc_leI mult_Suc_right mult_le_mono2 add.commute le_trans)
  then show "length (chunk w i bs) = w" by (simp add: chunk_def mult.commute)
qed

lemma read_le_chunk_append:
  assumes "LENGTH('a::len) = 8 * w"
  shows "read_le (chunk w 0 (write_le w l @ bs)) = (l :: 'a word)"
  by (simp add: chunk_def read_write_le [OF assms])

lemma chunk_write_le:
  "chunk w 1 (write_le w l @ bs) = chunk w 0 bs"
  "chunk w (numeral k) (write_le w l @ bs) = chunk w (pred_numeral k) bs"
  by (simp_all add: chunk_def numeral_eq_Suc)

lemma length_limbs_uint [simp]: "length (u256_limbs x) = 4" "length (u160_limbs y) = 5"
  by (cases x, simp) (cases y, simp)

lemma upt_limbs: "[0..<4] = [0, 1, 2, 3]" "[0..<5] = [0, 1, 2, 3, 4]"
  by (simp_all add: upt_rec numeral_eq_Suc)

interpretation u256u: limb_uint u256_limbs u256_cmp u256_from_little_endian u256_num 4 8
proof unfold_locales
  fix x :: u256 and bs
  show "u256_from_little_endian (concat (map (write_le 8) (u256_limbs x)) @ bs) = (Ok x :: (u256, string) result)"
    by (cases x) (simp add: u256_from_little_endian_def read_le_chunk_append chunk_write_le
      del: One_nat_def)
next
  fix bs :: bin
  assume len: "8 * 4 \<le> length bs"
  then show "\<exists>x. u256_from_little_endian bs = (Ok x :: (u256, string) result) \<and>
      concat (map (write_le 8) (u256_limbs x)) = take (8 * 4) bs"
    using chunks_take [OF len] length_chunk [OF _ len]
    by (simp add: u256_from_little_endian_def write_read_le upt_limbs)
qed (auto simp: u256_cmp_def u256_num_def elim!: u256_limbs.elims)

interpretation u160u: limb_uint u160_limbs u160_cmp u160_from_little_endian u160_num 5 4
proof unfold_locales
  fix x :: u160 and bs
  show "u160_from_little_endian (concat (map (write_le 4) (u160_limbs x)) @ bs) = (Ok x :: (u160, string) result)"
    by (cases x) (simp add: u160_from_little_endian_def read_le_chunk_append chunk_write_le
      del: One_nat_def)
next
  fix bs :: bin
  assume len: "4 * 5 \<le> length bs"
  then show "\<exists>x. u160_from_little_endian bs = (Ok x :: (u160, string) result) \<and>
      concat (map (write_le 4) (u160_limbs x)) = take (4 * 5) bs"
    using chunks_take [OF len] length_chunk [OF _ len]
    by (simp add: u160_from_little_endian_def write_read_le upt_limbs)
qed (auto simp: u160_cmp_def u160_num_def elim!: u160_limbs.elims)

subsection \<open>Linear orders\<close>

lemma u256_lt_num: "u256_lt x y \<longleftrightarrow> u256_num x < u256_num y"
  by (auto simp: u256_lt_def u256u.cmp_num)

lemma u256_le_num: "u256_le x y \<longleftrightarrow> u256_num x \<le> u256_num y"
  by (auto simp: u256_le_def u256u.cmp_num u256u.num_inj [symmetric])

lemma u160_lt_num: "u160_lt x y \<longleftrightarrow> u160_num x < u160_num y"
  by (auto simp: u160_lt_def u160u.cmp_num)

lemma u160_le_num: "u160_le x y \<longleftrightarrow> u160_num x \<le> u160_num y"
  by (auto simp: u160_le_def u160u.cmp_num u160u.num_inj [symmetric])

instantiation u256 :: linorder
begin

definition less_eq_u256_def: "x \<le> y \<longleftrightarrow> u256_le x y"

definition less_u256_def: "x < y \<longleftrightarrow> u256_lt x y"

instance
  by standard (auto simp: less_eq_u256_def less_u256_def u256_le_num u256_lt_num u256u.num_inj)

end

instantiation u160 :: linorder
begin

definition less_eq_u160_def: "x \<le> y \<longleftrightarrow> u160_le x y"

definition less_u160_def: "x < y \<longleftrightarrow> u160_lt x y"

instance
  by standard (auto simp: less_eq_u160_def less_u160_def u160_le_num u160_lt_num u160u.num_inj)

end

subsection \<open>Encodings\<close>

lemma length_u256_to_vec [simp]: "length (u256_to_vec x) = 32"
  by (cases x) (simp add: u256_to_vec_def)

lemma length_u160_to_vec [simp]: "length (u160_to_vec x) = 20"
  by (cases x) (simp add: u160_to_vec_def)

lemma u256_to_vec_inj [simp]: "u256_to_vec x = u256_to_vec y \<longleftrightarrow> x = y"
  by (simp add: u256_to_vec_def u256u.bytes_inj)

lemma u160_to_vec_inj [simp]: "u160_to_vec x = u160_to_vec y \<longleftrightarrow> x = y"
  by (simp add: u160_to_vec_def u160u.bytes_inj)

lemma u256_read_vec: "u256_from_little_endian (u256_to_vec x @ bs) = Ok x"
  by (cases x) (simp add: u256_from_little_endian_def u256_to_vec_def read_le_chunk_append
    chunk_write_le del: One_nat_def)

lemma u160_read_vec: "u160_from_little_endian (u160_to_vec x @ bs) = Ok x"
  by (cases x) (simp add: u160_from_little_endian_def u160_to_vec_def read_le_chunk_append
    chunk_write_le del: One_nat_def)

lemma u256_big_endian_rev:
  "32 \<le> length buf \<Longrightarrow> u256_to_big_endian x buf = Ok (rev (u256_to_vec x) @ drop 32 buf)"
  by (simp add: u256_to_big_endian_def u256_to_vec_def concat_write_be)

lemma chunk_write_be:
  "chunk w 0 (write_be w l @ bs) = write_be w l"
  "chunk w 1 (write_be w l @ bs) = chunk w 0 bs"
  "chunk w (numeral k) (write_be w l @ bs) = chunk w (pred_numeral k) bs"
  by (simp_all add: chunk_def numeral_eq_Suc)

lemma u256_big_endian_bytes:
  "u256_read_big_endian (concat (map (write_be 8) (rev (u256_limbs x))) @ bs) = x"
  by (cases x) (simp add: u256_read_big_endian_def chunk_write_be read_write_be del: One_nat_def)

lemma u160_big_endian_bytes:
  "u160_read_big_endian (concat (map (write_be 4) (rev (u160_limbs x))) @ bs) = x"
  by (cases x) (simp add: u160_read_big_endian_def chunk_write_be read_write_be del: One_nat_def)

lemma u256_read_big_endian_num:
  assumes "length bs = 32"
  shows "u256_num (u256_read_big_endian bs) = nat_of_le (rev bs)"
proof -
  obtain x where x: "u256_from_little_endian (rev bs) = (Ok x :: (u256, string) result)"
    "concat (map (write_le 8) (u256_limbs x)) = rev bs"
    using u256u.write_read [of "rev bs"] assms by auto
  then have "concat (map (write_be 8) (rev (u256_limbs x))) = bs"
    by (simp add: concat_write_be)
  then have "u256_read_big_endian bs = x" using u256_big_endian_bytes [of x "[]"] by simp
  then show ?thesis using u256u.bytes_num [of x] x(2) by simp
qed

text \<open>
  The order of \<open>U256\<close> (its \<open>cmp\<close>, \<open><\<close>, \<open>\<le>\<close>, \<open>>\<close>, \<open>\<ge>\<close>) is the order of the 256-bit
  numbers that the limbs denote, equality included.
\<close>

theorem u256_order_is_numeric:
  "u256_cmp x y = (if u256_num x < u256_num y then Less
                   else if u256_num x = u256_num y then Equal else Greater) \<and>
   (u256_num x = u256_num y) = (x = y) \<and>
   u256_lt x y = (u256_num x < u256_num y) \<and> u256_le x y = (u256_num x \<le> u256_num y) \<and>
   u256_gt x y = (u256_num y < u256_num x) \<and> u256_ge x y = (u256_num y \<le> u256_num x) \<and>
   u256_num x < 2 ^ 256"
  using u256u.num_bound [of x]
  by (auto simp: u256u.cmp_num u256u.num_inj [symmetric] u256_lt_num u256_le_num
    u256_gt_def u256_ge_def)

text \<open>
  Writing a value into a byte buffer and reading it back gives the value, in both byte
  orders and for both widths; bytes after the value are left alone, and the big-endian bytes are
  the reverse of the little-endian ones.
\<close>

theorem endian_round_trips:
  assumes "32 \<le> length buf"
  shows "and_then (u256_to_little_endian x buf) u256_from_little_endian = (Ok x :: (u256, string) result) \<and>
    and_then (u256_to_big_endian x buf) u256_from_big_endian = (Ok x :: (u256, string) result) \<and>
    and_then (u160_to_little_endian y buf) u160_from_little_endian = (Ok y :: (u160, string) result) \<and>
    and_then (u160_to_big_endian y buf) u160_from_big_endian = (Ok y :: (u160, string) result) \<and>
    (\<exists>le be. u256_to_little_endian x buf = (Ok le :: (bin, string) result) \<and>
       u256_to_big_endian x buf = (Ok be :: (bin, string) result) \<and>
       length le = length buf \<and> take 32 be = rev (take 32 le) \<and> drop 32 le = drop 32 buf)"
  using assms u256u.read_write [of x "drop 32 buf"] u160u.read_write [of y "drop 20 buf"]
    u256_big_endian_bytes [of x "drop 32 buf"] u160_big_endian_bytes [of y "drop 20 buf"]
    length_u256_to_vec [of x]
  by (simp add: u256_to_little_endian_def u256_to_big_endian_def u160_to_little_endian_def
    u160_to_big_endian_def u256_from_big_endian_def u160_from_big_endian_def u256_to_vec_def
    concat_write_be)

theorem endian_round_trips_witness:
  "and_then (u256_to_big_endian (U256 1 2 3 4) (replicate 33 7)) u256_from_big_endian =
     (Ok (U256 1 2 3 4) :: (u256, string) result)"
  using endian_round_trips [of "replicate 33 7" "U256 1 2 3 4"] by simp

text \<open>
  The printed form of a hash or an account is read back as the same value, for both widths.
\<close>

theorem uint_text_round_trip:
  "u256_from_str (u256_to_string x) = Ok x \<and> u160_from_str (u160_to_string y) = Ok y"
proof
  show "u256_from_str (u256_to_string x) = Ok x"
    using u256u.text_bytes [of x]
      u256u.text_round_trip [of "rev (u256_to_vec x)" x _ "\<lambda>bin. replicate (33 - length bin) 0"]
    by (simp add: u256_from_str_def u256_to_string_def u256_to_vec_def)
  show "u160_from_str (u160_to_string y) = Ok y"
    using u160u.text_bytes [of y]
      u160u.text_round_trip [of "rev (u160_to_vec y)" y _ "\<lambda>bin. replicate (21 - length bin) 0"]
    by (simp add: u160_from_str_def u160_to_string_def u160_to_vec_def)
qed

end
