(* ===== verification/Coords.thy ===== *)
theory Coords
  imports Big_Uint
begin

text \<open>
  \<open>core/src/primitives/coord.rs\<close> and \<open>direction.rs\<close>: plot coordinates (pairs of \<open>i32\<close>), their
  order by distance from the origin, moves, and axis-parallel bounding boxes with inclusive
  borders. The components are 32-bit words read by \<open>sint\<close>.
\<close>

subsection \<open>Directions\<close>

datatype direction = DirN | DirNE | DirE | DirSE | DirS | DirSW | DirW | DirNW

definition direction_iterator :: "direction list" where
  "direction_iterator = [DirN, DirNE, DirE, DirSE, DirS, DirSW, DirW, DirNW]"

definition cardinal_iterator :: "direction list" where
  "cardinal_iterator = [DirN, DirE, DirS, DirW]"

fun dx_dy :: "direction \<Rightarrow> i8 \<times> i8" where
  "dx_dy DirN = (0, 1)"
| "dx_dy DirNE = (1, 1)"
| "dx_dy DirE = (1, 0)"
| "dx_dy DirSE = (1, - 1)"
| "dx_dy DirS = (0, - 1)"
| "dx_dy DirSW = (- 1, - 1)"
| "dx_dy DirW = (- 1, 0)"
| "dx_dy DirNW = (- 1, 1)"

fun is_cardinal :: "direction \<Rightarrow> bool" where
  "is_cardinal DirN = True"
| "is_cardinal DirE = True"
| "is_cardinal DirS = True"
| "is_cardinal DirW = True"
| "is_cardinal _ = False"

lemma cardinal_iterator_filter: "cardinal_iterator = filter is_cardinal direction_iterator"
  by (simp add: cardinal_iterator_def direction_iterator_def)

subsection \<open>Coordinates\<close>

datatype coord = Coord i32 i32

fun coord_x :: "coord \<Rightarrow> i32" where
  "coord_x (Coord x y) = x"

fun coord_y :: "coord \<Rightarrow> i32" where
  "coord_y (Coord x y) = y"

lemma coord_eta [simp]: "Coord (coord_x c) (coord_y c) = c"
  by (cases c) simp

definition sq :: "i32 \<Rightarrow> u64" where
  "sq x = scast x * scast x"

definition i32_cmp :: "i32 \<Rightarrow> i32 \<Rightarrow> ordering" where
  "i32_cmp a b = (if sint a < sint b then Less else if a = b then Equal else Greater)"

definition coord_cmp :: "coord \<Rightarrow> coord \<Rightarrow> ordering" where
  "coord_cmp self other =
     (let d1 = sq (coord_x self) + sq (coord_y self);
          d2 = sq (coord_x other) + sq (coord_y other)
      in if d1 \<noteq> d2 then word_cmp d1 d2
         else if coord_x self \<noteq> coord_x other then i32_cmp (coord_x self) (coord_x other)
         else i32_cmp (coord_y self) (coord_y other))"

definition coord_as_bin :: "coord \<Rightarrow> bin" where
  "coord_as_bin c = write_le 4 (coord_x c) @ write_le 4 (coord_y c)"

definition abs_diff :: "i32 \<Rightarrow> i32 \<Rightarrow> i32" where
  "abs_diff a b = (if sint a > sint b then a - b else b - a)"

definition sq_dist :: "coord \<Rightarrow> coord \<Rightarrow> u64" where
  "sq_dist self other =
     (let dx = scast (abs_diff (coord_x self) (coord_x other));
          dy = scast (abs_diff (coord_y self) (coord_y other))
      in dx * dx + dy * dy)"

definition move_in_dir :: "coord \<Rightarrow> direction \<Rightarrow> usize \<Rightarrow> coord" where
  "move_in_dir self dir steps =
     (let (dx, dy) = dx_dy dir
      in Coord (coord_x self + scast dx * ucast steps) (coord_y self + scast dy * ucast steps))"

subsection \<open>The order of coordinates\<close>

text \<open>The squared distance from the origin as a number: the 64-bit sum does not wrap.\<close>

definition origin_dist :: "coord \<Rightarrow> int" where
  "origin_dist c = sint (coord_x c) * sint (coord_x c) + sint (coord_y c) * sint (coord_y c)"

lemma sint_i32_bounds: "- (2 ^ 31) \<le> sint (x :: i32)" "sint (x :: i32) < 2 ^ 31"
  using sint_ge [of x] sint_lt [of x] by simp_all

lemma sq_bound: "(sint (x :: i32)) * sint x \<le> 2 ^ 62"
proof -
  have "\<bar>sint x\<bar> \<le> 2 ^ 31" using sint_i32_bounds [of x] by linarith
  then have "\<bar>sint x\<bar> * \<bar>sint x\<bar> \<le> 2 ^ 31 * 2 ^ 31" by (intro mult_mono) simp_all
  then show ?thesis by (simp add: abs_mult_self_eq)
qed

lemma uint_sq: "uint (sq x) = sint x * sint x"
proof -
  have "sq x = word_of_int (sint x * sint x)"
    by (simp only: sq_def of_int_mult) (simp only: scast_eq)
  moreover have "0 \<le> sint x * sint x" "sint x * sint x < 2 ^ 64"
    using sq_bound [of x] by auto
  ultimately show ?thesis by (simp only: uint_word_of_int_eq) (simp add: take_bit_int_eq_self)
qed

lemma uint_sq_sum: "uint (sq (coord_x c) + sq (coord_y c)) = origin_dist c"
  using sq_bound [of "coord_x c"] sq_bound [of "coord_y c"]
  by (simp add: uint_plus_if' uint_sq origin_dist_def)

text \<open>The lexicographic key that the comparison orders by.\<close>

definition coord_key :: "coord \<Rightarrow> int \<times> int \<times> int" where
  "coord_key c = (origin_dist c, sint (coord_x c), sint (coord_y c))"

lemma sint_eq_iff: "sint (a :: i32) = sint b \<longleftrightarrow> a = b"
  by (metis signed_word_eqI)

lemma coord_key_inj: "coord_key a = coord_key b \<longleftrightarrow> a = b"
  by (cases a; cases b) (auto simp: coord_key_def sint_eq_iff)

definition key_less :: "int \<times> int \<times> int \<Rightarrow> int \<times> int \<times> int \<Rightarrow> bool" where
  "key_less a b \<longleftrightarrow> fst a < fst b \<or>
     (fst a = fst b \<and> (fst (snd a) < fst (snd b) \<or>
       (fst (snd a) = fst (snd b) \<and> snd (snd a) < snd (snd b))))"

lemma key_less_order:
  "\<not> key_less a a" "key_less a b \<Longrightarrow> key_less b d \<Longrightarrow> key_less a d"
  "key_less a b \<or> a = b \<or> key_less b a"
  by (auto simp: key_less_def prod_eq_iff)

lemma coord_cmp_key:
  "coord_cmp a b = (if key_less (coord_key a) (coord_key b) then Less
                    else if a = b then Equal else Greater)"
proof -
  have "sq (coord_x a) + sq (coord_y a) < sq (coord_x b) + sq (coord_y b) \<longleftrightarrow>
        origin_dist a < origin_dist b"
    by (simp only: word_less_def uint_sq_sum)
  moreover have "sq (coord_x a) + sq (coord_y a) = sq (coord_x b) + sq (coord_y b) \<longleftrightarrow>
        origin_dist a = origin_dist b"
    by (metis uint_sq_sum word_eq_iff_unsigned)
  ultimately show ?thesis
    by (cases a; cases b)
      (auto simp: coord_cmp_def Let_def word_cmp_def i32_cmp_def key_less_def coord_key_def
        sint_eq_iff)
qed

instantiation coord :: linorder
begin

definition less_eq_coord_def: "a \<le> b \<longleftrightarrow> coord_cmp a b \<noteq> Greater"

definition less_coord_def: "a < b \<longleftrightarrow> coord_cmp a b = Less"

instance
proof
  fix a b c :: coord
  show "a < b \<longleftrightarrow> a \<le> b \<and> \<not> b \<le> a" "a \<le> a" "a \<le> b \<Longrightarrow> b \<le> c \<Longrightarrow> a \<le> c"
    "a \<le> b \<Longrightarrow> b \<le> a \<Longrightarrow> a = b" "a \<le> b \<or> b \<le> a"
    using key_less_order(1) [of "coord_key a"] key_less_order(1) [of "coord_key b"]
      key_less_order(2) [of "coord_key a" "coord_key b" "coord_key a"]
      key_less_order(2) [of "coord_key a" "coord_key b" "coord_key c"]
      key_less_order(3) [of "coord_key a" "coord_key b"]
    by (auto simp: less_eq_coord_def less_coord_def coord_cmp_key coord_key_inj split: if_splits)
qed

end

lemma length_coord_as_bin [simp]: "length (coord_as_bin c) = 8"
  by (simp add: coord_as_bin_def)

lemma coord_as_bin_inj [simp]: "coord_as_bin a = coord_as_bin b \<longleftrightarrow> a = b"
  by (cases a; cases b) (auto simp: coord_as_bin_def write_le_inj)

lemma sq_dist_sym: "sq_dist a b = sq_dist b a"
  by (auto simp: sq_dist_def abs_diff_def sint_eq_iff not_less_iff_gr_or_eq Let_def)

text \<open>
  The order of coordinates is a total order that sorts by the exact distance from the
  origin, then by \<open>x\<close>, then by \<open>y\<close>, and two coordinates compare equal only when they are the
  same.
\<close>

theorem coord_order_by_distance:
  "(a < b \<longleftrightarrow> origin_dist a < origin_dist b \<or>
      (origin_dist a = origin_dist b \<and>
        (sint (coord_x a) < sint (coord_x b) \<or>
          (coord_x a = coord_x b \<and> sint (coord_y a) < sint (coord_y b))))) \<and>
   (coord_cmp a b = Equal) = (a = b) \<and> (coord_cmp a b = Less) = (coord_cmp b a = Greater)"
  using key_less_order(1) [of "coord_key a"] key_less_order(3) [of "coord_key a" "coord_key b"]
    key_less_order(2) [of "coord_key a" "coord_key b" "coord_key a"]
  by (auto simp: less_coord_def coord_cmp_key coord_key_inj)
    (auto simp: key_less_def coord_key_def sint_eq_iff)

subsection \<open>Bounding boxes\<close>

datatype bounding_box = BoundingBox (bb0: coord) (bb1: coord)

definition smin :: "i32 \<Rightarrow> i32 \<Rightarrow> i32" where
  "smin a b = (if sint a \<le> sint b then a else b)"

definition smax :: "i32 \<Rightarrow> i32 \<Rightarrow> i32" where
  "smax a b = (if sint a \<le> sint b then b else a)"

definition bb_new :: "coord \<Rightarrow> coord \<Rightarrow> bounding_box" where
  "bb_new a b =
     BoundingBox (Coord (smin (coord_x a) (coord_x b)) (smin (coord_y a) (coord_y b)))
                 (Coord (smax (coord_x a) (coord_x b)) (smax (coord_y a) (coord_y b)))"

definition bb_width :: "bounding_box \<Rightarrow> u32" where
  "bb_width self = coord_x (bb1 self) - coord_x (bb0 self) + 1"

definition bb_height :: "bounding_box \<Rightarrow> u32" where
  "bb_height self = coord_y (bb1 self) - coord_y (bb0 self) + 1"

definition bb_area :: "bounding_box \<Rightarrow> u64" where
  "bb_area self = ucast (bb_width self) * ucast (bb_height self)"

definition top_left :: "bounding_box \<Rightarrow> coord" where
  "top_left self = Coord (coord_x (bb0 self)) (coord_y (bb1 self))"

definition top_right :: "bounding_box \<Rightarrow> coord" where
  "top_right self = bb1 self"

definition bottom_left :: "bounding_box \<Rightarrow> coord" where
  "bottom_left self = bb0 self"

definition bottom_right :: "bounding_box \<Rightarrow> coord" where
  "bottom_right self = Coord (coord_x (bb1 self)) (coord_y (bb0 self))"

definition bb_contains :: "bounding_box \<Rightarrow> coord \<Rightarrow> bool" where
  "bb_contains self point \<longleftrightarrow>
     sint (coord_x (bb0 self)) \<le> sint (coord_x point) \<and>
     sint (coord_x point) \<le> sint (coord_x (bb1 self)) \<and>
     sint (coord_y (bb0 self)) \<le> sint (coord_y point) \<and>
     sint (coord_y point) \<le> sint (coord_y (bb1 self))"

definition contains_box :: "bounding_box \<Rightarrow> bounding_box \<Rightarrow> bool" where
  "contains_box self other \<longleftrightarrow> bb_contains self (bb0 other) \<and> bb_contains self (bb1 other)"

definition is_contained_by :: "bounding_box \<Rightarrow> bounding_box \<Rightarrow> bool" where
  "is_contained_by self other = contains_box other self"

definition overlaps :: "bounding_box \<Rightarrow> bounding_box \<Rightarrow> bool" where
  "overlaps self other \<longleftrightarrow>
     bb_contains self (top_left other) \<or> bb_contains self (top_right other) \<or>
     bb_contains self (bottom_left other) \<or> bb_contains self (bottom_right other) \<or>
     bb_contains other (top_left self) \<or> bb_contains other (top_right self) \<or>
     bb_contains other (bottom_left self) \<or> bb_contains other (bottom_right self)"

definition bb_intersect :: "bounding_box \<Rightarrow> bounding_box \<Rightarrow> bounding_box option" where
  "bb_intersect self other =
     (if \<not> overlaps self other then None
      else Some (BoundingBox
        (Coord (smax (coord_x (bb0 self)) (coord_x (bb0 other)))
               (smax (coord_y (bb0 self)) (coord_y (bb0 other))))
        (Coord (smin (coord_x (bb1 self)) (coord_x (bb1 other)))
               (smin (coord_y (bb1 self)) (coord_y (bb1 other))))))"

text \<open>A box made by \<open>bb_new\<close> has its corners in order.\<close>

definition bb_ok :: "bounding_box \<Rightarrow> bool" where
  "bb_ok b \<longleftrightarrow> sint (coord_x (bb0 b)) \<le> sint (coord_x (bb1 b)) \<and>
     sint (coord_y (bb0 b)) \<le> sint (coord_y (bb1 b))"

lemma sint_smin [simp]: "sint (smin a b) = min (sint a) (sint b)"
  by (simp add: smin_def min_def)

lemma sint_smax [simp]: "sint (smax a b) = max (sint a) (sint b)"
  by (simp add: smax_def max_def)

lemma bb_new_ok [simp]: "bb_ok (bb_new a b)"
  by (auto simp: bb_ok_def bb_new_def)

lemma bb_new_contains: "bb_contains (bb_new a b) a" "bb_contains (bb_new a b) b"
  by (auto simp: bb_contains_def bb_new_def)

lemma contains_box_iff:
  assumes "bb_ok b"
  shows "contains_box a b \<longleftrightarrow> (\<forall>p. bb_contains b p \<longrightarrow> bb_contains a p)"
proof
  assume "\<forall>p. bb_contains b p \<longrightarrow> bb_contains a p"
  moreover have "bb_contains b (bb0 b)" "bb_contains b (bb1 b)"
    using assms by (auto simp: bb_ok_def bb_contains_def)
  ultimately show "contains_box a b" by (simp add: contains_box_def)
qed (auto simp: contains_box_def bb_contains_def)

lemma overlaps_sym: "overlaps a b = overlaps b a"
  by (auto simp: overlaps_def)

lemma overlaps_common_point:
  assumes "bb_ok a" "bb_ok b" "overlaps a b"
  shows "\<exists>p. bb_contains a p \<and> bb_contains b p"
proof -
  have corners: "bb_contains d (top_left d)" "bb_contains d (top_right d)"
    "bb_contains d (bottom_left d)" "bb_contains d (bottom_right d)" if "bb_ok d" for d
    using that by (auto simp: bb_ok_def bb_contains_def top_left_def top_right_def
      bottom_left_def bottom_right_def)
  show ?thesis using assms corners [OF assms(1)] corners [OF assms(2)]
    unfolding overlaps_def by blast
qed

text \<open>
  when \<open>intersect\<close> returns a box, the box is well-formed and consists of exactly the points
  of both boxes, so that a box is only returned for boxes which share a point.
\<close>

theorem intersect_exact:
  assumes "bb_ok a" "bb_ok b" "bb_intersect a b = Some c"
  shows "bb_ok c \<and> (\<forall>p. bb_contains c p = (bb_contains a p \<and> bb_contains b p))"
proof -
  have c: "overlaps a b" "c = BoundingBox
        (Coord (smax (coord_x (bb0 a)) (coord_x (bb0 b))) (smax (coord_y (bb0 a)) (coord_y (bb0 b))))
        (Coord (smin (coord_x (bb1 a)) (coord_x (bb1 b))) (smin (coord_y (bb1 a)) (coord_y (bb1 b))))"
    using assms(3) by (auto simp: bb_intersect_def split: if_splits)
  obtain p where "bb_contains a p" "bb_contains b p"
    using overlaps_common_point [OF assms(1,2) c(1)] by blast
  then have "bb_ok c" by (auto simp: c(2) bb_ok_def bb_contains_def)
  moreover have "bb_contains c p = (bb_contains a p \<and> bb_contains b p)" for p
    by (auto simp: c(2) bb_contains_def)
  ultimately show ?thesis by blast
qed

theorem intersect_exact_witness:
  "bb_intersect (bb_new (Coord (- 2) 0) (Coord 3 3)) (bb_new (Coord 0 0) (Coord 10 10)) =
     Some (BoundingBox (Coord 0 0) (Coord 3 3)) \<and>
   bb_ok (BoundingBox (Coord 0 0) (Coord 3 3))"
proof -
  have e: "bb_intersect (bb_new (Coord (- 2) 0) (Coord 3 3)) (bb_new (Coord 0 0) (Coord 10 10)) =
     Some (BoundingBox (Coord 0 0) (Coord 3 3))"
    by code_simp
  with intersect_exact [OF bb_new_ok bb_new_ok e] show ?thesis by simp
qed

text \<open>
  two boxes that cross like the bars of a plus sign share points, and yet \<open>overlaps\<close>, which
  only looks at corners, answers no, so that \<open>intersect\<close> returns nothing for them.
\<close>

theorem overlaps_misses_crossing:
  "\<exists>a b p. bb_ok a \<and> bb_ok b \<and> bb_contains a p \<and> bb_contains b p \<and>
     \<not> overlaps a b \<and> bb_intersect a b = None"
proof -
  let ?a = "BoundingBox (Coord 0 1) (Coord 3 2)" and ?b = "BoundingBox (Coord 1 0) (Coord 2 3)"
  have "bb_ok ?a \<and> bb_ok ?b \<and> bb_contains ?a (Coord 1 1) \<and> bb_contains ?b (Coord 1 1) \<and>
     \<not> overlaps ?a ?b \<and> bb_intersect ?a ?b = None"
    by code_simp
  then show ?thesis by blast
qed

end
