(* ===== verification/Primitives.thy ===== *)
theory Primitives
  imports Coords
begin

text \<open>
  The data of the chain, from \<open>core/src/primitives/\<close> (\<open>block.rs\<close>, \<open>txn.rs\<close>, \<open>mutation.rs\<close>,
  \<open>event.rs\<close>) and \<open>core/src/record_keeper/events.rs\<close>: block headers, transactions, the changes
  a mutation is made of, plot events and the event lists stored per plot and tick.

  A \<open>BTreeSet\<close> of plots is its ascending list, a \<open>HashMap\<close> of recipients is an association list
  whose order is the iteration order, and sizes are counted in \<open>nat\<close>: they are lengths of
  vectors in memory.
\<close>

subsection \<open>Times\<close>

text \<open>\<open>Time\<close>: milliseconds since the epoch, a signed 64-bit count compared as such.\<close>

type_synonym time = i64

definition time_less :: "time \<Rightarrow> time \<Rightarrow> bool" where
  "time_less a b \<longleftrightarrow> sint a < sint b"

definition from_milliseconds :: "i64 \<Rightarrow> time" where
  "from_milliseconds ms = ms"

definition from_seconds :: "i64 \<Rightarrow> time" where
  "from_seconds s = from_milliseconds (s * 1000)"

definition time_diff :: "time \<Rightarrow> time \<Rightarrow> time" where
  "time_diff self other = from_milliseconds (other - self)"

text \<open>\<open>Time::current\<close> from the clock's seconds and nanoseconds and the stored drift.\<close>

definition time_current :: "u64 \<Rightarrow> u32 \<Rightarrow> i64 \<Rightarrow> time" where
  "time_current secs subsec_nanos ntp_drift =
     (let seconds_contrib = secs * 1000;
          nseconds_contrib = of_nat (unat subsec_nanos div 1000000)
      in seconds_contrib + nseconds_contrib - ntp_drift)"

subsection \<open>Events\<close>

type_synonym plot_id = coord

type_synonym raw_event = bin

type_synonym raw_events = "(u64, raw_event list) btree_map"

definition add_event :: "raw_events \<Rightarrow> u64 \<Rightarrow> raw_event \<Rightarrow> raw_events \<times> bool" where
  "add_event events tick event =
     (case bt_get events tick of
        Some event_list \<Rightarrow>
          if event \<notin> set event_list
          then (bt_insert tick (event_list @ [event]) events, True)
          else (events, False)
      | None \<Rightarrow> (bt_insert tick [event] events, True))"

definition add_events :: "raw_events \<Rightarrow> u64 \<Rightarrow> raw_event list \<Rightarrow> raw_events" where
  "add_events events tick event_list =
     fold (\<lambda>event evs. fst (add_event evs tick event)) event_list events"

definition remove_event :: "raw_events \<Rightarrow> u64 \<Rightarrow> raw_event \<Rightarrow> raw_events \<times> bool" where
  "remove_event events tick event =
     (case bt_get events tick of
        Some event_list \<Rightarrow>
          let retained = filter (\<lambda>e. e \<noteq> event) event_list;
              removed = length retained < length event_list
          in if retained = [] then (bt_remove tick events, removed)
             else (bt_insert tick retained events, removed)
      | None \<Rightarrow> (events, False))"

definition remove_events :: "raw_events \<Rightarrow> u64 \<Rightarrow> raw_event list \<Rightarrow> raw_events" where
  "remove_events events tick event_list =
     fold (\<lambda>event evs. fst (remove_event evs tick event)) event_list events"

record plot_event =
  pe_from :: plot_id
  pe_to :: "plot_id list"
  pe_tick :: u64
  pe_event :: raw_event

definition plot_event_calculate_size :: "plot_event \<Rightarrow> nat" where
  "plot_event_calculate_size self = 8 * (2 + length (pe_to self)) + length (pe_event self) + 1"

text \<open>A pool of listeners: those a message cannot be sent to are dropped.\<close>

type_synonym 'l listener_pool = "'l list"

definition pool_register :: "'l listener_pool \<Rightarrow> 'l \<Rightarrow> 'l listener_pool" where
  "pool_register pool listener = pool @ [listener]"

definition pool_notify :: "('l \<Rightarrow> bool) \<Rightarrow> 'l listener_pool \<Rightarrow> 'l listener_pool \<times> u32" where
  "pool_notify send_succeeds pool =
     (let alive = filter send_succeeds pool in (alive, of_nat (length alive)))"

subsection \<open>Changes and mutations\<close>

datatype change =
    Admin bin "bin option"
  | BlockReward u160 bin
  | PlotEventCh plot_event
  | NewValidator bin
  | Slash u160 u64 bin
  | Transfer u160 "(u160, u64) hash_map"

fun change_calculate_size :: "change \<Rightarrow> nat" where
  "change_calculate_size (Admin key value) =
     8 + (length key + 1 + (case value of Some a \<Rightarrow> length a | None \<Rightarrow> 0) + 2)"
| "change_calculate_size (BlockReward i proof) = 8 + (20 + length proof + 1)"
| "change_calculate_size (PlotEventCh e) = 8 + plot_event_calculate_size e"
| "change_calculate_size (NewValidator pub_key) = 8 + (length pub_key + 1)"
| "change_calculate_size (Slash i amount proof) = 8 + (28 + length proof + 1)"
| "change_calculate_size (Transfer from to) = 8 + (20 + length to * 28)"

record mutation =
  contra :: bool
  changes :: "change list"

definition mutation_new :: mutation where
  "mutation_new = \<lparr>contra = False, changes = []\<rparr>"

definition mutation_new_contra :: mutation where
  "mutation_new_contra = \<lparr>contra = True, changes = []\<rparr>"

definition assert_contra :: "mutation \<Rightarrow> (unit, 'e) result" where
  "assert_contra self = assert_rs (contra self)"

definition assert_not_contra :: "mutation \<Rightarrow> (unit, 'e) result" where
  "assert_not_contra self = assert_rs (\<not> contra self)"

definition mutation_merge :: "mutation \<Rightarrow> mutation \<Rightarrow> (mutation, 'e) result" where
  "mutation_merge self other =
     and_then (assert_rs (\<not> contra self \<and> \<not> contra other))
       (\<lambda>_. Ok (self\<lparr>changes := changes self @ changes other\<rparr>))"

definition mutation_calculate_size :: "mutation \<Rightarrow> nat" where
  "mutation_calculate_size self =
     1 + 8 + foldl (\<lambda>total c. total + change_calculate_size c) 0 (changes self)"

definition change_tick :: "change \<Rightarrow> u64 option" where
  "change_tick c = (case c of PlotEventCh e \<Rightarrow> Some (pe_tick e) | _ \<Rightarrow> None)"

definition earliest_game_event :: "mutation \<Rightarrow> u64" where
  "earliest_game_event self = foldl min (- 1) (List.map_filter change_tick (changes self))"

definition latest_game_event :: "mutation \<Rightarrow> u64" where
  "latest_game_event self = foldl max 0 (List.map_filter change_tick (changes self))"

subsection \<open>Transactions and blocks\<close>

record txn =
  txn_timestamp :: time
  creator :: u160
  txn_mutation :: mutation
  signature :: bin

definition txn_new :: "time \<Rightarrow> u160 \<Rightarrow> mutation \<Rightarrow> txn" where
  "txn_new now creator' m =
     \<lparr>txn_timestamp = now, creator = creator', txn_mutation = m, signature = []\<rparr>"

definition txn_calculate_size :: "txn \<Rightarrow> nat" where
  "txn_calculate_size self =
     8 + 20 + mutation_calculate_size (txn_mutation self) + (length (signature self) + 1)"

record block_header =
  version :: u16
  timestamp :: time
  shard :: u256
  prev :: u256
  merkle_root :: u256
  blob :: bin

record block =
  header :: block_header
  txns :: "u256 list"

datatype record_event =
    NewBlock bool bool block
  | NewTxn bool txn
  | StateInvalidated u64 u64 u64

subsection \<open>Laws of the event lists\<close>

text \<open>
  What a list of events denotes: a set of (tick, event) pairs. The representation is sound when
  ticks ascend and no tick has an empty list or a repeated event.
\<close>

definition events_ok :: "raw_events \<Rightarrow> bool" where
  "events_ok evs \<longleftrightarrow> bt_ok evs \<and> (\<forall>l \<in> snd ` set evs. l \<noteq> [] \<and> distinct l)"

definition event_set :: "raw_events \<Rightarrow> (u64 \<times> raw_event) set" where
  "event_set evs = {(t, e). \<exists>l. map_of evs t = Some l \<and> e \<in> set l}"

lemma events_okD:
  assumes "events_ok evs" and "map_of evs t = Some l"
  shows "l \<noteq> []" "distinct l"
  using assms map_of_SomeD [OF assms(2)] by (force simp: events_ok_def)+

lemma events_ok_empty [simp]: "events_ok []" "event_set [] = {}"
  by (simp_all add: events_ok_def event_set_def)

lemma bt_insert_values: "snd ` set (bt_insert k v m) \<subseteq> insert v (snd ` set m)"
  by (induction k v m rule: bt_insert.induct) auto

lemma events_ok_insert:
  "events_ok evs \<Longrightarrow> l \<noteq> [] \<Longrightarrow> distinct l \<Longrightarrow> events_ok (bt_insert t l evs)"
  using bt_insert_values [of t l evs] unfolding events_ok_def by blast

lemma event_set_insert:
  "bt_ok evs \<Longrightarrow> event_set (bt_insert t l evs) =
    {p \<in> event_set evs. fst p \<noteq> t} \<union> {t} \<times> set l"
  by (auto simp: event_set_def map_simps split: if_splits)

lemma add_event_ok [simp]: "events_ok evs \<Longrightarrow> events_ok (fst (add_event evs t e))"
  by (auto simp: add_event_def split: option.splits intro!: events_ok_insert dest: events_okD)

lemma add_event_set [simp]:
  "events_ok evs \<Longrightarrow> event_set (fst (add_event evs t e)) = insert (t, e) (event_set evs)"
  by (auto simp: add_event_def event_set_insert events_ok_def split: option.splits)
    (auto simp: event_set_def)

lemma add_event_new: "snd (add_event evs t e) \<longleftrightarrow> (t, e) \<notin> event_set evs"
  by (auto simp: add_event_def event_set_def split: option.splits)

lemma remove_event_ok [simp]: "events_ok evs \<Longrightarrow> events_ok (fst (remove_event evs t e))"
proof -
  assume ok: "events_ok evs"
  have "events_ok (bt_remove t evs)" using ok by (auto simp: events_ok_def bt_remove_def bt_ok_filter)
  moreover have "distinct (filter P l)" if "map_of evs t = Some l" for P l
    using events_okD(2) [OF ok that] by simp
  ultimately show ?thesis
    using ok by (auto simp: remove_event_def Let_def split: option.splits intro!: events_ok_insert)
qed

lemma event_set_remove: "event_set (bt_remove t evs) = {p \<in> event_set evs. fst p \<noteq> t}"
  by (auto simp: event_set_def map_simps split: if_splits)

lemma remove_event_set [simp]:
  assumes "events_ok evs"
  shows "event_set (fst (remove_event evs t e)) = event_set evs - {(t, e)}"
proof (cases "map_of evs t")
  case None
  then show ?thesis by (auto simp: remove_event_def event_set_def)
next
  case (Some l)
  have e: "fst (remove_event evs t e) =
    (if filter (\<lambda>x. x \<noteq> e) l = [] then bt_remove t evs
     else bt_insert t (filter (\<lambda>x. x \<noteq> e) l) evs)"
    by (simp add: remove_event_def Some Let_def)
  have m: "(t, x) \<in> event_set evs \<longleftrightarrow> x \<in> set l" for x
    by (simp add: event_set_def Some)
  show ?thesis
  proof (cases "filter (\<lambda>x. x \<noteq> e) l = []")
    case True
    then have "set l \<subseteq> {e}" by (auto simp: filter_empty_conv)
    then show ?thesis using m by (auto simp: e True event_set_remove)
  next
    case False
    have "bt_ok evs" using assms by (simp add: events_ok_def)
    then have "event_set (fst (remove_event evs t e)) =
      {p \<in> event_set evs. fst p \<noteq> t} \<union> {t} \<times> {x \<in> set l. x \<noteq> e}"
      unfolding e if_not_P [OF False] by (simp add: event_set_insert)
    also have "\<dots> = event_set evs - {(t, e)}" unfolding m [symmetric] by auto
    finally show ?thesis .
  qed
qed

lemma remove_event_removed: "snd (remove_event evs t e) \<longleftrightarrow> (t, e) \<in> event_set evs"
proof (cases "map_of evs t")
  case (Some l)
  have "length (filter (\<lambda>x. x \<noteq> e) l) < length l \<longleftrightarrow> e \<in> set l"
    using length_filter_less [of e l "\<lambda>x. x \<noteq> e"] length_filter_le [of "\<lambda>x. x \<noteq> e" l]
    by (metis (mono_tags, lifting) filter_True less_irrefl)
  moreover have "snd (remove_event evs t e) \<longleftrightarrow> length (filter (\<lambda>x. x \<noteq> e) l) < length l"
    unfolding remove_event_def Let_def Some option.case if_distrib [of snd] snd_conv by (rule if_cancel)
  ultimately show ?thesis by (simp add: event_set_def Some)
qed (simp add: remove_event_def event_set_def)

lemma add_events_set [simp]:
  assumes "events_ok evs"
  shows "events_ok (add_events evs t es) \<and> event_set (add_events evs t es) = event_set evs \<union> {t} \<times> set es"
  using assms by (induction es arbitrary: evs) (auto simp: add_events_def)

lemma remove_events_set [simp]:
  assumes "events_ok evs"
  shows "events_ok (remove_events evs t es) \<and> event_set (remove_events evs t es) = event_set evs - {t} \<times> set es"
  using assms by (induction es arbitrary: evs) (auto simp: remove_events_def)

subsection \<open>Ticks of a mutation\<close>

lemma foldl_min: "foldl min (a :: u64) xs = Min (insert a (set xs))"
proof (induction xs arbitrary: a)
  case (Cons x xs)
  have "Min (insert (min a x) (set xs)) = Min (insert a (insert x (set xs)))"
    by (cases "xs = []") (auto simp: min.assoc)
  with Cons show ?case by simp
qed simp

lemma set_map_filter: "x \<in> set (List.map_filter f xs) \<longleftrightarrow> (\<exists>y \<in> set xs. f y = Some x)"
  by (induction xs) (auto simp: List.map_filter_simps split: option.splits)

lemma earliest_game_event_le:
  "PlotEventCh e \<in> set (changes m) \<Longrightarrow> earliest_game_event m \<le> pe_tick e"
  unfolding earliest_game_event_def foldl_min
  by (rule Min_le) (auto simp: set_map_filter change_tick_def intro!: bexI [where x = "PlotEventCh e"])

lemma earliest_game_event_none:
  "(\<forall>c \<in> set (changes m). change_tick c = None) \<Longrightarrow> earliest_game_event m = - 1"
  by (simp add: earliest_game_event_def map_filter_def filter_False)

end
