(* ===== verification/Keys.thy ===== *)
theory Keys
  imports Primitives
begin

text \<open>
  \<open>core/src/record_keeper/key.rs\<close>: the keys of the database, in three domains, and the bytes
  under which an entry is stored; \<open>core/src/record_keeper/error.rs\<close>: the errors of the record
  keeper.
\<close>

definition PLOT_EVENT_BUCKET_SIZE :: u64 where
  "PLOT_EVENT_BUCKET_SIZE = 1000"

definition BLOCK_REWARD :: u64 where
  "BLOCK_REWARD = 10"

text \<open>A byte-string literal.\<close>

definition bstr :: "string \<Rightarrow> bin" where
  "bstr s = map of_char s"

definition prefix :: "bin \<Rightarrow> bin \<Rightarrow> bin" where
  "prefix p k = p @ k"

datatype blockchain_entry = BlockHeaderE u256 | TxnListE u256 | TxnE u256

fun blockchain_entry_as_bin :: "blockchain_entry \<Rightarrow> bin" where
  "blockchain_entry_as_bin (TxnE h) = prefix (bstr ''T'') (u256_to_vec h)"
| "blockchain_entry_as_bin (BlockHeaderE h) = prefix (bstr ''B'') (u256_to_vec h)"
| "blockchain_entry_as_bin (TxnListE h) = prefix (bstr ''L'') (u256_to_vec h)"

datatype cache_entry =
    BlocksByHeight u64
  | HeightByBlock u256
  | BlocksByTxn u256
  | TxnsByAccount u160
  | TxnReceiveTime u256
  | ContraMut u256
  | CurrentHead

fun cache_entry_as_bin :: "cache_entry \<Rightarrow> bin" where
  "cache_entry_as_bin (BlocksByHeight h) = prefix (bstr ''HGT'') (write_le 8 h)"
| "cache_entry_as_bin (HeightByBlock b) = prefix (bstr ''BHT'') (u256_to_vec b)"
| "cache_entry_as_bin (BlocksByTxn h) = prefix (bstr ''TBK'') (u256_to_vec h)"
| "cache_entry_as_bin (TxnsByAccount h) = prefix (bstr ''ATN'') (u160_to_vec h)"
| "cache_entry_as_bin (TxnReceiveTime h) = prefix (bstr ''RCT'') (u256_to_vec h)"
| "cache_entry_as_bin (ContraMut b) = prefix (bstr ''CMT'') (u256_to_vec b)"
| "cache_entry_as_bin CurrentHead = bstr ''CHead''"

datatype network_entry =
    PlotE plot_id u64
  | ValidatorKey u160
  | ValidatorStake u160
  | AdminKeyID
  | Generic bin

fun network_entry_as_bin :: "network_entry \<Rightarrow> bin" where
  "network_entry_as_bin (PlotE i tick) =
     prefix (prefix (bstr ''PLT'') (coord_as_bin i)) (write_le 8 (tick div PLOT_EVENT_BUCKET_SIZE))"
| "network_entry_as_bin (ValidatorKey k) = prefix (bstr ''VKY'') (u160_to_vec k)"
| "network_entry_as_bin (ValidatorStake k) = prefix (bstr ''VSK'') (u160_to_vec k)"
| "network_entry_as_bin AdminKeyID = bstr ''ADMIN''"
| "network_entry_as_bin (Generic b) = b"

datatype key =
    Blockchain blockchain_entry
  | Cache cache_entry
  | Network network_entry

fun as_bin :: "key \<Rightarrow> bin" where
  "as_bin (Blockchain e) = prefix (bstr ''b'') (blockchain_entry_as_bin e)"
| "as_bin (Cache e) = prefix (bstr ''c'') (cache_entry_as_bin e)"
| "as_bin (Network e) = prefix (bstr ''n'') (network_entry_as_bin e)"

subsection \<open>Errors\<close>

datatype logic_error =
    Duplicate
  | ExpectedAdmin
  | InvalidMerkleRoot
  | InvalidMutation string
  | InvalidSignature
  | InvalidTime
  | MissingPrevious
  | UndoOrigin
  | UnrecognizedCreator
  | NotEnoughShares
  | InvalidSigner

datatype error =
    DB string
  | NotFound key
  | Deserialize string
  | OutOfMemory string
  | Logic logic_error

text \<open>Only a missing entry is mapped to the default; other errors and panics stay.\<close>

definition map_not_found :: "('a, error) result \<Rightarrow> 'a \<Rightarrow> ('a, error) result" where
  "map_not_found res v = (case res of Err (NotFound k) \<Rightarrow> Ok v | _ \<Rightarrow> res)"

definition assert_mut_valid :: "bool \<Rightarrow> string \<Rightarrow> (unit, error) result" where
  "assert_mut_valid cond msg = (if cond then Ok () else Err (Logic (InvalidMutation msg)))"

lemma map_not_found_simps [simp]:
  "map_not_found (Ok x) v = Ok x" "map_not_found (Err (NotFound k)) v = Ok v"
  "map_not_found Panic v = Panic"
  by (simp_all add: map_not_found_def)

subsection \<open>Keys and their bytes\<close>

text \<open>
  Two plot keys denote the same entry when their ticks fall into the same bucket, and a generic
  network key may spell out the bytes of another one; all other keys are told apart.
\<close>

fun key_bucket :: "key \<Rightarrow> key" where
  "key_bucket (Network (PlotE i tick)) = Network (PlotE i (tick div PLOT_EVENT_BUCKET_SIZE))"
| "key_bucket k = k"

fun is_generic :: "key \<Rightarrow> bool" where
  "is_generic (Network (Generic b)) = True"
| "is_generic _ = False"

lemmas entry_bytes = prefix_def bstr_def append_eq_append_conv write_le_inj

lemma length_bstr [simp]: "length (bstr s) = length s"
  by (simp add: bstr_def)

lemma blockchain_entry_inj: "blockchain_entry_as_bin a = blockchain_entry_as_bin b \<longleftrightarrow> a = b"
  by (cases a; cases b) (simp_all add: entry_bytes)

lemma cache_entry_length:
  "length (cache_entry_as_bin e) =
    (case e of BlocksByHeight _ \<Rightarrow> 11 | TxnsByAccount _ \<Rightarrow> 23 | CurrentHead \<Rightarrow> 5 | _ \<Rightarrow> 35)"
  by (cases e) (simp_all add: prefix_def)

lemma cache_entry_inj: "cache_entry_as_bin a = cache_entry_as_bin b \<longleftrightarrow> a = b"
proof
  assume eq: "cache_entry_as_bin a = cache_entry_as_bin b"
  then have "length (cache_entry_as_bin a) = length (cache_entry_as_bin b)" by simp
  with eq show "a = b"
    unfolding cache_entry_length by (cases a; cases b) (simp_all add: entry_bytes)
qed simp

lemma network_entry_length:
  "length (network_entry_as_bin e) =
    (case e of PlotE _ _ \<Rightarrow> 19 | ValidatorKey _ \<Rightarrow> 23 | ValidatorStake _ \<Rightarrow> 23
     | AdminKeyID \<Rightarrow> 5 | Generic b \<Rightarrow> length b)"
  by (cases e) (simp_all add: prefix_def)

lemma network_entry_inj:
  assumes "\<not> is_generic (Network a)" "\<not> is_generic (Network b)"
  shows "network_entry_as_bin a = network_entry_as_bin b \<longleftrightarrow>
    key_bucket (Network a) = key_bucket (Network b)"
proof (cases "length (network_entry_as_bin a) = length (network_entry_as_bin b)")
  case True
  with assms show ?thesis
    unfolding network_entry_length by (cases a; cases b) (simp_all add: entry_bytes)
next
  case False
  then have "network_entry_as_bin a \<noteq> network_entry_as_bin b" by metis
  moreover have "key_bucket (Network a) \<noteq> key_bucket (Network b)"
    using False unfolding network_entry_length by (cases a; cases b) auto
  ultimately show ?thesis by simp
qed

lemma as_bin_domain:
  "as_bin (Blockchain e) \<noteq> as_bin (Cache e')" "as_bin (Blockchain e) \<noteq> as_bin (Network e'')"
  "as_bin (Cache e') \<noteq> as_bin (Network e'')" "as_bin (Cache e') \<noteq> as_bin (Blockchain e)"
  "as_bin (Network e'') \<noteq> as_bin (Blockchain e)" "as_bin (Network e'') \<noteq> as_bin (Cache e')"
  by (simp_all add: prefix_def bstr_def)

lemma key_bucket_cases [simp]:
  "key_bucket (Network e) \<noteq> Blockchain b" "key_bucket (Network e) \<noteq> Cache c"
  "Blockchain b \<noteq> key_bucket (Network e)" "Cache c \<noteq> key_bucket (Network e)"
  by (cases e; simp)+

lemma as_bin_inj_iff:
  assumes "\<not> is_generic a" "\<not> is_generic b"
  shows "as_bin a = as_bin b \<longleftrightarrow> key_bucket a = key_bucket b"
proof (cases a; cases b)
  fix x y assume "a = Network x" "b = Network y"
  then show ?thesis
    using assms network_entry_inj [of x y] by (simp add: prefix_def)
qed (simp_all add: prefix_def bstr_def blockchain_entry_inj cache_entry_inj)

text \<open>
  A generic network key that spells out the bytes of another network entry is an alias of it.
\<close>

definition key_alias :: "key \<Rightarrow> key \<Rightarrow> bool" where
  "key_alias a b \<longleftrightarrow> (case (a, b) of
     (Network (Generic g), Network n) \<Rightarrow> g = network_entry_as_bin n
   | _ \<Rightarrow> False)"

lemma generic_shares_bytes:
  "as_bin (Network (Generic g)) = as_bin b \<longleftrightarrow> key_alias (Network (Generic g)) b"
  by (cases b) (simp_all add: key_alias_def prefix_def bstr_def)

lemma same_bucket_same_bytes: "key_bucket a = key_bucket b \<Longrightarrow> as_bin a = as_bin b"
proof (induction a rule: key_bucket.induct)
  case (1 i tick)
  then show ?case by (induction b rule: key_bucket.induct) simp_all
qed (induction b rule: key_bucket.induct; simp)+

lemma generic_key:
  assumes "is_generic a"
  obtains g where "a = Network (Generic g)"
  using assms by (cases a rule: is_generic.cases) auto

text \<open>
  C29: the exact collisions of the database's keys. Two keys are stored under the same bytes in
  two cases only: they are equal, up to the bucket the tick of a plot key falls into, or both are
  network keys, one of them generic, and the generic one spells out the bytes of the other. The
  second case is real, so that the bytes of a key do not identify it: every network entry has
  such an alias, the key of the administrator, for one, has the alias \<open>Generic(b"ADMIN")\<close>.
\<close>

theorem database_key_collisions:
  "(as_bin a = as_bin b \<longleftrightarrow> key_bucket a = key_bucket b \<or> key_alias a b \<or> key_alias b a) \<and>
   key_alias (Network (Generic (network_entry_as_bin n))) (Network n) \<and>
   Network (Generic (bstr ''ADMIN'')) \<noteq> Network AdminKeyID \<and>
   as_bin (Network (Generic (bstr ''ADMIN''))) = as_bin (Network AdminKeyID)"
proof (intro conjI)
  have aka: "as_bin x = as_bin y" if "key_alias x y" for x y
    using that generic_shares_bytes [of _ y] by (cases x rule: is_generic.cases) (simp_all add: key_alias_def)
  consider "is_generic a" | "is_generic b" | "\<not> is_generic a" "\<not> is_generic b" by blast
  then show "as_bin a = as_bin b \<longleftrightarrow> key_bucket a = key_bucket b \<or> key_alias a b \<or> key_alias b a"
  proof cases
    case 1
    then show ?thesis
      using generic_shares_bytes [of _ b] same_bucket_same_bytes [of a b] aka [of b a]
      by (metis generic_key)
  next
    case 2
    then show ?thesis
      using generic_shares_bytes [of _ a] same_bucket_same_bytes [of a b] aka [of a b]
      by (metis generic_key)
  next
    case 3
    then show ?thesis using as_bin_inj_iff [of a b] aka [of a b] aka [of b a, symmetric] by blast
  qed
qed (simp_all add: key_alias_def)

end
