(* ===== verification/External.thy ===== *)
theory External
  imports Keys
begin

text \<open>
  The code that the repository calls and does not contain, as fields of one record that every
  definition using it takes as its argument: the digests of the crypto library, RSA signatures
  of the TLS library, the bincode forms of the composite types, and the RocksDB store (a store
  state of an arbitrary type with its operations, each of which may report an error). What the
  code relies on is stated as predicates on the record: \<open>digests_ok\<close>, \<open>codecs_ok\<close> and the
  locale \<open>rocksdb\<close>.

  Also here, because they are thin wrappers of that code: \<open>core/src/hash.rs\<close>,
  \<open>core/src/signer.rs\<close>, the hashing and signing of headers and transactions, and the Merkle
  root of \<open>core/src/primitives/block.rs\<close> with the step range of \<open>core/src/range.rs\<close>.
\<close>

subsection \<open>The interface\<close>

text \<open>The binary form of a type: \<open>ser\<close> is \<open>serialize\<close>, \<open>de\<close> is \<open>deserialize\<close>.\<close>

record 'a codec =
  ser :: "'a \<Rightarrow> bin"
  de :: "bin \<Rightarrow> ('a, string) result"

text \<open>A public or private key of the TLS library, an opaque handle.\<close>

datatype pkey = PKey bin

text \<open>The operations of a write batch.\<close>

datatype batch_op = BatchPut bin bin | BatchDelete bin

record 's ext =
  sha3_256 :: "bin \<Rightarrow> bin"
  ripemd160 :: "bin \<Rightarrow> bin"
  rsa_sign :: "pkey \<Rightarrow> bin \<Rightarrow> bin"
  rsa_verify :: "pkey \<Rightarrow> bin \<Rightarrow> bin \<Rightarrow> bool option"
  public_key_from_der :: "bin \<Rightarrow> (pkey, string) result"
  header_codec :: "block_header codec"
  txn_codec :: "txn codec"
  mutation_codec :: "mutation codec"
  hash_list_codec :: "u256 list codec"
  hash_set_codec :: "u256 set codec"
  events_codec :: "raw_events codec"
  rdb_get :: "'s \<Rightarrow> bin \<Rightarrow> (bin option, string) result"
  rdb_put :: "'s \<Rightarrow> bin \<Rightarrow> bin \<Rightarrow> ('s, string) result"
  rdb_delete :: "'s \<Rightarrow> bin \<Rightarrow> ('s, string) result"
  rdb_write :: "'s \<Rightarrow> batch_op list \<Rightarrow> ('s, string) result"
  rdb_is_empty :: "'s \<Rightarrow> bool"

subsection \<open>What the code relies on\<close>

text \<open>The digests have their documented lengths.\<close>

definition digests_ok :: "'s ext \<Rightarrow> bool" where
  "digests_ok X \<longleftrightarrow> (\<forall>b. length (sha3_256 X b) = 32) \<and> (\<forall>b. length (ripemd160 X b) = 20)"

text \<open>Deserializing what was serialized gives the value back.\<close>

definition codec_ok :: "'a codec \<Rightarrow> bool" where
  "codec_ok c \<longleftrightarrow> (\<forall>x. de c (ser c x) = Ok x)"

definition codecs_ok :: "'s ext \<Rightarrow> bool" where
  "codecs_ok X \<longleftrightarrow> codec_ok (header_codec X) \<and> codec_ok (txn_codec X) \<and>
     codec_ok (mutation_codec X) \<and> codec_ok (hash_list_codec X) \<and>
     codec_ok (hash_set_codec X) \<and> codec_ok (events_codec X)"

lemma codecs_okD [simp]:
  assumes "codecs_ok X"
  shows "de (header_codec X) (ser (header_codec X) h) = Ok h"
    "de (txn_codec X) (ser (txn_codec X) t) = Ok t"
    "de (mutation_codec X) (ser (mutation_codec X) m) = Ok m"
    "de (hash_list_codec X) (ser (hash_list_codec X) l) = Ok l"
    "de (hash_set_codec X) (ser (hash_set_codec X) s) = Ok s"
    "de (events_codec X) (ser (events_codec X) e) = Ok e"
  using assms by (simp_all add: codecs_ok_def codec_ok_def)

text \<open>A store in operation: what is read is what was last written, and no operation fails.\<close>

fun batch_effect :: "batch_op list \<Rightarrow> (bin \<Rightarrow> bin option) \<Rightarrow> (bin \<Rightarrow> bin option)" where
  "batch_effect [] m = m"
| "batch_effect (BatchPut k v # wb) m = batch_effect wb (m(k \<mapsto> v))"
| "batch_effect (BatchDelete k # wb) m = batch_effect wb (m(k := None))"

lemma batch_effect_append: "batch_effect (a @ b) m = batch_effect b (batch_effect a m)"
  by (induction a m rule: batch_effect.induct) (simp_all del: fun_upd_apply)

locale rocksdb =
  fixes X :: "'s ext"
    and content :: "'s \<Rightarrow> bin \<Rightarrow> bin option"
  assumes store_get: "rdb_get X s k = Ok (content s k)"
    and store_put: "\<exists>s'. rdb_put X s k v = Ok s' \<and> content s' = (content s)(k \<mapsto> v)"
    and store_delete: "\<exists>s'. rdb_delete X s k = Ok s' \<and> content s' = (content s)(k := None)"
    and store_write: "\<exists>s'. rdb_write X s wb = Ok s' \<and> content s' = batch_effect wb (content s)"
    and store_is_empty: "rdb_is_empty X s \<longleftrightarrow> content s = Map.empty"

subsection \<open>Fixed-width values\<close>

text \<open>
  Integers and the head reference are read back from the front of the bytes; the little-endian
  form of the integers is the one the tests of \<open>u256.rs\<close> show.
\<close>

definition de_u64 :: "bin \<Rightarrow> (u64, string) result" where
  "de_u64 bs = (if 8 \<le> length bs then Ok (read_le (take 8 bs)) else Err ''EndOfFileError'')"

lemma de_u64_write [simp]: "de_u64 (write_le 8 h @ bs) = Ok h" "de_u64 (write_le 8 h) = Ok h"
  by (simp_all add: de_u64_def read_write_le)

text \<open>An error of the decoder becomes an error of the record keeper.\<close>

fun lift_de :: "('a, string) result \<Rightarrow> ('a, error) result" where
  "lift_de (Ok x) = Ok x"
| "lift_de (Err e) = Err (Deserialize e)"
| "lift_de Panic = Panic"
| "lift_de Diverge = Diverge"

fun lift_db :: "('a, string) result \<Rightarrow> ('a, error) result" where
  "lift_db (Ok x) = Ok x"
| "lift_db (Err e) = Err (DB e)"
| "lift_db Panic = Panic"
| "lift_db Diverge = Diverge"

lemma lift_Ok_iff [result_simps]:
  "lift_de m = Ok y \<longleftrightarrow> m = Ok y" "lift_db m = Ok y \<longleftrightarrow> m = Ok y"
  by (cases m; auto)+

subsection \<open>Hashing\<close>

text \<open>\<open>Digest::result\<close> writes the digest over the front of the buffer.\<close>

definition digest_into :: "bin \<Rightarrow> bin \<Rightarrow> bin" where
  "digest_into d buf = d @ drop (length d) buf"

definition hash_bytes :: "'s ext \<Rightarrow> bin \<Rightarrow> u256" where
  "hash_bytes X bytes =
     (let buf = replicate 32 0;
          buf = digest_into (sha3_256 X bytes) buf;
          buf = digest_into (sha3_256 X buf) buf
      in u256_read_big_endian buf)"

definition hash_pub_key :: "'s ext \<Rightarrow> bin \<Rightarrow> u160" where
  "hash_pub_key X bytes =
     (let buf = replicate 32 0;
          buf = digest_into (sha3_256 X bytes) buf;
          buf = digest_into (ripemd160 X buf) buf
      in u160_read_big_endian buf)"

definition hash_obj :: "'s ext \<Rightarrow> 'a codec \<Rightarrow> 'a \<Rightarrow> u256" where
  "hash_obj X c obj = hash_bytes X (ser c obj)"

definition merge_hashes :: "'s ext \<Rightarrow> u256 \<Rightarrow> u256 \<Rightarrow> u256" where
  "merge_hashes X a b = hash_bytes X (u256_to_vec a @ u256_to_vec b)"

definition header_calculate_hash :: "'s ext \<Rightarrow> block_header \<Rightarrow> u256" where
  "header_calculate_hash X self = hash_obj X (header_codec X) self"

definition block_calculate_hash :: "'s ext \<Rightarrow> block \<Rightarrow> u256" where
  "block_calculate_hash X self = header_calculate_hash X (header self)"

definition txn_calculate_hash :: "'s ext \<Rightarrow> txn \<Rightarrow> u256" where
  "txn_calculate_hash X self = hash_obj X (txn_codec X) self"

text \<open>The reads of \<open>hash_bytes\<close> and \<open>hash_pub_key\<close> never leave their 32-byte buffer.\<close>

lemma digest_into_length: "length d \<le> length buf \<Longrightarrow> length (digest_into d buf) = length buf"
  by (simp add: digest_into_def)

lemma hash_bytes_in_bounds:
  assumes "digests_ok X"
  shows "u256_from_big_endian
      (digest_into (sha3_256 X (digest_into (sha3_256 X bytes) (replicate 32 0)))
        (digest_into (sha3_256 X bytes) (replicate 32 0))) = Ok (hash_bytes X bytes)"
  using assms by (simp add: u256_from_big_endian_def hash_bytes_def Let_def digests_ok_def
    digest_into_length)

lemma double_hash:
  assumes "digests_ok X"
  shows "u256_num (hash_bytes X bytes) = nat_of_le (rev (sha3_256 X (sha3_256 X bytes)))"
  using assms u256_read_big_endian_num [of "sha3_256 X (sha3_256 X bytes)"]
  by (simp add: hash_bytes_def Let_def digests_ok_def digest_into_def)

subsection \<open>Signatures\<close>

definition sign_bytes :: "'s ext \<Rightarrow> bin \<Rightarrow> pkey \<Rightarrow> bin" where
  "sign_bytes X bytes private_key = rsa_sign X private_key bytes"

definition verify_bytes :: "'s ext \<Rightarrow> bin \<Rightarrow> bin \<Rightarrow> pkey \<Rightarrow> (bool, 'e) result" where
  "verify_bytes X bytes sig public_key = unwrap (rsa_verify X public_key bytes sig)"

definition get_signing_bytes :: "'s ext \<Rightarrow> txn \<Rightarrow> bin" where
  "get_signing_bytes X self =
     write_le 8 (txn_timestamp self) @ u160_to_vec (creator self) @
     ser (mutation_codec X) (txn_mutation self)"

definition txn_sign :: "'s ext \<Rightarrow> txn \<Rightarrow> pkey \<Rightarrow> txn" where
  "txn_sign X self k =
     \<lparr>txn_timestamp = txn_timestamp self, creator = creator self,
      txn_mutation = txn_mutation self, signature = sign_bytes X (get_signing_bytes X self) k\<rparr>"

definition verify_signature :: "'s ext \<Rightarrow> txn \<Rightarrow> pkey \<Rightarrow> (bool, 'e) result" where
  "verify_signature X self k = verify_bytes X (get_signing_bytes X self) (signature self) k"

text \<open>What is signed is exactly the transaction without its signature.\<close>

lemma signing_bytes_inj:
  assumes "codecs_ok X" and "get_signing_bytes X a = get_signing_bytes X b"
  shows "a\<lparr>signature := s\<rparr> = b\<lparr>signature := s\<rparr>"
proof -
  from assms(2) have "txn_timestamp a = txn_timestamp b" "creator a = creator b"
    "ser (mutation_codec X) (txn_mutation a) = ser (mutation_codec X) (txn_mutation b)"
    by (simp_all add: get_signing_bytes_def append_eq_append_conv write_le_inj)
  moreover from this(3) have "txn_mutation a = txn_mutation b"
    by (metis assms(1) codecs_okD(3) result.inject(1))
  ultimately show ?thesis by (cases a; cases b) simp
qed

lemma sign_then_verify:
  assumes "\<And>b. rsa_verify X k' b (rsa_sign X k b) = Some True"
  shows "verify_signature X (txn_sign X t k) k' = Ok True"
  using assms by (simp add: verify_signature_def verify_bytes_def txn_sign_def sign_bytes_def
    get_signing_bytes_def)

subsection \<open>The Merkle root\<close>

text \<open>\<open>Range(start, stop, step)\<close> with a positive step.\<close>

function range_values :: "nat \<Rightarrow> nat \<Rightarrow> nat \<Rightarrow> nat list" where
  "range_values start stop step =
     (if start < stop \<and> 0 < step then start # range_values (start + step) stop step else [])"
  by auto
termination by (relation "measure (\<lambda>(start, stop, step). stop - start)") auto

declare range_values.simps [simp del]

definition merkle_level :: "'s ext \<Rightarrow> u256 list \<Rightarrow> u256 list" where
  "merkle_level X hashes =
     (let n = length hashes
      in map (\<lambda>i. merge_hashes X (hashes ! i) (hashes ! (i + 1))) (range_values 0 (n - 1) 2)
         @ (if n mod 2 = 1 then [hashes ! (n - 1)] else []))"

text \<open>The same level as a recursion over the list.\<close>

fun merge_pairs :: "('a \<Rightarrow> 'a \<Rightarrow> 'a) \<Rightarrow> 'a list \<Rightarrow> 'a list" where
  "merge_pairs f (a # b # rest) = f a b # merge_pairs f rest"
| "merge_pairs f rest = rest"

lemma range_values_shift:
  "range_values (a + c) (b + c) s = map (\<lambda>i. i + c) (range_values a b s)"
proof (induction a b s rule: range_values.induct)
  case (1 a b s)
  then show ?case
    by (subst (1 2) range_values.simps) (auto simp: add.commute add.left_commute)
qed

lemma merkle_level_merge_pairs: "merkle_level X hs = merge_pairs (merge_hashes X) hs"
proof (induction "merge_hashes X" hs rule: merge_pairs.induct)
  case (1 a b rest)
  show ?case
  proof (cases rest)
    case Nil
    then show ?thesis by (simp add: merkle_level_def range_values.simps)
  next
    case (Cons d ds)
    let ?n = "length rest"
    have "range_values 0 (length (a # b # rest) - 1) 2 =
        0 # map (\<lambda>i. i + 2) (range_values 0 (?n - 1) 2)"
      using range_values_shift [of 0 2 "?n - 1" 2] Cons
      by (subst range_values.simps) (simp add: numeral_2_eq_2)
    moreover have "(a # b # rest) ! (?n + 1) = rest ! (?n - 1)" using Cons by simp
    ultimately have "merkle_level X (a # b # rest) = merge_hashes X a b # merkle_level X rest"
      by (simp add: merkle_level_def Let_def)
    then show ?thesis using 1 by simp
  qed
qed (simp_all add: merkle_level_def range_values.simps)

lemma length_merge_pairs: "length (merge_pairs f hs) = (length hs + 1) div 2"
  by (induction f hs rule: merge_pairs.induct) auto

function merkle_loop :: "'s ext \<Rightarrow> u256 list \<Rightarrow> u256 list" where
  "merkle_loop X hashes =
     (if 1 < length hashes then merkle_loop X (merkle_level X hashes) else hashes)"
  by auto
termination
  by (relation "measure (\<lambda>(X, hs). length hs)") (auto simp: merkle_level_merge_pairs length_merge_pairs)

declare merkle_loop.simps [simp del]

definition calculate_merkle_root :: "'s ext \<Rightarrow> u256 list \<Rightarrow> u256" where
  "calculate_merkle_root X txn_set =
     (let hashes = merkle_loop X txn_set
      in if length hashes = 1 then hashes ! 0 else U256_ZERO)"

lemma merkle_loop_length: "length (merkle_loop X hs) = (if hs = [] then 0 else 1)"
proof (induction X hs rule: merkle_loop.induct)
  case (1 X hs)
  show ?case
  proof (cases "1 < length hs")
    case True
    then have "merkle_level X hs \<noteq> []"
      using length_merge_pairs [of "merge_hashes X" hs] by (auto simp: merkle_level_merge_pairs)
    with 1 True show ?thesis by (subst merkle_loop.simps) auto
  next
    case False
    then show ?thesis by (subst merkle_loop.simps) (cases hs; simp)
  qed
qed

text \<open>The pairs that are merged on the way to a root.\<close>

fun level_pairs :: "'a list \<Rightarrow> ('a \<times> 'a) list" where
  "level_pairs (a # b # rest) = (a, b) # level_pairs rest"
| "level_pairs rest = []"

function merkle_pairs :: "'s ext \<Rightarrow> u256 list \<Rightarrow> (u256 \<times> u256) list" where
  "merkle_pairs X hs =
     (if 1 < length hs then level_pairs hs @ merkle_pairs X (merkle_level X hs) else [])"
  by auto
termination
  by (relation "measure (\<lambda>(X, hs). length hs)") (auto simp: merkle_level_merge_pairs length_merge_pairs)

declare merkle_pairs.simps [simp del]

lemma merge_pairs_inj:
  assumes "inj_on (\<lambda>(a, b). f a b) (set (level_pairs xs) \<union> set (level_pairs ys))"
    and "length xs = length ys" and "merge_pairs f xs = merge_pairs f ys"
  shows "xs = ys"
  using assms
proof (induction xs arbitrary: ys rule: induct_list012)
  case (3 a b rest)
  then obtain c d rest' where ys: "ys = c # d # rest'" by (metis length_Suc_conv length_Cons)
  then have "f a b = f c d" using "3.prems" by simp
  then have "(a, b) = (c, d)" using inj_onD [OF "3.prems"(1), of "(a, b)" "(c, d)"] ys by simp
  moreover have "inj_on (\<lambda>(a, b). f a b) (set (level_pairs rest) \<union> set (level_pairs rest'))"
    by (rule inj_on_subset [OF "3.prems"(1)]) (auto simp: ys)
  ultimately show ?case using "3.IH"(1) "3.prems" ys by simp
next
  case (2 a)
  then obtain w where "ys = [w]" by (metis length_0_conv length_Suc_conv length_Cons list.size(3))
  with 2 show ?case by simp
qed simp

lemma merkle_loop_inj:
  assumes "inj_on (\<lambda>(a, b). merge_hashes X a b) (set (merkle_pairs X xs) \<union> set (merkle_pairs X ys))"
    and "length xs = length ys" and "merkle_loop X xs = merkle_loop X ys"
  shows "xs = ys"
  using assms
proof (induction "length xs" arbitrary: xs ys rule: less_induct)
  case less
  show ?case
  proof (cases "1 < length xs")
    case True
    then have lt: "length (merkle_level X xs) < length xs"
      by (simp add: merkle_level_merge_pairs length_merge_pairs)
    have pairs: "set (level_pairs zs) \<subseteq> set (merkle_pairs X zs)"
      "set (merkle_pairs X (merkle_level X zs)) \<subseteq> set (merkle_pairs X zs)"
      if "1 < length zs" for zs
      using that by (auto simp: merkle_pairs.simps [of X zs])
    have ys: "1 < length ys" using True less.prems(2) by simp
    have eq: "merkle_loop X (merkle_level X xs) = merkle_loop X (merkle_level X ys)"
      using less.prems(3) True ys by (simp add: merkle_loop.simps [of X xs] merkle_loop.simps [of X ys])
    have sub: "set (merkle_pairs X (merkle_level X xs)) \<union> set (merkle_pairs X (merkle_level X ys)) \<subseteq>
        set (merkle_pairs X xs) \<union> set (merkle_pairs X ys)"
      using pairs(2) [OF True] pairs(2) [OF ys] by blast
    have "merkle_level X xs = merkle_level X ys"
      by (rule less.hyps [OF lt inj_on_subset [OF less.prems(1) sub] _ eq])
        (simp add: merkle_level_merge_pairs length_merge_pairs less.prems(2))
    moreover have "inj_on (\<lambda>(a, b). merge_hashes X a b) (set (level_pairs xs) \<union> set (level_pairs ys))"
      using pairs(1) True ys less.prems(1) by (blast intro: inj_on_subset)
    ultimately show ?thesis
      using merge_pairs_inj [OF _ less.prems(2)] by (simp add: merkle_level_merge_pairs)
  next
    case False
    then show ?thesis using less.prems(2,3)
      by (simp add: merkle_loop.simps [of X xs] merkle_loop.simps [of X ys])
  qed
qed

lemma merkle_root_singleton:
  "hs \<noteq> [] \<Longrightarrow> merkle_loop X hs = [calculate_merkle_root X hs]"
  using merkle_loop_length [of X hs]
  by (auto simp: calculate_merkle_root_def length_Suc_conv)

text \<open>
  C31: as long as no two different pairs among those merged on the way to the two roots collide,
  the Merkle root of a block determines its list of transactions, among the lists of the same
  length: changing, reordering or replacing a transaction changes the root.
\<close>

theorem merkle_root_determines_txns:
  assumes "inj_on (\<lambda>(a, b). merge_hashes X a b) (set (merkle_pairs X xs) \<union> set (merkle_pairs X ys))"
    and "length xs = length ys" and "calculate_merkle_root X xs = calculate_merkle_root X ys"
  shows "xs = ys"
proof (cases "xs = []")
  case False
  then have "ys \<noteq> []" using assms(2) by auto
  with False have "merkle_loop X xs = merkle_loop X ys"
    using assms(3) by (simp add: merkle_root_singleton)
  then show ?thesis using merkle_loop_inj assms(1,2) by blast
qed (use assms(2) in simp)

lemma merkle_root_pair: "calculate_merkle_root X [a, b] = merge_hashes X a b"
  by (simp add: calculate_merkle_root_def merkle_loop.simps [of _ "[_, _]"]
    merkle_loop.simps [of _ "[_]"] merkle_level_merge_pairs)

lemma merkle_root_triple:
  "calculate_merkle_root X [a, b, c] = merge_hashes X (merge_hashes X a b) c"
  by (simp add: calculate_merkle_root_def merkle_loop.simps [of _ "[_, _, _]"]
    merkle_loop.simps [of _ "[_, _]"] merkle_loop.simps [of _ "[_]"] merkle_level_merge_pairs)

text \<open>
  the root does not determine the number of transactions: whatever the hash function, the
  three transactions \<open>a\<close>, \<open>b\<close>, \<open>c\<close> and the two entries \<open>merge a b\<close>, \<open>c\<close> have the same root.
\<close>

theorem merkle_root_length_ambiguous:
  "calculate_merkle_root X [a, b, c] = calculate_merkle_root X [merge_hashes X a b, c] \<and>
   [a, b, c] \<noteq> [merge_hashes X a b, c]"
  by (simp add: merkle_root_pair merkle_root_triple)

end
