(* ===== verification/Node_Repo.thy ===== *)
theory Node_Repo
  imports External
begin

text \<open>
  \<open>core/src/network/node.rs\<close>: the endpoints at which peers are reached and their text form, the
  description of a peer, and the repository of known peers ordered by their connection score.

  The result of reading or creating the node file is an argument of \<open>repo_load\<close> and
  \<open>repo_save\<close>; everything these methods do with it is modelled. A sort that compares at all
  looks up every key, so a key without a node is a panic as soon as there are two keys.
\<close>

section \<open>Endpoints\<close>

datatype net_protocol = Tcp | Udp

record node_endpoint =
  protocol :: net_protocol
  host :: string
  port :: u16

fun split_on :: "char \<Rightarrow> string \<Rightarrow> string list" where
  "split_on c [] = [[]]"
| "split_on c (x # xs) =
     (if x = c then [] # split_on c xs
      else case split_on c xs of [] \<Rightarrow> [[x]] | p # ps \<Rightarrow> (x # p) # ps)"

text \<open>The decimal integers of the standard library.\<close>

definition to_digit10 :: "char \<Rightarrow> nat option" where
  "to_digit10 ch =
     (let n = (of_char ch :: nat) in if 48 \<le> n \<and> n \<le> 57 then Some (n - 48) else None)"

fun parse_u16_loop :: "nat \<Rightarrow> string \<Rightarrow> (nat, string) result" where
  "parse_u16_loop acc [] = Ok acc"
| "parse_u16_loop acc (ch # cs) =
     (case to_digit10 ch of
        None \<Rightarrow> Err ''invalid digit found in string''
      | Some d \<Rightarrow> if acc * 10 + d < 65536 then parse_u16_loop (acc * 10 + d) cs
                  else Err ''number too large to fit in target type'')"

definition parse_u16 :: "string \<Rightarrow> (u16, string) result" where
  "parse_u16 s =
     (let digits = (case s of [] \<Rightarrow> [] | ch # cs \<Rightarrow> if ch = CHR ''+'' then cs else s) in
      if digits = [] then Err ''cannot parse integer from empty string''
      else and_then (parse_u16_loop 0 digits) (\<lambda>n. Ok (of_nat n)))"

fun decimal :: "nat \<Rightarrow> string" where
  "decimal n = (if n < 10 then [] else decimal (n div 10)) @ [char_of (48 + n mod 10)]"

declare decimal.simps [simp del]

definition endpoint_from_str :: "string \<Rightarrow> (node_endpoint, string) result" where
  "endpoint_from_str v =
     (let parts = split_on (CHR '':'') v in
       if length parts = 2
       then and_then (parse_u16 (parts ! 1))
         (\<lambda>p. Ok \<lparr>protocol = Udp, host = parts ! 0, port = p\<rparr>)
       else if length parts = 3
       then and_then (parse_u16 (parts ! 2))
         (\<lambda>p. and_then
            (if parts ! 0 = ''tcp'' then Ok Tcp
             else if parts ! 0 = ''udp'' then Ok Udp
             else Err ''Invalid packet protocol'')
            (\<lambda>proto. Ok \<lparr>protocol = proto, host = parts ! 1, port = p\<rparr>))
       else Err ''Invalid hostname string'')"

definition endpoint_fmt :: "node_endpoint \<Rightarrow> string" where
  "endpoint_fmt self = host self @ CHR '':'' # decimal (unat (port self))"

section \<open>Nodes\<close>

record node =
  endpoint :: node_endpoint
  key :: bin
  node_version :: u16
  node_name :: string

definition node_new :: "node_endpoint \<Rightarrow> node" where
  "node_new ep = \<lparr>endpoint = ep, key = [], node_version = 1, node_name = []\<rparr>"

definition get_hash_id :: "'s ext \<Rightarrow> node \<Rightarrow> u160" where
  "get_hash_id X self = hash_pub_key X (key self)"

record local_node =
  ln_node :: node
  score :: u16

definition local_node_new :: "node \<Rightarrow> local_node" where
  "local_node_new n = \<lparr>ln_node = n, score = 0\<rparr>"

section \<open>The repository\<close>

record node_repository =
  available_nodes :: "(u160, local_node) hash_map"
  sorted_nodes :: "u160 list"
  repo_changes :: usize

definition SAVED_NODES_COUNT :: nat where
  "SAVED_NODES_COUNT = 100"

definition repo_get_nodes :: "node_repository \<Rightarrow> usize \<Rightarrow> (node, 'e) result" where
  "repo_get_nodes self idx =
     (let ids = sorted_nodes self in
       if ids = [] then Panic
       else and_then (unwrap (hm_get (available_nodes self) (ids ! (unat idx mod length ids))))
         (\<lambda>n. Ok (ln_node n)))"

definition repo_get :: "node_repository \<Rightarrow> u160 \<Rightarrow> node option" where
  "repo_get self h = map_option ln_node (hm_get (available_nodes self) h)"

definition repo_apply :: "'s ext \<Rightarrow> node \<Rightarrow> node_repository \<Rightarrow> bool \<times> node_repository" where
  "repo_apply X nd self =
     (let hpk = get_hash_id X nd in
       case hm_get (available_nodes self) hpk of
         Some n \<Rightarrow>
           if ln_node n \<noteq> nd
           then (True, self\<lparr>available_nodes := hm_insert hpk (n\<lparr>ln_node := nd\<rparr>) (available_nodes self),
                   repo_changes := repo_changes self + 1\<rparr>)
           else (False, self)
       | None \<Rightarrow> (False, self))"

definition repo_new_node :: "'s ext \<Rightarrow> node \<Rightarrow> node_repository \<Rightarrow> node_repository" where
  "repo_new_node X nd self =
     (let hpk = get_hash_id X nd in
       if hm_get (available_nodes self) hpk \<noteq> None then snd (repo_apply X nd self)
       else self\<lparr>sorted_nodes := sorted_nodes self @ [hpk],
                 available_nodes := hm_insert hpk (local_node_new nd) (available_nodes self),
                 repo_changes := repo_changes self + 1\<rparr>)"

definition repo_remove :: "u160 \<Rightarrow> node_repository \<Rightarrow> node_repository" where
  "repo_remove h self =
     (if hm_get (available_nodes self) h \<noteq> None
      then self\<lparr>available_nodes := hm_remove h (available_nodes self),
                sorted_nodes := filter (\<lambda>n. n \<noteq> h) (sorted_nodes self),
                repo_changes := repo_changes self + 1\<rparr>
      else self)"

text \<open>The sort key of \<open>resort\<close>: the order is descending in the score, and the sort is stable.\<close>

definition score_of :: "(u160, local_node) hash_map \<Rightarrow> u160 \<Rightarrow> nat" where
  "score_of m h = (case hm_get m h of Some n \<Rightarrow> unat (score n) | None \<Rightarrow> 0)"

definition resort :: "node_repository \<Rightarrow> (node_repository, 'e) result" where
  "resort self =
     (if 2 \<le> length (sorted_nodes self) \<and>
         (\<exists>h \<in> set (sorted_nodes self). hm_get (available_nodes self) h = None)
      then Panic
      else Ok (self\<lparr>sorted_nodes :=
        sort_key (\<lambda>h. - int (score_of (available_nodes self) h)) (sorted_nodes self)\<rparr>))"

definition up_score :: "u160 \<Rightarrow> node_repository \<Rightarrow> (bool \<times> node_repository, 'e) result" where
  "up_score h self =
     (case hm_get (available_nodes self) h of
        None \<Rightarrow> Ok (False, self)
      | Some n \<Rightarrow>
          and_then (resort (self\<lparr>available_nodes :=
              hm_insert h (n\<lparr>score := score n + 1\<rparr>) (available_nodes self)\<rparr>))
            (\<lambda>r. Ok (True, r\<lparr>repo_changes := repo_changes r + 1\<rparr>)))"

definition down_score :: "u160 \<Rightarrow> node_repository \<Rightarrow> (bool \<times> node_repository, 'e) result" where
  "down_score h self =
     (case hm_get (available_nodes self) h of
        None \<Rightarrow> Ok (False, self)
      | Some n \<Rightarrow>
          if 0 < score n
          then and_then (resort (self\<lparr>available_nodes :=
                 hm_insert h (n\<lparr>score := score n div 2\<rparr>) (available_nodes self)\<rparr>))
               (\<lambda>r. Ok (True, r\<lparr>repo_changes := repo_changes r + 1\<rparr>))
          else Ok (False, self))"

definition repo_len :: "node_repository \<Rightarrow> nat" where
  "repo_len self = length (sorted_nodes self)"

definition repo_push :: "'s ext \<Rightarrow> local_node \<Rightarrow> node_repository \<Rightarrow> node_repository" where
  "repo_push X n self =
     (let hpk = get_hash_id X (ln_node n) in
       self\<lparr>sorted_nodes := sorted_nodes self @ [hpk],
            available_nodes := hm_insert hpk n (available_nodes self)\<rparr>)"

definition repo_build :: "'s ext \<Rightarrow> local_node list \<Rightarrow> node_repository \<Rightarrow> (node_repository, 'e) result" where
  "repo_build X nodes self =
     (let empty = self\<lparr>available_nodes := [], sorted_nodes := []\<rparr> in
       if nodes = [] then Ok empty
       else and_then (resort (fold (repo_push X) nodes empty))
         (\<lambda>r. Ok (r\<lparr>repo_changes := repo_changes r + 1\<rparr>)))"

definition repo_new :: "'s ext \<Rightarrow> (node_repository, 'e) result" where
  "repo_new X = repo_build X [] \<lparr>available_nodes = [], sorted_nodes = [], repo_changes = 0\<rparr>"

definition repo_trim :: "'s ext \<Rightarrow> node_repository \<Rightarrow> (node_repository, 'e) result" where
  "repo_trim X self = repo_build X (take SAVED_NODES_COUNT (map snd (available_nodes self))) self"

text \<open>
  \<open>save\<close>, with the result of creating the file, and \<open>load\<close>, with what the file holds: nothing
  when it does not exist, the nodes it lists, or the error of opening it.
\<close>

definition repo_save ::
  "(unit, 'e) result \<Rightarrow> node_repository \<Rightarrow> (u32, 'e) result \<times> node_repository" where
  "repo_save created self =
     (if repo_changes self = 0 then (Ok (of_nat (length (sorted_nodes self))), self)
      else case created of
          Ok _ \<Rightarrow> (Ok (of_nat (length (available_nodes self))), self\<lparr>repo_changes := 0\<rparr>)
        | Err e \<Rightarrow> (Err e, self)
        | Panic \<Rightarrow> (Panic, self)
        | Diverge \<Rightarrow> (Diverge, self))"

definition repo_load ::
  "'s ext \<Rightarrow> (local_node list option, 'e) result \<Rightarrow> node_repository \<Rightarrow> (u32 \<times> node_repository, 'e) result" where
  "repo_load X file self =
     and_then file
       (\<lambda>c. case c of
          None \<Rightarrow> Ok (0, self)
        | Some loaded \<Rightarrow>
            and_then (repo_build X loaded self)
              (\<lambda>r. Ok (of_nat (length (available_nodes r)), r)))"

section \<open>The text form of an endpoint\<close>

lemma split_on_none: "c \<notin> set xs \<Longrightarrow> split_on c xs = [xs]"
  by (induction xs) auto

lemma split_on_one: "c \<notin> set xs \<Longrightarrow> split_on c (xs @ c # ys) = xs # split_on c ys"
  by (induction xs) auto

lemma digit_char: "n < 10 \<Longrightarrow> to_digit10 (char_of (48 + n)) = Some n"
  by (simp add: to_digit10_def Let_def)

lemma digit_char_neq: "n < (10 :: nat) \<Longrightarrow> to_digit10 c = None \<Longrightarrow> char_of (48 + n) \<noteq> c"
  using digit_char [of n] by auto

lemma not_digits: "to_digit10 (CHR ''+'') = None" "to_digit10 (CHR '':'') = None"
  by (simp_all add: to_digit10_def)

lemma decimal_chars: "c \<in> set (decimal n) \<Longrightarrow> \<exists>d < 10. c = char_of (48 + d :: nat)"
proof (induction n rule: decimal.induct)
  case (1 n)
  have "c \<in> set (decimal (n div 10)) \<and> \<not> n < 10 \<or> c = char_of (48 + n mod 10)"
    using "1.prems" by (subst (asm) decimal.simps) (auto split: if_splits)
  then show ?case using "1.IH" mod_less_divisor [of 10 n] by fastforce
qed

lemma parse_u16_loop_append:
  "parse_u16_loop acc (xs @ ys) = and_then (parse_u16_loop acc xs) (\<lambda>a. parse_u16_loop a ys)"
  by (induction xs arbitrary: acc) (auto split: option.splits)

lemma parse_decimal: "n < 65536 \<Longrightarrow> parse_u16_loop 0 (decimal n) = Ok n"
proof (induction n rule: decimal.induct)
  case (1 n)
  have "parse_u16_loop 0 (if n < 10 then [] else decimal (n div 10)) = Ok (n div 10)"
    using 1 by auto
  then show ?case using "1.prems"
    by (subst decimal.simps) (simp add: parse_u16_loop_append digit_char mult.commute)
qed

lemma parse_u16_decimal: "n < 65536 \<Longrightarrow> parse_u16 (decimal n) = Ok (of_nat n)"
proof -
  assume n: "n < 65536"
  have ne: "decimal n \<noteq> []" by (subst decimal.simps) simp
  moreover have "hd (decimal n) \<noteq> CHR ''+''"
    using decimal_chars [OF hd_in_set [OF ne]] digit_char_neq [OF _ not_digits(1)] by force
  ultimately show ?thesis using parse_decimal [OF n]
    by (cases "decimal n") (simp_all add: parse_u16_def)
qed

lemma endpoint_text:
  assumes "CHR '':'' \<notin> set (host ep)"
  shows "endpoint_from_str (endpoint_fmt ep) = Ok (ep\<lparr>protocol := Udp\<rparr>)"
    "endpoint_from_str (''tcp:'' @ endpoint_fmt ep) = Ok (ep\<lparr>protocol := Tcp\<rparr>)"
proof -
  have d: "CHR '':'' \<notin> set (decimal (unat (port ep)))"
    using decimal_chars [of "CHR '':''" "unat (port ep)"] digit_char_neq [OF _ not_digits(2)] by force
  have "unat (port ep) < 65536" using unsigned_less [of "port ep", where 'a = nat] by simp
  note u = parse_u16_decimal [OF this]
  have s: "split_on (CHR '':'') (endpoint_fmt ep) = [host ep, decimal (unat (port ep))]"
    by (simp add: endpoint_fmt_def split_on_one split_on_none assms d)
  then show "endpoint_from_str (endpoint_fmt ep) = Ok (ep\<lparr>protocol := Udp\<rparr>)"
    by (simp add: endpoint_from_str_def u)
  from s show "endpoint_from_str (''tcp:'' @ endpoint_fmt ep) = Ok (ep\<lparr>protocol := Tcp\<rparr>)"
    by (simp add: endpoint_from_str_def u)
qed

section \<open>The order of the repository\<close>

text \<open>
  A sound repository lists exactly the keys of its nodes, each node under the hash of its own
  key, and lists them in descending order of their scores.
\<close>

definition repo_ok :: "'s ext \<Rightarrow> node_repository \<Rightarrow> bool" where
  "repo_ok X r \<longleftrightarrow>
     hm_ok (available_nodes r) \<and>
     set (sorted_nodes r) = fst ` set (available_nodes r) \<and>
     (\<forall>(h, n) \<in> set (available_nodes r). get_hash_id X (ln_node n) = h) \<and>
     sorted_wrt (\<lambda>a b. score_of (available_nodes r) b \<le> score_of (available_nodes r) a) (sorted_nodes r)"

definition keys_listed :: "node_repository \<Rightarrow> bool" where
  "keys_listed r \<longleftrightarrow> set (sorted_nodes r) = fst ` set (available_nodes r)"

definition keyed :: "'s ext \<Rightarrow> (u160, local_node) hash_map \<Rightarrow> bool" where
  "keyed X m \<longleftrightarrow> hm_ok m \<and> (\<forall>h n. map_of m h = Some n \<longrightarrow> get_hash_id X (ln_node n) = h)"

abbreviation best_first :: "(u160, local_node) hash_map \<Rightarrow> u160 list \<Rightarrow> bool" where
  "best_first m ids \<equiv> sorted_wrt (\<lambda>a b. score_of m b \<le> score_of m a) ids"

lemma repo_ok_parts:
  "repo_ok X r \<longleftrightarrow> keyed X (available_nodes r) \<and> keys_listed r \<and>
    best_first (available_nodes r) (sorted_nodes r)"
  by (auto simp: repo_ok_def keyed_def keys_listed_def dest: map_of_SomeD)

lemma keyed_insert: "keyed X m \<Longrightarrow> get_hash_id X (ln_node n) = h \<Longrightarrow> keyed X (hm_insert h n m)"
  by (simp add: keyed_def distinct_update map_simps)

lemma keyed_remove: "keyed X m \<Longrightarrow> keyed X (hm_remove h m)"
  by (simp add: keyed_def distinct_delete map_simps)

lemma hm_insert_keys: "fst ` set (hm_insert k v m) = insert k (fst ` set m)"
  by (metis dom_map_of_conv_image_fst dom_fun_upd update_conv' option.discI insert_absorb fun_upd_same)

lemma hm_get_key: "hm_get m h \<noteq> None \<longleftrightarrow> h \<in> fst ` set m"
  by (metis map_of_eq_None_iff)

lemma keys_listed_get:
  "keys_listed r \<Longrightarrow> h \<in> set (sorted_nodes r) \<Longrightarrow> \<exists>n. hm_get (available_nodes r) h = Some n"
  using hm_get_key [of "available_nodes r" h] by (auto simp: keys_listed_def)

lemma resort_ok:
  assumes "keyed X (available_nodes r)" "keys_listed r"
  shows "\<exists>r'. (resort r :: (node_repository, 'e) result) = Ok r' \<and> repo_ok X r' \<and> available_nodes r' = available_nodes r \<and>
    repo_changes r' = repo_changes r"
proof -
  let ?k = "\<lambda>h. - int (score_of (available_nodes r) h)"
  have "sorted (map ?k (sort_key ?k (sorted_nodes r)))" by (rule sorted_sort_key)
  then have "best_first (available_nodes r) (sort_key ?k (sorted_nodes r))"
    by (simp add: sorted_map)
  moreover have "\<forall>h \<in> set (sorted_nodes r). hm_get (available_nodes r) h \<noteq> None"
    using keys_listed_get [OF assms(2)] by fastforce
  ultimately show ?thesis using assms by (auto simp: resort_def repo_ok_parts keys_listed_def)
qed

lemma repo_ok_changes [simp]: "repo_ok X (r\<lparr>repo_changes := c\<rparr>) = repo_ok X r"
  by (simp add: repo_ok_def)

lemma score_of_insert: "score_of (hm_insert h n m) h' = (if h' = h then unat (score n) else score_of m h')"
  by (simp add: score_of_def map_simps)

lemma rescored:
  assumes "repo_ok X r" "hm_get (available_nodes r) h = Some n" "ln_node n' = ln_node n"
  shows "\<exists>r'. (resort (r\<lparr>available_nodes := hm_insert h n' (available_nodes r)\<rparr>) :: (node_repository, 'e) result) = Ok r' \<and> repo_ok X r'"
proof -
  have "keyed X (available_nodes r)" "get_hash_id X (ln_node n') = h"
    using assms by (auto simp: repo_ok_parts keyed_def)
  moreover have "h \<in> fst ` set (available_nodes r)" using assms(2) hm_get_key by fastforce
  ultimately show ?thesis
    using resort_ok [of X "r\<lparr>available_nodes := hm_insert h n' (available_nodes r)\<rparr>", where 'e = 'e] assms(1)
    by (auto simp: keyed_insert keys_listed_def hm_insert_keys repo_ok_parts insert_absorb)
qed

lemma up_score_ok: "repo_ok X r \<Longrightarrow> \<exists>b r'. (up_score h r :: (bool \<times> node_repository, 'e) result) = Ok (b, r') \<and> repo_ok X r'"
proof (cases "hm_get (available_nodes r) h")
  case (Some n)
  assume "repo_ok X r"
  from rescored [OF this Some, where 'e = 'e, of "n\<lparr>score := score n + 1\<rparr>"] show ?thesis
    by (auto simp: up_score_def Some)
qed (auto simp: up_score_def)

lemma down_score_ok: "repo_ok X r \<Longrightarrow> \<exists>b r'. (down_score h r :: (bool \<times> node_repository, 'e) result) = Ok (b, r') \<and> repo_ok X r'"
proof (cases "hm_get (available_nodes r) h")
  case (Some n)
  assume "repo_ok X r"
  from rescored [OF this Some, where 'e = 'e, of "n\<lparr>score := score n div 2\<rparr>"] \<open>repo_ok X r\<close> show ?thesis
    by (auto simp: down_score_def Some)
qed (auto simp: down_score_def)

lemma repo_apply_ok: "repo_ok X r \<Longrightarrow> repo_ok X (snd (repo_apply X nd r))"
proof -
  assume ok: "repo_ok X r"
  have "score_of (hm_insert h (n\<lparr>ln_node := nd\<rparr>) (available_nodes r)) = score_of (available_nodes r)"
    if "hm_get (available_nodes r) h = Some n" for h n
    using that by (auto simp: fun_eq_iff score_of_insert) (simp add: score_of_def)
  moreover have "insert h (fst ` set (available_nodes r)) = fst ` set (available_nodes r)"
    if "hm_get (available_nodes r) h = Some n" for h n
    using that hm_get_key [of "available_nodes r" h] by auto
  ultimately show ?thesis using ok
    by (auto simp: repo_apply_def Let_def repo_ok_parts keyed_insert keys_listed_def hm_insert_keys
      split: option.split)
qed

lemma repo_new_node_ok: "repo_ok X r \<Longrightarrow> repo_ok X (repo_new_node X nd r)"
proof -
  assume ok: "repo_ok X r"
  let ?h = "get_hash_id X nd" and ?m = "available_nodes r"
  show ?thesis
  proof (cases "hm_get ?m ?h")
    case None
    let ?m' = "hm_insert ?h (local_node_new nd) ?m"
    have new: "?h \<notin> set (sorted_nodes r)"
      using ok None hm_get_key [of ?m ?h] by (auto simp: repo_ok_parts keys_listed_def)
    have "best_first ?m' (sorted_nodes r)"
    proof (rule sorted_wrt_mono_rel)
      show "best_first ?m (sorted_nodes r)" using ok by (simp add: repo_ok_parts)
      fix a b
      assume "a \<in> set (sorted_nodes r)" "b \<in> set (sorted_nodes r)" "score_of ?m b \<le> score_of ?m a"
      moreover from this new have "a \<noteq> ?h" "b \<noteq> ?h" by auto
      ultimately show "score_of ?m' b \<le> score_of ?m' a" by (simp add: score_of_insert)
    qed
    moreover have "score_of ?m' ?h = 0" by (simp add: score_of_insert local_node_new_def)
    ultimately show ?thesis using ok None
      by (auto simp: repo_new_node_def Let_def repo_ok_parts keyed_insert keys_listed_def hm_insert_keys
        local_node_new_def sorted_wrt_append)
  qed (simp add: repo_new_node_def Let_def repo_apply_ok ok)
qed

lemma repo_remove_ok: "repo_ok X r \<Longrightarrow> repo_ok X (repo_remove h r)"
proof -
  assume ok: "repo_ok X r"
  have s: "sorted_wrt P (filter (\<lambda>n. n \<noteq> h) xs)" if "sorted_wrt Q xs" "\<And>x y. x \<noteq> h \<Longrightarrow> y \<noteq> h \<Longrightarrow> Q x y \<Longrightarrow> P x y"
    for P Q :: "u160 \<Rightarrow> u160 \<Rightarrow> bool" and xs
    using that by (induction xs) auto
  have "fst ` set (hm_remove h (available_nodes r)) = fst ` set (available_nodes r) - {h}"
    by (simp add: dom_map_of_conv_image_fst [symmetric] map_simps)
  moreover have "best_first (hm_remove h (available_nodes r)) (filter (\<lambda>n. n \<noteq> h) (sorted_nodes r))"
    by (rule s [of "\<lambda>a b. score_of (available_nodes r) b \<le> score_of (available_nodes r) a"])
      (use ok in \<open>auto simp: repo_ok_parts score_of_def map_simps\<close>)
  ultimately show ?thesis using ok
    by (auto simp: repo_remove_def repo_ok_parts keyed_remove keys_listed_def)
qed

lemma repo_pushes:
  "keyed X (available_nodes r) \<Longrightarrow> keys_listed r \<Longrightarrow>
    keyed X (available_nodes (fold (repo_push X) ns r)) \<and> keys_listed (fold (repo_push X) ns r)"
  by (induction ns arbitrary: r) (auto simp: repo_push_def Let_def keyed_insert keys_listed_def hm_insert_keys)

lemma repo_build_ok: "\<exists>r'. (repo_build X ns r :: (node_repository, 'e) result) = Ok r' \<and> repo_ok X r'"
proof -
  let ?e = "r\<lparr>available_nodes := [], sorted_nodes := []\<rparr>"
  have e: "keyed X (available_nodes ?e)" "keys_listed ?e" by (simp_all add: keyed_def keys_listed_def)
  from repo_pushes [OF this] resort_ok [of X "fold (repo_push X) ns ?e", where 'e = 'e] obtain r' where
    "(resort (fold (repo_push X) ns ?e) :: (node_repository, 'e) result) = Ok r'" "repo_ok X r'" by blast
  moreover have "repo_ok X ?e" using e by (simp add: repo_ok_parts)
  ultimately show ?thesis by (simp add: repo_build_def Let_def)
qed

section \<open>What the shard relies on\<close>

text \<open>
  The repository as the shards use it: they pick nodes by a running index, look nodes up by
  their identifier, add the peers they have met and forget the broken ones.
\<close>

locale peer_book =
  fixes ok :: "'r \<Rightarrow> bool"
    and id_of :: "node \<Rightarrow> u160"
    and size_of :: "'r \<Rightarrow> nat"
    and pick :: "'r \<Rightarrow> usize \<Rightarrow> (node, 'e) result"
    and find :: "'r \<Rightarrow> u160 \<Rightarrow> node option"
    and add :: "node \<Rightarrow> 'r \<Rightarrow> 'r"
    and forget :: "u160 \<Rightarrow> 'r \<Rightarrow> 'r"
  assumes pick_known: "ok r \<Longrightarrow> 0 < size_of r \<Longrightarrow> \<exists>n. pick r i = Ok n \<and> find r (id_of n) = Some n"
    and add_ok: "ok r \<Longrightarrow> ok (add n r)"
    and forget_ok: "ok r \<Longrightarrow> ok (forget h r)"
    and find_add: "ok r \<Longrightarrow> find (add n r) h = (if h = id_of n then Some n else find r h)"
    and find_forget: "ok r \<Longrightarrow> find (forget h r) h' = (if h' = h then None else find r h')"
begin

lemma pick_total: "ok r \<Longrightarrow> 0 < size_of r \<Longrightarrow> \<exists>n. pick r i = Ok n"
  using pick_known by blast

lemma forget_then_pick:
  assumes "ok r" "0 < size_of (forget h r)" "pick (forget h r) i = Ok n"
  shows "id_of n \<noteq> h"
  using pick_known [OF forget_ok [OF assms(1)] assms(2), of i] find_forget [OF assms(1), of h "id_of n"] assms(3)
  by auto

lemma meet_peers_ok: "ok r \<Longrightarrow> ok (fold add ns r)"
  by (induction ns arbitrary: r) (auto intro: add_ok)

end

lemma repo_get_nodes_known:
  assumes "repo_ok X r" "0 < repo_len r"
  shows "\<exists>n. (repo_get_nodes r i :: (node, 'e) result) = Ok n \<and> repo_get r (get_hash_id X n) = Some n"
proof -
  let ?h = "sorted_nodes r ! (unat i mod length (sorted_nodes r))"
  have ne: "sorted_nodes r \<noteq> []" and h: "?h \<in> set (sorted_nodes r)" using assms(2) by (auto simp: repo_len_def)
  obtain n where n: "hm_get (available_nodes r) ?h = Some n"
    using keys_listed_get [OF _ h] assms(1) by (auto simp: repo_ok_parts)
  then have "get_hash_id X (ln_node n) = ?h" using assms(1) by (simp add: repo_ok_parts keyed_def)
  with n ne show ?thesis by (simp add: repo_get_nodes_def Let_def repo_get_def)
qed

lemma repo_get_new_node:
  assumes "repo_ok X r"
  shows "repo_get (repo_new_node X n r) h = (if h = get_hash_id X n then Some n else repo_get r h)"
  using assms
  by (auto simp: repo_new_node_def repo_apply_def repo_get_def Let_def map_simps local_node_new_def
    split: option.split)

interpretation repo: peer_book "repo_ok X" "get_hash_id X" repo_len repo_get_nodes repo_get "repo_new_node X" repo_remove
  for X
proof
  fix r :: node_repository and h h' :: u160
  show "repo_get (repo_remove h r) h' = (if h' = h then None else repo_get r h')"
    by (auto simp: repo_remove_def repo_get_def map_simps)
qed (fact repo_get_nodes_known repo_new_node_ok repo_remove_ok repo_get_new_node)+

section \<open>Properties\<close>

text \<open>The operations of the repository, in any order.\<close>

datatype repo_op =
  RepoApply node | RepoNewNode node | RepoRemove u160 | RepoUp u160 | RepoDown u160 | RepoTrim | RepoBuild "local_node list"

fun run_repo_op :: "'s ext \<Rightarrow> repo_op \<Rightarrow> node_repository \<Rightarrow> (node_repository, 'e) result" where
  "run_repo_op X (RepoApply n) r = Ok (snd (repo_apply X n r))"
| "run_repo_op X (RepoNewNode n) r = Ok (repo_new_node X n r)"
| "run_repo_op X (RepoRemove h) r = Ok (repo_remove h r)"
| "run_repo_op X (RepoUp h) r = and_then (up_score h r) (\<lambda>(_, r). Ok r)"
| "run_repo_op X (RepoDown h) r = and_then (down_score h r) (\<lambda>(_, r). Ok r)"
| "run_repo_op X RepoTrim r = repo_trim X r"
| "run_repo_op X (RepoBuild ns) r = repo_build X ns r"

lemma run_repo_op_ok: "repo_ok X r \<Longrightarrow> \<exists>r'. (run_repo_op X op r :: (node_repository, 'e) result) = Ok r' \<and> repo_ok X r'"
proof (cases op)
  case (RepoUp h)
  assume "repo_ok X r"
  from up_score_ok [OF this, of h, where 'e = 'e] show ?thesis by (auto simp: RepoUp)
next
  case (RepoDown h)
  assume "repo_ok X r"
  from down_score_ok [OF this, of h, where 'e = 'e] show ?thesis by (auto simp: RepoDown)
qed (simp_all add: repo_apply_ok repo_new_node_ok repo_remove_ok repo_build_ok repo_trim_def)

lemma repo_best_node:
  assumes "repo_ok X r" "0 < repo_len r"
  shows "\<exists>n. (repo_get_nodes r 0 :: (node, 'e) result) = Ok (ln_node n) \<and> n \<in> snd ` set (available_nodes r) \<and>
    (\<forall>m \<in> snd ` set (available_nodes r). score m \<le> score n)"
proof -
  obtain h hs where hs: "sorted_nodes r = h # hs" using assms(2) by (cases "sorted_nodes r") (auto simp: repo_len_def)
  then obtain n where n: "hm_get (available_nodes r) h = Some n"
    using keys_listed_get [of r h] assms(1) by (auto simp: repo_ok_parts)
  have "score m \<le> score n" if "(k, m) \<in> set (available_nodes r)" for k m
  proof -
    have k: "hm_get (available_nodes r) k = Some m" using that assms(1) by (simp add: repo_ok_def)
    have "k \<in> set (sorted_nodes r)" using that assms(1) by (force simp: repo_ok_def)
    then have "score_of (available_nodes r) k \<le> score_of (available_nodes r) h"
      using assms(1) by (auto simp: repo_ok_def hs)
    then show ?thesis by (simp add: score_of_def k n word_le_nat_alt)
  qed
  moreover have "n \<in> snd ` set (available_nodes r)" using map_of_SomeD [OF n] by force
  ultimately show ?thesis using n by (auto simp: repo_get_nodes_def hs)
qed

text \<open>
  C24: Whatever sequence of operations a new repository goes through, no operation panics, the
  repository lists exactly the nodes it holds, in descending order of their scores, and the node
  at index 0 is one with the highest score.
\<close>

theorem repository_offers_best_node_first:
  "\<exists>r0 r. repo_new X = (Ok r0 :: (node_repository, 'e) result) \<and> for_each (run_repo_op X) ops r0 = (Ok r :: (node_repository, 'e) result) \<and>
    repo_ok X r \<and>
    (0 < repo_len r \<longrightarrow> (\<exists>n. (repo_get_nodes r 0 :: (node, 'e) result) = Ok (ln_node n) \<and>
      n \<in> snd ` set (available_nodes r) \<and> (\<forall>m \<in> snd ` set (available_nodes r). score m \<le> score n)))"
proof -
  obtain r0 where r0: "(repo_new X :: (node_repository, 'e) result) = Ok r0" "repo_ok X r0"
    unfolding repo_new_def using repo_build_ok by blast
  have "\<exists>r. for_each (run_repo_op X) ops r0 = (Ok r :: (node_repository, 'e) result) \<and> repo_ok X r"
    by (rule for_each_total) (use r0 run_repo_op_ok in blast)+
  then obtain r where r: "for_each (run_repo_op X) ops r0 = (Ok r :: (node_repository, 'e) result)" "repo_ok X r"
    by blast
  show ?thesis
    by (rule exI [of _ r0], rule exI [of _ r]) (intro conjI impI r0(1) r repo_best_node [OF r(2)])
qed

text \<open>
  The text of an endpoint whose host has no colon reads back as the endpoint with the
  protocol UDP, and with the prefix \<open>tcp:\<close> as the endpoint with the protocol TCP.
\<close>

theorem endpoint_text_round_trip:
  assumes "CHR '':'' \<notin> set (host ep)"
  shows "endpoint_from_str (endpoint_fmt ep) = Ok (ep\<lparr>protocol := Udp\<rparr>) \<and>
    endpoint_from_str (''tcp:'' @ endpoint_fmt ep) = Ok (ep\<lparr>protocol := Tcp\<rparr>)"
  using endpoint_text [OF assms] by blast

theorem endpoint_text_round_trip_witness:
  "endpoint_from_str (endpoint_fmt \<lparr>protocol = Tcp, host = ''seed-1.blockscape'', port = 35653\<rparr>) =
     Ok \<lparr>protocol = Udp, host = ''seed-1.blockscape'', port = 35653\<rparr>"
  using endpoint_text_round_trip [of "\<lparr>protocol = Tcp, host = ''seed-1.blockscape'', port = 35653\<rparr>"] by simp

lemma one_node_everywhere:
  assumes "available_nodes r = [(h, n)]" "set (sorted_nodes r) = {h}"
  shows "repo_get_nodes r i = Ok (ln_node n)"
proof -
  have "sorted_nodes r \<noteq> []" using assms(2) by auto
  moreover from this have "sorted_nodes r ! (unat i mod length (sorted_nodes r)) = h"
    using assms(2) nth_mem [of "unat i mod length (sorted_nodes r)" "sorted_nodes r"] by auto
  ultimately show ?thesis by (simp add: repo_get_nodes_def assms(1))
qed

lemma seeds_pushed:
  assumes "eps \<noteq> []"
  shows "available_nodes (fold (repo_push X) (map (\<lambda>ep. local_node_new (node_new ep)) eps) r) =
      hm_insert (hash_pub_key X []) (local_node_new (node_new (last eps))) (available_nodes r) \<and>
    sorted_nodes (fold (repo_push X) (map (\<lambda>ep. local_node_new (node_new ep)) eps) r) =
      sorted_nodes r @ replicate (length eps) (hash_pub_key X [])"
  using assms
proof (induction eps arbitrary: r)
  case (Cons ep eps)
  have "hm_insert k v (hm_insert k w m) = hm_insert k v m" for k v w and m :: "(u160, local_node) hash_map"
    by (induction m) auto
  with Cons show ?case
    by (cases "eps = []") (simp_all add: repo_push_def Let_def get_hash_id_def local_node_new_def node_new_def)
qed simp

text \<open>
  A repository built from seed endpoints, which have no key yet, lists as many nodes as
  there are seeds but offers the last seed at every index: the others are never contacted.
\<close>

theorem seed_nodes_collapse:
  assumes "eps \<noteq> []"
  shows "\<exists>r'. repo_build X (map (\<lambda>ep. local_node_new (node_new ep)) eps) r = (Ok r' :: (node_repository, 'e) result) \<and>
    repo_len r' = length eps \<and> (repo_get_nodes r' i :: (node, 'e) result) = Ok (node_new (last eps))"
proof -
  let ?p = "fold (repo_push X) (map (\<lambda>ep. local_node_new (node_new ep)) eps) (r\<lparr>available_nodes := [], sorted_nodes := []\<rparr>)"
  have p: "available_nodes ?p = [(hash_pub_key X [], local_node_new (node_new (last eps)))]"
    "sorted_nodes ?p = replicate (length eps) (hash_pub_key X [])"
    using seeds_pushed [OF assms, of X "r\<lparr>available_nodes := [], sorted_nodes := []\<rparr>"] by simp_all
  obtain q where q: "resort ?p = (Ok q :: (node_repository, 'e) result)" "available_nodes q = available_nodes ?p"
    "length (sorted_nodes q) = length (sorted_nodes ?p)" "set (sorted_nodes q) = set (sorted_nodes ?p)"
    by (simp add: resort_def p)
  have "(repo_get_nodes (q\<lparr>repo_changes := repo_changes q + 1\<rparr>) i :: (node, 'e) result) =
      Ok (node_new (last eps))"
    using assms one_node_everywhere [of "q\<lparr>repo_changes := repo_changes q + 1\<rparr>" "hash_pub_key X []"
        "local_node_new (node_new (last eps))"]
    by (simp add: q(2,4) p) (simp add: local_node_new_def)
  with q(1) assms show ?thesis by (simp add: repo_build_def repo_len_def Let_def q(3) p(2))
qed

end
