(* ===== verification/Db_Diff.thy ===== *)
theory Db_Diff
  imports External "HOL-Library.List_Lexorder"
begin

text \<open>
  The \<open>DBDiff\<close> of \<open>core/src/record_keeper/db_state.rs\<close>: the pending changes of a database
  state, as values to set, keys to delete, and events to add to or remove from plots, with
  optional filters on keys and plots. The lemmas say what each operation does to a later read of
  the diff, and which invariant relates the four collections.
\<close>

record db_diff =
  filters :: "bin list option"
  bounds :: "bounding_box option"
  new_values :: "(key, bin) hash_map"
  del_values :: "key list"
  new_events :: "(plot_id, raw_events) hash_map"
  del_events :: "(plot_id, raw_events) hash_map"

definition db_diff_new :: "bin list option \<Rightarrow> bounding_box option \<Rightarrow> db_diff" where
  "db_diff_new fs bs =
     \<lparr>filters = map_option sort fs, bounds = bs, new_values = [], del_values = [],
      new_events = [], del_events = []\<rparr>"

definition db_diff_default :: db_diff where
  "db_diff_default = db_diff_new None None"

definition diff_is_empty :: "db_diff \<Rightarrow> bool" where
  "diff_is_empty self \<longleftrightarrow> new_values self = [] \<and> new_events self = []"

text \<open>The filters are sorted, so that a binary search is a membership test.\<close>

definition relevant_key :: "db_diff \<Rightarrow> key \<Rightarrow> bool" where
  "relevant_key self k =
     (case filters self of Some f \<Rightarrow> as_bin k \<in> set f | None \<Rightarrow> True)"

definition relevant_plot :: "db_diff \<Rightarrow> plot_id \<Rightarrow> bool" where
  "relevant_plot self plot =
     (case bounds self of None \<Rightarrow> True | Some b \<Rightarrow> bb_contains b plot)"

text \<open>The two helpers \<open>remove\<close> and \<open>add\<close> on a map of plots.\<close>

definition plots_remove ::
    "(plot_id, raw_events) hash_map \<Rightarrow> plot_id \<Rightarrow> u64 \<Rightarrow> raw_event \<Rightarrow>
     (plot_id, raw_events) hash_map \<times> bool" where
  "plots_remove plots i tick event =
     (case hm_get plots i of
        Some plot \<Rightarrow> (let (plot', removed) = remove_event plot tick event
                      in (hm_insert i plot' plots, removed))
      | None \<Rightarrow> (plots, False))"

definition plots_add ::
    "(plot_id, raw_events) hash_map \<Rightarrow> plot_id \<Rightarrow> u64 \<Rightarrow> raw_event \<Rightarrow>
     (plot_id, raw_events) hash_map" where
  "plots_add plots i tick event =
     (case hm_get plots i of
        Some plot \<Rightarrow> hm_insert i (fst (add_event plot tick event)) plots
      | None \<Rightarrow> hm_insert i (fst (add_event [] tick event)) plots)"

definition diff_add_event :: "db_diff \<Rightarrow> plot_id \<Rightarrow> u64 \<Rightarrow> raw_event \<Rightarrow> db_diff" where
  "diff_add_event self i tick event =
     (if \<not> relevant_plot self i then self
      else let (del', removed) = plots_remove (del_events self) i tick event;
               self' = self\<lparr>del_events := del'\<rparr>
           in if \<not> removed
              then self'\<lparr>new_events := plots_add (new_events self') i tick event\<rparr> else self')"

definition diff_remove_event :: "db_diff \<Rightarrow> plot_id \<Rightarrow> u64 \<Rightarrow> raw_event \<Rightarrow> db_diff" where
  "diff_remove_event self i tick event =
     (if \<not> relevant_plot self i then self
      else let (new', removed) = plots_remove (new_events self) i tick event;
               self' = self\<lparr>new_events := new'\<rparr>
           in if \<not> removed
              then self'\<lparr>del_events := plots_add (del_events self') i tick event\<rparr> else self')"

definition set_value :: "db_diff \<Rightarrow> key \<Rightarrow> bin \<Rightarrow> db_diff" where
  "set_value self k v =
     (if \<not> relevant_key self k then self
      else if k \<in> set (del_values self)
           then self\<lparr>del_values := removeAll k (del_values self)\<rparr>
           else self\<lparr>new_values := hm_insert k v (new_values self)\<rparr>)"

definition delete_value :: "db_diff \<Rightarrow> key \<Rightarrow> db_diff" where
  "delete_value self k =
     (if \<not> relevant_key self k then self
      else case hm_get (new_values self) k of
             Some _ \<Rightarrow> self\<lparr>new_values := hm_remove k (new_values self)\<rparr>
           | None \<Rightarrow> self\<lparr>del_values := snd (hs_insert k (del_values self))\<rparr>)"

definition get_new_events :: "db_diff \<Rightarrow> plot_id \<Rightarrow> raw_events option" where
  "get_new_events self plot = hm_get (new_events self) plot"

definition get_removed_events :: "db_diff \<Rightarrow> plot_id \<Rightarrow> raw_events option" where
  "get_removed_events self plot = hm_get (del_events self) plot"

definition get_value :: "db_diff \<Rightarrow> key \<Rightarrow> bin option" where
  "get_value self k = hm_get (new_values self) k"

definition is_value_deleted :: "db_diff \<Rightarrow> key \<Rightarrow> bool" where
  "is_value_deleted self k \<longleftrightarrow> k \<in> set (del_values self)"

definition is_event_removed :: "db_diff \<Rightarrow> plot_id \<Rightarrow> u64 \<Rightarrow> raw_event \<Rightarrow> bool" where
  "is_event_removed self plot tick event =
     (case hm_get (del_events self) plot of
        Some p \<Rightarrow> (case bt_get p tick of Some events \<Rightarrow> event \<in> set events | None \<Rightarrow> False)
      | None \<Rightarrow> False)"

subsection \<open>Values\<close>

text \<open>
  The diff as an overlay: what it makes of a key, given what the layer below has for it. A new
  value wins over a deletion mark.
\<close>

definition overlay :: "db_diff \<Rightarrow> key \<Rightarrow> bin option \<Rightarrow> bin option" where
  "overlay d k below =
     (case get_value d k of Some v \<Rightarrow> Some v
      | None \<Rightarrow> if is_value_deleted d k then None else below)"

text \<open>No key is both set and deleted, and no key is set twice.\<close>

definition values_ok :: "db_diff \<Rightarrow> bool" where
  "values_ok d \<longleftrightarrow> hm_ok (new_values d) \<and> (\<forall>k. is_value_deleted d k \<longrightarrow> get_value d k = None)"

lemma values_okD: "values_ok d \<Longrightarrow> get_value d k = Some v \<Longrightarrow> \<not> is_value_deleted d k"
  by (auto simp: values_ok_def)

lemma values_ok_default [simp]: "values_ok (db_diff_new fs bs)"
  by (simp add: values_ok_def db_diff_new_def is_value_deleted_def)

lemmas value_ops = set_value_def delete_value_def get_value_def is_value_deleted_def

lemma hm_ok_value_ops:
  "hm_ok (new_values d) \<Longrightarrow> hm_ok (new_values (set_value d k v))"
  "hm_ok (new_values d) \<Longrightarrow> hm_ok (new_values (delete_value d k))"
  by (auto simp: value_ops distinct_update distinct_delete split: option.split
    simp del: map_of_eq_Some_iff)

lemma values_ok_set [simp]: "values_ok d \<Longrightarrow> values_ok (set_value d k v)"
  unfolding values_ok_def
  by (rule conjI, simp add: hm_ok_value_ops)
    (auto simp: value_ops map_simps simp del: map_of_eq_Some_iff)

lemma values_ok_delete [simp]: "values_ok d \<Longrightarrow> values_ok (delete_value d k)"
  unfolding values_ok_def
  by (rule conjI, simp add: hm_ok_value_ops)
    (auto simp: value_ops map_simps simp del: map_of_eq_Some_iff split: option.splits)

lemma get_set_value:
  "relevant_key d k \<Longrightarrow> \<not> is_value_deleted d k \<Longrightarrow>
    overlay (set_value d k v) k' below = (if k' = k then Some v else overlay d k' below)"
  by (auto simp: overlay_def set_value_def get_value_def is_value_deleted_def map_simps
    split: option.splits)

lemma get_delete_value:
  "relevant_key d k \<Longrightarrow> get_value d k = None \<Longrightarrow>
    overlay (delete_value d k) k' below = (if k' = k then None else overlay d k' below)"
  by (auto simp: overlay_def delete_value_def get_value_def is_value_deleted_def map_simps
    split: option.splits)

text \<open>
  in a diff, a value set after its key was deleted is lost, and deleting a key whose value
  was set in the diff brings back the value of the layer below, instead of the new value and no
  value.
\<close>

theorem diff_set_and_delete_cancel:
  assumes "values_ok d" and "relevant_key d k"
  shows "(is_value_deleted d k \<longrightarrow> overlay (set_value d k v) k below = below) \<and>
         (get_value d k \<noteq> None \<longrightarrow> overlay (delete_value d k) k below = below)"
proof -
  have "get_value d k = None" if "is_value_deleted d k"
    using that values_okD [OF assms(1)] by (metis option.exhaust)
  moreover have "\<not> is_value_deleted d k" if "get_value d k \<noteq> None"
    using that values_okD [OF assms(1)] by blast
  ultimately show ?thesis using assms(2)
    by (auto simp: overlay_def set_value_def delete_value_def get_value_def is_value_deleted_def
      map_simps split: option.splits)
qed

theorem diff_set_and_delete_cancel_witness:
  "overlay (set_value (delete_value db_diff_default (Network AdminKeyID)) (Network AdminKeyID) [2])
     (Network AdminKeyID) (Some [1]) = Some [1]"
proof -
  have "is_value_deleted (delete_value db_diff_default (Network AdminKeyID)) (Network AdminKeyID)"
    "relevant_key (delete_value db_diff_default (Network AdminKeyID)) (Network AdminKeyID)"
    by code_simp+
  then show ?thesis
    using diff_set_and_delete_cancel [of "delete_value db_diff_default (Network AdminKeyID)"
        "Network AdminKeyID" "[2]" "Some [1]"]
    by (simp add: db_diff_default_def)
qed

subsection \<open>Events\<close>

definition plots_set :: "(plot_id, raw_events) hash_map \<Rightarrow> (plot_id \<times> u64 \<times> raw_event) set" where
  "plots_set m = {(p, t, e). \<exists>evs. map_of m p = Some evs \<and> (t, e) \<in> event_set evs}"

definition plots_ok :: "(plot_id, raw_events) hash_map \<Rightarrow> bool" where
  "plots_ok m \<longleftrightarrow> (\<forall>p evs. map_of m p = Some evs \<longrightarrow> events_ok evs)"

lemma plots_ok_empty [simp]: "plots_ok []" "plots_set [] = {}"
  by (simp_all add: plots_ok_def plots_set_def)

lemma plots_add_ok [simp]: "plots_ok m \<Longrightarrow> plots_ok (plots_add m p t e)"
  by (auto simp: plots_ok_def plots_add_def map_simps split: option.splits if_splits)

lemma plots_add_set [simp]:
  "plots_ok m \<Longrightarrow> plots_set (plots_add m p t e) = insert (p, t, e) (plots_set m)"
  by (auto simp: plots_ok_def plots_set_def plots_add_def map_simps split: option.splits if_splits)

lemma plots_remove_ok [simp]: "plots_ok m \<Longrightarrow> plots_ok (fst (plots_remove m p t e))"
  by (auto simp: plots_ok_def plots_remove_def map_simps split_beta
    split: option.splits if_splits)

lemma plots_remove_set [simp]:
  "plots_ok m \<Longrightarrow> plots_set (fst (plots_remove m p t e)) = plots_set m - {(p, t, e)}"
  by (auto simp: plots_ok_def plots_set_def plots_remove_def map_simps split_beta
    split: option.splits if_splits)

lemma plots_remove_removed: "snd (plots_remove m p t e) \<longleftrightarrow> (p, t, e) \<in> plots_set m"
  by (auto simp: plots_set_def plots_remove_def remove_event_removed split_beta split: option.splits)

text \<open>The event part of a diff: no event is both to be added and to be removed.\<close>

definition diff_events_ok :: "db_diff \<Rightarrow> bool" where
  "diff_events_ok d \<longleftrightarrow> plots_ok (new_events d) \<and> plots_ok (del_events d) \<and>
     plots_set (new_events d) \<inter> plots_set (del_events d) = {}"

lemma diff_events_ok_new [simp]: "diff_events_ok (db_diff_new fs bs)"
  by (simp add: diff_events_ok_def db_diff_new_def)

lemma diff_add_event_ok [simp]: "diff_events_ok d \<Longrightarrow> diff_events_ok (diff_add_event d p t e)"
  by (auto simp: diff_events_ok_def diff_add_event_def Let_def split_beta plots_remove_removed)

lemma diff_remove_event_ok [simp]: "diff_events_ok d \<Longrightarrow> diff_events_ok (diff_remove_event d p t e)"
  by (auto simp: diff_events_ok_def diff_remove_event_def Let_def split_beta plots_remove_removed)

end
