(* ===== verification/Database.thy ===== *)
theory Database
  imports Db_Diff
begin

text \<open>
  The \<open>Database\<close> trait of \<open>core/src/record_keeper/database.rs\<close> and its two implementors: the
  \<open>DatabaseImpl\<close> over a RocksDB store, and the \<open>DBState\<close> of \<open>db_state.rs\<close>, which layers a
  \<open>DBDiff\<close> over another database. A default method of the trait is a function on the type of
  databases; a method that the implementors define themselves is a case distinction on it. A
  method with \<open>&mut self\<close> is an action that returns the state it leaves, errors included.
\<close>

record head_ref =
  href_block :: u256
  href_height :: u64

definition head_ref_default :: head_ref where
  "head_ref_default = \<lparr>href_block = U256_ZERO, href_height = 0\<rparr>"

definition ser_head_ref :: "head_ref \<Rightarrow> bin" where
  "ser_head_ref r = u256_to_vec (href_block r) @ write_le 8 (href_height r)"

definition de_head_ref :: "bin \<Rightarrow> (head_ref, string) result" where
  "de_head_ref bs =
     (if 40 \<le> length bs
      then and_then (u256_from_little_endian bs)
        (\<lambda>b. and_then (de_u64 (drop 32 bs)) (\<lambda>h. Ok \<lparr>href_block = b, href_height = h\<rparr>))
      else Err ''EndOfFileError'')"

lemma de_ser_head_ref [simp]: "de_head_ref (ser_head_ref r) = Ok r"
  by (simp add: de_head_ref_def ser_head_ref_def u256_read_vec)

datatype 's dbase =
    DatabaseImpl 's head_ref
  | DBState "'s dbase" db_diff head_ref

type_synonym ('s, 'a) db_action = "('s dbase, 'a, error) action"

fun db_head :: "'s dbase \<Rightarrow> head_ref" where
  "db_head (DatabaseImpl s h) = h"
| "db_head (DBState db d h) = h"

subsection \<open>Raw access\<close>

definition get_raw_data_static :: "'s ext \<Rightarrow> 's \<Rightarrow> key \<Rightarrow> (bin, error) result" where
  "get_raw_data_static X s k =
     and_then (lift_db (rdb_get X s (as_bin k)))
       (\<lambda>v. case v of Some d \<Rightarrow> Ok d | None \<Rightarrow> Err (NotFound k))"

fun is_plot_key :: "key \<Rightarrow> bool" where
  "is_plot_key (Network (PlotE i tick)) = True"
| "is_plot_key _ = False"

fun db_is_empty :: "'s ext \<Rightarrow> 's dbase \<Rightarrow> bool" where
  "db_is_empty X (DatabaseImpl s h) = rdb_is_empty X s"
| "db_is_empty X (DBState db d h) = (db_is_empty X db \<and> diff_is_empty d)"

fun db_get :: "'s ext \<Rightarrow> 's dbase \<Rightarrow> key \<Rightarrow> (bin, error) result" where
  "db_get X (DatabaseImpl s h) k = get_raw_data_static X s k"
| "db_get X (DBState db d h) k =
     (if is_plot_key k then Panic
      else case get_value d k of
        Some v \<Rightarrow> Ok v
      | None \<Rightarrow> if is_value_deleted d k then Err (NotFound k) else db_get X db k)"

fun db_put :: "'s ext \<Rightarrow> key \<Rightarrow> bin \<Rightarrow> ('s, unit) db_action" where
  "db_put X k data (DatabaseImpl s h) =
     (case lift_db (rdb_put X s (as_bin k) data) of
        Ok s' \<Rightarrow> (Ok (), DatabaseImpl s' h)
      | Err e \<Rightarrow> (Err e, DatabaseImpl s h)
      | Panic \<Rightarrow> (Panic, DatabaseImpl s h)
      | Diverge \<Rightarrow> (Diverge, DatabaseImpl s h))"
| "db_put X k data (DBState db d h) =
     (if is_plot_key k then (Panic, DBState db d h)
      else (Ok (), DBState db (set_value d k data) h))"

fun db_delete :: "'s ext \<Rightarrow> key \<Rightarrow> ('s, unit) db_action" where
  "db_delete X k (DatabaseImpl s h) =
     (case lift_db (rdb_delete X s (as_bin k)) of
        Ok s' \<Rightarrow> (Ok (), DatabaseImpl s' h)
      | Err e \<Rightarrow> (Err e, DatabaseImpl s h)
      | Panic \<Rightarrow> (Panic, DatabaseImpl s h)
      | Diverge \<Rightarrow> (Diverge, DatabaseImpl s h))"
| "db_delete X k (DBState db d h) = (Ok (), DBState db (delete_value d k) h)"

definition get_current_block_hash :: "'s dbase \<Rightarrow> u256" where
  "get_current_block_hash db = href_block (db_head db)"

definition get_current_block_height :: "'s dbase \<Rightarrow> u64" where
  "get_current_block_height db = href_height (db_head db)"

fun db_apply :: "'s ext \<Rightarrow> batch_op list \<Rightarrow> ('s, unit) db_action" where
  "db_apply X wb (DatabaseImpl s h) =
     (case lift_db (rdb_write X s wb) of
        Ok s' \<Rightarrow>
          (case get_raw_data_static X s' (Cache CurrentHead) of
             Ok v \<Rightarrow> (case de_head_ref v of
                 Ok head \<Rightarrow> (Ok (), DatabaseImpl s' head)
               | _ \<Rightarrow> (Panic, DatabaseImpl s' h))
           | _ \<Rightarrow> (Panic, DatabaseImpl s' h))
      | Err e \<Rightarrow> (Err e, DatabaseImpl s h)
      | Panic \<Rightarrow> (Panic, DatabaseImpl s h)
      | Diverge \<Rightarrow> (Diverge, DatabaseImpl s h))"
| "db_apply X wb (DBState db d h) = (Panic, DBState db d h)"

definition database_impl_new :: "'s ext \<Rightarrow> 's \<Rightarrow> 's dbase" where
  "database_impl_new X s =
     DatabaseImpl s
       (case get_raw_data_static X s (Cache CurrentHead) of
          Ok value \<Rightarrow> (case de_head_ref value of Ok r \<Rightarrow> r | _ \<Rightarrow> head_ref_default)
        | _ \<Rightarrow> head_ref_default)"

definition db_state_new :: "'s dbase \<Rightarrow> 's dbase" where
  "db_state_new db =
     DBState db db_diff_default
       \<lparr>href_block = get_current_block_hash db, href_height = get_current_block_height db\<rparr>"

subsection \<open>Decoded reads\<close>

definition get_block_header :: "'s ext \<Rightarrow> 's dbase \<Rightarrow> u256 \<Rightarrow> (block_header, error) result" where
  "get_block_header X db hash =
     and_then (db_get X db (Blockchain (BlockHeaderE hash))) (\<lambda>b. lift_de (de (header_codec X) b))"

definition get_current_block_header :: "'s ext \<Rightarrow> 's dbase \<Rightarrow> (block_header, error) result" where
  "get_current_block_header X db = get_block_header X db (get_current_block_hash db)"

definition complete_block :: "'s ext \<Rightarrow> 's dbase \<Rightarrow> block_header \<Rightarrow> (block, error) result" where
  "complete_block X db hdr =
     and_then (db_get X db (Blockchain (TxnListE (merkle_root hdr))))
       (\<lambda>b. and_then (lift_de (de (hash_list_codec X) b))
         (\<lambda>ts. Ok \<lparr>header = hdr, txns = ts\<rparr>))"

definition get_block :: "'s ext \<Rightarrow> 's dbase \<Rightarrow> u256 \<Rightarrow> (block, error) result" where
  "get_block X db hash = and_then (get_block_header X db hash) (complete_block X db)"

definition get_txn :: "'s ext \<Rightarrow> 's dbase \<Rightarrow> u256 \<Rightarrow> (txn, error) result" where
  "get_txn X db hash =
     and_then (db_get X db (Blockchain (TxnE hash))) (\<lambda>b. lift_de (de (txn_codec X) b))"

definition get_txn_blocks :: "'s ext \<Rightarrow> 's dbase \<Rightarrow> u256 \<Rightarrow> (u256 set, error) result" where
  "get_txn_blocks X db hash =
     and_then (db_get X db (Cache (BlocksByTxn hash))) (\<lambda>b. lift_de (de (hash_set_codec X) b))"

definition get_account_txns :: "'s ext \<Rightarrow> 's dbase \<Rightarrow> u160 \<Rightarrow> (u256 set, error) result" where
  "get_account_txns X db hash =
     (case db_get X db (Cache (TxnsByAccount hash)) of
        Err (NotFound k) \<Rightarrow> Ok {}
      | res \<Rightarrow> and_then res (\<lambda>b. lift_de (de (hash_set_codec X) b)))"

definition get_txn_receive_time :: "'s ext \<Rightarrow> 's dbase \<Rightarrow> u256 \<Rightarrow> (time, error) result" where
  "get_txn_receive_time X db h =
     and_then (db_get X db (Cache (TxnReceiveTime h))) (\<lambda>b. lift_de (de_u64 b))"

definition get_validator_key :: "'s ext \<Rightarrow> 's dbase \<Rightarrow> u160 \<Rightarrow> (bin, error) result" where
  "get_validator_key X db i = db_get X db (Network (ValidatorKey i))"

definition get_validator_stake :: "'s ext \<Rightarrow> 's dbase \<Rightarrow> u160 \<Rightarrow> (u64, error) result" where
  "get_validator_stake X db i =
     and_then (db_get X db (Network (ValidatorStake i))) (\<lambda>b. lift_de (de_u64 b))"

definition get_blocks_of_height :: "'s ext \<Rightarrow> 's dbase \<Rightarrow> u64 \<Rightarrow> (u256 list, error) result" where
  "get_blocks_of_height X db height =
     (case db_get X db (Cache (BlocksByHeight height)) of
        Err (NotFound k) \<Rightarrow> Ok []
      | res \<Rightarrow> and_then res (\<lambda>b. lift_de (de (hash_list_codec X) b)))"

definition get_current_block_of_height :: "'s ext \<Rightarrow> 's dbase \<Rightarrow> u64 \<Rightarrow> (u256, error) result" where
  "get_current_block_of_height X db height =
     and_then (db_get X db (Cache (BlocksByHeight height)))
       (\<lambda>b. and_then (lift_de (de (hash_list_codec X) b))
         (\<lambda>l. case l of [] \<Rightarrow> Panic | h # _ \<Rightarrow> Ok h))"

definition get_block_height :: "'s ext \<Rightarrow> 's dbase \<Rightarrow> u256 \<Rightarrow> (u64, error) result" where
  "get_block_height X db hash =
     (if hash = get_current_block_hash db then Ok (get_current_block_height db)
      else and_then (db_get X db (Cache (HeightByBlock hash))) (\<lambda>b. lift_de (de_u64 b)))"

definition is_part_of_current_chain :: "'s ext \<Rightarrow> 's dbase \<Rightarrow> u256 \<Rightarrow> (bool, error) result" where
  "is_part_of_current_chain X db hash =
     and_then (get_block_height X db hash)
       (\<lambda>height. and_then (get_current_block_of_height X db height) (\<lambda>member. Ok (hash = member)))"

definition get_contra :: "'s ext \<Rightarrow> 's dbase \<Rightarrow> u256 \<Rightarrow> (mutation, error) result" where
  "get_contra X db hash =
     and_then (db_get X db (Cache (ContraMut hash))) (\<lambda>b. lift_de (de (mutation_codec X) b))"

text \<open>\<open>_get_mutation\<close> and \<open>get_block_mutation\<close>: the merged mutations of a block's transactions.\<close>

definition get_mutation :: "'s ext \<Rightarrow> 's dbase \<Rightarrow> block \<Rightarrow> (mutation, error) result" where
  "get_mutation X db blk =
     for_each (\<lambda>txn_h m. and_then (get_txn X db txn_h) (\<lambda>t. mutation_merge m (txn_mutation t)))
       (txns blk) mutation_new"

definition get_block_mutation :: "'s ext \<Rightarrow> 's dbase \<Rightarrow> block \<Rightarrow> (mutation, error) result" where
  "get_block_mutation X db blk =
     for_each (\<lambda>txn_h m. and_then (get_txn X db txn_h) (\<lambda>t. mutation_merge m (txn_mutation t)))
       (txns blk) mutation_new"

subsection \<open>Writes to the chain and the caches\<close>

definition add_contra :: "'s ext \<Rightarrow> u256 \<Rightarrow> mutation \<Rightarrow> ('s, unit) db_action" where
  "add_contra X hash con = db_put X (Cache (ContraMut hash)) (ser (mutation_codec X) con)"

definition add_receive_time :: "'s ext \<Rightarrow> u256 \<Rightarrow> time \<Rightarrow> ('s, unit) db_action" where
  "add_receive_time X h t = db_put X (Cache (TxnReceiveTime h)) (write_le 8 t)"

text \<open>The set of the account's transactions is written under the key of the transaction.\<close>

definition add_txn_to_account :: "'s ext \<Rightarrow> u160 \<Rightarrow> u256 \<Rightarrow> ('s, unit) db_action" where
  "add_txn_to_account X account h =
     bind_st (read_st (\<lambda>db. map_not_found (get_account_txns X db account) {}))
       (\<lambda>ts. if h \<notin> ts
             then db_put X (Cache (BlocksByTxn h)) (ser (hash_set_codec X) (insert h ts))
             else return_st ())"

definition add_block_for_txn :: "'s ext \<Rightarrow> u256 \<Rightarrow> u256 \<Rightarrow> ('s, unit) db_action" where
  "add_block_for_txn X h blk =
     bind_st (read_st (\<lambda>db. map_not_found (get_txn_blocks X db h) {}))
       (\<lambda>bs. if blk \<notin> bs
             then db_put X (Cache (BlocksByTxn h)) (ser (hash_set_codec X) (insert blk bs))
             else return_st ())"

definition add_height_for_block :: "'s ext \<Rightarrow> u64 \<Rightarrow> u256 \<Rightarrow> ('s, unit) db_action" where
  "add_height_for_block X height blk = db_put X (Cache (HeightByBlock blk)) (write_le 8 height)"

definition add_block_to_height :: "'s ext \<Rightarrow> u64 \<Rightarrow> u256 \<Rightarrow> ('s, unit) db_action" where
  "add_block_to_height X height hash =
     bind_st (read_st (\<lambda>db. get_blocks_of_height X db height))
       (\<lambda>height_vals. if hash \<in> set height_vals then return_st ()
          else db_put X (Cache (BlocksByHeight height))
                 (ser (hash_list_codec X) (height_vals @ [hash])))"

definition add_txn :: "'s ext \<Rightarrow> txn \<Rightarrow> time \<Rightarrow> ('s, unit) db_action" where
  "add_txn X t receive_time =
     (let hash = txn_calculate_hash X t
      in bind_st (db_put X (Blockchain (TxnE hash)) (ser (txn_codec X) t))
        (\<lambda>_. bind_st (add_receive_time X hash receive_time)
          (\<lambda>_. add_txn_to_account X (creator t) hash)))"

definition add_block :: "'s ext \<Rightarrow> block \<Rightarrow> ('s, bool) db_action" where
  "add_block X blk =
     (let hash = block_calculate_hash X blk
      in bind_st (read_st (\<lambda>db. Ok (is_ok (get_block_header X db hash))))
        (\<lambda>known. if known then return_st False
          else bind_st (db_put X (Blockchain (BlockHeaderE hash)) (ser (header_codec X) (header blk)))
            (\<lambda>_. bind_st (db_put X (Blockchain (TxnListE (merkle_root (header blk))))
                            (ser (hash_list_codec X) (txns blk)))
              (\<lambda>_. bind_st (read_st (\<lambda>db. get_block_height X db (prev (header blk))))
                (\<lambda>prev_height. let height = prev_height + 1
                  in bind_st (add_block_to_height X height hash)
                    (\<lambda>_. bind_st (add_height_for_block X height hash)
                      (\<lambda>_. bind_st (for_st (\<lambda>t. add_block_for_txn X t hash) (txns blk))
                        (\<lambda>_. return_st True))))))))"

text \<open>\<open>swap(0, index)\<close> of the first position that holds the hash.\<close>

fun position :: "('a \<Rightarrow> bool) \<Rightarrow> 'a list \<Rightarrow> nat option" where
  "position p [] = None"
| "position p (x # xs) = (if p x then Some 0 else map_option Suc (position p xs))"

definition swap :: "nat \<Rightarrow> nat \<Rightarrow> 'a list \<Rightarrow> 'a list" where
  "swap i j xs = xs[i := xs ! j, j := xs ! i]"

definition update_current_chain :: "'s ext \<Rightarrow> u64 \<Rightarrow> u256 \<Rightarrow> ('s, unit) db_action" where
  "update_current_chain X height hash =
     (let k = Cache (BlocksByHeight height)
      in bind_st (read_st (\<lambda>db. and_then (db_get X db k) (\<lambda>b. lift_de (de (hash_list_codec X) b))))
        (\<lambda>height_values. case position (\<lambda>h. h = hash) height_values of
            Some index \<Rightarrow> db_put X k (ser (hash_list_codec X) (swap 0 index height_values))
          | None \<Rightarrow> read_st (\<lambda>db. Err (NotFound k))))"

fun set_head :: "head_ref \<Rightarrow> 's dbase \<Rightarrow> 's dbase" where
  "set_head r (DatabaseImpl s h) = DatabaseImpl s r"
| "set_head r (DBState db d h) = DBState db d r"

text \<open>\<open>_update_current_block\<close>, which both implementors define alike.\<close>

definition update_current_block :: "'s ext \<Rightarrow> u256 \<Rightarrow> u64 option \<Rightarrow> ('s, unit) db_action" where
  "update_current_block X hash height =
     bind_st (read_st (\<lambda>db. case height of Some h \<Rightarrow> Ok h | None \<Rightarrow> get_block_height X db hash))
       (\<lambda>h. let href = \<lparr>href_block = hash, href_height = h\<rparr>
            in (\<lambda>db. db_put X (Cache CurrentHead) (ser_head_ref href) (set_head href db)))"

subsection \<open>Iterators\<close>

definition down_next ::
    "'s ext \<Rightarrow> 's dbase \<Rightarrow> u256 \<Rightarrow> ((u256 \<times> block_header, error) result \<times> u256) option" where
  "down_next X db cur =
     (if u256_is_zero cur then None
      else Some (case get_block_header X db cur of
          Ok hdr \<Rightarrow> (Ok (cur, hdr), prev hdr)
        | Err e \<Rightarrow> (Err e, cur) | Panic \<Rightarrow> (Panic, cur) | Diverge \<Rightarrow> (Diverge, cur)))"

definition up_next ::
    "'s ext \<Rightarrow> 's dbase \<Rightarrow> u64 \<Rightarrow> ((u256 \<times> block_header, error) result \<times> u64) option" where
  "up_next X db height =
     (if height \<le> get_current_block_height db
      then Some (let item = and_then (get_current_block_of_height X db height)
                       (\<lambda>next. and_then (get_block_header X db next) (\<lambda>hdr. Ok (next, hdr)))
                 in (item, if is_ok item then height + 1 else height))
      else None)"

text \<open>\<open>iter_down(start).take(n)\<close>, collected until the first error.\<close>

fun latest_blocks_loop ::
    "'s ext \<Rightarrow> 's dbase \<Rightarrow> nat \<Rightarrow> u256 \<Rightarrow> (block_header list, error) result" where
  "latest_blocks_loop X db 0 cur = Ok []"
| "latest_blocks_loop X db (Suc n) cur =
     (case down_next X db cur of
        None \<Rightarrow> Ok []
      | Some (r, cur') \<Rightarrow> and_then r
          (\<lambda>(_, h). and_then (latest_blocks_loop X db n cur') (\<lambda>hs. Ok (h # hs))))"

definition get_latest_blocks ::
    "'s ext \<Rightarrow> 's dbase \<Rightarrow> nat \<Rightarrow> (block_header list, error) result" where
  "get_latest_blocks X db count = latest_blocks_loop X db count (get_current_block_hash db)"

text \<open>\<open>_get_blocks_before\<close>: the iterator ends silently at its first error.\<close>

fun blocks_before_loop ::
    "'s ext \<Rightarrow> 's dbase \<Rightarrow> u256 \<Rightarrow> nat \<Rightarrow> u256 \<Rightarrow> (block_header list, error) result" where
  "blocks_before_loop X db last_known 0 cur = Ok []"
| "blocks_before_loop X db last_known (Suc n) cur =
     (case down_next X db cur of
        None \<Rightarrow> Ok []
      | Some (Err e, cur') \<Rightarrow> Ok []
      | Some (Panic, cur') \<Rightarrow> Panic
      | Some (Diverge, cur') \<Rightarrow> Diverge
      | Some (Ok (hash, hdr), cur') \<Rightarrow>
          and_then (is_part_of_current_chain X db hash)
            (\<lambda>in_cur_chain. if hash = last_known \<or> in_cur_chain then Ok []
               else and_then (blocks_before_loop X db last_known n cur') (\<lambda>hs. Ok (hdr # hs))))"

definition get_blocks_before ::
    "'s ext \<Rightarrow> 's dbase \<Rightarrow> u256 \<Rightarrow> u256 \<Rightarrow> nat \<Rightarrow> (block_header list, error) result" where
  "get_blocks_before X db target last_known limit =
     and_then (blocks_before_loop X db last_known limit target) (\<lambda>blocks. Ok (rev blocks))"

partial_function (option) lca_current_loop ::
    "'s ext \<Rightarrow> 's dbase \<Rightarrow> u256 \<Rightarrow> (u256, error) result option" where
  "lca_current_loop X db cur =
     (case down_next X db cur of
        None \<Rightarrow> Some Panic
      | Some (r, cur') \<Rightarrow>
          (case r of
             Ok (h, hdr) \<Rightarrow>
               (case is_part_of_current_chain X db h of
                  Ok part \<Rightarrow> if part then Some (Ok h) else lca_current_loop X db cur'
                | Err e \<Rightarrow> Some (Err e) | Panic \<Rightarrow> Some Panic | Diverge \<Rightarrow> Some Diverge)
           | Err e \<Rightarrow> Some (Err e) | Panic \<Rightarrow> Some Panic | Diverge \<Rightarrow> Some Diverge))"

definition latest_common_ancestor_with_current_chain ::
    "'s ext \<Rightarrow> 's dbase \<Rightarrow> u256 \<Rightarrow> (u256, error) result" where
  "latest_common_ancestor_with_current_chain X db hash = returns (lca_current_loop X db hash)"

text \<open>The loop of \<open>_get_blocks_after\<close>, after the skipped first element.\<close>

fun blocks_after_loop ::
    "'s ext \<Rightarrow> 's dbase \<Rightarrow> u256 \<Rightarrow> nat \<Rightarrow> u64 \<Rightarrow> (block_header list, error) result" where
  "blocks_after_loop X db target 0 height = Ok []"
| "blocks_after_loop X db target (Suc n) height =
     (case up_next X db height of
        None \<Rightarrow> Ok []
      | Some (Err e, _) \<Rightarrow> Ok []
      | Some (Panic, _) \<Rightarrow> Panic
      | Some (Diverge, _) \<Rightarrow> Diverge
      | Some (Ok (hash, hdr), height') \<Rightarrow>
          if hash = target then Ok [hdr]
          else and_then (blocks_after_loop X db target n height') (\<lambda>hs. Ok (hdr # hs)))"

definition get_blocks_after ::
    "'s ext \<Rightarrow> 's dbase \<Rightarrow> u256 \<Rightarrow> u256 \<Rightarrow> nat \<Rightarrow> (block_header list, error) result" where
  "get_blocks_after X db last_known target limit =
     and_then (latest_common_ancestor_with_current_chain X db last_known)
       (\<lambda>ancestor. and_then (get_block_height X db ancestor)
         (\<lambda>ancestor_height.
            if limit = 0 then Ok []
            else case up_next X db ancestor_height of
                None \<Rightarrow> Ok []
              | Some (Panic, _) \<Rightarrow> Panic
              | Some (Diverge, _) \<Rightarrow> Diverge
              | Some (_, height) \<Rightarrow> blocks_after_loop X db target limit height))"

definition get_blocks_between ::
    "'s ext \<Rightarrow> 's dbase \<Rightarrow> u256 \<Rightarrow> u256 \<Rightarrow> nat \<Rightarrow> (block_header list, error) result" where
  "get_blocks_between X db last_known target limit =
     and_then (is_part_of_current_chain X db target)
       (\<lambda>part. if part then get_blocks_after X db last_known target limit
         else and_then (get_blocks_before X db target last_known limit)
           (\<lambda>uncle_blocks.
              let mc_target = (case uncle_blocks of [] \<Rightarrow> target | h # _ \<Rightarrow> header_calculate_hash X h);
                  mc_limit = limit - length uncle_blocks
              in and_then (get_blocks_after X db last_known mc_target mc_limit)
                   (\<lambda>main_chain. Ok (main_chain @ uncle_blocks))))"

partial_function (option) find_chain_head_loop ::
    "'s ext \<Rightarrow> 's dbase \<Rightarrow> u64 \<Rightarrow> u256 \<Rightarrow> (u256, error) result option" where
  "find_chain_head_loop X db height choice =
     (case get_blocks_of_height X db (height + 1) of
        Ok blocks \<Rightarrow> (case blocks of
            [] \<Rightarrow> Some (Ok choice)
          | b # _ \<Rightarrow> find_chain_head_loop X db (height + 1) b)
      | Err e \<Rightarrow> Some (Err e) | Panic \<Rightarrow> Some Panic | Diverge \<Rightarrow> Some Diverge)"

definition find_chain_head :: "'s ext \<Rightarrow> 's dbase \<Rightarrow> (u256, error) result" where
  "find_chain_head X db =
     returns (find_chain_head_loop X db (get_current_block_height db) (get_current_block_hash db))"

end
