(* ===== verification/Block_Package.thy ===== *)
theory Block_Package
  imports Database
begin

text \<open>
  Packages of blocks for the transfer between nodes, \<open>core/src/record_keeper/block_package.rs\<close>: every
  block refers to its transactions by their position in the package. The lemmas show that unpacking a
  package gives back the blocks it was made of with all of their transactions.
\<close>

section \<open>Packing and unpacking\<close>

definition ESTIMATED_BLOCK_SIZE :: nat where
  "ESTIMATED_BLOCK_SIZE = 128"

record block_package =
  pkg_blocks :: "(block_header \<times> u16 list) list"
  pkg_txns :: "txn list"

definition package_new_empty :: block_package where
  "package_new_empty = \<lparr>pkg_blocks = [], pkg_txns = []\<rparr>"

text \<open>An index for every transaction hash, in the order of the first occurrence.\<close>

definition index_txn :: "u256 \<Rightarrow> (u256, u16) hash_map \<times> u16 \<Rightarrow> ((u256, u16) hash_map \<times> u16, error) result" where
  "index_txn txn = (\<lambda>(txns_by_hash, count).
     if hm_get txns_by_hash txn \<noteq> None then Ok (txns_by_hash, count)
     else and_then (assert_rs (count < 0xffff)) (\<lambda>_. Ok (hm_insert txn count txns_by_hash, count + 1)))"

text \<open>
  The loop over the transactions of one block: their indices, the transactions that are not in the
  package yet, the number of transactions seen so far and the running size.
\<close>

definition pack_txn ::
  "'s ext \<Rightarrow> 's dbase \<Rightarrow> (u256, u16) hash_map \<Rightarrow> u256 \<Rightarrow> u16 list \<times> txn list \<times> u16 \<times> nat \<Rightarrow>
   (u16 list \<times> txn list \<times> u16 \<times> nat, error) result" where
  "pack_txn X db txns_by_hash txn = (\<lambda>(indices, new_txns, count, bytes).
     and_then (unwrap (hm_get txns_by_hash txn))
       (\<lambda>index. if index = count
          then and_then (get_txn X db txn)
            (\<lambda>full_txn. Ok (indices @ [index], new_txns @ [full_txn], count + 1, bytes + txn_calculate_size full_txn))
          else Ok (indices @ [index], new_txns, count, bytes)))"

fun package_loop ::
  "'s ext \<Rightarrow> 's dbase \<Rightarrow> (u256, u16) hash_map \<Rightarrow> nat \<Rightarrow> block list \<Rightarrow> u16 \<Rightarrow> nat \<Rightarrow> block_package \<Rightarrow>
   (block_package, error) result" where
  "package_loop X db txns_by_hash limit [] count bytes pkg = Ok pkg"
| "package_loop X db txns_by_hash limit (blk # blocks) count bytes pkg =
     and_then (for_each (pack_txn X db txns_by_hash) (txns blk)
         ([], [], count, bytes + (length (ser (header_codec X) (header blk)) + (length (txns blk) + 1) * 2)))
       (\<lambda>(indices, new_txns, count', bytes').
          if bytes' \<le> limit
          then package_loop X db txns_by_hash limit blocks count' bytes'
            \<lparr>pkg_blocks = pkg_blocks pkg @ [(header blk, indices)], pkg_txns = pkg_txns pkg @ new_txns\<rparr>
          else Ok pkg)"

definition package :: "'s ext \<Rightarrow> 's dbase \<Rightarrow> block_header list \<Rightarrow> nat \<Rightarrow> (block_package, error) result" where
  "package X db headers limit =
     and_then (map_results (complete_block X db) headers)
       (\<lambda>blocks. and_then (for_each (\<lambda>blk. for_each index_txn (txns blk)) blocks ([], 0))
         (\<lambda>(txns_by_hash, _). package_loop X db txns_by_hash limit blocks 0 0 package_new_empty))"

definition blocks_between ::
  "'s ext \<Rightarrow> 's dbase \<Rightarrow> u256 \<Rightarrow> u256 \<Rightarrow> nat \<Rightarrow> (block_package, error) result" where
  "blocks_between X db last_known target limit =
     and_then (get_blocks_between X db last_known target (limit div ESTIMATED_BLOCK_SIZE))
       (\<lambda>blocks. package X db blocks limit)"

text \<open>The codec of packages and the compression are parameters; their errors lose the reason.\<close>

definition package_zip :: "block_package codec \<Rightarrow> (bin \<Rightarrow> (bin, string) result) \<Rightarrow> block_package \<Rightarrow> (bin, error) result" where
  "package_zip P compress pkg =
     (case compress (ser P pkg) of Err _ \<Rightarrow> Err (Deserialize '''') | res \<Rightarrow> lift_de res)"

definition package_unzip ::
  "block_package codec \<Rightarrow> (bin \<Rightarrow> (bin, string) result) \<Rightarrow> bin \<Rightarrow> (block_package \<times> nat, error) result" where
  "package_unzip P decompress b =
     and_then (case decompress b of Err _ \<Rightarrow> Err (Deserialize '''') | res \<Rightarrow> lift_de res)
       (\<lambda>raw. and_then (case de P raw of Err _ \<Rightarrow> Err (Deserialize '''') | res \<Rightarrow> lift_de res)
          (\<lambda>r. Ok (r, length raw)))"

definition package_unpack :: "'s ext \<Rightarrow> block_package \<Rightarrow> block list \<times> (u256, txn) hash_map" where
  "package_unpack X pkg =
     (let ts = map (\<lambda>t. (txn_calculate_hash X t, t)) (pkg_txns pkg);
          blocks = map (\<lambda>(hdr, txn_list).
            \<lparr>header = hdr,
             txns = map fst (List.map_filter
               (\<lambda>i. if unat i < length ts then Some (ts ! unat i) else None) txn_list)\<rparr>) (pkg_blocks pkg)
      in (blocks, fold (\<lambda>(h, t). hm_insert h t) ts []))"

definition package_last_hash :: "'s ext \<Rightarrow> block_package \<Rightarrow> (u256, 'e) result" where
  "package_last_hash X pkg =
     (if pkg_blocks pkg = [] then Panic else Ok (header_calculate_hash X (fst (last (pkg_blocks pkg)))))"

definition package_starts_at :: "block_package \<Rightarrow> (u256, 'e) result" where
  "package_starts_at pkg = (case pkg_blocks pkg of [] \<Rightarrow> Panic | (hdr, _) # _ \<Rightarrow> Ok (prev hdr))"

definition package_is_empty :: "block_package \<Rightarrow> bool" where
  "package_is_empty pkg \<longleftrightarrow> pkg_txns pkg = [] \<and> pkg_blocks pkg = []"

section \<open>The index of the transactions\<close>

text \<open>The distinct elements of a list, in the order of their first occurrence.\<close>

definition add_first :: "'a \<Rightarrow> 'a list \<Rightarrow> 'a list" where
  "add_first x seen = (if x \<in> set seen then seen else seen @ [x])"

definition firsts :: "'a list \<Rightarrow> 'a list \<Rightarrow> 'a list" where
  "firsts xs seen = fold add_first xs seen"

lemma add_first_simps [simp]: "set (add_first x seen) = insert x (set seen)" "distinct (add_first x seen) = distinct seen"
  by (auto simp: add_first_def)

lemma firsts_simps [simp]: "firsts [] seen = seen" "firsts (x # xs) seen = firsts xs (add_first x seen)"
  "firsts (xs @ ys) seen = firsts ys (firsts xs seen)"
  by (simp_all add: firsts_def)

lemma firsts_set [simp]: "set (firsts xs seen) = set xs \<union> set seen" "distinct (firsts xs seen) = distinct seen"
  by (induction xs arbitrary: seen) auto

lemma firsts_extends: "\<exists>more. firsts xs seen = seen @ more"
proof (induction xs arbitrary: seen)
  case (Cons x xs)
  show ?case using Cons.IH [of "add_first x seen"] by (auto simp: add_first_def split: if_splits)
qed simp

text \<open>The index of a hash is its position in that list.\<close>

definition indexes :: "(u256, u16) hash_map \<Rightarrow> u256 list \<Rightarrow> bool" where
  "indexes m seen \<longleftrightarrow> distinct seen \<and> length seen \<le> 0xffff \<and>
     (\<forall>h i. hm_get m h = Some i \<longleftrightarrow> unat i < length seen \<and> seen ! unat i = h)"

lemma indexes_known: "indexes m seen \<Longrightarrow> (hm_get m h \<noteq> None) = (h \<in> set seen)"
proof -
  assume ix: "indexes m seen"
  have "h \<in> set seen \<Longrightarrow> \<exists>i. hm_get m h = Some i"
  proof -
    assume "h \<in> set seen"
    then obtain j where j: "j < length seen" "seen ! j = h" by (auto simp: in_set_conv_nth)
    have "unat (of_nat j :: u16) = j" using ix j(1) by (simp add: indexes_def unat_of_nat take_bit_nat_eq_self)
    then show ?thesis using ix j by (intro exI [of _ "of_nat j"]) (simp add: indexes_def)
  qed
  then show ?thesis using ix by (auto simp: indexes_def)
qed

lemma index_txn_step:
  assumes "index_txn h (m, c) = Ok (m', c')" "indexes m seen" "unat c = length seen"
  shows "indexes m' (add_first h seen) \<and> unat c' = length (add_first h seen)"
proof (cases "h \<in> set seen")
  case True
  then show ?thesis using assms indexes_known [OF assms(2), of h] by (auto simp: index_txn_def add_first_def split: if_splits)
next
  case False
  then have r: "c < 0xffff" "m' = hm_insert h c m" "c' = c + 1"
    using assms(1) indexes_known [OF assms(2), of h] by (auto simp: index_txn_def result_simps split: if_splits)
  have c: "length seen < 0xffff" using r(1) assms(3) by (simp add: word_less_nat_alt)
  have "unat (c + 1) = Suc (length seen)" using c assms(3) by (simp add: unat_plus_if')
  moreover have "hm_get m' x = Some i \<longleftrightarrow> unat i < length (seen @ [h]) \<and> (seen @ [h]) ! unat i = x" for x i
  proof (cases "unat i = length seen")
    case True
    then have "i = c" using assms(3) by (metis unsigned_word_eqI)
    then show ?thesis using True assms(2,3) by (auto simp: r(2) map_simps indexes_def)
  next
    case other: False
    then have "i \<noteq> c" using assms(3) by auto
    then show ?thesis using other assms(2) False nth_mem [of "unat i" seen]
      by (auto simp: r(2) map_simps indexes_def nth_append)
  qed
  ultimately show ?thesis using False c assms(2) by (auto simp: indexes_def add_first_def r(3))
qed

lemma for_each_for_each: "for_each (\<lambda>x. for_each f (g x)) xs s = for_each f (concat (map g xs)) s"
  by (induction xs arbitrary: s) (auto simp: for_each_append intro: and_then_cong)

lemma index_txns:
  assumes "for_each index_txn hs (m, c) = Ok (m', c')" "indexes m seen" "unat c = length seen"
  shows "indexes m' (firsts hs seen)"
  using assms
proof (induction hs arbitrary: m c seen)
  case (Cons h hs)
  obtain m1 c1 where s: "index_txn h (m, c) = Ok (m1, c1)" "for_each index_txn hs (m1, c1) = Ok (m', c')"
    using Cons.prems(1) by (auto simp: result_simps)
  then show ?case using Cons.IH [OF s(2)] index_txn_step [OF s(1) Cons.prems(2,3)] by simp
qed simp

section \<open>Packing keeps the blocks\<close>

definition got :: "'s ext \<Rightarrow> 's dbase \<Rightarrow> u256 list \<Rightarrow> txn list \<Rightarrow> bool" where
  "got X db hs ts \<longleftrightarrow> list_all2 (\<lambda>h t. get_txn X db h = Ok t) hs ts"

text \<open>A list of indices that stands for a list of hashes.\<close>

definition refers :: "u256 list \<Rightarrow> u16 list \<Rightarrow> u256 list \<Rightarrow> bool" where
  "refers D is hs \<longleftrightarrow> (\<forall>i \<in> set is. unat i < length D) \<and> map (\<lambda>i. D ! unat i) is = hs"

lemma refers_mono: "refers D is hs \<Longrightarrow> refers (D @ mr) is hs"
  by (auto simp: refers_def nth_append)

lemma got_snoc: "got X db hs ts \<Longrightarrow> get_txn X db h = Ok t \<Longrightarrow> got X db (hs @ [h]) (ts @ [t])"
  by (simp add: got_def list_all2_appendI)

text \<open>
  The bytes a list of blocks is counted with: the headers, two bytes for every index and one index
  more per block, and the size of every transaction the blocks refer to, once.
\<close>

definition txn_bytes :: "'s ext \<Rightarrow> 's dbase \<Rightarrow> u256 \<Rightarrow> nat" where
  "txn_bytes X db h = (case get_txn X db h of Ok t \<Rightarrow> txn_calculate_size t | _ \<Rightarrow> 0)"

definition block_bytes :: "'s ext \<Rightarrow> block \<Rightarrow> nat" where
  "block_bytes X blk = length (ser (header_codec X) (header blk)) + 2 * (length (txns blk) + 1)"

definition packed_size :: "'s ext \<Rightarrow> 's dbase \<Rightarrow> block list \<Rightarrow> nat" where
  "packed_size X db blks = (\<Sum>blk\<leftarrow>blks. block_bytes X blk) +
     (\<Sum>h\<in>(\<Union>blk\<in>set blks. set (txns blk)). txn_bytes X db h)"

definition hashes_size :: "'s ext \<Rightarrow> 's dbase \<Rightarrow> u256 list \<Rightarrow> nat" where
  "hashes_size X db hs = (\<Sum>h\<leftarrow>hs. txn_bytes X db h)"

lemma packed_size_firsts:
  "packed_size X db blks = (\<Sum>blk\<leftarrow>blks. block_bytes X blk) + hashes_size X db (firsts (concat (map txns blks)) [])"
  by (simp add: packed_size_def hashes_size_def sum_list_distinct_conv_sum_set)

lemma pack_txn_step:
  assumes "pack_txn X db m h (ind, new, c, sz) = Ok (ind', new', c', sz')"
    and "indexes m (add_first h seen @ mr)" "unat c = length seen" "n \<le> length seen" "got X db (drop n seen) new"
  shows "unat c' = length (add_first h seen) \<and> got X db (drop n (add_first h seen)) new' \<and>
    sz' + hashes_size X db seen = sz + hashes_size X db (add_first h seen) \<and>
    (\<exists>i. ind' = ind @ [i] \<and> refers (add_first h seen) [i] [h])"
proof -
  obtain i where i: "hm_get m h = Some i" "ind' = ind @ [i]"
    and upd: "if i = c then \<exists>t. get_txn X db h = Ok t \<and> new' = new @ [t] \<and> c' = c + 1 \<and>
        sz' = sz + txn_bytes X db h
      else new' = new \<and> c' = c \<and> sz' = sz"
    using assms(1) by (auto simp: pack_txn_def txn_bytes_def result_simps split: if_splits)
  have D: "unat i < length (add_first h seen @ mr)" "(add_first h seen @ mr) ! unat i = h"
    and dist: "distinct (add_first h seen @ mr)" "length (add_first h seen @ mr) \<le> 0xffff"
    using assms(2) i(1) by (auto simp: indexes_def)
  have pos: "unat i = j" if "j < length (add_first h seen)" "add_first h seen ! j = h" for j
    using that D dist(1) nth_eq_iff_index_eq [OF dist(1), of "unat i" j] by (auto simp: nth_append split: if_splits)
  show ?thesis
  proof (cases "h \<in> set seen")
    case True
    then obtain j where "j < length seen" "seen ! j = h" by (auto simp: in_set_conv_nth)
    then have j: "unat i < length seen" "seen ! unat i = h" using pos [of j] True by (auto simp: add_first_def)
    then have "i \<noteq> c" using assms(3) by auto
    then show ?thesis using upd assms(3,5) True j i(2) by (auto simp: add_first_def refers_def)
  next
    case False
    then have j: "unat i = length seen" using pos [of "length seen"] by (simp add: add_first_def)
    then have "i = c" using assms(3) by (metis unsigned_word_eqI)
    then obtain t where t: "get_txn X db h = Ok t" "new' = new @ [t]" "c' = c + 1" "sz' = sz + txn_bytes X db h"
      using upd by auto
    have "length seen < 0xffff" using dist(2) False by (simp add: add_first_def)
    then have "unat (c + 1) = Suc (length seen)" using assms(3) by (simp add: unat_plus_if')
    then show ?thesis using False t j i(2) assms(4) got_snoc [OF assms(5) t(1)]
      by (auto simp: add_first_def refers_def hashes_size_def)
  qed
qed

lemma pack_txns:
  assumes "for_each (pack_txn X db m) hs (ind, new, c, sz) = Ok (ind', new', c', sz')"
    and "indexes m (firsts hs seen @ mr)" "unat c = length seen" "n \<le> length seen" "got X db (drop n seen) new"
  shows "unat c' = length (firsts hs seen) \<and> got X db (drop n (firsts hs seen)) new' \<and>
    sz' + hashes_size X db seen = sz + hashes_size X db (firsts hs seen) \<and>
    (\<exists>is. ind' = ind @ is \<and> refers (firsts hs seen) is hs)"
  using assms
proof (induction hs arbitrary: ind new c sz seen)
  case Nil
  then show ?case by (auto simp: refers_def)
next
  case (Cons h hs)
  obtain ind1 new1 c1 sz1 where s: "pack_txn X db m h (ind, new, c, sz) = Ok (ind1, new1, c1, sz1)"
    "for_each (pack_txn X db m) hs (ind1, new1, c1, sz1) = Ok (ind', new', c', sz')"
    using Cons.prems(1) by (auto simp: result_simps)
  let ?s1 = "add_first h seen"
  obtain more1 where m1: "firsts hs ?s1 = ?s1 @ more1" using firsts_extends by blast
  have ix: "indexes m (?s1 @ (more1 @ mr))" using Cons.prems(2) m1 by simp
  obtain i where one: "unat c1 = length ?s1" "got X db (drop n ?s1) new1" "ind1 = ind @ [i]" "refers ?s1 [i] [h]"
    and sz1: "sz1 + hashes_size X db seen = sz + hashes_size X db ?s1"
    using pack_txn_step [OF s(1) ix Cons.prems(3-5)] by blast
  have "n \<le> length ?s1" using Cons.prems(4) by (simp add: add_first_def)
  then obtain "is" where rest: "unat c' = length (firsts hs ?s1)" "got X db (drop n (firsts hs ?s1)) new'"
    "ind' = ind1 @ is" "refers (firsts hs ?s1) is hs"
    "sz' + hashes_size X db ?s1 = sz1 + hashes_size X db (firsts hs ?s1)"
    using Cons.IH [OF s(2) _ one(1) _ one(2)] Cons.prems(2) by auto
  have "refers (firsts hs ?s1) (i # is) (h # hs)"
    using rest(4) refers_mono [OF one(4), of more1] by (simp add: m1 refers_def)
  then show ?case using rest one(3) sz1 by simp
qed

text \<open>The blocks of a package stand for a prefix of the blocks that were packed.\<close>

definition packs :: "u256 list \<Rightarrow> (block_header \<times> u16 list) list \<Rightarrow> block list \<Rightarrow> bool" where
  "packs D pbs blks \<longleftrightarrow> list_all2 (\<lambda>(hdr, is) blk. hdr = header blk \<and> refers D is (txns blk)) pbs blks"

lemma packs_mono: "packs D pbs blks \<Longrightarrow> packs (D @ mr) pbs blks"
  unfolding packs_def by (erule list_all2_mono) (auto intro: refers_mono)

lemma package_loop_packs:
  assumes "package_loop X db m limit blocks c sz pkg = Ok pkg'"
    and "indexes m (firsts (concat (map txns blocks)) (firsts (concat (map txns bs)) []))"
    and "unat c = length (firsts (concat (map txns bs)) [])"
    and "sz = packed_size X db bs" "sz \<le> limit"
    and "packs (firsts (concat (map txns bs)) []) (pkg_blocks pkg) bs"
    and "got X db (firsts (concat (map txns bs)) []) (pkg_txns pkg)"
  shows "\<exists>k \<le> length blocks. packed_size X db (bs @ take k blocks) \<le> limit \<and>
    (k = length blocks \<or> limit < packed_size X db (bs @ take (Suc k) blocks)) \<and>
    packs (firsts (concat (map txns (bs @ take k blocks))) []) (pkg_blocks pkg') (bs @ take k blocks) \<and>
    got X db (firsts (concat (map txns (bs @ take k blocks))) []) (pkg_txns pkg')"
  using assms
proof (induction blocks arbitrary: c sz pkg bs)
  case Nil
  then show ?case by auto
next
  case (Cons blk blocks)
  let ?seen = "firsts (concat (map txns bs)) []" and ?sz = "sz + block_bytes X blk"
  obtain ind new c1 sz1 where p: "for_each (pack_txn X db m) (txns blk) ([], [], c, ?sz) = Ok (ind, new, c1, sz1)"
    and rest: "(if sz1 \<le> limit then package_loop X db m limit blocks c1 sz1
        \<lparr>pkg_blocks = pkg_blocks pkg @ [(header blk, ind)], pkg_txns = pkg_txns pkg @ new\<rparr> else Ok pkg) = Ok pkg'"
    using Cons.prems(1) by (auto simp: result_simps block_bytes_def mult.commute)
  let ?s1 = "firsts (txns blk) ?seen"
  have s1: "firsts (concat (map txns (bs @ [blk]))) [] = ?s1" by simp
  obtain more0 where m0: "?s1 = ?seen @ more0" using firsts_extends by blast
  obtain mr where mr: "firsts (concat (map txns blocks)) ?s1 = ?s1 @ mr" using firsts_extends by blast
  have s: "unat c1 = length ?s1" "got X db (drop (length ?seen) ?s1) new" "refers ?s1 ind (txns blk)"
    "sz1 + hashes_size X db ?seen = ?sz + hashes_size X db ?s1"
    using pack_txns [OF p, of ?seen mr "length ?seen"] Cons.prems(2,3) mr by (auto simp: got_def)
  have sz1: "sz1 = packed_size X db (bs @ [blk])"
    using s(4) Cons.prems(4) by (simp add: packed_size_firsts)
  show ?case
  proof (cases "sz1 \<le> limit")
    case True
    let ?pkg = "\<lparr>pkg_blocks = pkg_blocks pkg @ [(header blk, ind)], pkg_txns = pkg_txns pkg @ new\<rparr>"
    have "packs ?s1 (pkg_blocks ?pkg) (bs @ [blk])"
      using packs_mono [OF Cons.prems(6), of more0] s(3) by (simp add: packs_def m0 list_all2_appendI)
    moreover have "got X db ?s1 (pkg_txns ?pkg)"
      using Cons.prems(7) s(2) by (simp add: got_def m0 list_all2_appendI)
    moreover have "package_loop X db m limit blocks c1 sz1 ?pkg = Ok pkg'" using rest True by simp
    moreover have "indexes m (firsts (concat (map txns blocks)) ?s1)" using Cons.prems(2) by simp
    ultimately obtain k where "k \<le> length blocks" "packed_size X db ((bs @ [blk]) @ take k blocks) \<le> limit"
      "k = length blocks \<or> limit < packed_size X db ((bs @ [blk]) @ take (Suc k) blocks)"
      "packs (firsts (concat (map txns ((bs @ [blk]) @ take k blocks))) []) (pkg_blocks pkg') ((bs @ [blk]) @ take k blocks)"
      "got X db (firsts (concat (map txns ((bs @ [blk]) @ take k blocks))) []) (pkg_txns pkg')"
      using Cons.IH [of c1 sz1 ?pkg "bs @ [blk]"] s(1) sz1 True unfolding s1 by blast
    then show ?thesis by (intro exI [of _ "Suc k"]) simp
  next
    case False
    then show ?thesis using rest Cons.prems(4-7) sz1 by (intro exI [of _ 0]) simp
  qed
qed

section \<open>Unpacking\<close>

lemma unpack_txn_map:
  "hm_get (fold (\<lambda>(h, t). hm_insert h t) ts m) = map_of m ++ map_of (rev ts)"
  by (induction ts arbitrary: m) (auto simp: map_simps map_add_def fun_eq_iff split: option.splits prod.splits)

lemma unpack_indices:
  assumes "refers D is hs" "map f ts = D"
  shows "map fst (List.map_filter (\<lambda>i. if unat i < length (map (\<lambda>t. (f t, t)) ts)
      then Some (map (\<lambda>t. (f t, t)) ts ! unat i) else None) is) = hs"
  using assms
proof (induction "is" arbitrary: hs)
  case (Cons i "is")
  then show ?case by (cases hs) (auto simp: refers_def List.map_filter_simps)
qed (simp add: refers_def List.map_filter_simps)

lemma unpack_packed:
  assumes "packs D (pkg_blocks pkg) blks" "got X db D (pkg_txns pkg)"
    and hash: "\<forall>h t. get_txn X db h = Ok t \<longrightarrow> txn_calculate_hash X t = h"
  shows "fst (package_unpack X pkg) = blks"
    "\<And>blk h. blk \<in> set blks \<Longrightarrow> h \<in> set (txns blk) \<Longrightarrow>
      \<exists>t. hm_get (snd (package_unpack X pkg)) h = Some t \<and> get_txn X db h = Ok t"
    "\<And>h t. hm_get (snd (package_unpack X pkg)) h = Some t \<Longrightarrow> h \<in> set D"
proof -
  let ?ts = "map (\<lambda>t. (txn_calculate_hash X t, t)) (pkg_txns pkg)"
  have D: "map (txn_calculate_hash X) (pkg_txns pkg) = D"
    using assms(2) hash unfolding got_def by (induction rule: list_all2_induct) auto
  have "map (\<lambda>(hdr, txn_list). \<lparr>header = hdr, txns = map fst (List.map_filter
      (\<lambda>i. if unat i < length ?ts then Some (?ts ! unat i) else None) txn_list)\<rparr>) (pkg_blocks pkg) = blks"
    using assms(1) unfolding packs_def
    by (induction rule: list_all2_induct) (auto simp: unpack_indices [OF _ D, simplified])
  then show "fst (package_unpack X pkg) = blks" by (simp add: package_unpack_def Let_def)
  show "h \<in> set D" if "hm_get (snd (package_unpack X pkg)) h = Some t" for h t
    using that D by (auto simp: package_unpack_def Let_def unpack_txn_map dest!: map_of_SomeD)
  fix blk h assume b: "blk \<in> set blks" "h \<in> set (txns blk)"
  have "\<exists>is. refers D is (txns blk)"
    using assms(1) b(1) unfolding packs_def by (induction rule: list_all2_induct) auto
  then obtain "is" where r: "refers D is (txns blk)" by blast
  then have "txns blk = map (\<lambda>i. D ! unat i) is" by (simp add: refers_def)
  then have "h \<in> set (map (\<lambda>i. D ! unat i) is)" using b(2) by simp
  then have "h \<in> set D" using r by (auto simp: refers_def)
  then have "\<exists>t. (h, t) \<in> set ?ts" unfolding D [symmetric] by (force simp: image_iff)
  then have "h \<in> fst ` set (rev ?ts)" by force
  then obtain t where t: "map_of (rev ?ts) h = Some t" by (metis map_of_eq_None_iff not_None_eq)
  then have "t \<in> set (pkg_txns pkg)" "txn_calculate_hash X t = h" by (auto dest!: map_of_SomeD)
  moreover have "\<exists>g. get_txn X db g = Ok t" if "t \<in> set (pkg_txns pkg)"
    using assms(2) that unfolding got_def by (induction rule: list_all2_induct) auto
  ultimately have "get_txn X db h = Ok t" using hash by metis
  then show "\<exists>t. hm_get (snd (package_unpack X pkg)) h = Some t \<and> get_txn X db h = Ok t"
    using t by (simp add: package_unpack_def Let_def unpack_txn_map)
qed

text \<open>
  C35: in a database that stores every transaction under its hash, unpacking a package gives back,
  in order and with their lists of transactions, the first \<open>k\<close> of the blocks it was made of, where
  \<open>k\<close> is as large as the limit allows: these blocks fit within it and one block more does not, when
  there is one. The package holds the transactions these blocks refer to and no others.
\<close>

theorem package_round_trip:
  assumes "package X db headers limit = Ok pkg" "\<forall>h t. get_txn X db h = Ok t \<longrightarrow> txn_calculate_hash X t = h"
  shows "\<exists>blocks k. map_results (complete_block X db) headers = Ok blocks \<and>
    k \<le> length blocks \<and> packed_size X db (take k blocks) \<le> limit \<and>
    (k = length blocks \<or> limit < packed_size X db (take (Suc k) blocks)) \<and>
    fst (package_unpack X pkg) = take k blocks \<and>
    (\<forall>blk \<in> set (take k blocks). \<forall>h \<in> set (txns blk).
      \<exists>t. hm_get (snd (package_unpack X pkg)) h = Some t \<and> get_txn X db h = Ok t) \<and>
    (\<forall>h t. hm_get (snd (package_unpack X pkg)) h = Some t \<longrightarrow>
      (\<exists>blk \<in> set (take k blocks). h \<in> set (txns blk)))"
proof -
  obtain blocks m c where b: "map_results (complete_block X db) headers = Ok blocks"
    "for_each index_txn (concat (map txns blocks)) ([], 0) = Ok (m, c)"
    "package_loop X db m limit blocks 0 0 package_new_empty = Ok pkg"
    using assms(1) by (auto simp: package_def result_simps for_each_for_each)
  have "indexes m (firsts (concat (map txns blocks)) [])"
    by (rule index_txns [OF b(2)]) (simp_all add: indexes_def)
  then obtain k where k: "k \<le> length blocks" "packed_size X db (take k blocks) \<le> limit"
    "k = length blocks \<or> limit < packed_size X db (take (Suc k) blocks)"
    and p: "packs (firsts (concat (map txns (take k blocks))) []) (pkg_blocks pkg) (take k blocks)"
      "got X db (firsts (concat (map txns (take k blocks))) []) (pkg_txns pkg)"
    using package_loop_packs [OF b(3), of "[]"]
    by (auto simp: packs_def got_def package_new_empty_def packed_size_def)
  show ?thesis
    using b(1) k unpack_packed(1,2) [OF p assms(2)] unpack_packed(3) [OF p assms(2)]
    by (intro exI [of _ blocks] exI [of _ k]) auto
qed

end
