(* ===== verification/Protocol.thy ===== *)
theory Protocol
  imports Node_Repo Block_Package
begin

text \<open>
  \<open>core/src/network/protocol.rs\<close> (the messages, packets and their signatures),
  \<open>core/src/network/job.rs\<close> (the data-retrieval jobs and the thread's count of running chain
  synchronisations), \<open>core/src/network/tcp.rs\<close> and \<open>udp.rs\<close> (the framing of packets), and the
  part of \<open>core/src/network/context.rs\<close> that sessions use: the context without its shards.

  The sockets are outside the program. What was handed to one is the list of packets sent on
  it, and whether it takes the next packet is a parameter that may depend on that list. A
  future spawned on the event loop is a \<open>task\<close>; the tasks are run in \<open>Net_Client\<close>.
\<close>

section \<open>Messages\<close>

definition PROTOCOL_VERSION :: u16 where "PROTOCOL_VERSION = 1"
definition PING_RETENTION :: int where "PING_RETENTION = 40"
definition PING_TIMEOUT :: i64 where "PING_TIMEOUT = 3000"
definition JOB_TIMEOUT :: i64 where "JOB_TIMEOUT = 5000"
definition TIMEOUT_TOLERANCE :: u64 where "TIMEOUT_TOLERANCE = 3"
definition NODE_RESPONSE_SIZE :: nat where "NODE_RESPONSE_SIZE = 8"
definition MAX_PACKET_SIZE :: nat where "MAX_PACKET_SIZE = 64 * 1000"
definition MAX_JOB_RETRIES :: usize where "MAX_JOB_RETRIES = 3"
definition MAX_ABUSES :: usize where "MAX_ABUSES = 3"

datatype data_request_error =
  HashesNotFound "u256 list" | RateExceeded | NetworkNotAvailable | InternalError

datatype bye_reason = Exit | ExitPermanent | Timeout | Abuse

datatype message =
    Introduce u256 node u8
  | Ping time
  | Pong time
  | FindNodes u256 u16
  | NodeList "node list" u256 u16
  | NewTransaction txn
  | NewBlockMsg block
  | Broadcast u8 bin
  | SyncBlocks u256 u256
  | QueryData "u256 list"
  | ChainData u256 bin
  | SpotChainData "block list" "txn list"
  | Bye bye_reason
  | DataError data_request_error

record packet =
  seq :: u32
  msg :: message
  sig :: bin

record raw_packet =
  raw_port :: u8
  payload :: packet

datatype ip_addr = V4 u32 | V6 "128 word"

type_synonym sock_addr = "ip_addr \<times> u16"

type_synonym socket_packet = "sock_addr \<times> raw_packet"

definition packet_new :: "u32 \<Rightarrow> message \<Rightarrow> packet" where
  "packet_new n m = \<lparr>seq = n, msg = m, sig = []\<rparr>"

text \<open>
  The code outside the program that the network uses: the record of the lower layers, the
  binary forms of the messages and packets, the DER form of a key and the sockets.
\<close>

record 's net_ext =
  core_ext :: "'s ext"
  message_codec :: "message codec"
  packet_codec :: "packet codec"
  raw_packet_codec :: "raw_packet codec"
  public_key_to_der :: "pkey \<Rightarrow> bin option"
  udp_accepts :: "socket_packet list \<Rightarrow> socket_packet \<Rightarrow> bool"
  tcp_accepts :: "packet list \<Rightarrow> packet \<Rightarrow> bool"
  receiver_answer :: "u8 \<Rightarrow> u256 \<Rightarrow> bin \<Rightarrow> bool option"

definition sign_obj :: "'s net_ext \<Rightarrow> message \<Rightarrow> pkey \<Rightarrow> bin" where
  "sign_obj N obj private_key = sign_bytes (core_ext N) (ser (message_codec N) obj) private_key"

definition verify_obj :: "'s net_ext \<Rightarrow> message \<Rightarrow> bin \<Rightarrow> pkey \<Rightarrow> (bool, 'e) result" where
  "verify_obj N obj s public_key = verify_bytes (core_ext N) (ser (message_codec N) obj) s public_key"

definition check_sig :: "'s net_ext \<Rightarrow> packet \<Rightarrow> node \<Rightarrow> (bool, 'e) result" where
  "check_sig N self nd =
     (case public_key_from_der (core_ext N) (key nd) of
        Ok k \<Rightarrow> verify_obj N (msg self) (sig self) k
      | Err e \<Rightarrow> Ok False
      | Panic \<Rightarrow> Panic
      | Diverge \<Rightarrow> Diverge)"

definition apply_sig :: "'s net_ext \<Rightarrow> packet \<Rightarrow> pkey \<Rightarrow> packet" where
  "apply_sig N self k = self\<lparr>sig := sign_obj N (msg self) k\<rparr>"

section \<open>Framing\<close>

datatype io_error = IoError string string

text \<open>A TCP frame is the length of the packet in four bytes and the packet.\<close>

definition tcp_encode :: "'s net_ext \<Rightarrow> packet \<Rightarrow> bin \<Rightarrow> bin" where
  "tcp_encode N item dst =
     (let pl = ser (packet_codec N) item
      in dst @ write_le 4 (of_nat (length pl) :: u32) @ pl)"

definition tcp_decode :: "'s net_ext \<Rightarrow> bin \<Rightarrow> (packet option, io_error) result \<times> bin" where
  "tcp_decode N src =
     (if length src < 4 then (Ok None, src)
      else let size = unat (read_le (take 4 src) :: u32) in
        if size + 4 \<le> length src
        then let d = take (size + 4) src; src' = drop (size + 4) src in
          (case de (packet_codec N) (drop 4 d) of
             Ok p \<Rightarrow> Ok (Some p)
           | Err e \<Rightarrow> Err (IoError ''InvalidData'' e)
           | Panic \<Rightarrow> Panic
           | Diverge \<Rightarrow> Diverge, src')
        else (Ok None, src))"

definition udp_encode :: "'s net_ext \<Rightarrow> socket_packet \<Rightarrow> bin \<Rightarrow> bin \<times> sock_addr" where
  "udp_encode N m buf = (buf @ ser (raw_packet_codec N) (snd m), fst m)"

definition udp_decode :: "'s net_ext \<Rightarrow> sock_addr \<Rightarrow> bin \<Rightarrow> (socket_packet, io_error) result" where
  "udp_decode N src buf =
     (case de (raw_packet_codec N) buf of
        Ok p \<Rightarrow> Ok (src, p)
      | Err e \<Rightarrow> Err (IoError ''Other'' [])
      | Panic \<Rightarrow> Panic
      | Diverge \<Rightarrow> Diverge)"

section \<open>Jobs\<close>

datatype network_job_data = SyncChain block u256 | FindNodesJob u256

record network_job =
  try_count :: usize
  job_data :: network_job_data

text \<open>Whether a job counts in the thread's \<open>ACTIVE_SYNCS\<close>.\<close>

fun is_sync :: "network_job_data \<Rightarrow> bool" where
  "is_sync (SyncChain _ _) = True"
| "is_sync (FindNodesJob _) = False"

definition job_new :: "network_job_data \<Rightarrow> usize \<Rightarrow> network_job \<times> usize" where
  "job_new data active =
     (\<lparr>try_count = 0, job_data = data\<rparr>, if is_sync data then active + 1 else active)"

definition job_clone :: "network_job \<Rightarrow> usize \<Rightarrow> network_job \<times> usize" where
  "job_clone self active = (self, if is_sync (job_data self) then active + 1 else active)"

definition job_drop :: "network_job \<Rightarrow> usize \<Rightarrow> usize" where
  "job_drop self active = (if is_sync (job_data self) then active - 1 else active)"

definition chain_sync_exists :: "usize \<Rightarrow> bool" where
  "chain_sync_exists active \<longleftrightarrow> 0 < active"

definition make_req :: "'s ext \<Rightarrow> network_job \<Rightarrow> message" where
  "make_req X self =
     (case job_data self of
        FindNodesJob network_id \<Rightarrow> FindNodes network_id 0
      | SyncChain cblock last_hash \<Rightarrow> SyncBlocks last_hash (block_calculate_hash X cblock))"

definition augment :: "'s ext \<Rightarrow> network_job \<Rightarrow> network_job \<Rightarrow> bool \<times> network_job" where
  "augment X self other =
     (case job_data self of
        SyncChain target cur \<Rightarrow>
          (case job_data other of
             SyncChain otarget _ \<Rightarrow>
               let my_hash = block_calculate_hash X target in
               if my_hash = block_calculate_hash X otarget then (True, self)
               else if my_hash = prev (header otarget) then (True, self\<lparr>job_data := SyncChain otarget cur\<rparr>)
               else (False, self)
           | FindNodesJob _ \<Rightarrow> (False, self))
      | FindNodesJob _ \<Rightarrow> (False, self))"

text \<open>
  \<open>complete\<close> for a chain synchronisation. The job itself is dropped when the method returns,
  and the job it returns is a new one, so the count of synchronisations changes only when no job
  is returned.
\<close>

definition next_sync :: "'s ext \<Rightarrow> message \<Rightarrow> usize \<Rightarrow> block \<Rightarrow> u256 \<Rightarrow> (usize \<times> u256) option" where
  "next_sync X m tries target cur =
     (case (case m of ChainData h _ \<Rightarrow>
              if h = block_calculate_hash X target then None else Some (tries, h)
          | _ \<Rightarrow> Some (tries + 1, cur)) of
        None \<Rightarrow> None
      | Some (t, c) \<Rightarrow> if MAX_JOB_RETRIES < t then None else Some (t, c))"

definition complete_sync ::
  "'s ext \<Rightarrow> message \<Rightarrow> network_job \<Rightarrow> block \<Rightarrow> u256 \<Rightarrow> usize \<Rightarrow> network_job option \<times> usize" where
  "complete_sync X m self target cur active =
     (case next_sync X m (try_count self) target cur of
        None \<Rightarrow> (None, job_drop self active)
      | Some (t, c) \<Rightarrow>
          (case job_new (SyncChain target c) active of
             (nj, active') \<Rightarrow> (Some (nj\<lparr>try_count := t\<rparr>), job_drop self active')))"

section \<open>The context\<close>

record client_config =
  hostname :: string
  config_port :: u16
  min_nodes :: u16
  max_nodes :: u16
  ntp_servers :: "string list"
  seed_nodes :: "node_endpoint list"
  bind_addr :: sock_addr
  private_key :: pkey

definition DEFAULT_PORT :: u16 where "DEFAULT_PORT = 35653"

definition config_from_key :: "pkey \<Rightarrow> client_config" where
  "config_from_key k =
     \<lparr>hostname = [], config_port = DEFAULT_PORT, min_nodes = 8, max_nodes = 16,
      ntp_servers = [''pool.ntp.org''],
      seed_nodes = [\<lparr>protocol = Udp, host = ''seed-1.blockscape'', port = 35653\<rparr>,
                    \<lparr>protocol = Udp, host = ''seed-2.blockscape'', port = 35653\<rparr>],
      bind_addr = (V4 0, DEFAULT_PORT), private_key = k\<rparr>"

text \<open>
  A connection that \<open>open_session\<close> has still to make, and what follows when it is made or
  refused: a failed \<open>node_scan\<close> contact leaves the repository, the first packet of a remote
  peer is processed on the new session, and the other callers only look at the outcome.
\<close>

record connection =
  con_peer :: node
  con_stream :: "packet list option"
  con_introduce :: bool
  con_network :: u256
  con_port :: u8

datatype after_open =
    AfterScan node u256
  | AfterUdp packet u256
  | AfterTcp packet u256 u8
  | AfterOther

text \<open>
  The futures of the event loop. \<open>TxnTask\<close>, \<open>BlockTask\<close>, \<open>SyncTask\<close>, \<open>QueryTask\<close>, \<open>ImportTask\<close>
  and \<open>PkgTask\<close> wait for a worker thread; the tasks with \<open>Done\<close> carry the worker's result back
  to the event loop. \<open>StreamTask\<close> reads the packets of an open TCP stream. A session is named by
  the allocation of its reference count, because the tasks only hold weak references.
\<close>

datatype task =
    OpenTask "(connection, io_error) result" after_open
  | TcpConnectTask connection sock_addr
  | StreamTask u8 sock_addr
  | TxnTask txn
  | TxnDone "(bool, error) result"
  | BlockTask block u256
  | BlockDone "(bool, error) result" block u256
  | SyncTask u256 u256 nat u32
  | SyncDone "(u256 \<times> bin, error) result" nat u32
  | QueryTask "u256 list" nat u32
  | QueryDone "(block list \<times> txn list \<times> u256 list, error) result" nat u32
  | ImportTask u256 bin
  | ImportDone "(block_package \<times> nat, error) result" u256
  | PkgTask block_package
  | PkgDone "(u256, error) result"

record net_context =
  config :: client_config
  my_node :: node
  udp_out :: "socket_packet list option"
  active_syncs :: usize
  tasks :: "task list"
  received_broadcasts :: "(u256, time) hash_map"
  broadcast_receivers :: "bool list"
  next_rc :: nat

definition spawn :: "task \<Rightarrow> net_context \<Rightarrow> net_context" where
  "spawn t c = c\<lparr>tasks := tasks c @ [t]\<rparr>"

definition context_new :: "'s net_ext \<Rightarrow> string \<Rightarrow> client_config \<Rightarrow> (net_context, 'e) result" where
  "context_new N client_name cfg =
     and_then (unwrap (public_key_to_der N (private_key cfg)))
       (\<lambda>pkeyder. Ok \<lparr>config = cfg,
          my_node = \<lparr>endpoint = \<lparr>protocol = Udp, host = hostname cfg, port = config_port cfg\<rparr>,
                     key = pkeyder, node_version = PROTOCOL_VERSION, node_name = client_name\<rparr>,
          udp_out = None, active_syncs = 0, tasks = [], received_broadcasts = [],
          broadcast_receivers = replicate 256 False, next_rc = 0\<rparr>)"

text \<open>The forward to the socket unwraps its result: a refused packet is a panic.\<close>

fun udp_forward :: "'s net_ext \<Rightarrow> socket_packet list \<Rightarrow> socket_packet list \<Rightarrow> socket_packet list option" where
  "udp_forward N out [] = Some out"
| "udp_forward N out (p # ps) = (if udp_accepts N out p then udp_forward N (out @ [p]) ps else None)"

definition udp_send_packets :: "'s net_ext \<Rightarrow> socket_packet list \<Rightarrow> (net_context, unit, 'e) action" where
  "udp_send_packets N ps c =
     (if ps = [] then (Ok (), c)
      else case udp_out c of
          None \<Rightarrow> (Panic, c)
        | Some out \<Rightarrow> (case udp_forward N out ps of
              None \<Rightarrow> (Panic, c\<lparr>udp_out := None\<rparr>)
            | Some out' \<Rightarrow> (Ok (), c\<lparr>udp_out := Some out'\<rparr>)))"

text \<open>
  A slot of \<open>broadcast_receivers\<close> says whether a receiver is registered; what it does with a broadcast
  is an argument (\<open>None\<close> is a panic of the receiver). The slot is empty while the receiver runs, so a
  panic leaves it empty.
\<close>

definition handle_broadcast ::
  "'s net_ext \<Rightarrow> time \<Rightarrow> u256 \<Rightarrow> u8 \<Rightarrow> bin \<Rightarrow> (net_context, bool, 'e) action" where
  "handle_broadcast N now_local network_id i pl c =
     (let incoming_hash = hash_bytes (core_ext N) pl in
       if hm_get (received_broadcasts c) incoming_hash \<noteq> None then (Ok False, c)
       else if broadcast_receivers c ! unat i then
         let c = c\<lparr>broadcast_receivers := (broadcast_receivers c)[unat i := False],
                   received_broadcasts := hm_insert incoming_hash now_local (received_broadcasts c)\<rparr>
         in case receiver_answer N i network_id pl of
              Some r \<Rightarrow> (Ok r, c\<lparr>broadcast_receivers := (broadcast_receivers c)[unat i := True]\<rparr>)
            | None \<Rightarrow> (Panic, c)
       else (Ok False, c))"

definition register_broadcast_receiver :: "u8 \<Rightarrow> net_context \<Rightarrow> net_context" where
  "register_broadcast_receiver i c =
     c\<lparr>broadcast_receivers := (broadcast_receivers c)[unat i := True]\<rparr>"

end
