(* ===== verification/Session.thy ===== *)
theory Session
  imports Protocol
begin

text \<open>
  \<open>core/src/network/session.rs\<close> and \<open>Packet::handle\<close> of \<open>core/src/network/protocol.rs\<close>: one
  connection to a peer. The state of a method is the session together with the context, into
  which the session sends packets and spawns tasks.

  Clock readings are arguments. The latency is a weighted average computed in floating point;
  its weights are the exactly representable 40 and -39 (\<open>1 / (1 / PING_RETENTION)\<close> and one minus
  that), so on integers below \<open>2 ^ 53\<close> the integer expression below is what the code computes,
  and the only value it is ever applied to is 0.
\<close>

section \<open>State\<close>

record session =
  sess_done :: "bye_reason option"
  sess_network_id :: u256
  remote_peer :: node
  remote_port :: u8
  local_port :: u8
  remote_addr :: sock_addr
  sink :: "packet list option"
  established_since :: time
  latency :: time
  last_ping_send :: "time option"
  current_job :: "(network_job \<times> u32 \<times> time) option"
  current_seq :: u32
  strikes :: u32
  abuses :: u32
  sess_rc :: nat

record session_info =
  info_network_id :: u256
  info_peer :: node
  info_latency :: time
  info_established_since :: time

type_synonym 'a sess_action = "(session \<times> net_context, 'a, io_error) action"

definition session_new ::
  "time \<Rightarrow> u8 \<Rightarrow> node \<Rightarrow> sock_addr \<Rightarrow> u256 \<Rightarrow> packet list option \<Rightarrow> net_context \<Rightarrow> session \<times> net_context" where
  "session_new now lport peer addr network_id strm c =
     (\<lparr>sess_done = None, sess_network_id = network_id, remote_peer = peer, remote_port = 255,
       local_port = lport, remote_addr = addr, sink = strm, established_since = now,
       latency = from_milliseconds 0, last_ping_send = None, current_job = None, current_seq = 0,
       strikes = 0, abuses = 0, sess_rc = next_rc c\<rparr>, c\<lparr>next_rc := next_rc c + 1\<rparr>)"

definition is_introduced :: "session \<Rightarrow> bool" where
  "is_introduced self \<longleftrightarrow> remote_port self \<noteq> 255"

definition is_done :: "session \<Rightarrow> bye_reason option" where
  "is_done self = sess_done self"

definition get_info :: "session \<Rightarrow> session_info" where
  "get_info self =
     \<lparr>info_network_id = sess_network_id self, info_peer = remote_peer self,
      info_latency = latency self, info_established_since = established_since self\<rparr>"

section \<open>Sending\<close>

definition on_session :: "(session \<Rightarrow> session) \<Rightarrow> unit sess_action" where
  "on_session f = (\<lambda>(s, c). (Ok (), (f s, c)))"

definition on_context :: "(net_context, 'a, io_error) action \<Rightarrow> 'a sess_action" where
  "on_context m = (\<lambda>(s, c). case m c of (r, c') \<Rightarrow> (r, (s, c')))"

definition send_udp :: "'s net_ext \<Rightarrow> packet \<Rightarrow> unit sess_action" where
  "send_udp N pl = (\<lambda>(s, c).
     on_context (udp_send_packets N [(remote_addr s, \<lparr>raw_port = remote_port s, payload = pl\<rparr>)]) (s, c))"

text \<open>\<open>send\<close> and \<open>close\<close> over a way to send a packet.\<close>

definition send_via :: "(packet \<Rightarrow> unit sess_action) \<Rightarrow> 's net_ext \<Rightarrow> message \<Rightarrow> bool \<Rightarrow> u32 sess_action" where
  "send_via out N m with_sig = (\<lambda>(s, c).
     let n = current_seq s; pl = packet_new n m;
         pl = (if with_sig then apply_sig N pl (private_key (config c)) else pl)
     in bind_st (out pl) (\<lambda>_. return_st n) (s\<lparr>current_seq := n + 1\<rparr>, c))"

definition close_via :: "(packet \<Rightarrow> unit sess_action) \<Rightarrow> 's net_ext \<Rightarrow> unit sess_action" where
  "close_via out N =
     bind_st (send_via out N (Bye Exit) False) (\<lambda>_. on_session (\<lambda>s. s\<lparr>sess_done := Some Exit\<rparr>))"

text \<open>
  A session over TCP writes to its stream; when the stream is broken the session is closed, and
  because the stream is gone by then its farewell leaves as a datagram.
\<close>

definition send_packet :: "'s net_ext \<Rightarrow> packet \<Rightarrow> unit sess_action" where
  "send_packet N pl = (\<lambda>(s, c).
     case sink s of
       Some strm \<Rightarrow>
         if tcp_accepts N strm pl then (Ok (), (s\<lparr>sink := Some (strm @ [pl])\<rparr>, c))
         else close_via (send_udp N) N (s\<lparr>sink := None\<rparr>, c)
     | None \<Rightarrow> send_udp N pl (s, c))"

definition send :: "'s net_ext \<Rightarrow> message \<Rightarrow> bool \<Rightarrow> u32 sess_action" where
  "send N = send_via (send_packet N) N"

definition close :: "'s net_ext \<Rightarrow> unit sess_action" where
  "close N = close_via (send_packet N) N"

definition send_reply :: "'s net_ext \<Rightarrow> message \<Rightarrow> u32 \<Rightarrow> bool \<Rightarrow> unit sess_action" where
  "send_reply N m n with_sig = (\<lambda>(s, c).
     let pl = packet_new n m; pl = (if with_sig then apply_sig N pl (private_key (config c)) else pl)
     in send_packet N pl (s, c))"

definition introduction :: "session \<times> net_context \<Rightarrow> message" where
  "introduction = (\<lambda>(s, c). Introduce (sess_network_id s) (my_node c) (local_port s))"

definition send_introduce :: "'s net_ext \<Rightarrow> unit sess_action" where
  "send_introduce N = (\<lambda>sc. bind_st (send N (introduction sc) True) (\<lambda>_. return_st ()) sc)"

section \<open>Introductions\<close>

definition take_introduction :: "node \<Rightarrow> u8 \<Rightarrow> unit sess_action" where
  "take_introduction nd p = (\<lambda>(s, c).
     let s1 = s\<lparr>remote_peer := nd, remote_port := p, strikes := 0\<rparr>;
         s2 = (if length (key nd) \<noteq> length (key (my_node c)) then s1\<lparr>sess_done := Some ExitPermanent\<rparr> else s1);
         s3 = (if key nd = key (my_node c) then s2\<lparr>sess_done := Some ExitPermanent\<rparr> else s2)
     in (Ok (), (s3, c)))"

definition handle_introduce :: "'s net_ext \<Rightarrow> packet \<Rightarrow> sock_addr \<Rightarrow> unit sess_action" where
  "handle_introduce N p new_addr = (\<lambda>(s, c).
     case msg p of
       Introduce _ nd pt \<Rightarrow>
         if pt = 255 then (Ok (), (s, c))
         else if is_introduced s
         then bind_st (read_st (\<lambda>_. check_sig N p (remote_peer s)))
           (\<lambda>valid. if \<not> valid then return_st ()
              else bind_st (on_session (\<lambda>s. s\<lparr>remote_addr := new_addr\<rparr>)) (\<lambda>_. take_introduction nd pt)) (s, c)
         else bind_st (take_introduction nd pt) (\<lambda>_. send_introduce N) (s, c)
     | _ \<Rightarrow> (Panic, (s, c)))"

section \<open>Pings, strikes and abuses\<close>

definition apply_ping_weight :: "time \<Rightarrow> time \<Rightarrow> time" where
  "apply_ping_weight l weight = word_of_int (PING_RETENTION * sint weight + (1 - PING_RETENTION) * sint l)"

definition recv_ping :: "time \<Rightarrow> session \<Rightarrow> session" where
  "recv_ping t s =
     (case last_ping_send s of
        Some lps \<Rightarrow>
          (if lps = t then s\<lparr>latency := apply_ping_weight (latency s) (time_diff lps t)\<rparr> else s)
            \<lparr>last_ping_send := None, strikes := 0\<rparr>
      | None \<Rightarrow> s)"

text \<open>The clock is read once for the age of the last ping and once for the new one.\<close>

definition check_conn :: "'s net_ext \<Rightarrow> time \<Rightarrow> time \<Rightarrow> unit sess_action" where
  "check_conn N now now' = (\<lambda>(s, c).
     if sess_done s \<noteq> None then (Ok (), (s, c))
     else if \<not> is_introduced s
     then bind_st (send N (introduction (s, c)) False)
       (\<lambda>_. on_session (\<lambda>s. let n = strikes s + 1; s = s\<lparr>strikes := n\<rparr>
          in if ucast TIMEOUT_TOLERANCE < n then s\<lparr>sess_done := Some Timeout\<rparr> else s)) (s, c)
     else let s1 = (case last_ping_send s of
                 Some lps \<Rightarrow> if time_less PING_TIMEOUT (time_diff lps now) then s\<lparr>strikes := strikes s + 1\<rparr> else s
               | None \<Rightarrow> s)
       in if ucast TIMEOUT_TOLERANCE < strikes s1 then (Ok (), (s1\<lparr>sess_done := Some Timeout\<rparr>, c))
          else bind_st (send N (Ping now') False)
            (\<lambda>_. on_session (\<lambda>s. s\<lparr>last_ping_send := Some now'\<rparr>)) (s1, c))"

definition mark_abuse :: "'s net_ext \<Rightarrow> unit sess_action" where
  "mark_abuse N =
     bind_st (on_session (\<lambda>s. s\<lparr>abuses := abuses s + 1\<rparr>))
       (\<lambda>_ (s, c). if ucast MAX_ABUSES < abuses s
          then bind_st (send N (Bye Abuse) False) (\<lambda>_. on_session (\<lambda>s. s\<lparr>sess_done := Some Abuse\<rparr>)) (s, c)
          else (Ok (), (s, c)))"

section \<open>Jobs of a session\<close>

definition check_job :: "time \<Rightarrow> session \<Rightarrow> network_job option \<times> session" where
  "check_job now_local s =
     (case current_job s of
        Some (job, n, t) \<Rightarrow>
          if time_less (from_milliseconds JOB_TIMEOUT) (time_diff t now_local)
          then (Some job, s\<lparr>current_job := None\<rparr>)
          else (None, s)
      | None \<Rightarrow> (None, s))"

definition sess_assign_job :: "'s net_ext \<Rightarrow> time \<Rightarrow> network_job \<Rightarrow> bool sess_action" where
  "sess_assign_job N now_local job = (\<lambda>(s, c).
     if \<not> is_introduced s then (Ok False, (s, c))
     else bind_st (send N (make_req (core_ext N) job) False)
       (\<lambda>n (s, c). if current_job s \<noteq> None then (Ok False, (s, c))
          else case job_clone job (active_syncs c) of
            (j, active) \<Rightarrow> (Ok True, (s\<lparr>current_job := Some (j, n, now_local)\<rparr>, c\<lparr>active_syncs := active\<rparr>)))
       (s, c))"

definition update_job :: "'s ext \<Rightarrow> network_job \<Rightarrow> session \<Rightarrow> bool \<times> session" where
  "update_job X job s =
     (case current_job s of
        Some (j, n, t) \<Rightarrow> (case augment X j job of (b, j') \<Rightarrow> (b, s\<lparr>current_job := Some (j', n, t)\<rparr>))
      | None \<Rightarrow> (False, s))"

section \<open>Packets\<close>

definition spawn_st :: "task \<Rightarrow> unit sess_action" where
  "spawn_st t = on_context (\<lambda>c. (Ok (), spawn t c))"

text \<open>\<open>handle\<close>, with the information on the sessions of the shard that \<open>FindNodes\<close> asks for.\<close>

definition reaction :: "'s net_ext \<Rightarrow> time \<Rightarrow> session_info list \<Rightarrow> packet \<Rightarrow> session \<Rightarrow> unit sess_action" where
  "reaction N now_local infos p s =
     (case msg p of
        Introduce _ _ _ \<Rightarrow>
          bind_st (read_st (\<lambda>_. check_sig N p (remote_peer s)))
            (\<lambda>valid. if \<not> valid then close N else send_introduce N)
      | Ping t \<Rightarrow> send_reply N (Pong t) (seq p) False
      | Pong t \<Rightarrow> on_session (recv_ping t)
      | FindNodes network_id skip \<Rightarrow>
          send_reply N
            (NodeList (filter (\<lambda>n. n \<noteq> remote_peer s)
               (map info_peer (take NODE_RESPONSE_SIZE (drop (unat skip) infos)))) network_id skip) (seq p) False
      | NewTransaction t \<Rightarrow> spawn_st (TxnTask t)
      | NewBlockMsg b \<Rightarrow> spawn_st (BlockTask b (sess_network_id s))
      | Broadcast i pl \<Rightarrow>
          bind_st (on_context (handle_broadcast N now_local (sess_network_id s) i pl))
            (\<lambda>taken. if \<not> taken then mark_abuse N else return_st ())
      | SyncBlocks lbh tbh \<Rightarrow> spawn_st (SyncTask lbh tbh (sess_rc s) (seq p))
      | QueryData hashes \<Rightarrow> spawn_st (QueryTask hashes (sess_rc s) (seq p))
      | SpotChainData _ _ \<Rightarrow> return_st ()
      | ChainData to raw_pkg \<Rightarrow> spawn_st (ImportTask to raw_pkg)
      | DataError e \<Rightarrow> (case e of HashesNotFound _ \<Rightarrow> (\<lambda>sc. (Panic, sc)) | _ \<Rightarrow> return_st ())
      | Bye _ \<Rightarrow> close N
      | NodeList _ _ _ \<Rightarrow> return_st ())"

text \<open>Only a \<open>NodeList\<close> is not handled here.\<close>

definition handle :: "'s net_ext \<Rightarrow> time \<Rightarrow> session_info list \<Rightarrow> packet \<Rightarrow> unit option sess_action" where
  "handle N now_local infos p = (\<lambda>(s, c).
     bind_st (reaction N now_local infos p s)
       (\<lambda>_. return_st (case msg p of NodeList _ _ _ \<Rightarrow> None | _ \<Rightarrow> Some ())) (s, c))"

definition recv :: "'s net_ext \<Rightarrow> time \<Rightarrow> session_info list \<Rightarrow> packet \<Rightarrow> network_job option sess_action" where
  "recv N now_local infos p = (\<lambda>(s, c).
     if sess_done s \<noteq> None then (Ok None, (s, c))
     else if \<not> is_introduced s
     then (case msg p of
         Introduce _ _ _ \<Rightarrow> (Panic, (s, c))
       | _ \<Rightarrow> (Ok None, (s\<lparr>sess_done := Some Exit\<rparr>, c)))
     else bind_st (handle N now_local infos p)
       (\<lambda>_ (s, c). case current_job s of
            Some (job, n, t) \<Rightarrow>
              if n = seq p then (Ok (Some job), (s\<lparr>current_job := None\<rparr>, c)) else (Ok None, (s, c))
          | None \<Rightarrow> (Ok None, (s, c))) (s, c))"

end
