(* ===== verification/Shard.thy ===== *)
theory Shard
  imports Session
begin

text \<open>
  \<open>core/src/network/shard.rs\<close>: the sessions of one attached network, its node repository and the
  broadcasts it could not send yet. The state of a method is the shard together with the context.

  The random choices are arguments: the session that \<open>node_scan\<close> samples and the orders in which
  \<open>assign_job\<close> tries the sessions. The clock readings are arguments, for \<open>check_sessions\<close> one set
  of readings per session. A session that leaves the map drops its job.
\<close>

section \<open>State\<close>

datatype shard_mode = Primary | Auxillery | QueryOnly

record shard_info =
  sh_network_id :: u256
  sh_port :: u8
  sh_mode :: shard_mode
  sessions :: "(sock_addr, session) hash_map"
  peer_ids :: "u160 list"
  last_peer_idx :: usize
  node_repo :: node_repository
  unsent_broadcasts :: "message list"

type_synonym 'a shard_action = "(shard_info \<times> net_context, 'a, io_error) action"

definition shard_new :: "u256 \<Rightarrow> u8 \<Rightarrow> shard_mode \<Rightarrow> node_repository \<Rightarrow> shard_info" where
  "shard_new network_id p mode repo =
     \<lparr>sh_network_id = network_id, sh_port = p, sh_mode = mode, sessions = [], peer_ids = [],
      last_peer_idx = 0, node_repo = repo, unsent_broadcasts = []\<rparr>"

definition with_session :: "sock_addr \<Rightarrow> 'a sess_action \<Rightarrow> 'a shard_action" where
  "with_session a m = (\<lambda>(sh, c).
     case hm_get (sessions sh) a of
       None \<Rightarrow> (Panic, (sh, c))
     | Some s \<Rightarrow> (case m (s, c) of
         (r, (s', c')) \<Rightarrow> (r, (sh\<lparr>sessions := hm_insert a s' (sessions sh)\<rparr>, c'))))"

definition on_shard :: "(shard_info \<Rightarrow> shard_info) \<Rightarrow> unit shard_action" where
  "on_shard f = (\<lambda>(sh, c). (Ok (), (f sh, c)))"

definition shard_spawn :: "task \<Rightarrow> unit shard_action" where
  "shard_spawn t = (\<lambda>(sh, c). (Ok (), (sh, spawn t c)))"

text \<open>Dropping a session drops the job it holds.\<close>

definition session_drop :: "session option \<Rightarrow> net_context \<Rightarrow> net_context" where
  "session_drop s c =
     (case s of
        Some s \<Rightarrow> (case current_job s of
            Some (j, _, _) \<Rightarrow> c\<lparr>active_syncs := job_drop j (active_syncs c)\<rparr>
          | None \<Rightarrow> c)
      | None \<Rightarrow> c)"

definition drop_job :: "network_job \<Rightarrow> net_context \<Rightarrow> net_context" where
  "drop_job j c = c\<lparr>active_syncs := job_drop j (active_syncs c)\<rparr>"

definition insert_session :: "sock_addr \<Rightarrow> session \<Rightarrow> unit shard_action" where
  "insert_session a s = (\<lambda>(sh, c).
     (Ok (), (sh\<lparr>sessions := hm_insert a s (sessions sh)\<rparr>, session_drop (hm_get (sessions sh) a) c)))"

section \<open>Jobs\<close>

fun try_assign :: "'s net_ext \<Rightarrow> time \<Rightarrow> network_job \<Rightarrow> sock_addr list \<Rightarrow> bool shard_action" where
  "try_assign N now_local job [] = return_st False"
| "try_assign N now_local job (a # as) =
     bind_st (with_session a (sess_assign_job N now_local job))
       (\<lambda>taken. if taken then return_st True else try_assign N now_local job as)"

text \<open>\<open>assign_job\<close> owns the job, so the job is dropped at its end; the sessions hold clones.\<close>

definition assign_job ::
  "'s net_ext \<Rightarrow> time \<Rightarrow> (sock_addr list \<Rightarrow> sock_addr list) \<Rightarrow> network_job \<Rightarrow> bool shard_action" where
  "assign_job N now_local shuffle job = (\<lambda>(sh, c).
     bind_st (try_assign N now_local job (shuffle (map fst (sessions sh))))
       (\<lambda>taken (sh, c). (Ok taken, (sh, drop_job job c))) (sh, c))"

section \<open>Opening sessions\<close>

definition open_session ::
  "'s ext \<Rightarrow> shard_info \<Rightarrow> node \<Rightarrow> packet list option \<Rightarrow> bool \<Rightarrow> (connection, io_error) result" where
  "open_session X self peer strm introduce =
     (if \<exists>s \<in> snd ` set (sessions self). endpoint (remote_peer s) = endpoint peer
      then Err (IoError ''AlreadyExists'' ''Already connected on same network_id'')
      else let hid = get_hash_id X peer in
        if hid \<noteq> U160_ZERO \<and> (\<exists>s \<in> snd ` set (sessions self). get_hash_id X (remote_peer s) = hid)
        then Err (IoError ''AlreadyExists'' ''Same peer id connected on same network_id'')
        else Ok \<lparr>con_peer = peer, con_stream = strm, con_introduce = introduce,
                 con_network = sh_network_id self, con_port = sh_port self\<rparr>)"

function scan_loop ::
  "'s ext \<Rightarrow> node \<Rightarrow> u160 list \<Rightarrow> node_repository \<Rightarrow> nat \<Rightarrow> nat \<Rightarrow> usize \<Rightarrow> node list \<Rightarrow> nat \<Rightarrow>
   (usize \<times> node list, io_error) result" where
  "scan_loop X me ids repo cur_count wanted idx queue attempts =
     (if cur_count + length queue < wanted
      then and_then (repo_get_nodes repo idx)
        (\<lambda>peer.
           let queue' = (if get_hash_id X peer \<notin> set ids \<and> get_hash_id X peer \<noteq> get_hash_id X me
                         then queue @ [peer] else queue);
               attempts' = attempts + 1
           in if wanted * 3 \<le> attempts' \<or> repo_len repo \<le> attempts' then Ok (idx + 1, queue')
              else scan_loop X me ids repo cur_count wanted (idx + 1) queue' attempts')
      else Ok (idx, queue))"
  by pat_completeness auto
termination by (relation "measure (\<lambda>(X, me, ids, repo, cur, wanted, idx, queue, attempts). repo_len repo - attempts)") auto

declare scan_loop.simps [simp del]

definition node_scan :: "'s net_ext \<Rightarrow> time \<Rightarrow> (sock_addr list \<Rightarrow> sock_addr) \<Rightarrow> nat \<Rightarrow> nat shard_action" where
  "node_scan N now_local sample wanted = (\<lambda>(sh, c).
     let cur_count = length (sessions sh) in
     if wanted \<le> cur_count then (Ok cur_count, (sh, c))
     else bind_st
       (if sessions sh \<noteq> []
        then bind_st (with_session (sample (map fst (sessions sh))) (sess_assign_job N now_local
               (fst (job_new (FindNodesJob (sh_network_id sh)) 0)))) (\<lambda>_. return_st ())
        else return_st ())
       (\<lambda>_. bind_st (read_st (\<lambda>(sh, c).
            if 0 < repo_len (node_repo sh)
            then scan_loop (core_ext N) (my_node c) (peer_ids sh) (node_repo sh) cur_count wanted (last_peer_idx sh) [] 0
            else Ok (last_peer_idx sh, [])))
         (\<lambda>(idx, queue). bind_st (on_shard (\<lambda>sh. sh\<lparr>last_peer_idx := idx\<rparr>))
           (\<lambda>_. bind_st (for_st (\<lambda>peer (sh, c).
                  shard_spawn (OpenTask (open_session (core_ext N) sh peer None True) (AfterScan peer (sh_network_id sh))) (sh, c)) queue)
             (\<lambda>_. read_st (\<lambda>(sh, _). Ok (length (sessions sh))))))) (sh, c))"

section \<open>Checking sessions\<close>

text \<open>A job that timed out gets one more try on another session, up to the limit.\<close>

definition retry_job :: "network_job option \<Rightarrow> network_job list \<Rightarrow> network_job list shard_action" where
  "retry_job j jobs = (\<lambda>(sh, c).
     case j of
       None \<Rightarrow> (Ok jobs, (sh, c))
     | Some j \<Rightarrow>
         let j' = j\<lparr>try_count := try_count j + 1\<rparr> in
         if MAX_JOB_RETRIES < try_count j' then (Ok jobs, (sh, drop_job j' c))
         else (Ok (jobs @ [j']), (sh, c)))"

definition session_outcome :: "'s ext \<Rightarrow> sock_addr \<Rightarrow> session \<Rightarrow> sock_addr list \<Rightarrow> sock_addr list shard_action" where
  "session_outcome X a s removed = (\<lambda>(sh, c).
     case is_done s of
       Some d \<Rightarrow>
         (Ok (removed @ [a]),
          (if d = ExitPermanent \<or> d = Abuse
           then sh\<lparr>node_repo := repo_remove (get_hash_id X (remote_peer s)) (node_repo sh)\<rparr> else sh, c))
     | None \<Rightarrow> (Ok removed, (sh\<lparr>peer_ids := snd (hs_insert (get_hash_id X (remote_peer s)) (peer_ids sh))\<rparr>, c)))"

definition meet_peer :: "'s ext \<Rightarrow> session \<Rightarrow> shard_info \<Rightarrow> shard_info" where
  "meet_peer X s sh =
     (if is_introduced s \<and> repo_get (node_repo sh) (get_hash_id X (remote_peer s)) = None
      then sh\<lparr>node_repo := repo_new_node X (remote_peer s) (node_repo sh)\<rparr> else sh)"

definition check_session ::
  "'s net_ext \<Rightarrow> (sock_addr \<Rightarrow> time \<times> time \<times> time) \<Rightarrow> sock_addr \<Rightarrow>
   sock_addr list \<times> network_job list \<Rightarrow> (sock_addr list \<times> network_job list) shard_action" where
  "check_session N clock a = (\<lambda>(removed, jobs). case clock a of (now, now', now_local) \<Rightarrow>
     bind_st (with_session a (bind_st (check_conn N now now')
         (\<lambda>_ (s, c). case check_job now_local s of (j, s') \<Rightarrow> (Ok (j, s'), (s', c)))))
       (\<lambda>(j, s). bind_st (retry_job j jobs)
         (\<lambda>jobs. bind_st (session_outcome (core_ext N) a s removed)
           (\<lambda>removed. bind_st (on_shard (meet_peer (core_ext N) s))
             (\<lambda>_. return_st (removed, jobs))))))"

definition remove_session :: "sock_addr \<Rightarrow> unit shard_action" where
  "remove_session a = (\<lambda>(sh, c).
     case hm_get (sessions sh) a of
       None \<Rightarrow> (Panic, (sh, c))
     | Some s \<Rightarrow> (Ok (), (sh\<lparr>sessions := hm_remove a (sessions sh)\<rparr>, session_drop (Some s) c)))"

definition check_sessions ::
  "'s net_ext \<Rightarrow> (sock_addr \<Rightarrow> time \<times> time \<times> time) \<Rightarrow> time \<Rightarrow>
   (nat \<Rightarrow> sock_addr list \<Rightarrow> sock_addr list) \<Rightarrow> unit shard_action" where
  "check_sessions N clock now_local shuffle = (\<lambda>(sh, c).
     bind_st (on_shard (\<lambda>sh. sh\<lparr>peer_ids := []\<rparr>))
       (\<lambda>_. bind_st (fold_st (check_session N clock) (map fst (sessions sh)) ([], []))
         (\<lambda>(removed, jobs). bind_st (for_st remove_session removed)
           (\<lambda>_. for_st (\<lambda>(i, job). bind_st (assign_job N now_local (shuffle i) job) (\<lambda>_. return_st ()))
              (enumerate 0 jobs)))) (sh, c))"

section \<open>Packets\<close>

definition find_session :: "'s ext \<Rightarrow> shard_info \<Rightarrow> sock_addr \<Rightarrow> u160 \<Rightarrow> sock_addr option" where
  "find_session X sh a hid =
     (if hm_get (sessions sh) a \<noteq> None then Some a
      else map_option fst (List.find (\<lambda>(_, s). get_hash_id X (remote_peer s) = hid) (sessions sh)))"

text \<open>
  An \<open>Introduce\<close> takes the session out of the map, handles the packet, sends the broadcasts
  that are waiting, and files the session under its remote address with a new reference count.
\<close>

definition process_introduce :: "'s net_ext \<Rightarrow> packet \<Rightarrow> sock_addr \<Rightarrow> node \<Rightarrow> unit shard_action" where
  "process_introduce N p a nd = (\<lambda>(sh, c).
     case find_session (core_ext N) sh a (get_hash_id (core_ext N) nd) of
       None \<Rightarrow> (Ok (), (sh, c))
     | Some sa \<Rightarrow>
         (case hm_get (sessions sh) sa of
            None \<Rightarrow> (Panic, (sh, c))
          | Some s \<Rightarrow>
              (case bind_st (handle_introduce N p a)
                  (\<lambda>_. for_st (\<lambda>m. bind_st (send N m True) (\<lambda>_. return_st ())) (unsent_broadcasts sh)) (s, c) of
                 (r, (s', c')) \<Rightarrow>
                   bind_res (r, (sh\<lparr>sessions := hm_remove sa (sessions sh), unsent_broadcasts := []\<rparr>, c'))
                     (\<lambda>_ (sh, c). insert_session (remote_addr s') (s'\<lparr>sess_rc := next_rc c\<rparr>)
                        (sh, c\<lparr>next_rc := next_rc c + 1\<rparr>)))))"

definition get_session_info :: "shard_info \<Rightarrow> session_info list" where
  "get_session_info sh = map get_info (filter is_introduced (map snd (sessions sh)))"

definition recv_packet :: "'s net_ext \<Rightarrow> time \<Rightarrow> packet \<Rightarrow> sock_addr \<Rightarrow> network_job option shard_action" where
  "recv_packet N now_local p a = (\<lambda>(sh, c).
     if hm_get (sessions sh) a = None then (Ok None, (sh, c))
     else with_session a (recv N now_local (get_session_info sh) p) (sh, c))"

section \<open>Other methods\<close>

definition shard_close :: "'s net_ext \<Rightarrow> unit shard_action" where
  "shard_close N = (\<lambda>(sh, c). for_st (\<lambda>a. with_session a (close N)) (map fst (sessions sh)) (sh, c))"

definition flood_to :: "'s net_ext \<Rightarrow> message \<Rightarrow> unit sess_action" where
  "flood_to N m = (\<lambda>(s, c).
     if is_introduced s \<and> is_done s = None
     then bind_st (send N m True) (\<lambda>_. return_st ()) (s, c) else (Ok (), (s, c)))"

definition reliable_flood :: "'s net_ext \<Rightarrow> message \<Rightarrow> unit shard_action" where
  "reliable_flood N m = (\<lambda>(sh, c).
     if sessions sh = [] then (Ok (), (sh\<lparr>unsent_broadcasts := unsent_broadcasts sh @ [m]\<rparr>, c))
     else for_st (\<lambda>a. with_session a (flood_to N m)) (map fst (sessions sh)) (sh, c))"

definition get_session_count :: "shard_info \<Rightarrow> nat" where
  "get_session_count sh = length (filter is_introduced (map snd (sessions sh)))"

definition get_nodes_from_repo :: "shard_info \<Rightarrow> nat \<Rightarrow> nat \<Rightarrow> (node list, io_error) result" where
  "get_nodes_from_repo sh skip count =
     map_results (\<lambda>i. repo_get_nodes (node_repo sh) (of_nat (skip + i)))
       [skip ..< min (repo_len (node_repo sh)) (skip + count)]"

end
