(* ===== verification/Net_State.thy ===== *)
theory Net_State
  imports Database
begin

text \<open>
  The network state of \<open>core/src/record_keeper/database.rs\<close>: event buckets of the plots,
  generic values, validator stakes, and the application of a mutation (\<open>_mutate\<close>, which returns
  the contra mutation) and its undoing (\<open>_undo_mutate\<close>). The bucket methods panic on a \<open>DBState\<close>,
  which has its own way to add, remove and read events.
\<close>

subsection \<open>Event buckets\<close>

fun get_plot_event_bucket ::
    "'s ext \<Rightarrow> 's dbase \<Rightarrow> plot_id \<Rightarrow> u64 \<Rightarrow> (raw_events option, error) result" where
  "get_plot_event_bucket X (DatabaseImpl s h) plot_id tick =
     (case db_get X (DatabaseImpl s h) (Network (PlotE plot_id tick)) of
        Ok l \<Rightarrow> and_then (lift_de (de (events_codec X) l)) (\<lambda>evs. Ok (Some evs))
      | Err (NotFound k) \<Rightarrow> Ok None
      | Err e \<Rightarrow> Err e
      | Panic \<Rightarrow> Panic
      | Diverge \<Rightarrow> Diverge)"
| "get_plot_event_bucket X (DBState db d h) plot_id tick = Panic"

fun put_plot_event_bucket ::
    "'s ext \<Rightarrow> plot_id \<Rightarrow> u64 \<Rightarrow> raw_events \<Rightarrow> ('s, unit) db_action" where
  "put_plot_event_bucket X plot_id tick event_list (DatabaseImpl s h) =
     (let bucket = tick div PLOT_EVENT_BUCKET_SIZE
      in if \<forall>(t, _) \<in> set event_list. t div PLOT_EVENT_BUCKET_SIZE = bucket
         then db_put X (Network (PlotE plot_id tick)) (ser (events_codec X) event_list)
                (DatabaseImpl s h)
         else (Panic, DatabaseImpl s h))"
| "put_plot_event_bucket X plot_id tick event_list (DBState db d h) = (Panic, DBState db d h)"

lemma bucket_step_decreases:
  "\<not> tick < PLOT_EVENT_BUCKET_SIZE \<Longrightarrow> unat (tick - PLOT_EVENT_BUCKET_SIZE) < unat tick"
  unfolding PLOT_EVENT_BUCKET_SIZE_def
  by (simp add: unat_sub_if' word_less_nat_alt not_less)

text \<open>The loop of \<open>_init_event_buckets\<close>: the tick decreases by a bucket in each round.\<close>

function init_buckets_loop :: "'s ext \<Rightarrow> plot_id \<Rightarrow> u64 \<Rightarrow> ('s, unit) db_action" where
  "init_buckets_loop X plot_id tick db =
     (case get_plot_event_bucket X db plot_id tick of
        Ok (Some _) \<Rightarrow> (Ok (), db)
      | Ok None \<Rightarrow>
          (case put_plot_event_bucket X plot_id tick [] db of
             (Ok _, db') \<Rightarrow>
               if tick < PLOT_EVENT_BUCKET_SIZE then (Ok (), db')
               else init_buckets_loop X plot_id (tick - PLOT_EVENT_BUCKET_SIZE) db'
           | (Err e, db') \<Rightarrow> (Err e, db')
           | (Panic, db') \<Rightarrow> (Panic, db')
           | (Diverge, db') \<Rightarrow> (Diverge, db'))
      | Err e \<Rightarrow> (Err e, db)
      | Panic \<Rightarrow> (Panic, db)
      | Diverge \<Rightarrow> (Diverge, db))"
  by pat_completeness auto

termination
  by (relation "measure (\<lambda>(X, plot_id, tick, db). unat tick)") (simp_all add: bucket_step_decreases)

fun init_event_buckets :: "'s ext \<Rightarrow> plot_id \<Rightarrow> u64 \<Rightarrow> ('s, unit) db_action" where
  "init_event_buckets X plot_id before_tick (DatabaseImpl s h) =
     (if before_tick < PLOT_EVENT_BUCKET_SIZE then (Ok (), DatabaseImpl s h)
      else init_buckets_loop X plot_id (before_tick - PLOT_EVENT_BUCKET_SIZE) (DatabaseImpl s h))"
| "init_event_buckets X plot_id before_tick (DBState db d h) = (Panic, DBState db d h)"

declare init_buckets_loop.simps [simp del]

text \<open>\<open>BTreeMap::append\<close>: the entries of the second map win.\<close>

definition bt_append :: "('k::linorder, 'v) btree_map \<Rightarrow> ('k, 'v) btree_map \<Rightarrow> ('k, 'v) btree_map" where
  "bt_append m n = fold (\<lambda>(k, v). bt_insert k v) n m"

partial_function (option) plot_events_loop ::
    "'s ext \<Rightarrow> 's dbase \<Rightarrow> plot_id \<Rightarrow> u64 \<Rightarrow> raw_events \<Rightarrow> (raw_events, error) result option" where
  "plot_events_loop X db plot_id tick event_list =
     (case get_plot_event_bucket X db plot_id tick of
        Ok None \<Rightarrow> Some (Ok event_list)
      | Ok (Some evs) \<Rightarrow>
          plot_events_loop X db plot_id (tick + PLOT_EVENT_BUCKET_SIZE) (bt_append event_list evs)
      | Err e \<Rightarrow> Some (Err e) | Panic \<Rightarrow> Some Panic | Diverge \<Rightarrow> Some Diverge)"

definition ticks_from :: "u64 \<Rightarrow> raw_events \<Rightarrow> raw_events" where
  "ticks_from from_tick evs = filter (\<lambda>(t, _). from_tick \<le> t) evs"

fun get_plot_events ::
    "'s ext \<Rightarrow> 's dbase \<Rightarrow> plot_id \<Rightarrow> u64 \<Rightarrow> (raw_events, error) result" where
  "get_plot_events X (DatabaseImpl s h) plot_id from_tick =
     and_then (returns (plot_events_loop X (DatabaseImpl s h) plot_id from_tick []))
       (\<lambda>event_list. Ok (bt_split_off from_tick event_list))"
| "get_plot_events X (DBState db d h) plot_id from_tick =
     and_then (map_not_found (get_plot_events X db plot_id from_tick) [])
       (\<lambda>plot_events.
          let plot_events = (case get_removed_events d plot_id of
                Some removed_e \<Rightarrow> fold (\<lambda>(tick, l) evs. remove_events evs tick l)
                                    (ticks_from from_tick removed_e) plot_events
              | None \<Rightarrow> plot_events);
              plot_events = (case get_new_events d plot_id of
                Some new_e \<Rightarrow> fold (\<lambda>(tick, l) evs. add_events evs tick l)
                                (ticks_from from_tick new_e) plot_events
              | None \<Rightarrow> plot_events)
          in Ok plot_events)"

text \<open>The trait's \<open>_add_event\<close> on a \<open>DatabaseImpl\<close>, and the override of \<open>DBState\<close>.\<close>

fun db_add_event :: "'s ext \<Rightarrow> plot_id \<Rightarrow> u64 \<Rightarrow> raw_event \<Rightarrow> ('s, unit) db_action" where
  "db_add_event X plot_id tick event (DatabaseImpl s h) =
     bind_st (read_st (\<lambda>db. get_plot_event_bucket X db plot_id tick))
       (\<lambda>event_list. bind_st
          (if event_list = None then init_event_buckets X plot_id tick else return_st ())
          (\<lambda>_. let evs = (case event_list of Some evs \<Rightarrow> evs | None \<Rightarrow> [])
               in put_plot_event_bucket X plot_id tick (fst (add_event evs tick event))))
       (DatabaseImpl s h)"
| "db_add_event X plot_id tick event (DBState db d h) =
     (Ok (), DBState db (diff_add_event d plot_id tick event) h)"

fun db_remove_event :: "'s ext \<Rightarrow> plot_id \<Rightarrow> u64 \<Rightarrow> raw_event \<Rightarrow> ('s, unit) db_action" where
  "db_remove_event X plot_id tick event (DatabaseImpl s h) =
     bind_st (read_st (\<lambda>db. get_plot_event_bucket X db plot_id tick))
       (\<lambda>event_list. case event_list of
          Some evs \<Rightarrow> (let (evs', removed) = remove_event evs tick event
                       in if \<not> removed then return_st ()
                          else put_plot_event_bucket X plot_id tick evs')
        | None \<Rightarrow> return_st ())
       (DatabaseImpl s h)"
| "db_remove_event X plot_id tick event (DBState db d h) =
     (Ok (), DBState db (diff_remove_event d plot_id tick event) h)"

definition db_add_events :: "'s ext \<Rightarrow> plot_event \<Rightarrow> ('s, unit) db_action" where
  "db_add_events X e =
     bind_st (db_add_event X (pe_from e) (pe_tick e) (pe_event e))
       (\<lambda>_. for_st (\<lambda>plot. db_add_event X plot (pe_tick e) (pe_event e)) (pe_to e))"

definition db_remove_events :: "'s ext \<Rightarrow> plot_event \<Rightarrow> ('s, unit) db_action" where
  "db_remove_events X e =
     bind_st (db_remove_event X (pe_from e) (pe_tick e) (pe_event e))
       (\<lambda>_. for_st (\<lambda>plot. db_remove_event X plot (pe_tick e) (pe_event e)) (pe_to e))"

subsection \<open>Values and stakes\<close>

definition db_set_value :: "'s ext \<Rightarrow> bin \<Rightarrow> bin option \<Rightarrow> ('s, bin option) db_action" where
  "db_set_value X k value =
     (let k = Network (Generic k)
      in bind_st (read_st (\<lambda>db. map_not_found (and_then (db_get X db k) (\<lambda>v. Ok (Some v))) None))
        (\<lambda>prior. bind_st
           (case value of
              Some v \<Rightarrow> db_put X k v
            | None \<Rightarrow> if prior \<noteq> None then db_delete X k else return_st ())
           (\<lambda>_. return_st prior)))"

definition change_validator_stake :: "'s ext \<Rightarrow> u160 \<Rightarrow> i64 \<Rightarrow> ('s, unit) db_action" where
  "change_validator_stake X i amount =
     (let db_key = Network (ValidatorStake i)
      in bind_st (read_st (\<lambda>db. case db_get X db db_key of
             Ok v \<Rightarrow> lift_de (de_u64 v)
           | Err (NotFound _) \<Rightarrow> Ok 0
           | Err e \<Rightarrow> Err e | Panic \<Rightarrow> Panic | Diverge \<Rightarrow> Diverge))
        (\<lambda>value. let value' = (if 0 \<le> sint amount then value + amount else value - (- amount))
                 in db_put X db_key (write_le 8 value')))"

subsection \<open>Applying and undoing a mutation\<close>

text \<open>The body of \<open>_mutate\<close>'s loop: makes one change and returns the contra change.\<close>

fun mutate_change :: "'s ext \<Rightarrow> change \<Rightarrow> ('s, change) db_action" where
  "mutate_change X (Admin k value) =
     bind_st (db_set_value X k value) (\<lambda>prior. return_st (Admin k prior))"
| "mutate_change X (BlockReward i proof) =
     bind_st (change_validator_stake X i BLOCK_REWARD) (\<lambda>_. return_st (BlockReward i []))"
| "mutate_change X (PlotEventCh e) =
     bind_st (db_add_events X e) (\<lambda>_. return_st (PlotEventCh e))"
| "mutate_change X (NewValidator pub_key) =
     bind_st (db_put X (Network (ValidatorKey (hash_pub_key X pub_key))) pub_key)
       (\<lambda>_. return_st (NewValidator pub_key))"
| "mutate_change X (Slash i amount proof) =
     bind_st (change_validator_stake X i (- amount)) (\<lambda>_. return_st (Slash i amount []))"
| "mutate_change X (Transfer from to) =
     bind_st (fold_st (\<lambda>(recipient, amount) sum.
         bind_st (change_validator_stake X recipient amount) (\<lambda>_. return_st (sum + amount))) to 0)
       (\<lambda>sum. bind_st (change_validator_stake X from (- sum)) (\<lambda>_. return_st (Transfer from to)))"

definition db_mutate :: "'s ext \<Rightarrow> mutation \<Rightarrow> ('s, mutation) db_action" where
  "db_mutate X m =
     bind_st (read_st (\<lambda>_. assert_not_contra m))
       (\<lambda>_. bind_st (fold_st (\<lambda>ch acc. bind_st (mutate_change X ch) (\<lambda>c. return_st (acc @ [c])))
                       (changes m) [])
         (\<lambda>cs. return_st (mutation_new_contra\<lparr>changes := rev cs\<rparr>)))"

fun undo_change :: "'s ext \<Rightarrow> change \<Rightarrow> ('s, unit) db_action" where
  "undo_change X (Admin k value) = bind_st (db_set_value X k value) (\<lambda>_. return_st ())"
| "undo_change X (BlockReward i proof) = change_validator_stake X i (- BLOCK_REWARD)"
| "undo_change X (PlotEventCh e) = db_remove_events X e"
| "undo_change X (NewValidator pub_key) =
     bind_st (db_set_value X (as_bin (Network (ValidatorKey (hash_pub_key X pub_key)))) None)
       (\<lambda>_. return_st ())"
| "undo_change X (Slash i amount proof) = change_validator_stake X i amount"
| "undo_change X (Transfer from to) =
     bind_st (fold_st (\<lambda>(recipient, amount) sum.
         bind_st (change_validator_stake X recipient (- amount)) (\<lambda>_. return_st (sum + amount))) to 0)
       (\<lambda>sum. change_validator_stake X from sum)"

definition db_undo_mutate :: "'s ext \<Rightarrow> mutation \<Rightarrow> ('s, unit) db_action" where
  "db_undo_mutate X m =
     bind_st (read_st (\<lambda>_. assert_contra m)) (\<lambda>_. for_st (undo_change X) (changes m))"

end
