(* ===== verification/Rules.thy ===== *)
theory Rules
  imports Net_State
begin

text \<open>
  The validation rules of \<open>core/src/record_keeper/rules\<close>: rules for blocks, for single transactions
  and for all changes of a block taken together. A mutation rule of a game has state of its own
  (behind a lock in the code), so it is an action on that state; the scratch bytes that the rules
  of one check pass on are its argument and result.
\<close>

type_synonym signed_change = "change \<times> u160"

type_synonym ('s, 'g) mutation_rule = "'s dbase \<Rightarrow> signed_change list \<Rightarrow> bin \<Rightarrow> ('g, bin, error) action"

text \<open>\<open>DBState::get_obj\<close> at the type of an account: five little-endian words.\<close>

definition de_u160 :: "bin \<Rightarrow> (u160, string) result" where
  "de_u160 bs = (if 20 \<le> length bs then u160_from_little_endian (take 20 bs) else Err ''EndOfFileError'')"

definition get_obj :: "'s ext \<Rightarrow> 's dbase \<Rightarrow> key \<Rightarrow> (u160, error) result" where
  "get_obj X db k = and_then (db_get X db k) (\<lambda>raw. lift_de (de_u160 raw))"

fun plot_events_of :: "signed_change list \<Rightarrow> (plot_event \<times> u160) list" where
  "plot_events_of [] = []"
| "plot_events_of ((PlotEventCh pe, user) # m) = (pe, user) # plot_events_of m"
| "plot_events_of (_ # m) = plot_events_of m"

definition plot_events_rule_iter ::
  "(plot_event \<Rightarrow> u160 \<Rightarrow> 'a \<Rightarrow> ('a, error) result) \<Rightarrow> signed_change list \<Rightarrow> 'a \<Rightarrow> ('a, error) result" where
  "plot_events_rule_iter func m =
     for_each (\<lambda>(change, user) acc. case change of PlotEventCh pe \<Rightarrow> func pe user acc | _ \<Rightarrow> Ok acc) m"

section \<open>Block rules\<close>

definition time_stamp_is_valid :: "'s ext \<Rightarrow> time \<Rightarrow> 's dbase \<Rightarrow> block \<Rightarrow> (unit, error) result" where
  "time_stamp_is_valid X now prev_state blk =
     (if time_less now (timestamp (header blk)) then Err (Logic InvalidTime)
      else and_then (get_block_header X prev_state (prev (header blk)))
        (\<lambda>h. if time_less (timestamp (header blk)) (timestamp h) then Err (Logic InvalidTime) else Ok ()))"

definition merkle_root_is_valid :: "'s ext \<Rightarrow> block \<Rightarrow> (unit, error) result" where
  "merkle_root_is_valid X blk =
     (if merkle_root (header blk) = calculate_merkle_root X (txns blk) then Ok ()
      else Err (Logic InvalidMerkleRoot))"

section \<open>Transaction rules\<close>

definition signature_is_valid :: "'s ext \<Rightarrow> 's dbase \<Rightarrow> txn \<Rightarrow> (unit, error) result" where
  "signature_is_valid X state t =
     and_then
       (case get_validator_key X state (creator t) of
          Err (NotFound _) \<Rightarrow>
            (case changes (txn_mutation t) of
               [NewValidator pub_key] \<Rightarrow> Ok pub_key
             | _ \<Rightarrow> Err (Logic UnrecognizedCreator))
        | res \<Rightarrow> res)
       (\<lambda>der. and_then (lift_de (public_key_from_der X der))
         (\<lambda>k. and_then (verify_signature X t k)
           (\<lambda>good. if good then Ok () else Err (Logic InvalidSignature))))"

definition is_admin :: "change \<Rightarrow> bool" where
  "is_admin c = (case c of Admin _ _ \<Rightarrow> True | _ \<Rightarrow> False)"

definition admin_check_is_valid :: "'s ext \<Rightarrow> 's dbase \<Rightarrow> txn \<Rightarrow> (unit, error) result" where
  "admin_check_is_valid X state t =
     (if \<exists>c \<in> set (changes (txn_mutation t)). is_admin c
      then and_then (get_obj X state (Network AdminKeyID))
        (\<lambda>admin_key_id. if creator t = admin_key_id then Ok () else Err (Logic ExpectedAdmin))
      else Ok ())"

definition new_validator_is_valid :: "'s dbase \<Rightarrow> txn \<Rightarrow> (unit, error) result" where
  "new_validator_is_valid state t = Ok ()"

section \<open>Mutation rules\<close>

type_synonym plot_map = "(plot_id, raw_events) hash_map"

definition duplicated_within_txn :: "plot_map \<Rightarrow> plot_id \<Rightarrow> u64 \<Rightarrow> raw_event \<Rightarrow> bool" where
  "duplicated_within_txn events i tick event =
     (case hm_get events i of
        Some plot_events \<Rightarrow> (case bt_get plot_events tick of Some event_list \<Rightarrow> event \<in> set event_list | None \<Rightarrow> False)
      | None \<Rightarrow> False)"

definition duplicated_within_net ::
  "'s ext \<Rightarrow> 's dbase \<Rightarrow> plot_id \<Rightarrow> u64 \<Rightarrow> raw_event \<Rightarrow> (bool, error) result" where
  "duplicated_within_net X state i tick event =
     and_then (get_plot_events X state i tick)
       (\<lambda>plot_events. Ok (case bt_get plot_events tick of Some event_list \<Rightarrow> event \<in> set event_list | None \<Rightarrow> False))"

definition append_to_plot :: "plot_id \<Rightarrow> u64 \<Rightarrow> raw_event \<Rightarrow> plot_map \<Rightarrow> plot_map" where
  "append_to_plot i tick event events =
     (case hm_get events i of
        Some plot_events \<Rightarrow> hm_insert i (fst (add_event plot_events tick event)) events
      | None \<Rightarrow> hm_insert i (fst (add_event [] tick event)) events)"

definition refuse_if :: "bool \<Rightarrow> logic_error \<Rightarrow> (unit, error) result" where
  "refuse_if c e = (if c then Err (Logic e) else Ok ())"

fun duplicates_step ::
  "'s ext \<Rightarrow> 's dbase \<Rightarrow> signed_change \<Rightarrow> u160 list \<times> plot_map \<Rightarrow> (u160 list \<times> plot_map, error) result" where
  "duplicates_step X state (NewValidator pub_key, _) (validators, events) =
     (let hash = hash_pub_key X pub_key in
       if hash \<in> set validators then Err (Logic Duplicate)
       else (case get_validator_key X state hash of
           Ok _ \<Rightarrow> Err (Logic Duplicate)
         | Panic \<Rightarrow> Panic
         | Diverge \<Rightarrow> Diverge
         | Err _ \<Rightarrow> Ok (snd (hs_insert hash validators), events)))"
| "duplicates_step X state (PlotEventCh e, _) (validators, events) =
     and_then (refuse_if (duplicated_within_txn events (pe_from e) (pe_tick e) (pe_event e) \<or>
         (\<exists>i \<in> set (pe_to e). duplicated_within_txn events i (pe_tick e) (pe_event e))) Duplicate)
       (\<lambda>_. and_then (for_each
           (\<lambda>i _. and_then (duplicated_within_net X state i (pe_tick e) (pe_event e)) (\<lambda>d. refuse_if d Duplicate))
           (pe_from e # pe_to e) ())
         (\<lambda>_. Ok (validators,
            fold (\<lambda>i. append_to_plot i (pe_tick e) (pe_event e)) (pe_from e # pe_to e) events)))"
| "duplicates_step X state (_, _) acc = Ok acc"

definition duplicates_is_valid :: "'s ext \<Rightarrow> 's dbase \<Rightarrow> signed_change list \<Rightarrow> (unit, error) result" where
  "duplicates_is_valid X state m = and_then (for_each (duplicates_step X state) m ([], [])) (\<lambda>_. Ok ())"

text \<open>The rule on single transactions is the rule on mutations for the transaction's own changes.\<close>

definition txn_duplicates_is_valid :: "'s ext \<Rightarrow> 's dbase \<Rightarrow> txn \<Rightarrow> (unit, error) result" where
  "txn_duplicates_is_valid X state t =
     duplicates_is_valid X state (map (\<lambda>c. (c, creator t)) (changes (txn_mutation t)))"

definition plot_event_validate :: "plot_event \<Rightarrow> u160 \<Rightarrow> (unit, error) result" where
  "plot_event_validate e _ =
     (if pe_from e \<in> set (pe_to e)
      then Err (Logic (InvalidMutation ''PlotEvent changes must not include themselves in the recipient list.''))
      else Ok ())"

definition plot_event_is_valid :: "signed_change list \<Rightarrow> (unit, error) result" where
  "plot_event_is_valid m = plot_events_rule_iter (\<lambda>e u _. plot_event_validate e u) m ()"

definition checked_add :: "u64 \<Rightarrow> u64 \<Rightarrow> u64 option" where
  "checked_add a b = (if unat a + unat b < 2 ^ 64 then Some (a + b) else None)"

definition add_shares :: "u64 \<Rightarrow> u64 \<Rightarrow> (u64, error) result" where
  "add_shares a b =
     (case checked_add a b of Some s \<Rightarrow> Ok s | None \<Rightarrow> Err (Logic (InvalidMutation ''Overflowing addition'')))"

fun shares_step ::
  "'s ext \<Rightarrow> 's dbase \<Rightarrow> signed_change \<Rightarrow> (u160, u64) hash_map \<Rightarrow> ((u160, u64) hash_map, error) result" where
  "shares_step X state (Transfer from to, user) senders =
     and_then (if from = user then Ok ()
         else and_then (get_obj X state (Network AdminKeyID)) (\<lambda>a. refuse_if (from \<noteq> a) InvalidSigner))
       (\<lambda>_. and_then (for_each (\<lambda>(_, v) subtotal. add_shares subtotal v) to 0)
         (\<lambda>subtotal. and_then
            (add_shares subtotal (case hm_get senders from of Some b \<Rightarrow> b | None \<Rightarrow> 0))
            (\<lambda>new_subtotal. Ok (hm_insert from new_subtotal senders))))"
| "shares_step X state (_, _) senders = Ok senders"

definition shares_is_valid :: "'s ext \<Rightarrow> 's dbase \<Rightarrow> signed_change list \<Rightarrow> (unit, error) result" where
  "shares_is_valid X state m =
     and_then (for_each (shares_step X state) m [])
       (\<lambda>senders. for_each
          (\<lambda>(sender, amount) _. and_then (get_validator_stake X state sender)
             (\<lambda>stake. if stake < amount then Err (Logic NotEnoughShares)
                else refuse_if (2 ^ 63 - 1 < amount) (InvalidMutation ''Possible overflow due to large value.'')))
          senders ())"

section \<open>What the duplicate rules rule out\<close>

text \<open>The events a list of changes puts on plots, and the accounts it registers.\<close>

definition touched :: "plot_event \<Rightarrow> (plot_id \<times> u64 \<times> raw_event) list" where
  "touched e = map (\<lambda>i. (i, pe_tick e, pe_event e)) (pe_from e # pe_to e)"

fun all_touched :: "signed_change list \<Rightarrow> (plot_id \<times> u64 \<times> raw_event) list" where
  "all_touched [] = []"
| "all_touched ((PlotEventCh e, _) # m) = touched e @ all_touched m"
| "all_touched (_ # m) = all_touched m"

fun registered :: "'s ext \<Rightarrow> signed_change list \<Rightarrow> u160 list" where
  "registered X [] = []"
| "registered X ((NewValidator k, _) # m) = hash_pub_key X k # registered X m"
| "registered X (_ # m) = registered X m"

text \<open>The recipients of an event are a set of the code.\<close>

definition recipients_ok :: "signed_change list \<Rightarrow> bool" where
  "recipients_ok m \<longleftrightarrow> (\<forall>(e, _) \<in> set (plot_events_of m). distinct (pe_to e))"

lemma append_is_add: "append_to_plot i t e m = plots_add m i t e"
  by (simp add: append_to_plot_def plots_add_def)

lemma within_txn_iff: "duplicated_within_txn m i t e \<longleftrightarrow> (i, t, e) \<in> plots_set m"
  by (auto simp: duplicated_within_txn_def plots_set_def event_set_def split: option.splits)

lemma within_net_iff:
  "duplicated_within_net X st i t e = Ok d \<longleftrightarrow>
     (\<exists>evs. get_plot_events X st i t = Ok evs \<and> d = ((t, e) \<in> event_set evs))"
  by (auto simp: duplicated_within_net_def event_set_def result_simps split: option.splits)

lemma append_all_set:
  "plots_ok m \<Longrightarrow> plots_ok (fold (\<lambda>i. append_to_plot i t e) is m) \<and>
     plots_set (fold (\<lambda>i. append_to_plot i t e) is m) = (\<lambda>i. (i, t, e)) ` set is \<union> plots_set m"
proof (induction "is" arbitrary: m)
  case (Cons i "is")
  then show ?case using Cons.IH [of "plots_add m i t e"] by (auto simp: append_is_add)
qed simp

lemma refuse_if_Ok [result_simps]: "refuse_if c e = Ok u \<longleftrightarrow> \<not> c"
  by (simp add: refuse_if_def)

lemma for_each_checks:
  "for_each (\<lambda>x _. and_then (f x) (\<lambda>d. refuse_if d err)) xs () = Ok u \<longleftrightarrow> (\<forall>x \<in> set xs. f x = Ok False)"
  by (induction xs) (auto simp: result_simps)

lemma plot_event_valid_iff:
  "plot_event_is_valid m = Ok () \<longleftrightarrow> (\<forall>(e, _) \<in> set (plot_events_of m). pe_from e \<notin> set (pe_to e))"
  unfolding plot_event_is_valid_def plot_events_rule_iter_def
  by (induction m rule: plot_events_of.induct) (auto simp: result_simps plot_event_validate_def)

lemma duplicates_loop:
  assumes "for_each (duplicates_step X st) m (vs, evs) = Ok r" and "plots_ok evs"
    and "\<forall>(e, _) \<in> set (plot_events_of m). pe_from e \<notin> set (pe_to e)" and "recipients_ok m"
  shows "distinct (all_touched m) \<and> set (all_touched m) \<inter> plots_set evs = {} \<and>
    (\<forall>(i, t, e) \<in> set (all_touched m). \<exists>l. get_plot_events X st i t = Ok l \<and> (t, e) \<notin> event_set l) \<and>
    distinct (registered X m) \<and> set (registered X m) \<inter> set vs = {} \<and>
    (\<forall>v \<in> set (registered X m). \<exists>er. get_validator_key X st v = Err er)"
  using assms
proof (induction m arbitrary: vs evs)
  case (Cons sc m)
  obtain c u where sc: "sc = (c, u)" by (cases sc)
  obtain vs' evs' where step: "duplicates_step X st (c, u) (vs, evs) = Ok (vs', evs')"
    and rest: "for_each (duplicates_step X st) m (vs', evs') = Ok r"
    using Cons.prems(1) by (auto simp: sc result_simps)
  have pre: "\<forall>(e, _) \<in> set (plot_events_of m). pe_from e \<notin> set (pe_to e)" "recipients_ok m"
    using Cons.prems(3,4) by (cases c; auto simp: sc recipients_ok_def)+
  show ?case
  proof (cases c)
    case (PlotEventCh e)
    let ?is = "pe_from e # pe_to e"
    have fresh: "\<forall>i \<in> set ?is. (i, pe_tick e, pe_event e) \<notin> plots_set evs"
      "\<forall>i \<in> set ?is. \<exists>l. get_plot_events X st i (pe_tick e) = Ok l \<and> (pe_tick e, pe_event e) \<notin> event_set l"
      and new: "vs' = vs" "evs' = fold (\<lambda>i. append_to_plot i (pe_tick e) (pe_event e)) ?is evs"
      using step by (auto simp: PlotEventCh result_simps for_each_checks within_net_iff within_txn_iff
        simp del: for_each.simps split: if_splits)
    note ap = append_all_set [OF Cons.prems(2), of "pe_tick e" "pe_event e" ?is, folded new(2)]
    have tch: "distinct (touched e)" "set (touched e) = (\<lambda>i. (i, pe_tick e, pe_event e)) ` set ?is"
      using Cons.prems(3,4) by (auto simp: sc PlotEventCh recipients_ok_def touched_def distinct_map inj_on_def)
    show ?thesis
      using Cons.IH [OF rest _ pre] ap fresh tch by (auto simp: sc PlotEventCh new(1))
  next
    case (NewValidator k)
    have k: "hash_pub_key X k \<notin> set vs" "\<exists>er. get_validator_key X st (hash_pub_key X k) = Err er"
      "set vs' = insert (hash_pub_key X k) (set vs)" "evs' = evs"
      using step by (auto simp: NewValidator Let_def split: if_splits result.splits)
    then show ?thesis using Cons.IH [OF rest _ pre] Cons.prems(2) by (auto simp: sc NewValidator)
  qed (use Cons.IH [OF _ _ pre] step rest Cons.prems(2) in \<open>auto simp: sc\<close>)
qed simp

text \<open>
  C36: changes that pass both rules on events and registrations put every event at most once on each
  plot and tick, put none where the network state already has it, and register only accounts that
  are neither registered nor repeated.
\<close>

theorem duplicates_ruled_out:
  assumes "plot_event_is_valid m = Ok ()" "duplicates_is_valid X st m = Ok ()" "recipients_ok m"
  shows "distinct (all_touched m) \<and>
    (\<forall>(i, t, e) \<in> set (all_touched m). \<exists>l. get_plot_events X st i t = Ok l \<and> (t, e) \<notin> event_set l) \<and>
    distinct (registered X m) \<and> (\<forall>v \<in> set (registered X m). \<exists>er. get_validator_key X st v = Err er)"
  using duplicates_loop [of X st m "[]" "[]"] assms
  by (auto simp: duplicates_is_valid_def result_simps plot_event_valid_iff)

section \<open>What the rule on shares guarantees\<close>

text \<open>What an account sends in a list of changes, as a number without bound.\<close>

definition amount_sent :: "(u160, u64) hash_map \<Rightarrow> nat" where
  "amount_sent to = sum_list (map (\<lambda>(_, v). unat v) to)"

fun total_sent :: "u160 \<Rightarrow> signed_change list \<Rightarrow> nat" where
  "total_sent a [] = 0"
| "total_sent a ((Transfer from to, _) # m) = (if from = a then amount_sent to else 0) + total_sent a m"
| "total_sent a (_ # m) = total_sent a m"

fun senders_of :: "signed_change list \<Rightarrow> u160 set" where
  "senders_of [] = {}"
| "senders_of ((Transfer from to, _) # m) = insert from (senders_of m)"
| "senders_of (_ # m) = senders_of m"

lemma add_shares_Ok [result_simps]: "add_shares a b = Ok s \<longleftrightarrow> unat a + unat b < 2 ^ 64 \<and> s = a + b"
  by (auto simp: add_shares_def checked_add_def)

lemma unat_add_u64: "unat a + unat b < 2 ^ 64 \<Longrightarrow> unat (a + b :: u64) = unat a + unat b"
  by (simp add: unat_plus_if')

lemma subtotal_exact:
  "for_each (\<lambda>(_, v) subtotal. add_shares subtotal v) to acc = Ok s \<Longrightarrow> unat s = unat acc + amount_sent to"
  by (induction to arbitrary: acc) (fastforce simp: amount_sent_def result_simps unat_add_u64)+

definition balance :: "(u160, u64) hash_map \<Rightarrow> u160 \<Rightarrow> nat" where
  "balance senders a = (case hm_get senders a of Some b \<Rightarrow> unat b | None \<Rightarrow> 0)"

lemma shares_loop:
  assumes "for_each (shares_step X st) m senders = Ok r" "hm_ok senders"
  shows "hm_ok r \<and> fst ` set r = fst ` set senders \<union> senders_of m \<and>
    (\<forall>a. balance r a = balance senders a + total_sent a m)"
  using assms
proof (induction m arbitrary: senders)
  case (Cons sc m)
  obtain c u where sc: "sc = (c, u)" by (cases sc)
  obtain s1 where step: "shares_step X st (c, u) senders = Ok s1"
    and rest: "for_each (shares_step X st) m s1 = Ok r"
    using Cons.prems(1) by (auto simp: sc result_simps)
  show ?case
  proof (cases c)
    case (Transfer src dst)
    obtain b where b: "for_each (\<lambda>(_, v) subtotal. add_shares subtotal v) dst 0 = Ok b"
      "unat b + balance senders src < 2 ^ 64" "s1 = hm_insert src (b + of_nat (balance senders src)) senders"
      using step by (auto simp: Transfer result_simps balance_def split: option.splits if_splits)
    have "unat (b + of_nat (balance senders src)) = amount_sent dst + balance senders src"
      using subtotal_exact [OF b(1)] b(2) by (simp add: unat_add_u64 unat_of_nat_u64)
    then have "balance s1 a = balance senders a + (if src = a then amount_sent dst else 0)" for a
      by (auto simp: b(3) balance_def map_simps)
    moreover have "hm_ok s1" "fst ` set s1 = insert src (fst ` set senders)"
      using Cons.prems(2) by (simp_all add: b(3) distinct_update dom_update)
    ultimately show ?thesis using Cons.IH [OF rest] by (auto simp: sc Transfer)
  qed (use Cons.IH step rest Cons.prems(2) in \<open>auto simp: sc\<close>)
qed simp

text \<open>
  C38: when the rule on shares accepts a list of changes, every account that sends something has a
  stored stake that covers all it sends in the whole list, counted without overflow, and the sum
  fits the signed integers the balances are changed with.
\<close>

theorem shares_cover_transfers:
  assumes "shares_is_valid X st m = Ok ()" "a \<in> senders_of m"
  shows "\<exists>stake. get_validator_stake X st a = Ok stake \<and> total_sent a m \<le> unat stake \<and> total_sent a m < 2 ^ 63"
proof -
  obtain r where r: "for_each (shares_step X st) m [] = Ok r"
    "for_each (\<lambda>(sender, amount) _. and_then (get_validator_stake X st sender)
       (\<lambda>stake. if stake < amount then Err (Logic NotEnoughShares)
          else refuse_if (2 ^ 63 - 1 < amount) (InvalidMutation ''Possible overflow due to large value.'')))
      r () = Ok ()"
    using assms(1) by (auto simp: shares_is_valid_def result_simps)
  have chk: "\<exists>stake. get_validator_stake X st s = Ok stake \<and> amount \<le> stake \<and> amount \<le> 2 ^ 63 - 1"
    if "(s, amount) \<in> set r" for s amount
    using r(2) that by (induction r) (auto simp: result_simps not_less split: if_splits)
  note l = shares_loop [OF r(1)]
  obtain amount where am: "(a, amount) \<in> set r" using l assms(2) by force
  then have "hm_get r a = Some amount" using l by simp
  moreover have "balance r a = total_sent a m" using l by (simp add: balance_def)
  ultimately have "total_sent a m = unat amount" by (simp add: balance_def)
  then show ?thesis using chk [OF am] by (auto simp: word_le_nat_alt)
qed

end
