(* ===== verification/Chain_Walk.thy ===== *)
theory Chain_Walk
  imports Net_State
begin

text \<open>
  Moving the network state along the chain, from \<open>core/src/record_keeper/database.rs\<close>: the
  latest common ancestor of two blocks, the path between them, \<open>walk\<close>, \<open>walk_to_head\<close>,
  \<open>calculate_invalidations_to_block\<close>, and the construction of a \<open>DBState\<close> at a block.
\<close>

type_synonym dist_map = "(u256, u64) hash_map"

text \<open>The loop of \<open>_latest_common_ancestor\<close>; each side advances unless it is past its origin.\<close>

partial_function (option) lca_loop ::
    "'s ext \<Rightarrow> 's dbase \<Rightarrow> dist_map \<Rightarrow> dist_map \<Rightarrow> u256 \<Rightarrow> u256 \<Rightarrow> u64 \<Rightarrow>
     (dist_map \<times> dist_map \<times> u256 \<times> u256, error) result option" where
  "lca_loop X db a b last_a last_b dist =
     (if hm_get a last_b = None \<and> hm_get b last_a = None \<and>
         \<not> (u256_is_zero last_a \<and> u256_is_zero last_b)
      then
        (case (if \<not> u256_is_zero last_a
               then and_then (get_block_header X db last_a)
                      (\<lambda>h. Ok (hm_insert (prev h) dist a, prev h))
               else Ok (a, last_a)) of
           Ok (a', last_a') \<Rightarrow>
             (case (if \<not> u256_is_zero last_b
                    then and_then (get_block_header X db last_b)
                           (\<lambda>h. Ok (hm_insert (prev h) dist b, prev h))
                    else Ok (b, last_b)) of
                Ok (b', last_b') \<Rightarrow> lca_loop X db a' b' last_a' last_b' (dist + 1)
              | Err e \<Rightarrow> Some (Err e) | Panic \<Rightarrow> Some Panic | Diverge \<Rightarrow> Some Diverge)
         | Err e \<Rightarrow> Some (Err e) | Panic \<Rightarrow> Some Panic | Diverge \<Rightarrow> Some Diverge)
      else Some (Ok (a, b, last_a, last_b)))"

definition latest_common_ancestor ::
    "'s ext \<Rightarrow> 's dbase \<Rightarrow> u256 \<Rightarrow> u256 \<Rightarrow> (dist_map \<times> dist_map \<times> u256 \<times> u256, error) result" where
  "latest_common_ancestor X db hash_a hash_b =
     returns (lca_loop X db [(hash_a, 0)] [(hash_b, 0)] hash_a hash_b 1)"

definition intersect_dist ::
    "dist_map \<Rightarrow> dist_map \<Rightarrow> u256 \<Rightarrow> u256 \<Rightarrow> (u64 \<times> u64, 'e) result" where
  "intersect_dist a b last_a last_b =
     and_then (case hm_get a last_b of Some d \<Rightarrow> Ok d | None \<Rightarrow> unwrap (hm_get a last_a))
       (\<lambda>da. and_then (case hm_get b last_a of Some d \<Rightarrow> Ok d | None \<Rightarrow> unwrap (hm_get b last_b))
         (\<lambda>db. Ok (da, db)))"

text \<open>The entries closer than the intersection, keyed by their height.\<close>

definition path_heights :: "u64 \<Rightarrow> u64 \<Rightarrow> dist_map \<Rightarrow> ((u64, u256) btree_map, 'e) result" where
  "path_heights base dist m =
     for_each (\<lambda>(k, d) hs. and_then (assert_rs (d \<le> base)) (\<lambda>_. Ok (bt_insert (base - d) k hs)))
       (filter (\<lambda>(_, d). d < dist) m) []"

definition calculate_block_path ::
    "'s ext \<Rightarrow> 's dbase \<Rightarrow> u256 \<Rightarrow> u256 \<Rightarrow>
     ((u64, u256) btree_map \<times> (u64, u256) btree_map, error) result" where
  "calculate_block_path X db a_block b_block =
     and_then (get_block_header X db a_block)
       (\<lambda>a_head. and_then (get_block_header X db b_block)
         (\<lambda>b_head. and_then (assert_rs (shard a_head = shard b_head \<or> u256_is_zero (shard a_head)
                                          \<or> u256_is_zero (shard b_head)))
           (\<lambda>_. and_then (latest_common_ancestor X db a_block b_block)
             (\<lambda>(a_hashes, b_hashes, last_a, last_b).
                and_then (intersect_dist a_hashes b_hashes last_a last_b)
                  (\<lambda>(a_dist, b_dist).
                     let a_height = get_current_block_height db;
                         b_height = a_height - a_dist + b_dist
                     in and_then (path_heights a_height a_dist a_hashes)
                          (\<lambda>a_heights. and_then (path_heights b_height b_dist b_hashes)
                            (\<lambda>b_heights. Ok (a_heights, b_heights))))))))"

subsection \<open>Walking\<close>

definition undo_block :: "'s ext \<Rightarrow> u64 \<times> u256 \<Rightarrow> u64 \<Rightarrow> ('s, u64) db_action" where
  "undo_block X hb earliest =
     (case hb of (h, b) \<Rightarrow>
        bind_st (read_st (\<lambda>db. get_block_header X db b))
          (\<lambda>hdr. bind_st (read_st (\<lambda>db. get_contra X db b))
            (\<lambda>con. bind_st (db_undo_mutate X con)
              (\<lambda>_. bind_st (update_current_block X (prev hdr) (Some (h - 1)))
                (\<lambda>_. return_st (min earliest (earliest_game_event con)))))))"

definition redo_block :: "'s ext \<Rightarrow> u64 \<times> u256 \<Rightarrow> u64 \<Rightarrow> ('s, u64) db_action" where
  "redo_block X hb earliest =
     (case hb of (h, b) \<Rightarrow>
        bind_st (read_st (\<lambda>db. get_block X db b))
          (\<lambda>blk. bind_st (read_st (\<lambda>db. get_mutation X db blk))
            (\<lambda>m. bind_st (db_mutate X m)
              (\<lambda>con. bind_st (add_contra X b con)
                (\<lambda>_. bind_st (update_current_chain X h b)
                  (\<lambda>_. bind_st (update_current_block X b (Some h))
                    (\<lambda>_. return_st (min earliest (earliest_game_event m)))))))))"

definition walk :: "'s ext \<Rightarrow> u256 \<Rightarrow> ('s, u64 \<times> u64) db_action" where
  "walk X b_block =
     bind_st (read_st (\<lambda>db. Ok (get_current_block_hash db)))
       (\<lambda>a_block. if a_block = b_block then return_st (0, - 1)
         else bind_st (read_st (\<lambda>_. assert_rs (\<not> u256_is_zero b_block)))
           (\<lambda>_. bind_st (read_st (\<lambda>db. calculate_block_path X db a_block b_block))
             (\<lambda>(a_heights, b_heights).
                let invalidated_blocks = of_nat (length a_heights)
                in bind_st (fold_st (undo_block X) (rev a_heights) 0)
                  (\<lambda>earliest. bind_st (fold_st (redo_block X) b_heights earliest)
                    (\<lambda>earliest. return_st (invalidated_blocks, earliest))))))"

definition walk_to_head :: "'s ext \<Rightarrow> ('s, u64 \<times> u64) db_action" where
  "walk_to_head X =
     bind_st (read_st (\<lambda>db. Ok (get_current_block_hash db)))
       (\<lambda>cur. if u256_is_zero cur
         then bind_st (read_st (\<lambda>db. get_blocks_of_height X db 1))
           (\<lambda>blocks. bind_st (read_st (\<lambda>_. assert_rs (length blocks = 1)))
             (\<lambda>_. let genesis = blocks ! 0
                  in bind_st (read_st (\<lambda>db. get_block X db genesis))
                    (\<lambda>blk. bind_st (read_st (\<lambda>db. get_mutation X db blk))
                      (\<lambda>m. bind_st (db_mutate X m)
                        (\<lambda>_. bind_st (update_current_block X genesis (Some 1))
                          (\<lambda>_. return_st (0, - 1)))))))
         else bind_st (read_st (\<lambda>db. find_chain_head X db)) (\<lambda>head. walk X head))"

definition calculate_invalidations_to_block ::
    "'s ext \<Rightarrow> 's dbase \<Rightarrow> u256 \<Rightarrow> (u64 \<times> u64 \<times> u64, error) result" where
  "calculate_invalidations_to_block X db b_block =
     (let a_block = get_current_block_hash db
      in if a_block = b_block then Ok (0, 0, - 1)
         else and_then (assert_rs (\<not> u256_is_zero b_block))
           (\<lambda>_. and_then (calculate_block_path X db a_block b_block)
             (\<lambda>(a_heights, b_heights).
                let undone_blocks = of_nat (length a_heights);
                    new_blocks = of_nat (length b_heights)
                in and_then (for_each (\<lambda>(h, b) earliest. and_then (get_contra X db b)
                       (\<lambda>con. Ok (min earliest (earliest_game_event con)))) (rev a_heights) 0)
                  (\<lambda>earliest. and_then (for_each (\<lambda>(h, b) earliest. and_then (get_block X db b)
                       (\<lambda>blk. and_then (get_mutation X db blk)
                         (\<lambda>m. Ok (min earliest (earliest_game_event m))))) b_heights earliest)
                    (\<lambda>earliest. Ok (undone_blocks, new_blocks, earliest))))))"

text \<open>\<open>DBState::new(db).at(block)\<close>.\<close>

definition db_state_at :: "'s ext \<Rightarrow> 's dbase \<Rightarrow> u256 \<Rightarrow> ('s dbase, error) result" where
  "db_state_at X state blk =
     (case walk X blk state of
        (Ok _, state') \<Rightarrow> Ok state'
      | (Err e, _) \<Rightarrow> Err e | (Panic, _) \<Rightarrow> Panic | (Diverge, _) \<Rightarrow> Diverge)"

end
