(* ===== verification/Chain_Store.thy ===== *)
theory Chain_Store
  imports Chain_Walk
begin

text \<open>
  The contract between the chain operations and the database under them. Reads and writes of the
  structured keys (neither generic nor plot keys) behave like those of one finite map, whether
  the database is a RocksDB store or any stack of database states over one. The locale
  \<open>chain_store\<close> states this contract, the lemmas on single chain operations are proved in it, and
  it is interpreted for every external interface whose store and codecs are in order.
\<close>

subsection \<open>Structured keys and the value of a key\<close>

definition chain_key :: "key \<Rightarrow> bool" where
  "chain_key k \<longleftrightarrow> \<not> is_generic k \<and> \<not> is_plot_key k"

lemma chain_key_simps [simp]:
  "chain_key (Blockchain e)" "chain_key (Cache c)"
  "chain_key (Network (ValidatorKey i))" "chain_key (Network (ValidatorStake i))"
  "chain_key (Network AdminKeyID)" "\<not> chain_key (Network (Generic b))"
  "\<not> chain_key (Network (PlotE p t))"
  by (simp_all add: chain_key_def)

fun is_network_key :: "key \<Rightarrow> bool" where
  "is_network_key (Network e) = True"
| "is_network_key _ = False"

lemma chain_key_if_not_network [simp]: "\<not> is_network_key k \<Longrightarrow> chain_key k"
  by (cases k) auto

lemma chain_key_bucket [simp]: "chain_key k \<Longrightarrow> key_bucket k = k"
  by (cases k rule: key_bucket.cases) (auto simp: chain_key_def)

lemma as_bin_chain_inj: "chain_key a \<Longrightarrow> chain_key b \<Longrightarrow> as_bin a = as_bin b \<longleftrightarrow> a = b"
  using as_bin_inj_iff [of a b] chain_key_bucket [of a] chain_key_bucket [of b]
  by (simp add: chain_key_def)

lemma as_bin_network: "is_network_key a \<Longrightarrow> \<not> is_network_key b \<Longrightarrow> as_bin a \<noteq> as_bin b"
  by (cases a; cases b) (auto simp: prefix_def bstr_def)

text \<open>No filter drops a key, and only generic keys are marked as deleted.\<close>

fun db_ok :: "'s dbase \<Rightarrow> bool" where
  "db_ok (DatabaseImpl s h) = True"
| "db_ok (DBState db d h) =
     (db_ok db \<and> filters d = None \<and> values_ok d \<and> (\<forall>k \<in> set (del_values d). is_generic k))"

fun db_val :: "('s \<Rightarrow> bin \<Rightarrow> bin option) \<Rightarrow> 's dbase \<Rightarrow> key \<Rightarrow> bin option" where
  "db_val content (DatabaseImpl s h) k = content s (as_bin k)"
| "db_val content (DBState db d h) k = overlay d k (db_val content db k)"

lemma db_head_set_head [simp]: "db_head (set_head r db) = r"
  by (cases db) auto

lemma db_ok_set_head [simp]: "db_ok (set_head r db) = db_ok db"
  by (cases db) auto

lemma db_val_set_head [simp]: "db_val content (set_head r db) = db_val content db"
  by (cases db) (auto simp: fun_eq_iff)

lemma db_ok_state_new [simp]: "db_ok db \<Longrightarrow> db_ok (db_state_new db)"
  by (simp add: db_state_new_def db_diff_default_def) (simp add: db_diff_new_def)

lemma db_head_state_new [simp]: "db_head (db_state_new db) = db_head db"
  by (simp add: db_state_new_def get_current_block_hash_def get_current_block_height_def)

lemma db_val_state_new [simp]: "db_val content (db_state_new db) = db_val content db"
  by (simp add: db_state_new_def db_diff_default_def db_diff_new_def overlay_def get_value_def
    is_value_deleted_def fun_eq_iff)

lemma value_ops_filters [simp]:
  "filters (set_value d k v) = filters d" "filters (delete_value d k) = filters d"
  by (auto simp: set_value_def delete_value_def split: option.splits)

lemma value_ops_deleted:
  "set (del_values (set_value d k v)) \<subseteq> set (del_values d)"
  "set (del_values (delete_value d k)) \<subseteq> insert k (set (del_values d))"
  by (auto simp: set_value_def delete_value_def hs_insert_def split: option.splits)

lemma value_ops_deleted_generic:
  assumes "\<forall>x \<in> set (del_values d). is_generic x"
  shows "\<forall>x \<in> set (del_values (set_value d k v)). is_generic x"
    "is_generic k \<Longrightarrow> \<forall>x \<in> set (del_values (delete_value d k)). is_generic x"
  using assms value_ops_deleted [of d k] by blast+

lemma relevant_no_filter [simp]: "filters d = None \<Longrightarrow> relevant_key d k"
  by (simp add: relevant_key_def)

lemma overlay_other_key:
  "k' \<noteq> k \<Longrightarrow> overlay (set_value d k v) k' below = overlay d k' below"
  "k' \<noteq> k \<Longrightarrow> overlay (delete_value d k) k' below = overlay d k' below"
  by (auto simp: overlay_def value_ops map_simps hs_insert_def split: option.splits)

subsection \<open>The contract\<close>

text \<open>
  An operation on the network state: it keeps the databases in order, the head, and every entry
  outside the network domain.
\<close>

definition keeps_chain ::
    "('s dbase \<Rightarrow> bool) \<Rightarrow> ('s dbase \<Rightarrow> key \<Rightarrow> bin option) \<Rightarrow> ('s, 'a) db_action \<Rightarrow> bool" where
  "keeps_chain ok val act \<longleftrightarrow>
     (\<forall>db r db'. ok db \<longrightarrow> act db = (r, db') \<longrightarrow>
        ok db' \<and> db_head db' = db_head db \<and> (\<forall>k. \<not> is_network_key k \<longrightarrow> val db' k = val db k))"

lemma keeps_chainD:
  assumes "keeps_chain ok val act" "ok db" "act db = (r, db')"
  shows "ok db'" "db_head db' = db_head db" "\<not> is_network_key k \<Longrightarrow> val db' k = val db k"
  using assms unfolding keeps_chain_def by blast+

named_theorems keeps \<open>operations on the network state\<close>

lemma keeps_return [keeps]: "keeps_chain ok val (return_st x)"
  by (simp add: keeps_chain_def)

lemma keeps_read [keeps]: "keeps_chain ok val (read_st f)"
  by (simp add: keeps_chain_def read_st_def)

lemma keeps_bind [keeps]:
  assumes "keeps_chain ok val m" and "\<And>x. keeps_chain ok val (f x)"
  shows "keeps_chain ok val (bind_st m f)"
  unfolding keeps_chain_def
proof (intro allI impI)
  fix db r db'
  assume ok: "ok db" and run: "bind_st m f db = (r, db')"
  obtain r1 db1 where m: "m db = (r1, db1)" by fastforce
  note first = keeps_chainD [OF assms(1) ok m]
  show "ok db' \<and> db_head db' = db_head db \<and> (\<forall>k. \<not> is_network_key k \<longrightarrow> val db' k = val db k)"
  proof (cases r1)
    case (Ok x)
    then have "f x db1 = (r, db')" using run m by (simp add: bind_st_def)
    from keeps_chainD [OF assms(2) first(1) this] first show ?thesis by simp
  qed (use run m first in \<open>auto simp: bind_st_def\<close>)
qed

lemma keeps_for [keeps]: "(\<And>x. keeps_chain ok val (f x)) \<Longrightarrow> keeps_chain ok val (for_st f xs)"
  by (induction xs) (auto intro: keeps_return keeps_bind)

lemma keeps_fold [keeps]:
  "(\<And>x a. keeps_chain ok val (f x a)) \<Longrightarrow> keeps_chain ok val (fold_st f xs a)"
  by (induction xs arbitrary: a) (auto intro: keeps_return keeps_bind)

locale chain_store =
  fixes X :: "'s ext"
    and ok :: "'s dbase \<Rightarrow> bool"
    and val :: "'s dbase \<Rightarrow> key \<Rightarrow> bin option"
  assumes codecs: "ok db \<Longrightarrow> codecs_ok X"
    and get_val: "ok db \<Longrightarrow> chain_key k \<Longrightarrow>
      db_get X db k = (case val db k of Some v \<Rightarrow> Ok v | None \<Rightarrow> Err (NotFound k))"
    and put_val: "ok db \<Longrightarrow> chain_key k \<Longrightarrow>
      \<exists>db'. db_put X k v db = (Ok (), db') \<and> ok db' \<and> db_head db' = db_head db \<and>
        (\<forall>k'. chain_key k' \<longrightarrow> val db' k' = ((val db)(k \<mapsto> v)) k')"
    and head_val: "ok (set_head r db) = ok db" "val (set_head r db) = val db"
    and put_network: "is_network_key k \<Longrightarrow> keeps_chain ok val (db_put X k v)"
    and delete_generic: "is_generic k \<Longrightarrow> keeps_chain ok val (db_delete X k)"
    and events_keep: "keeps_chain ok val (db_add_event X p t e)"
      "keeps_chain ok val (db_remove_event X p t e)"
begin

lemma putD:
  assumes "db_put X k v db = (r, db')" "ok db" "chain_key k"
  shows "r = Ok ()" "ok db'" "db_head db' = db_head db"
    "chain_key k' \<Longrightarrow> val db' k' = (if k' = k then Some v else val db k')"
  using put_val [OF assms(2,3), of v] assms(1) by auto

lemma get_Ok: "ok db \<Longrightarrow> chain_key k \<Longrightarrow> db_get X db k = Ok v \<longleftrightarrow> val db k = Some v"
  by (simp add: get_val split: option.splits)

lemma block_header_Ok:
  "ok db \<Longrightarrow> get_block_header X db b = Ok hdr \<longleftrightarrow>
    (\<exists>v. val db (Blockchain (BlockHeaderE b)) = Some v \<and> de (header_codec X) v = Ok hdr)"
  by (auto simp: get_block_header_def result_simps get_Ok)

lemma blocks_of_height_eq:
  "ok db \<Longrightarrow> get_blocks_of_height X db n =
    (case val db (Cache (BlocksByHeight n)) of None \<Rightarrow> Ok []
     | Some v \<Rightarrow> lift_de (de (hash_list_codec X) v))"
  by (simp add: get_blocks_of_height_def get_val split: option.split)

lemma getters_cong:
  assumes "ok db" "ok db'" "db_head db' = db_head db"
    and same: "\<And>k. \<not> is_network_key k \<Longrightarrow> val db' k = val db k"
  shows "get_block_header X db' b = get_block_header X db b"
    "get_blocks_of_height X db' n = get_blocks_of_height X db n"
    "get_block_height X db' b = get_block_height X db b"
    "get_current_block_of_height X db' n = get_current_block_of_height X db n"
    "get_block X db' b = get_block X db b"
  using assms(1-3) same
  by (simp_all add: get_block_header_def get_blocks_of_height_def get_block_height_def
    get_current_block_of_height_def get_block_def complete_block_def [abs_def] get_val
    get_current_block_hash_def get_current_block_height_def)

text \<open>All operations on the network state keep the chain.\<close>

lemma stake_keeps [keeps]: "keeps_chain ok val (change_validator_stake X i a)"
  unfolding change_validator_stake_def Let_def by (intro keeps put_network) simp

lemma set_value_keeps [keeps]: "keeps_chain ok val (db_set_value X k v)"
  unfolding db_set_value_def Let_def
  by (intro keeps) (auto intro: put_network delete_generic keeps split: option.split)

lemma events_keeps [keeps]:
  "keeps_chain ok val (db_add_events X e)" "keeps_chain ok val (db_remove_events X e)"
  unfolding db_add_events_def db_remove_events_def by (intro keeps events_keep)+

lemma mutate_change_keeps [keeps]: "keeps_chain ok val (mutate_change X c)"
  by (cases c) (auto intro!: keeps put_network split: prod.split)

lemma undo_change_keeps [keeps]: "keeps_chain ok val (undo_change X c)"
  by (cases c) (auto intro!: keeps put_network split: prod.split)

lemma mutate_keeps [keeps]: "keeps_chain ok val (db_mutate X m)"
  unfolding db_mutate_def by (intro keeps)

lemma undo_mutate_keeps [keeps]: "keeps_chain ok val (db_undo_mutate X m)"
  unfolding db_undo_mutate_def by (intro keeps)

end

subsection \<open>The databases of the program meet the contract\<close>

lemma db_ok_put:
  "db_ok db \<Longrightarrow> db_put X k v db = (r, db') \<Longrightarrow> db_ok db' \<and> db_head db' = db_head db"
proof (cases db)
  case (DatabaseImpl s h)
  then show "db_put X k v db = (r, db') \<Longrightarrow> ?thesis"
    by (cases "rdb_put X s (as_bin k) v") auto
next
  case (DBState db0 d h)
  assume "db_ok db" "db_put X k v db = (r, db')"
  then show ?thesis using DBState value_ops_deleted_generic(1) [of d k v] by (auto split: if_splits)
qed

lemma db_ok_delete:
  "db_ok db \<Longrightarrow> is_generic k \<Longrightarrow> db_delete X k db = (r, db') \<Longrightarrow> db_ok db' \<and> db_head db' = db_head db"
proof (cases db)
  case (DatabaseImpl s h)
  then show "db_delete X k db = (r, db') \<Longrightarrow> ?thesis"
    by (cases "rdb_delete X s (as_bin k)") auto
next
  case (DBState db0 d h)
  assume "db_ok db" "is_generic k" "db_delete X k db = (r, db')"
  then show ?thesis using DBState value_ops_deleted_generic(2) [of d k] by auto
qed

lemma diff_event_fields [simp]:
  "filters (diff_add_event d p t e) = filters d" "filters (diff_remove_event d p t e) = filters d"
  "new_values (diff_add_event d p t e) = new_values d"
  "new_values (diff_remove_event d p t e) = new_values d"
  "del_values (diff_add_event d p t e) = del_values d"
  "del_values (diff_remove_event d p t e) = del_values d"
  by (simp_all add: diff_add_event_def diff_remove_event_def Let_def split_beta)

lemma overlay_events_ops [simp]:
  "overlay (diff_add_event d p t e) k below = overlay d k below"
  "overlay (diff_remove_event d p t e) k below = overlay d k below"
  "values_ok (diff_add_event d p t e) = values_ok d"
  "values_ok (diff_remove_event d p t e) = values_ok d"
  by (simp_all add: overlay_def values_ok_def get_value_def is_value_deleted_def)

context rocksdb
begin

lemma get_chain:
  "db_ok db \<Longrightarrow> chain_key k \<Longrightarrow>
    db_get X db k = (case db_val content db k of Some v \<Rightarrow> Ok v | None \<Rightarrow> Err (NotFound k))"
  by (induction db)
    (auto simp: get_raw_data_static_def store_get chain_key_def overlay_def split: option.splits)

lemma put_chain:
  assumes "db_ok db" "chain_key k"
  shows "\<exists>db'. db_put X k v db = (Ok (), db') \<and> db_ok db' \<and> db_head db' = db_head db \<and>
    (\<forall>k'. chain_key k' \<longrightarrow> db_val content db' k' = ((db_val content db)(k \<mapsto> v)) k')"
proof (cases db)
  case (DatabaseImpl s h)
  obtain s' where "rdb_put X s (as_bin k) v = Ok s'" "content s' = (content s)(as_bin k \<mapsto> v)"
    using store_put by blast
  then show ?thesis using DatabaseImpl assms(2) by (simp add: as_bin_chain_inj)
next
  case (DBState db0 d h)
  then have "\<not> is_value_deleted d k" "relevant_key d k"
    using assms by (auto simp: is_value_deleted_def chain_key_def)
  then show ?thesis
    using DBState assms db_ok_put [OF assms(1), of X k v]
    by (auto simp: chain_key_def get_set_value)
qed

lemma put_network_keeps:
  assumes "is_network_key k"
  shows "keeps_chain db_ok (db_val content) (db_put X k v)"
  unfolding keeps_chain_def
proof (intro allI impI)
  fix db r db'
  assume ok: "db_ok db" and run: "db_put X k v db = (r, db')"
  have "db_val content db' k' = db_val content db k'" if k': "\<not> is_network_key k'" for k'
  proof (cases db)
    case (DatabaseImpl s h)
    obtain s' where "rdb_put X s (as_bin k) v = Ok s'" "content s' = (content s)(as_bin k \<mapsto> v)"
      using store_put by blast
    then show ?thesis using DatabaseImpl run as_bin_network [OF assms k'] by auto
  next
    case (DBState db0 d h)
    have "k' \<noteq> k" using assms k' by auto
    then show ?thesis using DBState run by (auto simp: overlay_other_key split: if_splits)
  qed
  then show "db_ok db' \<and> db_head db' = db_head db \<and>
      (\<forall>k. \<not> is_network_key k \<longrightarrow> db_val content db' k = db_val content db k)"
    using db_ok_put [OF ok run] by blast
qed

lemma delete_generic_keeps:
  assumes "is_generic k"
  shows "keeps_chain db_ok (db_val content) (db_delete X k)"
  unfolding keeps_chain_def
proof (intro allI impI)
  fix db r db'
  assume ok: "db_ok db" and run: "db_delete X k db = (r, db')"
  have net: "is_network_key k" using assms by (cases k rule: is_generic.cases) auto
  have "db_val content db' k' = db_val content db k'" if k': "\<not> is_network_key k'" for k'
  proof (cases db)
    case (DatabaseImpl s h)
    obtain s' where "rdb_delete X s (as_bin k) = Ok s'" "content s' = (content s)(as_bin k := None)"
      using store_delete by blast
    then show ?thesis using DatabaseImpl run as_bin_network [OF net k'] by auto
  next
    case (DBState db0 d h)
    have "k' \<noteq> k" using net k' by auto
    then show ?thesis using DBState run by (auto simp: overlay_other_key)
  qed
  then show "db_ok db' \<and> db_head db' = db_head db \<and>
      (\<forall>k. \<not> is_network_key k \<longrightarrow> db_val content db' k = db_val content db k)"
    using db_ok_delete [OF ok assms run] by blast
qed

lemma put_bucket_keeps [keeps]:
  "keeps_chain db_ok (db_val content) (put_plot_event_bucket X p t evs)"
  unfolding keeps_chain_def
proof (intro allI impI)
  fix db r db'
  assume ok: "db_ok db" and run: "put_plot_event_bucket X p t evs db = (r, db')"
  have "db' = db \<or> db_put X (Network (PlotE p t)) (ser (events_codec X) evs) db = (r, db')"
    using run by (cases db) (auto simp: Let_def simp del: db_put.simps split: if_splits)
  then show "db_ok db' \<and> db_head db' = db_head db \<and>
      (\<forall>k. \<not> is_network_key k \<longrightarrow> db_val content db' k = db_val content db k)"
    using ok keeps_chainD [OF put_network_keeps [of "Network (PlotE p t)"] ok] by auto
qed

lemma init_loop_keeps [keeps]: "keeps_chain db_ok (db_val content) (init_buckets_loop X p t)"
proof -
  have "db_ok db' \<and> db_head db' = db_head db \<and>
      (\<forall>k. \<not> is_network_key k \<longrightarrow> db_val content db' k = db_val content db k)"
    if "db_ok db" "init_buckets_loop X p t db = (r, db')" for db r db'
    using that
  proof (induction "unat t" arbitrary: t db rule: less_induct)
    case less
    obtain r1 db1 where put: "put_plot_event_bucket X p t [] db = (r1, db1)" by fastforce
    note first = keeps_chainD [OF put_bucket_keeps less.prems(1) put]
    have cases: "db' = db \<or> db' = db1 \<or> (\<not> t < PLOT_EVENT_BUCKET_SIZE \<and>
        init_buckets_loop X p (t - PLOT_EVENT_BUCKET_SIZE) db1 = (r, db'))"
      using less.prems(2) put
      by (subst (asm) init_buckets_loop.simps) (auto split: result.splits option.splits if_splits)
    then show ?case
      using less.hyps [OF bucket_step_decreases first(1)] less.prems(1) first by auto
  qed
  then show ?thesis by (auto simp: keeps_chain_def)
qed

lemma init_keeps [keeps]: "keeps_chain db_ok (db_val content) (init_event_buckets X p t)"
  unfolding keeps_chain_def
proof (intro allI impI)
  fix db r db'
  assume ok: "db_ok db" and run: "init_event_buckets X p t db = (r, db')"
  have "db' = db \<or> init_buckets_loop X p (t - PLOT_EVENT_BUCKET_SIZE) db = (r, db')"
    using run by (cases db) (auto split: if_splits)
  then show "db_ok db' \<and> db_head db' = db_head db \<and>
      (\<forall>k. \<not> is_network_key k \<longrightarrow> db_val content db' k = db_val content db k)"
    using ok keeps_chainD [OF init_loop_keeps ok] by auto
qed

text \<open>The event operations of a store are built from the bucket operations.\<close>

lemma event_ops_keep:
  "keeps_chain db_ok (db_val content) (db_add_event X p t e)"
  "keeps_chain db_ok (db_val content) (db_remove_event X p t e)"
proof -
  have state: "db_ok (DBState db (f d p t e) h) \<and>
      db_val content (DBState db (f d p t e) h) k = db_val content (DBState db d h) k"
    if "db_ok (DBState db d h)" "f = diff_add_event \<or> f = diff_remove_event" for db d h f k
    using that by auto
  show "keeps_chain db_ok (db_val content) (db_add_event X p t e)"
    unfolding keeps_chain_def
  proof (intro allI impI)
    fix db r db'
    assume ok: "db_ok db" and run: "db_add_event X p t e db = (r, db')"
    show "db_ok db' \<and> db_head db' = db_head db \<and>
        (\<forall>k. \<not> is_network_key k \<longrightarrow> db_val content db' k = db_val content db k)"
    proof (cases db)
      case (DatabaseImpl s h)
      have "keeps_chain db_ok (db_val content)
        (bind_st (read_st (\<lambda>db. get_plot_event_bucket X db p t))
         (\<lambda>event_list. bind_st
            (if event_list = None then init_event_buckets X p t else return_st ())
            (\<lambda>_. let evs = (case event_list of Some evs \<Rightarrow> evs | None \<Rightarrow> [])
                 in put_plot_event_bucket X p t (fst (add_event evs t e)))))"
        by (auto intro!: keeps simp: Let_def)
      from keeps_chainD [OF this ok] run show ?thesis
        unfolding DatabaseImpl db_add_event.simps db_remove_event.simps by blast
    qed (use run state ok in auto)
  qed
  show "keeps_chain db_ok (db_val content) (db_remove_event X p t e)"
    unfolding keeps_chain_def
  proof (intro allI impI)
    fix db r db'
    assume ok: "db_ok db" and run: "db_remove_event X p t e db = (r, db')"
    show "db_ok db' \<and> db_head db' = db_head db \<and>
        (\<forall>k. \<not> is_network_key k \<longrightarrow> db_val content db' k = db_val content db k)"
    proof (cases db)
      case (DatabaseImpl s h)
      have "keeps_chain db_ok (db_val content)
        (bind_st (read_st (\<lambda>db. get_plot_event_bucket X db p t))
         (\<lambda>event_list. case event_list of
            Some evs \<Rightarrow> (let (evs', removed) = remove_event evs t e
                         in if \<not> removed then return_st ()
                            else put_plot_event_bucket X p t evs')
          | None \<Rightarrow> return_st ()))"
        by (auto intro!: keeps simp: Let_def split: option.split prod.split)
      from keeps_chainD [OF this ok] run show ?thesis
        unfolding DatabaseImpl db_add_event.simps db_remove_event.simps by blast
    qed (use run state ok in auto)
  qed
qed

end

text \<open>The external interface is in order: a working store and faithful codecs.\<close>

definition store_ok :: "'s ext \<Rightarrow> ('s \<Rightarrow> bin \<Rightarrow> bin option) \<Rightarrow> 's dbase \<Rightarrow> bool" where
  "store_ok X content db \<longleftrightarrow> rocksdb X content \<and> codecs_ok X \<and> db_ok db"

lemma keeps_store_ok:
  "rocksdb X content \<Longrightarrow> codecs_ok X \<Longrightarrow> keeps_chain db_ok val act \<Longrightarrow>
    keeps_chain (store_ok X content) val act"
  unfolding keeps_chain_def store_ok_def by blast

lemma keeps_vacuous: "\<not> (rocksdb X content \<and> codecs_ok X) \<Longrightarrow> keeps_chain (store_ok X content) val act"
  by (auto simp: keeps_chain_def store_ok_def)

interpretation store: chain_store X "store_ok X content" "db_val content" for X content
proof unfold_locales
  show "store_ok X content (set_head r db) = store_ok X content db"
    "db_val content (set_head r db) = db_val content db" for r db
    by (simp_all add: store_ok_def)
  show "store_ok X content db \<Longrightarrow> codecs_ok X" for db by (simp add: store_ok_def)
  show "db_get X db k = (case db_val content db k of None \<Rightarrow> Err (NotFound k) | Some v \<Rightarrow> Ok v)"
    if "store_ok X content db" "chain_key k" for db k
    using that rocksdb.get_chain [of X content db k] by (simp add: store_ok_def)
  show "\<exists>db'. db_put X k v db = (Ok (), db') \<and> store_ok X content db' \<and> db_head db' = db_head db \<and>
      (\<forall>k'. chain_key k' \<longrightarrow> db_val content db' k' = ((db_val content db)(k \<mapsto> v)) k')"
    if "store_ok X content db" "chain_key k" for db k v
    using that rocksdb.put_chain [of X content db k v] by (auto simp: store_ok_def)
  show "keeps_chain (store_ok X content) (db_val content) (db_put X k v)" if "is_network_key k" for k v
    using that keeps_vacuous keeps_store_ok rocksdb.put_network_keeps by metis
  show "keeps_chain (store_ok X content) (db_val content) (db_delete X k)" if "is_generic k" for k
    using that keeps_vacuous keeps_store_ok rocksdb.delete_generic_keeps by metis
  show "keeps_chain (store_ok X content) (db_val content) (db_add_event X p t e)"
    "keeps_chain (store_ok X content) (db_val content) (db_remove_event X p t e)" for p t e
    using keeps_vacuous keeps_store_ok rocksdb.event_ops_keep by metis+
qed

end
