(* ===== verification/Memory_Instance.thy ===== *)
theory Memory_Instance
  imports External
begin

text \<open>
  An instance of the external interface that computes: an association list as the store, and a
  self-delimiting byte format built from combinators, each with its law. It shows that the
  assumptions on external code hold together, and evaluates the model on concrete inputs. The
  digests are truncations (not cryptographic) and a signature is the signed message.
\<close>

subsection \<open>Formats\<close>

record 'a fmt =
  emit :: "'a \<Rightarrow> bin"
  scan :: "bin \<Rightarrow> ('a \<times> bin) option"

text \<open>A value is scanned back from the front of what follows it.\<close>

locale format =
  fixes f :: "'a fmt"
  assumes scan_emit: "scan f (emit f x @ r) = Some (x, r)"
begin

lemma scan_whole: "scan f (emit f x) = Some (x, [])"
  using scan_emit [of x "[]"] by simp

end

definition fmt_word :: "nat \<Rightarrow> 'w::len word fmt" where
  "fmt_word n = \<lparr>emit = write_le n,
     scan = (\<lambda>bs. if n \<le> length bs then Some (read_le (take n bs), drop n bs) else None)\<rparr>"

definition fmt_pair :: "'a fmt \<Rightarrow> 'b fmt \<Rightarrow> ('a \<times> 'b) fmt" where
  "fmt_pair f g = \<lparr>emit = (\<lambda>(x, y). emit f x @ emit g y),
     scan = (\<lambda>bs. case scan f bs of None \<Rightarrow> None
       | Some (x, r) \<Rightarrow> map_option (\<lambda>(y, r'). ((x, y), r')) (scan g r))\<rparr>"

definition fmt_iso :: "('b \<Rightarrow> 'a) \<Rightarrow> ('a \<Rightarrow> 'b) \<Rightarrow> 'a fmt \<Rightarrow> 'b fmt" where
  "fmt_iso to from f = \<lparr>emit = (\<lambda>x. emit f (to x)),
     scan = (\<lambda>bs. map_option (\<lambda>(x, r). (from x, r)) (scan f bs))\<rparr>"

fun emit_list :: "'a fmt \<Rightarrow> 'a list \<Rightarrow> bin" where
  "emit_list f [] = [0]"
| "emit_list f (x # xs) = 1 # emit f x @ emit_list f xs"

fun scan_list :: "'a fmt \<Rightarrow> nat \<Rightarrow> bin \<Rightarrow> ('a list \<times> bin) option" where
  "scan_list f 0 s = None"
| "scan_list f (Suc n) s =
     (case s of
        [] \<Rightarrow> None
      | b # bs \<Rightarrow>
          if b = 0 then Some ([], bs)
          else case scan f bs of None \<Rightarrow> None
            | Some (x, r) \<Rightarrow> map_option (\<lambda>(xs, r'). (x # xs, r')) (scan_list f n r))"

definition fmt_list :: "'a fmt \<Rightarrow> 'a list fmt" where
  "fmt_list f = \<lparr>emit = emit_list f, scan = (\<lambda>bs. scan_list f (length bs) bs)\<rparr>"

definition fmt_option :: "'a fmt \<Rightarrow> 'a option fmt" where
  "fmt_option f = fmt_iso (case_option [] (\<lambda>x. [x])) (case_list None (\<lambda>x xs. Some x)) (fmt_list f)"

lemma format_word: "LENGTH('w::len) = 8 * n \<Longrightarrow> format (fmt_word n :: 'w word fmt)"
  by unfold_locales (simp add: fmt_word_def read_write_le)

lemma format_pair: "format f \<Longrightarrow> format g \<Longrightarrow> format (fmt_pair f g)"
  by (simp add: format_def fmt_pair_def)

lemma format_iso: "format f \<Longrightarrow> (\<And>x. from (to x) = x) \<Longrightarrow> format (fmt_iso to from f)"
  by (simp add: format_def fmt_iso_def)

lemma format_list:
  assumes "format f"
  shows "format (fmt_list f)"
proof -
  have "scan_list f n (emit_list f xs @ r) = Some (xs, r)" if "length xs < n" for xs r n
    using that assms by (induction xs arbitrary: n) (auto simp: format_def gr0_conv_Suc less_Suc_eq_0_disj Suc_less_eq2)
  moreover have "length xs < length (emit_list f xs)" for xs
    by (induction xs) auto
  ultimately show ?thesis by unfold_locales (simp add: fmt_list_def less_imp_le_nat trans_less_add1)
qed

lemma format_option: "format f \<Longrightarrow> format (fmt_option f)"
  unfolding fmt_option_def by (intro format_iso format_list) (auto split: option.splits)

named_theorems formats \<open>the formats of the model's types\<close>

lemmas [formats] = format_pair format_list format_option

subsection \<open>Formats of the chain's types\<close>

definition fmt_u256 :: "u256 fmt" where
  "fmt_u256 = fmt_iso (\<lambda>x. case x of U256 a b c d \<Rightarrow> (a, b, c, d)) (\<lambda>(a, b, c, d). U256 a b c d)
     (fmt_pair (fmt_word 8) (fmt_pair (fmt_word 8) (fmt_pair (fmt_word 8) (fmt_word 8))))"

definition fmt_u160 :: "u160 fmt" where
  "fmt_u160 = fmt_iso (\<lambda>x. case x of U160 a b c d e \<Rightarrow> (a, b, c, d, e)) (\<lambda>(a, b, c, d, e). U160 a b c d e)
     (fmt_pair (fmt_word 4) (fmt_pair (fmt_word 4) (fmt_pair (fmt_word 4)
       (fmt_pair (fmt_word 4) (fmt_word 4)))))"

definition fmt_coord :: "coord fmt" where
  "fmt_coord = fmt_iso (\<lambda>c. (coord_x c, coord_y c)) (\<lambda>(x, y). Coord x y)
     (fmt_pair (fmt_word 4) (fmt_word 4))"

definition fmt_bin :: "bin fmt" where
  "fmt_bin = fmt_list (fmt_word 1)"

definition fmt_u64 :: "u64 fmt" where
  "fmt_u64 = fmt_word 8"

definition fmt_events :: "raw_events fmt" where
  "fmt_events = fmt_list (fmt_pair fmt_u64 (fmt_list fmt_bin))"

definition fmt_plot_event :: "plot_event fmt" where
  "fmt_plot_event = fmt_iso (\<lambda>e. (pe_from e, pe_to e, pe_tick e, pe_event e))
     (\<lambda>(a, b, c, d). \<lparr>pe_from = a, pe_to = b, pe_tick = c, pe_event = d\<rparr>)
     (fmt_pair fmt_coord (fmt_pair (fmt_list fmt_coord) (fmt_pair fmt_u64 fmt_bin)))"

text \<open>A change as a tag with all the fields a change may have.\<close>

type_synonym change_fields =
  "u8 \<times> bin \<times> bin option \<times> u160 \<times> u64 \<times> plot_event option \<times> (u160 \<times> u64) list"

fun change_fields :: "change \<Rightarrow> change_fields" where
  "change_fields (Admin k v) = (0, k, v, U160_ZERO, 0, None, [])"
| "change_fields (BlockReward i p) = (1, p, None, i, 0, None, [])"
| "change_fields (PlotEventCh e) = (2, [], None, U160_ZERO, 0, Some e, [])"
| "change_fields (NewValidator p) = (3, p, None, U160_ZERO, 0, None, [])"
| "change_fields (Slash i a p) = (4, p, None, i, a, None, [])"
| "change_fields (Transfer i to) = (5, [], None, i, 0, None, to)"

definition change_of_fields :: "change_fields \<Rightarrow> change" where
  "change_of_fields = (\<lambda>(tag, b, ob, i, a, e, to).
     if tag = 0 then Admin b ob else if tag = 1 then BlockReward i b
     else if tag = 2 then (case e of Some e' \<Rightarrow> PlotEventCh e' | None \<Rightarrow> NewValidator b)
     else if tag = 3 then NewValidator b else if tag = 4 then Slash i a b else Transfer i to)"

definition fmt_change :: "change fmt" where
  "fmt_change = fmt_iso change_fields change_of_fields
     (fmt_pair (fmt_word 1) (fmt_pair fmt_bin (fmt_pair (fmt_option fmt_bin) (fmt_pair fmt_u160
       (fmt_pair fmt_u64 (fmt_pair (fmt_option fmt_plot_event) (fmt_list (fmt_pair fmt_u160 fmt_u64))))))))"

definition fmt_mutation :: "mutation fmt" where
  "fmt_mutation = fmt_iso (\<lambda>m. (if contra m then 1 else 0, changes m))
     (\<lambda>(c, cs). \<lparr>contra = (c = 1), changes = cs\<rparr>) (fmt_pair (fmt_word 1 :: u8 fmt) (fmt_list fmt_change))"

definition fmt_txn :: "txn fmt" where
  "fmt_txn = fmt_iso (\<lambda>t. (txn_timestamp t, creator t, txn_mutation t, signature t))
     (\<lambda>(a, b, c, d). \<lparr>txn_timestamp = a, creator = b, txn_mutation = c, signature = d\<rparr>)
     (fmt_pair fmt_u64 (fmt_pair fmt_u160 (fmt_pair fmt_mutation fmt_bin)))"

definition fmt_header :: "block_header fmt" where
  "fmt_header = fmt_iso (\<lambda>h. (version h, timestamp h, shard h, prev h, merkle_root h, blob h))
     (\<lambda>(a, b, c, d, e, f). \<lparr>version = a, timestamp = b, shard = c, prev = d, merkle_root = e, blob = f\<rparr>)
     (fmt_pair (fmt_word 2) (fmt_pair fmt_u64 (fmt_pair fmt_u256 (fmt_pair fmt_u256
       (fmt_pair fmt_u256 fmt_bin)))))"

definition fmt_hash_list :: "u256 list fmt" where
  "fmt_hash_list = fmt_list fmt_u256"

definition fmt_hash_set :: "u256 set fmt" where
  "fmt_hash_set = fmt_iso sorted_list_of_set set fmt_hash_list"

lemma finite_u256: "finite (S :: u256 set)"
proof -
  have "finite ((\<lambda>(a, b, c, d). U256 a b c d) ` (UNIV :: (u64 \<times> u64 \<times> u64 \<times> u64) set))" by simp
  moreover have "x \<in> (\<lambda>(a, b, c, d). U256 a b c d) ` UNIV" for x
    by (cases x; rule image_eqI [where x = "case x of U256 a b c d \<Rightarrow> (a, b, c, d)"]) simp_all
  ultimately show ?thesis by (meson finite_subset subsetI)
qed

interpretation f_u256: format fmt_u256
  unfolding fmt_u256_def
  by (intro format_iso format_pair format_word) (auto split: u256.splits)

interpretation f_u160: format fmt_u160
  unfolding fmt_u160_def
  by (intro format_iso format_pair format_word) (auto split: u160.splits)

interpretation f_bin: format fmt_bin
  unfolding fmt_bin_def by (intro format_list format_word) simp

interpretation f_u64: format fmt_u64
  unfolding fmt_u64_def by (intro format_word) simp

interpretation f_coord: format fmt_coord
  unfolding fmt_coord_def
  by (intro format_iso format_pair format_word) (simp_all add: coord_eta)

interpretation f_events: format fmt_events
  unfolding fmt_events_def
  by (intro format_list format_pair f_u64.format_axioms f_bin.format_axioms)

lemmas [formats] = f_u256.format_axioms f_u160.format_axioms f_bin.format_axioms
  f_u64.format_axioms f_coord.format_axioms f_events.format_axioms

interpretation f_plot_event: format fmt_plot_event
  unfolding fmt_plot_event_def by (intro format_iso formats) auto

lemmas [formats] = f_plot_event.format_axioms

lemma change_fields_inverse: "change_of_fields (change_fields c) = c"
  by (cases c) (simp_all add: change_of_fields_def)

interpretation f_change: format fmt_change
  unfolding fmt_change_def by (intro format_iso formats format_word) (simp_all add: change_fields_inverse)

lemmas [formats] = f_change.format_axioms

interpretation f_mutation: format fmt_mutation
  unfolding fmt_mutation_def by (intro format_iso formats format_word) auto

lemmas [formats] = f_mutation.format_axioms

interpretation f_txn: format fmt_txn
  unfolding fmt_txn_def by (intro format_iso formats) auto

interpretation f_header: format fmt_header
  unfolding fmt_header_def by (intro format_iso formats format_word) auto

interpretation f_hash_list: format fmt_hash_list
  unfolding fmt_hash_list_def by (intro formats)

lemmas [formats] = f_hash_list.format_axioms

interpretation f_hash_set: format fmt_hash_set
  unfolding fmt_hash_set_def by (intro format_iso formats) (simp add: finite_u256)

subsection \<open>The instance\<close>

definition codec_of :: "'a fmt \<Rightarrow> 'a codec" where
  "codec_of f = \<lparr>ser = emit f,
     de = (\<lambda>bs. case scan f bs of Some (x, _) \<Rightarrow> Ok x | None \<Rightarrow> Err ''EndOfFileError'')\<rparr>"

lemma codec_of_ok: "format f \<Longrightarrow> codec_ok (codec_of f)"
  by (simp add: codec_ok_def codec_of_def format.scan_whole)

type_synonym mem_store = "(bin \<times> bin) list"

fun mem_apply :: "batch_op \<Rightarrow> mem_store \<Rightarrow> mem_store" where
  "mem_apply (BatchPut k v) s = AList.update k v s"
| "mem_apply (BatchDelete k) s = AList.delete k s"

definition mem_ext :: "mem_store ext" where
  "mem_ext = \<lparr>
     sha3_256 = (\<lambda>b. take 32 (b @ replicate 32 0)),
     ripemd160 = (\<lambda>b. take 20 (b @ replicate 20 0)),
     rsa_sign = (\<lambda>k b. b),
     rsa_verify = (\<lambda>k b sig. Some (b = sig)),
     public_key_from_der = (\<lambda>b. Ok (PKey b)),
     header_codec = codec_of fmt_header, txn_codec = codec_of fmt_txn,
     mutation_codec = codec_of fmt_mutation, hash_list_codec = codec_of fmt_hash_list,
     hash_set_codec = codec_of fmt_hash_set, events_codec = codec_of fmt_events,
     rdb_get = (\<lambda>s k. Ok (map_of s k)),
     rdb_put = (\<lambda>s k v. Ok (AList.update k v s)),
     rdb_delete = (\<lambda>s k. Ok (AList.delete k s)),
     rdb_write = (\<lambda>s wb. Ok (fold mem_apply wb s)),
     rdb_is_empty = (\<lambda>s. s = [])\<rparr>"

lemma mem_write: "map_of (fold mem_apply wb s) = batch_effect wb (map_of s)"
proof (induction wb arbitrary: s)
  case (Cons op wb)
  then show ?case by (cases op) (simp_all add: map_simps del: fun_upd_apply)
qed simp

interpretation mem: rocksdb mem_ext map_of
  by unfold_locales
    (auto simp: mem_ext_def map_simps mem_write simp del: fun_upd_apply)

lemma mem_codecs_ok: "codecs_ok mem_ext"
  by (simp add: codecs_ok_def mem_ext_def codec_of_ok f_header.format_axioms f_txn.format_axioms
    f_mutation.format_axioms f_hash_list.format_axioms f_hash_set.format_axioms
    f_events.format_axioms)

lemma mem_digests_ok: "digests_ok mem_ext"
  by (auto simp: digests_ok_def mem_ext_def)

end
