(* ===== verification/Block_Tree.thy ===== *)
theory Block_Tree
  imports Chain_Store Memory_Instance
begin

text \<open>
  The stored blocks as a tree: what \<open>add_block\<close> writes, the invariant that relates headers,
  heights, the height cache and the head, its preservation, and the abstract tree of blocks
  (parent, height) that the search for a common ancestor works on.
\<close>

subsection \<open>What is stored for a block\<close>

definition known_block :: "'s ext \<Rightarrow> 's dbase \<Rightarrow> u256 \<Rightarrow> bool" where
  "known_block X db b \<longleftrightarrow> is_ok (get_block_header X db b)"

text \<open>The height cached for a block, whether or not it is the head.\<close>

definition stored_height :: "'s ext \<Rightarrow> 's dbase \<Rightarrow> u256 \<Rightarrow> u64 option" where
  "stored_height X db b =
     ok_value (and_then (db_get X db (Cache (HeightByBlock b))) (\<lambda>v. lift_de (de_u64 v)))"

definition parent :: "'s ext \<Rightarrow> 's dbase \<Rightarrow> u256 \<Rightarrow> u256" where
  "parent X db b = (case get_block_header X db b of Ok h \<Rightarrow> if b = U256_ZERO then b else prev h | _ \<Rightarrow> U256_ZERO)"

text \<open>
  The invariant of the stored chain: every known block has a height, one more than that of its
  known parent, or one at the origin; the height cache lists exactly the known blocks of each
  height, once; only known blocks have a height; and the head is a known block at its cached
  height, or the zero hash at height zero before the genesis block.
\<close>

definition chain_inv :: "'s ext \<Rightarrow> 's dbase \<Rightarrow> bool" where
  "chain_inv X db \<longleftrightarrow>
     (\<forall>b hdr. get_block_header X db b = Ok hdr \<longrightarrow> b \<noteq> U256_ZERO \<and>
        (\<exists>n. stored_height X db b = Some n \<and>
           (if prev hdr = U256_ZERO then n = 1
            else known_block X db (prev hdr) \<and>
              (\<exists>m. stored_height X db (prev hdr) = Some m \<and> unat n = Suc (unat m))))) \<and>
     (\<forall>n. \<exists>l. get_blocks_of_height X db n = Ok l \<and> distinct l \<and>
        (\<forall>b. b \<in> set l \<longleftrightarrow> known_block X db b \<and> stored_height X db b = Some n)) \<and>
     (\<forall>b n. stored_height X db b = Some n \<longrightarrow> known_block X db b) \<and>
     (if get_current_block_hash db = U256_ZERO then get_current_block_height db = 0
      else known_block X db (get_current_block_hash db) \<and>
        stored_height X db (get_current_block_hash db) = Some (get_current_block_height db))"

lemma ok_value_iff [result_simps]: "ok_value m = Some x \<longleftrightarrow> m = Ok x"
  by (cases m) auto

lemma chain_inv_header:
  assumes "chain_inv X db" "get_block_header X db b = Ok hdr"
  shows "b \<noteq> U256_ZERO"
    "\<exists>n. stored_height X db b = Some n \<and>
       (if prev hdr = U256_ZERO then n = 1
        else known_block X db (prev hdr) \<and>
          (\<exists>m. stored_height X db (prev hdr) = Some m \<and> unat n = Suc (unat m)))"
  using assms unfolding chain_inv_def by blast+

lemma chain_inv_height:
  assumes "chain_inv X db"
  shows "\<exists>l. get_blocks_of_height X db n = Ok l \<and> distinct l \<and>
        (\<forall>b. b \<in> set l \<longleftrightarrow> known_block X db b \<and> stored_height X db b = Some n)"
    "stored_height X db b = Some n \<Longrightarrow> known_block X db b"
  using assms unfolding chain_inv_def by blast+

lemma chain_inv_head:
  assumes "chain_inv X db"
  shows "if get_current_block_hash db = U256_ZERO then get_current_block_height db = 0
      else known_block X db (get_current_block_hash db) \<and>
        stored_height X db (get_current_block_hash db) = Some (get_current_block_height db)"
  using assms unfolding chain_inv_def by blast

lemma block_height_stored:
  assumes "chain_inv X db" "known_block X db b"
  shows "get_block_height X db b = Ok n \<longleftrightarrow> stored_height X db b = Some n"
proof -
  have "b \<noteq> U256_ZERO" using assms chain_inv_header(1) by (auto simp: known_block_def result_simps)
  then show ?thesis
    using chain_inv_head [OF assms(1)]
    by (auto simp: get_block_height_def stored_height_def result_simps split: if_splits)
qed

subsection \<open>Adding a block\<close>

context chain_store
begin

lemma stored_height_val:
  "ok db \<Longrightarrow> stored_height X db b =
    (case val db (Cache (HeightByBlock b)) of None \<Rightarrow> None | Some v \<Rightarrow> ok_value (lift_de (de_u64 v)))"
  by (simp add: stored_height_def get_val split: option.split)

lemma known_val:
  "ok db \<Longrightarrow> known_block X db b \<longleftrightarrow>
    (\<exists>v hdr. val db (Blockchain (BlockHeaderE b)) = Some v \<and> de (header_codec X) v = Ok hdr)"
  by (auto simp: known_block_def result_simps block_header_Ok)

text \<open>Listing the block with each of its transactions touches only their entries.\<close>

lemma add_block_for_txn_effect:
  assumes "ok db" "add_block_for_txn X t b db = (Ok (), db')"
  shows "ok db'" "db_head db' = db_head db"
    "chain_key k \<Longrightarrow> k \<noteq> Cache (BlocksByTxn t) \<Longrightarrow> val db' k = val db k"
    "\<exists>T. get_txn_blocks X db' t = Ok T \<and> b \<in> T \<and> (\<forall>T'. get_txn_blocks X db t = Ok T' \<longrightarrow> T' \<subseteq> T)"
proof -
  obtain T where T: "map_not_found (get_txn_blocks X db t) {} = Ok T"
    and run: "(if b \<notin> T then db_put X (Cache (BlocksByTxn t)) (ser (hash_set_codec X) (insert b T))
       else return_st ()) db = (Ok (), db')"
    using assms(2) unfolding add_block_for_txn_def by (auto simp: result_simps)
  have read: "get_txn_blocks X db t = Ok T' \<Longrightarrow> T' = T" for T' using T by simp
  have *: "ok db' \<and> db_head db' = db_head db \<and>
      (chain_key k \<longrightarrow> k \<noteq> Cache (BlocksByTxn t) \<longrightarrow> val db' k = val db k) \<and>
      (get_txn_blocks X db' t = Ok (insert b T) \<or> db' = db \<and> b \<in> T)" for k
  proof (cases "b \<in> T")
    case False
    with run have "db_put X (Cache (BlocksByTxn t)) (ser (hash_set_codec X) (insert b T)) db = (Ok (), db')"
      by simp
    note put = putD [OF this assms(1)]
    then show ?thesis using codecs [OF assms(1)]
      by (simp add: get_txn_blocks_def get_val)
  qed (use run assms(1) in auto)
  show "ok db'" "db_head db' = db_head db" using * by blast+
  show "chain_key k \<Longrightarrow> k \<noteq> Cache (BlocksByTxn t) \<Longrightarrow> val db' k = val db k" using * by blast
  have "get_txn_blocks X db t = Ok T" if "b \<in> T"
    using T that unfolding map_not_found_def
    by (auto split: result.splits error.splits)
  then show "\<exists>T. get_txn_blocks X db' t = Ok T \<and> b \<in> T \<and> (\<forall>T'. get_txn_blocks X db t = Ok T' \<longrightarrow> T' \<subseteq> T)"
    using * read by (metis insertI1 order_refl subset_insertI)
qed

lemma add_block_for_txns_effect:
  assumes "ok db" "for_st (\<lambda>t. add_block_for_txn X t b) ts db = (Ok u, db')"
  shows "ok db' \<and> db_head db' = db_head db \<and>
    (\<forall>k. chain_key k \<longrightarrow> k \<notin> (\<lambda>t. Cache (BlocksByTxn t)) ` set ts \<longrightarrow> val db' k = val db k) \<and>
    (\<forall>t T. get_txn_blocks X db t = Ok T \<longrightarrow> (\<exists>T'. get_txn_blocks X db' t = Ok T' \<and> T \<subseteq> T')) \<and>
    (\<forall>t \<in> set ts. \<exists>T. get_txn_blocks X db' t = Ok T \<and> b \<in> T)"
  using assms
proof (induction ts arbitrary: db)
  case (Cons t ts)
  from Cons.prems(2) obtain db1 where
    one: "add_block_for_txn X t b db = (Ok (), db1)" and
    rest: "for_st (\<lambda>t. add_block_for_txn X t b) ts db1 = (Ok u, db')"
    by (auto simp: result_simps)
  note e1 = add_block_for_txn_effect [OF Cons.prems(1) one]
  have same: "get_txn_blocks X db1 t' = get_txn_blocks X db t'" if "t' \<noteq> t" for t'
    using that e1 Cons.prems(1) by (simp add: get_txn_blocks_def get_val)
  note ih = Cons.IH [OF e1(1) rest]
  show ?case
  proof (intro conjI allI impI ballI)
    fix t' T assume T: "get_txn_blocks X db t' = Ok T"
    obtain T1 where "get_txn_blocks X db1 t' = Ok T1" "T \<subseteq> T1"
      using T e1(4) same by (cases "t' = t") auto
    then show "\<exists>T'. get_txn_blocks X db' t' = Ok T' \<and> T \<subseteq> T'" using ih by (metis order_trans)
  next
    fix t' assume "t' \<in> set (t # ts)"
    then show "\<exists>T. get_txn_blocks X db' t' = Ok T \<and> b \<in> T"
      using ih e1(4) by (metis set_ConsD subsetD)
  qed (use ih e1 in auto)
qed auto

lemma add_block_to_height_effect:
  assumes "ok db" "add_block_to_height X n b db = (Ok (), db')"
  obtains l where "get_blocks_of_height X db n = Ok l"
    "ok db'" "db_head db' = db_head db"
    "get_blocks_of_height X db' n = Ok (if b \<in> set l then l else l @ [b])"
    "\<And>k. chain_key k \<Longrightarrow> k \<noteq> Cache (BlocksByHeight n) \<Longrightarrow> val db' k = val db k"
proof -
  obtain l where l: "get_blocks_of_height X db n = Ok l"
    and run: "(if b \<in> set l then return_st ()
      else db_put X (Cache (BlocksByHeight n)) (ser (hash_list_codec X) (l @ [b]))) db = (Ok (), db')"
    using assms(2) unfolding add_block_to_height_def by (auto simp: result_simps)
  show thesis
  proof (cases "b \<in> set l")
    case True
    then show thesis using that [OF l] run assms(1) l by auto
  next
    case False
    with run have "db_put X (Cache (BlocksByHeight n)) (ser (hash_list_codec X) (l @ [b])) db = (Ok (), db')"
      by simp
    note put = putD [OF this assms(1)]
    show thesis
      by (rule that [OF l]) (use put codecs [OF assms(1)] False in \<open>auto simp: blocks_of_height_eq\<close>)
  qed
qed

text \<open>Everything that \<open>add_block\<close> leaves behind when it adds the block.\<close>

lemma add_block_effect:
  assumes "ok db" "add_block X blk db = (Ok True, db')"
  defines "b \<equiv> block_calculate_hash X blk"
  obtains n l where "\<not> known_block X db b"
    "get_block_height X db (prev (header blk)) = Ok n"
    "ok db'" "db_head db' = db_head db"
    "val db' (Blockchain (BlockHeaderE b)) = Some (ser (header_codec X) (header blk))"
    "val db' (Blockchain (TxnListE (merkle_root (header blk)))) = Some (ser (hash_list_codec X) (txns blk))"
    "val db' (Cache (HeightByBlock b)) = Some (write_le 8 (n + 1))"
    "get_blocks_of_height X db (n + 1) = Ok l"
    "get_blocks_of_height X db' (n + 1) = Ok (if b \<in> set l then l else l @ [b])"
    "\<And>k. chain_key k \<Longrightarrow>
       k \<notin> {Blockchain (BlockHeaderE b), Blockchain (TxnListE (merkle_root (header blk))),
            Cache (HeightByBlock b), Cache (BlocksByHeight (n + 1))} \<union>
           (\<lambda>t. Cache (BlocksByTxn t)) ` set (txns blk) \<Longrightarrow> val db' k = val db k"
    "\<And>t. t \<in> set (txns blk) \<Longrightarrow> \<exists>T. get_txn_blocks X db' t = Ok T \<and> b \<in> T"
proof -
  from assms(2) obtain db1 db2 n db3 db4 where
    new: "\<not> known_block X db b" and
    p1: "db_put X (Blockchain (BlockHeaderE b)) (ser (header_codec X) (header blk)) db = (Ok (), db1)" and
    p2: "db_put X (Blockchain (TxnListE (merkle_root (header blk)))) (ser (hash_list_codec X) (txns blk)) db1
        = (Ok (), db2)" and
    n: "get_block_height X db2 (prev (header blk)) = Ok n" and
    p3: "add_block_to_height X (n + 1) b db2 = (Ok (), db3)" and
    p4: "add_height_for_block X (n + 1) b db3 = (Ok (), db4)" and
    p5: "for_st (\<lambda>t. add_block_for_txn X t b) (txns blk) db4 = (Ok (), db')"
    unfolding add_block_def Let_def b_def
    by (auto simp: result_simps known_block_def split: if_splits)
  note e1 = putD [OF p1 assms(1)] and e2 = putD [OF p2]
  note e2 = e2 [OF e1(2)]
  obtain l where l: "get_blocks_of_height X db2 (n + 1) = Ok l" "ok db3" "db_head db3 = db_head db2"
    "get_blocks_of_height X db3 (n + 1) = Ok (if b \<in> set l then l else l @ [b])"
    "\<And>k. chain_key k \<Longrightarrow> k \<noteq> Cache (BlocksByHeight (n + 1)) \<Longrightarrow> val db3 k = val db2 k"
    using add_block_to_height_effect [OF e2(2) p3] by (auto simp: e1)
  note e4 = putD [OF p4 [unfolded add_height_for_block_def] l(2)]
  note e5 = add_block_for_txns_effect [OF e4(2) p5]
  have head: "db_head db' = db_head db" using e1 e2 l e4 e5 by simp
  show thesis
  proof (rule that [OF new])
    have "get_block_height X db2 (prev (header blk)) = get_block_height X db (prev (header blk))"
      by (simp add: get_block_height_def get_current_block_hash_def get_current_block_height_def
        get_val [OF assms(1)] get_val [OF e2(2)] e1 e2)
    with n show "get_block_height X db (prev (header blk)) = Ok n" by simp
    show "get_blocks_of_height X db (n + 1) = Ok l"
      using l(1) e1 e2 assms(1) by (simp add: blocks_of_height_eq)
    show "get_blocks_of_height X db' (n + 1) = Ok (if b \<in> set l then l else l @ [b])"
      using l(2,4) e4 e5 by (auto simp: blocks_of_height_eq image_iff)
  qed (use e1 e2 l e4 e5 head in \<open>auto simp: image_iff\<close>)
qed

lemma add_block_known:
  assumes "ok db" "known_block X db (block_calculate_hash X blk)"
  shows "add_block X blk db = (Ok False, db)"
  using assms by (simp add: add_block_def known_block_def Let_def bind_st_def read_st_def)

lemma get_block_added:
  assumes "ok db" "add_block X blk db = (Ok True, db')"
  shows "get_block X db' (block_calculate_hash X blk) = Ok blk"
proof -
  obtain n l where "ok db'"
    "val db' (Blockchain (BlockHeaderE (block_calculate_hash X blk))) = Some (ser (header_codec X) (header blk))"
    "val db' (Blockchain (TxnListE (merkle_root (header blk)))) = Some (ser (hash_list_codec X) (txns blk))"
    using add_block_effect [OF assms] by metis
  then show ?thesis using codecs [OF assms(1)]
    by (simp add: get_block_def get_block_header_def complete_block_def get_val)
qed

end

lemma chain_inv_extend:
  assumes inv: "chain_inv X db" and new: "\<not> known_block X db b" "b \<noteq> U256_ZERO"
    and hd: "\<And>x. get_block_header X db' x = (if x = b then Ok hdr else get_block_header X db x)"
    and st: "\<And>x. stored_height X db' x = (if x = b then Some (n + 1) else stored_height X db x)"
    and l: "get_blocks_of_height X db (n + 1) = Ok l"
    and hb: "\<And>m. get_blocks_of_height X db' m =
      (if m = n + 1 then Ok (l @ [b]) else get_blocks_of_height X db m)"
    and head: "db_head db' = db_head db"
    and p: "prev hdr = U256_ZERO \<and> n = 0 \<or>
      known_block X db (prev hdr) \<and> stored_height X db (prev hdr) = Some n \<and> Suc (unat n) < 2 ^ 64"
  shows "chain_inv X db'"
proof -
  have kn: "known_block X db' x \<longleftrightarrow> x = b \<or> known_block X db x" for x
    by (simp add: known_block_def hd)
  have pb: "prev hdr \<noteq> b" using p new by auto
  have known_ne: "known_block X db x \<Longrightarrow> x \<noteq> U256_ZERO" for x
    using chain_inv_header(1) [OF inv] by (auto simp: known_block_def result_simps)
  have step: "\<exists>m. stored_height X db' x = Some m \<and> (if prev h = U256_ZERO then m = 1
      else known_block X db' (prev h) \<and>
        (\<exists>k. stored_height X db' (prev h) = Some k \<and> unat m = Suc (unat k)))"
    if "get_block_header X db' x = Ok h" for x h
  proof (cases "x = b")
    case True
    then have "h = hdr" using that hd by simp
    then show ?thesis
      using True p pb known_ne [of "prev hdr"] by (auto simp: st kn unat_Suc_u64)
  next
    case False
    then have "get_block_header X db x = Ok h" using that hd by simp
    from chain_inv_header(2) [OF inv this] False new(1) show ?thesis
      by (auto simp: st kn split: if_splits)
  qed
  have cache: "\<exists>l'. get_blocks_of_height X db' m = Ok l' \<and> distinct l' \<and>
      (\<forall>x. x \<in> set l' \<longleftrightarrow> known_block X db' x \<and> stored_height X db' x = Some m)" for m
  proof -
    obtain l0 where l0: "get_blocks_of_height X db m = Ok l0" "distinct l0"
      "\<forall>x. x \<in> set l0 \<longleftrightarrow> known_block X db x \<and> stored_height X db x = Some m"
      using chain_inv_height(1) [OF inv] by blast
    have "b \<notin> set l0" using l0(3) new(1) by blast
    show ?thesis
    proof (cases "m = n + 1")
      case True
      then show ?thesis using l0 l \<open>b \<notin> set l0\<close> by (auto simp: hb st kn)
    next
      case False
      then show ?thesis using l0 \<open>b \<notin> set l0\<close> by (auto simp: hb st kn)
    qed
  qed
  have "known_block X db' x" if "stored_height X db' x = Some m" for x m
    using that chain_inv_height(2) [OF inv, of x] by (auto simp: st kn split: if_splits)
  moreover have "if get_current_block_hash db' = U256_ZERO then get_current_block_height db' = 0
      else known_block X db' (get_current_block_hash db') \<and>
        stored_height X db' (get_current_block_hash db') = Some (get_current_block_height db')"
    using chain_inv_head [OF inv] new(1)
    by (auto simp: get_current_block_hash_def get_current_block_height_def head st kn split: if_splits)
  moreover have "x \<noteq> U256_ZERO" if "get_block_header X db' x = Ok h" for x h
    using that known_ne [of x] new(2) by (cases "x = b") (auto simp: hd known_block_def result_simps)
  ultimately show ?thesis using step cache unfolding chain_inv_def by auto
qed

context chain_store
begin

lemma add_block_chain_inv:
  assumes "ok db" "chain_inv X db" "add_block X blk db = (Ok True, db')"
    and "block_calculate_hash X blk \<noteq> U256_ZERO"
    and "\<And>n. get_block_height X db (prev (header blk)) = Ok n \<Longrightarrow> Suc (unat n) < 2 ^ 64"
  shows "chain_inv X db'"
proof -
  let ?b = "block_calculate_hash X blk" and ?p = "prev (header blk)"
  obtain n l where new: "\<not> known_block X db ?b" and n: "get_block_height X db ?p = Ok n"
    and ok': "ok db'" "db_head db' = db_head db"
    and v: "val db' (Blockchain (BlockHeaderE ?b)) = Some (ser (header_codec X) (header blk))"
      "val db' (Cache (HeightByBlock ?b)) = Some (write_le 8 (n + 1))"
    and l: "get_blocks_of_height X db (n + 1) = Ok l"
      "get_blocks_of_height X db' (n + 1) = Ok (if ?b \<in> set l then l else l @ [?b])"
    and same: "\<And>k. chain_key k \<Longrightarrow>
       k \<notin> {Blockchain (BlockHeaderE ?b), Blockchain (TxnListE (merkle_root (header blk))),
            Cache (HeightByBlock ?b), Cache (BlocksByHeight (n + 1))} \<union>
           (\<lambda>t. Cache (BlocksByTxn t)) ` set (txns blk) \<Longrightarrow> val db' k = val db k"
    using add_block_effect [OF assms(1,3)] by metis
  have hd: "get_block_header X db' x = (if x = ?b then Ok (header blk) else get_block_header X db x)" for x
  proof (cases "x = ?b")
    case False
    then have "val db' (Blockchain (BlockHeaderE x)) = val db (Blockchain (BlockHeaderE x))"
      by (intro same) auto
    with False show ?thesis by (simp add: get_block_header_def get_val ok'(1) assms(1))
  qed (simp add: get_block_header_def get_val ok'(1) v codecs [OF assms(1)])
  have st: "stored_height X db' x = (if x = ?b then Some (n + 1) else stored_height X db x)" for x
  proof (cases "x = ?b")
    case False
    then have "val db' (Cache (HeightByBlock x)) = val db (Cache (HeightByBlock x))"
      by (intro same) auto
    with False show ?thesis by (simp add: stored_height_val ok'(1) assms(1))
  qed (simp add: stored_height_val ok'(1) v)
  have "?b \<notin> set l"
    using chain_inv_height(1) [OF assms(2), of "n + 1"] l(1) new by auto
  then have hb: "get_blocks_of_height X db' m =
      (if m = n + 1 then Ok (l @ [?b]) else get_blocks_of_height X db m)" for m
    using l(2) same [of "Cache (BlocksByHeight m)"] ok'(1) assms(1)
    by (auto simp: blocks_of_height_eq image_iff)
  have zero_unknown: "\<not> known_block X db U256_ZERO"
    using chain_inv_header(1) [OF assms(2)] by (auto simp: known_block_def result_simps)
  have p: "?p = U256_ZERO \<and> n = 0 \<or> known_block X db ?p \<and> stored_height X db ?p = Some n"
  proof (cases "?p = get_current_block_hash db")
    case True
    then show ?thesis
      using n chain_inv_head [OF assms(2)] by (auto simp: get_block_height_def split: if_splits)
  next
    case False
    then have "stored_height X db ?p = Some n"
      using n by (simp add: get_block_height_def stored_height_def result_simps)
    then show ?thesis using chain_inv_height(2) [OF assms(2)] by blast
  qed
  show ?thesis
    by (rule chain_inv_extend [OF assms(2) new assms(4) hd st l(1) hb ok'(2)])
      (use p assms(5) [OF n] in blast)
qed

end

subsection \<open>Every outcome of adding a block\<close>

text \<open>The end of \<open>add_block\<close>, once the height is known.\<close>

definition cache_block :: "'s ext \<Rightarrow> u64 \<Rightarrow> block \<Rightarrow> ('s, bool) db_action" where
  "cache_block X height blk =
     (let hash = block_calculate_hash X blk
      in bind_st (add_block_to_height X height hash)
        (\<lambda>_. bind_st (add_height_for_block X height hash)
          (\<lambda>_. bind_st (for_st (\<lambda>t. add_block_for_txn X t hash) (txns blk))
            (\<lambda>_. return_st True))))"

lemma map_not_found_lift: "is_ok (map_not_found (lift_de m) v) \<longleftrightarrow> is_ok m"
  by (cases m) (simp_all add: map_not_found_def)

text \<open>The transaction caches can be read, or have no entry.\<close>

definition txn_caches_ok :: "'s ext \<Rightarrow> 's dbase \<Rightarrow> bool" where
  "txn_caches_ok X db \<longleftrightarrow> (\<forall>t. is_ok (map_not_found (get_txn_blocks X db t) {}))"

context chain_store
begin

lemma put_run:
  assumes "ok db" "chain_key k"
  obtains db' where "db_put X k v db = (Ok (), db')" "ok db'" "db_head db' = db_head db"
    "\<And>k'. chain_key k' \<Longrightarrow> val db' k' = (if k' = k then Some v else val db k')"
  using put_val [OF assms, of v] by auto

lemma block_height_after_put:
  assumes "ok db" "ok db'" "db_head db' = db_head db"
    "val db' (Cache (HeightByBlock p)) = val db (Cache (HeightByBlock p))"
  shows "get_block_height X db' p = get_block_height X db p"
  using assms
  by (simp add: get_block_height_def get_current_block_hash_def get_current_block_height_def get_val)

lemma txn_caches_val:
  "ok db \<Longrightarrow> txn_caches_ok X db \<longleftrightarrow>
    (\<forall>t v. val db (Cache (BlocksByTxn t)) = Some v \<longrightarrow> is_ok (de (hash_set_codec X) v))"
  by (auto simp: txn_caches_ok_def get_txn_blocks_def get_val map_not_found_lift split: option.split)

lemma add_block_for_txn_total:
  assumes "ok db" "txn_caches_ok X db"
  shows "\<exists>db'. add_block_for_txn X t b db = (Ok (), db') \<and> ok db' \<and> txn_caches_ok X db'"
proof -
  let ?k = "Cache (BlocksByTxn t)"
  obtain T where T: "map_not_found (get_txn_blocks X db t) {} = Ok T"
    using assms(2) by (auto simp: txn_caches_ok_def is_ok_iff)
  obtain db1 where db1: "db_put X ?k (ser (hash_set_codec X) (insert b T)) db = (Ok (), db1)" "ok db1"
    "\<And>k'. chain_key k' \<Longrightarrow> val db1 k' = (if k' = ?k then Some (ser (hash_set_codec X) (insert b T)) else val db k')"
    using put_run [OF assms(1), of ?k "ser (hash_set_codec X) (insert b T)"] by (metis chain_key_simps(2))
  have "txn_caches_ok X db1"
    using assms(2) codecs [OF assms(1)] by (auto simp: txn_caches_val [OF assms(1)] txn_caches_val [OF db1(2)] db1(3))
  then show ?thesis using db1 T assms
    by (auto simp: add_block_for_txn_def bind_st_def read_st_def)
qed

lemma add_block_for_txns_total:
  assumes "ok db" "txn_caches_ok X db"
  shows "\<exists>db'. for_st (\<lambda>t. add_block_for_txn X t b) ts db = (Ok (), db')"
  using assms
proof (induction ts arbitrary: db)
  case (Cons t ts)
  obtain db1 where "add_block_for_txn X t b db = (Ok (), db1)" "ok db1" "txn_caches_ok X db1"
    using add_block_for_txn_total [OF Cons.prems] by blast
  with Cons.IH [of db1] show ?case by auto
qed simp

text \<open>
  The header and the transaction list are written before the height of the parent is read: if
  that fails, they stay behind.
\<close>

lemma add_block_start:
  assumes "ok db" "\<not> known_block X db (block_calculate_hash X blk)"
  obtains db2 where "ok db2" "txn_caches_ok X db \<Longrightarrow> txn_caches_ok X db2"
    "known_block X db2 (block_calculate_hash X blk)"
    "\<And>n. get_blocks_of_height X db2 n = get_blocks_of_height X db n"
    "add_block X blk db =
      (case get_block_height X db (prev (header blk)) of
         Ok n \<Rightarrow> cache_block X (n + 1) blk db2
       | Err e \<Rightarrow> (Err e, db2) | Panic \<Rightarrow> (Panic, db2) | Diverge \<Rightarrow> (Diverge, db2))"
proof -
  let ?b = "block_calculate_hash X blk"
  let ?k1 = "Blockchain (BlockHeaderE ?b)" and ?k2 = "Blockchain (TxnListE (merkle_root (header blk)))"
  obtain db1 where p1: "db_put X ?k1 (ser (header_codec X) (header blk)) db = (Ok (), db1)" "ok db1"
    "db_head db1 = db_head db"
    "\<And>k'. chain_key k' \<Longrightarrow> val db1 k' = (if k' = ?k1 then Some (ser (header_codec X) (header blk)) else val db k')"
    using put_run [OF assms(1), of ?k1] by (metis chain_key_simps(1))
  obtain db2 where p2: "db_put X ?k2 (ser (hash_list_codec X) (txns blk)) db1 = (Ok (), db2)" "ok db2"
    "db_head db2 = db_head db1"
    "\<And>k'. chain_key k' \<Longrightarrow> val db2 k' = (if k' = ?k2 then Some (ser (hash_list_codec X) (txns blk)) else val db1 k')"
    using put_run [OF p1(2), of ?k2] by (metis chain_key_simps(1))
  have h: "get_block_height X db2 (prev (header blk)) = get_block_height X db (prev (header blk))"
    by (rule block_height_after_put [OF assms(1) p2(2)]) (simp_all add: p1 p2)
  show thesis
  proof (rule that [OF p2(2)])
    show "txn_caches_ok X db \<Longrightarrow> txn_caches_ok X db2" by (simp add: txn_caches_val [OF assms(1)] txn_caches_val [OF p2(2)] p1(4) p2(4))
    show "known_block X db2 ?b"
      using codecs [OF assms(1)] by (auto simp: known_val [OF p2(2)] p1(4) p2(4))
    show "get_blocks_of_height X db2 n = get_blocks_of_height X db n" for n
      by (simp add: blocks_of_height_eq assms(1) p2(2) p1(4) p2(4))
  qed (use assms(2) p1 p2 h in \<open>auto simp: add_block_def cache_block_def known_block_def Let_def bind_st_def
        read_st_def split: result.split\<close>)
qed

lemma add_block_total:
  assumes "ok db" "chain_inv X db" "txns blk = [] \<or> txn_caches_ok X db"
    and new: "\<not> known_block X db (block_calculate_hash X blk)"
    and n: "get_block_height X db (prev (header blk)) = Ok n"
  shows "\<exists>db'. add_block X blk db = (Ok True, db')"
proof -
  let ?b = "block_calculate_hash X blk"
  obtain db2 where db2: "ok db2" "txns blk = [] \<or> txn_caches_ok X db2"
    "\<And>n. get_blocks_of_height X db2 n = get_blocks_of_height X db n"
    "add_block X blk db = cache_block X (n + 1) blk db2"
    by (rule add_block_start [OF assms(1) new]) (use n assms(3) in auto)
  obtain l where l: "get_blocks_of_height X db2 (n + 1) = Ok l"
    using chain_inv_height(1) [OF assms(2), of "n + 1"] db2(3) by auto
  obtain db3 where db3: "add_block_to_height X (n + 1) ?b db2 = (Ok (), db3)" "ok db3"
    "txns blk = [] \<or> txn_caches_ok X db3"
  proof (cases "?b \<in> set l")
    case True
    then show thesis using that [of db2] l db2 by (simp add: add_block_to_height_def bind_st_def read_st_def)
  next
    case False
    obtain d where "db_put X (Cache (BlocksByHeight (n + 1))) (ser (hash_list_codec X) (l @ [?b])) db2 = (Ok (), d)"
      "ok d" "\<And>k'. chain_key k' \<Longrightarrow> k' \<noteq> Cache (BlocksByHeight (n + 1)) \<Longrightarrow> val d k' = val db2 k'"
      using put_run [OF db2(1), of "Cache (BlocksByHeight (n + 1))"] by (metis chain_key_simps(2))
    then show thesis using that [of d] l False db2(2)
      by (simp add: add_block_to_height_def bind_st_def read_st_def txn_caches_val [OF db2(1)] txn_caches_val)
  qed
  obtain db4 where db4: "add_height_for_block X (n + 1) ?b db3 = (Ok (), db4)" "ok db4"
    "\<And>k'. chain_key k' \<Longrightarrow> k' \<noteq> Cache (HeightByBlock ?b) \<Longrightarrow> val db4 k' = val db3 k'"
    unfolding add_height_for_block_def
    using put_run [OF db3(2), of "Cache (HeightByBlock ?b)"] by (metis chain_key_simps(2))
  have "txns blk = [] \<or> txn_caches_ok X db4"
    using db3(3) by (simp add: txn_caches_val [OF db3(2)] txn_caches_val [OF db4(2)] db4(3))
  then have "\<exists>db5. for_st (\<lambda>t. add_block_for_txn X t ?b) (txns blk) db4 = (Ok (), db5)"
    using add_block_for_txns_total [OF db4(2)] by auto
  then show ?thesis using db2(4) db3(1) db4(1) by (auto simp: cache_block_def Let_def)
qed

lemma add_block_orphan:
  assumes "ok db" "\<not> known_block X db (block_calculate_hash X blk)"
    and h: "get_block_height X db (prev (header blk)) = Err e"
  shows "\<exists>db'. add_block X blk db = (Err e, db') \<and> known_block X db' (block_calculate_hash X blk)"
proof -
  obtain db2 where "known_block X db2 (block_calculate_hash X blk)" "add_block X blk db = (Err e, db2)"
    by (rule add_block_start [OF assms(1,2)]) (simp add: h)
  then show ?thesis by blast
qed

end

text \<open>
  Every outcome of \<open>add_block\<close>: a known block changes nothing and gives false; a new block
  whose parent's height is known is added; and when the height of the parent cannot be read, the
  error is returned, but the header has already been written and the block counts as known.
\<close>

theorem add_block_outcomes:
  assumes "rocksdb X content" "codecs_ok X" "db_ok db" "chain_inv X db" "txn_caches_ok X db"
  shows "(known_block X db (block_calculate_hash X blk) \<longrightarrow> add_block X blk db = (Ok False, db)) \<and>
    (\<not> known_block X db (block_calculate_hash X blk) \<longrightarrow>
      (\<forall>n. get_block_height X db (prev (header blk)) = Ok n \<longrightarrow>
        (\<exists>db'. add_block X blk db = (Ok True, db'))) \<and>
      (\<forall>e. get_block_height X db (prev (header blk)) = Err e \<longrightarrow>
        (\<exists>db'. add_block X blk db = (Err e, db') \<and> known_block X db' (block_calculate_hash X blk))))"
proof -
  have ok: "store_ok X content db" using assms(1-3) by (simp add: store_ok_def)
  show ?thesis
    using store.add_block_known [OF ok] store.add_block_total [OF ok assms(4) disjI2 [OF assms(5)]]
      store.add_block_orphan [OF ok] by blast
qed

text \<open>
  C17: adding a block keeps the chain well-formed: every known block's height is one more than
  its parent's, the height cache lists exactly the known blocks of each height, and the head is
  where it was, on a plain store as well as on a stack of database states.
\<close>

theorem add_block_keeps_chain_inv:
  assumes "rocksdb X content" "codecs_ok X" "db_ok db" "chain_inv X db"
    and "add_block X blk db = (Ok True, db')" and "block_calculate_hash X blk \<noteq> U256_ZERO"
    and "\<forall>n. get_block_height X db (prev (header blk)) = Ok n \<longrightarrow> Suc (unat n) < 2 ^ 64"
  shows "chain_inv X db' \<and> db_ok db' \<and> db_head db' = db_head db \<and>
    get_block X db' (block_calculate_hash X blk) = Ok blk \<and>
    (\<forall>t \<in> set (txns blk). \<exists>T. get_txn_blocks X db' t = Ok T \<and> block_calculate_hash X blk \<in> T)"
proof -
  have ok: "store_ok X content db" using assms by (simp add: store_ok_def)
  have "chain_inv X db'" using store.add_block_chain_inv [OF ok] assms by blast
  moreover have "store_ok X content db'" "db_head db' = db_head db"
    "\<forall>t \<in> set (txns blk). \<exists>T. get_txn_blocks X db' t = Ok T \<and> block_calculate_hash X blk \<in> T"
    using store.add_block_effect [OF ok assms(5)] by metis+
  ultimately show ?thesis
    using store.get_block_added [OF ok assms(5)] by (simp add: store_ok_def)
qed

subsection \<open>The tree of blocks\<close>

text \<open>
  The first meeting point of two ascents: nothing strictly before it on one side is an ancestor
  of the other side.
\<close>

definition meet :: "('a \<Rightarrow> 'a) \<Rightarrow> ('a \<Rightarrow> nat) \<Rightarrow> 'a \<Rightarrow> 'a \<Rightarrow> nat \<Rightarrow> nat \<Rightarrow> bool" where
  "meet up ht a b i j \<longleftrightarrow> (up ^^ i) a = (up ^^ j) b \<and> i \<le> ht a \<and> j \<le> ht b \<and>
     (\<forall>i' j'. i' \<le> ht a \<longrightarrow> j' \<le> ht b \<longrightarrow> (up ^^ i') a = (up ^^ j') b \<longrightarrow> i \<le> i' \<and> j \<le> j')"

text \<open>
  A tree whose nodes reach the root by finitely many steps to the parent: \<open>ht\<close> counts them. The
  lemmas hold for nodes; the root is its own parent.
\<close>

locale rooted_tree =
  fixes up :: "'a \<Rightarrow> 'a" and root :: 'a and node :: "'a \<Rightarrow> bool" and ht :: "'a \<Rightarrow> nat"
  assumes up_root: "up root = root"
    and ht_root: "ht root = 0"
    and node_up: "node b \<Longrightarrow> node (up b)"
    and ht_up: "node b \<Longrightarrow> b \<noteq> root \<Longrightarrow> ht b = Suc (ht (up b))"
begin

abbreviation anc :: "nat \<Rightarrow> 'a \<Rightarrow> 'a" where
  "anc k b \<equiv> (up ^^ k) b"

lemma node_anc: "node b \<Longrightarrow> node (anc k b)"
  by (induction k) (auto intro: node_up)

lemma anc_root: "anc k root = root"
  by (induction k) (auto simp: up_root)

lemma ht_anc: "node b \<Longrightarrow> ht (anc k b) = ht b - k"
proof (induction k)
  case (Suc k)
  show ?case
  proof (cases "anc k b = root")
    case True
    then show ?thesis using Suc ht_root by (simp add: up_root)
  next
    case False
    from ht_up [OF node_anc [OF Suc.prems] this] Suc show ?thesis by simp
  qed
qed simp

lemma ht_0_iff: "node b \<Longrightarrow> ht b = 0 \<longleftrightarrow> b = root"
  using ht_up ht_root by fastforce

lemma anc_is_root: "node b \<Longrightarrow> anc k b = root \<longleftrightarrow> ht b \<le> k"
  using ht_0_iff [OF node_anc, of b k] ht_anc [of b k] by auto

lemma anc_inj: "node b \<Longrightarrow> j \<le> ht b \<Longrightarrow> k \<le> ht b \<Longrightarrow> anc j b = anc k b \<longleftrightarrow> j = k"
  using ht_anc [of b j] ht_anc [of b k] by auto

lemma anc_eq_shift: "anc j a = anc k b \<Longrightarrow> anc (j + i) a = anc (k + i) b"
  by (simp add: funpow_add add.commute [of _ i])

lemma meet_exists:
  assumes "node a" "node b"
  shows "\<exists>i j. meet up ht a b i j"
proof -
  let ?P = "\<lambda>i. i \<le> ht a \<and> (\<exists>j \<le> ht b. anc i a = anc j b)"
  have "anc (ht a) a = anc (ht b) b" using anc_is_root assms by (metis order_refl)
  then have "?P (ht a)" by blast
  then have least: "?P (LEAST i. ?P i)" by (rule LeastI)
  define i where "i = (LEAST i. ?P i)"
  obtain j where j: "i \<le> ht a" "j \<le> ht b" "anc i a = anc j b" using least i_def by auto
  have "i \<le> i' \<and> j \<le> j'" if "i' \<le> ht a" "j' \<le> ht b" "anc i' a = anc j' b" for i' j'
  proof
    show "i \<le> i'" unfolding i_def by (rule Least_le) (use that in auto)
    have "ht a - i = ht b - j" "ht a - i' = ht b - j'"
      using that(3) j(3) ht_anc assms by metis+
    then show "j \<le> j'" using \<open>i \<le> i'\<close> j that by linarith
  qed
  then show ?thesis using j by (auto simp: meet_def)
qed

text \<open>The common ancestors of two nodes are the ancestors of their meeting point.\<close>

lemma meet_lca:
  assumes "node a" "node b" "meet up ht a b i j" "anc i' a = anc j' b"
  shows "\<exists>k. anc i' a = anc k (anc i a)"
proof (cases "i' \<le> ht a \<and> j' \<le> ht b")
  case True
  then have "i \<le> i'" using assms(3,4) by (auto simp: meet_def)
  then show ?thesis using funpow_add [of "i' - i" i up] by (metis comp_apply le_add_diff_inverse2)
next
  case False
  then have "anc i' a = root" using assms anc_is_root by (metis not_le order_less_imp_le)
  moreover have "anc (ht (anc i a)) (anc i a) = root" using anc_is_root node_anc assms(1) by blast
  ultimately show ?thesis by metis
qed

end

definition block_ht :: "'s ext \<Rightarrow> 's dbase \<Rightarrow> u256 \<Rightarrow> nat" where
  "block_ht X db b =
     (if b = U256_ZERO then 0 else case stored_height X db b of Some n \<Rightarrow> unat n | None \<Rightarrow> 0)"

definition chain_node :: "'s ext \<Rightarrow> 's dbase \<Rightarrow> u256 \<Rightarrow> bool" where
  "chain_node X db b \<longleftrightarrow> chain_inv X db \<and> (b = U256_ZERO \<or> known_block X db b)"

interpretation tree: rooted_tree "parent X db" U256_ZERO "chain_node X db" "block_ht X db" for X db
proof unfold_locales
  show "parent X db U256_ZERO = U256_ZERO"
    by (simp add: parent_def split: result.split)
  show "block_ht X db U256_ZERO = 0" by (simp add: block_ht_def)
  have step: "chain_node X db (parent X db b) \<and> block_ht X db b = Suc (block_ht X db (parent X db b))"
    if b: "chain_node X db b" "b \<noteq> U256_ZERO" for b
  proof -
    obtain hdr where hdr: "chain_inv X db" "get_block_header X db b = Ok hdr"
      using b by (auto simp: chain_node_def known_block_def result_simps)
    then have "parent X db b = prev hdr" using b(2) by (simp add: parent_def)
    then show ?thesis
      using chain_inv_header(2) [OF hdr] hdr(1) b(2)
      by (auto simp: chain_node_def block_ht_def split: if_splits)
  qed
  show "chain_node X db (parent X db b)" if "chain_node X db b" for b
    using that step [OF that] \<open>parent X db U256_ZERO = U256_ZERO\<close> by (cases "b = U256_ZERO") auto
  show "block_ht X db b = Suc (block_ht X db (parent X db b))"
    if "chain_node X db b" "b \<noteq> U256_ZERO" for b
    using step [OF that] by blast
qed

lemma block_ht_bound: "block_ht X db b < 2 ^ 64"
  using unat_less_2p64 by (auto simp: block_ht_def split: option.split)

end
