(* ===== verification/Lca.thy ===== *)
theory Lca
  imports Block_Tree
begin

text \<open>
  The search for the latest common ancestor terminates and finds it, the distances that
  \<open>intersect_dist\<close> reads off are those to the meeting point, and \<open>calculate_block_path\<close> returns
  the two branches by height.
\<close>

subsection \<open>The maps of the search\<close>

text \<open>After \<open>i\<close> rounds, a side has recorded its ancestors up to the \<open>i\<close>-th, with their distance.\<close>

definition dists :: "'s ext \<Rightarrow> 's dbase \<Rightarrow> u256 \<Rightarrow> nat \<Rightarrow> dist_map \<Rightarrow> bool" where
  "dists X db x i m \<longleftrightarrow> hm_ok m \<and>
     (\<forall>y d. map_of m y = Some d \<longleftrightarrow>
        (\<exists>j \<le> min i (block_ht X db x). y = (parent X db ^^ j) x \<and> d = of_nat j))"

lemma dists_start: "dists X db x 0 [(x, 0)]"
  by (auto simp: dists_def)

lemma dists_lookup:
  assumes "dists X db x i m" "chain_node X db x" "j \<le> i" "j \<le> block_ht X db x"
  shows "map_of m ((parent X db ^^ j) x) = Some (of_nat j)"
  using assms by (auto simp: dists_def)

lemma dists_None:
  assumes "dists X db x i m"
  shows "map_of m y = None \<longleftrightarrow> (\<forall>j \<le> min i (block_ht X db x). y \<noteq> (parent X db ^^ j) x)"
  using assms unfolding dists_def by (metis not_None_eq)

lemma parent_header:
  "b \<noteq> U256_ZERO \<Longrightarrow> get_block_header X db b = Ok h \<Longrightarrow> parent X db b = prev h"
  by (simp add: parent_def)

text \<open>One side of a round of the loop.\<close>

definition extend_side ::
    "'s ext \<Rightarrow> 's dbase \<Rightarrow> dist_map \<Rightarrow> u256 \<Rightarrow> u64 \<Rightarrow> (dist_map \<times> u256, error) result" where
  "extend_side X db m cur dist =
     (if \<not> u256_is_zero cur
      then and_then (get_block_header X db cur) (\<lambda>h. Ok (hm_insert (prev h) dist m, prev h))
      else Ok (m, cur))"

lemma extend_side_step:
  assumes "dists X db x i m" "chain_node X db x"
  shows "\<exists>m'. extend_side X db m ((parent X db ^^ i) x) (of_nat (Suc i)) =
      Ok (m', (parent X db ^^ Suc i) x) \<and> dists X db x (Suc i) m'"
proof (cases "(parent X db ^^ i) x = U256_ZERO")
  case True
  then have "block_ht X db x \<le> i" using tree.anc_is_root [OF assms(2)] by blast
  then have "min (Suc i) (block_ht X db x) = min i (block_ht X db x)" by simp
  then show ?thesis using True assms(1)
    by (auto simp: extend_side_def u256_is_zero_def dists_def tree.up_root)
next
  case False
  then have i: "i < block_ht X db x" using tree.anc_is_root [OF assms(2)] by (meson not_le)
  let ?y = "(parent X db ^^ Suc i) x"
  have "chain_node X db ((parent X db ^^ i) x)" using tree.node_anc assms(2) by blast
  then obtain h where h: "get_block_header X db ((parent X db ^^ i) x) = Ok h"
    using False by (auto simp: chain_node_def known_block_def result_simps)
  then have y: "prev h = ?y" using parent_header [OF False h] by simp
  have "dists X db x (Suc i) (hm_insert ?y (of_nat (Suc i)) m)"
    unfolding dists_def
  proof (intro conjI allI)
    show "hm_ok (hm_insert ?y (of_nat (Suc i)) m)"
      using assms(1) by (simp add: dists_def distinct_update)
    fix z d
    have min: "min (Suc i) (block_ht X db x) = Suc i" "min i (block_ht X db x) = i" using i by auto
    show "map_of (hm_insert ?y (of_nat (Suc i)) m) z = Some d \<longleftrightarrow>
      (\<exists>j \<le> min (Suc i) (block_ht X db x). z = (parent X db ^^ j) x \<and> d = of_nat j)"
    proof (cases "z = ?y")
      case True
      have uniq: "j = Suc i" if "j \<le> Suc i" "?y = (parent X db ^^ j) x" for j
        using that i tree.anc_inj [OF assms(2), of "Suc i" j] by linarith
      have "(\<exists>j \<le> Suc i. ?y = (parent X db ^^ j) x \<and> d = of_nat j) \<longleftrightarrow> d = of_nat (Suc i)"
        using uniq by blast
      moreover have "map_of (hm_insert ?y (of_nat (Suc i)) m) ?y = Some (of_nat (Suc i))"
        by (simp add: map_simps)
      ultimately show ?thesis unfolding True min by (metis option.inject)
    next
      case False
      then have "map_of (hm_insert ?y (of_nat (Suc i)) m) z = Some d \<longleftrightarrow> map_of m z = Some d"
        by (simp add: map_simps)
      also have "map_of m z = Some d \<longleftrightarrow> (\<exists>j \<le> i. z = (parent X db ^^ j) x \<and> d = of_nat j)"
        using assms(1) unfolding dists_def min by blast
      finally show ?thesis using False unfolding min by (auto simp: le_Suc_eq simp del: funpow.simps)
    qed
  qed
  then show ?thesis using False h y by (auto simp: extend_side_def u256_is_zero_def)
qed

lemma lca_loop_unfold:
  "lca_loop X db a b la lb dist =
    (if hm_get a lb = None \<and> hm_get b la = None \<and> \<not> (u256_is_zero la \<and> u256_is_zero lb)
     then case extend_side X db a la dist of
        Ok (a', la') \<Rightarrow> (case extend_side X db b lb dist of
            Ok (b', lb') \<Rightarrow> lca_loop X db a' b' la' lb' (dist + 1)
          | Err e \<Rightarrow> Some (Err e) | Panic \<Rightarrow> Some Panic | Diverge \<Rightarrow> Some Diverge)
      | Err e \<Rightarrow> Some (Err e) | Panic \<Rightarrow> Some Panic | Diverge \<Rightarrow> Some Diverge
     else Some (Ok (a, b, la, lb)))"
  unfolding extend_side_def by (rule lca_loop.simps)

subsection \<open>The search stops at the meeting point\<close>

lemma lca_loop_meet:
  assumes nodes: "chain_node X db x" "chain_node X db y" and meet: "meet (parent X db) (block_ht X db) x y i j"
    and "k \<le> max i j" "dists X db x k a" "dists X db y k b"
  shows "\<exists>a' b'. lca_loop X db a b ((parent X db ^^ k) x) ((parent X db ^^ k) y) (of_nat (Suc k)) =
      Some (Ok (a', b', (parent X db ^^ max i j) x, (parent X db ^^ max i j) y)) \<and>
      dists X db x (max i j) a' \<and> dists X db y (max i j) b'"
  using assms(4-6)
proof (induction "max i j - k" arbitrary: k a b)
  case 0
  then have k: "k = max i j" by linarith
  have ij: "(parent X db ^^ i) x = (parent X db ^^ j) y" "i \<le> block_ht X db x" "j \<le> block_ht X db y"
    using meet by (auto simp: meet_def)
  have "hm_get a ((parent X db ^^ k) y) \<noteq> None \<or> hm_get b ((parent X db ^^ k) x) \<noteq> None"
  proof (cases "i \<le> j")
    case True
    then show ?thesis using dists_lookup [OF 0(3) nodes(1), of i] ij k by (simp add: max_def)
  next
    case False
    then show ?thesis using dists_lookup [OF 0(4) nodes(2), of j] ij k
      by (metis less_imp_le_nat max.absorb1 not_le option.distinct(1))
  qed
  then show ?case using 0 k by (subst lca_loop_unfold) auto
next
  case (Suc n)
  let ?x = "\<lambda>k. (parent X db ^^ k) x" and ?y = "\<lambda>k. (parent X db ^^ k) y"
  have k: "k < max i j" using Suc.hyps(2) by simp
  have first: "i \<le> i' \<and> j \<le> j'"
    if "i' \<le> block_ht X db x" "j' \<le> block_ht X db y" "?x i' = ?y j'" for i' j'
    using meet that by (auto simp: meet_def)
  have far: False if "?y k = ?x l" "l \<le> min k (block_ht X db x)" for l
  proof (cases "k \<le> block_ht X db y")
    case True
    with first [of l k] that k show False by auto
  next
    case False
    then have z: "?y k = U256_ZERO" using tree.anc_is_root [OF nodes(2)] by simp
    moreover have "?y (block_ht X db y) = U256_ZERO" using tree.anc_is_root [OF nodes(2)] by simp
    ultimately have "?x l = ?y (block_ht X db y)" using that(1) by simp
    from first [OF _ _ this] that(2) False k show False by auto
  qed
  have far': False if "?x k = ?y l" "l \<le> min k (block_ht X db y)" for l
  proof (cases "k \<le> block_ht X db x")
    case True
    with first [of k l] that k show False by auto
  next
    case False
    then have z: "?x k = U256_ZERO" using tree.anc_is_root [OF nodes(1)] by simp
    moreover have "?x (block_ht X db x) = U256_ZERO" using tree.anc_is_root [OF nodes(1)] by simp
    ultimately have "?x (block_ht X db x) = ?y l" using that(1) by simp
    from first [OF _ _ this] that(2) False k show False by auto
  qed
  have "hm_get a (?y k) = None" "hm_get b (?x k) = None"
    using dists_None [OF Suc.prems(2)] dists_None [OF Suc.prems(3)] far far' by blast+
  moreover have "\<not> (?x k = U256_ZERO \<and> ?y k = U256_ZERO)"
  proof
    assume z: "?x k = U256_ZERO \<and> ?y k = U256_ZERO"
    then have "block_ht X db x \<le> k" "block_ht X db y \<le> k"
      using tree.anc_is_root nodes by blast+
    moreover have "i \<le> block_ht X db x" "j \<le> block_ht X db y" using meet by (auto simp: meet_def)
    ultimately show False using k by simp
  qed
  moreover obtain a' b' where
    "extend_side X db a (?x k) (of_nat (Suc k)) = Ok (a', ?x (Suc k))" "dists X db x (Suc k) a'"
    "extend_side X db b (?y k) (of_nat (Suc k)) = Ok (b', ?y (Suc k))" "dists X db y (Suc k) b'"
    using extend_side_step [OF Suc.prems(2) nodes(1)] extend_side_step [OF Suc.prems(3) nodes(2)] by blast
  moreover have "\<exists>a'' b''. lca_loop X db a' b' (?x (Suc k)) (?y (Suc k)) (of_nat (Suc (Suc k))) =
      Some (Ok (a'', b'', ?x (max i j), ?y (max i j))) \<and>
      dists X db x (max i j) a'' \<and> dists X db y (max i j) b''"
    by (rule Suc.hyps(1)) (use Suc.hyps(2) k calculation in auto)
  ultimately show ?case
    by (subst lca_loop_unfold) (simp add: u256_is_zero_def add.commute)
qed

text \<open>The distances that \<open>intersect_dist\<close> reads off the final maps.\<close>

lemma intersect_dist_meet:
  assumes nodes: "chain_node X db x" "chain_node X db y" and meet: "meet (parent X db) (block_ht X db) x y i j"
    and a: "dists X db x (max i j) a" and b: "dists X db y (max i j) b"
  shows "intersect_dist a b ((parent X db ^^ max i j) x) ((parent X db ^^ max i j) y) =
    Ok (of_nat i, of_nat j)"
proof -
  let ?x = "\<lambda>k. (parent X db ^^ k) x" and ?y = "\<lambda>k. (parent X db ^^ k) y" and ?m = "max i j"
  have ij: "?x i = ?y j" "i \<le> block_ht X db x" "j \<le> block_ht X db y"
    and first: "\<And>i' j'. i' \<le> block_ht X db x \<Longrightarrow> j' \<le> block_ht X db y \<Longrightarrow> ?x i' = ?y j' \<Longrightarrow> i \<le> i' \<and> j \<le> j'"
    using meet by (auto simp: meet_def)
  have hit_a: "map_of a (?x i) = Some (of_nat i)" and hit_b: "map_of b (?y j) = Some (of_nat j)"
    using dists_lookup [OF a nodes(1), of i] dists_lookup [OF b nodes(2), of j] ij(2,3) by simp_all
  have only_a: "d = of_nat i" if "map_of a (?y ?m) = Some d" "i > j" for d
  proof -
    from that(1) a obtain l where l: "l \<le> min ?m (block_ht X db x)" "?y ?m = ?x l" "d = of_nat l"
      by (auto simp: dists_def)
    have "i \<le> l"
    proof (cases "?m \<le> block_ht X db y")
      case True
      then show ?thesis using first [of l ?m] l by auto
    next
      case False
      then have "?x l = ?y (block_ht X db y)"
        using l(2) tree.anc_is_root [OF nodes(2)] by (metis nat_le_linear order_refl)
      then show ?thesis using first [of l "block_ht X db y"] l by auto
    qed
    then show ?thesis using l that(2) by auto
  qed
  have only_b: "d = of_nat j" if "map_of b (?x ?m) = Some d" "j > i" for d
  proof -
    from that(1) b obtain l where l: "l \<le> min ?m (block_ht X db y)" "?x ?m = ?y l" "d = of_nat l"
      by (auto simp: dists_def)
    have "j \<le> l"
    proof (cases "?m \<le> block_ht X db x")
      case True
      then show ?thesis using first [of ?m l] l by auto
    next
      case False
      then have "?x (block_ht X db x) = ?y l"
        using l(2) tree.anc_is_root [OF nodes(1)] by (metis nat_le_linear order_refl)
      then show ?thesis using first [of "block_ht X db x" l] l by auto
    qed
    then show ?thesis using l that(2) by auto
  qed
  consider "i = j" | "i < j" | "j < i" by linarith
  then show ?thesis
  proof cases
    case 1
    then show ?thesis using hit_a hit_b ij(1) by (simp add: intersect_dist_def)
  next
    case 2
    then show ?thesis using hit_a hit_b ij(1) only_b
      by (auto simp: intersect_dist_def max_def split: option.split)
  next
    case 3
    then show ?thesis using hit_a hit_b ij(1) only_a
      by (auto simp: intersect_dist_def max_def split: option.split)
  qed
qed

subsection \<open>The path between two blocks\<close>

text \<open>The \<open>i\<close> blocks from \<open>x\<close> downwards with their heights, the lowest first.\<close>

definition branch :: "'s ext \<Rightarrow> 's dbase \<Rightarrow> u256 \<Rightarrow> nat \<Rightarrow> (u64 \<times> u256) list" where
  "branch X db x i =
     map (\<lambda>k. (of_nat (block_ht X db x - k), (parent X db ^^ k) x)) (rev [0..<i])"

lemma length_branch [simp]: "length (branch X db x i) = i"
  by (simp add: branch_def)

lemma of_nat_u64_less:
  "i < 2 ^ 64 \<Longrightarrow> j < 2 ^ 64 \<Longrightarrow> (of_nat i :: u64) < of_nat j \<longleftrightarrow> i < j"
  by (simp add: word_less_nat_alt unat_of_nat_u64)

lemma branch_ok:
  assumes "i \<le> block_ht X db x"
  shows "bt_ok (branch X db x i)"
  unfolding branch_def
  using assms
proof (induction i)
  case (Suc i)
  have "block_ht X db x < 2 ^ 64" by (rule block_ht_bound)
  then have "(of_nat (block_ht X db x - i) :: u64) < of_nat (block_ht X db x - k)" if "k < i" for k
    using that Suc.prems by (subst of_nat_u64_less) auto
  with Suc show ?case by (auto simp: comp_def)
qed simp

lemma path_heights_fold:
  assumes "\<forall>(k, d) \<in> set m. d < dist \<longrightarrow> d \<le> base"
  shows "path_heights base dist m =
    Ok (fold (\<lambda>(k, v). bt_insert k v) (map (\<lambda>(k, d). (base - d, k)) (filter (\<lambda>(_, d). d < dist) m)) [])"
proof -
  have "for_each (\<lambda>(k, d) hs. and_then (assert_rs (d \<le> base)) (\<lambda>_. Ok (bt_insert (base - d) k hs))) F acc =
      Ok (fold (\<lambda>(k, v). bt_insert k v) (map (\<lambda>(k, d). (base - d, k)) F) acc)"
    if "\<forall>(k, d) \<in> set F. d \<le> base" for F and acc
    using that by (induction F arbitrary: acc) auto
  from this [of "filter (\<lambda>(_, d). d < dist) m" "[]"] show ?thesis
    using assms unfolding path_heights_def by fastforce
qed

lemma path_heights_branch:
  assumes m: "dists X db x n m" and x: "chain_node X db x" and i: "i \<le> n" "i \<le> block_ht X db x"
    and base: "unat base = block_ht X db x"
  shows "path_heights base (of_nat i) m = Ok (branch X db x i)"
proof -
  let ?a = "\<lambda>k. (parent X db ^^ k) x" and ?h = "block_ht X db x"
  let ?F = "filter (\<lambda>(_, d). d < of_nat i) m"
  let ?G = "map (\<lambda>(k, d). (base - d, k)) ?F"
  have h: "?h < 2 ^ 64" by (rule block_ht_bound)
  have hm: "hm_ok m" using m by (simp add: dists_def)
  have entry: "(k, d) \<in> set ?F \<longleftrightarrow> (\<exists>j < i. k = ?a j \<and> d = of_nat j)" for k d
  proof -
    have "(k, d) \<in> set m \<longleftrightarrow> (\<exists>j \<le> min n ?h. k = ?a j \<and> d = of_nat j)"
      using m map_of_eq_Some_iff [OF hm, of k d] by (simp add: dists_def)
    moreover have "(of_nat j :: u64) < of_nat i \<longleftrightarrow> j < i" if "j \<le> ?h" for j
      using that i h by (simp add: of_nat_u64_less)
    ultimately show ?thesis using i by (auto simp: min_def split: if_splits) force+
  qed
  have sub: "base - of_nat j = of_nat (?h - j)" if "j < i" for j
    using that i h base by (simp add: word_unat_eq_iff unat_sub_of_nat unat_of_nat_u64)
  have setG: "set ?G = set (branch X db x i)"
  proof -
    have "(u, k) \<in> set ?G \<longleftrightarrow> (\<exists>j < i. k = ?a j \<and> u = of_nat (?h - j))" for u k
      using entry sub by (auto simp: image_iff Bex_def) metis+
    moreover have "(u, k) \<in> set (branch X db x i) \<longleftrightarrow> (\<exists>j < i. k = ?a j \<and> u = of_nat (?h - j))" for u k
      by (auto simp: branch_def)
    ultimately show ?thesis by (simp only: set_eq_iff split_paired_All) simp
  qed
  have distinctG: "distinct (map fst ?G)"
  proof -
    have point: "\<exists>j < i. p = (?a j, of_nat j)" if "p \<in> set ?F" for p
    proof (cases p)
      case (Pair k d)
      then show ?thesis using that unfolding Pair entry by blast
    qed
    have "distinct ?F" using hm by (simp add: distinct_map)
    moreover have "p = q"
      if p: "p \<in> set ?F" and q: "q \<in> set ?F" and eq: "base - snd p = base - snd q" for p q
    proof -
      obtain j where j: "p = (?a j, of_nat j)" "j < i"
        using point [OF p] by blast
      obtain j' where j': "q = (?a j', of_nat j')" "j' < i"
        using point [OF q] by blast
      have "(of_nat j :: u64) = of_nat j'" using eq j j' by simp
      moreover have "j < 2 ^ 64" "j' < 2 ^ 64" using j(2) j'(2) i h by linarith+
      ultimately have "j = j'" using unat_of_nat_u64 by metis
      then show ?thesis using j j' by simp
    qed
    ultimately show ?thesis by (auto simp: distinct_map inj_on_def split_beta)
  qed
  have "path_heights base (of_nat i) m = Ok (fold (\<lambda>(k, v). bt_insert k v) ?G [])"
  proof (rule path_heights_fold, clarify)
    fix k d assume "(k, d) \<in> set m" "d < of_nat i"
    then obtain j where "j < i" "d = of_nat j" using entry [of k d] by auto
    then show "d \<le> base" using i h base by (simp add: word_le_nat_alt unat_of_nat_u64)
  qed
  moreover have "fold (\<lambda>(k, v). bt_insert k v) ?G [] = branch X db x i"
  proof (rule bt_ok_ext)
    show "bt_ok (branch X db x i)" by (rule branch_ok [OF i(2)])
    show "map_of (fold (\<lambda>(k, v). bt_insert k v) ?G []) = map_of (branch X db x i)"
      using bt_insert_fold [of "[]" ?G] distinctG setG
        map_of_inject_set [OF distinctG bt_ok_distinct [OF branch_ok [OF i(2)]]] by simp
  qed (use bt_insert_fold [of "[]" ?G] distinctG in simp)
  ultimately show ?thesis by simp
qed

lemma block_path_meet:
  assumes inv: "chain_inv X db" and a: "a = get_current_block_hash db" "known_block X db a"
    and b: "known_block X db b"
    and shards: "\<And>ha hb. get_block_header X db a = Ok ha \<Longrightarrow> get_block_header X db b = Ok hb \<Longrightarrow>
      shard ha = shard hb \<or> shard ha = U256_ZERO \<or> shard hb = U256_ZERO"
    and meet: "meet (parent X db) (block_ht X db) a b i j"
  shows "calculate_block_path X db a b = Ok (branch X db a i, branch X db b j)"
proof -
  have nodes: "chain_node X db a" "chain_node X db b" using inv a b by (auto simp: chain_node_def)
  obtain ha hb where hdr: "get_block_header X db a = Ok ha" "get_block_header X db b = Ok hb"
    using a b by (auto simp: known_block_def result_simps)
  obtain ma mb where loop: "lca_loop X db [(a, 0)] [(b, 0)] a b 1 =
      Some (Ok (ma, mb, (parent X db ^^ max i j) a, (parent X db ^^ max i j) b))"
    and dists: "dists X db a (max i j) ma" "dists X db b (max i j) mb"
    using lca_loop_meet [OF nodes meet, of 0 "[(a, 0)]" "[(b, 0)]"] by (auto simp: dists_start)
  have ij: "i \<le> block_ht X db a" "j \<le> block_ht X db b"
    "(parent X db ^^ i) a = (parent X db ^^ j) b" using meet by (auto simp: meet_def)
  have lvl: "block_ht X db a - i = block_ht X db b - j"
    using tree.ht_anc [OF nodes(1), of i] tree.ht_anc [OF nodes(2), of j] ij(3) by simp
  let ?H = "get_current_block_height db"
  have H: "unat ?H = block_ht X db a"
    using chain_inv_head [OF inv] a by (auto simp: block_ht_def known_block_def result_simps split: if_splits)
  have "?H - of_nat i + of_nat j = (of_nat (block_ht X db b) :: u64)"
  proof -
    have "?H = of_nat (block_ht X db a)" using H by (metis of_nat_unat ucast_id)
    then have "?H - of_nat i + of_nat j = (of_nat (block_ht X db a - i + j) :: u64)"
      using ij(1) by (simp add: of_nat_diff)
    also have "block_ht X db a - i + j = block_ht X db b" using lvl ij by linarith
    finally show ?thesis .
  qed
  then have "unat (?H - of_nat i + of_nat j) = block_ht X db b"
    using block_ht_bound [of X db b] by (simp add: unat_of_nat_u64)
  then show ?thesis
    using shards [OF hdr]
    by (simp add: calculate_block_path_def latest_common_ancestor_def hdr loop u256_is_zero_def
      path_heights_branch [OF dists(1) nodes(1) _ ij(1) H]
      path_heights_branch [OF dists(2) nodes(2) _ ij(2)] intersect_dist_meet [OF nodes meet dists])
qed

text \<open>
  C16: from the head to any known block, the path computation ends. When the two blocks are of
  the same shard, or one of them of the zero shard, it returns the blocks to undo and the blocks
  to apply, ordered by height: the two branches down to the meeting point of the two ascents,
  which is their latest common ancestor (every common ancestor is an ancestor of it). When the
  shards are different and both nonzero the \<open>assert!\<close> of the code panics.
\<close>

theorem block_path_correct:
  assumes inv: "chain_inv X db" and known: "known_block X db (get_current_block_hash db)"
    "known_block X db b"
  shows "\<exists>ha hb. get_block_header X db (get_current_block_hash db) = Ok ha \<and>
    get_block_header X db b = Ok hb \<and>
    (if shard ha = shard hb \<or> shard ha = U256_ZERO \<or> shard hb = U256_ZERO then
       \<exists>i j. meet (parent X db) (block_ht X db) (get_current_block_hash db) b i j \<and>
         calculate_block_path X db (get_current_block_hash db) b =
           Ok (branch X db (get_current_block_hash db) i, branch X db b j) \<and>
         (\<forall>i' j'. (parent X db ^^ i') (get_current_block_hash db) = (parent X db ^^ j') b \<longrightarrow>
           (\<exists>k. (parent X db ^^ i') (get_current_block_hash db) =
             (parent X db ^^ k) ((parent X db ^^ i) (get_current_block_hash db))))
     else calculate_block_path X db (get_current_block_hash db) b = Panic)"
proof -
  let ?a = "get_current_block_hash db"
  have nodes: "chain_node X db ?a" "chain_node X db b" using assms by (auto simp: chain_node_def)
  obtain i j where m: "meet (parent X db) (block_ht X db) ?a b i j"
    using tree.meet_exists [OF nodes] by blast
  obtain ha hb where hdr: "get_block_header X db ?a = Ok ha" "get_block_header X db b = Ok hb"
    using known by (auto simp: known_block_def result_simps)
  have path: "calculate_block_path X db ?a b = Ok (branch X db ?a i, branch X db b j)"
    if "shard ha = shard hb \<or> shard ha = U256_ZERO \<or> shard hb = U256_ZERO"
    using block_path_meet [OF inv refl known _ m] that hdr by auto
  moreover have "calculate_block_path X db ?a b = Panic"
    if "\<not> (shard ha = shard hb \<or> shard ha = U256_ZERO \<or> shard hb = U256_ZERO)"
    using that by (simp add: calculate_block_path_def hdr u256_is_zero_def assert_rs_def)
  ultimately show ?thesis using m hdr tree.meet_lca [OF nodes m] by (simp, blast)
qed

subsection \<open>The head of the chain\<close>

lemma blocks_of_height_iff:
  assumes "chain_inv X db"
  obtains l where "get_blocks_of_height X db n = Ok l"
    "\<And>b. b \<in> set l \<longleftrightarrow> known_block X db b \<and> block_ht X db b = unat n"
proof -
  obtain l where l: "get_blocks_of_height X db n = Ok l"
    "\<forall>b. b \<in> set l \<longleftrightarrow> known_block X db b \<and> stored_height X db b = Some n"
    using chain_inv_height(1) [OF assms] by blast
  have "known_block X db b \<and> stored_height X db b = Some n \<longleftrightarrow>
      known_block X db b \<and> block_ht X db b = unat n" for b
  proof (cases "known_block X db b")
    case True
    then obtain h where h: "get_block_header X db b = Ok h" by (auto simp: known_block_def result_simps)
    then show ?thesis
      using chain_inv_header [OF assms h] by (auto simp: block_ht_def word_unat_eq_iff)
  qed simp
  then show thesis using that [OF l(1)] l(2) by blast
qed

lemma known_block_ht:
  assumes "chain_inv X db" "known_block X db b"
  shows "0 < block_ht X db b"
proof -
  have "chain_node X db b" "b \<noteq> U256_ZERO"
    using assms chain_inv_header(1) by (auto simp: chain_node_def known_block_def result_simps)
  then show ?thesis using tree.ht_0_iff by blast
qed

text \<open>A height with a known block has known blocks at every height below it.\<close>

lemma heights_contiguous:
  assumes "chain_inv X db" "known_block X db b" "0 < h" "h \<le> block_ht X db b"
  shows "\<exists>x. known_block X db x \<and> block_ht X db x = h"
proof -
  let ?x = "(parent X db ^^ (block_ht X db b - h)) b"
  have n: "chain_node X db b" using assms by (simp add: chain_node_def)
  have "block_ht X db ?x = h" using tree.ht_anc [OF n] assms(4) by simp
  moreover have "?x \<noteq> U256_ZERO" using calculation assms(3) tree.ht_root [of X db] by auto
  ultimately show ?thesis using tree.node_anc [OF n] by (auto simp: chain_node_def)
qed

lemma find_chain_head_loop_top:
  assumes inv: "chain_inv X db" and "known_block X db c" "block_ht X db c = unat h"
  shows "\<exists>c'. find_chain_head_loop X db h c = Some (Ok c') \<and> known_block X db c' \<and>
    (\<forall>b. known_block X db b \<longrightarrow> block_ht X db b \<le> block_ht X db c') \<and>
    ((\<forall>b. known_block X db b \<longrightarrow> block_ht X db b \<le> unat h) \<longrightarrow> c' = c)"
  using assms(2,3)
proof (induction "2 ^ 64 - unat h" arbitrary: h c rule: less_induct)
  case less
  obtain l where l: "get_blocks_of_height X db (h + 1) = Ok l"
    "\<And>b. b \<in> set l \<longleftrightarrow> known_block X db b \<and> block_ht X db b = unat (h + 1)"
    using blocks_of_height_iff [OF inv] by blast
  show ?case
  proof (cases l)
    case Nil
    have "block_ht X db b \<le> unat h" if "known_block X db b" for b
    proof (rule ccontr)
      assume b: "\<not> block_ht X db b \<le> unat h"
      then have "Suc (unat h) < 2 ^ 64" using block_ht_bound [of X db b] by linarith
      then have "unat (h + 1) = Suc (unat h)" by (rule unat_Suc_u64)
      then show False
        using heights_contiguous [OF inv that, of "Suc (unat h)"] b l(2) Nil by auto
    qed
    then show ?thesis using less.prems l(1) Nil by (subst find_chain_head_loop.simps) auto
  next
    case (Cons b bs)
    then have b: "known_block X db b" "block_ht X db b = unat (h + 1)" using l(2) by auto
    then have "unat (h + 1) \<noteq> 0" using known_block_ht [OF inv b(1)] by simp
    then have up: "unat (h + 1) = Suc (unat h)" 
      using unat_plus_if' [of h 1] unat_less_2p64 [of h] by (simp split: if_splits)
    moreover have "unat h < 2 ^ 64" by (rule unat_less_2p64)
    ultimately have "2 ^ 64 - unat (h + 1) < 2 ^ 64 - unat h" by linarith
    from less.hyps [OF this b] obtain c' where "find_chain_head_loop X db (h + 1) b = Some (Ok c')"
      "known_block X db c'" "\<forall>b. known_block X db b \<longrightarrow> block_ht X db b \<le> block_ht X db c'" by blast
    moreover have "\<not> (\<forall>b. known_block X db b \<longrightarrow> block_ht X db b \<le> unat h)"
      using b up by auto
    ultimately show ?thesis using l(1) Cons by (subst find_chain_head_loop.simps) auto
  qed
qed

lemma chain_head_highest:
  assumes "chain_inv X db" "known_block X db (get_current_block_hash db)"
  shows "\<exists>c. find_chain_head X db = Ok c \<and> known_block X db c \<and>
    (\<forall>b. known_block X db b \<longrightarrow> block_ht X db b \<le> block_ht X db c) \<and>
    ((\<forall>b. known_block X db b \<longrightarrow> block_ht X db b \<le> block_ht X db (get_current_block_hash db)) \<longrightarrow>
      c = get_current_block_hash db)"
proof -
  have "get_current_block_hash db \<noteq> U256_ZERO"
    using assms chain_inv_header(1) by (auto simp: known_block_def result_simps)
  then have "block_ht X db (get_current_block_hash db) = unat (get_current_block_height db)"
    using chain_inv_head [OF assms(1)] by (simp add: block_ht_def)
  from find_chain_head_loop_top [OF assms this] this show ?thesis
    by (auto simp: find_chain_head_def)
qed

text \<open>
  C4: \<open>find_chain_head\<close> terminates and returns a known block of the greatest height, and it
  keeps the current head when no known block is higher.
\<close>

theorem find_chain_head_highest:
  assumes "chain_inv X db" "known_block X db (get_current_block_hash db)"
  shows "\<exists>c. find_chain_head X db = Ok c \<and> known_block X db c \<and>
    (\<forall>b. known_block X db b \<longrightarrow> block_ht X db b \<le> block_ht X db c) \<and>
    ((\<forall>b. known_block X db b \<longrightarrow> block_ht X db b \<le> block_ht X db (get_current_block_hash db)) \<longrightarrow>
      c = get_current_block_hash db)"
  using assms by (rule chain_head_highest)

end
