(* ===== verification/Walk.thy ===== *)
theory Walk
  imports Lca
begin

text \<open>
  \<open>walk\<close> moves the database to a given block: when it returns, the head is that block at its
  height, the stored chain is intact, and the blocks marked as the current chain are exactly
  the ancestors of the new head. The number it returns counts the blocks undone.
\<close>

subsection \<open>Marks of the current chain\<close>

text \<open>At every height up to the head, the front of the height's list is the head's ancestor.\<close>

definition marks_ok :: "'s ext \<Rightarrow> 's dbase \<Rightarrow> bool" where
  "marks_ok X db \<longleftrightarrow>
     (\<forall>k < block_ht X db (get_current_block_hash db).
        get_current_block_of_height X db (of_nat (block_ht X db (get_current_block_hash db) - k)) =
          Ok ((parent X db ^^ k) (get_current_block_hash db)))"

text \<open>Two databases that hold the same blocks: same headers, same heights, same height lists up to order.\<close>

definition same_blocks :: "'s ext \<Rightarrow> 's dbase \<Rightarrow> 's dbase \<Rightarrow> bool" where
  "same_blocks X db db' \<longleftrightarrow>
     (\<forall>b. get_block_header X db' b = get_block_header X db b) \<and>
     (\<forall>b. stored_height X db' b = stored_height X db b) \<and>
     (\<forall>n l. get_blocks_of_height X db n = Ok l \<longrightarrow> distinct l \<longrightarrow>
        (\<exists>l'. get_blocks_of_height X db' n = Ok l' \<and> distinct l' \<and> set l' = set l))"

lemma same_blocks_refl [simp]: "same_blocks X db db"
  by (simp add: same_blocks_def)

lemma same_blocks_trans [trans]: "same_blocks X a b \<Longrightarrow> same_blocks X b c \<Longrightarrow> same_blocks X a c"
  unfolding same_blocks_def by (metis (no_types, lifting))

lemma same_blocks_tree:
  assumes "same_blocks X db db'"
  shows "parent X db' = parent X db" "block_ht X db' = block_ht X db" "known_block X db' = known_block X db"
  using assms
  by (auto simp: same_blocks_def parent_def block_ht_def known_block_def fun_eq_iff)

lemma chain_inv_same_blocks:
  assumes inv: "chain_inv X db" and same: "same_blocks X db db'"
    and head: "known_block X db (href_block (db_head db'))"
      "stored_height X db (href_block (db_head db')) = Some (href_height (db_head db'))"
  shows "chain_inv X db'"
proof -
  note sb = same [unfolded same_blocks_def] and t = same_blocks_tree [OF same]
  have rd: "get_block_header X db' = get_block_header X db" "stored_height X db' = stored_height X db"
    using sb by (auto simp: fun_eq_iff)
  have ne: "href_block (db_head db') \<noteq> U256_ZERO"
    using chain_inv_header(1) [OF inv] head(1) by (auto simp: known_block_def result_simps)
  have "\<exists>l. get_blocks_of_height X db' n = Ok l \<and> distinct l \<and>
        (\<forall>b. b \<in> set l \<longleftrightarrow> known_block X db b \<and> stored_height X db b = Some n)" for n
    using chain_inv_height(1) [OF inv, of n] sb by metis
  moreover have "\<forall>b hdr. get_block_header X db' b = Ok hdr \<longrightarrow> b \<noteq> U256_ZERO \<and>
        (\<exists>n. stored_height X db' b = Some n \<and>
           (if prev hdr = U256_ZERO then n = 1
            else known_block X db (prev hdr) \<and>
              (\<exists>m. stored_height X db' (prev hdr) = Some m \<and> unat n = Suc (unat m))))"
    unfolding rd using chain_inv_header [OF inv] by blast
  moreover have "\<forall>b n. stored_height X db' b = Some n \<longrightarrow> known_block X db b"
    unfolding rd using chain_inv_height(2) [OF inv] by blast
  ultimately show ?thesis
    using sb head ne unfolding chain_inv_def t
    by (simp add: get_current_block_hash_def get_current_block_height_def)
qed

context chain_store
begin

lemma update_current_block_effect:
  assumes "ok db" "update_current_block X b (Some h) db = (Ok (), db')"
  shows "ok db'" "db_head db' = \<lparr>href_block = b, href_height = h\<rparr>"
    "chain_key k \<Longrightarrow> k \<noteq> Cache CurrentHead \<Longrightarrow> val db' k = val db k"
proof -
  let ?r = "\<lparr>href_block = b, href_height = h\<rparr>"
  have run: "db_put X (Cache CurrentHead) (ser_head_ref ?r) (set_head ?r db) = (Ok (), db')"
    using assms(2) by (simp add: update_current_block_def Let_def bind_st_def read_st_def)
  have ok': "ok (set_head ?r db)" using assms(1) head_val by simp
  note p = putD [OF run ok']
  show "ok db'" "db_head db' = ?r" using p by simp_all
  show "chain_key k \<Longrightarrow> k \<noteq> Cache CurrentHead \<Longrightarrow> val db' k = val db k"
    using p(4) head_val(2) by simp
qed

text \<open>Readings of the chain depend only on the values of its keys.\<close>

lemma readings_cong:
  assumes "ok db" "ok db'"
  shows "val db' (Blockchain (BlockHeaderE b)) = val db (Blockchain (BlockHeaderE b)) \<Longrightarrow>
      get_block_header X db' b = get_block_header X db b"
    "val db' (Cache (HeightByBlock b)) = val db (Cache (HeightByBlock b)) \<Longrightarrow>
      stored_height X db' b = stored_height X db b"
    "val db' (Cache (BlocksByHeight n)) = val db (Cache (BlocksByHeight n)) \<Longrightarrow>
      get_blocks_of_height X db' n = get_blocks_of_height X db n"
    "val db' (Cache (BlocksByHeight n)) = val db (Cache (BlocksByHeight n)) \<Longrightarrow>
      get_current_block_of_height X db' n = get_current_block_of_height X db n"
  using assms
  by (simp_all add: get_block_header_def stored_height_def get_blocks_of_height_def
    get_current_block_of_height_def get_val)

subsection \<open>Undoing one block\<close>

lemma undo_block_effect:
  assumes "ok db" "undo_block X (h, b) e db = (Ok e', db')"
  obtains hdr where "get_block_header X db b = Ok hdr" "ok db'"
    "db_head db' = \<lparr>href_block = prev hdr, href_height = h - 1\<rparr>"
    "\<And>k. \<not> is_network_key k \<Longrightarrow> k \<noteq> Cache CurrentHead \<Longrightarrow> val db' k = val db k"
proof -
  from assms(2) obtain hdr con db1 where hdr: "get_block_header X db b = Ok hdr"
    and m: "db_undo_mutate X con db = (Ok (), db1)"
    and u: "update_current_block X (prev hdr) (Some (h - 1)) db1 = (Ok (), db')"
    unfolding undo_block_def by (auto simp: result_simps)
  note k = keeps_chainD [OF undo_mutate_keeps assms(1) m]
  note e = update_current_block_effect [OF k(1) u]
  show thesis by (rule that [OF hdr e(1,2)]) (use k e in auto)
qed

lemma undo_branch:
  assumes "ok db" "chain_inv X db" "known_block X db a" "i \<le> block_ht X db a"
    and "db_head db = \<lparr>href_block = a, href_height = of_nat (block_ht X db a)\<rparr>"
    and "fold_st (undo_block X)
      (map (\<lambda>k. (of_nat (block_ht X db a - k), (parent X db ^^ k) a)) [0..<i]) e db = (Ok e', db')"
  shows "ok db' \<and>
    db_head db' = \<lparr>href_block = (parent X db ^^ i) a, href_height = of_nat (block_ht X db a - i)\<rparr> \<and>
    (\<forall>k. \<not> is_network_key k \<longrightarrow> k \<noteq> Cache CurrentHead \<longrightarrow> val db' k = val db k)"
  using assms(4,6)
proof (induction i arbitrary: e' db')
  case 0
  then show ?case using assms(1,5) by simp
next
  case (Suc i)
  let ?b = "(parent X db ^^ i) a" and ?h = "block_ht X db a"
  from Suc.prems(2) obtain e1 db1 where
    first: "fold_st (undo_block X) (map (\<lambda>k. (of_nat (?h - k), (parent X db ^^ k) a)) [0..<i]) e db = (Ok e1, db1)"
    and last: "undo_block X (of_nat (?h - i), ?b) e1 db1 = (Ok e', db')"
    by (auto simp: fold_st_append result_simps)
  have ih: "ok db1" "\<And>k. \<not> is_network_key k \<Longrightarrow> k \<noteq> Cache CurrentHead \<Longrightarrow> val db1 k = val db k"
    using Suc.IH [OF _ first] Suc.prems(1) by auto
  obtain hdr where hdr: "get_block_header X db1 ?b = Ok hdr" "ok db'"
    "db_head db' = \<lparr>href_block = prev hdr, href_height = of_nat (?h - i) - 1\<rparr>"
    "\<And>k. \<not> is_network_key k \<Longrightarrow> k \<noteq> Cache CurrentHead \<Longrightarrow> val db' k = val db1 k"
    using undo_block_effect [OF ih(1) last] by metis
  have "chain_node X db a" using assms(2,3) by (simp add: chain_node_def)
  then have "?b \<noteq> U256_ZERO" using tree.anc_is_root Suc.prems(1) by (metis Suc_n_not_le_n order_trans)
  moreover have "get_block_header X db ?b = Ok hdr"
    using hdr(1) readings_cong(1) [OF assms(1) ih(1)] ih(2) by simp
  ultimately have "prev hdr = (parent X db ^^ Suc i) a" using parent_header [of ?b X db hdr] by simp
  moreover have "(of_nat (?h - i) - 1 :: u64) = of_nat (?h - Suc i)"
    using Suc.prems(1) by (simp add: of_nat_diff)
  ultimately show ?case using hdr ih by auto
qed

subsection \<open>Applying one block\<close>

lemma swap_front:
  assumes "position (\<lambda>h. h = b) l = Some i"
  shows "i < length l" "l ! i = b" "swap 0 i l ! 0 = b" "set (swap 0 i l) = set l"
    "distinct l \<Longrightarrow> distinct (swap 0 i l)" "swap 0 i l \<noteq> []"
proof -
  have i: "i < length l \<and> l ! i = b" using assms
  proof (induction l arbitrary: i)
    case (Cons x xs)
    then show ?case by (cases "x = b") auto
  qed simp
  then show "i < length l" "l ! i = b" by auto
  have len: "length l \<noteq> 0" using i by auto
  show "swap 0 i l ! 0 = b" using i len by (cases "i = 0") (auto simp: swap_def nth_list_update)
  show "set (swap 0 i l) = set l" "distinct l \<Longrightarrow> distinct (swap 0 i l)"
    using i len by (auto simp: swap_def)
  show "swap 0 i l \<noteq> []" using len by (auto simp: swap_def)
qed

lemma update_current_chain_effect:
  assumes "ok db" "update_current_chain X n b db = (Ok (), db')"
  shows "ok db'" "db_head db' = db_head db"
    "chain_key k \<Longrightarrow> k \<noteq> Cache (BlocksByHeight n) \<Longrightarrow> val db' k = val db k"
    "get_current_block_of_height X db' n = Ok b"
    "\<exists>l l'. get_blocks_of_height X db n = Ok l \<and> get_blocks_of_height X db' n = Ok l' \<and>
      set l' = set l \<and> (distinct l \<longrightarrow> distinct l')"
proof -
  let ?k = "Cache (BlocksByHeight n)"
  obtain v l where v: "val db ?k = Some v" "de (hash_list_codec X) v = Ok l"
    and run: "(case position (\<lambda>h. h = b) l of
        Some index \<Rightarrow> db_put X ?k (ser (hash_list_codec X) (swap 0 index l))
      | None \<Rightarrow> read_st (\<lambda>db. Err (NotFound ?k))) db = (Ok (), db')"
    using assms unfolding update_current_chain_def Let_def by (auto simp: result_simps get_Ok)
  then obtain i where i: "position (\<lambda>h. h = b) l = Some i"
    and put: "db_put X ?k (ser (hash_list_codec X) (swap 0 i l)) db = (Ok (), db')"
    by (cases "position (\<lambda>h. h = b) l") (auto simp: read_st_def)
  note p = putD [OF put assms(1)] and sw = swap_front [OF i]
  show "ok db'" "db_head db' = db_head db" using p by simp_all
  show "chain_key k \<Longrightarrow> k \<noteq> Cache (BlocksByHeight n) \<Longrightarrow> val db' k = val db k" using p(4) by simp
  have l': "val db' ?k = Some (ser (hash_list_codec X) (swap 0 i l))" using p by simp
  show "get_current_block_of_height X db' n = Ok b"
    using l' p(2) codecs [OF assms(1)] sw(3,6)
    by (simp add: get_current_block_of_height_def get_val neq_Nil_conv split: list.split) auto
  have "get_blocks_of_height X db n = Ok l" "get_blocks_of_height X db' n = Ok (swap 0 i l)"
    using v l' p(2) assms(1) codecs [OF assms(1)] by (simp_all add: blocks_of_height_eq)
  then show "\<exists>l l'. get_blocks_of_height X db n = Ok l \<and> get_blocks_of_height X db' n = Ok l' \<and>
      set l' = set l \<and> (distinct l \<longrightarrow> distinct l')"
    using sw by blast
qed

lemma redo_block_effect:
  assumes "ok db" "redo_block X (h, b) e db = (Ok e', db')"
  shows "ok db'" "db_head db' = \<lparr>href_block = b, href_height = h\<rparr>"
    "same_blocks X db db'" "get_current_block_of_height X db' h = Ok b"
    "n \<noteq> h \<Longrightarrow> get_current_block_of_height X db' n = get_current_block_of_height X db n"
proof -
  from assms(2) obtain blk m con db1 db2 db3 where
    m: "db_mutate X m db = (Ok con, db1)"
    and c: "add_contra X b con db1 = (Ok (), db2)"
    and ch: "update_current_chain X h b db2 = (Ok (), db3)"
    and u: "update_current_block X b (Some h) db3 = (Ok (), db')"
    unfolding redo_block_def by (auto simp: result_simps)
  note k = keeps_chainD [OF mutate_keeps assms(1) m]
  note pc = putD [OF c [unfolded add_contra_def] k(1) chain_key_simps(2)]
  note uc = update_current_chain_effect [OF _ ch]
  note uc = uc [OF pc(2)]
  note e = update_current_block_effect [OF uc(1) u]
  show "ok db'" "db_head db' = \<lparr>href_block = b, href_height = h\<rparr>" using e by simp_all
  have same: "val db' k = val db k" if "\<not> is_network_key k"
    "k \<noteq> Cache (BlocksByHeight h)" "k \<noteq> Cache CurrentHead" "k \<noteq> Cache (ContraMut b)" for k
    using that e(3) uc(3) pc(4) k(3) by simp
  have list: "val db' (Cache (BlocksByHeight h)) = val db3 (Cache (BlocksByHeight h))"
    "val db2 (Cache (BlocksByHeight h)) = val db (Cache (BlocksByHeight h))"
    using e(3) pc(4) k(3) by simp_all
  show "get_current_block_of_height X db' h = Ok b"
    using uc(4) readings_cong(4) [OF uc(1) e(1) list(1)] by simp
  show "n \<noteq> h \<Longrightarrow> get_current_block_of_height X db' n = get_current_block_of_height X db n"
    by (rule readings_cong(4) [OF assms(1) e(1)]) (rule same; simp)
  show "same_blocks X db db'"
    unfolding same_blocks_def
  proof (intro conjI allI impI)
    show "get_block_header X db' x = get_block_header X db x" for x
      by (rule readings_cong(1) [OF assms(1) e(1)]) (simp add: same)
    show "stored_height X db' x = stored_height X db x" for x
      by (rule readings_cong(2) [OF assms(1) e(1)]) (simp add: same)
    fix n l assume l: "get_blocks_of_height X db n = Ok l" "distinct l"
    show "\<exists>l'. get_blocks_of_height X db' n = Ok l' \<and> distinct l' \<and> set l' = set l"
    proof (cases "n = h")
      case True
      have "get_blocks_of_height X db2 h = Ok l"
        using l(1) True readings_cong(3) [OF assms(1) pc(2) list(2)] by simp
      moreover have "get_blocks_of_height X db' h = get_blocks_of_height X db3 h"
        by (rule readings_cong(3) [OF uc(1) e(1) list(1)])
      ultimately show ?thesis using uc(5) l(2) True by auto
    next
      case False
      then have "get_blocks_of_height X db' n = get_blocks_of_height X db n"
        by (intro readings_cong(3) [OF assms(1) e(1)] same) simp_all
      then show ?thesis using l by auto
    qed
  qed
qed

lemma redo_branch:
  assumes "ok db" "j \<le> block_ht X db0 b"
    and "fold_st (redo_block X)
      (map (\<lambda>k. (of_nat (block_ht X db0 b - k), (parent X db0 ^^ k) b)) (rev [0..<j])) e db = (Ok e', db')"
  shows "ok db' \<and> same_blocks X db db' \<and>
    db_head db' = (if j = 0 then db_head db
                   else \<lparr>href_block = b, href_height = of_nat (block_ht X db0 b)\<rparr>) \<and>
    (\<forall>k < j. get_current_block_of_height X db' (of_nat (block_ht X db0 b - k)) = Ok ((parent X db0 ^^ k) b)) \<and>
    (\<forall>n. (\<forall>k < j. n \<noteq> of_nat (block_ht X db0 b - k)) \<longrightarrow>
      get_current_block_of_height X db' n = get_current_block_of_height X db n)"
  using assms
proof (induction j arbitrary: db e)
  case (Suc j)
  let ?h = "block_ht X db0 b" and ?x = "\<lambda>k. (parent X db0 ^^ k) b"
  from Suc.prems(3) obtain e1 db1 where
    one: "redo_block X (of_nat (?h - j), ?x j) e db = (Ok e1, db1)"
    and rest: "fold_st (redo_block X) (map (\<lambda>k. (of_nat (?h - k), ?x k)) (rev [0..<j])) e1 db1 = (Ok e', db')"
    by (auto simp: result_simps)
  note r = redo_block_effect [OF Suc.prems(1) one]
  have ih: "ok db' \<and> same_blocks X db1 db' \<and>
    db_head db' = (if j = 0 then db_head db1 else \<lparr>href_block = b, href_height = of_nat ?h\<rparr>) \<and>
    (\<forall>k < j. get_current_block_of_height X db' (of_nat (?h - k)) = Ok (?x k)) \<and>
    (\<forall>n. (\<forall>k < j. n \<noteq> of_nat (?h - k)) \<longrightarrow>
      get_current_block_of_height X db' n = get_current_block_of_height X db1 n)"
    using Suc.IH [OF r(1) _ rest] Suc.prems(2) by simp
  have "(of_nat (?h - j) :: u64) < of_nat (?h - k)" if "k < j" for k
    by (subst of_nat_u64_less) (use that Suc.prems(2) block_ht_bound [of X db0 b] in linarith)+
  then have "(of_nat (?h - j) :: u64) \<noteq> of_nat (?h - k)" if "k < j" for k
    using that by (metis less_irrefl)
  then have "get_current_block_of_height X db' (of_nat (?h - j)) = Ok (?x j)"
    using ih r(4) by simp
  moreover have "get_current_block_of_height X db' n = get_current_block_of_height X db n"
    if "\<forall>k < Suc j. n \<noteq> of_nat (?h - k)" for n
    using that ih r(5) by simp
  ultimately show ?case using ih r same_blocks_trans [OF r(3)] by (auto simp: less_Suc_eq)
qed simp

subsection \<open>The walk\<close>

lemma head_ref_stored:
  assumes "chain_inv X db" "known_block X db (get_current_block_hash db)"
  shows "db_head db = \<lparr>href_block = get_current_block_hash db,
    href_height = of_nat (block_ht X db (get_current_block_hash db))\<rparr>"
proof -
  have "get_current_block_hash db \<noteq> U256_ZERO"
    using assms chain_inv_header(1) by (auto simp: known_block_def result_simps)
  then show ?thesis using chain_inv_head [OF assms(1)]
    by (simp add: block_ht_def get_current_block_hash_def get_current_block_height_def)
qed

lemma walk_effect:
  assumes ok: "ok db" and inv: "chain_inv X db" and marks: "marks_ok X db"
    and a: "known_block X db (get_current_block_hash db)" and b: "known_block X db b"
    and run: "walk X b db = (Ok (n, t), db')"
    and meet: "meet (parent X db) (block_ht X db) (get_current_block_hash db) b i j"
  shows "ok db' \<and> same_blocks X db db' \<and>
    db_head db' = \<lparr>href_block = b, href_height = of_nat (block_ht X db b)\<rparr> \<and>
    marks_ok X db' \<and> n = of_nat i"
proof -
  let ?a = "get_current_block_hash db" and ?ht = "block_ht X db"
  have nodes: "chain_node X db ?a" "chain_node X db b" using inv a b by (auto simp: chain_node_def)
  have ij: "i \<le> ?ht ?a" "j \<le> ?ht b" "(parent X db ^^ i) ?a = (parent X db ^^ j) b"
    using meet by (auto simp: meet_def)
  have lvl: "?ht ?a - i = ?ht b - j"
    using tree.ht_anc [OF nodes(1), of i] tree.ht_anc [OF nodes(2), of j] ij(3) by simp
  show ?thesis
  proof (cases "?a = b")
    case True
    then have "db' = db" "n = 0"
      using run by (auto simp: walk_def bind_st_def read_st_def)
    moreover have "i = 0" using meet True unfolding meet_def by (metis le_zero_eq zero_le)
    ultimately show ?thesis using ok marks head_ref_stored [OF inv a] True by simp
  next
    case False
    from run False obtain ah bh e1 db1 where
      path: "calculate_block_path X db ?a b = Ok (ah, bh)"
      and undo: "fold_st (undo_block X) (rev ah) 0 db = (Ok e1, db1)"
      and redo: "fold_st (redo_block X) bh e1 db1 = (Ok t, db')"
      and n: "n = of_nat (length ah)"
      unfolding walk_def by (auto simp: result_simps Let_def)
    have shards: "shard ha = shard hb \<or> shard ha = U256_ZERO \<or> shard hb = U256_ZERO"
      if "get_block_header X db ?a = Ok ha" "get_block_header X db b = Ok hb" for ha hb
      using path that by (auto simp: calculate_block_path_def result_simps u256_is_zero_def)
    have ah: "ah = branch X db ?a i" "bh = branch X db b j"
      using path block_path_meet [OF inv refl a b shards meet] by simp_all
    note undo' = undo [unfolded ah(1) branch_def rev_map rev_rev_ident]
    have u: "ok db1"
      "db_head db1 = \<lparr>href_block = (parent X db ^^ i) ?a, href_height = of_nat (?ht ?a - i)\<rparr>"
      "\<And>k. \<not> is_network_key k \<Longrightarrow> k \<noteq> Cache CurrentHead \<Longrightarrow> val db1 k = val db k"
      using undo_branch [OF ok inv a ij(1) head_ref_stored [OF inv a] undo'] by auto
    have r: "ok db'" "same_blocks X db1 db'"
      "db_head db' = (if j = 0 then db_head db1 else \<lparr>href_block = b, href_height = of_nat (?ht b)\<rparr>)"
      "\<And>k. k < j \<Longrightarrow> get_current_block_of_height X db' (of_nat (?ht b - k)) = Ok ((parent X db ^^ k) b)"
      "\<And>n. (\<And>k. k < j \<Longrightarrow> n \<noteq> of_nat (?ht b - k)) \<Longrightarrow>
        get_current_block_of_height X db' n = get_current_block_of_height X db1 n"
      using redo_branch [OF u(1) ij(2) redo [unfolded ah(2) branch_def]] by auto
    have "same_blocks X db db1"
      unfolding same_blocks_def using readings_cong [OF ok u(1)] u(3) by simp
    then have same: "same_blocks X db db'" using r(2) by (rule same_blocks_trans)
    have head: "db_head db' = \<lparr>href_block = b, href_height = of_nat (?ht b)\<rparr>"
      using r(3) u(2) ij(3) lvl by simp
    have "get_current_block_of_height X db' (of_nat (?ht b - k)) = Ok ((parent X db ^^ k) b)"
      if k: "k < ?ht b" for k
    proof (cases "k < j")
      case False
      have "(of_nat (?ht b - k) :: u64) < of_nat (?ht b - k')" if "k' < j" for k'
        by (subst of_nat_u64_less) (use that False k ij(2) block_ht_bound [of X db b] in linarith)+
      then have "get_current_block_of_height X db' (of_nat (?ht b - k)) =
          get_current_block_of_height X db1 (of_nat (?ht b - k))"
        by (intro r(5)) (metis less_irrefl)
      also have "\<dots> = get_current_block_of_height X db (of_nat (?ht b - k))"
        by (rule readings_cong(4) [OF ok u(1)]) (simp add: u(3))
      also have "\<dots> = Ok ((parent X db ^^ (i + (k - j))) ?a)"
      proof -
        have "i + (k - j) < ?ht ?a" using lvl False k ij by linarith
        moreover have "?ht b - k = ?ht ?a - (i + (k - j))" using lvl False by linarith
        ultimately show ?thesis using marks unfolding marks_ok_def by metis
      qed
      also have "(parent X db ^^ (i + (k - j))) ?a = (parent X db ^^ (j + (k - j))) b"
        by (rule tree.anc_eq_shift [OF ij(3)])
      finally show ?thesis using False by simp
    qed (rule r(4))
    then have "marks_ok X db'"
      using head by (simp add: marks_ok_def get_current_block_hash_def same_blocks_tree [OF same])
    then show ?thesis using r(1) same head n ah(1) by simp
  qed
qed

end

lemma walk_target:
  assumes "store_ok X content db" "chain_inv X db" "marks_ok X db"
    and "known_block X db (get_current_block_hash db)" "known_block X db b"
    and "walk X b db = (Ok (n, t), db')"
  shows "get_current_block_hash db' = b \<and>
    get_current_block_height db' = of_nat (block_ht X db b) \<and>
    chain_inv X db' \<and> store_ok X content db' \<and> same_blocks X db db' \<and> marks_ok X db' \<and>
    (\<exists>i j. meet (parent X db) (block_ht X db) (get_current_block_hash db) b i j \<and> n = of_nat i)"
proof -
  have nodes: "chain_node X db (get_current_block_hash db)" "chain_node X db b"
    using assms(2,4,5) by (auto simp: chain_node_def)
  obtain i j where m: "meet (parent X db) (block_ht X db) (get_current_block_hash db) b i j"
    using tree.meet_exists [OF nodes] by blast
  have w: "store_ok X content db' \<and> same_blocks X db db' \<and>
    db_head db' = \<lparr>href_block = b, href_height = of_nat (block_ht X db b)\<rparr> \<and>
    marks_ok X db' \<and> n = of_nat i"
    using store.walk_effect [OF assms(1-6) m] by blast
  obtain hdr where hdr: "get_block_header X db b = Ok hdr"
    using assms(5) by (auto simp: known_block_def result_simps)
  have "stored_height X db b = Some (of_nat (block_ht X db b))"
    using chain_inv_header [OF assms(2) hdr] by (auto simp: block_ht_def)
  then have "chain_inv X db'"
    using w assms(5) by (intro chain_inv_same_blocks [OF assms(2)]) auto
  then show ?thesis
    using w m by (auto simp: get_current_block_hash_def get_current_block_height_def)
qed

text \<open>
  C15: when \<open>walk\<close> to a known block returns, the head is that block at its height, the stored
  chain is intact and well-formed, the block marked as current at each height up to the head is
  the head's ancestor, and the first component of the result counts the blocks that were undone,
  the distance from the old head to the latest common ancestor.
\<close>

theorem walk_reaches_target:
  assumes "rocksdb X content" "codecs_ok X" "db_ok db" "chain_inv X db" "marks_ok X db"
    and "known_block X db (get_current_block_hash db)" "known_block X db b"
    and "walk X b db = (Ok (n, t), db')"
  shows "get_current_block_hash db' = b \<and>
    get_current_block_height db' = of_nat (block_ht X db b) \<and>
    chain_inv X db' \<and> db_ok db' \<and> same_blocks X db db' \<and> marks_ok X db' \<and>
    (\<exists>i j. meet (parent X db) (block_ht X db) (get_current_block_hash db) b i j \<and> n = of_nat i)"
  using walk_target [OF _ assms(4-8), of content] assms(1-3) by (auto simp: store_ok_def)

subsection \<open>What a walk leaves alone\<close>

text \<open>
  Whatever its outcome, a walk keeps the headers, transaction lists and transactions of the chain,
  and when the stored head reference was the one in memory, it still is.
\<close>

definition head_stored :: "('s dbase \<Rightarrow> key \<Rightarrow> bin option) \<Rightarrow> 's dbase \<Rightarrow> bool" where
  "head_stored val db \<longleftrightarrow> val db (Cache CurrentHead) = Some (ser_head_ref (db_head db))"

definition same_entries ::
  "('s dbase \<Rightarrow> bool) \<Rightarrow> ('s dbase \<Rightarrow> key \<Rightarrow> bin option) \<Rightarrow> (blockchain_entry \<Rightarrow> bin option) \<Rightarrow> 's dbase \<Rightarrow> bool" where
  "same_entries ok val V db \<longleftrightarrow> ok db \<and> head_stored val db \<and> (\<forall>e. val db (Blockchain e) = V e)"

context chain_store
begin

lemma entries_keeps: "keeps_chain ok val act \<Longrightarrow> preserves (same_entries ok val V) act"
  unfolding preserves_def same_entries_def head_stored_def
proof (intro allI impI)
  fix db assume k: "keeps_chain ok val act"
    and db: "ok db \<and> val db (Cache CurrentHead) = Some (ser_head_ref (db_head db)) \<and> (\<forall>e. val db (Blockchain e) = V e)"
  obtain r db' where run: "act db = (r, db')" by fastforce
  show "ok (snd (act db)) \<and> val (snd (act db)) (Cache CurrentHead) = Some (ser_head_ref (db_head (snd (act db)))) \<and>
      (\<forall>e. val (snd (act db)) (Blockchain e) = V e)"
    using keeps_chainD [OF k _ run] db by (simp add: run)
qed

lemma entries_put: "k \<noteq> CurrentHead \<Longrightarrow> preserves (same_entries ok val V) (db_put X (Cache k) v)"
  unfolding preserves_def same_entries_def head_stored_def
  using put_val [of _ "Cache k" v] by fastforce

lemma entries_update_chain: "preserves (same_entries ok val V) (update_current_chain X h b)"
  unfolding update_current_chain_def Let_def
  by (intro preserves) (auto intro: preserves entries_put split: option.split)

lemma entries_update_block: "preserves (same_entries ok val V) (update_current_block X b h)"
  unfolding update_current_block_def Let_def
proof (intro preserves)
  fix n
  let ?r = "\<lparr>href_block = b, href_height = n\<rparr>"
  show "preserves (same_entries ok val V) (\<lambda>db. db_put X (Cache CurrentHead) (ser_head_ref ?r) (set_head ?r db))"
    unfolding preserves_def same_entries_def head_stored_def
    using put_val [of "set_head ?r _" "Cache CurrentHead" "ser_head_ref ?r"] head_val by fastforce
qed

lemma entries_redo: "preserves (same_entries ok val V) (redo_block X hb e)"
  unfolding redo_block_def add_contra_def
  by (cases hb) (auto intro!: preserves entries_update_chain entries_update_block entries_put
    entries_keeps [OF mutate_keeps])

lemma entries_undo: "preserves (same_entries ok val V) (undo_block X hb e)"
  unfolding undo_block_def
  by (cases hb) (auto intro!: preserves entries_update_block entries_keeps [OF undo_mutate_keeps])

lemma entries_walk: "preserves (same_entries ok val V) (walk X b)"
  unfolding walk_def Let_def
  by (intro preserves) (auto intro!: preserves entries_undo entries_redo split: if_split)

end

subsection \<open>Applying an empty block\<close>

text \<open>A block without transactions is always applied, and puts no event into the diff of a state.\<close>

definition quiet :: "'s dbase \<Rightarrow> bool" where
  "quiet db \<longleftrightarrow> (\<exists>base d h. db = DBState base d h \<and> new_events d = [] \<and> del_events d = [])"

lemma quiet_head [simp]: "quiet (set_head r db) = quiet db"
  by (cases db) (auto simp: quiet_def)

lemma quiet_put [preserves]: "preserves quiet (db_put X k v)"
  by (auto simp: preserves_def quiet_def set_value_def)

lemma quiet_update [preserves]:
  "preserves quiet (update_current_block X b h)" "preserves quiet (update_current_chain X n b)"
  "preserves quiet (add_contra X b con)"
  unfolding add_contra_def update_current_chain_def update_current_block_def Let_def
proof (intro preserves)
  fix r v show "preserves quiet (\<lambda>db. db_put X (Cache CurrentHead) v (set_head r db))"
    using quiet_put [of X "Cache CurrentHead" v] unfolding preserves_def by (metis quiet_head)
qed (auto intro!: preserves split: option.split)

lemma position_member: "b \<in> set l \<Longrightarrow> \<exists>i. position (\<lambda>x. x = b) l = Some i"
  by (induction l) auto

context chain_store
begin

lemma redo_empty_block:
  assumes "ok db" "get_block X db b = Ok blk" "txns blk = []"
    and "get_blocks_of_height X db h = Ok l" "b \<in> set l"
  shows "\<exists>e' db'. redo_block X (h, b) e db = (Ok e', db') \<and> (quiet db \<longrightarrow> quiet db')"
proof -
  have m: "get_mutation X db blk = Ok mutation_new" by (simp add: get_mutation_def assms(3))
  have mut: "db_mutate X mutation_new db = (Ok mutation_new_contra, db)"
    by (simp add: db_mutate_def bind_st_def read_st_def assert_not_contra_def mutation_new_def
      mutation_new_contra_def)
  obtain db1 where db1: "add_contra X b mutation_new_contra db = (Ok (), db1)" "ok db1"
    "\<And>k'. chain_key k' \<Longrightarrow> k' \<noteq> Cache (ContraMut b) \<Longrightarrow> val db1 k' = val db k'"
    unfolding add_contra_def using put_run [OF assms(1), of "Cache (ContraMut b)"] by (metis chain_key_simps(2))
  have "val db (Cache (BlocksByHeight h)) \<noteq> None"
    using assms(1,4,5) by (auto simp: blocks_of_height_eq split: option.splits)
  then obtain v where v: "val db1 (Cache (BlocksByHeight h)) = Some v" "de (hash_list_codec X) v = Ok l"
    using assms(1,4) db1(3) by (auto simp: blocks_of_height_eq result_simps)
  obtain i where i: "position (\<lambda>x. x = b) l = Some i"
    using position_member [OF assms(5)] by blast
  obtain db2 where db2: "update_current_chain X h b db1 = (Ok (), db2)" "ok db2"
    using put_val [OF db1(2), of "Cache (BlocksByHeight h)" "ser (hash_list_codec X) (swap 0 i l)"] v i db1(2)
    by (auto simp: update_current_chain_def Let_def bind_st_def read_st_def get_val)
  have "ok (set_head \<lparr>href_block = b, href_height = h\<rparr> db2)" using db2(2) head_val by simp
  then obtain db3 where db3: "update_current_block X b (Some h) db2 = (Ok (), db3)"
    using put_val [of "set_head \<lparr>href_block = b, href_height = h\<rparr> db2" "Cache CurrentHead"]
    by (auto simp: update_current_block_def Let_def bind_st_def read_st_def)
  have "quiet db3" if "quiet db"
    using that preservesD [OF quiet_update(3) _ db1(1)] preservesD [OF quiet_update(2) _ db2(1)]
      preservesD [OF quiet_update(1) _ db3] by blast
  then show ?thesis using assms(2) m mut db1(1) db2(1) db3
    by (simp add: redo_block_def bind_st_def read_st_def)
qed

end

end
