(* ===== verification/Db_Compile.thy ===== *)
theory Db_Compile
  imports Walk
begin

text \<open>
  \<open>DBState::compile\<close> of \<open>core/src/record_keeper/db_state.rs\<close>: the difference of a state to the
  database under it as one write batch, with the event buckets of the plots. The lemmas show that
  after the batch is applied the database reads like the state did, for everything but the events;
  for the events they show where the compiled batch differs from the state.
\<close>

section \<open>Compiling a state\<close>

definition plot_key_bin :: "plot_id \<Rightarrow> u64 \<Rightarrow> bin" where
  "plot_key_bin plot_id tick = as_bin (Network (PlotE plot_id tick))"

text \<open>The empty buckets down to the first that exists; also the tick where the loop stopped.\<close>

function compile_init ::
  "'s ext \<Rightarrow> 's dbase \<Rightarrow> plot_id \<Rightarrow> u64 \<Rightarrow> batch_op list \<Rightarrow> (batch_op list \<times> u64, error) result" where
  "compile_init X db plot_id tick wb =
     and_then (get_plot_event_bucket X db plot_id tick)
       (\<lambda>b. if b \<noteq> None then Ok (wb, tick)
            else let wb = wb @ [BatchPut (plot_key_bin plot_id tick) (ser (events_codec X) [])] in
              if tick < PLOT_EVENT_BUCKET_SIZE then Ok (wb, tick)
              else compile_init X db plot_id (tick - PLOT_EVENT_BUCKET_SIZE) wb)"
  by pat_completeness auto
termination
  by (relation "measure (\<lambda>(X, db, plot_id, tick, wb). unat tick)") (simp_all add: bucket_step_decreases)

declare compile_init.simps [simp del]

text \<open>
  \<open>range(min..max)\<close> of an ordered map panics when the bounds are the wrong way round; the upper bound
  is computed with wrap-around.
\<close>

definition ticks_in :: "u64 \<Rightarrow> raw_events \<Rightarrow> (raw_events, error) result" where
  "ticks_in tb_min evs =
     (let tb_max = tb_min + PLOT_EVENT_BUCKET_SIZE in
       if tb_max < tb_min then Panic else Ok (filter (\<lambda>(t, _). tb_min \<le> t \<and> t < tb_max) evs))"

definition in_bucket :: "u64 \<Rightarrow> raw_events option \<Rightarrow> (raw_events, error) result" where
  "in_bucket tb_min evs = (case evs of Some e \<Rightarrow> ticks_in tb_min e | None \<Rightarrow> Ok [])"

definition compile_bucket ::
  "'s ext \<Rightarrow> 's dbase \<Rightarrow> plot_id \<Rightarrow> raw_events option \<Rightarrow> raw_events option \<Rightarrow> u64 \<Rightarrow>
   u64 \<Rightarrow> batch_op list \<Rightarrow> (batch_op list, error) result" where
  "compile_bucket X db plot_id news dels empty_after tb wb =
     (let tb_min = tb * PLOT_EVENT_BUCKET_SIZE in
       and_then
         (if empty_after < tb then Ok []
          else and_then (get_plot_event_bucket X db plot_id tb_min)
            (\<lambda>b. Ok (case b of Some evs \<Rightarrow> evs | None \<Rightarrow> [])))
         (\<lambda>events. and_then (in_bucket tb_min news)
           (\<lambda>ne. let events = fold (\<lambda>(tick, l) evs. add_events evs tick l) ne events in
             and_then (in_bucket tb_min dels)
               (\<lambda>rem. let events = fold (\<lambda>(tick, l) evs. remove_events evs tick l) rem events in
                 Ok (wb @ [BatchPut (plot_key_bin plot_id tb_min) (ser (events_codec X) events)])))))"

definition ticks_of :: "raw_events option \<Rightarrow> u64 list" where
  "ticks_of evs = (case evs of Some e \<Rightarrow> map fst e | None \<Rightarrow> [])"

definition greatest_bucket :: "raw_events option \<Rightarrow> u64" where
  "greatest_bucket news = foldl max 0 (map (\<lambda>t. t div PLOT_EVENT_BUCKET_SIZE) (ticks_of news))"

definition tick_buckets :: "raw_events option \<Rightarrow> raw_events option \<Rightarrow> u64 list" where
  "tick_buckets news dels =
     sort (remdups (map (\<lambda>t. t div PLOT_EVENT_BUCKET_SIZE) (ticks_of news @ ticks_of dels)))"

definition compile_plot ::
  "'s ext \<Rightarrow> 's dbase \<Rightarrow> db_diff \<Rightarrow> plot_id \<Rightarrow> batch_op list \<Rightarrow> (batch_op list, error) result" where
  "compile_plot X db d plot_id wb =
     (let news = hm_get (new_events d) plot_id; dels = hm_get (del_events d) plot_id in
       and_then (compile_init X db plot_id (greatest_bucket news * PLOT_EVENT_BUCKET_SIZE) wb)
         (\<lambda>(wb, tick). let empty_after = tick div PLOT_EVENT_BUCKET_SIZE in
            for_each (compile_bucket X db plot_id news dels empty_after) (rev (tick_buckets news dels)) wb))"

definition compile_values :: "db_diff \<Rightarrow> batch_op list" where
  "compile_values d =
     map (\<lambda>(k, v). BatchPut (as_bin k) v) (new_values d) @ map (\<lambda>k. BatchDelete (as_bin k)) (del_values d)"

definition changed_plots :: "db_diff \<Rightarrow> plot_id list" where
  "changed_plots d = remdups (map fst (new_events d) @ map fst (del_events d))"

definition compile :: "'s ext \<Rightarrow> 's dbase \<Rightarrow> db_diff \<Rightarrow> (batch_op list, error) result" where
  "compile X db d = for_each (compile_plot X db d) (changed_plots d) (compile_values d)"

section \<open>The compiled batch and the values of the state\<close>

text \<open>The plot part of a batch writes plot keys only.\<close>

definition plot_puts :: "batch_op list \<Rightarrow> bool" where
  "plot_puts wb \<longleftrightarrow> (\<forall>op \<in> set wb. \<exists>p t v. op = BatchPut (plot_key_bin p t) v)"

lemma plot_puts_simps [simp]:
  "plot_puts []" "plot_puts (a @ b) \<longleftrightarrow> plot_puts a \<and> plot_puts b" "plot_puts [BatchPut (plot_key_bin p t) v]"
  by (auto simp: plot_puts_def)

lemma compile_init_plots:
  "compile_init X db p tick wb = Ok (wb', t) \<Longrightarrow> \<exists>w. wb' = wb @ w \<and> plot_puts w"
proof (induction "unat tick" arbitrary: tick wb rule: less_induct)
  case less
  obtain b where b: "get_plot_event_bucket X db p tick = Ok b"
    using less.prems by (subst (asm) compile_init.simps) (auto simp: result_simps)
  let ?w = "[BatchPut (plot_key_bin p tick) (ser (events_codec X) [])]"
  have "wb' = wb \<or> wb' = wb @ ?w \<or> (\<not> tick < PLOT_EVENT_BUCKET_SIZE \<and>
      compile_init X db p (tick - PLOT_EVENT_BUCKET_SIZE) (wb @ ?w) = Ok (wb', t))"
    using less.prems b by (subst (asm) compile_init.simps) (auto simp: Let_def split: if_splits)
  then show ?case
  proof (elim disjE conjE)
    assume t: "\<not> tick < PLOT_EVENT_BUCKET_SIZE"
      and run: "compile_init X db p (tick - PLOT_EVENT_BUCKET_SIZE) (wb @ ?w) = Ok (wb', t)"
    obtain w where "wb' = (wb @ ?w) @ w" "plot_puts w"
      using less.hyps [OF bucket_step_decreases [OF t] run] by blast
    moreover have "plot_puts ?w" by simp
    ultimately have "wb' = wb @ (?w @ w)" "plot_puts (?w @ w)" by (simp_all del: append.simps)
    then show ?thesis by blast
  qed auto
qed

lemma compile_bucket_plots:
  "compile_bucket X db p news dels ea tb wb = Ok wb' \<Longrightarrow> \<exists>w. wb' = wb @ w \<and> plot_puts w"
  by (auto simp: compile_bucket_def Let_def result_simps)

lemma for_each_appends:
  assumes "\<And>x wb wb'. f x wb = Ok wb' \<Longrightarrow> \<exists>w. wb' = wb @ w \<and> plot_puts w"
  shows "for_each f xs wb = Ok wb' \<Longrightarrow> \<exists>w. wb' = wb @ w \<and> plot_puts w"
proof (induction xs arbitrary: wb)
  case (Cons x xs)
  then obtain wb1 where wb1: "f x wb = Ok wb1" "for_each f xs wb1 = Ok wb'" by (auto simp: result_simps)
  obtain w1 where "wb1 = wb @ w1" "plot_puts w1" using assms [OF wb1(1)] by blast
  then show ?case using Cons.IH [OF wb1(2)] by (auto intro: exI [of _ "w1 @ w" for w])
qed simp

lemma compile_plot_plots:
  assumes "compile_plot X db d p wb = Ok wb'"
  shows "\<exists>w. wb' = wb @ w \<and> plot_puts w"
proof -
  obtain wb1 t where wb1: "compile_init X db p (greatest_bucket (hm_get (new_events d) p) * PLOT_EVENT_BUCKET_SIZE) wb = Ok (wb1, t)"
    "for_each (compile_bucket X db p (hm_get (new_events d) p) (hm_get (del_events d) p) (t div PLOT_EVENT_BUCKET_SIZE))
      (rev (tick_buckets (hm_get (new_events d) p) (hm_get (del_events d) p))) wb1 = Ok wb'"
    using assms by (auto simp: compile_plot_def Let_def result_simps)
  have step: "\<exists>w. b = a @ w \<and> plot_puts w"
    if "compile_bucket X db p (hm_get (new_events d) p) (hm_get (del_events d) p) (t div PLOT_EVENT_BUCKET_SIZE) x a = Ok b"
    for x a b by (rule compile_bucket_plots [OF that])
  have "\<exists>w. wb' = wb1 @ w \<and> plot_puts w" by (rule for_each_appends [OF _ wb1(2)]) (rule step)
  then show ?thesis using compile_init_plots [OF wb1(1)] by auto
qed

lemma compile_shape: "compile X db d = Ok wb \<Longrightarrow> \<exists>w. wb = compile_values d @ w \<and> plot_puts w"
  unfolding compile_def by (rule for_each_appends) (rule compile_plot_plots)

lemma plot_puts_effect:
  "plot_puts w \<Longrightarrow> (\<And>p t. k \<noteq> plot_key_bin p t) \<Longrightarrow> batch_effect w m k = m k"
  by (induction w m rule: batch_effect.induct) (auto simp: plot_puts_def)

lemma puts_effect:
  "hm_ok vs \<Longrightarrow> (\<And>k'. k' \<in> fst ` set vs \<Longrightarrow> as_bin k' = as_bin k \<longleftrightarrow> k' = k) \<Longrightarrow>
    batch_effect (map (\<lambda>(k, v). BatchPut (as_bin k) v) vs) m (as_bin k) =
      (case hm_get vs k of Some v \<Rightarrow> Some v | None \<Rightarrow> m (as_bin k))"
proof (induction vs arbitrary: m)
  case (Cons e vs)
  obtain k' v where e: "e = (k', v)" by (cases e)
  show ?case
  proof (cases "k' = k")
    case True
    then have "hm_get vs k = None" using Cons.prems(1) e by (simp add: map_of_eq_None_iff)
    then show ?thesis using Cons True by (simp add: e)
  next
    case False
    then have "as_bin k \<noteq> as_bin k'" using Cons.prems(2) [of k'] by (auto simp: e)
    then show ?thesis using Cons False by (simp add: e split: option.split)
  qed
qed simp

lemma deletes_effect:
  "(\<And>k'. k' \<in> set ks \<Longrightarrow> as_bin k' = as_bin k \<longleftrightarrow> k' = k) \<Longrightarrow>
    batch_effect (map (\<lambda>k. BatchDelete (as_bin k)) ks) m (as_bin k) = (if k \<in> set ks then None else m (as_bin k))"
proof (induction ks arbitrary: m)
  case (Cons k' ks)
  show ?case
  proof (cases "k' = k")
    case False
    then have "as_bin k \<noteq> as_bin k'" using Cons.prems [of k'] by auto
    then show ?thesis using Cons False by auto
  qed (use Cons in auto)
qed simp

lemma plot_key_not_chain: "chain_key k \<Longrightarrow> as_bin k \<noteq> plot_key_bin p t"
  using as_bin_inj_iff [of k "Network (PlotE p t)"]
  by (cases k rule: key_bucket.cases) (auto simp: plot_key_bin_def chain_key_def)

text \<open>The diff does not use a generic key with the bytes of another key.\<close>

definition no_alias :: "db_diff \<Rightarrow> key \<Rightarrow> bool" where
  "no_alias d k \<longleftrightarrow> (\<forall>k' \<in> fst ` set (new_values d) \<union> set (del_values d). as_bin k' = as_bin k \<longrightarrow> k' = k)"

lemma no_alias_chain: "\<not> is_network_key k \<Longrightarrow> no_alias d k"
  unfolding no_alias_def using as_bin_network as_bin_chain_inj chain_key_if_not_network by metis

lemma compiled_content:
  assumes "compile X db d = Ok wb" "values_ok d" "\<And>p t. as_bin k \<noteq> plot_key_bin p t" "no_alias d k"
  shows "batch_effect wb m (as_bin k) = overlay d k (m (as_bin k))"
proof -
  obtain w where w: "wb = compile_values d @ w" "plot_puts w" using compile_shape [OF assms(1)] by blast
  have ok: "hm_ok (new_values d)" "k \<in> set (del_values d) \<Longrightarrow> hm_get (new_values d) k = None"
    using assms(2) by (simp_all add: values_ok_def is_value_deleted_def get_value_def)
  have "batch_effect wb m (as_bin k) =
      (if k \<in> set (del_values d) then None else case hm_get (new_values d) k of Some v \<Rightarrow> Some v | None \<Rightarrow> m (as_bin k))"
  proof -
    have "as_bin k' = as_bin k \<longleftrightarrow> k' = k" if "k' \<in> fst ` set (new_values d) \<union> set (del_values d)" for k'
      using assms(4) that by (auto simp: no_alias_def)
    then show ?thesis
      using puts_effect [OF ok(1), of k] deletes_effect [of "del_values d" k]
        plot_puts_effect [OF w(2) assms(3)]
      by (simp add: w(1) batch_effect_append compile_values_def)
  qed
  then show ?thesis using ok(2)
    by (auto simp: overlay_def get_value_def is_value_deleted_def split: option.splits)
qed

lemma compile_apply:
  assumes "rocksdb X content" "values_ok d"
    and "overlay d (Cache CurrentHead) (content s (as_bin (Cache CurrentHead))) = Some (ser_head_ref hr)"
    and "compile X (DatabaseImpl s h) d = Ok wb"
  obtains s' where "db_apply X wb (DatabaseImpl s h) = (Ok (), DatabaseImpl s' hr)"
    "\<And>k. (\<And>p t. as_bin k \<noteq> plot_key_bin p t) \<Longrightarrow> no_alias d k \<Longrightarrow>
      content s' (as_bin k) = overlay d k (content s (as_bin k))"
proof -
  obtain s' where s': "rdb_write X s wb = Ok s'" "content s' = batch_effect wb (content s)"
    using rocksdb.store_write [OF assms(1)] by blast
  have c: "content s' (as_bin k) = overlay d k (content s (as_bin k))" 
    if "\<And>p t. as_bin k \<noteq> plot_key_bin p t" "no_alias d k" for k
    using compiled_content [OF assms(4,2) that] by (simp add: s'(2))
  have "content s' (as_bin (Cache CurrentHead)) = Some (ser_head_ref hr)"
    using c [of "Cache CurrentHead", OF plot_key_not_chain] assms(3) by (simp add: no_alias_chain)
  then have "db_apply X wb (DatabaseImpl s h) = (Ok (), DatabaseImpl s' hr)"
    using s'(1) by (simp add: get_raw_data_static_def rocksdb.store_get [OF assms(1)])
  then show thesis using that c by blast
qed

text \<open>Everything outside the network domain is read as before, so the chain stays as it was.\<close>

lemma chain_inv_same_getters:
  assumes "db_head db' = db_head db" "get_block_header X db' = get_block_header X db"
    "stored_height X db' = stored_height X db" "get_blocks_of_height X db' = get_blocks_of_height X db"
  shows "chain_inv X db' = chain_inv X db"
  by (simp add: chain_inv_def known_block_def assms get_current_block_hash_def get_current_block_height_def)

lemma compile_apply_chain:
  assumes "rocksdb X content" "codecs_ok X" "db_ok (DBState (DatabaseImpl s h) d hr)"
    and "overlay d (Cache CurrentHead) (content s (as_bin (Cache CurrentHead))) = Some (ser_head_ref hr)" "compile X (DatabaseImpl s h) d = Ok wb"
  obtains s' where "db_apply X wb (DatabaseImpl s h) = (Ok (), DatabaseImpl s' hr)"
    "\<And>k. \<not> is_network_key k \<Longrightarrow>
      db_val content (DatabaseImpl s' hr) k = db_val content (DBState (DatabaseImpl s h) d hr) k"
proof -
  have v: "values_ok d" using assms(3) by simp
  obtain s' where "db_apply X wb (DatabaseImpl s h) = (Ok (), DatabaseImpl s' hr)"
    "\<And>k. (\<And>p t. as_bin k \<noteq> plot_key_bin p t) \<Longrightarrow> no_alias d k \<Longrightarrow>
      content s' (as_bin k) = overlay d k (content s (as_bin k))"
    using compile_apply [OF assms(1) v assms(4,5)] by blast
  then show thesis using that plot_key_not_chain by (simp add: no_alias_chain del: as_bin.simps)
qed

section \<open>Where the compiled events differ from the state\<close>

lemma bucket_start:
  "unat (t div PLOT_EVENT_BUCKET_SIZE) = unat t div 1000"
  "unat (t div PLOT_EVENT_BUCKET_SIZE * PLOT_EVENT_BUCKET_SIZE) = unat t div 1000 * 1000"
proof -
  show q: "unat (t div PLOT_EVENT_BUCKET_SIZE) = unat t div 1000"
    by (simp add: PLOT_EVENT_BUCKET_SIZE_def unat_div)
  have "unat t div 1000 * 1000 < 2 ^ 64" using unat_less_2p64 [of t] by simp
  then show "unat (t div PLOT_EVENT_BUCKET_SIZE * PLOT_EVENT_BUCKET_SIZE) = unat t div 1000 * 1000"
    using q by (simp add: unat_mult_lem [THEN iffD1] PLOT_EVENT_BUCKET_SIZE_def)
qed

lemma bucket_of_bucket:
  "(t div PLOT_EVENT_BUCKET_SIZE * PLOT_EVENT_BUCKET_SIZE) div PLOT_EVENT_BUCKET_SIZE = t div PLOT_EVENT_BUCKET_SIZE"
  by (rule unsigned_word_eqI [where 'a = nat]) (simp add: bucket_start)

lemma plot_key_bucket: "plot_key_bin p (t div PLOT_EVENT_BUCKET_SIZE * PLOT_EVENT_BUCKET_SIZE) = plot_key_bin p t"
  by (simp add: plot_key_bin_def bucket_of_bucket)

lemma ticks_in_bucket:
  assumes "t < 2 ^ 63"
  shows "ticks_in (t div PLOT_EVENT_BUCKET_SIZE * PLOT_EVENT_BUCKET_SIZE) [(t, l)] = Ok [(t, l)]"
proof -
  let ?m = "t div PLOT_EVENT_BUCKET_SIZE * PLOT_EVENT_BUCKET_SIZE"
  have t: "unat t < 2 ^ 63" using assms by (simp add: word_less_nat_alt)
  have m: "unat ?m \<le> unat t" "unat t < unat ?m + 1000" unfolding bucket_start by simp_all
  then have "unat (?m + PLOT_EVENT_BUCKET_SIZE) = unat ?m + 1000"
    using t by (subst unat_plus_simple [THEN iffD1]) (simp_all add: PLOT_EVENT_BUCKET_SIZE_def word_le_nat_alt unat_plus_if')
  then show ?thesis using m by (simp add: ticks_in_def Let_def word_less_nat_alt word_le_nat_alt)
qed

text \<open>
  Removing an event is compiled wrongly when the diff adds no event of the plot at a later bucket:
  the bucket of the removed event is not read from the database but written as an empty one, so all
  other events of the bucket are lost, whatever they are.
\<close>

theorem removal_wipes_bucket:
  assumes "get_plot_event_bucket X db p 0 = Ok (Some z)" "PLOT_EVENT_BUCKET_SIZE \<le> t" "t < 2 ^ 63"
  shows "compile X db (diff_remove_event db_diff_default p t e) =
    Ok [BatchPut (plot_key_bin p t) (ser (events_codec X) [])]"
proof -
  let ?d = "diff_remove_event db_diff_default p t e" and ?tb = "t div PLOT_EVENT_BUCKET_SIZE"
  have d: "new_events ?d = []" "del_events ?d = [(p, [(t, [e])])]" 
    "new_values db_diff_default = []" "del_values db_diff_default = []"
    by (simp_all add: diff_remove_event_def db_diff_default_def db_diff_new_def relevant_plot_def plots_remove_def
      plots_add_def add_event_def)
  have "0 < unat t div 1000" using assms(2) by (simp add: word_le_nat_alt PLOT_EVENT_BUCKET_SIZE_def)
  then have tb: "0 < ?tb" by (simp add: word_less_nat_alt bucket_start)
  have init: "compile_init X db p 0 [] = Ok ([], 0)" using assms(1) by (simp add: compile_init.simps)
  have "compile_bucket X db p None (Some [(t, [e])]) 0 ?tb [] =
      Ok [BatchPut (plot_key_bin p t) (ser (events_codec X) [])]"
    using tb ticks_in_bucket [OF assms(3)]
    by (simp add: compile_bucket_def in_bucket_def remove_events_def remove_event_def plot_key_bucket Let_def)
  then show ?thesis
    by (simp add: compile_def changed_plots_def compile_values_def d compile_plot_def greatest_bucket_def
      tick_buckets_def ticks_of_def init Let_def)
qed

section \<open>Applying a compiled state\<close>

text \<open>
  C34: how far applying a compiled state makes the database read like the state, under the condition
  that the head the state's keys record is its head. The batch is applied without an error and makes
  that head the head of the database; every key that is not a plot bucket, and whose bytes are not
  also those of another key of the diff (a generic key can spell them out), is then read as the state
  reads it. For the plot buckets, where the comment on \<open>compile\<close> promises the same, it does not hold:
  a state that only removes an event after the first bucket is compiled to one write of an empty
  bucket, whatever other events the bucket of the database holds.
\<close>

theorem compile_apply_reads_like_state:
  assumes "rocksdb X content" "values_ok d"
    and "overlay d (Cache CurrentHead) (content s (as_bin (Cache CurrentHead))) = Some (ser_head_ref hr)"
    and "compile X (DatabaseImpl s h) d = Ok wb"
  shows "(\<exists>s'. db_apply X wb (DatabaseImpl s h) = (Ok (), DatabaseImpl s' hr) \<and>
      (\<forall>k. (\<forall>p t. as_bin k \<noteq> as_bin (Network (PlotE p t))) \<longrightarrow>
        (\<forall>k' \<in> fst ` set (new_values d) \<union> set (del_values d). as_bin k' = as_bin k \<longrightarrow> k' = k) \<longrightarrow>
        db_get X (DatabaseImpl s' hr) k = db_get X (DBState (DatabaseImpl s h) d hr) k)) \<and>
    (\<forall>p t e z. get_plot_event_bucket X (DatabaseImpl s h) p 0 = Ok (Some z) \<longrightarrow>
      PLOT_EVENT_BUCKET_SIZE \<le> t \<longrightarrow> t < 2 ^ 63 \<longrightarrow>
      compile X (DatabaseImpl s h) (diff_remove_event db_diff_default p t e) =
        Ok [BatchPut (as_bin (Network (PlotE p t))) (ser (events_codec X) [])])"
proof (intro conjI allI impI)
  obtain s' where s': "db_apply X wb (DatabaseImpl s h) = (Ok (), DatabaseImpl s' hr)"
    "\<And>k. (\<And>p t. as_bin k \<noteq> plot_key_bin p t) \<Longrightarrow> no_alias d k \<Longrightarrow>
      content s' (as_bin k) = overlay d k (content s (as_bin k))"
    using compile_apply [OF assms] by blast
  have "db_get X (DatabaseImpl s' hr) k = db_get X (DBState (DatabaseImpl s h) d hr) k"
    if "\<And>p t. as_bin k \<noteq> as_bin (Network (PlotE p t))" "no_alias d k" for k
  proof -
    have "\<not> is_plot_key k" using that(1) by (cases k rule: is_plot_key.cases) auto
    then show ?thesis using s'(2) [of k] that
      by (simp add: plot_key_bin_def get_raw_data_static_def rocksdb.store_get [OF assms(1)] overlay_def
        split: option.split)
  qed
  then show "\<exists>s'. db_apply X wb (DatabaseImpl s h) = (Ok (), DatabaseImpl s' hr) \<and>
      (\<forall>k. (\<forall>p t. as_bin k \<noteq> as_bin (Network (PlotE p t))) \<longrightarrow>
        (\<forall>k' \<in> fst ` set (new_values d) \<union> set (del_values d). as_bin k' = as_bin k \<longrightarrow> k' = k) \<longrightarrow>
        db_get X (DatabaseImpl s' hr) k = db_get X (DBState (DatabaseImpl s h) d hr) k)"
    using s'(1) unfolding no_alias_def by blast
qed (rule removal_wipes_bucket [unfolded plot_key_bin_def])

end
