(* ===== verification/Record_Keeper.thy ===== *)
theory Record_Keeper
  imports Rules Block_Package Db_Compile
begin

text \<open>
  The record keeper of \<open>core/src/record_keeper/record_keeper.rs\<close>: the database, the pending
  transactions and the validation of both. Its methods take locks inside and run as actions on one
  state here, one after the other. The events that are sent to the listeners are collected in the
  order in which they are sent; what the rules of a game remember is the component \<open>rk_game\<close>; the
  time of the clock is an argument.
\<close>

definition MAX_PENDING_TXN_MEM :: nat where
  "MAX_PENDING_TXN_MEM = 128 * 1024 * 1024"

record ('s, 'g) record_keeper =
  rk_rules :: "('s, 'g) mutation_rule list"
  rk_db :: "'s dbase"
  pending_txns :: "(u256, time \<times> txn) hash_map"
  rk_game :: 'g
  record_notices :: "record_event list"
  game_notices :: "plot_event list"

record record_keeper_statistics =
  stat_height :: u64
  stat_current_block_hash :: u256
  stat_pending_txns_count :: u64
  stat_pending_txns_size :: u64

type_synonym ('s, 'g, 'a) rk_action = "(('s, 'g) record_keeper, 'a, error) action"

definition record_keeper_new :: "'s dbase \<Rightarrow> ('s, 'g) mutation_rule list \<Rightarrow> 'g \<Rightarrow> ('s, 'g) record_keeper" where
  "record_keeper_new db rules g =
     \<lparr>rk_rules = rules, rk_db = db, pending_txns = [], rk_game = g, record_notices = [], game_notices = []\<rparr>"

definition notify_record :: "record_event \<Rightarrow> ('s, 'g) record_keeper \<Rightarrow> ('s, 'g) record_keeper" where
  "notify_record e rk = rk\<lparr>record_notices := record_notices rk @ [e]\<rparr>"

definition on_game :: "('g, 'a, error) action \<Rightarrow> ('s, 'g, 'a) rk_action" where
  "on_game act rk = (case act (rk_game rk) of (r, g) \<Rightarrow> (r, rk\<lparr>rk_game := g\<rparr>))"

definition on_db :: "('s, 'a) db_action \<Rightarrow> ('s, 'g, 'a) rk_action" where
  "on_db act rk = (case act (rk_db rk) of (r, db) \<Rightarrow> (r, rk\<lparr>rk_db := db\<rparr>))"

section \<open>Validation\<close>

definition signed_changes :: "txn \<Rightarrow> signed_change list" where
  "signed_changes t = map (\<lambda>c. (c, creator t)) (changes (txn_mutation t))"

definition is_valid_txn_given_state :: "'s ext \<Rightarrow> 's dbase \<Rightarrow> txn \<Rightarrow> (unit, error) result" where
  "is_valid_txn_given_state X state t =
     and_then (signature_is_valid X state t)
       (\<lambda>_. and_then (admin_check_is_valid X state t)
         (\<lambda>_. and_then (new_validator_is_valid state t) (\<lambda>_. txn_duplicates_is_valid X state t)))"

definition is_valid_mutation_given_state ::
  "'s ext \<Rightarrow> ('s, 'g) mutation_rule list \<Rightarrow> 's dbase \<Rightarrow> signed_change list \<Rightarrow> ('g, unit, error) action" where
  "is_valid_mutation_given_state X rules state m =
     bind_st (read_st (\<lambda>_. plot_event_is_valid m))
       (\<lambda>_. bind_st (read_st (\<lambda>_. duplicates_is_valid X state m))
         (\<lambda>_. bind_st (fold_st (\<lambda>rule cache. rule state m cache) rules []) (\<lambda>_. return_st ())))"

definition is_valid_txn_given_lock ::
  "'s ext \<Rightarrow> ('s, 'g) mutation_rule list \<Rightarrow> 's dbase \<Rightarrow> (u256, time \<times> txn) hash_map \<Rightarrow> txn \<Rightarrow>
   ('g, unit, error) action" where
  "is_valid_txn_given_lock X rules db pending t =
     (let state = db_state_new db in
       bind_st (read_st (\<lambda>_. is_valid_txn_given_state X state t))
         (\<lambda>_. is_valid_mutation_given_state X rules state
            (concat (map (\<lambda>(_, _, t). signed_changes t) pending) @ signed_changes t)))"

definition block_txn ::
  "'s ext \<Rightarrow> 's dbase \<Rightarrow> (u256, time \<times> txn) hash_map \<Rightarrow> u256 \<Rightarrow> (txn, error) result" where
  "block_txn X state pending h = (case hm_get pending h of Some (_, t) \<Rightarrow> Ok t | None \<Rightarrow> get_txn X state h)"

definition is_valid_block_given_state ::
  "'s ext \<Rightarrow> time \<Rightarrow> ('s, 'g) mutation_rule list \<Rightarrow> 's dbase \<Rightarrow> (u256, time \<times> txn) hash_map \<Rightarrow> block \<Rightarrow>
   ('g, unit, error) action" where
  "is_valid_block_given_state X now rules state pending blk =
     bind_st (read_st (\<lambda>_.
         and_then (time_stamp_is_valid X now state blk)
           (\<lambda>_. and_then (merkle_root_is_valid X blk)
             (\<lambda>_. for_each (\<lambda>h m. and_then (block_txn X state pending h)
                (\<lambda>t. and_then (is_valid_txn_given_state X state t) (\<lambda>_. Ok (m @ signed_changes t))))
                (txns blk) []))))
       (\<lambda>m. is_valid_mutation_given_state X rules state m)"

definition rk_is_valid_block :: "'s ext \<Rightarrow> time \<Rightarrow> block \<Rightarrow> ('s, 'g, unit) rk_action" where
  "rk_is_valid_block X now blk =
     bind_st (read_st (\<lambda>rk. db_state_at X (db_state_new (rk_db rk)) (prev (header blk))))
       (\<lambda>state rk. on_game (is_valid_block_given_state X now (rk_rules rk) state (pending_txns rk) blk) rk)"

definition rk_is_valid_txn :: "'s ext \<Rightarrow> txn \<Rightarrow> ('s, 'g, unit) rk_action" where
  "rk_is_valid_txn X t rk = on_game (is_valid_txn_given_lock X (rk_rules rk) (rk_db rk) (pending_txns rk) t) rk"

section \<open>Adding blocks\<close>

text \<open>Actions on the state that is built and the record keeper together.\<close>

definition lift_state :: "('s, 'a) db_action \<Rightarrow> ('s dbase \<times> ('s, 'g) record_keeper, 'a, error) action" where
  "lift_state act = (\<lambda>(st, rk). case act st of (r, st') \<Rightarrow> (r, (st', rk)))"

fun compile_state :: "'s ext \<Rightarrow> 's dbase \<Rightarrow> (batch_op list, error) result" where
  "compile_state X (DBState db d h) = compile X db d"
| "compile_state X (DatabaseImpl s h) = Panic"

text \<open>A transaction of the block leaves the pending pool, or is in the database already.\<close>

definition take_txn :: "'s ext \<Rightarrow> u256 \<Rightarrow> ('s dbase \<times> ('s, 'g) record_keeper, unit, error) action" where
  "take_txn X h = (\<lambda>(st, rk).
     case hm_get (pending_txns rk) h of
       Some (recv_time, t) \<Rightarrow>
         lift_state (add_txn X t recv_time) (st, rk\<lparr>pending_txns := hm_remove h (pending_txns rk)\<rparr>)
     | None \<Rightarrow> (case get_txn X st h of
           Ok _ \<Rightarrow> (Ok (), (st, rk)) | Diverge \<Rightarrow> (Diverge, (st, rk)) | _ \<Rightarrow> (Panic, (st, rk))))"

definition build_block ::
  "'s ext \<Rightarrow> block \<Rightarrow>
   ('s dbase \<times> ('s, 'g) record_keeper, (u64 \<times> u64 \<times> bool \<times> batch_op list) option, error) action" where
  "build_block X blk =
     bind_st (lift_state (add_block X blk))
       (\<lambda>added. if \<not> added then return_st None
          else bind_st (for_st (take_txn X) (txns blk))
            (\<lambda>_. bind_st (lift_state (walk_to_head X))
              (\<lambda>(invalidated, earliest). bind_st
                 (read_st (\<lambda>(st, _). Ok (block_calculate_hash X blk \<noteq> get_current_block_hash st)))
                 (\<lambda>uncled. bind_st (read_st (\<lambda>(st, _). compile_state X st))
                    (\<lambda>wb. return_st (Some (invalidated, earliest, uncled, wb)))))))"

definition commit_block ::
  "'s ext \<Rightarrow> block \<Rightarrow> bool \<Rightarrow> u64 \<Rightarrow> (u64 \<times> u64 \<times> bool \<times> batch_op list) option \<Rightarrow> ('s, 'g, bool) rk_action" where
  "commit_block X blk fresh initial_height built =
     (case built of
        None \<Rightarrow> return_st False
      | Some (invalidated, earliest, uncled, wb) \<Rightarrow>
          bind_st (on_db (db_apply X wb))
            (\<lambda>_ rk. (Ok True,
               notify_record (NewBlock uncled fresh blk)
                 (if 0 < invalidated
                  then notify_record (StateInvalidated (get_current_block_height (rk_db rk))
                         (initial_height - invalidated) earliest) rk
                  else rk))))"

definition store_block :: "'s ext \<Rightarrow> block \<Rightarrow> bool \<Rightarrow> ('s, 'g, bool) rk_action" where
  "store_block X blk fresh rk =
     (case build_block X blk (db_state_new (rk_db rk), rk) of
        (r, (_, rk')) \<Rightarrow>
          bind_res (r, rk') (commit_block X blk fresh (get_current_block_height (rk_db rk))))"

definition rk_add_block :: "'s ext \<Rightarrow> time \<Rightarrow> block \<Rightarrow> bool \<Rightarrow> ('s, 'g, bool) rk_action" where
  "rk_add_block X now blk fresh rk =
     (case get_block X (rk_db rk) (block_calculate_hash X blk) of
        Ok _ \<Rightarrow> (Ok False, rk)
      | Err _ \<Rightarrow> bind_st (rk_is_valid_block X now blk) (\<lambda>_. store_block X blk fresh) rk
      | Panic \<Rightarrow> (Panic, rk)
      | Diverge \<Rightarrow> (Diverge, rk))"

section \<open>Transactions and new blocks\<close>

definition rk_get_txn :: "'s ext \<Rightarrow> ('s, 'g) record_keeper \<Rightarrow> u256 \<Rightarrow> (txn, error) result" where
  "rk_get_txn X rk h = (case hm_get (pending_txns rk) h of Some (_, t) \<Rightarrow> Ok t | None \<Rightarrow> get_txn X (rk_db rk) h)"

definition pending_size :: "(u256, time \<times> txn) hash_map \<Rightarrow> nat" where
  "pending_size pending = foldl (\<lambda>acc (_, _, t). acc + txn_calculate_size t) 0 pending"

definition event_changes :: "change list \<Rightarrow> plot_event list" where
  "event_changes cs = List.map_filter (\<lambda>c. case c of PlotEventCh e \<Rightarrow> Some e | _ \<Rightarrow> None) cs"

definition accept_txn :: "time \<Rightarrow> u256 \<Rightarrow> txn \<Rightarrow> bool \<Rightarrow> ('s, 'g) record_keeper \<Rightarrow> ('s, 'g) record_keeper" where
  "accept_txn now h t fresh rk =
     (let rk1 = notify_record (NewTxn fresh t) (rk\<lparr>pending_txns := hm_insert h (now, t) (pending_txns rk)\<rparr>)
      in rk1\<lparr>game_notices := game_notices rk1 @ event_changes (changes (txn_mutation t))\<rparr>)"

definition rk_add_pending_txn :: "'s ext \<Rightarrow> time \<Rightarrow> txn \<Rightarrow> bool \<Rightarrow> ('s, 'g, bool) rk_action" where
  "rk_add_pending_txn X now t fresh rk =
     (let h = txn_calculate_hash X t in
       case rk_get_txn X rk h of
         Ok _ \<Rightarrow> (Ok False, rk)
       | Panic \<Rightarrow> (Panic, rk)
       | Diverge \<Rightarrow> (Diverge, rk)
       | Err _ \<Rightarrow>
           if MAX_PENDING_TXN_MEM < pending_size (pending_txns rk) + txn_calculate_size t
           then (Err (OutOfMemory ''Maximum pending txn memory reached.''), rk)
           else (case get_txn X (rk_db rk) h of
               Ok _ \<Rightarrow> (Ok False, rk)
             | Err (NotFound _) \<Rightarrow>
                 bind_st (rk_is_valid_txn X t) (\<lambda>_ rk. (Ok True, accept_txn now h t fresh rk)) rk
             | Err e \<Rightarrow> (Err e, rk)
             | Panic \<Rightarrow> (Panic, rk)
             | Diverge \<Rightarrow> (Diverge, rk)))"

definition rk_create_block :: "'s ext \<Rightarrow> time \<Rightarrow> ('s, 'g) record_keeper \<Rightarrow> (block, error) result" where
  "rk_create_block X now rk =
     and_then (get_current_block_header X (rk_db rk))
       (\<lambda>cbh. let cbh_h = header_calculate_hash X cbh; ts = map fst (pending_txns rk) in
          Ok \<lparr>header = \<lparr>version = 1, timestamp = now,
                shard = (if u256_is_zero (shard cbh) then cbh_h else shard cbh),
                prev = cbh_h, merkle_root = calculate_merkle_root X ts, blob = []\<rparr>,
              txns = ts\<rparr>)"

definition rk_get_stats :: "'s ext \<Rightarrow> ('s, 'g) record_keeper \<Rightarrow> (record_keeper_statistics, error) result" where
  "rk_get_stats X rk =
     (let current_block = get_current_block_hash (rk_db rk) in
       and_then (get_block_height X (rk_db rk) current_block)
         (\<lambda>h. Ok \<lparr>stat_height = h, stat_current_block_hash = current_block,
              stat_pending_txns_count = of_nat (length (pending_txns rk)),
              stat_pending_txns_size =
                foldl (\<lambda>acc (_, _, t). acc + of_nat (txn_calculate_size t)) 0 (pending_txns rk)\<rparr>))"

section \<open>Importing packages\<close>

definition import_block ::
  "'s ext \<Rightarrow> time \<Rightarrow> (u256, txn) hash_map \<Rightarrow> block \<Rightarrow>
   ('s dbase \<times> ('s, 'g) record_keeper, unit, error) action" where
  "import_block X now pkg_map blk = (\<lambda>(st, rk).
     case get_block_header X st (block_calculate_hash X blk) of
       Ok _ \<Rightarrow> (Ok (), (st, rk))
     | Panic \<Rightarrow> (Panic, (st, rk))
     | Diverge \<Rightarrow> (Diverge, (st, rk))
     | Err _ \<Rightarrow>
         bind_st (read_st (\<lambda>(st, _). db_state_at X (db_state_new st) (prev (header blk))))
           (\<lambda>prior (st, rk).
              case on_game (is_valid_block_given_state X now (rk_rules rk) prior
                  (map (\<lambda>(h, t). (h, (now, t))) pkg_map) blk) rk of
                (r, rk') \<Rightarrow> bind_res (r, (st, rk'))
                  (\<lambda>_. bind_st (lift_state (add_block X blk))
                    (\<lambda>_. bind_st (for_st (\<lambda>h. bind_st (read_st (\<lambda>_. unwrap (hm_get pkg_map h)))
                            (\<lambda>t. lift_state (add_txn X t now))) (txns blk))
                      (\<lambda>_. bind_st (lift_state (walk_to_head X)) (\<lambda>_. return_st ())))))
           (st, rk))"

definition build_import ::
  "'s ext \<Rightarrow> time \<Rightarrow> block list \<Rightarrow> (u256, txn) hash_map \<Rightarrow> u256 \<Rightarrow>
   ('s dbase \<times> ('s, 'g) record_keeper, u64 \<times> u64 \<times> batch_op list, error) action" where
  "build_import X now blocks pkg_map initial_block =
     bind_st (for_st (import_block X now pkg_map) blocks)
       (\<lambda>_. bind_st (read_st (\<lambda>(st, _). calculate_invalidations_to_block X st initial_block))
         (\<lambda>(_, new_blocks, earliest). bind_st (read_st (\<lambda>(st, _). compile_state X st))
            (\<lambda>wb. return_st (new_blocks, earliest, wb))))"

text \<open>The pending transactions are validated again, one after the other.\<close>

definition revalidate_txn :: "'s ext \<Rightarrow> u256 \<times> time \<times> txn \<Rightarrow> ('s, 'g, unit) rk_action" where
  "revalidate_txn X = (\<lambda>(h, recv_time, t) rk.
     case rk_is_valid_txn X t rk of
       (Ok _, rk') \<Rightarrow> (Ok (), rk'\<lparr>pending_txns := hm_insert h (recv_time, t) (pending_txns rk')\<rparr>)
     | (Err _, rk') \<Rightarrow> (Ok (), rk')
     | (Panic, rk') \<Rightarrow> (Panic, rk')
     | (Diverge, rk') \<Rightarrow> (Diverge, rk'))"

definition revalidate_pending :: "'s ext \<Rightarrow> ('s, 'g, unit) rk_action" where
  "revalidate_pending X rk = for_st (revalidate_txn X) (pending_txns rk) (rk\<lparr>pending_txns := []\<rparr>)"

definition notify_imported :: "'s ext \<Rightarrow> block \<Rightarrow> ('s, 'g, unit) rk_action" where
  "notify_imported X blk =
     bind_st (read_st (\<lambda>rk. is_part_of_current_chain X (rk_db rk) (block_calculate_hash X blk)))
       (\<lambda>uncled rk. (Ok (), notify_record (NewBlock uncled False blk) rk))"

definition commit_import ::
  "'s ext \<Rightarrow> block list \<Rightarrow> u64 \<Rightarrow> u64 \<times> u64 \<times> batch_op list \<Rightarrow> ('s, 'g, unit) rk_action" where
  "commit_import X blocks initial_height = (\<lambda>(invalidated, earliest, wb).
     bind_st (on_db (db_apply X wb))
       (\<lambda>_. bind_st (revalidate_pending X)
         (\<lambda>_. bind_st (for_st (notify_imported X) blocks)
           (\<lambda>_ rk. (Ok (),
              if 0 < invalidated
              then notify_record (StateInvalidated (get_current_block_height (rk_db rk))
                     (initial_height - invalidated) earliest) rk
              else rk)))))"

definition rk_import_pkg :: "'s ext \<Rightarrow> time \<Rightarrow> block_package \<Rightarrow> ('s, 'g, u256) rk_action" where
  "rk_import_pkg X now pkg rk =
     (case package_unpack X pkg of
        (blocks, pkg_map) \<Rightarrow>
          if blocks = [] then (Err (Deserialize ''Empty Block Package''), rk)
          else case build_import X now blocks pkg_map (get_current_block_hash (rk_db rk))
                 (db_state_new (rk_db rk), rk) of
              (r, (_, rk')) \<Rightarrow>
                bind_res (r, rk')
                  (\<lambda>built. bind_st (commit_import X blocks (get_current_block_height (rk_db rk)) built)
                    (\<lambda>_. return_st (block_calculate_hash X (last blocks)))))"

section \<open>Reading\<close>

definition rk_get_plot_events ::
  "'s ext \<Rightarrow> ('s, 'g) record_keeper \<Rightarrow> plot_id \<Rightarrow> u64 \<Rightarrow> (raw_events, error) result" where
  "rk_get_plot_events X rk plot_id from_tick =
     and_then (get_plot_events X (rk_db rk) plot_id from_tick)
       (\<lambda>events. Ok (foldl (\<lambda>events e.
            if pe_tick e \<ge> from_tick \<and> pe_from e = plot_id \<or> plot_id \<in> set (pe_to e)
            then fst (add_event events (pe_tick e) (pe_event e)) else events)
          events (concat (map (\<lambda>(_, _, t). event_changes (changes (txn_mutation t))) (pending_txns rk)))))"

definition rk_get_validator_key :: "'s ext \<Rightarrow> ('s, 'g) record_keeper \<Rightarrow> u160 \<Rightarrow> (bin, error) result" where
  "rk_get_validator_key X rk i = get_validator_key X (rk_db rk) i"

definition rk_get_current_block_hash :: "('s, 'g) record_keeper \<Rightarrow> u256" where
  "rk_get_current_block_hash rk = get_current_block_hash (rk_db rk)"

definition rk_get_block_height :: "'s ext \<Rightarrow> ('s, 'g) record_keeper \<Rightarrow> u256 \<Rightarrow> (u64, error) result" where
  "rk_get_block_height X rk h = get_block_height X (rk_db rk) h"

definition rk_get_blocks_of_height :: "'s ext \<Rightarrow> ('s, 'g) record_keeper \<Rightarrow> u64 \<Rightarrow> (u256 list, error) result" where
  "rk_get_blocks_of_height X rk n = get_blocks_of_height X (rk_db rk) n"

definition rk_get_latest_blocks :: "'s ext \<Rightarrow> ('s, 'g) record_keeper \<Rightarrow> nat \<Rightarrow> (block_header list, error) result" where
  "rk_get_latest_blocks X rk count = get_latest_blocks X (rk_db rk) count"

definition rk_get_block_header :: "'s ext \<Rightarrow> ('s, 'g) record_keeper \<Rightarrow> u256 \<Rightarrow> (block_header, error) result" where
  "rk_get_block_header X rk h = get_block_header X (rk_db rk) h"

definition rk_get_block :: "'s ext \<Rightarrow> ('s, 'g) record_keeper \<Rightarrow> u256 \<Rightarrow> (block, error) result" where
  "rk_get_block X rk h = get_block X (rk_db rk) h"

definition rk_complete_block :: "'s ext \<Rightarrow> ('s, 'g) record_keeper \<Rightarrow> block_header \<Rightarrow> (block, error) result" where
  "rk_complete_block X rk head = complete_block X (rk_db rk) head"

definition rk_is_block_in_current_chain :: "'s ext \<Rightarrow> ('s, 'g) record_keeper \<Rightarrow> u256 \<Rightarrow> (bool, error) result" where
  "rk_is_block_in_current_chain X rk h = is_part_of_current_chain X (rk_db rk) h"

definition rk_get_current_block_header :: "'s ext \<Rightarrow> ('s, 'g) record_keeper \<Rightarrow> (block_header, error) result" where
  "rk_get_current_block_header X rk = get_block_header X (rk_db rk) (get_current_block_hash (rk_db rk))"

definition rk_get_current_block :: "'s ext \<Rightarrow> ('s, 'g) record_keeper \<Rightarrow> (block, error) result" where
  "rk_get_current_block X rk = get_block X (rk_db rk) (get_current_block_hash (rk_db rk))"

definition rk_get_blocks_between ::
  "'s ext \<Rightarrow> ('s, 'g) record_keeper \<Rightarrow> u256 \<Rightarrow> u256 \<Rightarrow> nat \<Rightarrow> (block_package, error) result" where
  "rk_get_blocks_between X rk last_known target limit = blocks_between X (rk_db rk) last_known target limit"

definition rk_get_validator_stake :: "('s, 'g) record_keeper \<Rightarrow> u160 \<Rightarrow> (u64, error) result" where
  "rk_get_validator_stake rk i = Ok 1"

definition rk_get_txn_blocks ::
  "'s ext \<Rightarrow> ('s, 'g) record_keeper \<Rightarrow> u256 \<Rightarrow> (u256 set option, error) result" where
  "rk_get_txn_blocks X rk h =
     (if h \<in> fst ` set (pending_txns rk) then Ok None
      else and_then (get_txn_blocks X (rk_db rk) h) (\<lambda>x. Ok (Some x)))"

definition rk_get_account_txns :: "'s ext \<Rightarrow> ('s, 'g) record_keeper \<Rightarrow> u160 \<Rightarrow> (u256 set, error) result" where
  "rk_get_account_txns X rk account =
     and_then (get_account_txns X (rk_db rk) account)
       (\<lambda>stored. Ok (fst ` set (filter (\<lambda>(_, _, t). creator t = account) (pending_txns rk)) \<union> stored))"

definition rk_get_txn_receive_time :: "'s ext \<Rightarrow> ('s, 'g) record_keeper \<Rightarrow> u256 \<Rightarrow> (time, error) result" where
  "rk_get_txn_receive_time X rk h =
     (case hm_get (pending_txns rk) h of Some (time, _) \<Rightarrow> Ok time | None \<Rightarrow> get_txn_receive_time X (rk_db rk) h)"

section \<open>Opening\<close>

definition build_genesis :: "'s ext \<Rightarrow> block \<Rightarrow> txn list \<Rightarrow> ('s, batch_op list) db_action" where
  "build_genesis X blk ts =
     bind_st (for_st (\<lambda>t. add_txn X t (timestamp (header blk))) ts)
       (\<lambda>_. bind_st (add_block X blk)
         (\<lambda>_. bind_st (walk_to_head X) (\<lambda>_. read_st (compile_state X))))"

definition rk_open ::
  "'s ext \<Rightarrow> 's \<Rightarrow> ('s, 'g) mutation_rule list \<Rightarrow> 'g \<Rightarrow> block \<times> txn list \<Rightarrow> (('s, 'g) record_keeper, error) result" where
  "rk_open X s rules g genesis =
     (let rk = record_keeper_new (database_impl_new X s) rules g; db = rk_db rk in
       if db_is_empty X db
       then and_then (fst (build_genesis X (fst genesis) (snd genesis) (db_state_new db)))
         (\<lambda>wb. and_then (fst (on_db (db_apply X wb) rk)) (\<lambda>_. Ok (snd (on_db (db_apply X wb) rk))))
       else and_then (get_block X db (block_calculate_hash X (fst genesis))) (\<lambda>_. Ok rk))"

end
