(* ===== verification/Net_Client.thy ===== *)
theory Net_Client
  imports Shard Record_Keeper
begin

text \<open>
  The network thread: \<open>core/src/network/context.rs\<close> (the shards and their ports),
  \<open>core/src/network/client.rs\<close> (what arrives at the thread: datagrams, TCP streams, commands,
  the timer and the notices of the record keeper) and the futures that these spawn.

  A task for a worker thread is taken by \<open>work\<close>, which runs it on the record keeper and leaves a
  task with the result; \<open>run_task\<close> runs a task of the event loop. What the operating system
  decides (host names, TCP connections, the node file, the clock, random numbers) is an
  argument.
\<close>

section \<open>Shards and ports\<close>

record network =
  ctx :: net_context
  shards :: "shard_info option list"
  curr_port :: u8
  num_shards :: u8

type_synonym 'a net_action = "(network, 'a, io_error) action"

definition network_new :: "'s net_ext \<Rightarrow> string \<Rightarrow> client_config \<Rightarrow> (network, 'e) result" where
  "network_new N client_name cfg =
     and_then (context_new N client_name cfg)
       (\<lambda>c. Ok \<lparr>ctx = c, shards = replicate 255 None, curr_port = 0, num_shards = 0\<rparr>)"

text \<open>The thread starts with its socket bound and nothing sent on it.\<close>

definition client_run :: "'s net_ext \<Rightarrow> string \<Rightarrow> client_config \<Rightarrow> (network, 'e) result" where
  "client_run N client_name cfg =
     and_then (network_new N client_name cfg) (\<lambda>net. Ok (net\<lparr>ctx := (ctx net)\<lparr>udp_out := Some []\<rparr>\<rparr>))"

text \<open>The index of a shard beyond the 255 places is a panic.\<close>

definition get_shard :: "network \<Rightarrow> u8 \<Rightarrow> (shard_info option, io_error) result" where
  "get_shard net p = (if unat p < length (shards net) then Ok (shards net ! unat p) else Panic)"

definition resolve_port :: "network \<Rightarrow> u256 \<Rightarrow> u8" where
  "resolve_port net network_id =
     (case position (\<lambda>sh. case sh of Some sh \<Rightarrow> sh_network_id sh = network_id | None \<Rightarrow> False) (take 255 (shards net)) of
        Some i \<Rightarrow> of_nat i
      | None \<Rightarrow> 255)"

definition get_shard_by_id :: "network \<Rightarrow> u256 \<Rightarrow> (shard_info option, io_error) result" where
  "get_shard_by_id net network_id =
     (let p = resolve_port net network_id in if p < 255 then get_shard net p else Ok None)"

text \<open>A method of the shard at a port.\<close>

definition at_port :: "u8 \<Rightarrow> 'a shard_action \<Rightarrow> 'a net_action" where
  "at_port p m net =
     (case get_shard net p of
        Ok (Some sh) \<Rightarrow>
          (case m (sh, ctx net) of
             (r, (sh', c')) \<Rightarrow> (r, net\<lparr>ctx := c', shards := (shards net)[unat p := Some sh']\<rparr>))
      | _ \<Rightarrow> (Panic, net))"

definition net_context_action :: "(net_context, 'a, io_error) action \<Rightarrow> 'a net_action" where
  "net_context_action m net = (case m (ctx net) of (r, c) \<Rightarrow> (r, net\<lparr>ctx := c\<rparr>))"

definition net_spawn :: "task \<Rightarrow> unit net_action" where
  "net_spawn t = net_context_action (\<lambda>c. (Ok (), spawn t c))"

definition load_node_repo ::
  "'s net_ext \<Rightarrow> (local_node list option, io_error) result \<Rightarrow> net_context \<Rightarrow> (node_repository, io_error) result" where
  "load_node_repo N file c =
     and_then (repo_new (core_ext N))
       (\<lambda>repo. case repo_load (core_ext N) file repo of
            Ok (n, repo) \<Rightarrow>
              if n = 0
              then repo_build (core_ext N) (map (\<lambda>ep. local_node_new (node_new ep)) (seed_nodes (config c))) repo
              else Ok repo
          | Err _ \<Rightarrow> Ok repo
          | Panic \<Rightarrow> Panic
          | Diverge \<Rightarrow> Diverge)"

text \<open>The search for a free port does not end when all ports are taken.\<close>

partial_function (option) free_port ::
    "shard_info option list \<Rightarrow> u8 \<Rightarrow> (u8 \<times> u8, io_error) result option" where
  "free_port shs cur =
     (if unat cur < length shs
      then if shs ! unat cur = None then Some (Ok (cur, (cur + 1) mod 255))
           else free_port shs ((cur + 1) mod 255)
      else Some Panic)"

definition attach_network ::
  "'s net_ext \<Rightarrow> (local_node list option, io_error) result \<Rightarrow> time \<Rightarrow> (sock_addr list \<Rightarrow> sock_addr) \<Rightarrow> u256 \<Rightarrow> shard_mode \<Rightarrow> nat net_action" where
  "attach_network N file now_local sample network_id mode net =
     (if 128 < num_shards net then (Err (IoError ''Other'' []), net)
      else bind_st (read_st (\<lambda>net. load_node_repo N file (ctx net)))
        (\<lambda>repo. bind_st (read_st (\<lambda>net. returns (free_port (shards net) (curr_port net))))
          (\<lambda>(p, next_port). bind_st (\<lambda>net. (Ok (), net\<lparr>curr_port := next_port,
                shards := (shards net)[unat p := Some (shard_new network_id p mode repo)]\<rparr>))
            (\<lambda>_. if 2 \<le> repo_len repo then at_port p (node_scan N now_local sample 8) else return_st 0))) net)"

definition drop_sessions :: "session list \<Rightarrow> net_context \<Rightarrow> net_context" where
  "drop_sessions ss c = fold (\<lambda>s. session_drop (Some s)) ss c"

definition detach_network_port :: "'s net_ext \<Rightarrow> u8 \<Rightarrow> bool net_action" where
  "detach_network_port N idx net =
     bind_st (read_st (\<lambda>net. get_shard net idx))
       (\<lambda>sh. case sh of
          None \<Rightarrow> return_st False
        | Some _ \<Rightarrow> bind_st (at_port idx (shard_close N))
            (\<lambda>_ net. (Ok True, net\<lparr>shards := (shards net)[unat idx := None],
               ctx := drop_sessions (case shards net ! unat idx of Some sh \<Rightarrow> map snd (sessions sh) | None \<Rightarrow> []) (ctx net)\<rparr>)))
       net"

definition detach_network :: "'s net_ext \<Rightarrow> u256 \<Rightarrow> bool net_action" where
  "detach_network N network_id net = detach_network_port N (resolve_port net network_id) net"

definition network_close :: "'s net_ext \<Rightarrow> unit net_action" where
  "network_close N =
     for_st (\<lambda>i. bind_st (read_st (\<lambda>net. get_shard net (of_nat i)))
       (\<lambda>sh. if sh \<noteq> None then bind_st (detach_network_port N (of_nat i)) (\<lambda>_. return_st ()) else return_st ()))
     [0 ..< 255]"

section \<open>Packets\<close>

definition open_all :: "'s ext \<Rightarrow> u256 \<Rightarrow> node list \<Rightarrow> unit net_action" where
  "open_all X network_id nodes =
     bind_st (read_st (\<lambda>net. get_shard_by_id net network_id))
       (\<lambda>shard. case shard of
          None \<Rightarrow> return_st ()
        | Some sh \<Rightarrow> for_st (\<lambda>nd. net_spawn (OpenTask (open_session X sh nd None True) AfterOther)) nodes)"

definition complete :: "'s ext \<Rightarrow> message \<Rightarrow> network_job \<Rightarrow> network_job option net_action" where
  "complete X m self net =
     (case job_data self of
        SyncChain target cur \<Rightarrow>
          (case complete_sync X m self target cur (active_syncs (ctx net)) of
             (nj, active) \<Rightarrow> (Ok nj, net\<lparr>ctx := (ctx net)\<lparr>active_syncs := active\<rparr>\<rparr>))
      | FindNodesJob network_id \<Rightarrow>
          bind_st (case m of
              NodeList nodes _ _ \<Rightarrow>
                open_all X network_id (take (unat (ucast (max_nodes (config (ctx net))) -
                  ucast (min_nodes (config (ctx net))) :: usize)) nodes)
            | _ \<Rightarrow> return_st ())
            (\<lambda>_. return_st None) net)"

definition process_packet ::
  "'s net_ext \<Rightarrow> time \<Rightarrow> (sock_addr list \<Rightarrow> sock_addr list) \<Rightarrow> u8 \<Rightarrow> packet \<Rightarrow> sock_addr \<Rightarrow> unit net_action" where
  "process_packet N now_local shuffle p pkt a =
     (case msg pkt of
        Introduce _ nd _ \<Rightarrow> at_port p (process_introduce N pkt a nd)
      | _ \<Rightarrow> bind_st (at_port p (recv_packet N now_local pkt a))
          (\<lambda>job. case job of
             None \<Rightarrow> return_st ()
           | Some j \<Rightarrow> bind_st (complete (core_ext N) (msg pkt) j)
               (\<lambda>nj. case nj of
                  None \<Rightarrow> return_st ()
                | Some nj \<Rightarrow> bind_st (at_port p (assign_job N now_local shuffle nj)) (\<lambda>_. return_st ()))))"

section \<open>What arrives at the client\<close>

definition udp_process_packet ::
  "'s net_ext \<Rightarrow> time \<Rightarrow> (sock_addr list \<Rightarrow> sock_addr list) \<Rightarrow> socket_packet \<Rightarrow> unit net_action" where
  "udp_process_packet N now_local shuffle = (\<lambda>(a, p).
     if raw_port p = 255
     then (case msg (payload p) of
         Introduce network_id nd _ \<Rightarrow>
           bind_st (read_st (\<lambda>net. get_shard_by_id net network_id))
             (\<lambda>shard. case shard of
                Some sh \<Rightarrow> net_spawn (OpenTask (open_session (core_ext N) sh nd None False) (AfterUdp (payload p) network_id))
              | None \<Rightarrow> return_st ())
       | _ \<Rightarrow> return_st ())
     else bind_st (read_st (\<lambda>net. get_shard net (raw_port p)))
       (\<lambda>shard. case shard of
          Some _ \<Rightarrow> process_packet N now_local shuffle (raw_port p) (payload p) a
        | None \<Rightarrow> return_st ()))"

definition tcp_process_packet :: "'s net_ext \<Rightarrow> packet \<Rightarrow> unit net_action" where
  "tcp_process_packet N p =
     (case msg p of
        Introduce network_id nd _ \<Rightarrow>
          bind_st (read_st (\<lambda>net. Ok (resolve_port net network_id)))
            (\<lambda>idx. bind_st (read_st (\<lambda>net. get_shard net idx))
              (\<lambda>shard. case shard of
                 Some sh \<Rightarrow>
                   net_spawn (OpenTask (open_session (core_ext N) sh nd (Some []) False) (AfterTcp p network_id idx))
               | None \<Rightarrow> return_st ()))
      | _ \<Rightarrow> return_st ())"

definition should_forge :: "network \<Rightarrow> u256 \<Rightarrow> (bool, io_error) result" where
  "should_forge net network_id =
     and_then (get_shard_by_id net network_id)
       (\<lambda>shard. Ok (case shard of
          Some sh \<Rightarrow> 0 < get_session_count sh \<and> \<not> chain_sync_exists (active_syncs (ctx net))
        | None \<Rightarrow> False))"

definition add_node :: "'s ext \<Rightarrow> u256 \<Rightarrow> node \<Rightarrow> unit net_action" where
  "add_node X network_id nd =
     bind_st (read_st (\<lambda>net. get_shard_by_id net network_id))
       (\<lambda>shard. case shard of
          Some sh \<Rightarrow> net_spawn (OpenTask (open_session X sh nd None True) AfterOther)
        | None \<Rightarrow> return_st ())"

definition flood_network :: "'s net_ext \<Rightarrow> u256 \<Rightarrow> message \<Rightarrow> unit net_action" where
  "flood_network N network_id m net =
     (let p = resolve_port net network_id in
       if p < 255 then at_port p (reliable_flood N m) net else (Ok (), net))"

definition send_broadcast :: "'s net_ext \<Rightarrow> time \<Rightarrow> u256 \<Rightarrow> u8 \<Rightarrow> bin \<Rightarrow> unit net_action" where
  "send_broadcast N now_local network_id i pl =
     bind_st (net_context_action (handle_broadcast N now_local network_id i pl))
       (\<lambda>taken. if \<not> taken then return_st () else flood_network N network_id (Broadcast i pl))"

definition session_check ::
  "'s net_ext \<Rightarrow> (nat \<Rightarrow> sock_addr \<Rightarrow> time \<times> time \<times> time) \<Rightarrow> time \<Rightarrow> (nat \<Rightarrow> sock_addr list \<Rightarrow> sock_addr) \<Rightarrow>
   (nat \<Rightarrow> nat \<Rightarrow> sock_addr list \<Rightarrow> sock_addr list) \<Rightarrow> unit net_action" where
  "session_check N clock now_local sample shuffle =
     for_st (\<lambda>i. bind_st (read_st (\<lambda>net. get_shard net (of_nat i)))
       (\<lambda>shard. case shard of
          None \<Rightarrow> return_st ()
        | Some _ \<Rightarrow> bind_st (\<lambda>net. at_port (of_nat i)
              (node_scan N now_local (sample i) (unat (min_nodes (config (ctx net))))) net)
            (\<lambda>_. at_port (of_nat i) (check_sessions N (clock i) now_local (shuffle i)))))
     [0 ..< 255]"

definition record_event_task :: "'s net_ext \<Rightarrow> record_event \<Rightarrow> unit net_action" where
  "record_event_task N e =
     (case e of
        NewBlock uncled fresh blk \<Rightarrow>
          if fresh then flood_network N (shard (header blk)) (NewBlockMsg blk) else return_st ()
      | NewTxn fresh t \<Rightarrow>
          if fresh
          then bind_st (read_st (\<lambda>net. get_shard net 0))
            (\<lambda>sh. if sh \<noteq> None then at_port 0 (reliable_flood N (NewTransaction t)) else return_st ())
          else return_st ()
      | StateInvalidated _ _ _ \<Rightarrow> return_st ())"

record net_statistics =
  attached_networks :: u8
  connected_peers :: u32
  stat_rx :: u64
  stat_tx :: u64
  avg_latency :: u64

definition attached :: "network \<Rightarrow> shard_info list" where
  "attached net = List.map_filter id (take 255 (shards net))"

definition get_peer_info :: "network \<Rightarrow> session_info list" where
  "get_peer_info net = concat (map get_session_info (attached net))"

definition get_stats :: "network \<Rightarrow> net_statistics" where
  "get_stats net =
     fold (\<lambda>sh st. st\<lparr>attached_networks := attached_networks st + 1,
         connected_peers := connected_peers st + of_nat (get_session_count sh)\<rparr>)
       (attached net)
       \<lparr>attached_networks = 0, connected_peers = 0, stat_rx = 0, stat_tx = 0, avg_latency = 0\<rparr>"

text \<open>The lists that these two methods compute are discarded; they answer with an empty one.\<close>

definition client_get_nodes_from_repo :: "network \<Rightarrow> u256 \<Rightarrow> nat \<Rightarrow> nat \<Rightarrow> (node list, io_error) result" where
  "client_get_nodes_from_repo net network_id skip count =
     (let p = resolve_port net network_id in
       and_then (if p \<noteq> 255
         then and_then (get_shard net p) (\<lambda>sh. and_then (unwrap sh) (\<lambda>sh. get_nodes_from_repo sh skip count))
         else Ok []) (\<lambda>_. Ok []))"

definition get_shard_peer_info :: "network \<Rightarrow> u256 \<Rightarrow> (session_info list, io_error) result" where
  "get_shard_peer_info net network_id =
     (let p = resolve_port net network_id in
       and_then (if p \<noteq> 255
         then and_then (get_shard net p) (\<lambda>sh. and_then (unwrap sh) (\<lambda>sh. Ok (get_session_info sh)))
         else Ok []) (\<lambda>_. Ok []))"

section \<open>Tasks of the event loop\<close>

definition on_new_session :: "session \<Rightarrow> 'a sess_action \<Rightarrow> ('a \<times> session) net_action" where
  "on_new_session s m net =
     (case m (s, ctx net) of (r, (s', c)) \<Rightarrow> (and_then r (\<lambda>x. Ok (x, s')), net\<lparr>ctx := c\<rparr>))"

definition new_session :: "time \<Rightarrow> connection \<Rightarrow> sock_addr \<Rightarrow> packet list option \<Rightarrow> session net_action" where
  "new_session now con a strm net =
     (case session_new now (con_port con) (con_peer con) a (con_network con) strm (ctx net) of
        (s, c) \<Rightarrow> (Ok s, net\<lparr>ctx := c\<rparr>))"

definition file_session :: "'s ext \<Rightarrow> sock_addr \<Rightarrow> session \<Rightarrow> unit shard_action" where
  "file_session X a s =
     bind_st (on_shard (\<lambda>sh. sh\<lparr>peer_ids := snd (hs_insert (get_hash_id X (remote_peer s)) (peer_ids sh))\<rparr>))
       (\<lambda>_. insert_session a s)"

definition close_unfiled :: "'s net_ext \<Rightarrow> session \<Rightarrow> unit net_action" where
  "close_unfiled N s = bind_st (on_new_session s (close N)) (\<lambda>_. return_st ())"

definition connect :: "'s net_ext \<Rightarrow> time \<Rightarrow> connection \<Rightarrow> sock_addr \<Rightarrow> unit net_action" where
  "connect N now con a =
     (if protocol (endpoint (con_peer con)) = Tcp \<and> con_stream con = None
      then net_spawn (TcpConnectTask con a)
      else bind_st (new_session now con a (con_stream con))
        (\<lambda>s. bind_st (if con_introduce con then on_new_session s (send_introduce N) else return_st ((), s))
          (\<lambda>(_, s) net. let p = resolve_port net (con_network con) in
             if p < 255 then at_port p (file_session (core_ext N) a s) net else close_unfiled N s net)))"

text \<open>The connection of a TCP stream, when the operating system has made it.\<close>

definition tcp_connected :: "'s net_ext \<Rightarrow> time \<Rightarrow> connection \<Rightarrow> sock_addr \<Rightarrow> unit net_action" where
  "tcp_connected N now con a =
     bind_st (new_session now con a (Some []))
       (\<lambda>s net. let p = resolve_port net (con_network con) in
          if p < 255
          then bind_st (read_st (\<lambda>net. get_shard net p))
            (\<lambda>sh. case sh of
               Some sh \<Rightarrow>
                 if hm_get (sessions sh) a \<noteq> None then return_st ()
                 else bind_st (on_new_session s (send_introduce N))
                   (\<lambda>(_, s). bind_st (at_port p (file_session (core_ext N) a s))
                     (\<lambda>_. net_spawn (StreamTask (con_port con) a)))
             | None \<Rightarrow> return_st ()) net
          else close_unfiled N s net)"

text \<open>The callers of \<open>open_session\<close>, with the result of creating the node file.\<close>

definition forget_node :: "'s ext \<Rightarrow> (unit, io_error) result \<Rightarrow> node \<Rightarrow> shard_info \<Rightarrow> shard_info" where
  "forget_node X created peer sh =
     sh\<lparr>node_repo := snd (repo_save created (repo_remove (get_hash_id X peer) (node_repo sh)))\<rparr>"

definition finish_open ::
  "'s net_ext \<Rightarrow> time \<Rightarrow> (sock_addr list \<Rightarrow> sock_addr list) \<Rightarrow> (unit, io_error) result \<Rightarrow> after_open \<Rightarrow>
   (sock_addr, io_error) result \<Rightarrow> unit net_action" where
  "finish_open N now_local shuffle created k r net =
     (case k of
        AfterScan peer network_id \<Rightarrow>
          (if is_ok r \<or> \<not> resolve_port net network_id < 255 then (Ok (), net)
           else at_port (resolve_port net network_id) (on_shard (forget_node (core_ext N) created peer)) net)
      | AfterUdp p network_id \<Rightarrow>
          (case r of
             Ok a \<Rightarrow> if resolve_port net network_id < 255
               then process_packet N now_local shuffle (resolve_port net network_id) p a net else (Ok (), net)
           | _ \<Rightarrow> (Ok (), net))
      | AfterTcp p network_id idx \<Rightarrow>
          (case r of
             Ok a \<Rightarrow> bind_st (if resolve_port net network_id < 255
                 then process_packet N now_local shuffle (resolve_port net network_id) p a else return_st ())
               (\<lambda>_. net_spawn (StreamTask idx a)) net
           | _ \<Rightarrow> (Ok (), net))
      | AfterOther \<Rightarrow> (Ok (), net))"

definition run_open ::
  "'s net_ext \<Rightarrow> time \<Rightarrow> time \<Rightarrow> (sock_addr list \<Rightarrow> sock_addr list) \<Rightarrow> (unit, io_error) result \<Rightarrow>
   (string \<Rightarrow> (ip_addr, io_error) result) \<Rightarrow> (connection, io_error) result \<Rightarrow> after_open \<Rightarrow> unit net_action" where
  "run_open N now now_local shuffle created resolve con k =
     (case and_then con (\<lambda>con. and_then (resolve (host (endpoint (con_peer con))))
              (\<lambda>ip. Ok (con, (ip, port (endpoint (con_peer con)))))) of
        Ok (con, a) \<Rightarrow> bind_st (connect N now con a) (\<lambda>_. finish_open N now_local shuffle created k (Ok a))
      | Err e \<Rightarrow> finish_open N now_local shuffle created k (Err e)
      | Panic \<Rightarrow> (\<lambda>net. (Panic, net))
      | Diverge \<Rightarrow> (\<lambda>net. (Diverge, net)))"

text \<open>A weak reference finds its session while the allocation lives.\<close>

definition holds_rc :: "nat \<Rightarrow> shard_info option \<Rightarrow> bool" where
  "holds_rc rc sh = (case sh of Some sh \<Rightarrow> \<exists>s \<in> snd ` set (sessions sh). sess_rc s = rc | None \<Rightarrow> False)"

definition upgrade_weak :: "network \<Rightarrow> nat \<Rightarrow> (u8 \<times> sock_addr) option" where
  "upgrade_weak net rc =
     (case position (holds_rc rc) (shards net) of
        None \<Rightarrow> None
      | Some i \<Rightarrow> (case shards net ! i of
          Some sh \<Rightarrow> map_option (\<lambda>(a, _). (of_nat i, a)) (List.find (\<lambda>(_, s). sess_rc s = rc) (sessions sh))
        | None \<Rightarrow> None))"

definition reply_to :: "'s net_ext \<Rightarrow> nat \<Rightarrow> message \<Rightarrow> u32 \<Rightarrow> unit net_action" where
  "reply_to N rc m n net =
     (case upgrade_weak net rc of
        Some (p, a) \<Rightarrow> at_port p (with_session a (send_reply N m n True)) net
      | None \<Rightarrow> (Ok (), net))"

fun entry_hash :: "blockchain_entry \<Rightarrow> u256" where
  "entry_hash (BlockHeaderE h) = h"
| "entry_hash (TxnE h) = h"
| "entry_hash (TxnListE h) = h"

definition request_chain ::
  "'s net_ext \<Rightarrow> time \<Rightarrow> (sock_addr list \<Rightarrow> sock_addr list) \<Rightarrow> u256 \<Rightarrow> block \<Rightarrow> u256 \<Rightarrow> unit net_action" where
  "request_chain N now_local shuffle head_hash blk network_id net =
     (case job_new (SyncChain blk head_hash) (active_syncs (ctx net)) of
        (job, active) \<Rightarrow>
          (let net = net\<lparr>ctx := (ctx net)\<lparr>active_syncs := active\<rparr>\<rparr>; p = resolve_port net network_id in
            if p < 255 then bind_st (at_port p (assign_job N now_local shuffle job)) (\<lambda>_. return_st ()) net
            else (Ok (), net\<lparr>ctx := drop_job job (ctx net)\<rparr>)))"

definition block_done ::
  "'s net_ext \<Rightarrow> time \<Rightarrow> (sock_addr list \<Rightarrow> sock_addr list) \<Rightarrow> u256 \<Rightarrow> (bool, error) result \<Rightarrow> block \<Rightarrow> u256 \<Rightarrow>
   unit net_action" where
  "block_done N now_local shuffle head_hash r blk network_id net =
     (case r of
        Err (NotFound (Blockchain (BlockHeaderE _))) \<Rightarrow>
          request_chain N now_local shuffle head_hash blk network_id net
      | Err (NotFound (Blockchain (TxnListE _))) \<Rightarrow> (Panic, net)
      | Panic \<Rightarrow> (Panic, net)
      | _ \<Rightarrow> (Ok (), net))"

definition sync_done :: "'s net_ext \<Rightarrow> (u256 \<times> bin, error) result \<Rightarrow> nat \<Rightarrow> u32 \<Rightarrow> unit net_action" where
  "sync_done N r rc n =
     (case r of
        Ok (to, d) \<Rightarrow> reply_to N rc (ChainData to d) n
      | Err (NotFound (Blockchain e)) \<Rightarrow> reply_to N rc (DataError (HashesNotFound [entry_hash e])) n
      | Err _ \<Rightarrow> reply_to N rc (DataError InternalError) n
      | _ \<Rightarrow> (\<lambda>net. (Panic, net)))"

definition query_done ::
  "'s net_ext \<Rightarrow> (block list \<times> txn list \<times> u256 list, error) result \<Rightarrow> nat \<Rightarrow> u32 \<Rightarrow> unit net_action" where
  "query_done N r rc n =
     (case r of
        Ok (blocks, ts, failed) \<Rightarrow>
          bind_st (if blocks \<noteq> [] \<or> ts \<noteq> [] then reply_to N rc (SpotChainData blocks ts) n else return_st ())
            (\<lambda>_. if failed \<noteq> [] then reply_to N rc (DataError (HashesNotFound failed)) n else return_st ())
      | Err _ \<Rightarrow> return_st ()
      | _ \<Rightarrow> (\<lambda>net. (Panic, net)))"

text \<open>
  An unpacked package: a package without anything in it is ignored, the hash of its last block is
  only compared for a warning.
\<close>

definition import_done :: "'s ext \<Rightarrow> (block_package \<times> nat, error) result \<Rightarrow> unit net_action" where
  "import_done X r =
     (case r of
        Ok (pkg, _) \<Rightarrow>
          if package_is_empty pkg then return_st ()
          else bind_st (read_st (\<lambda>_. package_last_hash X pkg)) (\<lambda>_. net_spawn (PkgTask pkg))
      | Err _ \<Rightarrow> return_st ()
      | _ \<Rightarrow> (\<lambda>net. (Panic, net)))"

section \<open>Work on the record keeper\<close>

record pkg_ext =
  pkg_codec :: "block_package codec"
  compress :: "bin \<Rightarrow> (bin, string) result"
  decompress :: "bin \<Rightarrow> (bin, string) result"

definition sync_package ::
  "'s ext \<Rightarrow> pkg_ext \<Rightarrow> ('s, 'g) record_keeper \<Rightarrow> u256 \<Rightarrow> u256 \<Rightarrow> (u256 \<times> bin, error) result" where
  "sync_package X Z rk lbh tbh =
     and_then (rk_get_blocks_between X rk lbh tbh MAX_PACKET_SIZE)
       (\<lambda>bp. if package_is_empty bp then Err (Logic Duplicate)
          else and_then (package_last_hash X bp)
            (\<lambda>lh. and_then (package_zip (pkg_codec Z) (compress Z) bp) (\<lambda>d. Ok (lh, d))))"

definition query_one ::
  "'s ext \<Rightarrow> ('s, 'g) record_keeper \<Rightarrow> u256 \<Rightarrow> block list \<times> txn list \<times> u256 list \<Rightarrow>
   (block list \<times> txn list \<times> u256 list, error) result" where
  "query_one X rk h = (\<lambda>(blocks, ts, failed).
     case rk_get_txn X rk h of
       Ok t \<Rightarrow> Ok (blocks, ts @ [t], failed)
     | Err _ \<Rightarrow> (case rk_get_block X rk h of
           Ok b \<Rightarrow> Ok (blocks @ [b], ts, failed)
         | Err _ \<Rightarrow> Ok (blocks, ts, failed @ [h])
         | Panic \<Rightarrow> Panic
         | Diverge \<Rightarrow> Diverge)
     | Panic \<Rightarrow> Panic
     | Diverge \<Rightarrow> Diverge)"

text \<open>What a worker leaves behind; \<open>None\<close> when the task is not one for a worker.\<close>

definition work ::
  "'s ext \<Rightarrow> pkg_ext \<Rightarrow> time \<Rightarrow> task \<Rightarrow> ('s, 'g) record_keeper \<Rightarrow> (task \<times> ('s, 'g) record_keeper) option" where
  "work X Z now t rk =
     (case t of
        TxnTask txn \<Rightarrow> (case rk_add_pending_txn X now txn True rk of (r, rk') \<Rightarrow> Some (TxnDone r, rk'))
      | BlockTask blk network_id \<Rightarrow>
          (case rk_add_block X now blk True rk of (r, rk') \<Rightarrow> Some (BlockDone r blk network_id, rk'))
      | SyncTask lbh tbh rc n \<Rightarrow> Some (SyncDone (sync_package X Z rk lbh tbh) rc n, rk)
      | QueryTask hashes rc n \<Rightarrow>
          Some (QueryDone (for_each (query_one X rk) hashes ([], [], [])) rc n, rk)
      | ImportTask to raw_pkg \<Rightarrow> Some (ImportDone (package_unzip (pkg_codec Z) (decompress Z) raw_pkg) to, rk)
      | PkgTask pkg \<Rightarrow> (case rk_import_pkg X now pkg rk of (r, rk') \<Rightarrow> Some (PkgDone r, rk'))
      | _ \<Rightarrow> None)"

text \<open>A worker that does not come back leaves no result.\<close>

fun came_back :: "task \<Rightarrow> bool" where
  "came_back (TxnDone r) = (r \<noteq> Diverge)"
| "came_back (BlockDone r _ _) = (r \<noteq> Diverge)"
| "came_back (SyncDone r _ _) = (r \<noteq> Diverge)"
| "came_back (QueryDone r _ _) = (r \<noteq> Diverge)"
| "came_back (ImportDone r _) = (r \<noteq> Diverge)"
| "came_back (PkgDone r) = (r \<noteq> Diverge)"
| "came_back _ = True"

section \<open>The event loop\<close>

text \<open>
  Everything outside that an event may consult: the clock, the random numbers, the resolver and
  the sockets of the operating system, the node file, the head of the record keeper, which packets
  the UDP socket accepts and what the registered receivers of broadcasts answer. It may be different
  at every event.
\<close>

record env =
  env_now :: time
  env_local :: time
  env_clock :: "nat \<Rightarrow> sock_addr \<Rightarrow> time \<times> time \<times> time"
  env_sample :: "nat \<Rightarrow> sock_addr list \<Rightarrow> sock_addr"
  env_shuffle :: "nat \<Rightarrow> nat \<Rightarrow> sock_addr list \<Rightarrow> sock_addr list"
  env_resolve :: "string \<Rightarrow> (ip_addr, io_error) result"
  env_created :: "(unit, io_error) result"
  env_file :: "(local_node list option, io_error) result"
  env_tcp_up :: bool
  env_head :: u256
  env_udp :: "socket_packet list \<Rightarrow> socket_packet \<Rightarrow> bool"
  env_receive :: "u8 \<Rightarrow> u256 \<Rightarrow> bin \<Rightarrow> bool option"

definition run_task :: "'s net_ext \<Rightarrow> env \<Rightarrow> task \<Rightarrow> unit net_action" where
  "run_task N E t =
     (case t of
        OpenTask con k \<Rightarrow>
          run_open N (env_now E) (env_local E) (env_shuffle E 0 0) (env_created E) (env_resolve E) con k
      | TcpConnectTask con a \<Rightarrow> if env_tcp_up E then tcp_connected N (env_now E) con a else return_st ()
      | TxnDone r \<Rightarrow> if r = Panic then (\<lambda>net. (Panic, net)) else return_st ()
      | BlockDone r blk network_id \<Rightarrow>
          block_done N (env_local E) (env_shuffle E 0 0) (env_head E) r blk network_id
      | SyncDone r rc n \<Rightarrow> sync_done N r rc n
      | QueryDone r rc n \<Rightarrow> query_done N r rc n
      | ImportDone r _ \<Rightarrow> import_done (core_ext N) r
      | PkgDone r \<Rightarrow> if r = Panic then (\<lambda>net. (Panic, net)) else return_st ()
      | _ \<Rightarrow> return_st ())"

fun loop_task :: "task \<Rightarrow> bool" where
  "loop_task (OpenTask _ _) = True"
| "loop_task (TcpConnectTask _ _) = True"
| "loop_task (TxnDone _) = True"
| "loop_task (BlockDone _ _ _) = True"
| "loop_task (SyncDone _ _ _) = True"
| "loop_task (QueryDone _ _ _) = True"
| "loop_task (ImportDone _ _) = True"
| "loop_task (PkgDone _) = True"
| "loop_task _ = False"

datatype event =
    Datagram socket_packet
  | TcpFirst packet
  | StreamPacket u8 sock_addr packet
  | RunTask nat
  | AddNodeCmd u256 node
  | AttachCmd u256 shard_mode
  | DetachCmd u256
  | BroadcastCmd u256 u8 bin
  | RegisterCmd u8
  | Timer
  | RecordNotice record_event

definition stream_packet ::
  "'s net_ext \<Rightarrow> time \<Rightarrow> (sock_addr list \<Rightarrow> sock_addr list) \<Rightarrow> u8 \<Rightarrow> sock_addr \<Rightarrow> packet \<Rightarrow> unit net_action" where
  "stream_packet N now_local shuffle p a pkt =
     bind_st (read_st (\<lambda>net. get_shard net p))
       (\<lambda>sh. if sh \<noteq> None then process_packet N now_local shuffle p pkt a else return_st ())"

definition take_task :: "nat \<Rightarrow> net_context \<Rightarrow> net_context" where
  "take_task i c = c\<lparr>tasks := take i (tasks c) @ drop (i + 1) (tasks c)\<rparr>"

definition handle_event :: "'s net_ext \<Rightarrow> env \<Rightarrow> event \<Rightarrow> unit net_action" where
  "handle_event N E ev net =
     (case ev of
        Datagram sp \<Rightarrow> udp_process_packet N (env_local E) (env_shuffle E 0 0) sp net
      | TcpFirst p \<Rightarrow> tcp_process_packet N p net
      | StreamPacket p a pkt \<Rightarrow>
          if StreamTask p a \<in> set (tasks (ctx net))
          then stream_packet N (env_local E) (env_shuffle E 0 0) p a pkt net else (Ok (), net)
      | RunTask i \<Rightarrow>
          if i < length (tasks (ctx net)) \<and> loop_task (tasks (ctx net) ! i)
          then run_task N E (tasks (ctx net) ! i) (net\<lparr>ctx := take_task i (ctx net)\<rparr>) else (Ok (), net)
      | AddNodeCmd network_id nd \<Rightarrow> add_node (core_ext N) network_id nd net
      | AttachCmd network_id mode \<Rightarrow>
          (case attach_network N (env_file E) (env_local E) (env_sample E 0) network_id mode net of
             (r, net') \<Rightarrow> (and_then r (\<lambda>_. Ok ()), net'))
      | DetachCmd network_id \<Rightarrow> bind_st (detach_network N network_id) (\<lambda>_. return_st ()) net
      | BroadcastCmd network_id i pl \<Rightarrow> send_broadcast N (env_local E) network_id i pl net
      | RegisterCmd i \<Rightarrow> (Ok (), net\<lparr>ctx := register_broadcast_receiver i (ctx net)\<rparr>)
      | Timer \<Rightarrow> session_check N (env_clock E) (env_local E) (env_sample E) (env_shuffle E) net
      | RecordNotice e \<Rightarrow> record_event_task N e net)"

text \<open>An event is handled with the socket and the receivers as they are at that time.\<close>

definition at_event :: "'s net_ext \<Rightarrow> env \<Rightarrow> 's net_ext" where
  "at_event N E = N\<lparr>udp_accepts := env_udp E, receiver_answer := env_receive E\<rparr>"

definition run_event :: "'s net_ext \<Rightarrow> env \<Rightarrow> event \<Rightarrow> unit net_action" where
  "run_event N E ev = handle_event (at_event N E) E ev"

lemma at_event_simps [simp]:
  "core_ext (at_event N E) = core_ext N" "udp_accepts (at_event N E) = env_udp E"
  "receiver_answer (at_event N E) = env_receive E" "message_codec (at_event N E) = message_codec N"
  "packet_codec (at_event N E) = packet_codec N" "public_key_to_der (at_event N E) = public_key_to_der N"
  "tcp_accepts (at_event N E) = tcp_accepts N"
  by (simp_all add: at_event_def)

end
