(* ===== verification/Actions.thy ===== *)
theory Actions
  imports Prelude
begin

text \<open>
  A small logic for actions. A triple says that an action that starts in a state with the
  precondition ends with a value and a state that satisfy the postcondition, or else that its
  excuse holds: with the excuse \<open>False\<close> the action cannot panic, and with the excuse \<open>True\<close> the
  triple speaks about the successful ends only.
\<close>

fun ends :: "bool \<Rightarrow> ('a \<Rightarrow> 's \<Rightarrow> bool) \<Rightarrow> ('a, 'e) result \<times> 's \<Rightarrow> bool" where
  "ends b Q (Ok x, t) = Q x t"
| "ends b Q (Err e, t) = b"
| "ends b Q (Panic, t) = b"
| "ends b Q (Diverge, t) = b"

definition triple :: "bool \<Rightarrow> ('s \<Rightarrow> bool) \<Rightarrow> ('s, 'a, 'e) action \<Rightarrow> ('a \<Rightarrow> 's \<Rightarrow> bool) \<Rightarrow> bool" where
  "triple b P m Q \<longleftrightarrow> (\<forall>s. P s \<longrightarrow> ends b Q (m s))"

named_theorems triple \<open>rules for the triples of composed actions\<close>

lemma tripleI: "(\<And>s. P s \<Longrightarrow> ends b Q (m s)) \<Longrightarrow> triple b P m Q"
  by (simp add: triple_def)

lemma tripleD: "triple b P m Q \<Longrightarrow> P s \<Longrightarrow> ends b Q (m s)"
  by (simp add: triple_def)

lemma triple_pairI: "(\<And>s c. P (s, c) \<Longrightarrow> ends b Q (m (s, c))) \<Longrightarrow> triple b P m Q"
  by (simp add: triple_def)

lemma ends_mono: "ends b Q r \<Longrightarrow> (\<And>x t. Q x t \<Longrightarrow> Q' x t) \<Longrightarrow> (b \<Longrightarrow> b') \<Longrightarrow> ends b' Q' r"
  by (cases "(b, Q, r)" rule: ends.cases) auto

lemma triple_Ok: "triple b P m Q \<Longrightarrow> P s \<Longrightarrow> m s = (Ok x, t) \<Longrightarrow> Q x t"
  by (metis ends.simps(1) tripleD)

lemma ends_total: "ends False Q r \<Longrightarrow> \<exists>x t. r = (Ok x, t) \<and> Q x t"
  by (cases "(False, Q, r)" rule: ends.cases) auto

lemma triple_total: "triple False P m Q \<Longrightarrow> P s \<Longrightarrow> \<exists>x t. m s = (Ok x, t) \<and> Q x t"
  using tripleD ends_total by fast

lemma triple_conseq:
  "triple b P' m Q' \<Longrightarrow> (\<And>s. P s \<Longrightarrow> P' s) \<Longrightarrow> (\<And>x t. Q' x t \<Longrightarrow> Q x t) \<Longrightarrow> (b \<Longrightarrow> b') \<Longrightarrow> triple b' P m Q"
  unfolding triple_def using ends_mono [of b Q' _ Q b'] by blast

lemma triple_post: "triple b P m Q' \<Longrightarrow> (\<And>x t. Q' x t \<Longrightarrow> Q x t) \<Longrightarrow> triple b P m Q"
  by (rule triple_conseq)

lemma triple_pre: "triple b P' m Q \<Longrightarrow> (\<And>s. P s \<Longrightarrow> P' s) \<Longrightarrow> triple b P m Q"
  by (rule triple_conseq)

lemma excuse_weaken: "triple b P m Q \<Longrightarrow> (b \<Longrightarrow> b') \<Longrightarrow> triple b' P m Q"
  by (rule triple_conseq)

lemma triple_pure: "(c \<Longrightarrow> triple b P m Q) \<Longrightarrow> triple b (\<lambda>s. P s \<and> c) m Q"
  by (simp add: triple_def)

lemma triple_return: "triple b (\<lambda>s. Q x s) (return_st x) Q"
  by (simp add: triple_def)

lemma triple_return_keep [triple]: "triple b P (return_st x) (\<lambda>_. P)"
  by (simp add: triple_def)

lemma triple_bind:
  assumes "triple b P m Q" "\<And>x. triple b (Q x) (f x) R"
  shows "triple b P (bind_st m f) R"
proof (rule tripleI)
  fix s assume "P s"
  with assms(1) have "ends b Q (m s)" by (rule tripleD)
  moreover obtain r t where m: "m s = (r, t)" by fastforce
  ultimately show "ends b R (bind_st m f s)"
    using tripleD [OF assms(2)] by (cases r) (simp_all add: bind_st_def)
qed

text \<open>A property that an action keeps.\<close>

abbreviation keeps :: "bool \<Rightarrow> ('s \<Rightarrow> bool) \<Rightarrow> ('s, 'a, 'e) action \<Rightarrow> bool" where
  "keeps b I m \<equiv> triple b I m (\<lambda>_. I)"

lemma keep_bind [triple]:
  "keeps b I m \<Longrightarrow> (\<And>x. keeps b I (f x)) \<Longrightarrow> keeps b I (bind_st m f)"
  by (rule triple_bind)

lemma keep_for [triple]: "(\<And>x. x \<in> set xs \<Longrightarrow> keeps b I (f x)) \<Longrightarrow> keeps b I (for_st f xs)"
  by (induction xs) (auto intro: triple_bind triple_return_keep)

lemma keep_if [triple]:
  "(c \<Longrightarrow> triple b P m Q) \<Longrightarrow> (\<not> c \<Longrightarrow> triple b P m' Q) \<Longrightarrow> triple b P (if c then m else m') Q"
  by simp

lemma triple_fold:
  assumes "\<And>x acc. x \<in> set xs \<Longrightarrow> triple b (I acc) (f x acc) I"
  shows "triple b (I acc) (fold_st f xs acc) I"
  using assms
proof (induction xs arbitrary: acc)
  case Nil
  show ?case by (simp add: triple_def)
next
  case (Cons x xs)
  then show ?case by (auto intro: triple_bind)
qed

lemma triple_read: "(\<And>s. P s \<Longrightarrow> \<exists>x. f s = Ok x \<and> Q x s) \<Longrightarrow> triple b P (read_st f) Q"
  unfolding triple_def read_st_def by (metis ends.simps(1))

lemma triple_read_any:
  assumes "\<And>s x. P s \<Longrightarrow> f s = Ok x \<Longrightarrow> Q x s" "\<And>s. P s \<Longrightarrow> \<not> b \<Longrightarrow> is_ok (f s)"
  shows "triple b P (read_st f) Q"
proof (rule tripleI)
  fix s assume "P s"
  with assms [of s] show "ends b Q (read_st f s)" by (cases "f s") (auto simp: read_st_def)
qed

end
