(* ===== verification/Net_Inv.thy ===== *)
theory Net_Inv
  imports Net_Client Actions
begin

text \<open>
  The invariant of the network thread, from the sessions up to the context: every session is
  filed under its remote address, no job is retried beyond the limit, the ports stay within the
  table, and the thread's count of synchronisations is the number of synchronisation jobs that
  the sessions of all shards hold.

  The count is a balance: \<open>active_syncs\<close> minus what a session (a shard) holds is what the rest of
  the thread holds, and no method of the session (the shard) changes that. The triples have as
  their excuse the faults of the outside world, so they also show where the thread can panic.
\<close>

section \<open>Faults of the outside world\<close>

definition udp_may_fail :: "'s net_ext \<Rightarrow> bool" where
  "udp_may_fail N \<longleftrightarrow> (\<exists>out p. \<not> udp_accepts N out p)"

text \<open>
  A packet the thread may panic on: the verification of its signature with some key does not answer,
  or it is a broadcast on which a registered receiver panics.
\<close>

definition bad_packet :: "'s net_ext \<Rightarrow> packet \<Rightarrow> bool" where
  "bad_packet N p \<longleftrightarrow> (\<exists>nd. \<forall>v. check_sig N p nd \<noteq> (Ok v :: (bool, io_error) result)) \<or>
     (\<exists>i pl h. msg p = Broadcast i pl \<and> receiver_answer N i h pl = None)"

definition faulty :: "'s net_ext \<Rightarrow> packet \<Rightarrow> bool" where
  "faulty N p \<longleftrightarrow> udp_may_fail N \<or> bad_packet N p"

lemma check_sig_answers: "\<not> faulty N p \<Longrightarrow> \<exists>v. check_sig N p nd = (Ok v :: (bool, io_error) result)"
  by (auto simp: faulty_def bad_packet_def)

section \<open>Sending\<close>

text \<open>What sending a packet may change.\<close>

definition sends_freely :: "(session \<times> net_context \<Rightarrow> bool) \<Rightarrow> bool" where
  "sends_freely I \<longleftrightarrow> (\<forall>s c. I (s, c) \<longrightarrow> udp_out c \<noteq> None \<and>
     (\<forall>n. I (s\<lparr>current_seq := n\<rparr>, c)) \<and> (\<forall>k. I (s\<lparr>sink := k\<rparr>, c)) \<and>
     (\<forall>d. I (s\<lparr>sess_done := d\<rparr>, c)) \<and> (\<forall>out. I (s, c\<lparr>udp_out := Some out\<rparr>)))"

lemma sends_freelyD:
  assumes "sends_freely I" "I (s, c)"
  shows "udp_out c \<noteq> None" "I (s\<lparr>current_seq := n\<rparr>, c)" "I (s\<lparr>sink := k\<rparr>, c)"
    "I (s\<lparr>sess_done := d\<rparr>, c)" "I (s, c\<lparr>udp_out := Some out\<rparr>)"
  using assms by (auto simp: sends_freely_def)

lemma keeps_on_session [triple]: "(\<And>s c. I (s, c) \<Longrightarrow> I (f s, c)) \<Longrightarrow> keeps b I (on_session f)"
  by (rule triple_pairI) (simp add: on_session_def)

lemma send_udp_keeps:
  assumes "sends_freely I"
  shows "keeps (udp_may_fail N) I (send_udp N pl)"
proof (rule triple_pairI)
  fix s c assume "I (s, c)"
  note I = sends_freelyD [OF assms this]
  from I(1) obtain out where "udp_out c = Some out" by blast
  with I(5) show "ends (udp_may_fail N) (\<lambda>_. I) (send_udp N pl (s, c))"
    unfolding udp_may_fail_def
    by (cases "udp_accepts N out (remote_addr s, \<lparr>raw_port = remote_port s, payload = pl\<rparr>)")
      (auto simp: send_udp_def on_context_def udp_send_packets_def simp del: split_paired_Ex)
qed

lemma send_via_keeps:
  assumes "sends_freely I" "\<And>pl. keeps b I (out pl)"
  shows "keeps b I (send_via out N m with_sig)"
proof (rule triple_pairI)
  fix s c assume "I (s, c)"
  have "keeps b I (bind_st (out pl) (\<lambda>_. return_st (current_seq s)))" for pl
    by (intro keep_bind assms triple_return_keep)
  from tripleD [OF this sends_freelyD(2) [OF assms(1) \<open>I (s, c)\<close>]]
  show "ends b (\<lambda>_. I) (send_via out N m with_sig (s, c))" by (simp add: send_via_def Let_def)
qed

lemma close_via_keeps:
  assumes "sends_freely I" "\<And>pl. keeps b I (out pl)"
  shows "keeps b I (close_via out N)"
  unfolding close_via_def
  by (intro keep_bind send_via_keeps assms keeps_on_session sends_freelyD(4) [OF assms(1)])

lemma send_packet_keeps:
  assumes "sends_freely I"
  shows "keeps (udp_may_fail N) I (send_packet N pl)"
proof (rule triple_pairI)
  fix s c assume I: "I (s, c)"
  note u = send_udp_keeps [OF assms, of N]
  show "ends (udp_may_fail N) (\<lambda>_. I) (send_packet N pl (s, c))"
    using tripleD [OF u I] tripleD [OF close_via_keeps [where out = "send_udp N", OF assms u] sends_freelyD(3) [OF assms I]]
      sends_freelyD(3) [OF assms I]
    by (auto simp: send_packet_def split: option.split)
qed

lemma send_keeps: "sends_freely I \<Longrightarrow> keeps (udp_may_fail N) I (send N m b)"
  unfolding send_def by (rule send_via_keeps) (auto intro: send_packet_keeps)

lemma close_keeps: "sends_freely I \<Longrightarrow> keeps (udp_may_fail N) I (close N)"
  unfolding close_def by (rule close_via_keeps) (auto intro: send_packet_keeps)

lemma send_reply_keeps: "sends_freely I \<Longrightarrow> keeps (udp_may_fail N) I (send_reply N m n b)"
  by (rule triple_pairI) (auto simp: send_reply_def Let_def intro: tripleD [OF send_packet_keeps])

lemma send_introduce_keeps: "sends_freely I \<Longrightarrow> keeps (udp_may_fail N) I (send_introduce N)"
  using tripleD [OF keep_bind [OF send_keeps triple_return_keep]]
  by (intro tripleI) (simp add: send_introduce_def)

lemmas sending_keeps = send_keeps close_keeps send_reply_keeps send_introduce_keeps

section \<open>Sessions\<close>

text \<open>The synchronisations that a session holds, and those that a job in transit stands for.\<close>

definition owed :: "network_job option \<Rightarrow> usize" where
  "owed j = (case j of Some j \<Rightarrow> if is_sync (job_data j) then 1 else 0 | None \<Rightarrow> 0)"

definition held :: "session \<Rightarrow> usize" where
  "held s = owed (map_option fst (current_job s))"

definition job_ok :: "network_job \<Rightarrow> bool" where
  "job_ok j \<longleftrightarrow> try_count j \<le> MAX_JOB_RETRIES"

definition sess_fine :: "sock_addr \<Rightarrow> session \<Rightarrow> bool" where
  "sess_fine a s \<longleftrightarrow> remote_addr s = a \<and> latency s = 0 \<and>
     (\<forall>j n t. current_job s = Some (j, n, t) \<longrightarrow> job_ok j)"

fun after_ok :: "after_open \<Rightarrow> bool" where
  "after_ok (AfterTcp p i idx) \<longleftrightarrow> idx < 255 \<and> (\<exists>h nd pt. msg p = Introduce h nd pt)"
| "after_ok (AfterUdp p i) \<longleftrightarrow> (\<exists>h nd pt. msg p = Introduce h nd pt)"
| "after_ok _ \<longleftrightarrow> True"

fun task_ok :: "task \<Rightarrow> bool" where
  "task_ok (OpenTask con k) \<longleftrightarrow>
     (case con of Ok con \<Rightarrow> con_port con < 255 | Err _ \<Rightarrow> True | _ \<Rightarrow> False) \<and> after_ok k"
| "task_ok (TcpConnectTask con a) \<longleftrightarrow> con_port con < 255"
| "task_ok (StreamTask p a) \<longleftrightarrow> p < 255"
| "task_ok _ \<longleftrightarrow> True"

definition ctx_ok :: "net_context \<Rightarrow> bool" where
  "ctx_ok c \<longleftrightarrow> udp_out c \<noteq> None \<and> length (broadcast_receivers c) = 256 \<and> (\<forall>t \<in> set (tasks c). task_ok t)"

definition sess_ok :: "usize \<Rightarrow> sock_addr \<Rightarrow> session \<times> net_context \<Rightarrow> bool" where
  "sess_ok k a = (\<lambda>(s, c). active_syncs c = k + held s \<and> sess_fine a s \<and> ctx_ok c)"

lemma owed_None [simp]: "owed None = 0"
  by (simp add: owed_def)

lemma sess_ok_pair: "sess_ok k a (s, c) \<longleftrightarrow> active_syncs c = k + held s \<and> sess_fine a s \<and> ctx_ok c"
  by (simp add: sess_ok_def)

lemma ctx_ok_updates [simp]:
  "ctx_ok (c\<lparr>udp_out := Some out\<rparr>) = (ctx_ok c \<or> (length (broadcast_receivers c) = 256 \<and> (\<forall>t \<in> set (tasks c). task_ok t)))"
  "ctx_ok (c\<lparr>active_syncs := n\<rparr>) = ctx_ok c"
  "ctx_ok (c\<lparr>received_broadcasts := rb\<rparr>) = ctx_ok c"
  "ctx_ok (c\<lparr>next_rc := rc\<rparr>) = ctx_ok c"
  "task_ok t \<Longrightarrow> ctx_ok (spawn t c) = ctx_ok c"
  by (auto simp: ctx_ok_def spawn_def)

lemma session_updates [simp]:
  "sess_fine a (s\<lparr>current_seq := n\<rparr>) = sess_fine a s" "held (s\<lparr>current_seq := n\<rparr>) = held s"
  "sess_fine a (s\<lparr>sink := k\<rparr>) = sess_fine a s" "held (s\<lparr>sink := k\<rparr>) = held s"
  "sess_fine a (s\<lparr>sess_done := d\<rparr>) = sess_fine a s" "held (s\<lparr>sess_done := d\<rparr>) = held s"
  "sess_fine a (s\<lparr>strikes := m\<rparr>) = sess_fine a s" "held (s\<lparr>strikes := m\<rparr>) = held s"
  "sess_fine a (s\<lparr>abuses := m\<rparr>) = sess_fine a s" "held (s\<lparr>abuses := m\<rparr>) = held s"
  "sess_fine a (s\<lparr>last_ping_send := l\<rparr>) = sess_fine a s" "held (s\<lparr>last_ping_send := l\<rparr>) = held s"
  "sess_fine a (s\<lparr>remote_peer := nd\<rparr>) = sess_fine a s" "held (s\<lparr>remote_peer := nd\<rparr>) = held s"
  "sess_fine a (s\<lparr>remote_port := pt\<rparr>) = sess_fine a s" "held (s\<lparr>remote_port := pt\<rparr>) = held s"
  "sess_fine a (s\<lparr>sess_rc := rc\<rparr>) = sess_fine a s" "held (s\<lparr>sess_rc := rc\<rparr>) = held s"
  "held (s\<lparr>remote_addr := a'\<rparr>) = held s" "held (s\<lparr>latency := la\<rparr>) = held s"
  by (simp_all add: sess_fine_def held_def)

lemma sess_ok_sends: "sends_freely (sess_ok k a)"
  by (auto simp: sends_freely_def sess_ok_pair) (auto simp: ctx_ok_def)

lemmas session_sends = sending_keeps [OF sess_ok_sends]

lemma keeps_session: "(\<And>s. sess_fine a s \<Longrightarrow> sess_fine a (f s) \<and> held (f s) = held s) \<Longrightarrow>
  keeps b (sess_ok k a) (on_session f)"
  by (rule keeps_on_session) (simp add: sess_ok_pair)

lemma keeps_spawn: "task_ok t \<Longrightarrow> keeps b (sess_ok k a) (spawn_st t)"
  by (rule triple_pairI) (auto simp: spawn_st_def on_context_def sess_ok_pair, simp add: spawn_def)

lemma recv_ping_fine: "sess_fine a s \<Longrightarrow> sess_fine a (recv_ping t s) \<and> held (recv_ping t s) = held s"
  by (auto simp: recv_ping_def sess_fine_def held_def apply_ping_weight_def time_diff_def from_milliseconds_def
    split: option.split)

lemma mark_abuse_keeps: "keeps (udp_may_fail N) (sess_ok k a) (mark_abuse N)"
  unfolding mark_abuse_def
proof (rule keep_bind, rule keeps_session)
  have "keeps (udp_may_fail N) (sess_ok k a)
      (bind_st (send N (Bye Abuse) False) (\<lambda>_. on_session (\<lambda>s. s\<lparr>sess_done := Some Abuse\<rparr>)))"
    by (intro keep_bind session_sends keeps_session) simp
  from tripleD [OF this] show "keeps (udp_may_fail N) (sess_ok k a) (\<lambda>(s, c).
      if ucast MAX_ABUSES < abuses s
      then bind_st (send N (Bye Abuse) False) (\<lambda>_. on_session (\<lambda>s. s\<lparr>sess_done := Some Abuse\<rparr>)) (s, c)
      else (Ok (), (s, c)))" by (intro triple_pairI) simp
qed simp

lemma handle_broadcast_keeps:
  assumes "receiver_answer N i n pl = None \<Longrightarrow> b"
  shows "keeps b (sess_ok k a) (on_context (handle_broadcast N now n i pl))"
  by (rule triple_pairI)
    (use assms in \<open>auto simp: on_context_def handle_broadcast_def Let_def sess_ok_pair ctx_ok_def split: option.split\<close>)

lemma check_sig_keeps: "keeps (faulty N p) I (read_st (\<lambda>_. check_sig N p nd :: (bool, io_error) result))"
  by (rule triple_read_any) (use check_sig_answers in \<open>auto simp: is_ok_iff\<close>)

lemma take_introduction_keeps: "keeps b (sess_ok k a) (take_introduction nd p)"
  by (rule triple_pairI) (auto simp: take_introduction_def sess_ok_pair Let_def)

abbreviation data_missing :: "message \<Rightarrow> bool" where
  "data_missing m \<equiv> \<exists>hs. m = DataError (HashesNotFound hs)"

lemma udp_is_fault: "udp_may_fail N \<Longrightarrow> faulty N p"
  by (simp add: faulty_def)

lemmas fault_sends = session_sends [THEN excuse_weaken, OF udp_is_fault]

lemma reaction_keeps:
  assumes "faulty N p \<Longrightarrow> b" "data_missing (msg p) \<Longrightarrow> b"
  shows "keeps b (sess_ok k a) (reaction N now infos p s)"
proof -
  have bc: "keeps b (sess_ok k a) (on_context (handle_broadcast N now n i pl))" if "msg p = Broadcast i pl" for n i pl
    by (rule handle_broadcast_keeps) (use that assms(1) in \<open>auto simp: faulty_def bad_packet_def\<close>)
  have s: "keeps b (sess_ok k a) (send_reply N m n w)" "keeps b (sess_ok k a) (close N)"
      "keeps b (sess_ok k a) (send_introduce N)" "keeps b (sess_ok k a) (mark_abuse N)"
      "keeps b (sess_ok k a) (read_st (\<lambda>_. check_sig N p nd :: (bool, io_error) result))" for m n w nd
    by (rule excuse_weaken, rule session_sends mark_abuse_keeps check_sig_keeps, rule assms(1), simp add: faulty_def)+
  have t: "keeps b (sess_ok k a) (spawn_st t)" if "task_ok t" for t using that by (rule keeps_spawn)
  have missing: "keeps b (sess_ok k a) (\<lambda>sc. (Panic, sc))" if "msg p = DataError (HashesNotFound hs)" for hs
    using that assms(2) by (simp add: triple_def)
  show ?thesis
  proof (cases "msg p")
    case (DataError e)
    then show ?thesis by (cases e) (simp_all add: reaction_def missing triple_return_keep)
  qed (simp_all add: reaction_def s t triple_return_keep keep_bind bc keeps_session recv_ping_fine)
qed

lemma handle_keeps: "keeps (faulty N p \<or> data_missing (msg p)) (sess_ok k a) (handle N now infos p)"
proof (rule triple_pairI)
  fix s c assume I: "sess_ok k a (s, c)"
  have "keeps (faulty N p \<or> data_missing (msg p)) (sess_ok k a)
      (bind_st (reaction N now infos p s) (\<lambda>_. return_st r))" for r :: "unit option"
    by (intro keep_bind reaction_keeps triple_return_keep) auto
  from tripleD [OF this I]
  show "ends (faulty N p \<or> data_missing (msg p)) (\<lambda>_. sess_ok k a) (handle N now infos p (s, c))"
    by (simp add: handle_def)
qed

lemma take_job:
  assumes "sess_ok k a (s, c)" "current_job s = Some (j, n, t)"
  shows "sess_ok (k + owed (Some j)) a (s\<lparr>current_job := None\<rparr>, c)" "job_ok j"
  using assms by (auto simp: sess_ok_pair held_def owed_def sess_fine_def)

lemma recv_triple:
  assumes "\<And>i nd pt. msg p \<noteq> Introduce i nd pt"
  shows "triple (faulty N p \<or> data_missing (msg p)) (sess_ok k a) (recv N now infos p)
    (\<lambda>jo sc. sess_ok (k + owed jo) a sc \<and> (\<forall>j. jo = Some j \<longrightarrow> job_ok j))"
proof -
  let ?b = "faulty N p \<or> data_missing (msg p)" and
    ?Q = "\<lambda>jo sc. sess_ok (k + owed jo) a sc \<and> (\<forall>j. jo = Some j \<longrightarrow> job_ok j)" and
    ?f = "\<lambda>(s, c). case current_job s of
            Some (job, n, t) \<Rightarrow>
              if n = seq p then (Ok (Some job), (s\<lparr>current_job := None\<rparr>, c)) else (Ok None, (s, c))
          | None \<Rightarrow> (Ok None, (s, c))"
  have "triple ?b (sess_ok k a) ?f ?Q"
    by (rule triple_pairI) (auto simp: take_job split: option.split)
  then have h: "triple ?b (sess_ok k a) (bind_st (handle N now infos p) (\<lambda>_. ?f)) ?Q"
    by (rule triple_bind [OF handle_keeps])
  have early: "recv N now infos p (s, c) =
      (if sess_done s \<noteq> None then (Ok None, (s, c))
       else if \<not> is_introduced s then (Ok None, (s\<lparr>sess_done := Some Exit\<rparr>, c))
       else bind_st (handle N now infos p) (\<lambda>_. ?f) (s, c))" for s c
    using assms by (cases "msg p") (auto simp: recv_def)
  show ?thesis
  proof (rule triple_pairI)
    fix s c assume I: "sess_ok k a (s, c)"
    then have "sess_ok k a (s\<lparr>sess_done := Some Exit\<rparr>, c)" by (simp add: sess_ok_pair)
    with I tripleD [OF h I] show "ends ?b ?Q (recv N now infos p (s, c))" unfolding early by simp
  qed
qed

lemma sess_assign_job_keeps:
  assumes "job_ok job"
  shows "keeps (udp_may_fail N) (sess_ok k a) (sess_assign_job N now job)"
proof -
  let ?f = "\<lambda>n (s, c). if current_job s \<noteq> None then (Ok False, (s, c))
          else case job_clone job (active_syncs c) of
            (j, active) \<Rightarrow> (Ok True, (s\<lparr>current_job := Some (j, n, now)\<rparr>, c\<lparr>active_syncs := active\<rparr>))"
  have "keeps (udp_may_fail N) (sess_ok k a) (?f n)" for n
    by (rule triple_pairI)
      (use assms in \<open>auto simp: job_clone_def sess_ok_pair held_def owed_def sess_fine_def split: option.splits\<close>)
  then have "keeps (udp_may_fail N) (sess_ok k a) (bind_st (send N (make_req (core_ext N) job) False) ?f)"
    by (intro keep_bind session_sends)
  from tripleD [OF this] show ?thesis
    by (intro triple_pairI) (simp add: sess_assign_job_def)
qed

lemma check_conn_keeps: "keeps (udp_may_fail N) (sess_ok k a) (check_conn N now now')"
proof -
  have i: "keeps (udp_may_fail N) (sess_ok k a) (bind_st (send N m False)
      (\<lambda>_. on_session (\<lambda>s. let n = strikes s + 1; s = s\<lparr>strikes := n\<rparr>
          in if ucast TIMEOUT_TOLERANCE < n then s\<lparr>sess_done := Some Timeout\<rparr> else s)))" for m
    by (intro keep_bind session_sends keeps_session) (simp add: Let_def)
  have p: "keeps (udp_may_fail N) (sess_ok k a) (bind_st (send N (Ping now') False)
      (\<lambda>_. on_session (\<lambda>s. s\<lparr>last_ping_send := Some now'\<rparr>)))"
    by (intro keep_bind session_sends keeps_session) simp
  show ?thesis
  proof (rule triple_pairI)
    fix s c assume I: "sess_ok k a (s, c)"
    let ?s = "case last_ping_send s of
        Some lps \<Rightarrow> if time_less PING_TIMEOUT (time_diff lps now) then s\<lparr>strikes := strikes s + 1\<rparr> else s
      | None \<Rightarrow> s"
    have "sess_ok k a (?s, c)" "sess_ok k a (?s\<lparr>sess_done := Some Timeout\<rparr>, c)"
      using I by (auto simp: sess_ok_pair split: option.split)
    with tripleD [OF i I] tripleD [OF p, of "(?s, c)"] I
    show "ends (udp_may_fail N) (\<lambda>_. sess_ok k a) (check_conn N now now' (s, c))"
      by (simp add: check_conn_def Let_def)
  qed
qed

lemma check_job_ok:
  assumes "sess_ok k a (s, c)" "check_job now s = (j, s')"
  shows "sess_ok (k + owed j) a (s', c)" "\<And>i. j = Some i \<Longrightarrow> job_ok i" "is_introduced s' = is_introduced s"
    "sess_done s' = sess_done s" "remote_peer s' = remote_peer s"
  using assms take_job [OF assms(1)] by (auto simp: check_job_def owed_def is_introduced_def split: option.splits if_splits)

text \<open>An introduction may move the session to another address.\<close>

definition sess_here :: "usize \<Rightarrow> session \<times> net_context \<Rightarrow> bool" where
  "sess_here k = (\<lambda>(s, c). sess_ok k (remote_addr s) (s, c))"

lemma sess_here_sends: "sends_freely (sess_here k)"
  by (auto simp: sends_freely_def sess_here_def sess_ok_pair) (auto simp: ctx_ok_def sess_fine_def)

lemma handle_introduce_keeps:
  assumes "msg p = Introduce i nd pt"
  shows "keeps (faulty N p) (sess_here k) (handle_introduce N p na)"
proof -
  have t: "keeps (faulty N p) (sess_here k) (take_introduction nd pt)"
    by (rule triple_pairI) (auto simp: take_introduction_def sess_here_def sess_ok_pair Let_def sess_fine_def)
  have m: "keeps (faulty N p) (sess_here k) (on_session (\<lambda>s. s\<lparr>remote_addr := na\<rparr>))"
    by (rule keeps_on_session) (auto simp: sess_here_def sess_ok_pair sess_fine_def)
  have r: "keeps (faulty N p) (sess_here k) (bind_st (read_st (\<lambda>_. check_sig N p rp))
      (\<lambda>valid. if \<not> valid then return_st ()
         else bind_st (on_session (\<lambda>s. s\<lparr>remote_addr := na\<rparr>)) (\<lambda>_. take_introduction nd pt)))" for rp
    by (intro keep_bind check_sig_keeps keep_if triple_return_keep m t)
  have f: "keeps (faulty N p) (sess_here k) (bind_st (take_introduction nd pt) (\<lambda>_. send_introduce N))"
    by (intro keep_bind t excuse_weaken [OF sending_keeps(4) [OF sess_here_sends]] udp_is_fault)
  from tripleD [OF r] tripleD [OF f] show ?thesis
    by (intro triple_pairI) (simp add: handle_introduce_def assms)
qed

section \<open>Shards\<close>

definition held_in :: "(sock_addr, session) hash_map \<Rightarrow> usize" where
  "held_in m = sum_list (map (\<lambda>(_, s). held s) m)"

definition shard_fine :: "'s ext \<Rightarrow> u8 \<Rightarrow> shard_info \<Rightarrow> bool" where
  "shard_fine X p sh \<longleftrightarrow> hm_ok (sessions sh) \<and> (\<forall>(a, s) \<in> set (sessions sh). sess_fine a s) \<and>
     sh_port sh = p \<and> p < 255 \<and> repo_ok X (node_repo sh)"

text \<open>The state of a shard's method, with the addresses its sessions are filed under.\<close>

definition shard_ok :: "'s ext \<Rightarrow> u8 \<Rightarrow> sock_addr list \<Rightarrow> usize \<Rightarrow> shard_info \<times> net_context \<Rightarrow> bool" where
  "shard_ok X p ks k = (\<lambda>(sh, c). active_syncs c = k + held_in (sessions sh) \<and> shard_fine X p sh \<and> ctx_ok c \<and>
     map fst (sessions sh) = ks)"

lemma shard_ok_pair: "shard_ok X p ks k (sh, c) \<longleftrightarrow>
    active_syncs c = k + held_in (sessions sh) \<and> shard_fine X p sh \<and> ctx_ok c \<and> map fst (sessions sh) = ks"
  by (simp add: shard_ok_def)

lemma hm_insert_known: "k \<in> fst ` set m \<Longrightarrow> map fst (hm_insert k v m) = map fst m"
  by (induction m) auto

lemma held_in_Cons: "held_in ((a, s) # m) = held s + held_in m"
  by (simp add: held_in_def)

lemma held_in_insert:
  "hm_ok m \<Longrightarrow> hm_get m a = Some s \<Longrightarrow> held_in (hm_insert a s' m) = held_in m - held s + held s'"
proof (induction m)
  case (Cons e m)
  obtain b t where e: "e = (b, t)" by (cases e)
  show ?case
  proof (cases "b = a")
    case True
    then show ?thesis using Cons.prems by (simp add: e held_in_Cons)
  next
    case False
    then show ?thesis using Cons by (simp add: e held_in_Cons algebra_simps)
  qed
qed simp

lemma held_in_insert_new: "hm_get m a = None \<Longrightarrow> held_in (hm_insert a s m) = held_in m + held s"
  by (induction m) (auto simp: held_in_def split: if_splits)

lemma held_in_remove: "hm_ok m \<Longrightarrow> hm_get m a = Some s \<Longrightarrow> held_in (hm_remove a m) = held_in m - held s"
proof (induction m)
  case (Cons e m)
  obtain b t where e: "e = (b, t)" by (cases e)
  show ?case
  proof (cases "b = a")
    case True
    then have "hm_remove a m = m" using Cons.prems by (auto simp: e delete_idem map_of_eq_None_iff)
    then show ?thesis using True Cons.prems by (simp add: e held_in_Cons)
  next
    case False
    then show ?thesis using Cons by (simp add: e held_in_Cons algebra_simps)
  qed
qed simp

lemma sessions_insert:
  assumes "hm_ok m" "\<forall>(a, s) \<in> set m. sess_fine a s" "sess_fine a s"
  shows "hm_ok (hm_insert a s m)" "\<forall>(a, s) \<in> set (hm_insert a s m). sess_fine a s"
proof -
  show ok: "hm_ok (hm_insert a s m)" using assms(1) by (rule distinct_update)
  have "sess_fine b t" if "(b, t) \<in> set (hm_insert a s m)" for b t
  proof -
    have "hm_get (hm_insert a s m) b = Some t" using that ok by simp
    then have "b = a \<and> t = s \<or> (b, t) \<in> set m" by (auto simp: map_simps split: if_splits dest: map_of_SomeD)
    then show ?thesis using assms(2,3) by blast
  qed
  then show "\<forall>(a, s) \<in> set (hm_insert a s m). sess_fine a s" by blast
qed

lemma sessions_remove:
  assumes "hm_ok m" "\<forall>(a, s) \<in> set m. sess_fine a s"
  shows "hm_ok (hm_remove a m)" "\<forall>(a, s) \<in> set (hm_remove a m). sess_fine a s"
  using assms distinct_delete [of m a] by (auto simp: AList.delete_eq)

lemma shard_fine_session: "shard_fine X p sh \<Longrightarrow> hm_get (sessions sh) a = Some s \<Longrightarrow> sess_fine a s"
  by (auto simp: shard_fine_def dest: map_of_SomeD)

lemma with_session_triple:
  assumes "\<And>k. triple b (sess_ok k a) m (\<lambda>x sc. sess_ok (k + g x) a sc \<and> R x sc)" "a \<in> set ks"
  shows "triple b (shard_ok X p ks k) (with_session a m)
    (\<lambda>x (sh, c). shard_ok X p ks (k + g x) (sh, c) \<and> (\<exists>s. hm_get (sessions sh) a = Some s \<and> R x (s, c)))"
proof (rule triple_pairI)
  fix sh c assume I: "shard_ok X p ks k (sh, c)"
  have keys: "a \<in> fst ` set (sessions sh)" and hm: "hm_ok (sessions sh)"
    using I assms(2) by (auto simp: shard_ok_pair shard_fine_def)
  then obtain s where s: "hm_get (sessions sh) a = Some s" using hm_get_key by fastforce
  let ?k = "k + (held_in (sessions sh) - held s)"
  have s_ok: "sess_ok ?k a (s, c)"
    using I shard_fine_session [OF _ s] by (auto simp: shard_ok_pair sess_ok_pair)
  have refiled: "shard_ok X p ks (k + g x) (sh\<lparr>sessions := hm_insert a s' (sessions sh)\<rparr>, c')"
    if "sess_ok (?k + g x) a (s', c')" for x s' c'
  proof -
    have "active_syncs c' = k + g x + held_in (hm_insert a s' (sessions sh))"
      using that by (simp add: sess_ok_pair held_in_insert [OF hm s])
    then show ?thesis using that I sessions_insert [OF hm, of a s'] keys
      by (simp add: shard_ok_pair shard_fine_def sess_ok_pair hm_insert_known)
  qed
  obtain r s' c' where m: "m (s, c) = (r, (s', c'))" by (metis surj_pair)
  from tripleD [OF assms(1) s_ok] m refiled show "ends b (\<lambda>x (sh, c). shard_ok X p ks (k + g x) (sh, c) \<and>
      (\<exists>s. hm_get (sessions sh) a = Some s \<and> R x (s, c))) (with_session a m (sh, c))"
    by (cases r) (simp_all add: with_session_def s map_simps)
qed

lemma with_session_keeps:
  assumes "\<And>k. keeps b (sess_ok k a) m" "a \<in> set ks"
  shows "keeps b (shard_ok X p ks k) (with_session a m)"
  by (rule triple_post [OF with_session_triple [where g = "\<lambda>_. 0" and R = "\<lambda>_ _. True"]])
    (use assms in auto)

subsection \<open>Jobs in transit\<close>

definition owed_all :: "network_job list \<Rightarrow> usize" where
  "owed_all jobs = sum_list (map (\<lambda>j. owed (Some j)) jobs)"

lemma job_drop_owed: "job_drop j n = n - owed (Some j)"
  by (simp add: job_drop_def owed_def)

lemma shard_ok_drop: "shard_ok X p ks (k + owed (Some j)) (sh, c) \<Longrightarrow> shard_ok X p ks k (sh, drop_job j c)"
  by (auto simp: shard_ok_pair drop_job_def job_drop_owed)

lemma try_assign_keeps:
  assumes "job_ok job" "set as \<subseteq> set ks"
  shows "keeps (udp_may_fail N) (shard_ok X p ks k) (try_assign N now job as)"
  using assms(2)
proof (induction as)
  case Nil
  show ?case by (simp only: try_assign.simps triple_return_keep)
next
  case (Cons a as)
  then show ?case
    by (auto simp del: return_st_simps intro!: keep_bind with_session_keeps sess_assign_job_keeps assms(1) triple_return_keep)
qed

text \<open>What the random numbers of the code are: permutations and samples.\<close>

definition reorders :: "(sock_addr list \<Rightarrow> sock_addr list) \<Rightarrow> bool" where
  "reorders f \<longleftrightarrow> (\<forall>xs. set (f xs) = set xs)"

definition samples :: "(sock_addr list \<Rightarrow> sock_addr) \<Rightarrow> bool" where
  "samples f \<longleftrightarrow> (\<forall>xs. xs \<noteq> [] \<longrightarrow> f xs \<in> set xs)"

lemma assign_job_triple:
  assumes "job_ok job" "reorders f"
  shows "triple (udp_may_fail N) (shard_ok X p ks (k + owed (Some job))) (assign_job N now f job) (\<lambda>_. shard_ok X p ks k)"
proof (rule triple_pairI)
  fix sh c assume I: "shard_ok X p ks (k + owed (Some job)) (sh, c)"
  have "map fst (sessions sh) = ks" using I by (simp add: shard_ok_pair)
  moreover have "set (f ks) \<subseteq> set ks" using assms(2) by (simp add: reorders_def)
  moreover have "triple b (shard_ok X p ks (k + owed (Some job))) (\<lambda>(sh, c). (Ok taken, (sh, drop_job job c)))
      (\<lambda>_. shard_ok X p ks k)" for taken :: bool and b
    by (rule triple_pairI) (simp add: shard_ok_drop)
  ultimately have "triple (udp_may_fail N) (shard_ok X p ks (k + owed (Some job)))
      (bind_st (try_assign N now job (f (map fst (sessions sh)))) (\<lambda>taken (sh, c). (Ok taken, (sh, drop_job job c))))
      (\<lambda>_. shard_ok X p ks k)"
    by (intro triple_bind [OF try_assign_keeps]) (auto intro: assms(1))
  from tripleD [OF this I] show "ends (udp_may_fail N) (\<lambda>_. shard_ok X p ks k) (assign_job N now f job (sh, c))"
    by (simp add: assign_job_def)
qed

subsection \<open>Scanning for nodes\<close>

lemma on_shard_keeps:
  "(\<And>sh. sessions (f sh) = sessions sh) \<Longrightarrow> (\<And>sh. shard_fine X p sh \<Longrightarrow> shard_fine X p (f sh)) \<Longrightarrow>
    keeps b (shard_ok X p ks k) (on_shard f)"
  by (rule triple_pairI) (simp add: on_shard_def shard_ok_pair)

lemma scan_loop_Ok:
  assumes "repo_ok X repo" "0 < repo_len repo"
  shows "\<exists>r. scan_loop X me ids repo cur wanted idx queue attempts = Ok r"
  using assms
proof (induction X me ids repo cur wanted idx queue attempts rule: scan_loop.induct)
  case (1 X me ids repo cur wanted idx queue attempts)
  obtain n where "(repo_get_nodes repo idx :: (node, io_error) result) = Ok n"
    using repo.pick_total [OF "1.prems"] by blast
  with 1 show ?case by (subst scan_loop.simps) (auto simp: Let_def)
qed

lemma open_session_task:
  assumes "shard_fine X p sh" "after_ok k"
  shows "task_ok (OpenTask (open_session Y sh peer strm i) k)"
  using assms by (auto simp: open_session_def Let_def shard_fine_def)

lemma shard_spawn_keeps:
  assumes "task_ok t"
  shows "keeps b (shard_ok X p ks k) (shard_spawn t)"
  by (rule triple_pairI) (use assms in \<open>simp add: shard_spawn_def shard_ok_pair spawn_def ctx_ok_def\<close>)

lemma spawn_open_keeps:
  assumes "\<And>sh. after_ok (k' sh)"
  shows "keeps b (shard_ok X p ks k) (\<lambda>(sh, c). shard_spawn (OpenTask (open_session Y sh peer strm i) (k' sh)) (sh, c))"
proof (rule triple_pairI)
  fix sh c assume I: "shard_ok X p ks k (sh, c)"
  then have "task_ok (OpenTask (open_session Y sh peer strm i) (k' sh))"
    using assms by (intro open_session_task) (auto simp: shard_ok_pair)
  from tripleD [OF shard_spawn_keeps [OF this] I]
  show "ends b (\<lambda>_. shard_ok X p ks k) (case (sh, c) of (sh, c) \<Rightarrow>
      shard_spawn (OpenTask (open_session Y sh peer strm i) (k' sh)) (sh, c))" by simp
qed

lemma fresh_job_ok: "job_ok (fst (job_new d n))"
  by (simp add: job_ok_def job_new_def MAX_JOB_RETRIES_def)

lemma node_scan_keeps:
  assumes "samples f"
  shows "keeps (udp_may_fail N) (shard_ok (core_ext N) p ks k) (node_scan N now f wanted)"
proof (rule triple_pairI)
  fix sh c assume I: "shard_ok (core_ext N) p ks k (sh, c)"
  let ?I = "shard_ok (core_ext N) p ks k" and ?b = "udp_may_fail N"
  have ask: "keeps ?b ?I (if sessions sh \<noteq> []
        then bind_st (with_session (f (map fst (sessions sh))) (sess_assign_job N now
               (fst (job_new (FindNodesJob i) 0)))) (\<lambda>_. return_st ()) else return_st ())" for i
    using I assms by (intro keep_if keep_bind with_session_keeps sess_assign_job_keeps fresh_job_ok triple_return_keep)
      (auto simp: shard_ok_pair samples_def)
  have scan: "keeps ?b ?I (read_st (\<lambda>(sh, c).
        if 0 < repo_len (node_repo sh)
        then scan_loop (core_ext N) (my_node c) (peer_ids sh) (node_repo sh) cur wanted (last_peer_idx sh) [] 0
        else Ok (last_peer_idx sh, [])))" for cur
    by (rule triple_read) (use scan_loop_Ok in \<open>auto simp: shard_ok_pair shard_fine_def\<close>)
  have rest: "keeps ?b ?I (bind_st (on_shard (\<lambda>sh. sh\<lparr>last_peer_idx := idx\<rparr>))
      (\<lambda>_. bind_st (for_st (\<lambda>peer (sh, c).
           shard_spawn (OpenTask (open_session (core_ext N) sh peer None True) (AfterScan peer (sh_network_id sh))) (sh, c)) queue)
        (\<lambda>_. read_st (\<lambda>(sh, _). Ok (length (sessions sh))))))" for idx queue
    by (intro keep_bind on_shard_keeps keep_for spawn_open_keeps triple_read) (auto simp: shard_fine_def)
  note all = keep_bind [OF ask keep_bind [OF scan], of "\<lambda>_ (idx, queue). _ idx queue"]
  show "ends ?b (\<lambda>_. ?I) (node_scan N now f wanted (sh, c))"
    unfolding node_scan_def Let_def prod.case
    by (cases "wanted \<le> length (sessions sh)")
      (use I in \<open>auto simp only: if_True if_False ends.simps intro!: tripleD [OF all I] split: prod.split intro: rest\<close>)
qed

subsection \<open>Checking the sessions\<close>

lemma retry_job_triple:
  assumes "\<And>i. j = Some i \<Longrightarrow> job_ok i" "\<forall>i \<in> set jobs. job_ok i"
  shows "triple b (shard_ok X p ks (k + owed_all jobs + owed j)) (retry_job j jobs)
    (\<lambda>jobs' st. shard_ok X p ks (k + owed_all jobs') st \<and> (\<forall>i \<in> set jobs'. job_ok i))"
proof (rule triple_pairI)
  fix sh c assume I: "shard_ok X p ks (k + owed_all jobs + owed j) (sh, c)"
  show "ends b (\<lambda>jobs' st. shard_ok X p ks (k + owed_all jobs') st \<and> (\<forall>i \<in> set jobs'. job_ok i)) (retry_job j jobs (sh, c))"
  proof (cases j)
    case None
    then show ?thesis using I assms(2) by (simp add: retry_job_def)
  next
    case (Some i)
    let ?i = "i\<lparr>try_count := try_count i + 1\<rparr>"
    have "owed (Some ?i) = owed j" by (simp add: Some owed_def)
    then have "shard_ok X p ks (k + owed_all (jobs @ [?i])) (sh, c)" "shard_ok X p ks (k + owed_all jobs) (sh, drop_job ?i c)"
      using I shard_ok_drop [of X p ks "k + owed_all jobs" ?i sh c] by (simp_all add: owed_all_def add.assoc)
    then show ?thesis using assms(2) by (auto simp: retry_job_def Some Let_def job_ok_def not_less)
  qed
qed

lemma session_outcome_triple:
  "triple b (shard_ok X p ks k) (session_outcome X a s removed)
    (\<lambda>removed' st. shard_ok X p ks k st \<and> (removed' = removed \<or> removed' = removed @ [a]))"
  by (rule triple_pairI)
    (auto simp: session_outcome_def shard_ok_pair shard_fine_def repo_remove_ok split: option.split)

lemma meet_peer_keeps: "keeps b (shard_ok X p ks k) (on_shard (meet_peer X s))"
  by (rule on_shard_keeps) (auto simp: meet_peer_def shard_fine_def repo_new_node_ok)

lemma check_session_triple:
  assumes "a \<in> set ks" "\<forall>i \<in> set jobs. job_ok i"
  shows "triple (udp_may_fail N) (shard_ok (core_ext N) p ks (k + owed_all jobs)) (check_session N clock a (removed, jobs))
    (\<lambda>(removed', jobs') st. shard_ok (core_ext N) p ks (k + owed_all jobs') st \<and> (\<forall>i \<in> set jobs'. job_ok i) \<and>
      (removed' = removed \<or> removed' = removed @ [a]))"
proof -
  let ?b = "udp_may_fail N" and ?I = "\<lambda>jobs. shard_ok (core_ext N) p ks (k + owed_all jobs)"
  obtain now now' now_local where clock: "clock a = (now, now', now_local)" by (metis surj_pair)
  have look: "triple ?b (sess_ok k' a) (bind_st (check_conn N now now')
         (\<lambda>_ (s, c). case check_job now_local s of (j, s') \<Rightarrow> (Ok (j, s'), (s', c))))
      (\<lambda>x sc. sess_ok (k' + owed (fst x)) a sc \<and> (\<forall>i. fst x = Some i \<longrightarrow> job_ok i))" for k'
    by (rule triple_bind [OF check_conn_keeps], rule triple_pairI)
      (auto simp: check_job_ok split: prod.split)
  have outcome: "triple ?b (?I js) (bind_st (session_outcome (core_ext N) a s removed)
           (\<lambda>removed. bind_st (on_shard (meet_peer (core_ext N) s)) (\<lambda>_. return_st (removed, js))))
      (\<lambda>(removed', jobs') st. ?I jobs' st \<and> (\<forall>i \<in> set jobs'. job_ok i) \<and> (removed' = removed \<or> removed' = removed @ [a]))"
    if "\<forall>i \<in> set js. job_ok i" for s js
  proof (rule triple_bind [OF session_outcome_triple], rule triple_pure)
    fix r assume "r = removed \<or> r = removed @ [a]"
    then show "triple ?b (?I js) (bind_st (on_shard (meet_peer (core_ext N) s)) (\<lambda>_. return_st (r, js)))
      (\<lambda>(removed', jobs') st. ?I jobs' st \<and> (\<forall>i \<in> set jobs'. job_ok i) \<and> (removed' = removed \<or> removed' = removed @ [a]))"
      using that by (intro triple_bind [OF meet_peer_keeps]) (simp add: triple_def)
  qed
  have after: "triple ?b (shard_ok (core_ext N) p ks (k + owed_all jobs + owed j))
      (bind_st (retry_job j jobs) (\<lambda>jobs. bind_st (session_outcome (core_ext N) a s removed)
           (\<lambda>removed. bind_st (on_shard (meet_peer (core_ext N) s)) (\<lambda>_. return_st (removed, jobs)))))
      (\<lambda>(removed', jobs') st. ?I jobs' st \<and> (\<forall>i \<in> set jobs'. job_ok i) \<and> (removed' = removed \<or> removed' = removed @ [a]))"
    if "\<forall>i. j = Some i \<longrightarrow> job_ok i" for j s
    by (rule triple_bind [OF retry_job_triple]) (use that assms(2) in \<open>auto intro!: triple_pure outcome\<close>)
  let ?Q = "\<lambda>x st. shard_ok (core_ext N) p ks (k + owed_all jobs + owed (fst x)) st \<and> (\<forall>i. fst x = Some i \<longrightarrow> job_ok i)"
  have "triple ?b (?I jobs) (with_session a (bind_st (check_conn N now now')
         (\<lambda>_ (s, c). case check_job now_local s of (j, s') \<Rightarrow> (Ok (j, s'), (s', c))))) ?Q"
    by (rule triple_post [OF with_session_triple [OF look assms(1)]]) auto
  then show ?thesis
    unfolding check_session_def clock prod.case
    by (rule triple_bind) (auto intro!: triple_pure after)
qed

lemma check_all_triple:
  assumes "distinct (removed @ as)" "set (removed @ as) \<subseteq> set ks" "\<forall>i \<in> set jobs. job_ok i"
  shows "triple (udp_may_fail N) (shard_ok (core_ext N) p ks (k + owed_all jobs))
    (fold_st (check_session N clock) as (removed, jobs))
    (\<lambda>(removed', jobs') st. shard_ok (core_ext N) p ks (k + owed_all jobs') st \<and> (\<forall>i \<in> set jobs'. job_ok i) \<and>
      distinct removed' \<and> set removed' \<subseteq> set ks)"
  using assms
proof (induction as arbitrary: removed jobs)
  case Nil
  then show ?case by (simp add: triple_def)
next
  case (Cons a as)
  have "a \<in> set ks" using Cons.prems(2) by simp
  show ?case
    unfolding fold_st.simps
  proof (rule triple_bind [OF check_session_triple [OF \<open>a \<in> set ks\<close> Cons.prems(3)]])
    fix x :: "sock_addr list \<times> network_job list"
    obtain r js where x: "x = (r, js)" by (cases x)
    have "triple (udp_may_fail N) (shard_ok (core_ext N) p ks (k + owed_all js)) (fold_st (check_session N clock) as (r, js))
      (\<lambda>(removed', jobs') st. shard_ok (core_ext N) p ks (k + owed_all jobs') st \<and> (\<forall>i \<in> set jobs'. job_ok i) \<and>
        distinct removed' \<and> set removed' \<subseteq> set ks)"
      if "\<forall>i \<in> set js. job_ok i" "r = removed \<or> r = removed @ [a]"
      using that Cons.prems by (intro Cons.IH) auto
    then show "triple (udp_may_fail N) ((\<lambda>(removed', jobs') st. shard_ok (core_ext N) p ks (k + owed_all jobs') st \<and>
          (\<forall>i \<in> set jobs'. job_ok i) \<and> (removed' = removed \<or> removed' = removed @ [a])) x)
        (fold_st (check_session N clock) as x)
      (\<lambda>(removed', jobs') st. shard_ok (core_ext N) p ks (k + owed_all jobs') st \<and> (\<forall>i \<in> set jobs'. job_ok i) \<and>
        distinct removed' \<and> set removed' \<subseteq> set ks)"
      unfolding x prod.case by (intro triple_pure) blast
  qed
qed

lemma session_drop_held: "session_drop (Some s) c = c\<lparr>active_syncs := active_syncs c - held s\<rparr>"
  by (cases "current_job s") (auto simp: session_drop_def held_def job_drop_owed)

lemma remove_session_triple:
  assumes "a \<in> set ks"
  shows "triple b (shard_ok X p ks k) (remove_session a) (\<lambda>_. shard_ok X p (filter (\<lambda>x. x \<noteq> a) ks) k)"
proof (rule triple_pairI)
  fix sh c assume I: "shard_ok X p ks k (sh, c)"
  then have hm: "hm_ok (sessions sh)" and "a \<in> fst ` set (sessions sh)"
    using assms by (auto simp: shard_ok_pair shard_fine_def)
  then obtain s where s: "hm_get (sessions sh) a = Some s" using hm_get_key by fastforce
  have "map fst (hm_remove a (sessions sh)) = filter (\<lambda>x. x \<noteq> a) (map fst (sessions sh))"
    by (simp add: AList.delete_eq filter_map comp_def split_def) (metis (no_types))
  then show "ends b (\<lambda>_. shard_ok X p (filter (\<lambda>x. x \<noteq> a) ks) k) (remove_session a (sh, c))"
    using I sessions_remove [OF hm, of a] held_in_remove [OF hm s]
    by (auto simp: remove_session_def s shard_ok_pair shard_fine_def session_drop_held)
qed

lemma remove_all_triple:
  assumes "distinct rs" "set rs \<subseteq> set ks"
  shows "triple b (shard_ok X p ks k) (for_st remove_session rs) (\<lambda>_. shard_ok X p (filter (\<lambda>x. x \<notin> set rs) ks) k)"
  using assms
proof (induction rs arbitrary: ks)
  case Nil
  then show ?case by (simp add: triple_def)
next
  case (Cons r rs)
  have "triple b (shard_ok X p (filter (\<lambda>x. x \<noteq> r) ks) k) (for_st remove_session rs)
      (\<lambda>_. shard_ok X p (filter (\<lambda>x. x \<notin> set rs) (filter (\<lambda>x. x \<noteq> r) ks)) k)"
    using Cons.prems by (intro Cons.IH) auto
  then show ?case
    using triple_bind [OF remove_session_triple [of r ks b X p k], of "\<lambda>_. for_st remove_session rs"] Cons.prems
    by (simp add: conj_commute)
qed

lemma assign_all_triple:
  assumes "\<forall>j \<in> set jobs. job_ok j" "\<And>i. reorders (f i)"
  shows "triple (udp_may_fail N) (shard_ok X p ks (k + owed_all jobs))
    (for_st (\<lambda>(i, job). bind_st (assign_job N now (f i) job) (\<lambda>_. return_st ())) (enumerate n jobs))
    (\<lambda>_. shard_ok X p ks k)"
  using assms(1)
proof (induction jobs arbitrary: n)
  case Nil
  then show ?case by (simp add: triple_def owed_all_def)
next
  case (Cons j jobs)
  have "shard_ok X p ks (k + owed_all (j # jobs)) = shard_ok X p ks (k + owed_all jobs + owed (Some j))"
    by (simp add: owed_all_def algebra_simps)
  with Cons show ?case
    by (auto intro!: triple_bind [OF triple_bind [OF assign_job_triple]] assms(2) triple_return_keep simp del: return_st_simps)
qed

subsection \<open>Whole methods\<close>

text \<open>A sound shard, whatever the addresses of its sessions.\<close>

definition shard_any :: "'s ext \<Rightarrow> u8 \<Rightarrow> usize \<Rightarrow> shard_info \<times> net_context \<Rightarrow> bool" where
  "shard_any X p k = (\<lambda>(sh, c). shard_ok X p (map fst (sessions sh)) k (sh, c))"

lemma shard_anyI: "shard_ok X p ks k st \<Longrightarrow> shard_any X p k st"
  by (cases st) (simp add: shard_any_def shard_ok_pair)

lemma shard_any_pair: "shard_any X p k (sh, c) \<longleftrightarrow>
    active_syncs c = k + held_in (sessions sh) \<and> shard_fine X p sh \<and> ctx_ok c"
  by (simp add: shard_any_def shard_ok_pair)

lemma triple_any:
  assumes "\<And>ks. triple b (shard_ok X p ks k) m Q"
  shows "triple b (shard_any X p k) m Q"
  by (rule triple_pairI) (use tripleD [OF assms] in \<open>simp add: shard_any_def\<close>)

lemma keeps_any: "(\<And>ks. keeps b (shard_ok X p ks k) m) \<Longrightarrow> keeps b (shard_any X p k) m"
  by (rule triple_any) (auto intro: triple_post shard_anyI)

lemma check_sessions_keeps:
  assumes "\<And>i. reorders (f i)"
  shows "keeps (udp_may_fail N) (shard_any (core_ext N) p k) (check_sessions N clock now f)"
proof (rule triple_pairI)
  fix sh c assume any: "shard_any (core_ext N) p k (sh, c)"
  let ?ks = "map fst (sessions sh)" and ?b = "udp_may_fail N"
  have I: "shard_ok (core_ext N) p ?ks k (sh, c)" using any by (simp add: shard_any_def)
  then have d: "distinct ?ks" by (simp add: shard_ok_pair shard_fine_def)
  have clear: "keeps ?b (shard_ok (core_ext N) p ?ks k) (on_shard (\<lambda>sh. sh\<lparr>peer_ids := []\<rparr>))"
    by (rule on_shard_keeps) (auto simp: shard_fine_def)
  have visit: "triple ?b (shard_ok (core_ext N) p ?ks k) (fold_st (check_session N clock) ?ks ([], []))
      (\<lambda>(rs, js) st. shard_ok (core_ext N) p ?ks (k + owed_all js) st \<and> (\<forall>i \<in> set js. job_ok i) \<and>
        distinct rs \<and> set rs \<subseteq> set ?ks)"
    using check_all_triple [of "[]" ?ks ?ks "[]" N p k clock] d by (simp add: owed_all_def)
  have finish: "triple ?b (shard_ok (core_ext N) p ?ks (k + owed_all js)) (bind_st (for_st remove_session rs)
           (\<lambda>_. for_st (\<lambda>(i, job). bind_st (assign_job N now (f i) job) (\<lambda>_. return_st ())) (enumerate 0 js)))
      (\<lambda>_. shard_any (core_ext N) p k)" if "\<forall>i \<in> set js. job_ok i" "distinct rs" "set rs \<subseteq> set ?ks" for rs js
    by (rule triple_bind [OF remove_all_triple [OF that(2,3)]])
      (auto intro!: triple_post [OF assign_all_triple] that(1) assms shard_anyI)
  have "triple ?b (shard_ok (core_ext N) p ?ks k) (bind_st (on_shard (\<lambda>sh. sh\<lparr>peer_ids := []\<rparr>))
       (\<lambda>_. bind_st (fold_st (check_session N clock) ?ks ([], []))
         (\<lambda>(removed, jobs). bind_st (for_st remove_session removed)
           (\<lambda>_. for_st (\<lambda>(i, job). bind_st (assign_job N now (f i) job) (\<lambda>_. return_st ()))
              (enumerate 0 jobs))))) (\<lambda>_. shard_any (core_ext N) p k)"
    by (rule triple_bind [OF clear], rule triple_bind [OF visit]) (auto intro!: triple_pure finish)
  from tripleD [OF this I]
  show "ends ?b (\<lambda>_. shard_any (core_ext N) p k) (check_sessions N clock now f (sh, c))"
    by (simp add: check_sessions_def)
qed

lemma recv_packet_triple:
  assumes "\<And>i nd pt. msg pkt \<noteq> Introduce i nd pt"
  shows "triple (faulty N pkt \<or> data_missing (msg pkt)) (shard_any X p k) (recv_packet N now pkt a)
    (\<lambda>jo st. shard_any X p (k + owed jo) st \<and> (\<forall>j. jo = Some j \<longrightarrow> job_ok j))"
proof (rule triple_pairI)
  fix sh c assume any: "shard_any X p k (sh, c)"
  let ?b = "faulty N pkt \<or> data_missing (msg pkt)" and ?ks = "map fst (sessions sh)" and
    ?Q = "\<lambda>jo st. shard_any X p (k + owed jo) st \<and> (\<forall>j. jo = Some j \<longrightarrow> job_ok j)"
  show "ends ?b ?Q (recv_packet N now pkt a (sh, c))"
  proof (cases "hm_get (sessions sh) a")
    case None
    then show ?thesis using any by (simp add: recv_packet_def)
  next
    case (Some s)
    then have "a \<in> set ?ks" using hm_get_key [of "sessions sh" a] by simp
    then have "triple ?b (shard_ok X p ?ks k) (with_session a (recv N now (get_session_info sh) pkt)) ?Q"
      by (intro triple_post [OF with_session_triple [OF recv_triple [OF assms]]]) (auto intro: shard_anyI)
    from tripleD [OF this] any Some show ?thesis by (simp add: recv_packet_def shard_any_def)
  qed
qed

lemma each_session_keeps:
  assumes "\<And>a k. keeps b (sess_ok k a) m"
  shows "keeps b (shard_any X p k) (\<lambda>(sh, c). for_st (\<lambda>a. with_session a m) (map fst (sessions sh)) (sh, c))"
proof (rule triple_pairI)
  fix sh c assume any: "shard_any X p k (sh, c)"
  have "keeps b (shard_ok X p (map fst (sessions sh)) k) (for_st (\<lambda>a. with_session a m) (map fst (sessions sh)))"
    by (intro keep_for with_session_keeps assms)
  from tripleD [OF triple_post [OF this shard_anyI]] any
  show "ends b (\<lambda>_. shard_any X p k) (case (sh, c) of (sh, c) \<Rightarrow>
      for_st (\<lambda>a. with_session a m) (map fst (sessions sh)) (sh, c))" by (simp add: shard_any_def)
qed

lemma shard_close_keeps: "keeps (udp_may_fail N) (shard_any X p k) (shard_close N)"
  unfolding shard_close_def by (rule each_session_keeps) (rule session_sends)

lemma flood_to_keeps: "keeps (udp_may_fail N) (sess_ok k a) (flood_to N m)"
proof -
  have "keeps (udp_may_fail N) (sess_ok k a) (bind_st (send N m True) (\<lambda>_. return_st ()))"
    by (intro keep_bind session_sends triple_return_keep)
  from tripleD [OF this] show ?thesis by (intro triple_pairI) (simp add: flood_to_def)
qed

lemma reliable_flood_keeps: "keeps (udp_may_fail N) (shard_any X p k) (reliable_flood N m)"
proof (rule triple_pairI)
  fix sh c assume any: "shard_any X p k (sh, c)"
  then have "shard_any X p k (sh\<lparr>unsent_broadcasts := unsent_broadcasts sh @ [m]\<rparr>, c)"
    by (simp add: shard_any_pair shard_fine_def)
  with tripleD [OF each_session_keeps [OF flood_to_keeps] any, of N m]
  show "ends (udp_may_fail N) (\<lambda>_. shard_any X p k) (reliable_flood N m (sh, c))"
    by (simp add: reliable_flood_def)
qed

text \<open>Filing a session that is not in the map, which stands for \<open>held s\<close> of the count.\<close>

lemma insert_session_triple:
  assumes "sess_fine a s"
  shows "triple b (shard_any X p (k + held s)) (insert_session a s) (\<lambda>_. shard_any X p k)"
proof (rule triple_pairI)
  fix sh c assume I: "shard_any X p (k + held s) (sh, c)"
  then have hm: "hm_ok (sessions sh)" "\<forall>(a, s) \<in> set (sessions sh). sess_fine a s"
    by (auto simp: shard_any_pair shard_fine_def)
  have fine: "shard_fine X p (sh\<lparr>sessions := hm_insert a s (sessions sh)\<rparr>)"
    using I sessions_insert [OF hm assms] by (simp add: shard_any_pair shard_fine_def)
  show "ends b (\<lambda>_. shard_any X p k) (insert_session a s (sh, c))"
  proof (cases "hm_get (sessions sh) a")
    case None
    then show ?thesis using I fine held_in_insert_new [OF None]
      by (simp add: insert_session_def session_drop_def shard_any_pair add.assoc add.commute)
  next
    case (Some old)
    then show ?thesis using I fine held_in_insert [OF hm(1) Some, of s]
      by (simp add: insert_session_def session_drop_held shard_any_pair algebra_simps)
  qed
qed

lemma find_session_known: "find_session X sh a h = Some sa \<Longrightarrow> \<exists>s. hm_get (sessions sh) sa = Some s"
proof (cases "hm_get (sessions sh) a")
  case None
  assume "find_session X sh a h = Some sa"
  then obtain s where "List.find (\<lambda>(_, s). get_hash_id X (remote_peer s) = h) (sessions sh) = Some (sa, s)"
    by (auto simp: find_session_def None)
  then have "(sa, s) \<in> set (sessions sh)" by (metis find_Some_iff nth_mem)
  then show ?thesis using hm_get_key [of "sessions sh" sa] by force
qed (auto simp: find_session_def)

lemma process_introduce_keeps:
  assumes "msg pkt = Introduce i nd pt"
  shows "keeps (faulty N pkt) (shard_any X p k) (process_introduce N pkt a nd')"
proof (rule triple_pairI)
  fix sh c assume any: "shard_any X p k (sh, c)"
  show "ends (faulty N pkt) (\<lambda>_. shard_any X p k) (process_introduce N pkt a nd' (sh, c))"
  proof (cases "find_session (core_ext N) sh a (get_hash_id (core_ext N) nd')")
    case None
    then show ?thesis using any by (simp add: process_introduce_def)
  next
    case (Some sa)
    then obtain s where s: "hm_get (sessions sh) sa = Some s" using find_session_known by blast
    have hm: "hm_ok (sessions sh)" "\<forall>(a, s) \<in> set (sessions sh). sess_fine a s"
      using any by (auto simp: shard_any_pair shard_fine_def)
    let ?k = "k + held_in (hm_remove sa (sessions sh))"
    let ?m = "bind_st (handle_introduce N pkt a)
      (\<lambda>_. for_st (\<lambda>m. bind_st (send N m True) (\<lambda>_. return_st ())) (unsent_broadcasts sh))"
    have here: "sess_here ?k (s, c)"
      using any shard_fine_session [OF _ s] held_in_remove [OF hm(1) s]
      by (auto simp: shard_any_pair sess_here_def sess_ok_pair sess_fine_def)
    have "keeps (faulty N pkt) (sess_here ?k) ?m"
      by (intro keep_bind handle_introduce_keeps [OF assms] keep_for triple_return_keep
        excuse_weaken [OF sending_keeps(1) [OF sess_here_sends]] udp_is_fault)
    note m = tripleD [OF this here]
    obtain r s' c' where r: "?m (s, c) = (r, (s', c'))" by (metis surj_pair)
    let ?sh = "sh\<lparr>sessions := hm_remove sa (sessions sh), unsent_broadcasts := []\<rparr>" and ?s = "s'\<lparr>sess_rc := next_rc c'\<rparr>"
    have "ends (faulty N pkt) (\<lambda>_. shard_any X p k) (insert_session (remote_addr s') ?s (?sh, c'\<lparr>next_rc := next_rc c' + 1\<rparr>))"
      if "sess_here ?k (s', c')"
    proof (rule tripleD [OF insert_session_triple])
      show "sess_fine (remote_addr s') ?s" using that by (simp add: sess_here_def sess_ok_pair)
      show "shard_any X p (k + held ?s) (?sh, c'\<lparr>next_rc := next_rc c' + 1\<rparr>)"
        using that any sessions_remove [OF hm] by (auto simp: sess_here_def sess_ok_pair shard_any_pair shard_fine_def)
    qed
    with m show ?thesis unfolding r
      by (cases r) (simp_all add: process_introduce_def Some s r)
  qed
qed

end
