(* ===== verification/Net_Safety.thy ===== *)
theory Net_Safety
  imports Net_Inv
begin

text \<open>
  The invariant of the whole network thread over the events of its loop, and the exact list of
  the events that can stop it: an event that is not on the list is handled without a panic.
\<close>

section \<open>The network\<close>

definition held_opt :: "shard_info option \<Rightarrow> usize" where
  "held_opt sh = (case sh of Some sh \<Rightarrow> held_in (sessions sh) | None \<Rightarrow> 0)"

definition held_all :: "network \<Rightarrow> usize" where
  "held_all net = sum_list (map held_opt (shards net))"

text \<open>A sound network, while jobs that stand for \<open>k\<close> synchronisations are in transit.\<close>

definition net_ok :: "'s ext \<Rightarrow> usize \<Rightarrow> network \<Rightarrow> bool" where
  "net_ok X k net \<longleftrightarrow> length (shards net) = 255 \<and> curr_port net < 255 \<and> num_shards net = 0 \<and> ctx_ok (ctx net) \<and>
     (\<forall>i < 255. \<forall>sh. shards net ! i = Some sh \<longrightarrow> shard_fine X (of_nat i) sh) \<and>
     active_syncs (ctx net) = k + held_all net"

definition attached_at :: "network \<Rightarrow> u8 \<Rightarrow> bool" where
  "attached_at net p \<longleftrightarrow> p < 255 \<and> shards net ! unat p \<noteq> None"

definition net_at :: "'s ext \<Rightarrow> u8 \<Rightarrow> usize \<Rightarrow> network \<Rightarrow> bool" where
  "net_at X p k net \<longleftrightarrow> net_ok X k net \<and> attached_at net p"

lemma port_index: "p < (255 :: u8) \<longleftrightarrow> unat p < 255"
  by (simp add: word_less_nat_alt)

lemma port_below: "p \<noteq> (255 :: u8) \<Longrightarrow> p < 255"
proof -
  assume "p \<noteq> 255"
  then have "unat p \<noteq> unat (255 :: u8)" by (metis unsigned_word_eqI)
  moreover have "unat p < 256" using unsigned_less [of p, where 'a = nat] by simp
  ultimately show ?thesis by (simp add: port_index)
qed

lemma get_shard_ok: "net_ok X k net \<Longrightarrow> p < 255 \<Longrightarrow> get_shard net p = Ok (shards net ! unat p)"
  by (simp add: get_shard_def net_ok_def port_index)

lemma position_Some: "position P xs = Some i \<Longrightarrow> i < length xs \<and> P (xs ! i)"
  by (induction xs arbitrary: i) (auto split: if_splits)

lemma resolve_attached:
  assumes "net_ok X k net" "resolve_port net h < 255"
  shows "attached_at net (resolve_port net h)"
    "\<exists>sh. shards net ! unat (resolve_port net h) = Some sh \<and> sh_network_id sh = h"
proof -
  let ?P = "\<lambda>sh. case sh of Some sh \<Rightarrow> sh_network_id sh = h | None \<Rightarrow> False"
  obtain i where i: "position ?P (take 255 (shards net)) = Some i"
    using assms(2) by (auto simp: resolve_port_def split: option.splits)
  then have "i < 255" "?P (shards net ! i)" using position_Some [OF i] by auto
  moreover from this(1) have "unat (of_nat i :: u8) = i" by (simp add: unat_of_nat take_bit_nat_eq_self)
  ultimately show "attached_at net (resolve_port net h)"
    "\<exists>sh. shards net ! unat (resolve_port net h) = Some sh \<and> sh_network_id sh = h"
    using assms(2) i by (auto simp: resolve_port_def attached_at_def split: option.splits)
qed

lemma get_shard_by_id_ok:
  assumes "net_ok X k net"
  shows "\<exists>sh. get_shard_by_id net h = Ok sh \<and> (sh \<noteq> None \<longleftrightarrow> resolve_port net h < 255) \<and>
    (\<forall>s. sh = Some s \<longrightarrow> shard_fine X (resolve_port net h) s \<and> sh_network_id s = h)"
proof (cases "resolve_port net h < 255")
  case True
  from resolve_attached [OF assms True] obtain sh where
    sh: "shards net ! unat (resolve_port net h) = Some sh" "sh_network_id sh = h" by blast
  moreover have "shard_fine X (of_nat (unat (resolve_port net h))) sh"
    using assms sh(1) True unfolding net_ok_def port_index by blast
  ultimately show ?thesis using True get_shard_ok [OF assms True] by (simp add: get_shard_by_id_def Let_def)
qed (simp add: get_shard_by_id_def Let_def)

lemma nth_list_update_if: "xs[i := x] ! j = (if i = j \<and> i < length xs then x else xs ! j)"
  by (metis list_update_beyond not_le nth_list_update_eq nth_list_update_neq)

lemma sum_list_update: "i < length xs \<Longrightarrow> sum_list (map f (xs[i := y])) = sum_list (map f xs) - f (xs ! i) + (f y :: usize)"
  by (induction xs arbitrary: i) (auto split: nat.split simp: algebra_simps)

lemma at_port_triple:
  assumes "\<And>k. triple b (shard_any X p k) m (\<lambda>x st. shard_any X p (k + g x) st \<and> R x)"
  shows "triple b (net_at X p k) (at_port p m) (\<lambda>x net. net_at X p (k + g x) net \<and> R x)"
proof (rule tripleI)
  fix net assume I: "net_at X p k net"
  then have ok: "net_ok X k net" and p: "p < 255" and n: "unat p < 255" "unat p < length (shards net)"
    by (auto simp: net_at_def attached_at_def net_ok_def port_index)
  from I obtain sh where sh: "shards net ! unat p = Some sh" by (auto simp: net_at_def attached_at_def)
  let ?k = "k + (held_all net - held_in (sessions sh))"
  have "shard_fine X (of_nat (unat p)) sh" using ok n(1) sh unfolding net_ok_def by blast
  then have "shard_any X p ?k (sh, ctx net)" using ok by (simp add: shard_any_pair net_ok_def)
  note m = tripleD [OF assms this]
  obtain r sh' c' where r: "m (sh, ctx net) = (r, (sh', c'))" by (metis surj_pair)
  let ?net = "net\<lparr>ctx := c', shards := (shards net)[unat p := Some sh']\<rparr>"
  have ran: "at_port p m net = (r, ?net)"
    by (simp add: at_port_def get_shard_ok [OF ok p] sh r)
  have held: "held_all ?net = held_all net - held_in (sessions sh) + held_in (sessions sh')"
    using sum_list_update [OF n(2), of held_opt "Some sh'"] by (simp add: held_all_def held_opt_def sh)
  have "net_at X p (k + j) ?net" if "shard_any X p (?k + j) (sh', c')" for j
    using that ok p n held by (auto simp: net_at_def net_ok_def attached_at_def shard_any_pair nth_list_update)
  with m show "ends b (\<lambda>x net. net_at X p (k + g x) net \<and> R x) (at_port p m net)"
    unfolding ran r by (cases r) simp_all
qed

lemma at_port_keeps:
  assumes "\<And>k. keeps b (shard_any X p k) m"
  shows "keeps b (net_at X p k) (at_port p m)"
  by (rule triple_post [OF at_port_triple [where g = "\<lambda>_. 0" and R = "\<lambda>_. True"]]) (use assms in auto)

lemma net_atD: "net_at X p k net \<Longrightarrow> net_ok X k net"
  by (simp add: net_at_def)

lemma at_port_ok:
  assumes "\<And>k. keeps b (shard_any X p k) m"
  shows "triple b (net_at X p k) (at_port p m) (\<lambda>_. net_ok X k)"
  by (rule triple_post [OF at_port_keeps [OF assms] net_atD])

lemma net_spawn_keeps: "task_ok t \<Longrightarrow> keeps b (net_ok X k) (net_spawn t)" "task_ok t \<Longrightarrow> keeps b (net_at X p k) (net_spawn t)"
  by (rule tripleI; simp add: net_spawn_def net_context_action_def spawn_def net_ok_def net_at_def attached_at_def
    ctx_ok_def held_all_def)+

section \<open>Packets\<close>

lemma open_all_keeps: "keeps b (net_at X p k) (open_all Y h nodes)"
  unfolding open_all_def
proof (rule triple_bind)
  show "triple b (net_at X p k) (read_st (\<lambda>net. get_shard_by_id net h))
      (\<lambda>sh net. net_at X p k net \<and> (\<forall>s. sh = Some s \<longrightarrow> (\<exists>q. shard_fine X q s)))"
    by (rule triple_read) (use get_shard_by_id_ok net_atD in metis)
  fix sh
  show "triple b (\<lambda>net. net_at X p k net \<and> (\<forall>s. sh = Some s \<longrightarrow> (\<exists>q. shard_fine X q s)))
      (case sh of None \<Rightarrow> return_st ()
       | Some sh \<Rightarrow> for_st (\<lambda>nd. net_spawn (OpenTask (open_session Y sh nd None True) AfterOther)) nodes)
      (\<lambda>_. net_at X p k)"
  proof (rule triple_pure, cases sh)
    case (Some s)
    assume "\<forall>s. sh = Some s \<longrightarrow> (\<exists>q. shard_fine X q s)"
    then obtain q where q: "shard_fine X q s" using Some by blast
    show "keeps b (net_at X p k) (case sh of None \<Rightarrow> return_st ()
       | Some sh \<Rightarrow> for_st (\<lambda>nd. net_spawn (OpenTask (open_session Y sh nd None True) AfterOther)) nodes)"
      unfolding Some option.case
      by (intro keep_for net_spawn_keeps open_session_task [OF q]) simp
  qed (simp only: option.case triple_return_keep)
qed

lemma next_sync_ok: "next_sync X m tries target cur = Some (t, c) \<Longrightarrow> t \<le> MAX_JOB_RETRIES"
  by (auto simp: next_sync_def split: option.splits message.splits if_splits)

lemma complete_triple:
  "triple b (net_at X p (k + owed (Some j))) (complete Y m j)
    (\<lambda>jo net. net_at X p (k + owed jo) net \<and> (\<forall>i. jo = Some i \<longrightarrow> job_ok i))"
proof (rule tripleI)
  fix net assume I: "net_at X p (k + owed (Some j)) net"
  let ?Q = "\<lambda>jo net. net_at X p (k + owed jo) net \<and> (\<forall>i. jo = Some i \<longrightarrow> job_ok i)"
  show "ends b ?Q (complete Y m j net)"
  proof (cases "job_data j")
    case (SyncChain target cur)
    obtain jo active where jo: "complete_sync Y m j target cur (active_syncs (ctx net)) = (jo, active)" by fastforce
    then have "active = active_syncs (ctx net) - owed (Some j) + owed jo" "\<forall>i. jo = Some i \<longrightarrow> job_ok i"
      using SyncChain next_sync_ok [of Y m "try_count j" target cur]
      by (auto simp: complete_sync_def job_drop_owed job_new_def owed_def job_ok_def split: option.splits prod.splits)
    moreover have "complete Y m j net = (Ok jo, net\<lparr>ctx := (ctx net)\<lparr>active_syncs := active\<rparr>\<rparr>)"
      by (simp add: complete_def SyncChain jo)
    ultimately show ?thesis using I
      by (simp add: net_at_def net_ok_def attached_at_def held_all_def)
  next
    case (FindNodesJob h)
    have "keeps b (net_at X p k) (case m of NodeList nodes _ _ \<Rightarrow> open_all Y h (take n nodes) | _ \<Rightarrow> return_st ())" for n
      by (cases m; simp only: message.case open_all_keeps triple_return_keep)
    moreover have "triple b (net_at X p k) (return_st None) ?Q" by (simp add: triple_def)
    ultimately have "triple b (net_at X p k) (bind_st (case m of NodeList nodes _ _ \<Rightarrow> open_all Y h (take n nodes) | _ \<Rightarrow> return_st ())
        (\<lambda>_. return_st None)) ?Q" for n
      by (rule triple_bind)
    from tripleD [OF this] I show ?thesis by (simp add: complete_def FindNodesJob owed_def)
  qed
qed

lemma process_packet_keeps:
  assumes "reorders f" "faulty N pkt \<Longrightarrow> b" "data_missing (msg pkt) \<Longrightarrow> b"
  shows "keeps b (net_at X p 0) (process_packet N now f p pkt a)"
proof (cases "\<exists>i nd pt. msg pkt = Introduce i nd pt")
  case True
  then obtain i nd pt where i: "msg pkt = Introduce i nd pt" by blast
  have "keeps b (net_at X p 0) (at_port p (process_introduce N pkt a nd))"
    by (rule at_port_keeps) (rule excuse_weaken [OF process_introduce_keeps [OF i] assms(2)])
  then show ?thesis by (simp add: process_packet_def i)
next
  case False
  let ?job = "\<lambda>jo. case jo of None \<Rightarrow> return_st ()
      | Some nj \<Rightarrow> bind_st (at_port p (assign_job N now f nj)) (\<lambda>_. return_st ())"
  let ?more = "\<lambda>job. case job of None \<Rightarrow> return_st ()
      | Some j \<Rightarrow> bind_st (complete (core_ext N) (msg pkt) j) ?job"
  have get: "triple b (net_at X p 0) (at_port p (recv_packet N now pkt a))
      (\<lambda>jo net. net_at X p (owed jo) net \<and> (\<forall>j. jo = Some j \<longrightarrow> job_ok j))"
    using at_port_triple [of b X p "recv_packet N now pkt a" owed "\<lambda>jo. \<forall>j. jo = Some j \<longrightarrow> job_ok j" 0]
      excuse_weaken [OF recv_packet_triple [of pkt N X p _ now a], of b] False assms(2,3) by auto
  have give: "triple b (\<lambda>net. net_at X p (owed jo) net \<and> (\<forall>j. jo = Some j \<longrightarrow> job_ok j)) (?job jo) (\<lambda>_. net_at X p 0)" for jo
  proof (rule triple_pure, cases jo)
    case None
    then show "triple b (net_at X p (owed jo)) (?job jo) (\<lambda>_. net_at X p 0)" by (simp add: triple_def)
  next
    case (Some j)
    assume ok: "\<forall>j. jo = Some j \<longrightarrow> job_ok j"
    have "triple b (shard_any X p k) (assign_job N now f j) (\<lambda>_ st. shard_any X p (k + - owed (Some j)) st \<and> True)" for k
    proof (rule triple_any)
      fix ks
      from excuse_weaken [OF assign_job_triple [of j f N X p ks "k - owed (Some j)" now], of b] ok Some assms(1,2)
      have "triple b (shard_ok X p ks k) (assign_job N now f j) (\<lambda>_. shard_ok X p ks (k - owed (Some j)))"
        by (simp add: faulty_def)
      then show "triple b (shard_ok X p ks k) (assign_job N now f j) (\<lambda>_ st. shard_any X p (k + - owed (Some j)) st \<and> True)"
        by (rule triple_post) (auto intro: shard_anyI)
    qed
    from at_port_triple [where g = "\<lambda>_. - owed (Some j)" and R = "\<lambda>_. True", OF this, of "owed (Some j)"]
    show "triple b (net_at X p (owed jo)) (?job jo) (\<lambda>_. net_at X p 0)"
      by (auto simp: Some simp del: return_st_simps intro!: triple_bind triple_return_keep)
  qed
  have "triple b (\<lambda>net. net_at X p (owed jo) net \<and> (\<forall>j. jo = Some j \<longrightarrow> job_ok j)) (?more jo) (\<lambda>_. net_at X p 0)" for jo
  proof (cases jo)
    case None
    then show ?thesis by (simp add: triple_def)
  next
    case (Some j)
    show ?thesis
      unfolding Some option.case
      by (rule triple_pre [OF triple_bind [OF complete_triple [of b X p 0 j "core_ext N" "msg pkt", unfolded add_0] give]]) simp
  qed
  from triple_bind [OF get this]
  have "keeps b (net_at X p 0) (bind_st (at_port p (recv_packet N now pkt a)) ?more)" .
  moreover have "process_packet N now f p pkt a = bind_st (at_port p (recv_packet N now pkt a)) ?more"
    using False unfolding process_packet_def by (cases "msg pkt") (simp_all only: message.case, auto)
  ultimately show ?thesis by simp
qed

section \<open>Looking shards up\<close>

lemma read_by_id:
  "triple b (net_ok X k) (read_st (\<lambda>net. get_shard_by_id net h))
    (\<lambda>sh net. net_ok X k net \<and> (\<forall>s. sh = Some s \<longrightarrow> (\<exists>q. shard_fine X q s)))"
  by (rule triple_read) (use get_shard_by_id_ok in metis)

lemma read_shard:
  assumes "p < 255"
  shows "triple b (net_ok X k) (read_st (\<lambda>net. get_shard net p))
    (\<lambda>sh net. net_ok X k net \<and> (sh \<noteq> None \<longrightarrow> net_at X p k net) \<and> (\<forall>s. sh = Some s \<longrightarrow> shard_fine X p s))"
proof (rule triple_read)
  fix net assume ok: "net_ok X k net"
  have "shard_fine X p s" if "shards net ! unat p = Some s" for s
  proof -
    have "shard_fine X (of_nat (unat p)) s" using ok assms that unfolding net_ok_def port_index by blast
    then show ?thesis by simp
  qed
  then show "\<exists>sh. get_shard net p = Ok sh \<and> net_ok X k net \<and> (sh \<noteq> None \<longrightarrow> net_at X p k net) \<and>
      (\<forall>s. sh = Some s \<longrightarrow> shard_fine X p s)"
    using ok assms by (auto simp: get_shard_ok net_at_def attached_at_def)
qed

text \<open>A method of the shard at a port, where there is one.\<close>

lemma where_attached:
  assumes "p < 255" "triple b (net_at X p k) m (\<lambda>_. net_ok X k)"
  shows "keeps b (net_ok X k) (bind_st (read_st (\<lambda>net. get_shard net p)) (\<lambda>sh. if sh \<noteq> None then m else return_st ()))"
proof (rule triple_bind [OF read_shard [OF assms(1)]])
  fix sh :: "shard_info option"
  show "triple b (\<lambda>net. net_ok X k net \<and> (sh \<noteq> None \<longrightarrow> net_at X p k net) \<and> (\<forall>s. sh = Some s \<longrightarrow> shard_fine X p s))
      (if sh \<noteq> None then m else return_st ()) (\<lambda>_. net_ok X k)"
    by (cases sh) (auto intro: triple_pre [OF assms(2)] triple_pre [OF triple_return_keep] simp del: return_st_simps)
qed

lemma case_if: "case_option a (\<lambda>_. m) = (\<lambda>sh. if sh \<noteq> None then m else a)"
  by (auto simp: fun_eq_iff split: option.split)

lemma spawn_open_by_id:
  assumes "after_ok k'"
  shows "keeps b (net_ok X k) (bind_st (read_st (\<lambda>net. get_shard_by_id net h))
     (\<lambda>sh. case sh of Some sh \<Rightarrow> net_spawn (OpenTask (open_session Y sh nd strm i) k') | None \<Rightarrow> return_st ()))"
proof (rule triple_bind [OF read_by_id], rule triple_pure)
  fix sh assume fine: "\<forall>s. sh = Some s \<longrightarrow> (\<exists>q. shard_fine X q s)"
  show "keeps b (net_ok X k) (case sh of Some sh \<Rightarrow> net_spawn (OpenTask (open_session Y sh nd strm i) k') | None \<Rightarrow> return_st ())"
  proof (cases sh)
    case (Some s)
    then obtain q where "shard_fine X q s" using fine by blast
    from open_session_task [OF this assms] show ?thesis
      unfolding Some option.case by (rule net_spawn_keeps)
  qed (simp only: option.case triple_return_keep)
qed

section \<open>What arrives at the client\<close>

lemma udp_process_packet_keeps:
  assumes "reorders f" "faulty N (payload (snd sp)) \<Longrightarrow> b" "data_missing (msg (payload (snd sp))) \<Longrightarrow> b"
  shows "keeps b (net_ok X 0) (udp_process_packet N now f sp)"
proof -
  obtain a p where sp: "sp = (a, p)" by (cases sp)
  show ?thesis
  proof (cases "raw_port p = 255")
    case True
    have "keeps b (net_ok X 0) (case msg (payload p) of
         Introduce network_id nd _ \<Rightarrow>
           bind_st (read_st (\<lambda>net. get_shard_by_id net network_id))
             (\<lambda>shard. case shard of
                Some sh \<Rightarrow> net_spawn (OpenTask (open_session (core_ext N) sh nd None False) (AfterUdp (payload p) network_id))
              | None \<Rightarrow> return_st ())
       | _ \<Rightarrow> return_st ())"
      by (cases "msg (payload p)"; simp only: message.case triple_return_keep; rule spawn_open_by_id; simp)
    then show ?thesis by (simp add: udp_process_packet_def sp True)
  next
    case False
    then have p: "raw_port p < 255" by (rule port_below)
    have "keeps b (net_ok X 0) (bind_st (read_st (\<lambda>net. get_shard net (raw_port p)))
       (\<lambda>sh. if sh \<noteq> None then process_packet N now f (raw_port p) (payload p) a else return_st ()))"
      by (rule where_attached [OF p], rule triple_post [OF process_packet_keeps net_atD]) (use assms sp in auto)
    then show ?thesis by (simp add: udp_process_packet_def sp False case_if)
  qed
qed

lemma stream_packet_keeps:
  assumes "reorders f" "faulty N pkt \<Longrightarrow> b" "data_missing (msg pkt) \<Longrightarrow> b" "p < 255"
  shows "keeps b (net_ok X 0) (stream_packet N now f p a pkt)"
  unfolding stream_packet_def
  by (rule where_attached [OF assms(4)], rule triple_post [OF process_packet_keeps net_atD]) (use assms in auto)

lemma tcp_process_packet_triple:
  "triple b (\<lambda>net. net_ok X 0 net \<and> (\<forall>h nd pt. msg p = Introduce h nd pt \<longrightarrow> b \<or> resolve_port net h < 255))
    (tcp_process_packet N p) (\<lambda>_. net_ok X 0)"
proof (cases "\<exists>h nd pt. msg p = Introduce h nd pt")
  case True
  then obtain h nd pt where i: "msg p = Introduce h nd pt" by blast
  show ?thesis
  proof (rule tripleI)
    fix net assume I: "net_ok X 0 net \<and> (\<forall>h nd pt. msg p = Introduce h nd pt \<longrightarrow> b \<or> resolve_port net h < 255)"
    let ?p = "resolve_port net h"
    show "ends b (\<lambda>_. net_ok X 0) (tcp_process_packet N p net)"
    proof (cases "?p < 255")
      case True
      from resolve_attached(2) [OF _ True] I obtain sh where sh: "shards net ! unat ?p = Some sh" by blast
      have "shard_fine X (of_nat (unat ?p)) sh" using I sh True unfolding net_ok_def port_index by blast
      then have "task_ok (OpenTask (open_session (core_ext N) sh nd (Some []) False) (AfterTcp p h ?p))"
        using True i by (intro open_session_task) auto
      moreover have "get_shard net ?p = Ok (Some sh)" using get_shard_ok [OF conjunct1 [OF I] True] sh by simp
      ultimately show ?thesis using I tripleD [OF net_spawn_keeps(1), of _ X 0 net b]
        by (simp add: tcp_process_packet_def i bind_st_def read_st_def del: task_ok.simps)
    next
      case False
      then have "b" using I i by blast
      moreover have "\<not> unat ?p < length (shards net)" using False I by (simp add: net_ok_def port_index)
      ultimately show ?thesis
        by (simp add: tcp_process_packet_def i bind_st_def read_st_def get_shard_def)
    qed
  qed
next
  case False
  then have "tcp_process_packet N p = return_st ()" by (cases "msg p") (auto simp only: tcp_process_packet_def message.case)
  then show ?thesis by (simp add: triple_def)
qed

lemma flood_network_keeps:
  assumes "udp_may_fail N \<Longrightarrow> b"
  shows "keeps b (net_ok X 0) (flood_network N h m)"
proof (rule tripleI)
  fix net assume I: "net_ok X 0 net"
  have "triple b (net_at X p 0) (at_port p (reliable_flood N m)) (\<lambda>_. net_ok X 0)" for p
    by (rule at_port_ok, rule excuse_weaken [OF reliable_flood_keeps]) (use assms in auto)
  from tripleD [OF this] I resolve_attached(1) [OF I]
  show "ends b (\<lambda>_. net_ok X 0) (flood_network N h m net)" by (simp add: flood_network_def Let_def net_at_def)
qed

lemma send_broadcast_keeps:
  assumes "udp_may_fail N \<Longrightarrow> b" "receiver_answer N i h pl = None \<Longrightarrow> b"
  shows "keeps b (net_ok X 0) (send_broadcast N now h i pl)"
  unfolding send_broadcast_def
proof (rule keep_bind)
  show "keeps b (net_ok X 0) (net_context_action (handle_broadcast N now h i pl))"
    by (rule tripleI) (use assms(2) in \<open>auto simp: net_context_action_def handle_broadcast_def Let_def net_ok_def
      held_all_def ctx_ok_def split: option.split\<close>)
qed (intro keep_if triple_return_keep flood_network_keeps assms(1))

lemma record_event_task_keeps:
  assumes "udp_may_fail N \<Longrightarrow> b"
  shows "keeps b (net_ok X 0) (record_event_task N e)"
proof (cases e)
  case (NewTxn fresh t)
  have "keeps b (net_ok X 0) (bind_st (read_st (\<lambda>net. get_shard net 0))
      (\<lambda>sh. if sh \<noteq> None then at_port 0 (reliable_flood N (NewTransaction t)) else return_st ()))"
    by (rule where_attached, simp, rule at_port_ok, rule excuse_weaken [OF reliable_flood_keeps])
      (use assms in auto)
  then show ?thesis
    unfolding NewTxn record_event_task_def record_event.case by (intro keep_if triple_return_keep)
qed (simp_all only: record_event_task_def record_event.case keep_if triple_return_keep flood_network_keeps assms)

lemma session_check_keeps:
  assumes "udp_may_fail N \<Longrightarrow> b" "\<And>i. samples (sample i)" "\<And>i n. reorders (f i n)"
  shows "keeps b (net_ok (core_ext N) 0) (session_check N clock now sample f)"
  unfolding session_check_def
proof (rule keep_for)
  fix i assume "i \<in> set [0 ..< 255]"
  then have p: "(of_nat i :: u8) < 255" by (simp add: port_index unat_of_nat take_bit_nat_eq_self)
  let ?p = "of_nat i :: u8" and ?X = "core_ext N"
  have scan: "keeps b (net_at ?X ?p 0) (at_port ?p (node_scan N now (sample i) n))" for n
    by (rule at_port_keeps, rule keeps_any, rule excuse_weaken [OF node_scan_keeps])
      (use assms in auto)
  have check: "triple b (net_at ?X ?p 0) (at_port ?p (check_sessions N (clock i) now (f i))) (\<lambda>_. net_ok ?X 0)"
    by (rule at_port_ok, rule excuse_weaken [OF check_sessions_keeps]) (use assms in auto)
  have "triple b (net_at ?X ?p 0) (bind_st (\<lambda>net. at_port ?p
        (node_scan N now (sample i) (unat (min_nodes (config (ctx net))))) net)
        (\<lambda>_. at_port ?p (check_sessions N (clock i) now (f i)))) (\<lambda>_. net_ok ?X 0)"
    by (rule triple_bind [OF _ check], rule tripleI) (rule tripleD [OF scan])
  from where_attached [OF p this]
  show "keeps b (net_ok ?X 0) (bind_st (read_st (\<lambda>net. get_shard net ?p))
       (\<lambda>shard. case shard of
          None \<Rightarrow> return_st ()
        | Some _ \<Rightarrow> bind_st (\<lambda>net. at_port ?p
              (node_scan N now (sample i) (unat (min_nodes (config (ctx net))))) net)
            (\<lambda>_. at_port ?p (check_sessions N (clock i) now (f i)))))"
    unfolding case_if .
qed

section \<open>Attaching and detaching\<close>

lemma drop_sessions_held: "drop_sessions ss c = c\<lparr>active_syncs := active_syncs c - sum_list (map held ss)\<rparr>"
  by (induction ss arbitrary: c) (simp_all add: drop_sessions_def session_drop_held diff_diff_eq add.commute)

lemma detach_port_triple:
  assumes "udp_may_fail N \<Longrightarrow> b"
  shows "triple b (\<lambda>net. net_ok X 0 net \<and> (b \<or> p < 255)) (detach_network_port N p) (\<lambda>_. net_ok X 0)"
proof (rule tripleI)
  fix net assume I: "net_ok X 0 net \<and> (b \<or> p < 255)"
  then have ok: "net_ok X 0 net" by simp
  show "ends b (\<lambda>_. net_ok X 0) (detach_network_port N p net)"
  proof (cases "p < 255")
    case False
    then have "\<not> unat p < length (shards net)" using ok by (simp add: net_ok_def port_index)
    with False I show ?thesis by (simp add: detach_network_port_def bind_st_def read_st_def get_shard_def)
  next
    case True
    let ?f = "\<lambda>net. net\<lparr>shards := (shards net)[unat p := None],
        ctx := drop_sessions (case shards net ! unat p of Some sh \<Rightarrow> map snd (sessions sh) | None \<Rightarrow> []) (ctx net)\<rparr>"
    have drop: "net_ok X 0 (?f net)" if "net_at X p 0 net" for net
    proof -
      from that obtain sh where sh: "shards net ! unat p = Some sh" by (auto simp: net_at_def attached_at_def)
      have "unat p < length (shards net)" using that True by (simp add: net_at_def net_ok_def port_index)
      from sum_list_update [OF this, of held_opt None]
      show ?thesis using that
        by (auto simp: net_at_def net_ok_def drop_sessions_held held_all_def held_opt_def sh held_in_def comp_def
          split_def nth_list_update_if port_index attached_at_def split: if_splits)
    qed
    have "triple b (net_at X p 0) (bind_st (at_port p (shard_close N)) (\<lambda>_ net. (Ok True, ?f net))) (\<lambda>_. net_ok X 0)"
      by (rule triple_bind [OF at_port_keeps], rule excuse_weaken [OF shard_close_keeps])
        (use assms drop in \<open>auto intro: tripleI\<close>)
    from tripleD [OF this, of net] ok True show ?thesis
      by (cases "shards net ! unat p") (auto simp: detach_network_port_def bind_st_def read_st_def
        get_shard_ok [OF ok True] net_at_def attached_at_def)
  qed
qed

lemma detach_triple:
  assumes "udp_may_fail N \<Longrightarrow> b"
  shows "triple b (\<lambda>net. net_ok X 0 net \<and> (b \<or> resolve_port net h < 255)) (detach_network N h) (\<lambda>_. net_ok X 0)"
  by (rule tripleI) (use tripleD [OF detach_port_triple [OF assms]] in \<open>simp add: detach_network_def\<close>)

lemma next_port: "cur < (255 :: u8) \<Longrightarrow> unat ((cur + 1) mod 255) = (unat cur + 1) mod 255"
proof -
  assume "cur < 255"
  then have "unat (cur + 1) = unat cur + 1" by (simp add: port_index unat_word_ariths)
  then show ?thesis by (simp add: unat_mod)
qed

lemma free_port_found:
  "length shs = 255 \<Longrightarrow> cur < 255 \<Longrightarrow> shs ! ((unat cur + d) mod 255) = None \<Longrightarrow>
    \<exists>p q. free_port shs cur = Some (Ok (p, q)) \<and> p < 255 \<and> q < 255 \<and> shs ! unat p = None"
proof (induction d arbitrary: cur)
  case 0
  then have "unat cur < 255" by (simp add: port_index)
  moreover have "(cur + 1) mod 255 < 255" using next_port [OF "0.prems"(2)] by (simp add: port_index)
  ultimately show ?case using 0 by (subst free_port.simps) (simp add: mod_less)
next
  case (Suc d)
  have n: "unat ((cur + 1) mod 255) = (unat cur + 1) mod 255" "(cur + 1) mod 255 < 255"
    using next_port [OF Suc.prems(2)] by (simp_all add: port_index)
  show ?case
  proof (cases "shs ! unat cur = None")
    case True
    then show ?thesis using Suc.prems n by (subst free_port.simps) (simp add: port_index)
  next
    case False
    have "shs ! ((unat ((cur + 1) mod 255) + d) mod 255) = None"
      using Suc.prems(3) n(1) by (simp add: mod_add_left_eq)
    from Suc.IH [OF Suc.prems(1) n(2) this] show ?thesis
      using False Suc.prems by (subst free_port.simps) (auto simp: port_index)
  qed
qed

text \<open>A search that ends has found a free port.\<close>

lemma free_port_end:
  assumes "free_port shs cur = Some r"
  shows "\<forall>p q. r = Ok (p, q) \<longrightarrow> unat p < length shs \<and> shs ! unat p = None"
proof (rule free_port.raw_induct [of "\<lambda>shs cur r. \<forall>p q. r = Ok (p, q) \<longrightarrow> unat p < length shs \<and> shs ! unat p = None", OF _ assms])
  fix f :: "shard_info option list \<Rightarrow> u8 \<Rightarrow> (u8 \<times> u8, io_error) result option" and shs cur r
  assume IH: "\<And>shs cur r. f shs cur = Some r \<Longrightarrow> \<forall>p q. r = Ok (p, q) \<longrightarrow> unat p < length shs \<and> shs ! unat p = None"
    and body: "(if unat cur < length shs
      then if shs ! unat cur = None then Some (Ok (cur, (cur + 1) mod 255)) else f shs ((cur + 1) mod 255)
      else Some Panic) = Some r"
  show "\<forall>p q. r = Ok (p, q) \<longrightarrow> unat p < length shs \<and> shs ! unat p = None"
    using body IH [of shs "(cur + 1) mod 255" r] by (auto split: if_splits)
qed

lemma load_node_repo_ok:
  assumes "contents \<noteq> Panic" "contents \<noteq> Diverge"
  shows "\<exists>r. load_node_repo N contents c = Ok r \<and> repo_ok (core_ext N) r"
proof -
  obtain r0 where r0: "(repo_new (core_ext N) :: (node_repository, io_error) result) = Ok r0" "repo_ok (core_ext N) r0"
    unfolding repo_new_def using repo_build_ok by blast
  have "(\<exists>n r. repo_load (core_ext N) contents r0 = Ok (n, r) \<and> repo_ok (core_ext N) r) \<or> (\<exists>e. repo_load (core_ext N) contents r0 = Err e)"
  proof (cases contents)
    case (Ok c)
    show ?thesis
    proof (cases c)
      case (Some ns)
      obtain r where "(repo_build (core_ext N) ns r0 :: (node_repository, io_error) result) = Ok r" "repo_ok (core_ext N) r"
        using repo_build_ok by blast
      then show ?thesis by (simp add: repo_load_def Ok Some)
    qed (simp add: repo_load_def Ok r0)
  qed (use assms in \<open>simp_all add: repo_load_def\<close>)
  then consider n r where "repo_load (core_ext N) contents r0 = Ok (n, r)" "repo_ok (core_ext N) r"
    | e where "repo_load (core_ext N) contents r0 = Err e" by blast
  then show ?thesis
    by cases (simp_all add: load_node_repo_def r0 repo_build_ok)
qed

lemma attach_triple:
  assumes "udp_may_fail N \<Longrightarrow> b" "contents \<noteq> Panic" "contents \<noteq> Diverge" "samples sample"
  shows "triple b (\<lambda>net. net_ok (core_ext N) 0 net \<and> (b \<or> (\<exists>i < 255. shards net ! i = None)))
    (attach_network N contents now sample h mode) (\<lambda>_. net_ok (core_ext N) 0)"
proof (rule tripleI)
  fix net assume I: "net_ok (core_ext N) 0 net \<and> (b \<or> (\<exists>i < 255. shards net ! i = None))"
  let ?X = "core_ext N"
  obtain repo where repo: "load_node_repo N contents (ctx net) = Ok repo" "repo_ok ?X repo"
    using load_node_repo_ok assms(2,3) by blast
  have len: "length (shards net) = 255" "curr_port net < 255" "\<not> 128 < num_shards net"
    using I by (auto simp: net_ok_def)
  show "ends b (\<lambda>_. net_ok ?X 0) (attach_network N contents now sample h mode net)"
  proof (cases "\<exists>i < 255. shards net ! i = None")
    case True
    then obtain i where i: "i < 255" "shards net ! i = None" by blast
    have "unat (curr_port net) < 255" using len(2) by (simp add: port_index)
    then have "(unat (curr_port net) + (i + 255 - unat (curr_port net))) mod 255 = i" using i(1) by simp
    then have "shards net ! ((unat (curr_port net) + (i + 255 - unat (curr_port net))) mod 255) = None" using i(2) by simp
    from free_port_found [OF len(1,2) this] obtain p q where
      pq: "free_port (shards net) (curr_port net) = Some (Ok (p, q))" "p < 255" "q < 255" "shards net ! unat p = None" by blast
    let ?net = "net\<lparr>curr_port := q, shards := (shards net)[unat p := Some (shard_new h p mode repo)]\<rparr>"
    have "unat p < length (shards net)" using len(1) pq(2) by (simp add: port_index)
    from sum_list_update [OF this, of held_opt "Some (shard_new h p mode repo)"] I pq repo(2)
    have at: "net_at ?X p 0 ?net"
      by (auto simp: net_at_def net_ok_def attached_at_def held_all_def held_opt_def shard_new_def held_in_def
        shard_fine_def nth_list_update_if port_index split: if_splits)
    have "triple b (net_at ?X p 0) (at_port p (node_scan N now sample 8)) (\<lambda>_. net_ok ?X 0)"
      by (rule at_port_ok, rule keeps_any, rule excuse_weaken [OF node_scan_keeps]) (use assms in auto)
    from tripleD [OF this at] net_atD [OF at] show ?thesis
      by (simp add: attach_network_def len(3) bind_st_def read_st_def repo(1) pq(1))
  next
    case False
    then have b using I by blast
    have "returns (free_port (shards net) (curr_port net)) \<noteq> Ok (p, q)" for p q
      using free_port_end [of "shards net" "curr_port net"] False len(1)
      by (cases "free_port (shards net) (curr_port net)") auto
    with \<open>b\<close> show ?thesis
      by (cases "returns (free_port (shards net) (curr_port net))")
        (auto simp: attach_network_def len(3) bind_st_def read_st_def repo(1))
  qed
qed

section \<open>Tasks\<close>

text \<open>A session that is not filed yet holds no job.\<close>

definition fresh :: "sock_addr \<Rightarrow> session \<Rightarrow> bool" where
  "fresh a s \<longleftrightarrow> sess_fine a s \<and> current_job s = None"

definition fresh_ok :: "usize \<Rightarrow> sock_addr \<Rightarrow> session \<times> net_context \<Rightarrow> bool" where
  "fresh_ok k a = (\<lambda>(s, c). fresh a s \<and> ctx_ok c \<and> active_syncs c = k)"

lemma fresh_sends: "sends_freely (fresh_ok k a)"
  by (auto simp: sends_freely_def fresh_ok_def fresh_def) (auto simp: ctx_ok_def)

lemma fresh_held: "fresh a s \<Longrightarrow> held s = 0"
  by (simp add: fresh_def held_def)

lemma on_new_session_triple:
  assumes "\<And>k. keeps b (fresh_ok k a) m" "fresh a s"
  shows "triple b (net_ok X k) (on_new_session s m) (\<lambda>(_, s') net. net_ok X k net \<and> fresh a s')"
proof (rule tripleI)
  fix net assume I: "net_ok X k net"
  then have "fresh_ok (active_syncs (ctx net)) a (s, ctx net)" using assms(2) by (simp add: fresh_ok_def net_ok_def)
  note m = tripleD [OF assms(1) this]
  obtain r s' c where r: "m (s, ctx net) = (r, (s', c))" by (metis surj_pair)
  from m show "ends b (\<lambda>(_, s') net. net_ok X k net \<and> fresh a s') (on_new_session s m net)"
    using I unfolding r by (cases r) (simp_all add: on_new_session_def r fresh_ok_def net_ok_def held_all_def)
qed

lemma new_session_triple: "triple b (net_ok X k) (new_session now con a strm) (\<lambda>s net. net_ok X k net \<and> fresh a s)"
  by (rule tripleI) (auto simp: new_session_def session_new_def net_ok_def held_all_def fresh_def sess_fine_def
    from_milliseconds_def)

lemma file_session_triple:
  assumes "fresh a s"
  shows "triple b (net_at X p k) (at_port p (file_session Y a s)) (\<lambda>_. net_ok X k)"
proof (rule at_port_ok)
  fix k
  have "keeps b (shard_any X p k) (on_shard (\<lambda>sh. sh\<lparr>peer_ids := f sh\<rparr>))" for f
    by (rule keeps_any, rule on_shard_keeps) (auto simp: shard_fine_def)
  moreover have "keeps b (shard_any X p k) (insert_session a s)"
    using insert_session_triple [of a s b X p k] assms fresh_held [OF assms] by (simp add: fresh_def)
  ultimately show "keeps b (shard_any X p k) (file_session Y a s)"
    unfolding file_session_def by (intro keep_bind)
qed

lemma close_unfiled_keeps:
  assumes "fresh a s" "udp_may_fail N \<Longrightarrow> b"
  shows "keeps b (net_ok X k) (close_unfiled N s)"
  unfolding close_unfiled_def
  by (rule triple_bind [OF on_new_session_triple [OF excuse_weaken [OF sending_keeps(2) [OF fresh_sends]] assms(1)]])
    (use assms in \<open>auto simp: triple_def\<close>)

lemma introduce_fresh:
  assumes "fresh a s" "udp_may_fail N \<Longrightarrow> b"
  shows "triple b (net_ok X k) (on_new_session s (send_introduce N)) (\<lambda>(_, s') net. net_ok X k net \<and> fresh a s')"
  by (rule on_new_session_triple [OF excuse_weaken [OF sending_keeps(4) [OF fresh_sends]] assms(1)])
    (use assms in auto)

lemma file_or_close:
  assumes "fresh a s" "udp_may_fail N \<Longrightarrow> b"
  shows "keeps b (net_ok X k) (\<lambda>net. let p = resolve_port net h in
     if p < 255 then at_port p (file_session Y a s) net else close_unfiled N s net)"
proof (rule tripleI)
  fix net assume I: "net_ok X k net"
  let ?p = "resolve_port net h"
  show "ends b (\<lambda>_. net_ok X k) (let p = ?p in
     if p < 255 then at_port p (file_session Y a s) net else close_unfiled N s net)"
  proof (cases "?p < 255")
    case True
    then have "net_at X ?p k net" using resolve_attached(1) [OF I] I by (simp add: net_at_def)
    from tripleD [OF file_session_triple [OF assms(1)] this] True show ?thesis by simp
  next
    case False
    then show ?thesis using tripleD [OF close_unfiled_keeps [OF assms] I] by simp
  qed
qed

lemma connect_keeps:
  assumes "con_port con < 255" "udp_may_fail N \<Longrightarrow> b"
  shows "keeps b (net_ok X k) (connect N now con a)"
proof (cases "protocol (endpoint (con_peer con)) = Tcp \<and> con_stream con = None")
  case True
  then show ?thesis using assms(1) net_spawn_keeps(1) [of "TcpConnectTask con a" b X k] by (simp add: connect_def)
next
  case False
  have intro: "triple b (net_ok X k) (if con_introduce con then on_new_session s (send_introduce N) else return_st ((), s))
      (\<lambda>(_, s') net. net_ok X k net \<and> fresh a s')" if "fresh a s" for s
    using introduce_fresh [OF that assms(2)] that by (auto simp: triple_def)
  have filed: "triple b ((\<lambda>(_, s') net. net_ok X k net \<and> fresh a s') x) ((\<lambda>(_, s) net. let p = resolve_port net (con_network con) in
             if p < 255 then at_port p (file_session (core_ext N) a s) net else close_unfiled N s net) x) (\<lambda>_. net_ok X k)"
    for x :: "unit \<times> session"
    by (cases x) (auto intro!: triple_pure file_or_close assms(2))
  show ?thesis
    unfolding connect_def if_not_P [OF False]
    by (rule triple_bind [OF new_session_triple], rule triple_pure, rule triple_bind [OF intro filed])
qed

lemma tcp_connected_keeps:
  assumes "con_port con < 255" "udp_may_fail N \<Longrightarrow> b"
  shows "keeps b (net_ok X k) (tcp_connected N now con a)"
  unfolding tcp_connected_def
proof (rule triple_bind [OF new_session_triple], rule triple_pure)
  fix s assume s: "fresh a s"
  let ?p = "\<lambda>net. resolve_port net (con_network con)"
  have filed: "triple b ((\<lambda>(_, s') net. net_at X p k net \<and> fresh a s') x)
      ((\<lambda>(_, s). bind_st (at_port p (file_session (core_ext N) a s)) (\<lambda>_. net_spawn (StreamTask (con_port con) a))) x)
      (\<lambda>_. net_ok X k)" for x :: "unit \<times> session" and p
    by (cases x) (auto intro!: triple_pure triple_bind [OF file_session_triple] net_spawn_keeps simp: assms(1))
  have intro: "triple b (net_at X p k) (on_new_session s (send_introduce N)) (\<lambda>(_, s') net. net_at X p k net \<and> fresh a s')" for p
  proof (rule tripleI)
    fix net assume I: "net_at X p k net"
    obtain r net' where r: "on_new_session s (send_introduce N) net = (r, net')" by fastforce
    then have "shards net' = shards net" by (auto simp: on_new_session_def split: prod.splits)
    moreover have "net_ok X k net" using I by (simp add: net_at_def)
    note tripleD [OF introduce_fresh [of a s N b, OF s assms(2)] this]
    ultimately show "ends b (\<lambda>(_, s') net. net_at X p k net \<and> fresh a s') (on_new_session s (send_introduce N) net)"
      using I unfolding r by (cases r) (auto simp: net_at_def attached_at_def)
  qed
  show "keeps b (net_ok X k) (\<lambda>net. let p = ?p net in
          if p < 255
          then bind_st (read_st (\<lambda>net. get_shard net p))
            (\<lambda>sh. case sh of
               Some sh \<Rightarrow>
                 if hm_get (sessions sh) a \<noteq> None then return_st ()
                 else bind_st (on_new_session s (send_introduce N))
                   (\<lambda>(_, s). bind_st (at_port p (file_session (core_ext N) a s))
                     (\<lambda>_. net_spawn (StreamTask (con_port con) a)))
             | None \<Rightarrow> return_st ()) net
          else close_unfiled N s net)" (is "keeps b _ ?m")
  proof (rule tripleI)
    fix net assume I: "net_ok X k net"
    show "ends b (\<lambda>_. net_ok X k) (?m net)"
    proof (cases "?p net < 255")
      case False
      then show ?thesis using tripleD [OF close_unfiled_keeps [OF s assms(2)] I] by simp
    next
      case True
      from resolve_attached [OF I True] obtain sh where sh: "shards net ! unat (?p net) = Some sh" and
        at: "net_at X (?p net) k net" using I by (auto simp: net_at_def)
      from tripleD [OF triple_bind [OF intro filed] at] I show ?thesis
        using True by (simp add: bind_st_def [of "read_st _"] read_st_def get_shard_ok [OF I True] sh)
    qed
  qed
qed

text \<open>The packet that a task carries to the session it opens.\<close>

fun after_packet :: "after_open \<Rightarrow> packet option" where
  "after_packet (AfterUdp p _) = Some p"
| "after_packet (AfterTcp p _ _) = Some p"
| "after_packet _ = None"

fun task_packet :: "task \<Rightarrow> packet option" where
  "task_packet (OpenTask _ k) = after_packet k"
| "task_packet _ = None"

definition bad_after :: "'s net_ext \<Rightarrow> after_open \<Rightarrow> bool" where
  "bad_after N k \<longleftrightarrow> (\<exists>p. after_packet k = Some p \<and> bad_packet N p)"

lemma finish_open_keeps:
  assumes "reorders f" "udp_may_fail N \<Longrightarrow> b" "bad_after N k \<Longrightarrow> b" "after_ok k"
  shows "keeps b (net_ok X 0) (finish_open N now f created k r)"
proof (rule tripleI)
  fix net assume I: "net_ok X 0 net"
  have pp: "ends b (\<lambda>_. net_ok X 0) (process_packet N now f (resolve_port net h) p a net)"
    if "resolve_port net h < 255" "\<exists>h nd pt. msg p = Introduce h nd pt" "after_packet k = Some p" for h p a
  proof -
    have "keeps b (net_at X (resolve_port net h) 0) (process_packet N now f (resolve_port net h) p a)"
      using that(2,3) assms(2,3) by (intro process_packet_keeps [OF assms(1)]) (auto simp: faulty_def bad_after_def)
    moreover have "net_at X (resolve_port net h) 0 net" using that(1) I resolve_attached(1) [OF I] by (simp add: net_at_def)
    ultimately show ?thesis by (rule ends_mono [OF tripleD]) (auto simp: net_at_def)
  qed
  show "ends b (\<lambda>_. net_ok X 0) (finish_open N now f created k r net)"
  proof (cases k)
    case (AfterScan peer h)
    have "triple b (net_at X p 0) (at_port p (on_shard (forget_node (core_ext N) created peer))) (\<lambda>_. net_ok X 0)" for p
    proof (rule at_port_ok, rule keeps_any, rule on_shard_keeps)
      fix sh assume "shard_fine X p sh"
      moreover have "repo_ok X (snd (repo_save created r))" if "repo_ok X r" for r
        using that by (auto simp: repo_save_def repo_ok_def split: result.split)
      ultimately show "shard_fine X p (forget_node (core_ext N) created peer sh)"
        by (auto simp: forget_node_def shard_fine_def repo_remove_ok)
    qed (simp add: forget_node_def)
    from tripleD [OF this] show ?thesis
      using I resolve_attached(1) [OF I] by (auto simp: finish_open_def AfterScan net_at_def)
  next
    case (AfterUdp p h)
    then show ?thesis using assms(4) pp I by (cases r) (auto simp: finish_open_def)
  next
    case (AfterTcp p h idx)
    have "keeps b (net_ok X 0) (net_spawn (StreamTask idx a))" for a
      using assms(4) AfterTcp by (intro net_spawn_keeps) simp
    note spawned = tripleD [OF this]
    have "ends b (\<lambda>_. net_ok X 0) (bind_st (if resolve_port net h < 255
        then process_packet N now f (resolve_port net h) p a else return_st ()) (\<lambda>_. net_spawn (StreamTask idx a)) net)" for a
    proof (cases "resolve_port net h < 255")
      case True
      obtain r' net' where r': "process_packet N now f (resolve_port net h) p a net = (r', net')" by fastforce
      with pp [OF True, of p a] assms(4) AfterTcp spawned [of net' a] show ?thesis
        by (cases r') (auto simp: True bind_st_def)
    qed (use spawned I in auto)
    then show ?thesis using I by (cases r) (simp_all add: finish_open_def AfterTcp)
  next
    case AfterOther
    then show ?thesis using I by (simp add: finish_open_def)
  qed
qed

definition answers :: "(string \<Rightarrow> (ip_addr, io_error) result) \<Rightarrow> bool" where
  "answers resolve \<longleftrightarrow> (\<forall>h. resolve h \<noteq> Panic \<and> resolve h \<noteq> Diverge)"

lemma run_open_keeps:
  assumes "reorders f" "udp_may_fail N \<Longrightarrow> b" "bad_after N k \<Longrightarrow> b" "task_ok (OpenTask con k)" "answers resolve"
  shows "keeps b (net_ok X 0) (run_open N now nowl f created resolve con k)"
proof -
  have k: "after_ok k" using assms(4) by simp
  note after = finish_open_keeps [OF assms(1-3) k]
  show ?thesis
  proof (cases con)
    case (Ok c)
    then have "con_port c < 255" using assms(4) by simp
    then have "keeps b (net_ok X 0) (bind_st (connect N now c a) (\<lambda>_. finish_open N nowl f created k r))" for a r
      by (intro keep_bind connect_keeps after assms(2))
    then show ?thesis using after assms(5)
      by (cases "resolve (host (endpoint (con_peer c)))") (auto simp: run_open_def Ok answers_def)
  qed (use after assms(4) in \<open>auto simp: run_open_def\<close>)
qed

lemma upgrade_weak_known:
  assumes "net_ok X k net" "upgrade_weak net rc = Some (p, a)"
  shows "attached_at net p" "\<exists>sh. shards net ! unat p = Some sh \<and> a \<in> set (map fst (sessions sh))"
proof -
  obtain i where i: "position (holds_rc rc) (shards net) = Some i" using assms(2) by (auto simp: upgrade_weak_def split: option.splits)
  from position_Some [OF i] have "i < 255" using assms(1) by (simp add: net_ok_def)
  then have n: "unat (of_nat i :: u8) = i" by (simp add: unat_of_nat take_bit_nat_eq_self)
  obtain sh s where sh: "shards net ! i = Some sh" "List.find (\<lambda>(_, s). sess_rc s = rc) (sessions sh) = Some (a, s)" "p = of_nat i"
    using assms(2) i by (auto simp: upgrade_weak_def split: option.splits)
  from sh(2) have "(a, s) \<in> set (sessions sh)" by (metis find_Some_iff nth_mem)
  then show "attached_at net p" "\<exists>sh. shards net ! unat p = Some sh \<and> a \<in> set (map fst (sessions sh))"
    using sh n \<open>i < 255\<close> by (force simp: attached_at_def port_index)+
qed

lemma reply_to_keeps:
  assumes "udp_may_fail N \<Longrightarrow> b"
  shows "keeps b (net_ok X k) (reply_to N rc m n)"
proof (rule tripleI)
  fix net assume I: "net_ok X k net"
  show "ends b (\<lambda>_. net_ok X k) (reply_to N rc m n net)"
  proof (cases "upgrade_weak net rc")
    case (Some pa)
    then obtain p a where pa: "upgrade_weak net rc = Some (p, a)" by (cases pa) simp
    let ?m = "\<lambda>(sh, c). if a \<in> set (map fst (sessions sh)) then with_session a (send_reply N m n True) (sh, c) else (Ok (), (sh, c))"
    have "keeps b (shard_any X p k) ?m" for k
    proof (rule triple_pairI)
      fix sh c assume any: "shard_any X p k (sh, c)"
      show "ends b (\<lambda>_. shard_any X p k) (?m (sh, c))"
      proof (cases "a \<in> set (map fst (sessions sh))")
        case True
        have "keeps b (shard_ok X p (map fst (sessions sh)) k) (with_session a (send_reply N m n True))"
          by (rule with_session_keeps [OF excuse_weaken [OF session_sends(3)] True]) (use assms in auto)
        then have "ends b (\<lambda>_. shard_ok X p (map fst (sessions sh)) k) (with_session a (send_reply N m n True) (sh, c))"
          by (rule tripleD) (use any in \<open>simp add: shard_any_def\<close>)
        then have "ends b (\<lambda>_. shard_any X p k) (with_session a (send_reply N m n True) (sh, c))"
          by (rule ends_mono) (auto intro: shard_anyI)
        with True show ?thesis by simp
      qed (use any in auto)
    qed
    note at = tripleD [OF at_port_ok [OF this]]
    from upgrade_weak_known [OF I pa] obtain sh where p: "attached_at net p" and
      sh: "shards net ! unat p = Some sh" "a \<in> set (map fst (sessions sh))" by blast
    then have "get_shard net p = Ok (Some sh)" using get_shard_ok [OF I] by (simp add: attached_at_def)
    then have "at_port p ?m net = at_port p (with_session a (send_reply N m n True)) net"
      using sh(2) by (simp add: at_port_def)
    with at [of k net] show ?thesis
      using I p by (simp add: reply_to_def pa net_at_def)
  qed (simp add: reply_to_def I)
qed

lemma request_chain_keeps:
  assumes "reorders f" "udp_may_fail N \<Longrightarrow> b"
  shows "keeps b (net_ok X 0) (request_chain N now f h blk i)"
proof (rule tripleI)
  fix net assume I: "net_ok X 0 net"
  let ?job = "\<lparr>try_count = 0, job_data = SyncChain blk h\<rparr>" and ?p = "resolve_port net i" and
    ?net = "net\<lparr>ctx := (ctx net)\<lparr>active_syncs := active_syncs (ctx net) + 1\<rparr>\<rparr>"
  have one: "owed (Some ?job) = 1" "job_ok ?job" by (simp_all add: owed_def job_ok_def)
  have p: "resolve_port ?net i = ?p" by (simp add: resolve_port_def)
  have r: "request_chain N now f h blk i net = (if ?p < 255
      then bind_st (at_port ?p (assign_job N now f ?job)) (\<lambda>_. return_st ()) ?net
      else (Ok (), ?net\<lparr>ctx := drop_job ?job (ctx ?net)\<rparr>))"
    by (simp add: request_chain_def job_new_def Let_def p)
  have transit: "net_ok X 1 ?net" using I by (simp add: net_ok_def held_all_def)
  show "ends b (\<lambda>_. net_ok X 0) (request_chain N now f h blk i net)"
  proof (cases "?p < 255")
    case True
    have "triple b (shard_any X ?p k) (assign_job N now f ?job) (\<lambda>_ st. shard_any X ?p (k + - 1) st \<and> True)" for k
    proof (rule triple_any)
      fix ks
      have "triple b (shard_ok X ?p ks (k - 1 + owed (Some ?job))) (assign_job N now f ?job) (\<lambda>_. shard_ok X ?p ks (k - 1))"
        by (rule excuse_weaken [OF assign_job_triple [OF one(2) assms(1)]]) (use assms(2) udp_is_fault in auto)
      then show "triple b (shard_ok X ?p ks k) (assign_job N now f ?job) (\<lambda>_ st. shard_any X ?p (k + - 1) st \<and> True)"
        unfolding one(1) by (auto intro: triple_post shard_anyI)
    qed
    from at_port_triple [where g = "\<lambda>_. - 1" and R = "\<lambda>_. True", OF this, of 1]
    have "triple b (net_at X ?p 1) (bind_st (at_port ?p (assign_job N now f ?job)) (\<lambda>_. return_st ())) (\<lambda>_. net_ok X 0)"
      by (rule triple_bind) (auto simp: triple_def net_at_def)
    moreover have "net_at X ?p 1 ?net"
      using transit resolve_attached(1) [OF I True] by (simp add: net_at_def attached_at_def)
    ultimately show ?thesis unfolding r if_P [OF True] by (rule tripleD)
  next
    case False
    then show ?thesis using transit by (simp add: r drop_job_def job_drop_owed one(1) net_ok_def held_all_def)
  qed
qed

fun fatal_task :: "task \<Rightarrow> bool" where
  "fatal_task (TxnDone r) \<longleftrightarrow> r = Panic"
| "fatal_task (BlockDone r blk i) \<longleftrightarrow> r = Panic \<or> (\<exists>h. r = Err (NotFound (Blockchain (TxnListE h))))"
| "fatal_task (SyncDone r rc n) \<longleftrightarrow> r = Panic \<or> r = Diverge"
| "fatal_task (QueryDone r rc n) \<longleftrightarrow> r = Panic \<or> r = Diverge"
| "fatal_task (ImportDone r to) \<longleftrightarrow> r = Panic \<or> r = Diverge \<or>
     (\<exists>pkg n. r = Ok (pkg, n) \<and> \<not> package_is_empty pkg \<and> pkg_blocks pkg = [])"
| "fatal_task (PkgDone r) \<longleftrightarrow> r = Panic"
| "fatal_task _ \<longleftrightarrow> False"

definition good_env :: "env \<Rightarrow> bool" where
  "good_env E \<longleftrightarrow> (\<forall>i. samples (env_sample E i)) \<and> (\<forall>i n. reorders (env_shuffle E i n)) \<and> answers (env_resolve E) \<and>
     env_file E \<noteq> Panic \<and> env_file E \<noteq> Diverge"

lemma panic_excused: "b \<Longrightarrow> keeps b I (\<lambda>net. (Panic, net))"
  by (simp add: triple_def)

lemma run_task_keeps:
  assumes "good_env E" "udp_may_fail N \<Longrightarrow> b" "task_ok t" "fatal_task t \<Longrightarrow> b"
    and "\<And>p. task_packet t = Some p \<Longrightarrow> bad_packet N p \<Longrightarrow> b"
  shows "keeps b (net_ok X 0) (run_task N E t)"
proof -
  have env: "reorders (env_shuffle E 0 0)" "answers (env_resolve E)" using assms(1) by (auto simp: good_env_def)
  note panic = panic_excused [OF assms(4)]
  show ?thesis
  proof (cases t)
    case (OpenTask con k)
    have "bad_after N k \<Longrightarrow> b" using assms(5) OpenTask by (auto simp: bad_after_def)
    then show ?thesis
      using assms(3) OpenTask by (simp only: run_task_def task.case run_open_keeps [OF env(1) assms(2) _ _ env(2)])
  next
    case (TcpConnectTask con a)
    then show ?thesis
      using assms(3) by (auto simp: run_task_def simp del: return_st_simps intro!: tcp_connected_keeps assms(2) triple_return_keep)
  next
    case (BlockDone r blk i)
    have "request_chain N (env_local E) (env_shuffle E 0 0) (env_head E) blk i = run_task N E t" if
      "\<exists>h. r = Err (NotFound (Blockchain (BlockHeaderE h)))"
      using that by (auto simp: run_task_def BlockDone block_done_def fun_eq_iff)
    moreover have "run_task N E t = return_st ()" if "\<not> fatal_task t" "\<nexists>h. r = Err (NotFound (Blockchain (BlockHeaderE h)))"
      using that by (auto simp: run_task_def BlockDone block_done_def fun_eq_iff
        split: result.split error.split key.split blockchain_entry.split)
    moreover have "run_task N E t = (\<lambda>net. (Panic, net))" if "fatal_task t"
      using that by (auto simp: run_task_def BlockDone block_done_def fun_eq_iff)
    ultimately show ?thesis
      using request_chain_keeps [OF env(1) assms(2)] panic triple_return_keep by metis
  next
    case (SyncDone r rc n)
    have "keeps b (net_ok X 0) (sync_done N r rc n)"
    proof (cases r)
      case (Err e)
      then show ?thesis
        by (simp add: sync_done_def reply_to_keeps assms(2) split: error.split key.split)
    qed (use panic SyncDone assms(2) in \<open>auto simp: sync_done_def reply_to_keeps\<close>)
    then show ?thesis by (simp add: run_task_def SyncDone)
  next
    case (QueryDone r rc n)
    have "keeps b (net_ok X 0) (query_done N r rc n)"
      using panic QueryDone by (cases r) (auto simp: query_done_def simp del: return_st_simps
        intro!: keep_bind keep_if reply_to_keeps assms(2) triple_return_keep)
    then show ?thesis by (simp add: run_task_def QueryDone)
  next
    case (ImportDone r to)
    have "keeps b (net_ok X 0) (import_done (core_ext N) r)"
    proof (cases r)
      case (Ok x)
      obtain pkg n where x: "x = (pkg, n)" by (cases x)
      show ?thesis
      proof (cases "package_is_empty pkg")
        case False
        have "keeps b (net_ok X 0) (read_st (\<lambda>_. package_last_hash (core_ext N) pkg))"
          by (rule triple_read_any) (use False assms(4) in \<open>auto simp: ImportDone Ok x package_last_hash_def\<close>)
        then show ?thesis
          using False by (auto simp: import_done_def Ok x intro!: keep_bind net_spawn_keeps)
      qed (simp add: import_done_def Ok x triple_return_keep del: return_st_simps)
    qed (use panic ImportDone in \<open>auto simp: import_done_def triple_return_keep simp del: return_st_simps\<close>)
    then show ?thesis by (simp add: run_task_def ImportDone)
  qed (use panic in \<open>auto simp: run_task_def triple_return_keep simp del: return_st_simps\<close>)
qed

end
