(* ===== verification/Keeper.thy ===== *)
theory Keeper
  imports Record_Keeper
begin

text \<open>
  The record keeper keeps its database a well-formed chain whose head is a highest block, whatever
  blocks, transactions and packages it is given and whether it accepts them or not. The steps are
  lemmas on the state that is built (adding a block, storing its transactions, walking to the
  head), then the compiled batch carries them to the database.
\<close>

section \<open>The state of a chain with a head\<close>

text \<open>Every header is stored under its own hash.\<close>

definition headers_hashed :: "'s ext \<Rightarrow> 's dbase \<Rightarrow> bool" where
  "headers_hashed X db \<longleftrightarrow> (\<forall>b hdr. get_block_header X db b = Ok hdr \<longrightarrow> header_calculate_hash X hdr = b)"

lemma same_blocks_hashed: "same_blocks X db db' \<Longrightarrow> headers_hashed X db' = headers_hashed X db"
  by (simp add: headers_hashed_def same_blocks_def)

text \<open>Every known block can be read in full: its list of transactions is stored too.\<close>

definition blocks_complete :: "'s ext \<Rightarrow> 's dbase \<Rightarrow> bool" where
  "blocks_complete X db \<longleftrightarrow> (\<forall>b. known_block X db b \<longrightarrow> is_ok (get_block X db b))"

lemma entries_readings:
  assumes "store_ok X content db" "store_ok X content db'"
    and "\<forall>e. e \<notin> range TxnE \<longrightarrow> db_val content db' (Blockchain e) = db_val content db (Blockchain e)"
  shows "get_block X db' = get_block X db"
    "(\<forall>e. db_val content db' (Blockchain e) = db_val content db (Blockchain e)) \<Longrightarrow> get_txn X db' = get_txn X db"
  by (rule ext; simp add: get_block_def get_block_header_def complete_block_def [abs_def] get_txn_def
    store.get_val [OF assms(1)] store.get_val [OF assms(2)] assms(3) image_iff)+

lemma entries_complete:
  assumes "store_ok X content db" "store_ok X content db'"
    and "\<forall>e. e \<notin> range TxnE \<longrightarrow> db_val content db' (Blockchain e) = db_val content db (Blockchain e)"
  shows "blocks_complete X db' = blocks_complete X db"
  using entries_readings(1) [OF assms] assms
  by (simp add: blocks_complete_def known_block_def get_block_header_def store.get_val image_iff)

definition tip_ok :: "'s ext \<Rightarrow> ('s \<Rightarrow> bin \<Rightarrow> bin option) \<Rightarrow> 's dbase \<Rightarrow> bool" where
  "tip_ok X content db \<longleftrightarrow> store_ok X content db \<and> chain_inv X db \<and> marks_ok X db \<and>
     known_block X db (get_current_block_hash db) \<and> head_stored (db_val content) db \<and> headers_hashed X db \<and>
     blocks_complete X db"

text \<open>No known block is so high that \<open>n\<close> more blocks on it would overflow a height.\<close>

definition room_for :: "'s ext \<Rightarrow> 's dbase \<Rightarrow> nat \<Rightarrow> bool" where
  "room_for X db n \<longleftrightarrow> (\<forall>b. known_block X db b \<longrightarrow> block_ht X db b + n < 2 ^ 64)"

lemma tip_head_nonzero:
  assumes "tip_ok X content db"
  shows "get_current_block_hash db \<noteq> U256_ZERO"
  using assms chain_inv_header(1) by (auto simp: tip_ok_def known_block_def result_simps)

lemma known_stored:
  assumes "chain_inv X db" "known_block X db b"
  shows "stored_height X db b = Some (of_nat (block_ht X db b))"
proof -
  obtain hdr where "get_block_header X db b = Ok hdr" using assms(2) by (auto simp: known_block_def result_simps)
  from chain_inv_header [OF assms(1) this] show ?thesis by (auto simp: block_ht_def)
qed

lemma height_known:
  assumes "tip_ok X content db" "get_block_height X db b = Ok m"
  shows "known_block X db b" "unat m = block_ht X db b"
proof -
  have inv: "chain_inv X db" using assms(1) by (simp add: tip_ok_def)
  show k: "known_block X db b"
  proof (cases "b = get_current_block_hash db")
    case False
    then have "stored_height X db b = Some m"
      using assms(2) by (auto simp: get_block_height_def stored_height_def result_simps)
    then show ?thesis using chain_inv_height(2) [OF inv] by blast
  qed (use assms(1) in \<open>simp add: tip_ok_def\<close>)
  then have "stored_height X db b = Some m" using block_height_stored [OF inv k] assms(2) by blast
  then have "m = of_nat (block_ht X db b)" using known_stored [OF inv k] by simp
  then show "unat m = block_ht X db b" using block_ht_bound [of X db b] by (simp add: unat_of_nat_u64)
qed

text \<open>The same readings of the chain and the same head give the same marks and invariant.\<close>

lemma tip_same_readings:
  assumes "tip_ok X content db" "store_ok X content db'" "db_head db' = db_head db"
    and "\<And>k. k \<in> range Blockchain - range (\<lambda>h. Blockchain (TxnE h)) \<or>
      (\<exists>b. k = Cache (HeightByBlock b)) \<or> (\<exists>n. k = Cache (BlocksByHeight n)) \<or> k = Cache CurrentHead \<Longrightarrow>
      db_val content db' k = db_val content db k"
  shows "tip_ok X content db' \<and> same_blocks X db db'"
proof -
  have ok: "store_ok X content db" using assms(1) by (simp add: tip_ok_def)
  note rd = store.readings_cong [OF ok assms(2)]
  have r: "get_block_header X db' = get_block_header X db" "stored_height X db' = stored_height X db"
    "get_blocks_of_height X db' = get_blocks_of_height X db"
    "get_current_block_of_height X db' = get_current_block_of_height X db"
    by (intro ext rd assms(4); blast)+
  have k: "known_block X db' = known_block X db" "parent X db' = parent X db" "block_ht X db' = block_ht X db"
    by (auto simp: fun_eq_iff known_block_def parent_def block_ht_def r)
  have "chain_inv X db'" using assms(1) chain_inv_same_getters [OF assms(3) r(1,2,3)] by (simp add: tip_ok_def)
  moreover have "marks_ok X db'"
    using assms(1) by (simp add: tip_ok_def marks_ok_def get_current_block_hash_def assms(3) r(4) k)
  moreover have "head_stored (db_val content) db'"
    using assms(1) assms(4) [of "Cache CurrentHead"] by (simp add: tip_ok_def head_stored_def assms(3))
  moreover have "same_blocks X db db'" by (simp add: same_blocks_def r)
  moreover have "blocks_complete X db'"
    using assms(1) entries_complete [OF ok assms(2)] assms(4) by (auto simp: tip_ok_def image_iff)
  ultimately show ?thesis
    using assms(1,2) by (simp add: tip_ok_def same_blocks_hashed k get_current_block_hash_def assms(3))
qed

section \<open>Storing a transaction\<close>

context chain_store
begin

lemma add_txn_effect:
  assumes "ok db" "add_txn X t recv db = (Ok (), db')"
  shows "ok db'" "db_head db' = db_head db"
    "chain_key k \<Longrightarrow> k \<noteq> Blockchain (TxnE (txn_calculate_hash X t)) \<Longrightarrow>
      k \<noteq> Cache (TxnReceiveTime (txn_calculate_hash X t)) \<Longrightarrow> k \<noteq> Cache (BlocksByTxn (txn_calculate_hash X t)) \<Longrightarrow>
      val db' k = val db k"
    "get_txn X db' (txn_calculate_hash X t) = Ok t"
proof -
  let ?h = "txn_calculate_hash X t"
  obtain db1 db2 where
    p1: "db_put X (Blockchain (TxnE ?h)) (ser (txn_codec X) t) db = (Ok (), db1)"
    and p2: "db_put X (Cache (TxnReceiveTime ?h)) (write_le 8 recv) db1 = (Ok (), db2)"
    and p3: "add_txn_to_account X (creator t) ?h db2 = (Ok (), db')"
    using assms(2) by (auto simp: add_txn_def add_receive_time_def Let_def result_simps)
  note e1 = putD [OF p1 assms(1)]
  note e2 = putD [OF p2 e1(2)]
  obtain ts where run: "(if ?h \<notin> ts then db_put X (Cache (BlocksByTxn ?h)) (ser (hash_set_codec X) (insert ?h ts))
      else return_st ()) db2 = (Ok (), db')"
    using p3 by (auto simp: add_txn_to_account_def result_simps)
  have e3: "ok db' \<and> db_head db' = db_head db2 \<and>
      (\<forall>k. chain_key k \<longrightarrow> k \<noteq> Cache (BlocksByTxn ?h) \<longrightarrow> val db' k = val db2 k)"
  proof (cases "?h \<in> ts")
    case False
    then show ?thesis using run putD [of _ _ db2 _ db'] e2(2) by auto
  qed (use run e2 in auto)
  show "ok db'" "db_head db' = db_head db" using e1 e2 e3 by auto
  show "chain_key k \<Longrightarrow> k \<noteq> Blockchain (TxnE ?h) \<Longrightarrow> k \<noteq> Cache (TxnReceiveTime ?h) \<Longrightarrow>
      k \<noteq> Cache (BlocksByTxn ?h) \<Longrightarrow> val db' k = val db k"
    using e1(4) e2(4) e3 by simp
  show "get_txn X db' ?h = Ok t"
    using e1(4) e2(4) e3 codecs [OF assms(1)] by (simp add: get_txn_def get_val)
qed

lemma add_block_complete:
  assumes "ok db" "add_block X blk db = (Ok True, db')" "blocks_complete X db"
    and "\<And>x. known_block X db' x \<Longrightarrow> x = block_calculate_hash X blk \<or> known_block X db x"
  shows "blocks_complete X db'"
  unfolding blocks_complete_def
proof (intro allI impI)
  fix x assume x: "known_block X db' x"
  show "is_ok (get_block X db' x)"
  proof (cases "x = block_calculate_hash X blk")
    case False
    obtain n where v: "ok db'"
      "val db' (Blockchain (TxnListE (merkle_root (header blk)))) = Some (ser (hash_list_codec X) (txns blk))"
      and same: "\<And>k. chain_key k \<Longrightarrow>
       k \<notin> {Blockchain (BlockHeaderE (block_calculate_hash X blk)), Blockchain (TxnListE (merkle_root (header blk))),
            Cache (HeightByBlock (block_calculate_hash X blk)), Cache (BlocksByHeight (n + 1))} \<union>
           (\<lambda>t. Cache (BlocksByTxn t)) ` set (txns blk) \<Longrightarrow> val db' k = val db k"
      using add_block_effect [OF assms(1,2)] by metis
    obtain b where b: "get_block X db x = Ok b"
      using False x assms(3,4) unfolding blocks_complete_def is_ok_iff by blast
    have h: "get_block_header X db' x = Ok (header b)"
      using b False same [of "Blockchain (BlockHeaderE x)"]
      by (auto simp: get_block_def get_block_header_def complete_block_def get_val [OF assms(1)] get_val [OF v(1)]
        image_iff result_simps)
    show ?thesis
    proof (cases "merkle_root (header b) = merkle_root (header blk)")
      case True
      then show ?thesis using h v(2) codecs [OF assms(1)] by (simp add: get_block_def complete_block_def get_val [OF v(1)])
    next
      case other: False
      then have "val db' (Blockchain (TxnListE (merkle_root (header b)))) = val db (Blockchain (TxnListE (merkle_root (header b))))"
        by (intro same) auto
      then have "complete_block X db' (header b) = complete_block X db (header b)"
        by (simp add: complete_block_def get_val [OF assms(1)] get_val [OF v(1)])
      moreover have "complete_block X db (header b) = Ok b"
        using b by (auto simp: get_block_def complete_block_def result_simps)
      ultimately show ?thesis using h by (simp add: get_block_def)
    qed
  qed (use get_block_added [OF assms(1,2)] in simp)
qed

end

lemma add_txn_tip:
  assumes "tip_ok X content db" "add_txn X t recv db = (Ok (), db')"
  shows "tip_ok X content db' \<and> same_blocks X db db' \<and> db_head db' = db_head db \<and>
    get_txn X db' (txn_calculate_hash X t) = Ok t \<and>
    (\<forall>h. h \<noteq> txn_calculate_hash X t \<longrightarrow> get_txn X db' h = get_txn X db h) \<and>
    get_block X db' = get_block X db"
proof -
  have ok: "store_ok X content db" using assms(1) by (simp add: tip_ok_def)
  note e = store.add_txn_effect [OF ok assms(2)]
  have same: "tip_ok X content db' \<and> same_blocks X db db'"
    by (rule tip_same_readings [OF assms(1) e(1,2)]) (auto intro!: e(3))
  have "get_txn X db' h = get_txn X db h" if "h \<noteq> txn_calculate_hash X t" for h
    using that by (simp add: get_txn_def store.get_val [OF ok] store.get_val [OF e(1)] e(3))
  moreover have "get_block X db' = get_block X db"
    by (rule ext) (simp add: get_block_def get_block_header_def complete_block_def [abs_def]
      store.get_val [OF ok] store.get_val [OF e(1)] e(3))
  ultimately show ?thesis using same e(2,4) by blast
qed

section \<open>Adding a block\<close>

text \<open>The marks of the current chain survive a new block: it is put behind the marked one.\<close>

lemma marks_extended:
  assumes "tip_ok X content db" "db_head db' = db_head db" "\<not> known_block X db b"
    and hdr: "\<And>x. x \<noteq> b \<Longrightarrow> get_block_header X db' x = get_block_header X db x"
    and ht: "\<And>x. x \<noteq> b \<Longrightarrow> block_ht X db' x = block_ht X db x"
    and marked: "\<And>n c. get_current_block_of_height X db n = Ok c \<Longrightarrow> get_current_block_of_height X db' n = Ok c"
  shows "marks_ok X db'"
proof -
  let ?a = "get_current_block_hash db"
  have node: "chain_node X db ?a" using assms(1) by (simp add: tip_ok_def chain_node_def)
  have known: "known_block X db ((parent X db ^^ k) ?a)" if "k < block_ht X db ?a" for k
    using tree.node_anc [OF node, of k] tree.anc_is_root [OF node, of k] that by (auto simp: chain_node_def)
  have anc: "(parent X db' ^^ k) ?a = (parent X db ^^ k) ?a" if "k \<le> block_ht X db ?a" for k
    using that
  proof (induction k)
    case (Suc k)
    then have "(parent X db ^^ k) ?a \<noteq> b" using known [of k] assms(3) by auto
    then have "parent X db' ((parent X db ^^ k) ?a) = parent X db ((parent X db ^^ k) ?a)"
      by (simp add: parent_def hdr)
    then show ?case using Suc by simp
  qed simp
  have a: "get_current_block_hash db' = ?a" "?a \<noteq> b"
    using assms(1-3) by (auto simp: get_current_block_hash_def tip_ok_def)
  show ?thesis
    using assms(1) anc marked ht [OF a(2)] by (simp add: tip_ok_def marks_ok_def a(1))
qed

lemma front_kept:
  assumes "get_current_block_of_height X db n = Ok c" "get_blocks_of_height X db n = Ok l"
    and "get_blocks_of_height X db' n = Ok (if b \<in> set l then l else l @ [b])"
  shows "get_current_block_of_height X db' n = Ok c"
proof -
  have "l \<noteq> [] \<and> hd l = c"
    using assms(1,2) by (cases l) (auto simp: get_current_block_of_height_def get_blocks_of_height_def result_simps)
  then obtain l' where l: "l = c # l'" by (cases l) auto
  show ?thesis
    using assms(3) unfolding l
    by (auto simp: get_current_block_of_height_def get_blocks_of_height_def result_simps
      split: result.splits error.splits if_splits)
qed

lemma add_block_tip:
  assumes tip: "tip_ok X content db" and run: "add_block X blk db = (Ok True, db')"
    and nz: "block_calculate_hash X blk \<noteq> U256_ZERO" and room: "room_for X db (Suc n)"
  defines "b \<equiv> block_calculate_hash X blk"
  shows "tip_ok X content db' \<and> room_for X db' n \<and> db_head db' = db_head db \<and>
    get_block X db' b = Ok blk \<and> (\<forall>x. known_block X db' x \<longleftrightarrow> x = b \<or> known_block X db x) \<and>
    (\<forall>x. x \<noteq> b \<longrightarrow> block_ht X db' x = block_ht X db x) \<and> (\<forall>h. get_txn X db' h = get_txn X db h)"
proof -
  have ok: "store_ok X content db" and inv: "chain_inv X db" using tip by (auto simp: tip_ok_def)
  obtain m l where new: "\<not> known_block X db b"
    and m: "get_block_height X db (prev (header blk)) = Ok m"
    and ok': "store_ok X content db'" "db_head db' = db_head db"
    and v: "db_val content db' (Blockchain (BlockHeaderE b)) = Some (ser (header_codec X) (header blk))"
      "db_val content db' (Cache (HeightByBlock b)) = Some (write_le 8 (m + 1))"
    and l: "get_blocks_of_height X db (m + 1) = Ok l"
      "get_blocks_of_height X db' (m + 1) = Ok (if b \<in> set l then l else l @ [b])"
    and same: "\<And>k. chain_key k \<Longrightarrow>
       k \<notin> {Blockchain (BlockHeaderE b), Blockchain (TxnListE (merkle_root (header blk))),
            Cache (HeightByBlock b), Cache (BlocksByHeight (m + 1))} \<union>
           (\<lambda>t. Cache (BlocksByTxn t)) ` set (txns blk) \<Longrightarrow> db_val content db' k = db_val content db k"
    using store.add_block_effect [OF ok run] unfolding b_def by metis
  note rd = store.readings_cong [OF ok ok'(1)]
  have hdr: "get_block_header X db' x = get_block_header X db x" "stored_height X db' x = stored_height X db x"
    if "x \<noteq> b" for x
    using that by (auto intro!: rd same)
  have kn: "known_block X db' x \<longleftrightarrow> x = b \<or> known_block X db x" for x
    using hdr(1) [of x] v(1) ok' by (cases "x = b") (auto simp: known_block_def store.get_val
      get_block_header_def store.codecs [OF ok])
  have prev: "known_block X db (prev (header blk))" "unat m = block_ht X db (prev (header blk))"
    using height_known [OF tip m] by simp_all
  then have lt: "Suc (unat m) + n < 2 ^ 64" using room by (auto simp: room_for_def)
  then have m1: "unat (m + 1) = Suc (unat m)" by (simp add: unat_plus_if')
  have inv': "chain_inv X db'"
    by (rule store.add_block_chain_inv [OF ok inv run nz]) (use m lt in auto)
  have ht: "block_ht X db' x = (if x = b then Suc (unat m) else block_ht X db x)" for x
    using hdr(2) [of x] nz v(2) ok'(1) by (auto simp: block_ht_def b_def stored_height_def store.get_val m1)
  have "room_for X db' n" using room lt by (auto simp: room_for_def kn ht)
  moreover have "marks_ok X db'"
  proof (rule marks_extended [OF tip ok'(2) new hdr(1)])
    fix j c assume c: "get_current_block_of_height X db j = Ok c"
    show "get_current_block_of_height X db' j = Ok c"
    proof (cases "j = m + 1")
      case True
      then show ?thesis using front_kept [OF _ l] c by blast
    next
      case False
      then have "get_current_block_of_height X db' j = get_current_block_of_height X db j"
        by (intro rd(4) same) auto
      then show ?thesis using c by simp
    qed
  qed (simp_all add: ht)
  moreover have "get_txn X db' h = get_txn X db h" for h
    by (simp add: get_txn_def store.get_val [OF ok] store.get_val [OF ok'(1)] same image_iff)
  moreover have "head_stored (db_val content) db'"
    using tip same [of "Cache CurrentHead"] by (auto simp: tip_ok_def head_stored_def ok'(2))
  moreover have "known_block X db' (get_current_block_hash db')"
    using tip by (simp add: tip_ok_def kn get_current_block_hash_def ok'(2))
  moreover have "headers_hashed X db'"
    unfolding headers_hashed_def
  proof (intro allI impI)
    fix x hd assume x: "get_block_header X db' x = Ok hd"
    show "header_calculate_hash X hd = x"
    proof (cases "x = b")
      case True
      then have "hd = header blk" using x v(1) ok'(1) store.codecs [OF ok]
        by (simp add: get_block_header_def store.get_val)
      then show ?thesis using True by (simp add: b_def block_calculate_hash_def)
    qed (use x hdr(1) tip in \<open>auto simp: tip_ok_def headers_hashed_def\<close>)
  qed
  moreover have "blocks_complete X db'"
    by (rule store.add_block_complete [OF ok run]) (use tip kn in \<open>auto simp: tip_ok_def b_def\<close>)
  ultimately show ?thesis
    using inv' ok' store.get_block_added [OF ok run] kn ht by (simp add: tip_ok_def b_def)
qed

section \<open>Walking to the head\<close>

definition on_top :: "'s ext \<Rightarrow> 's dbase \<Rightarrow> bool" where
  "on_top X db \<longleftrightarrow> (\<forall>b. known_block X db b \<longrightarrow> block_ht X db b \<le> block_ht X db (get_current_block_hash db))"

lemma walk_to_head_tip:
  assumes tip: "tip_ok X content db" and run: "walk_to_head X db = (Ok (n, t), db')"
  shows "tip_ok X content db' \<and> same_blocks X db db' \<and> on_top X db' \<and>
    (on_top X db \<longrightarrow> get_current_block_hash db' = get_current_block_hash db) \<and>
    (\<forall>e. db_val content db' (Blockchain e) = db_val content db (Blockchain e))"
proof -
  have d: "store_ok X content db" "chain_inv X db" "marks_ok X db"
    "known_block X db (get_current_block_hash db)" "head_stored (db_val content) db"
    using tip by (simp_all add: tip_ok_def)
  obtain c where c: "find_chain_head X db = Ok c" "known_block X db c"
    "\<forall>b. known_block X db b \<longrightarrow> block_ht X db b \<le> block_ht X db c"
    "on_top X db \<Longrightarrow> c = get_current_block_hash db"
    using chain_head_highest [OF d(2,4)] unfolding on_top_def by blast
  have w: "walk X c db = (Ok (n, t), db')"
    using run tip_head_nonzero [OF tip] by (simp add: walk_to_head_def u256_is_zero_def bind_st_def read_st_def c(1))
  note r = walk_target [OF d(1-4) c(2) w]
  have "same_entries (store_ok X content) (db_val content) (\<lambda>e. db_val content db (Blockchain e)) db"
    using d by (simp add: same_entries_def)
  from preservesD [OF store.entries_walk this w]
  have "head_stored (db_val content) db'" "\<forall>e. db_val content db' (Blockchain e) = db_val content db (Blockchain e)"
    by (simp_all add: same_entries_def)
  moreover have "known_block X db' = known_block X db" "block_ht X db' = block_ht X db"
    using r same_blocks_tree by blast+
  moreover have "headers_hashed X db'" using same_blocks_hashed r tip by (metis tip_ok_def)
  moreover have "blocks_complete X db'"
    using entries_complete [OF d(1)] r tip calculation(2) by (simp add: tip_ok_def)
  ultimately show ?thesis using r c by (simp add: tip_ok_def on_top_def)
qed

section \<open>The shape of the state that is built\<close>

text \<open>The operations on a state change its diff and head only.\<close>

definition over :: "'s dbase \<Rightarrow> 's dbase \<Rightarrow> bool" where
  "over base db \<longleftrightarrow> (\<exists>d h. db = DBState base d h)"

lemma over_primitive [preserves]:
  "preserves (over base) (db_put X k v)" "preserves (over base) (db_delete X k)"
  "preserves (over base) (db_add_event X p t e)" "preserves (over base) (db_remove_event X p t e)"
  by (auto simp: preserves_def over_def)

lemma over_network [preserves]:
  "preserves (over base) (change_validator_stake X i a)" "preserves (over base) (db_set_value X b v)"
  "preserves (over base) (db_add_events X e)" "preserves (over base) (db_remove_events X e)"
  unfolding change_validator_stake_def db_set_value_def db_add_events_def db_remove_events_def Let_def
  by (intro preserves; auto intro!: preserves split: option.split)+

lemma over_change [preserves]:
  "preserves (over base) (mutate_change X c)" "preserves (over base) (undo_change X c)"
  by (cases c; auto intro!: preserves split: prod.split)+

lemma over_mutate [preserves]:
  "preserves (over base) (db_mutate X m)" "preserves (over base) (db_undo_mutate X m)"
  unfolding db_mutate_def db_undo_mutate_def by (intro preserves)+

lemma over_update [preserves]:
  "preserves (over base) (update_current_block X b h)" "preserves (over base) (update_current_chain X n b)"
  "preserves (over base) (add_contra X b con)"
  unfolding update_current_block_def update_current_chain_def add_contra_def Let_def
proof (intro preserves)
  fix r show "preserves (over base) (\<lambda>db. db_put X (Cache CurrentHead) v (set_head r db))" for v
    by (auto simp: preserves_def over_def)
qed (auto intro!: preserves split: option.split)

lemma over_walk [preserves]:
  "preserves (over base) (undo_block X hb e)" "preserves (over base) (redo_block X hb e)"
  "preserves (over base) (walk X b)" "preserves (over base) (walk_to_head X)"
proof -
  show u: "preserves (over base) (undo_block X hb e)" "preserves (over base) (redo_block X hb e)" for hb e
    unfolding undo_block_def redo_block_def by (cases hb; auto intro!: preserves)+
  show w: "preserves (over base) (walk X b)" for b
    unfolding walk_def Let_def by (intro preserves) (auto intro!: preserves u split: if_split)
  show "preserves (over base) (walk_to_head X)"
    unfolding walk_to_head_def Let_def by (intro preserves) (auto intro!: preserves w split: if_split)
qed

lemma over_add [preserves]: "preserves (over base) (add_txn X t n)" "preserves (over base) (add_block X blk)"
  unfolding add_txn_def add_receive_time_def add_txn_to_account_def add_block_def add_block_to_height_def
    add_height_for_block_def add_block_for_txn_def Let_def
  by (intro preserves; auto intro!: preserves split: if_split)+

section \<open>The invariant of the record keeper\<close>

definition pending_ok :: "'s ext \<Rightarrow> (u256, time \<times> txn) hash_map \<Rightarrow> bool" where
  "pending_ok X ps \<longleftrightarrow> hm_ok ps \<and> (\<forall>(h, _, t) \<in> set ps. txn_calculate_hash X t = h) \<and>
     pending_size ps \<le> MAX_PENDING_TXN_MEM"

definition keeper_ok :: "'s ext \<Rightarrow> ('s \<Rightarrow> bin \<Rightarrow> bin option) \<Rightarrow> ('s, 'g) record_keeper \<Rightarrow> bool" where
  "keeper_ok X content rk \<longleftrightarrow> (\<exists>s h. rk_db rk = DatabaseImpl s h) \<and> tip_ok X content (rk_db rk) \<and>
     on_top X (rk_db rk) \<and> pending_ok X (pending_txns rk)"

lemma pending_size_sum: "pending_size ps = sum_list (map (\<lambda>(_, _, t). txn_calculate_size t) ps)"
proof -
  have "foldl (\<lambda>acc (_, _, t). acc + txn_calculate_size t) n ps = n + sum_list (map (\<lambda>(_, _, t). txn_calculate_size t) ps)" for n
    by (induction ps arbitrary: n) auto
  then show ?thesis by (simp add: pending_size_def)
qed

lemma pending_size_append [simp]: "pending_size (ps @ qs) = pending_size ps + pending_size qs"
  by (simp add: pending_size_sum)

lemma pending_size_filter: "pending_size (filter P ps) \<le> pending_size ps"
  unfolding pending_size_sum by (induction ps) auto

lemma pending_ok_filter: "pending_ok X ps \<Longrightarrow> pending_ok X (filter P ps)"
  using pending_size_filter [of P ps] by (auto simp: pending_ok_def distinct_map_filter)

lemma hm_remove_filter: "hm_remove h m = filter (\<lambda>(k, _). k \<noteq> h) m"
  by (auto simp: AList.delete_eq intro!: filter_cong)

lemma pending_ok_hash:
  assumes "pending_ok X ps" "hm_get ps h = Some (r, t)"
  shows "txn_calculate_hash X t = h"
  using assms map_of_SomeD [OF assms(2)] by (auto simp: pending_ok_def)

text \<open>While a state is built, the database and the bound on the pending transactions stay.\<close>

definition calm :: "'s ext \<Rightarrow> 's dbase \<Rightarrow> 's dbase \<times> ('s, 'g) record_keeper \<Rightarrow> bool" where
  "calm X db p \<longleftrightarrow> rk_db (snd p) = db \<and> pending_ok X (pending_txns (snd p))"

lemma lift_state_snd [simp]: "snd (snd (lift_state act p)) = snd p"
  by (simp add: lift_state_def split: prod.split)

lemma calm_lift [preserves]: "preserves (calm X db) (lift_state act)"
  by (simp add: preserves_def calm_def)

lemma calm_take [preserves]: "preserves (calm X db) (take_txn X h)"
  by (auto simp: preserves_def take_txn_def calm_def hm_remove_filter pending_ok_filter
    split: option.split result.split)

lemma over_take:
  assumes "for_st (take_txn X) hs (st, rk) = (r, (st', rk'))" "over base st"
  shows "over base st'"
proof -
  have "preserves (\<lambda>p. over base (fst p)) (take_txn X h)" for h
  proof -
    have "over base (fst (snd (lift_state (add_txn X t n) p)))" if "over base (fst p)" for t n p
      using that over_add(1) [of base X t n] by (auto simp: lift_state_def preserves_def split: prod.splits)
    then show ?thesis by (auto simp: preserves_def take_txn_def split: option.split result.split)
  qed
  then have "preserves (\<lambda>p. over base (fst p)) (for_st (take_txn X) hs)" by (intro preserves)
  from preservesD [OF this _ assms(1)] assms(2) show ?thesis by simp
qed

lemma calm_build [preserves]: "preserves (calm X db) (build_block X blk)"
  unfolding build_block_def by (intro preserves) (auto intro!: preserves split: if_split)

lemma lift_state_Ok [result_simps]:
  "lift_state act p = (Ok x, q) \<longleftrightarrow> (\<exists>st'. act (fst p) = (Ok x, st') \<and> q = (st', snd p))"
  by (cases p) (auto simp: lift_state_def split: prod.splits)

section \<open>Building the state with a new block\<close>

lemma take_txns_tip:
  assumes "for_st (take_txn X) hs (st, rk) = (Ok (), (st', rk'))" "tip_ok X content st"
    "pending_ok X (pending_txns rk)"
  shows "tip_ok X content st' \<and> same_blocks X st st' \<and> db_head st' = db_head st \<and>
    get_block X st' = get_block X st \<and>
    rk' = rk\<lparr>pending_txns := filter (\<lambda>(h, _). h \<notin> set hs) (pending_txns rk)\<rparr> \<and>
    (\<forall>h. is_ok (get_txn X st h) \<or> h \<in> set hs \<longrightarrow> is_ok (get_txn X st' h))"
  using assms
proof (induction hs arbitrary: st rk)
  case (Cons h hs)
  obtain st1 rk1 where one: "take_txn X h (st, rk) = (Ok (), (st1, rk1))"
    and rest: "for_st (take_txn X) hs (st1, rk1) = (Ok (), (st', rk'))"
    using Cons.prems(1) by (auto simp: result_simps)
  have p1: "pending_ok X (pending_txns rk1)"
    using preservesD [OF calm_take _ one, of "rk_db rk"] Cons.prems(3) by (simp add: calm_def)
  have step: "tip_ok X content st1 \<and> same_blocks X st st1 \<and> db_head st1 = db_head st \<and>
      get_block X st1 = get_block X st \<and> rk1 = rk\<lparr>pending_txns := hm_remove h (pending_txns rk)\<rparr> \<and>
      (\<forall>g. is_ok (get_txn X st g) \<or> g = h \<longrightarrow> is_ok (get_txn X st1 g))"
  proof (cases "hm_get (pending_txns rk) h")
    case None
    then have "hm_remove h (pending_txns rk) = pending_txns rk"
      by (metis delete_id map_of_eq_None_iff)
    then show ?thesis using one None Cons.prems(2)
      by (auto simp: take_txn_def split: result.splits)
  next
    case (Some p)
    obtain r t where p: "p = (r, t)" by (cases p)
    then have run: "add_txn X t r st = (Ok (), st1)" "rk1 = rk\<lparr>pending_txns := hm_remove h (pending_txns rk)\<rparr>"
      using one Some by (auto simp: take_txn_def result_simps)
    have "txn_calculate_hash X t = h" using pending_ok_hash [OF Cons.prems(3)] Some p by simp
    then show ?thesis using add_txn_tip [OF Cons.prems(2) run(1)] run(2) by (metis is_ok.simps(1))
  qed
  have "filter (\<lambda>(k, _). k \<notin> set hs) (hm_remove h (pending_txns rk)) =
      filter (\<lambda>(k, _). k \<notin> set (h # hs)) (pending_txns rk)"
    by (auto simp: hm_remove_filter intro!: filter_cong)
  then show ?case
    using Cons.IH [OF rest _ p1] step same_blocks_trans [of X st st1 st'] by auto
qed auto

lemma same_blocks_room: "same_blocks X db db' \<Longrightarrow> room_for X db' n = room_for X db n"
  by (simp add: room_for_def same_blocks_tree)

lemma over_new [simp]: "over db (db_state_new db)"
  by (simp add: over_def db_state_new_def)

lemma tip_new: "tip_ok X content db \<Longrightarrow> tip_ok X content (db_state_new db) \<and> same_blocks X db (db_state_new db)"
  by (rule tip_same_readings) (auto simp: tip_ok_def store_ok_def)

lemma build_block_tip:
  assumes run: "build_block X blk (st, rk) = (Ok (Some (undone, ear, uncled, wb)), (st', rk'))"
    and tip: "tip_ok X content st" and p: "pending_ok X (pending_txns rk)"
    and nz: "block_calculate_hash X blk \<noteq> U256_ZERO" and room: "room_for X st (Suc n)"
    and ov: "over base st"
  shows "tip_ok X content st' \<and> on_top X st' \<and> room_for X st' n \<and> over base st' \<and>
    compile_state X st' = Ok wb \<and> get_block X st' (block_calculate_hash X blk) = Ok blk \<and>
    (\<forall>b. known_block X st' b \<longleftrightarrow> b = block_calculate_hash X blk \<or> known_block X st b) \<and>
    (\<forall>h \<in> set (txns blk). is_ok (get_txn X st' h)) \<and>
    rk' = rk\<lparr>pending_txns := filter (\<lambda>(h, _). h \<notin> set (txns blk)) (pending_txns rk)\<rparr> \<and>
    uncled = (block_calculate_hash X blk \<noteq> get_current_block_hash st')"
proof -
  obtain st1 st2 st3 m e where a: "add_block X blk st = (Ok True, st1)"
    and tk: "for_st (take_txn X) (txns blk) (st1, rk) = (Ok (), (st2, rk'))"
    and w: "walk_to_head X st2 = (Ok (m, e), st')"
    and fin: "compile_state X st' = Ok wb" "uncled = (block_calculate_hash X blk \<noteq> get_current_block_hash st')"
    using run by (auto simp: build_block_def result_simps split: if_splits)
  note ab = add_block_tip [OF tip a nz room]
  have t1: "tip_ok X content st1" using ab by blast
  note tt = take_txns_tip [OF tk t1 p]
  have t2: "tip_ok X content st2" using tt by blast
  note wh = walk_to_head_tip [OF t2 w]
  have ok: "store_ok X content st2" "store_ok X content st'" using t2 wh by (auto simp: tip_ok_def)
  note rd = entries_readings [OF ok]
  have same: "same_blocks X st1 st'" using tt wh same_blocks_trans by blast
  have "over base st'"
    using preservesD [OF over_add(2) ov a] preservesD [OF over_walk(4) _ w] over_take [OF tk] by blast
  then show ?thesis
    using ab tt wh rd fin same_blocks_tree(3) [OF same] same_blocks_room [OF same] by auto
qed

section \<open>Committing it\<close>

lemma apply_tip:
  assumes tip: "tip_ok X content st" and ov: "over (DatabaseImpl s h) st" and c: "compile_state X st = Ok wb"
  shows "\<exists>s'. db_apply X wb (DatabaseImpl s h) = (Ok (), DatabaseImpl s' (db_head st)) \<and>
    tip_ok X content (DatabaseImpl s' (db_head st)) \<and> same_blocks X st (DatabaseImpl s' (db_head st)) \<and>
    get_block X (DatabaseImpl s' (db_head st)) = get_block X st \<and>
    get_txn X (DatabaseImpl s' (db_head st)) = get_txn X st"
proof -
  obtain d hr where st: "st = DBState (DatabaseImpl s h) d hr" using ov by (auto simp: over_def)
  have x: "rocksdb X content" "codecs_ok X" "db_ok (DBState (DatabaseImpl s h) d hr)"
    using tip by (auto simp: tip_ok_def store_ok_def st)
  have hd: "overlay d (Cache CurrentHead) (content s (as_bin (Cache CurrentHead))) = Some (ser_head_ref hr)"
    using tip by (simp add: tip_ok_def head_stored_def st)
  obtain s' where s': "db_apply X wb (DatabaseImpl s h) = (Ok (), DatabaseImpl s' hr)"
    "\<And>k. \<not> is_network_key k \<Longrightarrow>
      db_val content (DatabaseImpl s' hr) k = db_val content (DBState (DatabaseImpl s h) d hr) k"
    using compile_apply_chain [OF x hd] c by (auto simp: st)
  have ok: "store_ok X content (DatabaseImpl s' hr)" "store_ok X content st"
    using x tip by (simp_all add: store_ok_def tip_ok_def)
  have "tip_ok X content (DatabaseImpl s' hr) \<and> same_blocks X st (DatabaseImpl s' hr)"
    by (rule tip_same_readings [OF tip ok(1)]) (auto simp: st s'(2) simp del: db_val.simps)
  then show ?thesis
    using s' entries_readings [OF ok(2,1)] by (simp add: st del: db_val.simps)
qed

section \<open>Adding a block\<close>

text \<open>Validation changes only what the game rules remember, notices only the lists of notices.\<close>

definition same_records :: "('s, 'g) record_keeper \<Rightarrow> ('s, 'g) record_keeper \<Rightarrow> bool" where
  "same_records rk rk' \<longleftrightarrow> rk_db rk' = rk_db rk \<and> pending_txns rk' = pending_txns rk \<and> rk_rules rk' = rk_rules rk"

lemma same_records_keeper: "same_records rk rk' \<Longrightarrow> keeper_ok X content rk' = keeper_ok X content rk"
  by (simp add: same_records_def keeper_ok_def)

lemma on_game_same: "on_game act rk = (r, rk') \<Longrightarrow> same_records rk rk'"
  by (auto simp: on_game_def same_records_def split: prod.splits)

lemma notify_same [simp]:
  "rk_db (notify_record e rk) = rk_db rk" "pending_txns (notify_record e rk) = pending_txns rk"
  "rk_rules (notify_record e rk) = rk_rules rk"
  by (simp_all add: notify_record_def)

lemma valid_block_same:
  assumes "rk_is_valid_block X now blk rk = (r, rk')"
  shows "same_records rk rk'"
proof (cases "db_state_at X (db_state_new (rk_db rk)) (prev (header blk))")
  case (Ok st)
  then have "on_game (is_valid_block_given_state X now (rk_rules rk) st (pending_txns rk) blk) rk = (r, rk')"
    using assms by (simp add: rk_is_valid_block_def bind_st_def read_st_def)
  then show ?thesis by (rule on_game_same)
qed (use assms in \<open>simp_all add: rk_is_valid_block_def bind_st_def read_st_def same_records_def\<close>)

lemma valid_txn_same: "rk_is_valid_txn X t rk = (r, rk') \<Longrightarrow> same_records rk rk'"
  unfolding rk_is_valid_txn_def by (rule on_game_same)

lemma apply_keeper:
  assumes rk: "rk_db rk = DatabaseImpl s h" "pending_ok X (pending_txns rk)"
    and st: "tip_ok X content st" "on_top X st" "over (DatabaseImpl s h) st" "compile_state X st = Ok wb"
  obtains db where "on_db (db_apply X wb) rk = (Ok (), rk\<lparr>rk_db := db\<rparr>)" "keeper_ok X content (rk\<lparr>rk_db := db\<rparr>)"
    "same_blocks X st db" "get_block X db = get_block X st" "get_txn X db = get_txn X st"
    "get_current_block_hash db = get_current_block_hash st"
proof -
  obtain s' where s': "db_apply X wb (DatabaseImpl s h) = (Ok (), DatabaseImpl s' (db_head st))"
    "tip_ok X content (DatabaseImpl s' (db_head st))" "same_blocks X st (DatabaseImpl s' (db_head st))"
    "get_block X (DatabaseImpl s' (db_head st)) = get_block X st" "get_txn X (DatabaseImpl s' (db_head st)) = get_txn X st"
    using apply_tip [OF st(1,3,4)] by blast
  have top: "on_top X (DatabaseImpl s' (db_head st))"
    using st(2) by (simp add: on_top_def same_blocks_tree [OF s'(3)] get_current_block_hash_def)
  show thesis
  proof (rule that)
    show "on_db (db_apply X wb) rk = (Ok (), rk\<lparr>rk_db := DatabaseImpl s' (db_head st)\<rparr>)"
      by (simp add: on_db_def rk(1) s'(1) del: db_apply.simps)
    show "keeper_ok X content (rk\<lparr>rk_db := DatabaseImpl s' (db_head st)\<rparr>)"
      using s'(2) top rk(2) by (simp add: keeper_ok_def)
  qed (use s' in \<open>simp_all add: get_current_block_hash_def\<close>)
qed

lemma commit_block_tip:
  assumes "rk_db rk = DatabaseImpl s h" "pending_ok X (pending_txns rk)"
    and "tip_ok X content st" "on_top X st" "over (DatabaseImpl s h) st" "compile_state X st = Ok wb"
    and run: "commit_block X blk fresh n (Some (undone, ear, uncled, wb)) rk = (r, rk')"
  shows "r = Ok True \<and> keeper_ok X content rk' \<and> same_blocks X st (rk_db rk') \<and>
    get_block X (rk_db rk') = get_block X st \<and> get_txn X (rk_db rk') = get_txn X st \<and>
    get_current_block_hash (rk_db rk') = get_current_block_hash st \<and> pending_txns rk' = pending_txns rk"
proof -
  obtain db where db: "on_db (db_apply X wb) rk = (Ok (), rk\<lparr>rk_db := db\<rparr>)" "keeper_ok X content (rk\<lparr>rk_db := db\<rparr>)"
    "same_blocks X st db" "get_block X db = get_block X st" "get_txn X db = get_txn X st"
    "get_current_block_hash db = get_current_block_hash st"
    using apply_keeper [OF assms(1-6)] by blast
  have "r = Ok True \<and> rk_db rk' = db \<and> pending_txns rk' = pending_txns rk"
    using run by (auto simp: commit_block_def db(1) split: if_splits)
  then show ?thesis using db by (simp add: keeper_ok_def)
qed

lemma store_block_outcome:
  assumes k: "keeper_ok X content rk" and nz: "block_calculate_hash X blk \<noteq> U256_ZERO"
    and room: "room_for X (rk_db rk) (Suc n)" and run: "store_block X blk fresh rk = (r, rk')"
  shows "keeper_ok X content rk' \<and> room_for X (rk_db rk') n \<and> (r = Ok True \<longrightarrow>
    get_block X (rk_db rk') (block_calculate_hash X blk) = Ok blk \<and>
    (\<forall>b. known_block X (rk_db rk') b \<longleftrightarrow> b = block_calculate_hash X blk \<or> known_block X (rk_db rk) b) \<and>
    (\<forall>h \<in> set (txns blk). is_ok (get_txn X (rk_db rk') h)) \<and>
    pending_txns rk' = filter (\<lambda>(h, _). h \<notin> set (txns blk)) (pending_txns rk))"
proof -
  obtain s h where db: "rk_db rk = DatabaseImpl s h" using k by (auto simp: keeper_ok_def)
  have k': "tip_ok X content (rk_db rk)" "on_top X (rk_db rk)" "pending_ok X (pending_txns rk)"
    using k by (simp_all add: keeper_ok_def)
  let ?st = "db_state_new (rk_db rk)"
  have new: "tip_ok X content ?st" "same_blocks X (rk_db rk) ?st" using tip_new [OF k'(1)] by simp_all
  obtain r1 st1 rk1 where b: "build_block X blk (?st, rk) = (r1, (st1, rk1))" by (metis prod_cases3)
  have c: "rk_db rk1 = rk_db rk" "pending_ok X (pending_txns rk1)"
    using preservesD [OF calm_build _ b, of "rk_db rk"] k'(3) by (simp_all add: calm_def)
  have run': "bind_res (r1, rk1) (commit_block X blk fresh (get_current_block_height (rk_db rk))) = (r, rk')"
    using run by (simp add: store_block_def b)
  have idle: ?thesis if "rk' = rk1" "r \<noteq> Ok True"
    using that k' c room db by (auto simp: keeper_ok_def room_for_def)
  show ?thesis
  proof (cases r1)
    case (Ok o1)
    show ?thesis
    proof (cases o1)
      case None
      then show ?thesis using Ok run' idle by (auto simp: commit_block_def)
    next
      case (Some q)
      obtain undone ear uncled wb where q: "q = (undone, ear, uncled, wb)" by (cases q)
      have ov: "over (DatabaseImpl s h) ?st" by (simp add: db)
      have r2: "room_for X ?st (Suc n)" using room same_blocks_room [OF new(2)] by simp
      note bt = build_block_tip [OF b [unfolded Ok Some q] new(1) k'(3) nz r2 ov]
      have "commit_block X blk fresh (get_current_block_height (rk_db rk)) (Some (undone, ear, uncled, wb)) rk1 = (r, rk')"
        using run' by (simp add: Ok Some q)
      then have cm: "r = Ok True \<and> keeper_ok X content rk' \<and> same_blocks X st1 (rk_db rk') \<and>
          get_block X (rk_db rk') = get_block X st1 \<and> get_txn X (rk_db rk') = get_txn X st1 \<and>
          get_current_block_hash (rk_db rk') = get_current_block_hash st1 \<and> pending_txns rk' = pending_txns rk1"
        using bt c db by (intro commit_block_tip) auto
      then have "room_for X (rk_db rk') n" "known_block X (rk_db rk') = known_block X st1"
        using bt same_blocks_room same_blocks_tree(3) by blast+
      then show ?thesis using cm bt same_blocks_tree(3) [OF new(2)] by simp
    qed
  qed (use run' idle in auto)
qed

lemma add_block_cases:
  assumes "rk_add_block X now blk fresh rk = (r, rk')"
  shows "(same_records rk rk' \<and> r \<noteq> Ok True) \<or> (\<exists>rk1. same_records rk rk1 \<and> store_block X blk fresh rk1 = (r, rk'))"
proof -
  obtain v rk1 where v: "rk_is_valid_block X now blk rk = (v, rk1)" by fastforce
  have s: "same_records rk rk1" "same_records rk rk" using valid_block_same [OF v] by (simp_all add: same_records_def)
  show ?thesis
    using assms s by (cases v; auto simp: rk_add_block_def bind_st_def v split: result.splits)
qed

lemma add_block_outcome:
  assumes "keeper_ok X content rk" "block_calculate_hash X blk \<noteq> U256_ZERO" "room_for X (rk_db rk) 1"
    and "rk_add_block X now blk fresh rk = (r, rk')"
  shows "keeper_ok X content rk' \<and> (r = Ok True \<longrightarrow>
    get_block X (rk_db rk') (block_calculate_hash X blk) = Ok blk \<and>
    (\<forall>b. known_block X (rk_db rk') b \<longleftrightarrow> b = block_calculate_hash X blk \<or> known_block X (rk_db rk) b) \<and>
    (\<forall>h \<in> set (txns blk). is_ok (get_txn X (rk_db rk') h)) \<and>
    pending_txns rk' = filter (\<lambda>(h, _). h \<notin> set (txns blk)) (pending_txns rk))"
  using add_block_cases [OF assms(4)]
proof
  assume "same_records rk rk' \<and> r \<noteq> Ok True"
  then show ?thesis using assms(1) same_records_keeper by blast
next
  assume "\<exists>rk1. same_records rk rk1 \<and> store_block X blk fresh rk1 = (r, rk')"
  then obtain rk1 where s: "same_records rk rk1" "store_block X blk fresh rk1 = (r, rk')" by blast
  have "keeper_ok X content rk1" "room_for X (rk_db rk1) (Suc 0)"
    using assms(1,3) s(1) same_records_keeper [OF s(1)] by (simp_all add: same_records_def)
  from store_block_outcome [OF this(1) assms(2) this(2) s(2)] s(1) show ?thesis
    by (simp add: same_records_def)
qed

text \<open>
  C3: adding a block. Whatever the block and the outcome (accepted, known, refused or an error), the
  record keeper stays well-formed: a chain whose head is a highest block, the right blocks marked as
  current, the head stored, pending transactions under their hashes and within the memory limit.
  When the block is accepted, it can be read back, exactly it became known, all its transactions
  are in the database, and exactly they left the pool of pending transactions.
\<close>

theorem rk_add_block_outcome:
  assumes "keeper_ok X content rk" "block_calculate_hash X blk \<noteq> U256_ZERO" "room_for X (rk_db rk) 1"
    and "rk_add_block X now blk fresh rk = (r, rk')"
  shows "keeper_ok X content rk' \<and> (r = Ok True \<longrightarrow>
    get_block X (rk_db rk') (block_calculate_hash X blk) = Ok blk \<and>
    (\<forall>b. known_block X (rk_db rk') b \<longleftrightarrow> b = block_calculate_hash X blk \<or> known_block X (rk_db rk) b) \<and>
    (\<forall>h \<in> set (txns blk). is_ok (get_txn X (rk_db rk') h)) \<and>
    pending_txns rk' = filter (\<lambda>(h, _). h \<notin> set (txns blk)) (pending_txns rk))"
  using assms by (rule add_block_outcome)

section \<open>Pending transactions\<close>

lemma hm_insert_fresh: "k \<notin> fst ` set m \<Longrightarrow> hm_insert k v m = m @ [(k, v)]"
  by (induction m) auto

lemma pending_insert:
  assumes "pending_ok X ps" "hm_get ps (txn_calculate_hash X t) = None"
    "pending_size ps + txn_calculate_size t \<le> MAX_PENDING_TXN_MEM"
  shows "hm_insert (txn_calculate_hash X t) (now, t) ps = ps @ [(txn_calculate_hash X t, (now, t))]"
    "pending_ok X (ps @ [(txn_calculate_hash X t, (now, t))])"
proof -
  have n: "txn_calculate_hash X t \<notin> fst ` set ps" using assms(2) by (simp add: map_of_eq_None_iff)
  then show "hm_insert (txn_calculate_hash X t) (now, t) ps = ps @ [(txn_calculate_hash X t, (now, t))]"
    by (rule hm_insert_fresh)
  show "pending_ok X (ps @ [(txn_calculate_hash X t, (now, t))])"
    using assms n by (auto simp: pending_ok_def pending_size_sum)
qed

lemma add_pending_outcome:
  assumes k: "keeper_ok X content rk" and run: "rk_add_pending_txn X now t fresh rk = (r, rk')"
  shows "keeper_ok X content rk' \<and> rk_db rk' = rk_db rk \<and>
    (if r = Ok True
     then pending_txns rk' = pending_txns rk @ [(txn_calculate_hash X t, (now, t))] \<and>
       record_notices rk' = record_notices rk @ [NewTxn fresh t]
     else pending_txns rk' = pending_txns rk \<and> record_notices rk' = record_notices rk)"
proof -
  let ?h = "txn_calculate_hash X t"
  have idle: ?thesis if "same_records rk rk'" "record_notices rk' = record_notices rk" "r \<noteq> Ok True"
    using that k same_records_keeper by (auto simp: same_records_def)
  show ?thesis
  proof (cases "\<exists>e. rk_get_txn X rk ?h = Err e \<and> \<not> MAX_PENDING_TXN_MEM < pending_size (pending_txns rk) + txn_calculate_size t \<and>
      (\<exists>k. get_txn X (rk_db rk) ?h = Err (NotFound k))")
    case False
    then have "rk' = rk \<and> r \<noteq> Ok True"
      using run by (auto simp: rk_add_pending_txn_def Let_def split: result.splits error.splits if_splits)
    then show ?thesis using idle by (simp add: same_records_def)
  next
    case True
    then have size: "pending_size (pending_txns rk) + txn_calculate_size t \<le> MAX_PENDING_TXN_MEM"
      and fresh_hash: "hm_get (pending_txns rk) ?h = None"
      and run': "bind_st (rk_is_valid_txn X t) (\<lambda>_ rk. (Ok True, accept_txn now ?h t fresh rk)) rk = (r, rk')"
      using run by (auto simp: rk_add_pending_txn_def rk_get_txn_def Let_def split: option.splits if_splits)
    obtain v rk1 where v: "rk_is_valid_txn X t rk = (v, rk1)" by fastforce
    note s = valid_txn_same [OF v]
    have n1: "record_notices rk1 = record_notices rk"
      using v by (auto simp: rk_is_valid_txn_def on_game_def split: prod.splits)
    show ?thesis
    proof (cases v)
      case (Ok u)
      then have rk': "r = Ok True" "rk' = accept_txn now ?h t fresh rk1"
        using run' by (auto simp: bind_st_def v)
      have p: "pending_ok X (pending_txns rk)" using k by (simp add: keeper_ok_def)
      have new: "pending_txns rk' = pending_txns rk @ [(?h, (now, t))]"
        using s by (simp add: rk'(2) accept_txn_def Let_def same_records_def
          pending_insert(1) [OF p fresh_hash size])
      moreover have "rk_db rk' = rk_db rk" "record_notices rk' = record_notices rk @ [NewTxn fresh t]"
        using s n1 by (simp_all add: rk'(2) accept_txn_def Let_def same_records_def) (simp add: notify_record_def n1)
      ultimately show ?thesis
        using k pending_insert(2) [OF p fresh_hash size, of now] rk'(1) by (simp add: keeper_ok_def)
    qed (use run' s n1 v idle in \<open>auto simp: bind_st_def\<close>)
  qed
qed

text \<open>
  C9: a transaction is pending afterwards exactly if it was accepted: then it is stored under its hash
  with the time of its arrival, the pool stays within its memory limit, and one notice is sent. In
  all other cases (already known, no room, invalid, or an error) pool and notices stay as they were.
  The database is never changed.
\<close>

theorem rk_add_pending_txn_outcome:
  assumes "keeper_ok X content rk" "rk_add_pending_txn X now t fresh rk = (r, rk')"
  shows "keeper_ok X content rk' \<and> rk_db rk' = rk_db rk \<and>
    pending_size (pending_txns rk') \<le> MAX_PENDING_TXN_MEM \<and>
    (if r = Ok True
     then pending_txns rk' = pending_txns rk @ [(txn_calculate_hash X t, (now, t))] \<and>
       record_notices rk' = record_notices rk @ [NewTxn fresh t]
     else pending_txns rk' = pending_txns rk \<and> record_notices rk' = record_notices rk)"
  using add_pending_outcome [OF assms] by (auto simp: keeper_ok_def pending_ok_def)

section \<open>Importing a package\<close>

lemma store_txns_tip:
  assumes "for_st (\<lambda>h. bind_st (read_st (\<lambda>_. unwrap (hm_get m h))) (\<lambda>t. lift_state (add_txn X t now))) hs (st, rk) =
      (Ok (), (st', rk'))" "tip_ok X content st"
  shows "tip_ok X content st' \<and> same_blocks X st st' \<and> db_head st' = db_head st"
  using assms
proof (induction hs arbitrary: st rk)
  case (Cons h hs)
  obtain t st1 where "add_txn X t now st = (Ok (), st1)"
    and rest: "for_st (\<lambda>h. bind_st (read_st (\<lambda>_. unwrap (hm_get m h))) (\<lambda>t. lift_state (add_txn X t now))) hs (st1, rk) =
      (Ok (), (st', rk'))"
    using Cons.prems(1) by (auto simp: result_simps)
  with add_txn_tip [OF Cons.prems(2) this(1)] Cons.IH [OF rest] same_blocks_trans show ?case by metis
qed auto

lemma over_lift [preserves]: "preserves (over base) act \<Longrightarrow> preserves (\<lambda>p. over base (fst p)) (lift_state act)"
  by (auto simp: preserves_def lift_state_def split: prod.splits)

text \<open>What happens to a block that is not known yet, after its validation.\<close>

definition import_new ::
  "'s ext \<Rightarrow> time \<Rightarrow> (u256, txn) hash_map \<Rightarrow> block \<Rightarrow> ('s dbase \<times> ('s, 'g) record_keeper, unit, error) action" where
  "import_new X now m blk =
     bind_st (lift_state (add_block X blk))
       (\<lambda>_. bind_st (for_st (\<lambda>h. bind_st (read_st (\<lambda>_. unwrap (hm_get m h))) (\<lambda>t. lift_state (add_txn X t now))) (txns blk))
         (\<lambda>_. bind_st (lift_state (walk_to_head X)) (\<lambda>_. return_st ())))"

lemma import_new_preserves [preserves]:
  "preserves (calm X db) (import_new X now m blk)" "preserves (\<lambda>p. over base (fst p)) (import_new X now m blk)"
  unfolding import_new_def by (intro preserves; auto intro!: preserves)+

text \<open>A block is skipped, refused, or added after its validation.\<close>

lemma import_block_cases:
  assumes "import_block X now m blk (st, rk) = (r, (st', rk'))"
  shows "(known_block X st (block_calculate_hash X blk) \<and> r = Ok () \<and> st' = st \<and> rk' = rk) \<or>
    (r \<noteq> Ok () \<and> st' = st \<and> same_records rk rk') \<or>
    (\<exists>rk1. \<not> known_block X st (block_calculate_hash X blk) \<and> same_records rk rk1 \<and>
      import_new X now m blk (st, rk1) = (r, (st', rk')))"
proof (cases "get_block_header X st (block_calculate_hash X blk)")
  case (Err e)
  show ?thesis
  proof (cases "db_state_at X (db_state_new st) (prev (header blk))")
    case (Ok prior)
    obtain v rk1 where v: "on_game (is_valid_block_given_state X now (rk_rules rk) prior
        (map (\<lambda>(h, t). (h, (now, t))) m) blk) rk = (v, rk1)" by fastforce
    have "bind_res (v, (st, rk1)) (\<lambda>_. import_new X now m blk) = (r, (st', rk'))"
      using assms by (simp add: import_block_def import_new_def Err bind_st_def read_st_def Ok v)
    then show ?thesis using on_game_same [OF v] Err by (cases v) (auto simp: known_block_def)
  qed (use assms Err in \<open>auto simp: import_block_def bind_st_def read_st_def same_records_def\<close>)
qed (use assms in \<open>simp_all add: import_block_def known_block_def same_records_def\<close>)

lemma import_new_tip:
  assumes "import_new X now m blk (st, rk) = (Ok (), (st', rk'))" "tip_ok X content st"
    and "\<not> known_block X st (block_calculate_hash X blk)" "block_calculate_hash X blk \<noteq> U256_ZERO"
    and "room_for X st (Suc n)"
  shows "tip_ok X content st' \<and> on_top X st' \<and> room_for X st' n \<and>
    (\<forall>b. known_block X st' b \<longleftrightarrow> b = block_calculate_hash X blk \<or> known_block X st b)"
proof -
  obtain added st1 st2 w where a: "add_block X blk st = (Ok added, st1)"
    and s: "for_st (\<lambda>h. bind_st (read_st (\<lambda>_. unwrap (hm_get m h))) (\<lambda>t. lift_state (add_txn X t now))) (txns blk) (st1, rk) =
      (Ok (), (st2, rk'))"
    and w: "walk_to_head X st2 = (Ok w, st')"
    using assms(1) by (auto simp: import_new_def result_simps)
  have "added" using a assms(3)
    by (auto simp: add_block_def known_block_def Let_def result_simps split: if_splits)
  then have a': "add_block X blk st = (Ok True, st1)" using a by simp
  note ab = add_block_tip [OF assms(2) a' assms(4,5)]
  have t1: "tip_ok X content st1" using ab by blast
  note ts = store_txns_tip [OF s t1]
  have t2: "tip_ok X content st2" using ts by blast
  obtain i j where "w = (i, j)" by (cases w)
  note wh = walk_to_head_tip [OF t2 w [unfolded this]]
  have "same_blocks X st1 st'" using ts wh same_blocks_trans by blast
  then show ?thesis using ab wh same_blocks_tree(3) same_blocks_room by metis
qed

lemma calm_import [preserves]: "preserves (calm X db) (import_block X now m blk)"
  unfolding preserves_def
proof (intro allI impI)
  fix p
  assume c: "calm X db p"
  obtain st rk r st' rk' where run: "p = (st, rk)" "import_block X now m blk (st, rk) = (r, (st', rk'))"
    by (metis prod_cases3 surj_pair)
  from import_block_cases [OF run(2)] have "calm X db (st', rk')"
  proof (elim disjE exE conjE)
    fix rk1 assume "same_records rk rk1" "import_new X now m blk (st, rk1) = (r, (st', rk'))"
    moreover from this(1) have "calm X db (st, rk1)" using c run(1) by (simp add: calm_def same_records_def)
    ultimately show ?thesis using preservesD [OF import_new_preserves(1)] by blast
  qed (use c run(1) in \<open>simp_all add: calm_def same_records_def\<close>)
  then show "calm X db (snd (import_block X now m blk p))" using run by simp
qed

lemma import_blocks_tip:
  assumes "for_st (import_block X now m) blks (st, rk) = (Ok (), (st', rk'))"
    and "tip_ok X content st" "on_top X st" "over base st" "room_for X st (length blks)"
    and "\<forall>blk \<in> set blks. block_calculate_hash X blk \<noteq> U256_ZERO"
  shows "tip_ok X content st' \<and> on_top X st' \<and> over base st' \<and>
    (\<forall>b. known_block X st' b \<longleftrightarrow> b \<in> block_calculate_hash X ` set blks \<or> known_block X st b)"
  using assms
proof (induction blks arbitrary: st rk)
  case (Cons blk blks)
  obtain st1 rk1 where one: "import_block X now m blk (st, rk) = (Ok (), (st1, rk1))"
    and rest: "for_st (import_block X now m) blks (st1, rk1) = (Ok (), (st', rk'))"
    using Cons.prems(1) by (auto simp: result_simps)
  have st1: "tip_ok X content st1 \<and> on_top X st1 \<and> over base st1 \<and> room_for X st1 (length blks) \<and>
      (\<forall>b. known_block X st1 b \<longleftrightarrow> b = block_calculate_hash X blk \<or> known_block X st b)"
    using import_block_cases [OF one]
  proof (elim disjE exE conjE)
    fix rk2 assume n: "\<not> known_block X st (block_calculate_hash X blk)"
      "import_new X now m blk (st, rk2) = (Ok (), (st1, rk1))"
    show ?thesis
      using import_new_tip [OF n(2) Cons.prems(2) n(1), of "length blks"] Cons.prems(4-6)
        preservesD [OF import_new_preserves(2) _ n(2), of base] by simp
  qed (use Cons.prems in \<open>auto simp: room_for_def\<close>)
  then show ?case using Cons.IH [OF rest, of] Cons.prems(6) by auto
qed auto

text \<open>Validating the pending transactions again keeps a part of them, in order.\<close>

lemma revalidate_keeps:
  assumes "for_st (revalidate_txn X) ps rk = (r, rk')" "pending_ok X (pending_txns rk @ ps)"
  shows "rk_db rk' = rk_db rk \<and> pending_ok X (pending_txns rk') \<and>
    set (pending_txns rk') \<subseteq> set (pending_txns rk) \<union> set ps"
  using assms
proof (induction ps arbitrary: rk)
  case (Cons p ps)
  obtain h n t where p: "p = (h, n, t)" by (cases p)
  obtain v rk1 where v: "rk_is_valid_txn X t rk = (v, rk1)" by fastforce
  have s: "rk_db rk1 = rk_db rk" "pending_txns rk1 = pending_txns rk" using valid_txn_same [OF v] by (simp_all add: same_records_def)
  let ?rk2 = "rk1\<lparr>pending_txns := pending_txns rk @ [p]\<rparr>"
  have new: "h \<notin> fst ` set (pending_txns rk)" using Cons.prems(2) by (auto simp: pending_ok_def p)
  then have ins: "hm_insert h (n, t) (pending_txns rk1) = pending_txns rk @ [p]"
    using s(2) by (simp add: hm_insert_fresh p)
  have rest: "pending_ok X (pending_txns rk1 @ ps)" "pending_ok X (pending_txns ?rk2 @ ps)"
    using Cons.prems(2) s(2) by (auto simp: pending_ok_def pending_size_sum)
  then have ok1: "pending_ok X (pending_txns rk1)" by (auto simp: pending_ok_def)
  show ?case
  proof (cases v)
    case (Ok u)
    then have "for_st (revalidate_txn X) ps ?rk2 = (r, rk')"
      using Cons.prems(1) by (simp add: p revalidate_txn_def bind_st_def v ins [unfolded p])
    from Cons.IH [OF this rest(2)] s show ?thesis by auto
  next
    case (Err e)
    then have "for_st (revalidate_txn X) ps rk1 = (r, rk')"
      using Cons.prems(1) by (simp add: p revalidate_txn_def bind_st_def v)
    from Cons.IH [OF this rest(1)] s show ?thesis by auto
  qed (use Cons.prems(1) s ok1 in \<open>auto simp: p revalidate_txn_def bind_st_def v\<close>)
qed (auto simp: pending_ok_def)

lemma notify_imported_same: "notify_imported X blk rk = (r, rk') \<Longrightarrow> same_records rk rk'"
  by (cases "is_part_of_current_chain X (rk_db rk) (block_calculate_hash X blk)")
    (auto simp: notify_imported_def bind_st_def read_st_def same_records_def)

lemma keeper_notify: "preserves (\<lambda>rk. keeper_ok X content rk \<and> rk_db rk = db) (for_st (notify_imported X) blks)"
proof (rule preserves_for)
  fix blk
  show "preserves (\<lambda>rk. keeper_ok X content rk \<and> rk_db rk = db) (notify_imported X blk)"
    unfolding preserves_def
    using notify_imported_same same_records_keeper by (metis prod.collapse same_records_def)
qed

lemma commit_import_keeps:
  assumes "rk_db rk = DatabaseImpl s h" "pending_ok X (pending_txns rk)"
    and "tip_ok X content st" "on_top X st" "over (DatabaseImpl s h) st" "compile_state X st = Ok wb"
    and run: "commit_import X blks n (undone, ear, wb) rk = (r, rk')"
  shows "keeper_ok X content rk' \<and> same_blocks X st (rk_db rk')"
proof -
  obtain db where db: "on_db (db_apply X wb) rk = (Ok (), rk\<lparr>rk_db := db\<rparr>)" "keeper_ok X content (rk\<lparr>rk_db := db\<rparr>)"
    "same_blocks X st db"
    using apply_keeper [OF assms(1-6)] by blast
  let ?I = "\<lambda>rk. keeper_ok X content rk \<and> rk_db rk = db"
  obtain r1 rk1 where rv: "revalidate_pending X (rk\<lparr>rk_db := db\<rparr>) = (r1, rk1)" by fastforce
  have "rk_db rk1 = db \<and> pending_ok X (pending_txns rk1)"
    using revalidate_keeps [OF rv [unfolded revalidate_pending_def]] assms(2) by simp
  then have I1: "?I rk1" using db(2) by (simp add: keeper_ok_def)
  let ?k = "\<lambda>_. bind_st (for_st (notify_imported X) blks)
      (\<lambda>_ rk. (Ok (), if 0 < undone
         then notify_record (StateInvalidated (get_current_block_height (rk_db rk)) (n - undone) ear) rk else rk))"
  have "preserves ?I (?k u)" for u
    by (intro preserves keeper_notify) (auto simp: preserves_def keeper_ok_def)
  moreover have "bind_res (r1, rk1) ?k = (r, rk')"
    using run by (simp add: commit_import_def db(1) bind_st_def [of "revalidate_pending X"] rv)
  ultimately have "?I rk'" using preserves_bind_res [where I = ?I and s = rk1 and f = ?k and r = r1] I1 by (metis snd_conv)
  then show ?thesis using db(3) by simp
qed

lemma import_outcome:
  assumes "keeper_ok X content rk" "rk_import_pkg X now pkg rk = (r, rk')"
    and "\<forall>blk \<in> set (fst (package_unpack X pkg)). block_calculate_hash X blk \<noteq> U256_ZERO"
    and "room_for X (rk_db rk) (length (fst (package_unpack X pkg)))"
  shows "keeper_ok X content rk' \<and> (\<forall>last. r = Ok last \<longrightarrow>
    last \<in> block_calculate_hash X ` set (fst (package_unpack X pkg)) \<and>
    (\<forall>b. known_block X (rk_db rk') b \<longleftrightarrow>
      b \<in> block_calculate_hash X ` set (fst (package_unpack X pkg)) \<or> known_block X (rk_db rk) b))"
proof -
  obtain blks m where u: "package_unpack X pkg = (blks, m)" by fastforce
  obtain s h where db: "rk_db rk = DatabaseImpl s h" using assms(1) by (auto simp: keeper_ok_def)
  have k: "tip_ok X content (rk_db rk)" "on_top X (rk_db rk)" "pending_ok X (pending_txns rk)"
    using assms(1) by (simp_all add: keeper_ok_def)
  let ?st = "db_state_new (rk_db rk)"
  show ?thesis
  proof (cases "blks = []")
    case False
    obtain r1 st1 rk1 where b: "build_import X now blks m (get_current_block_hash (rk_db rk)) (?st, rk) = (r1, (st1, rk1))"
      by (metis prod_cases3)
    have "preserves (calm X (rk_db rk)) (build_import X now blks m (get_current_block_hash (rk_db rk)))"
      unfolding build_import_def by (intro preserves) (auto intro!: preserves)
    from preservesD [OF this _ b] k(3) have c: "rk_db rk1 = rk_db rk" "pending_ok X (pending_txns rk1)"
      by (simp_all add: calm_def)
    have run: "bind_res (r1, rk1) (\<lambda>built. bind_st (commit_import X blks (get_current_block_height (rk_db rk)) built)
        (\<lambda>_. return_st (block_calculate_hash X (last blks)))) = (r, rk')"
      using assms(2) False by (simp add: rk_import_pkg_def u b)
    show ?thesis
    proof (cases r1)
      case (Ok built)
      obtain undone ear wb where built: "built = (undone, ear, wb)" by (cases built)
      have im: "for_st (import_block X now m) blks (?st, rk) = (Ok (), (st1, rk1))" "compile_state X st1 = Ok wb"
        using b by (auto simp: Ok built build_import_def result_simps)
      have new: "tip_ok X content ?st" "same_blocks X (rk_db rk) ?st" using tip_new [OF k(1)] by simp_all
      have top: "on_top X ?st" using k(2) by (simp add: on_top_def same_blocks_tree [OF new(2)] get_current_block_hash_def)
      have st1: "tip_ok X content st1 \<and> on_top X st1 \<and> over (DatabaseImpl s h) st1 \<and>
          (\<forall>b. known_block X st1 b \<longleftrightarrow> b \<in> block_calculate_hash X ` set blks \<or> known_block X ?st b)"
        using import_blocks_tip [OF im(1) new(1) top over_new] assms(3,4) same_blocks_room [OF new(2)]
        by (simp add: u db)
      obtain r2 where cm: "commit_import X blks (get_current_block_height (rk_db rk)) (undone, ear, wb) rk1 = (r2, rk')"
        and last: "\<forall>l. r = Ok l \<longrightarrow> l = block_calculate_hash X (last blks)"
        using run by (auto simp: Ok built bind_st_def elim!: bind_res.elims)
      have "keeper_ok X content rk' \<and> same_blocks X st1 (rk_db rk')"
        by (rule commit_import_keeps [OF c(1) [unfolded db] c(2) _ _ _ im(2) cm]) (use st1 in auto)
      then show ?thesis using st1 last False by (auto simp: u same_blocks_tree [OF new(2)] dest: same_blocks_tree(3))
    qed (use run c assms(1) in \<open>auto simp: keeper_ok_def\<close>)
  qed (use assms(1,2) in \<open>auto simp: rk_import_pkg_def u\<close>)
qed

text \<open>
  C7: importing a package of blocks. Whatever the package and the outcome, the record keeper stays
  well-formed, and when the import succeeds, exactly the blocks of the package have become known in
  addition, its last block among them, and the head is a highest block.
\<close>

theorem rk_import_pkg_outcome:
  assumes "keeper_ok X content rk" "rk_import_pkg X now pkg rk = (r, rk')"
    and "\<forall>blk \<in> set (fst (package_unpack X pkg)). block_calculate_hash X blk \<noteq> U256_ZERO"
    and "room_for X (rk_db rk) (length (fst (package_unpack X pkg)))"
  shows "keeper_ok X content rk' \<and> (\<forall>last. r = Ok last \<longrightarrow>
    last \<in> block_calculate_hash X ` set (fst (package_unpack X pkg)) \<and>
    (\<forall>b. known_block X (rk_db rk') b \<longleftrightarrow>
      b \<in> block_calculate_hash X ` set (fst (package_unpack X pkg)) \<or> known_block X (rk_db rk) b))"
  using assms by (rule import_outcome)

section \<open>Opening the record keeper\<close>

text \<open>A database without blocks: nothing but transactions has been stored.\<close>

definition bare :: "'s ext \<Rightarrow> ('s \<Rightarrow> bin \<Rightarrow> bin option) \<Rightarrow> 's dbase \<Rightarrow> bool" where
  "bare X content db \<longleftrightarrow> store_ok X content db \<and> db_head db = head_ref_default \<and>
     (\<forall>b. db_val content db (Blockchain (BlockHeaderE b)) = None) \<and>
     (\<forall>b. db_val content db (Cache (HeightByBlock b)) = None) \<and>
     (\<forall>n. db_val content db (Cache (BlocksByHeight n)) = None)"

lemma bare_reads:
  assumes "bare X content db"
  shows "\<not> known_block X db b" "stored_height X db b = None" "get_blocks_of_height X db n = Ok []"
    "get_block_height X db b = Ok m \<Longrightarrow> b = U256_ZERO \<and> m = 0" "get_block_height X db U256_ZERO = Ok 0"
    "chain_inv X db"
proof -
  have ok: "store_ok X content db" and h: "get_current_block_hash db = U256_ZERO" "get_current_block_height db = 0"
    using assms by (simp_all add: bare_def get_current_block_hash_def get_current_block_height_def head_ref_default_def)
  note v = assms [unfolded bare_def]
  show k: "\<not> known_block X db b" for b using v by (simp add: store.known_val [OF ok])
  show s: "stored_height X db b = None" for b using v by (simp add: store.stored_height_val [OF ok])
  show l: "get_blocks_of_height X db n = Ok []" for n using v by (simp add: store.blocks_of_height_eq [OF ok])
  show "get_block_height X db b = Ok m \<Longrightarrow> b = U256_ZERO \<and> m = 0"
    using v by (auto simp: get_block_height_def h store.get_val [OF ok] split: if_splits)
  show "get_block_height X db U256_ZERO = Ok 0" by (simp add: get_block_height_def h)
  have "get_block_header X db b \<noteq> Ok hdr" for b hdr using k [of b] by (auto simp: known_block_def)
  then show "chain_inv X db" using k by (simp add: chain_inv_def s l h)
qed

lemma add_txns_bare:
  assumes "for_st (\<lambda>t. add_txn X t n) ts db = (Ok (), db')" "bare X content db"
  shows "bare X content db'"
  using assms
proof (induction ts arbitrary: db)
  case (Cons t ts)
  then obtain db1 where one: "add_txn X t n db = (Ok (), db1)" and rest: "for_st (\<lambda>t. add_txn X t n) ts db1 = (Ok (), db')"
    by (auto simp: result_simps)
  have "store_ok X content db" using Cons.prems(2) by (simp add: bare_def)
  note e = store.add_txn_effect [OF this one]
  have "bare X content db1" using Cons.prems(2) e by (simp add: bare_def)
  then show ?case by (rule Cons.IH [OF rest])
qed simp

lemma genesis_added:
  assumes "bare X content db" "add_block X blk db = (Ok True, db')" "block_calculate_hash X blk \<noteq> U256_ZERO"
  shows "store_ok X content db'" "chain_inv X db'" "db_head db' = head_ref_default"
    "known_block X db' b \<longleftrightarrow> b = block_calculate_hash X blk"
    "stored_height X db' (block_calculate_hash X blk) = Some 1"
    "get_blocks_of_height X db' 1 = Ok [block_calculate_hash X blk]" "headers_hashed X db'" "blocks_complete X db'"
proof -
  let ?b = "block_calculate_hash X blk"
  have ok: "store_ok X content db" using assms(1) by (simp add: bare_def)
  obtain m l where m: "get_block_height X db (prev (header blk)) = Ok m"
    and ok': "store_ok X content db'" "db_head db' = db_head db"
    and v: "db_val content db' (Blockchain (BlockHeaderE ?b)) = Some (ser (header_codec X) (header blk))"
      "db_val content db' (Cache (HeightByBlock ?b)) = Some (write_le 8 (m + 1))"
    and l: "get_blocks_of_height X db (m + 1) = Ok l"
      "get_blocks_of_height X db' (m + 1) = Ok (if ?b \<in> set l then l else l @ [?b])"
    and same: "\<And>k. chain_key k \<Longrightarrow>
       k \<notin> {Blockchain (BlockHeaderE ?b), Blockchain (TxnListE (merkle_root (header blk))),
            Cache (HeightByBlock ?b), Cache (BlocksByHeight (m + 1))} \<union>
           (\<lambda>t. Cache (BlocksByTxn t)) ` set (txns blk) \<Longrightarrow> db_val content db' k = db_val content db k"
    using store.add_block_effect [OF ok assms(2)] by metis
  have m0: "m = 0" using bare_reads(4) [OF assms(1) m] by simp
  show "store_ok X content db'" "db_head db' = head_ref_default" using ok' assms(1) by (simp_all add: bare_def)
  show "chain_inv X db'"
    by (rule store.add_block_chain_inv [OF ok bare_reads(6) [OF assms(1)] assms(2,3)]) (simp add: m m0)
  show "get_blocks_of_height X db' 1 = Ok [?b]" using l bare_reads(3) [OF assms(1)] by (simp add: m0)
  show "stored_height X db' ?b = Some 1" using v(2) by (simp add: store.stored_height_val [OF ok'(1)] m0)
  have none: "db_val content db' (Blockchain (BlockHeaderE b)) = None" if "b \<noteq> ?b" for b
    using same [of "Blockchain (BlockHeaderE b)"] that assms(1) by (auto simp: bare_def)
  then have kn: "known_block X db' x \<longleftrightarrow> x = ?b" for x
    using v(1) store.codecs [OF ok] by (cases "x = ?b") (auto simp: store.known_val [OF ok'(1)])
  then show "known_block X db' b \<longleftrightarrow> b = ?b" "blocks_complete X db'"
    using store.get_block_added [OF ok assms(2)] by (simp_all add: blocks_complete_def)
  have "header_calculate_hash X hd = b" if "get_block_header X db' b = Ok hd" for b hd
    using that none [of b] v(1) store.codecs [OF ok]
    by (cases "b = ?b") (simp_all add: get_block_header_def store.get_val [OF ok'(1)] block_calculate_hash_def)
  then show "headers_hashed X db'" by (simp add: headers_hashed_def)
qed

lemma genesis_walk:
  assumes "store_ok X content db" "chain_inv X db" "db_head db = head_ref_default" "\<And>x. known_block X db x \<longleftrightarrow> x = b"
    and "stored_height X db b = Some 1" "get_blocks_of_height X db 1 = Ok [b]" "headers_hashed X db" "b \<noteq> U256_ZERO"
    and run: "walk_to_head X db = (Ok r, db')" and full: "blocks_complete X db"
  shows "tip_ok X content db' \<and> on_top X db' \<and> get_current_block_hash db' = b \<and> same_blocks X db db' \<and>
    get_block X db' = get_block X db"
proof -
  obtain blk m con db1 where mu: "db_mutate X m db = (Ok con, db1)"
    and up: "update_current_block X b (Some 1) db1 = (Ok (), db')"
    using run assms(3,6)
    by (auto simp: walk_to_head_def get_current_block_hash_def head_ref_default_def u256_is_zero_def Let_def result_simps)
  note k = keeps_chainD [OF store.mutate_keeps assms(1) mu]
  note e = store.update_current_block_effect [OF k(1) up]
  have v: "db_val content db' key = db_val content db key" if "\<not> is_network_key key" "key \<noteq> Cache CurrentHead" for key
    using that e(3) k(3) by simp
  note rd = store.readings_cong [OF assms(1) e(1)]
  have same: "same_blocks X db db'" by (simp add: same_blocks_def rd v)
  note t = same_blocks_tree [OF same]
  have h: "get_current_block_hash db' = b" "block_ht X db' b = 1"
    using e(2) assms(5,8) by (simp_all add: get_current_block_hash_def t(2) block_ht_def)
  have "get_current_block_of_height X db' 1 = Ok b"
  proof -
    have "get_current_block_of_height X db 1 = Ok b"
      using assms(6) by (auto simp: get_blocks_of_height_def get_current_block_of_height_def result_simps
        split: result.splits error.splits)
    then show ?thesis using rd(4) v by simp
  qed
  then have "marks_ok X db'" using h by (simp add: marks_ok_def)
  moreover have "chain_inv X db'"
    by (rule chain_inv_same_blocks [OF assms(2) same]) (simp_all add: e(2) assms(4,5))
  moreover have "head_stored (db_val content) db'"
  proof -
    let ?r = "\<lparr>href_block = b, href_height = 1\<rparr>"
    have run: "db_put X (Cache CurrentHead) (ser_head_ref ?r) (set_head ?r db1) = (Ok (), db')"
      using up by (simp add: update_current_block_def bind_st_def read_st_def Let_def)
    have "store_ok X content (set_head ?r db1)" using k(1) by (simp add: store.head_val)
    from store.putD(4) [OF run this, of "Cache CurrentHead"] show ?thesis
      by (simp add: head_stored_def e(2))
  qed
  ultimately show ?thesis
    using e(1) h same assms(4,7) same_blocks_hashed entries_readings(1) [OF assms(1) e(1)] v
      entries_complete [OF assms(1) e(1)] full
    by (auto simp: tip_ok_def on_top_def t(3))
qed

lemma open_empty:
  assumes x: "rocksdb X content" "codecs_ok X" and empty: "content s = Map.empty"
    and nz: "block_calculate_hash X blk \<noteq> U256_ZERO"
    and run: "rk_open X s rules g (blk, ts) = Ok rk"
  shows "keeper_ok X content rk \<and> (\<forall>b. known_block X (rk_db rk) b \<longleftrightarrow> b = block_calculate_hash X blk) \<and>
    get_current_block_hash (rk_db rk) = block_calculate_hash X blk \<and> pending_txns rk = [] \<and>
    get_block X (rk_db rk) (block_calculate_hash X blk) = Ok blk \<and> rk_rules rk = rules"
proof -
  let ?rk = "record_keeper_new (database_impl_new X s) rules g"
  have g: "rdb_get X s k = Ok None" for k using rocksdb.store_get [OF x(1)] empty by simp
  have db: "database_impl_new X s = DatabaseImpl s head_ref_default"
    by (simp add: database_impl_new_def get_raw_data_static_def g)
  have em: "db_is_empty X (rk_db ?rk)"
    using rocksdb.store_is_empty [OF x(1)] empty by (simp add: db record_keeper_new_def)
  let ?st = "db_state_new (DatabaseImpl s head_ref_default)"
  obtain wb st where b: "build_genesis X blk ts ?st = (Ok wb, st)"
    and ap: "on_db (db_apply X wb) ?rk = (Ok (), rk)"
    using run em by (auto simp: rk_open_def Let_def result_simps record_keeper_new_def db) (metis prod.collapse)+
  have bare: "bare X content ?st"
    using x by (auto simp: bare_def store_ok_def empty)
  obtain st1 st2 added r where s1: "for_st (\<lambda>t. add_txn X t (timestamp (header blk))) ts ?st = (Ok (), st1)"
    and s2: "add_block X blk st1 = (Ok added, st2)"
    and s3: "walk_to_head X st2 = (Ok r, st)" "compile_state X st = Ok wb"
    using b by (auto simp: build_genesis_def result_simps read_st_def)
  have b1: "bare X content st1" by (rule add_txns_bare [OF s1 bare])
  have "added" using s2 bare_reads(1) [OF b1]
    by (auto simp: add_block_def known_block_def Let_def result_simps split: if_splits)
  then have s2': "add_block X blk st1 = (Ok True, st2)" using s2 by simp
  note ga = genesis_added [OF b1 s2' nz]
  note gw = genesis_walk [OF ga(1-3) ga(4) ga(5,6,7) nz s3(1) ga(8)]
  have ov: "preserves (over base) (for_st (\<lambda>t. add_txn X t n) ts)" for base n by (intro preserves)
  have "over (DatabaseImpl s head_ref_default) st"
    using preservesD [OF ov over_new s1] preservesD [OF over_add(2) _ s2] preservesD [OF over_walk(4) _ s3(1)] by blast
  moreover have "rk_db ?rk = DatabaseImpl s head_ref_default" "pending_txns ?rk = []"
    by (simp_all add: record_keeper_new_def db)
  moreover have "pending_ok X []" by (simp add: pending_ok_def pending_size_def)
  ultimately obtain d where d: "on_db (db_apply X wb) ?rk = (Ok (), ?rk\<lparr>rk_db := d\<rparr>)"
    "keeper_ok X content (?rk\<lparr>rk_db := d\<rparr>)" "same_blocks X st d"
    "get_current_block_hash d = get_current_block_hash st" "get_block X d = get_block X st"
    using apply_keeper [of ?rk s head_ref_default X content st wb] gw s3(2) by metis
  have "rk = ?rk\<lparr>rk_db := d\<rparr>" using ap d(1) by simp
  moreover have "known_block X d = known_block X st2"
    using same_blocks_tree(3) same_blocks_trans [of X st2 st d] d(3) gw by blast
  moreover have "get_block X d (block_calculate_hash X blk) = Ok blk"
    using d(5) gw store.get_block_added [of X content, OF _ s2'] b1 by (auto simp: bare_def)
  ultimately show ?thesis using d gw ga(4) \<open>pending_txns ?rk = []\<close> by (simp add: record_keeper_new_def)
qed

text \<open>
  C10: opening. On an empty store, opening with a genesis block gives a well-formed record keeper whose
  only block and head is the genesis block. Opening the store of a well-formed record keeper again
  gives its database back, with its head, and an empty pool, if the genesis block is in it.
\<close>

theorem rk_open_outcome:
  assumes "rocksdb X content" "codecs_ok X" "block_calculate_hash X blk \<noteq> U256_ZERO"
    and "rk_open X s rules g (blk, ts) = Ok rk"
  shows "(content s = Map.empty \<longrightarrow> keeper_ok X content rk \<and>
      (\<forall>b. known_block X (rk_db rk) b \<longleftrightarrow> b = block_calculate_hash X blk) \<and>
      get_current_block_hash (rk_db rk) = block_calculate_hash X blk \<and>
      get_block X (rk_db rk) (block_calculate_hash X blk) = Ok blk) \<and>
    (\<forall>rk0 h. keeper_ok X content rk0 \<longrightarrow> rk_db rk0 = DatabaseImpl s h \<longrightarrow>
      rk_db rk = rk_db rk0 \<and> pending_txns rk = [] \<and> keeper_ok X content rk)"
proof (intro conjI allI impI)
  fix rk0 h assume k: "keeper_ok X content rk0" "rk_db rk0 = DatabaseImpl s h"
  have head: "content s (as_bin (Cache CurrentHead)) = Some (ser_head_ref h)"
    using k by (simp add: keeper_ok_def tip_ok_def head_stored_def)
  then have "content s \<noteq> Map.empty" by auto
  then have ne: "\<not> rdb_is_empty X s" using rocksdb.store_is_empty [OF assms(1)] by simp
  then have "database_impl_new X s = DatabaseImpl s h"
    using head by (simp add: database_impl_new_def get_raw_data_static_def rocksdb.store_get [OF assms(1)])
  then have "rk = record_keeper_new (DatabaseImpl s h) rules g"
    using assms(4) ne by (auto simp: rk_open_def record_keeper_new_def Let_def result_simps)
  moreover have "pending_ok X []" by (simp add: pending_ok_def pending_size_def)
  ultimately show "rk_db rk = rk_db rk0" "pending_txns rk = []" "keeper_ok X content rk"
    using k by (simp_all add: record_keeper_new_def keeper_ok_def)
qed (use open_empty [OF assms(1,2) _ assms(3,4)] in blast)+

section \<open>All runs\<close>

text \<open>The record keepers reached from one by the operations that change it, accepted or not.\<close>

inductive reaches :: "'s ext \<Rightarrow> ('s, 'g) record_keeper \<Rightarrow> ('s, 'g) record_keeper \<Rightarrow> bool" for X rk0 where
  start: "reaches X rk0 rk0"
| block: "reaches X rk0 rk \<Longrightarrow> block_calculate_hash X blk \<noteq> U256_ZERO \<Longrightarrow> room_for X (rk_db rk) 1 \<Longrightarrow>
    rk_add_block X now blk fresh rk = (r, rk') \<Longrightarrow> reaches X rk0 rk'"
| pending: "reaches X rk0 rk \<Longrightarrow> rk_add_pending_txn X now t fresh rk = (r, rk') \<Longrightarrow> reaches X rk0 rk'"
| import_pkg: "reaches X rk0 rk \<Longrightarrow>
    \<forall>blk \<in> set (fst (package_unpack X pkg)). block_calculate_hash X blk \<noteq> U256_ZERO \<Longrightarrow>
    room_for X (rk_db rk) (length (fst (package_unpack X pkg))) \<Longrightarrow>
    rk_import_pkg X now pkg rk = (h, rk') \<Longrightarrow> reaches X rk0 rk'"

lemma reached_ok:
  assumes "reaches X rk0 rk" "keeper_ok X content rk0"
  shows "keeper_ok X content rk"
  using assms
proof induction
  case (block rk blk now fresh r rk')
  then show ?case using add_block_outcome by blast
next
  case (pending rk now t fresh r rk')
  then show ?case using add_pending_outcome by blast
next
  case (import_pkg rk pkg now h rk')
  then show ?case using import_outcome [OF import_pkg.IH [OF import_pkg.prems] import_pkg.hyps(4,2,3)] by blast
qed

lemma keeper_follows_longest_chain:
  assumes "keeper_ok X content rk"
  shows "chain_inv X (rk_db rk) \<and> marks_ok X (rk_db rk) \<and>
    known_block X (rk_db rk) (get_current_block_hash (rk_db rk)) \<and>
    (\<forall>b. known_block X (rk_db rk) b \<longrightarrow>
      is_ok (get_block X (rk_db rk) b) \<and>
      block_ht X (rk_db rk) b \<le> block_ht X (rk_db rk) (get_current_block_hash (rk_db rk))) \<and>
    pending_size (pending_txns rk) \<le> MAX_PENDING_TXN_MEM"
  using assms by (simp add: keeper_ok_def tip_ok_def on_top_def pending_ok_def blocks_complete_def)

text \<open>
  C1: every record keeper that is reached from a freshly opened one by any sequence of blocks,
  transactions and packages, in any order and with any outcome, has a head that is a highest known
  block, marks exactly the ancestors of the head as the current chain, can read back every known
  block in full, and holds pending transactions within its memory limit.
\<close>

theorem reached_keepers_follow_longest_chain:
  assumes "rocksdb X content" "codecs_ok X" "content s = Map.empty" "block_calculate_hash X genesis \<noteq> U256_ZERO"
    and "rk_open X s rules g (genesis, ts) = Ok rk0" "reaches X rk0 rk"
  shows "chain_inv X (rk_db rk) \<and> marks_ok X (rk_db rk) \<and>
    known_block X (rk_db rk) (get_current_block_hash (rk_db rk)) \<and>
    (\<forall>b. known_block X (rk_db rk) b \<longrightarrow>
      is_ok (get_block X (rk_db rk) b) \<and>
      block_ht X (rk_db rk) b \<le> block_ht X (rk_db rk) (get_current_block_hash (rk_db rk))) \<and>
    pending_size (pending_txns rk) \<le> MAX_PENDING_TXN_MEM"
  using keeper_follows_longest_chain reached_ok [OF assms(6)] open_empty [OF assms(1-5)] by blast

end
