(* ===== verification/Net_Events.thy ===== *)
theory Net_Events
  imports Net_Safety Keeper
begin

text \<open>
  The event loop of the network thread as a transition system, alone and together with the worker
  threads on the record keeper: which events can stop the thread, what holds in every state it
  reaches, and when the node forges.
\<close>

section \<open>The events that can stop the thread\<close>

fun fatal :: "network \<Rightarrow> event \<Rightarrow> bool" where
  "fatal net (Datagram sp) \<longleftrightarrow> data_missing (msg (payload (snd sp)))"
| "fatal net (TcpFirst p) \<longleftrightarrow> (\<exists>h nd pt. msg p = Introduce h nd pt \<and> resolve_port net h = 255)"
| "fatal net (StreamPacket p a pkt) \<longleftrightarrow> data_missing (msg pkt)"
| "fatal net (RunTask i) \<longleftrightarrow> i < length (tasks (ctx net)) \<and> fatal_task (tasks (ctx net) ! i)"
| "fatal net (AttachCmd h mode) \<longleftrightarrow> None \<notin> set (shards net)"
| "fatal net (DetachCmd h) \<longleftrightarrow> resolve_port net h = 255"
| "fatal net _ \<longleftrightarrow> False"

text \<open>The packet that an event hands to a session.\<close>

fun event_packet :: "network \<Rightarrow> event \<Rightarrow> packet option" where
  "event_packet net (Datagram sp) = Some (payload (snd sp))"
| "event_packet net (StreamPacket p a pkt) = Some pkt"
| "event_packet net (RunTask i) = (if i < length (tasks (ctx net)) then task_packet (tasks (ctx net) ! i) else None)"
| "event_packet net _ = None"

text \<open>
  All that may stop the thread at an event: the event is one of the fatal ones, the UDP socket refuses
  a packet (the send is unwrapped), the verification of a signature of the event's packet does not
  answer (it is unwrapped as well), or a receiver panics on a broadcast.
\<close>

definition may_stop :: "'s net_ext \<Rightarrow> env \<Rightarrow> network \<Rightarrow> event \<Rightarrow> bool" where
  "may_stop N E net ev \<longleftrightarrow> fatal net ev \<or> (\<exists>out q. \<not> env_udp E out q) \<or>
     (\<exists>q. event_packet net ev = Some q \<and> bad_packet (at_event N E) q) \<or>
     (\<exists>h i pl. ev = BroadcastCmd h i pl \<and> env_receive E i h pl = None)"

lemma take_task_ok: "ctx_ok c \<Longrightarrow> ctx_ok (take_task i c)"
  by (auto simp: ctx_ok_def take_task_def dest: in_set_takeD in_set_dropD)

lemma taken_ok: "net_ok X k net \<Longrightarrow> net_ok X k (net\<lparr>ctx := take_task i (ctx net)\<rparr>)"
  using take_task_ok by (auto simp: net_ok_def held_all_def take_task_def)

lemma register_ok: "net_ok X k net \<Longrightarrow> net_ok X k (net\<lparr>ctx := register_broadcast_receiver i (ctx net)\<rparr>)"
  by (auto simp: net_ok_def held_all_def register_broadcast_receiver_def ctx_ok_def)

lemma nth_task_ok: "net_ok X k net \<Longrightarrow> i < length (tasks (ctx net)) \<Longrightarrow> task_ok (tasks (ctx net) ! i)"
  by (simp add: net_ok_def ctx_ok_def)

lemma free_place: "length (shards net) = 255 \<Longrightarrow> None \<in> set (shards net) \<Longrightarrow> \<exists>i < 255. shards net ! i = None"
  by (metis in_set_conv_nth)

lemma handle_event_ends:
  assumes "good_env E" "udp_may_fail N \<Longrightarrow> b" "net_ok (core_ext N) 0 net" "fatal net ev \<Longrightarrow> b"
    and packet: "\<And>q. event_packet net ev = Some q \<Longrightarrow> bad_packet N q \<Longrightarrow> b"
    and receiver: "\<And>h i pl. ev = BroadcastCmd h i pl \<Longrightarrow> receiver_answer N i h pl = None \<Longrightarrow> b"
  shows "ends b (\<lambda>_. net_ok (core_ext N) 0) (handle_event N E ev net)"
proof -
  have faulty: "faulty N q \<Longrightarrow> b" if "event_packet net ev = Some q" for q
    using that assms(2) packet by (auto simp: faulty_def)
  have env: "reorders (env_shuffle E 0 0)" "answers (env_resolve E)" using assms(1) by (auto simp: good_env_def)
  note I = assms(3)
  show ?thesis
  proof (cases ev)
    case (Datagram sp)
    have "keeps b (net_ok (core_ext N) 0) (udp_process_packet N (env_local E) (env_shuffle E 0 0) sp)"
      by (rule udp_process_packet_keeps [OF env(1)]) (use assms(4) faulty in \<open>auto simp: Datagram\<close>)
    from tripleD [OF this I] show ?thesis by (simp add: handle_event_def Datagram)
  next
    case (TcpFirst p)
    have "ends b (\<lambda>_. net_ok (core_ext N) 0) (tcp_process_packet N p net)"
      by (rule tripleD [OF tcp_process_packet_triple]) (use I assms(4) port_below in \<open>auto simp: TcpFirst\<close>)
    then show ?thesis by (simp add: handle_event_def TcpFirst)
  next
    case (StreamPacket p a pkt)
    have p: "p < 255" if "StreamTask p a \<in> set (tasks (ctx net))"
      using that I by (force simp: net_ok_def ctx_ok_def)
    have "keeps b (net_ok (core_ext N) 0) (stream_packet N (env_local E) (env_shuffle E 0 0) p a pkt)"
      if "StreamTask p a \<in> set (tasks (ctx net))"
      by (rule stream_packet_keeps [OF env(1)]) (use that p assms(4) faulty in \<open>auto simp: StreamPacket\<close>)
    from tripleD [OF this I] I show ?thesis by (simp add: handle_event_def StreamPacket)
  next
    case (RunTask i)
    show ?thesis
    proof (cases "i < length (tasks (ctx net)) \<and> loop_task (tasks (ctx net) ! i)")
      case True
      have "keeps b (net_ok (core_ext N) 0) (run_task N E (tasks (ctx net) ! i))"
        by (rule run_task_keeps [OF assms(1,2) nth_task_ok [OF I]]) (use True assms(4) packet in \<open>auto simp: RunTask\<close>)
      from tripleD [OF this taken_ok [OF I]] True show ?thesis by (simp add: handle_event_def RunTask)
    qed (use I in \<open>auto simp: handle_event_def RunTask\<close>)
  next
    case (AddNodeCmd h nd)
    from tripleD [OF spawn_open_by_id [of AfterOther b "core_ext N" 0 h "core_ext N" nd None True] I] show ?thesis
      by (simp add: handle_event_def AddNodeCmd add_node_def)
  next
    case (AttachCmd h mode)
    have "ends b (\<lambda>_. net_ok (core_ext N) 0) (attach_network N (env_file E) (env_local E) (env_sample E 0) h mode net)"
      by (rule tripleD [OF attach_triple])
        (use assms AttachCmd free_place in \<open>auto simp: good_env_def net_ok_def\<close>)
    then show ?thesis
      by (cases "attach_network N (env_file E) (env_local E) (env_sample E 0) h mode net"; cases "fst (attach_network N (env_file E) (env_local E) (env_sample E 0) h mode net)")
        (auto simp: handle_event_def AttachCmd)
  next
    case (DetachCmd h)
    have "triple b (\<lambda>net. net_ok (core_ext N) 0 net \<and> (b \<or> resolve_port net h < 255))
        (bind_st (detach_network N h) (\<lambda>_. return_st ())) (\<lambda>_. net_ok (core_ext N) 0)"
      by (rule triple_bind [OF detach_triple [OF assms(2)] triple_return_keep])
    from tripleD [OF this] I assms(4) port_below show ?thesis by (auto simp: handle_event_def DetachCmd)
  next
    case (BroadcastCmd h i pl)
    have "keeps b (net_ok (core_ext N) 0) (send_broadcast N (env_local E) h i pl)"
      by (rule send_broadcast_keeps [OF assms(2)]) (use receiver BroadcastCmd in auto)
    from tripleD [OF this I] show ?thesis by (simp add: handle_event_def BroadcastCmd)
  next
    case (RegisterCmd i)
    with register_ok [OF I] show ?thesis by (simp add: handle_event_def)
  next
    case Timer
    have "keeps b (net_ok (core_ext N) 0) (session_check N (env_clock E) (env_local E) (env_sample E) (env_shuffle E))"
      by (rule session_check_keeps [OF assms(2)]) (use assms(1) in \<open>auto simp: good_env_def\<close>)
    from tripleD [OF this I] show ?thesis by (simp add: handle_event_def Timer)
  next
    case (RecordNotice e)
    have "keeps b (net_ok (core_ext N) 0) (record_event_task N e)"
      by (rule record_event_task_keeps [OF assms(2)])
    from tripleD [OF this I] show ?thesis by (simp add: handle_event_def RecordNotice)
  qed
qed

lemma run_event_ends:
  assumes "good_env E" "net_ok (core_ext N) 0 net" "may_stop N E net ev \<Longrightarrow> b"
  shows "ends b (\<lambda>_. net_ok (core_ext N) 0) (run_event N E ev net)"
  unfolding run_event_def
  using handle_event_ends [OF assms(1), of "at_event N E" b net ev] assms(2,3)
  by (auto simp: may_stop_def udp_may_fail_def)

section \<open>The node\<close>

text \<open>
  The network thread with the worker threads on the record keeper. An event of the loop runs to
  its end before the next one; a worker takes any waiting task and leaves its result in its
  place. What an event reads of the record keeper is its head.
\<close>

definition deliver :: "nat \<Rightarrow> task \<Rightarrow> network \<Rightarrow> network" where
  "deliver i t net = net\<lparr>ctx := (ctx net)\<lparr>tasks := (tasks (ctx net))[i := t]\<rparr>\<rparr>"

text \<open>
  No block hashes to zero, which is the hash of no block, and the height of the chain stays within
  64 bits.
\<close>

fun fits :: "'s ext \<Rightarrow> ('s, 'g) record_keeper \<Rightarrow> task \<Rightarrow> bool" where
  "fits X rk (BlockTask blk _) \<longleftrightarrow> block_calculate_hash X blk \<noteq> U256_ZERO \<and> room_for X (rk_db rk) 1"
| "fits X rk (PkgTask pkg) \<longleftrightarrow> (\<forall>blk \<in> set (fst (package_unpack X pkg)). block_calculate_hash X blk \<noteq> U256_ZERO) \<and>
     room_for X (rk_db rk) (length (fst (package_unpack X pkg)))"
| "fits X rk _ \<longleftrightarrow> True"

inductive node_reaches ::
    "'s net_ext \<Rightarrow> pkg_ext \<Rightarrow> network \<Rightarrow> ('s, 'g) record_keeper \<Rightarrow> network \<Rightarrow> ('s, 'g) record_keeper \<Rightarrow> bool"
  for N Z net0 rk0 where
  start: "node_reaches N Z net0 rk0 net0 rk0"
| event: "node_reaches N Z net0 rk0 net rk \<Longrightarrow> good_env E \<Longrightarrow> env_head E = get_current_block_hash (rk_db rk) \<Longrightarrow>
    run_event N E ev net = (Ok (), net') \<Longrightarrow> node_reaches N Z net0 rk0 net' rk"
| worker: "node_reaches N Z net0 rk0 net rk \<Longrightarrow> i < length (tasks (ctx net)) \<Longrightarrow>
    work (core_ext N) Z now (tasks (ctx net) ! i) rk = Some (t, rk') \<Longrightarrow> came_back t \<Longrightarrow>
    fits (core_ext N) rk (tasks (ctx net) ! i) \<Longrightarrow>
    node_reaches N Z net0 rk0 (deliver i t net) rk'"

lemma work_ok: "work X Z now t rk = Some (t', rk') \<Longrightarrow> task_ok t'"
  by (auto simp: work_def split: task.splits prod.splits)

lemma deliver_ok: "net_ok X k net \<Longrightarrow> task_ok t \<Longrightarrow> net_ok X k (deliver i t net)"
  by (auto simp: net_ok_def deliver_def held_all_def ctx_ok_def dest: set_update_subset_insert [THEN subsetD])

lemma client_run_ok: "client_run N name cfg = Ok net \<Longrightarrow> net_ok X 0 net"
  by (auto simp: client_run_def network_new_def context_new_def net_ok_def ctx_ok_def held_all_def held_opt_def
    sum_list_replicate result_simps)

lemma node_net_ok:
  assumes "node_reaches N Z net0 rk0 net rk" "net_ok (core_ext N) 0 net0"
  shows "net_ok (core_ext N) 0 net"
  using assms
proof induction
  case (event net rk E ev net')
  from run_event_ends [OF event.hyps(2), of N net ev True] event show ?case by simp
next
  case (worker net rk i now t rk')
  then show ?case using deliver_ok work_ok by blast
qed

text \<open>
  C2: from the start of the thread, whatever packets, streams, commands, notices and timer ticks arrive,
  whatever the workers return, and whatever the clock, the resolver and the random numbers say, the
  thread handles every event without a panic, an error or a loop, and its state stays sound, unless one
  of these holds at the event: it is one of the listed fatal ones, the UDP socket refuses some packet, the
  verification of a signature of the packet that the event brings does not answer, or a receiver of
  broadcasts panics on the broadcast that the event brings. Sound means: sessions are filed under their
  addresses, the shards are at their ports, node repositories are sorted and indexed, retries are bounded
  and the count of running chain synchronisations is the number of sessions that hold one.
\<close>

theorem network_thread_survives:
  assumes "client_run N name cfg = Ok net0" "node_reaches N Z net0 rk0 net rk" "good_env E"
  shows "(\<exists>net'. run_event N E ev net = (Ok (), net') \<and> net_ok (core_ext N) 0 net') \<or>
    fatal net ev \<or> (\<exists>out q. \<not> env_udp E out q) \<or>
    (\<exists>q. event_packet net ev = Some q \<and> bad_packet (at_event N E) q) \<or>
    (\<exists>h i pl. ev = BroadcastCmd h i pl \<and> env_receive E i h pl = None)"
proof (cases "may_stop N E net ev")
  case False
  have "net_ok (core_ext N) 0 net" by (rule node_net_ok [OF assms(2) client_run_ok [OF assms(1)]])
  from ends_total [OF run_event_ends [OF assms(3) this, of ev False]] False show ?thesis by auto
qed (auto simp: may_stop_def)

section \<open>Forging\<close>

text \<open>The sessions of all shards that hold a chain synchronisation.\<close>

definition syncing :: "network \<Rightarrow> session list" where
  "syncing net = filter (\<lambda>s. \<exists>j n t. current_job s = Some (j, n, t) \<and> is_sync (job_data j))
     (map snd (concat (map sessions (attached net))))"

lemma held_count: "sum_list (map (\<lambda>(_, s). held s) xs) =
    of_nat (length (filter (\<lambda>s. \<exists>j n t. current_job s = Some (j, n, t) \<and> is_sync (job_data j)) (map snd xs)))"
proof (induction xs)
  case (Cons x xs)
  moreover have "held (snd x) = (if \<exists>j n t. current_job (snd x) = Some (j, n, t) \<and> is_sync (job_data j) then 1 else 0)"
    by (auto simp: held_def owed_def split: option.split)
  ultimately show ?case by (simp add: split_def)
qed simp

lemma held_all_count:
  assumes "length (shards net) = 255"
  shows "held_all net = of_nat (length (syncing net))"
proof -
  have "sum_list (map held_opt shs) = sum_list (map (\<lambda>(_, s). held s) (concat (map sessions (List.map_filter id shs))))" for shs
    by (induction shs) (auto simp: held_opt_def held_in_def List.map_filter_simps split: option.split)
  then show ?thesis using assms by (simp add: held_all_def held_count syncing_def attached_def)
qed

lemma position_find:
  "position P xs = None \<Longrightarrow> List.find P xs = None" "position P xs = Some i \<Longrightarrow> List.find P xs = Some (xs ! i)"
  by (induction xs arbitrary: i) (auto split: if_splits)

lemma find_attached: "List.find (\<lambda>sh. case sh of Some sh \<Rightarrow> P sh | None \<Rightarrow> False) xs = map_option Some (List.find P (List.map_filter id xs))"
  by (induction xs) (auto simp: List.map_filter_simps split: option.split)

lemma get_shard_by_id_find:
  assumes "net_ok X k net"
  shows "get_shard_by_id net h = Ok (List.find (\<lambda>sh. sh_network_id sh = h) (attached net))"
proof -
  let ?P = "\<lambda>sh. case sh of Some sh \<Rightarrow> sh_network_id sh = h | None \<Rightarrow> False"
  have all: "take 255 (shards net) = shards net" using assms by (simp add: net_ok_def)
  have f: "List.find ?P (shards net) = map_option Some (List.find (\<lambda>sh. sh_network_id sh = h) (attached net))"
    by (simp add: attached_def find_attached all)
  show ?thesis
  proof (cases "position ?P (shards net)")
    case None
    then show ?thesis using f position_find(1) [OF None] by (simp add: get_shard_by_id_def resolve_port_def all)
  next
    case (Some i)
    have "i < 255" using position_Some [OF Some] assms by (simp add: net_ok_def)
    then have "unat (of_nat i :: u8) = i" "(of_nat i :: u8) < 255"
      by (simp_all add: unat_of_nat take_bit_nat_eq_self port_index)
    moreover have "List.find (\<lambda>sh. sh_network_id sh = h) (attached net) = shards net ! i"
      using f position_find(2) [OF Some] position_Some [OF Some]
      by (cases "List.find (\<lambda>sh. sh_network_id sh = h) (attached net)") (auto split: option.splits)
    ultimately show ?thesis
      by (simp add: get_shard_by_id_def resolve_port_def all Some get_shard_ok [OF assms] Let_def)
  qed
qed

text \<open>
  C6: in every reached state \<open>should_forge\<close> answers, and the answer is yes exactly when the first shard
  attached for the network has an introduced session and no session of any shard is waiting for blocks:
  the counter behind it never goes wrong over creating, cloning, handing over, retrying and
  dropping jobs, as long as fewer than \<open>2 ^ 64\<close> sessions are open.
\<close>

theorem should_forge_exact:
  assumes "client_run N name cfg = Ok net0" "node_reaches N Z net0 rk0 net rk" "length (syncing net) < 2 ^ 64"
  shows "should_forge net h = Ok ((\<exists>sh. List.find (\<lambda>sh. sh_network_id sh = h) (attached net) = Some sh \<and>
      (\<exists>s \<in> snd ` set (sessions sh). is_introduced s)) \<and> syncing net = [])"
proof -
  have ok: "net_ok (core_ext N) 0 net" by (rule node_net_ok [OF assms(2) client_run_ok [OF assms(1)]])
  then have "active_syncs (ctx net) = of_nat (length (syncing net))" by (simp add: held_all_count net_ok_def)
  then have "chain_sync_exists (active_syncs (ctx net)) \<longleftrightarrow> syncing net \<noteq> []"
    using assms(3) by (auto simp: chain_sync_exists_def word_less_nat_alt unat_of_nat take_bit_nat_eq_self)
  moreover have "0 < get_session_count sh \<longleftrightarrow> (\<exists>s \<in> snd ` set (sessions sh). is_introduced s)" for sh
    by (auto simp: get_session_count_def filter_empty_conv)
  ultimately show ?thesis
    by (auto simp: should_forge_def get_shard_by_id_find [OF ok] split: option.split)
qed

section \<open>Ports\<close>

lemma free_port_full:
  assumes "length shs = 255" "cur < 255" "None \<notin> set shs"
  shows "free_port shs cur = None"
proof (rule ccontr)
  assume "free_port shs cur \<noteq> None"
  then obtain r where "free_port shs cur = Some r" by blast
  moreover have "free_port shs cur = Some r \<Longrightarrow> length shs = 255 \<longrightarrow> cur < 255 \<longrightarrow> None \<in> set shs" for shs cur r
  proof (rule free_port.raw_induct [of "\<lambda>shs cur r. length shs = 255 \<longrightarrow> cur < 255 \<longrightarrow> None \<in> set shs"])
    fix f :: "shard_info option list \<Rightarrow> u8 \<Rightarrow> (u8 \<times> u8, io_error) result option" and shs cur r
    assume IH: "\<And>shs cur r. f shs cur = Some r \<Longrightarrow> length shs = 255 \<longrightarrow> cur < 255 \<longrightarrow> None \<in> set shs"
      and body: "(if unat cur < length shs
        then if shs ! unat cur = None then Some (Ok (cur, (cur + 1) mod 255)) else f shs ((cur + 1) mod 255)
        else Some Panic) = Some r"
    have "(cur + 1) mod 255 < 255" if "cur < 255" using next_port [OF that] by (simp add: port_index)
    moreover have "None \<in> set shs" if "unat cur < length shs" "shs ! unat cur = None"
      using nth_mem [OF that(1)] that(2) by simp
    ultimately show "length shs = 255 \<longrightarrow> cur < 255 \<longrightarrow> None \<in> set shs"
      using body IH [of shs "(cur + 1) mod 255" r] by (simp add: port_index split: if_splits)
  qed
  ultimately show False using assms by blast
qed

lemma free_port_first:
  "length shs = 255 \<Longrightarrow> cur < 255 \<Longrightarrow> shs ! ((unat cur + d) mod 255) = None \<Longrightarrow>
    (\<And>e. e < d \<Longrightarrow> shs ! ((unat cur + e) mod 255) \<noteq> None) \<Longrightarrow>
    free_port shs cur = Some (Ok (of_nat ((unat cur + d) mod 255), of_nat ((unat cur + d + 1) mod 255)))"
proof (induction d arbitrary: cur)
  case 0
  have n: "unat ((cur + 1) mod 255) = (unat cur + 1) mod 255" using next_port [OF "0.prems"(2)] .
  have "of_nat ((unat cur + 1) mod 255) = (cur + 1) mod 255" unfolding n [symmetric] by simp
  moreover have "unat cur < 255" using "0.prems"(2) by (simp add: port_index)
  ultimately show ?case using 0 by (subst free_port.simps) (simp add: mod_less)
next
  case (Suc d)
  have n: "unat ((cur + 1) mod 255) = (unat cur + 1) mod 255" "(cur + 1) mod 255 < 255"
    using next_port [OF Suc.prems(2)] by (simp_all add: port_index)
  have shift: "(unat ((cur + 1) mod 255) + e) mod 255 = (unat cur + Suc e) mod 255" for e
    by (simp add: n(1) mod_add_left_eq)
  have taken: "unat cur < 255" "shs ! unat cur \<noteq> None"
    using Suc.prems(2) Suc.prems(4) [of 0] by (auto simp: port_index)
  have "free_port shs ((cur + 1) mod 255) =
      Some (Ok (of_nat ((unat cur + Suc d) mod 255), of_nat ((unat cur + Suc d + 1) mod 255)))"
  proof -
    have "shs ! ((unat ((cur + 1) mod 255) + e) mod 255) \<noteq> None" if "e < d" for e
      using Suc.prems(4) [of "Suc e"] that by (simp add: shift)
    from Suc.IH [OF Suc.prems(1) n(2) _ this] Suc.prems(3) shift [of "d + 1"] show ?thesis by (simp add: shift)
  qed
  then show ?case using taken Suc.prems(1) by (subst free_port.simps) auto
qed

text \<open>
  C23: the search for a port ends exactly when a port is free. It then returns the first free port
  from the last one on, round the table, and starts the next search behind it; with all
  ports taken the thread that attaches a network never returns.
\<close>

theorem port_search_terminates:
  assumes "length shs = 255" "cur < 255"
  shows "(None \<in> set shs \<longrightarrow> (\<exists>d < 255. shs ! ((unat cur + d) mod 255) = None \<and>
      (\<forall>e < d. shs ! ((unat cur + e) mod 255) \<noteq> None) \<and>
      free_port shs cur = Some (Ok (of_nat ((unat cur + d) mod 255), of_nat ((unat cur + d + 1) mod 255))))) \<and>
    (None \<notin> set shs \<longrightarrow> free_port shs cur = None)"
proof (intro conjI impI)
  assume "None \<in> set shs"
  then obtain i where i: "i < 255" "shs ! i = None" using assms(1) by (metis in_set_conv_nth)
  let ?Q = "\<lambda>d. shs ! ((unat cur + d) mod 255) = None"
  have c: "unat cur < 255" using assms(2) by (simp add: port_index)
  have "?Q ((i + 255 - unat cur) mod 255)" using i c by (simp add: mod_add_right_eq)
  then have w: "?Q (LEAST d. ?Q d)" "(LEAST d. ?Q d) \<le> (i + 255 - unat cur) mod 255" by (rule LeastI, rule Least_le)
  have "(i + 255 - unat cur) mod 255 < 255" by simp
  with w free_port_first [OF assms w(1)] not_less_Least [of _ ?Q]
  show "\<exists>d < 255. ?Q d \<and> (\<forall>e < d. \<not> ?Q e) \<and>
      free_port shs cur = Some (Ok (of_nat ((unat cur + d) mod 255), of_nat ((unat cur + d + 1) mod 255)))"
    by (intro exI [of _ "LEAST d. ?Q d"]) auto
qed (rule free_port_full [OF assms])

section \<open>The fatal events\<close>

lemma data_missing_panics:
  assumes "get_shard net p = Ok (Some sh)" "hm_get (sessions sh) a = Some s" "sess_done s = None" "is_introduced s"
    and "msg pkt = DataError (HashesNotFound hs)"
  shows "fst (process_packet N now f p pkt a net) = Panic"
proof -
  have "recv N now infos pkt (s, c) = (Panic, (s, c))" for infos c
    using assms(3-5) by (simp add: recv_def handle_def reaction_def bind_st_def)
  then have r: "recv_packet N now pkt a (sh, ctx net) = (Panic, (sh\<lparr>sessions := hm_insert a s (sessions sh)\<rparr>, ctx net))"
    using assms(2) by (simp add: recv_packet_def with_session_def)
  show ?thesis
    using assms(1,5) by (simp add: process_packet_def at_port_def r bind_st_def)
qed

lemma session_reacts:
  assumes "get_shard net p = Ok (Some sh)" "hm_get (sessions sh) a = Some s" "sess_done s = None" "is_introduced s"
    and "\<And>h nd pt. msg pkt \<noteq> Introduce h nd pt"
    and "fst (reaction N now (get_session_info sh) pkt s (s, ctx net)) = Panic"
  shows "fst (process_packet N now f p pkt a net) = Panic"
proof -
  obtain x where "reaction N now (get_session_info sh) pkt s (s, ctx net) = (Panic, x)"
    using assms(6) by (metis prod.collapse)
  then have h: "handle N now (get_session_info sh) pkt (s, ctx net) = (Panic, x)"
    by (simp add: handle_def bind_st_def)
  have "recv N now (get_session_info sh) pkt (s, ctx net) = (Panic, x)"
    using assms(3-5) h by (cases "msg pkt") (simp_all add: recv_def bind_st_def)
  then have "fst (recv_packet N now pkt a (sh, ctx net)) = Panic"
    using assms(2) by (cases x) (simp add: recv_packet_def with_session_def)
  then have "fst (at_port p (recv_packet N now pkt a) net) = Panic"
    using assms(1) by (cases "recv_packet N now pkt a (sh, ctx net)") (simp add: at_port_def)
  then show ?thesis
    using assms(5) by (cases "at_port p (recv_packet N now pkt a) net"; cases "msg pkt")
      (auto simp: process_packet_def bind_st_def)
qed

lemma broadcast_panics:
  assumes "msg pkt = Broadcast i pl" "broadcast_receivers c ! unat i"
    and "hm_get (received_broadcasts c) (hash_bytes (core_ext N) pl) = None"
    and "receiver_answer N i (sess_network_id s) pl = None"
  shows "fst (reaction N now infos pkt s (s, c)) = Panic"
  using assms by (simp add: reaction_def on_context_def handle_broadcast_def bind_st_def Let_def)

lemma refused_reply_panics:
  assumes "msg pkt = Ping t" "sink s = None" "udp_out c = Some out" "\<And>q. \<not> udp_accepts N out q"
  shows "fst (reaction N now infos pkt s (s, c)) = Panic"
  using assms by (simp add: reaction_def send_reply_def send_packet_def send_udp_def on_context_def
    udp_send_packets_def bind_st_def Let_def)

lemma fatal_events:
  assumes "net_ok X 0 net" "env_file E \<noteq> Panic" "env_file E \<noteq> Diverge"
  shows "p < 255 \<and> shards net ! unat p = Some sh \<and> hm_get (sessions sh) a = Some s \<and> sess_done s = None \<and>
      is_introduced s \<and> msg pkt = DataError (HashesNotFound hs) \<longrightarrow>
      fst (run_event N E (Datagram (a, \<lparr>raw_port = p, payload = pkt\<rparr>)) net) = Panic"
    and "resolve_port net h = 255 \<and> msg pkt = Introduce h nd pt \<longrightarrow> fst (run_event N E (TcpFirst pkt) net) = Panic"
    and "i < length (tasks (ctx net)) \<and> tasks (ctx net) ! i = ImportDone (Ok (pkg, n)) to \<and>
      pkg_blocks pkg = [] \<and> pkg_txns pkg \<noteq> [] \<longrightarrow> fst (run_event N E (RunTask i) net) = Panic"
    and "resolve_port net h = 255 \<longrightarrow> fst (run_event N E (DetachCmd h) net) = Panic"
    and "None \<notin> set (shards net) \<longrightarrow> fst (run_event N E (AttachCmd h mode) net) = Diverge"
    and "p < 255 \<and> shards net ! unat p = Some sh \<and> hm_get (sessions sh) a = Some s \<and> sess_done s = None \<and>
      is_introduced s \<and> msg pkt = Broadcast j pl \<and> broadcast_receivers (ctx net) ! unat j \<and>
      hm_get (received_broadcasts (ctx net)) (hash_bytes (core_ext N) pl) = None \<and>
      env_receive E j (sess_network_id s) pl = None \<longrightarrow>
      fst (run_event N E (Datagram (a, \<lparr>raw_port = p, payload = pkt\<rparr>)) net) = Panic"
    and "p < 255 \<and> shards net ! unat p = Some sh \<and> hm_get (sessions sh) a = Some s \<and> sess_done s = None \<and>
      is_introduced s \<and> msg pkt = Ping t \<and> sink s = None \<and> (\<forall>out q. \<not> env_udp E out q) \<longrightarrow>
      fst (run_event N E (Datagram (a, \<lparr>raw_port = p, payload = pkt\<rparr>)) net) = Panic"
proof -
  have len: "length (shards net) = 255" "curr_port net < 255" "\<not> 128 < num_shards net"
    using assms(1) by (simp_all add: net_ok_def)
  have session: "fst (run_event N E (Datagram (a, \<lparr>raw_port = p, payload = pkt\<rparr>)) net) = Panic"
    if "p < 255" "shards net ! unat p = Some sh" "hm_get (sessions sh) a = Some s" "sess_done s = None" "is_introduced s"
      "\<And>h nd pt. msg pkt \<noteq> Introduce h nd pt"
      "fst (reaction (at_event N E) (env_local E) (get_session_info sh) pkt s (s, ctx net)) = Panic"
    using session_reacts [of net p sh a s pkt "at_event N E" "env_local E"] that get_shard_ok [OF assms(1), of p]
    by (auto simp: run_event_def handle_event_def udp_process_packet_def bind_st_def read_st_def)
  show "p < 255 \<and> shards net ! unat p = Some sh \<and> hm_get (sessions sh) a = Some s \<and> sess_done s = None \<and>
      is_introduced s \<and> msg pkt = Broadcast j pl \<and> broadcast_receivers (ctx net) ! unat j \<and>
      hm_get (received_broadcasts (ctx net)) (hash_bytes (core_ext N) pl) = None \<and>
      env_receive E j (sess_network_id s) pl = None \<longrightarrow>
      fst (run_event N E (Datagram (a, \<lparr>raw_port = p, payload = pkt\<rparr>)) net) = Panic"
    using session broadcast_panics [of pkt j pl "ctx net" "at_event N E" s] by auto
  have "udp_out (ctx net) \<noteq> None" using assms(1) by (simp add: net_ok_def ctx_ok_def)
  then show "p < 255 \<and> shards net ! unat p = Some sh \<and> hm_get (sessions sh) a = Some s \<and> sess_done s = None \<and>
      is_introduced s \<and> msg pkt = Ping t \<and> sink s = None \<and> (\<forall>out q. \<not> env_udp E out q) \<longrightarrow>
      fst (run_event N E (Datagram (a, \<lparr>raw_port = p, payload = pkt\<rparr>)) net) = Panic"
    using session refused_reply_panics [of pkt t s "ctx net" _ "at_event N E"] by auto
  show "p < 255 \<and> shards net ! unat p = Some sh \<and> hm_get (sessions sh) a = Some s \<and> sess_done s = None \<and>
      is_introduced s \<and> msg pkt = DataError (HashesNotFound hs) \<longrightarrow>
      fst (run_event N E (Datagram (a, \<lparr>raw_port = p, payload = pkt\<rparr>)) net) = Panic"
    using data_missing_panics [of net p sh a s pkt hs] get_shard_ok [OF assms(1), of p]
    by (auto simp: run_event_def handle_event_def udp_process_packet_def bind_st_def read_st_def)
  have no: "get_shard net 255 = Panic" using len(1) by (simp add: get_shard_def)
  then show "resolve_port net h = 255 \<and> msg pkt = Introduce h nd pt \<longrightarrow> fst (run_event N E (TcpFirst pkt) net) = Panic"
    and "resolve_port net h = 255 \<longrightarrow> fst (run_event N E (DetachCmd h) net) = Panic"
    by (auto simp: run_event_def handle_event_def tcp_process_packet_def detach_network_def detach_network_port_def bind_st_def read_st_def)
  show "i < length (tasks (ctx net)) \<and> tasks (ctx net) ! i = ImportDone (Ok (pkg, n)) to \<and>
      pkg_blocks pkg = [] \<and> pkg_txns pkg \<noteq> [] \<longrightarrow> fst (run_event N E (RunTask i) net) = Panic"
    by (auto simp: run_event_def handle_event_def run_task_def import_done_def package_is_empty_def package_last_hash_def bind_st_def read_st_def)
  obtain repo where "load_node_repo (at_event N E) (env_file E) (ctx net) = Ok repo" using load_node_repo_ok [OF assms(2,3)] by blast
  then show "None \<notin> set (shards net) \<longrightarrow> fst (run_event N E (AttachCmd h mode) net) = Diverge"
    using free_port_full [OF len(1,2)] len(3) by (auto simp: run_event_def handle_event_def attach_network_def bind_st_def read_st_def)
qed

text \<open>
  C22: the fatal events do stop the thread. Any peer with an open session can stop it with the message
  that data was not found, any host with the first packet of a TCP connection that names an unknown network,
  and a peer that answers a chain request can with a package of transactions and no blocks; the program itself
  does by detaching a network that is not attached and, for good, by attaching one more network
  when all 255 ports are taken. So do the faults of the outside world: a peer stops the thread with a
  broadcast on which the registered receiver panics, and a peer without a TCP stream with a ping
  when the UDP socket refuses the answer.
\<close>

theorem fatal_events_stop_the_thread:
  assumes "net_ok X 0 net" "env_file E \<noteq> Panic" "env_file E \<noteq> Diverge"
  shows "(p < 255 \<and> shards net ! unat p = Some sh \<and> hm_get (sessions sh) a = Some s \<and> sess_done s = None \<and>
      is_introduced s \<and> msg pkt = DataError (HashesNotFound hs) \<longrightarrow>
      fst (run_event N E (Datagram (a, \<lparr>raw_port = p, payload = pkt\<rparr>)) net) = Panic) \<and>
    (resolve_port net h = 255 \<and> msg pkt = Introduce h nd pt \<longrightarrow> fst (run_event N E (TcpFirst pkt) net) = Panic) \<and>
    (i < length (tasks (ctx net)) \<and> tasks (ctx net) ! i = ImportDone (Ok (pkg, n)) to \<and>
      pkg_blocks pkg = [] \<and> pkg_txns pkg \<noteq> [] \<longrightarrow> fst (run_event N E (RunTask i) net) = Panic) \<and>
    (resolve_port net h = 255 \<longrightarrow> fst (run_event N E (DetachCmd h) net) = Panic) \<and>
    (None \<notin> set (shards net) \<longrightarrow> fst (run_event N E (AttachCmd h mode) net) = Diverge) \<and>
    (p < 255 \<and> shards net ! unat p = Some sh \<and> hm_get (sessions sh) a = Some s \<and> sess_done s = None \<and>
      is_introduced s \<and> msg pkt = Broadcast j pl \<and> broadcast_receivers (ctx net) ! unat j \<and>
      hm_get (received_broadcasts (ctx net)) (hash_bytes (core_ext N) pl) = None \<and>
      env_receive E j (sess_network_id s) pl = None \<longrightarrow>
      fst (run_event N E (Datagram (a, \<lparr>raw_port = p, payload = pkt\<rparr>)) net) = Panic) \<and>
    (p < 255 \<and> shards net ! unat p = Some sh \<and> hm_get (sessions sh) a = Some s \<and> sess_done s = None \<and>
      is_introduced s \<and> msg pkt = Ping t \<and> sink s = None \<and> (\<forall>out q. \<not> env_udp E out q) \<longrightarrow>
      fst (run_event N E (Datagram (a, \<lparr>raw_port = p, payload = pkt\<rparr>)) net) = Panic)"
  by (intro conjI fatal_events [OF assms])

end
