(* ===== verification/Net_Peers.thy ===== *)
theory Net_Peers
  imports Net_Events
begin

text \<open>
  What a node promises about its peers: while a datagram is handled, nobody but the peer itself can
  redirect an introduced session, though a request for a new session can replace it afterwards; a
  silent peer is given up after a bounded number of checks; and the frames of a TCP stream carry the
  packets that were sent.
\<close>

section \<open>The identity of a session\<close>

text \<open>A session with a given peer, and the same in the maps of a shard and of the network.\<close>

definition peer_is :: "node \<Rightarrow> u8 \<Rightarrow> sock_addr \<Rightarrow> session \<times> net_context \<Rightarrow> bool" where
  "peer_is nd pt x = (\<lambda>(s, c). remote_peer s = nd \<and> remote_port s = pt \<and> remote_addr s = x \<and> udp_out c \<noteq> None)"

definition peer_in :: "node \<Rightarrow> u8 \<Rightarrow> sock_addr \<Rightarrow> shard_info \<times> net_context \<Rightarrow> bool" where
  "peer_in nd pt x = (\<lambda>(sh, c). \<exists>s. hm_get (sessions sh) x = Some s \<and> peer_is nd pt x (s, c))"

definition session_at :: "network \<Rightarrow> u8 \<Rightarrow> sock_addr \<Rightarrow> session option" where
  "session_at net p x =
     (if unat p < length (shards net)
      then case shards net ! unat p of Some sh \<Rightarrow> hm_get (sessions sh) x | None \<Rightarrow> None
      else None)"

definition peer_of :: "node \<Rightarrow> u8 \<Rightarrow> u8 \<Rightarrow> sock_addr \<Rightarrow> network \<Rightarrow> bool" where
  "peer_of nd pt p x net \<longleftrightarrow> (\<exists>s. session_at net p x = Some s \<and> peer_is nd pt x (s, ctx net))"

lemma peer_sends: "sends_freely (peer_is nd pt x)"
  by (auto simp: sends_freely_def peer_is_def)

lemma excuse_all: "triple b P m Q \<Longrightarrow> triple True P m Q"
  by (rule excuse_weaken) simp_all

lemma ends_partial: "(\<And>x t. r = (Ok x, t) \<Longrightarrow> Q x t) \<Longrightarrow> ends True Q r"
  by (cases r; cases "fst r") auto

lemmas peer_sending = sending_keeps [OF peer_sends, THEN excuse_all]

lemma peer_on_session:
  "(\<And>s. remote_peer (f s) = remote_peer s \<and> remote_port (f s) = remote_port s \<and> remote_addr (f s) = remote_addr s) \<Longrightarrow>
    keeps b (peer_is nd pt x) (on_session f)"
  by (rule keeps_on_session) (simp add: peer_is_def)

lemma peer_spawn: "keeps b (peer_is nd pt x) (spawn_st t)"
  by (auto simp: triple_def spawn_st_def on_context_def spawn_def peer_is_def)

lemma peer_read: "keeps True I (read_st f)"
  by (rule triple_read_any) auto

lemma peer_broadcast: "keeps True (peer_is nd pt x) (on_context (handle_broadcast N now i n pl))"
  by (auto simp: triple_def on_context_def handle_broadcast_def Let_def peer_is_def split: option.split)

lemma recv_ping_peer:
  "remote_peer (recv_ping t s) = remote_peer s \<and> remote_port (recv_ping t s) = remote_port s \<and>
    remote_addr (recv_ping t s) = remote_addr s"
  by (auto simp: recv_ping_def split: option.split)

lemma peer_mark_abuse: "keeps True (peer_is nd pt x) (mark_abuse N)"
proof -
  have "keeps True (peer_is nd pt x) (bind_st (send N (Bye Abuse) False) (\<lambda>_. on_session (\<lambda>s. s\<lparr>sess_done := Some Abuse\<rparr>)))"
    by (intro keep_bind peer_sending peer_on_session) simp
  from tripleD [OF this] have "keeps True (peer_is nd pt x) (\<lambda>(s, c). if ucast MAX_ABUSES < abuses s
      then bind_st (send N (Bye Abuse) False) (\<lambda>_. on_session (\<lambda>s. s\<lparr>sess_done := Some Abuse\<rparr>)) (s, c)
      else (Ok (), (s, c)))"
    by (intro triple_pairI) auto
  then show ?thesis unfolding mark_abuse_def by (intro keep_bind peer_on_session) simp_all
qed

lemmas peer_steps = peer_sending peer_spawn peer_read peer_broadcast peer_mark_abuse triple_return_keep

lemma peer_reaction: "keeps True (peer_is nd pt x) (reaction N now infos p s)"
proof (cases "msg p")
  case (DataError e)
  then show ?thesis by (cases e) (simp_all add: reaction_def triple_def)
qed (simp_all add: reaction_def peer_steps keep_bind peer_on_session recv_ping_peer)

lemma peer_handle: "keeps True (peer_is nd pt x) (handle N now infos p)"
proof (rule triple_pairI)
  fix s c assume I: "peer_is nd pt x (s, c)"
  have "keeps True (peer_is nd pt x) (bind_st (reaction N now infos p s) (\<lambda>_. return_st r))" for r :: "unit option"
    by (intro keep_bind peer_reaction triple_return_keep)
  from tripleD [OF this I] show "ends True (\<lambda>_. peer_is nd pt x) (handle N now infos p (s, c))" by (simp add: handle_def)
qed

lemma peer_recv: "keeps True (peer_is nd pt x) (recv N now infos p)"
proof (rule triple_pairI)
  fix s c assume I: "peer_is nd pt x (s, c)"
  have "keeps True (peer_is nd pt x) (\<lambda>(s, c). case current_job s of
            Some (job, n, t) \<Rightarrow>
              if n = seq p then (Ok (Some job), (s\<lparr>current_job := None\<rparr>, c)) else (Ok None, (s, c))
          | None \<Rightarrow> (Ok None, (s, c)))"
    by (auto simp: triple_def peer_is_def split: option.split)
  with peer_handle have "keeps True (peer_is nd pt x) (bind_st (handle N now infos p) (\<lambda>_ (s, c). case current_job s of
            Some (job, n, t) \<Rightarrow>
              if n = seq p then (Ok (Some job), (s\<lparr>current_job := None\<rparr>, c)) else (Ok None, (s, c))
          | None \<Rightarrow> (Ok None, (s, c))))" by (rule keep_bind)
  from tripleD [OF this I] I show "ends True (\<lambda>_. peer_is nd pt x) (recv N now infos p (s, c))"
    by (auto simp: recv_def peer_is_def split: message.split)
qed

lemma peer_assign: "keeps True (peer_is nd pt x) (sess_assign_job N now job)"
proof (rule triple_pairI)
  fix s c assume I: "peer_is nd pt x (s, c)"
  have "keeps True (peer_is nd pt x) (bind_st (send N (make_req (core_ext N) job) False)
       (\<lambda>n (s, c). if current_job s \<noteq> None then (Ok False, (s, c))
          else case job_clone job (active_syncs c) of
            (j, active) \<Rightarrow> (Ok True, (s\<lparr>current_job := Some (j, n, now)\<rparr>, c\<lparr>active_syncs := active\<rparr>))))"
    by (rule keep_bind [OF peer_sending(1)]) (auto simp: triple_def peer_is_def job_clone_def)
  from tripleD [OF this I] I show "ends True (\<lambda>_. peer_is nd pt x) (sess_assign_job N now job (s, c))"
    by (simp add: sess_assign_job_def)
qed

section \<open>In a shard\<close>

lemma peer_with_session:
  assumes "\<And>nd pt x. keeps True (peer_is nd pt x) m"
  shows "keeps True (peer_in nd pt x) (with_session a m)"
proof (rule triple_pairI)
  fix sh c assume I: "peer_in nd pt x (sh, c)"
  then obtain s where s: "hm_get (sessions sh) x = Some s" "peer_is nd pt x (s, c)" by (auto simp: peer_in_def)
  show "ends True (\<lambda>_. peer_in nd pt x) (with_session a m (sh, c))"
  proof (cases "hm_get (sessions sh) a")
    case (Some t)
    obtain r t' c' where r: "m (t, c) = (r, (t', c'))" by (metis surj_pair)
    have t: "peer_is (remote_peer t) (remote_port t) (remote_addr t) (t, c)" using s by (simp add: peer_is_def)
    from tripleD [OF assms this] r have "udp_out c' \<noteq> None" if "is_ok r" using that by (cases r) (auto simp: peer_is_def)
    moreover have "peer_is nd pt x (t', c')" if "is_ok r" "a = x"
      using that tripleD [OF assms s(2)] s Some r by (cases r) auto
    ultimately show ?thesis using s
      by (cases r) (auto simp: with_session_def Some r peer_in_def peer_is_def update_conv)
  qed (simp add: with_session_def)
qed

lemma peer_try_assign: "keeps True (peer_in nd pt x) (try_assign N now job as)"
  by (induction as) (auto simp del: return_st_simps intro!: keep_bind peer_with_session peer_assign triple_return_keep)

lemma peer_assign_job: "keeps True (peer_in nd pt x) (assign_job N now f job)"
proof (rule triple_pairI)
  fix sh c assume I: "peer_in nd pt x (sh, c)"
  have "keeps True (peer_in nd pt x) (bind_st (try_assign N now job (f (map fst (sessions sh))))
       (\<lambda>taken (sh, c). (Ok taken, (sh, drop_job job c))))"
    by (rule keep_bind [OF peer_try_assign]) (auto simp: triple_def peer_in_def peer_is_def drop_job_def)
  from tripleD [OF this I] show "ends True (\<lambda>_. peer_in nd pt x) (assign_job N now f job (sh, c))"
    by (simp add: assign_job_def)
qed

lemma peer_recv_packet: "keeps True (peer_in nd pt x) (recv_packet N now p a)"
proof (rule triple_pairI)
  fix sh c assume I: "peer_in nd pt x (sh, c)"
  have "keeps True (peer_in nd pt x) (with_session a (recv N now infos p))" for infos
    by (rule peer_with_session [OF peer_recv])
  from tripleD [OF this I] I show "ends True (\<lambda>_. peer_in nd pt x) (recv_packet N now p a (sh, c))"
    by (auto simp: recv_packet_def)
qed

section \<open>Introductions\<close>

text \<open>An introduced session ignores an introduction that its peer did not sign.\<close>

lemma unsigned_introduction:
  assumes "peer_is nd pt x (s, c)" "pt \<noteq> 255" "check_sig N p nd \<noteq> (Ok True :: (bool, io_error) result)"
  shows "ends True (\<lambda>_. peer_is nd pt x) (handle_introduce N p a (s, c))"
proof -
  have s: "remote_peer s = nd" "is_introduced s" using assms(1,2) by (auto simp: peer_is_def is_introduced_def)
  then show ?thesis
    using assms by (cases "check_sig N p nd :: (bool, io_error) result")
      (auto simp: handle_introduce_def bind_st_def read_st_def split: message.split)
qed

definition filed_in :: "sock_addr set \<Rightarrow> session \<times> net_context \<Rightarrow> bool" where
  "filed_in A = (\<lambda>(s, c). remote_addr s \<in> A \<and> udp_out c \<noteq> None)"

lemma filed_sends: "sends_freely (filed_in A)"
  by (auto simp: sends_freely_def filed_in_def)

lemmas filed_sending = sending_keeps [OF filed_sends, THEN excuse_all]

text \<open>An introduction moves a session at most to the address that it came from.\<close>

lemma introduction_moves:
  assumes "filed_in A (s, c)" "a \<in> A"
  shows "ends True (\<lambda>_. filed_in A) (handle_introduce N p a (s, c))"
proof -
  have took: "keeps True (filed_in A) (take_introduction nd pt)" for nd pt
    by (auto simp: triple_def take_introduction_def filed_in_def Let_def)
  then have one: "keeps True (filed_in A) (bind_st (take_introduction nd pt) (\<lambda>_. send_introduce N))" for nd pt
    by (intro keep_bind filed_sending)
  have moved: "keeps True (filed_in A) (on_session (\<lambda>s. s\<lparr>remote_addr := a\<rparr>))"
    using assms(2) by (intro keeps_on_session) (simp add: filed_in_def)
  have two: "keeps True (filed_in A) (bind_st (read_st (\<lambda>_. check_sig N p (remote_peer s)))
      (\<lambda>valid. if \<not> valid then return_st ()
         else bind_st (on_session (\<lambda>s. s\<lparr>remote_addr := a\<rparr>)) (\<lambda>_. take_introduction nd pt)))" for nd pt
    by (intro keep_bind keep_if peer_read triple_return_keep moved took)
  show ?thesis
    using assms(1) tripleD [OF one assms(1)] tripleD [OF two assms(1)]
    by (auto simp: handle_introduce_def split: message.split)
qed

lemma drop_keeps_socket [simp]: "udp_out (session_drop s c) = udp_out c"
  by (auto simp: session_drop_def split: option.split)

lemma waiting_sent:
  assumes "\<And>m. keeps True I (send N m True)" "ends True (\<lambda>_. I) (handle_introduce N p a sc)"
  shows "ends True (\<lambda>_. I) (bind_st (handle_introduce N p a) (\<lambda>_. for_st (\<lambda>m. bind_st (send N m True) (\<lambda>_. return_st ())) ms) sc)"
proof -
  have "keeps True I (for_st (\<lambda>m. bind_st (send N m True) (\<lambda>_. return_st ())) ms)"
    by (intro keep_for keep_bind assms(1) triple_return_keep)
  from tripleD [OF this] assms(2) show ?thesis
    by (cases "handle_introduce N p a sc"; cases "fst (handle_introduce N p a sc)") (auto simp: bind_st_def)
qed

lemma peer_introduce:
  assumes I: "peer_in nd pt x (sh, c)" and filed: "\<forall>(y, s) \<in> set (sessions sh). remote_addr s = y"
    and "pt \<noteq> 255" "check_sig N p nd \<noteq> (Ok True :: (bool, io_error) result)"
  shows "ends True (\<lambda>_. peer_in nd pt x) (process_introduce N p a nd' (sh, c))"
proof (cases "find_session (core_ext N) sh a (get_hash_id (core_ext N) nd')")
  case None
  then show ?thesis using I by (simp add: process_introduce_def)
next
  case (Some y)
  from I obtain s where s: "hm_get (sessions sh) x = Some s" "peer_is nd pt x (s, c)" by (auto simp: peer_in_def)
  show ?thesis
  proof (cases "hm_get (sessions sh) y")
    case None
    then show ?thesis using Some by (simp add: process_introduce_def)
  next
    case y: (Some t)
    let ?run = "bind_st (handle_introduce N p a)
      (\<lambda>_. for_st (\<lambda>m. bind_st (send N m True) (\<lambda>_. return_st ())) (unsent_broadcasts sh)) (t, c)"
    obtain r t' c' where r: "?run = (r, (t', c'))" by (metis surj_pair)
    have "remote_addr t = y" using filed map_of_SomeD [OF y] by auto
    then have "filed_in {y, a} (t, c)" using s(2) by (simp add: filed_in_def peer_is_def)
    from waiting_sent [OF filed_sending(1) introduction_moves [OF this], of a N p "unsent_broadcasts sh"] r
    have moved: "is_ok r \<Longrightarrow> remote_addr t' \<in> {y, a} \<and> udp_out c' \<noteq> None" by (cases r) (auto simp: filed_in_def)
    have own: "peer_is nd pt x (t', c')" if "is_ok r" "y = x"
      using waiting_sent [OF peer_sending(1) unsigned_introduction [OF s(2) assms(3,4)], of a "unsent_broadcasts sh"]
        that s(1) y r by (cases r) auto
    have other: "a \<noteq> x" if "y \<noteq> x" using that Some s(1) by (auto simp: find_session_def split: if_splits)
    have run: "process_introduce N p a nd' (sh, c) =
        bind_res (r, (sh\<lparr>sessions := hm_remove y (sessions sh), unsent_broadcasts := []\<rparr>, c'))
          (\<lambda>_ (sh, c). insert_session (remote_addr t') (t'\<lparr>sess_rc := next_rc c\<rparr>) (sh, c\<lparr>next_rc := next_rc c + 1\<rparr>))"
      using Some y by (simp add: process_introduce_def r)
    show ?thesis
    proof (cases "is_ok r")
      case True
      have "hm_get (hm_insert (remote_addr t') v (hm_remove y (sessions sh))) x =
          (if y = x then Some v else Some s)" for v
        using moved [OF True] own [OF True] other s(1) by (auto simp: update_conv' delete_conv' peer_is_def)
      then show ?thesis
        using moved [OF True] own [OF True] s True
        by (cases r) (auto simp: run insert_session_def peer_in_def peer_is_def)
    qed (cases r; simp add: run)
  qed
qed

section \<open>In the network\<close>

lemma peer_at_port:
  assumes "keeps True (peer_in nd pt x) m"
  shows "keeps True (peer_of nd pt p x) (at_port p m)"
proof (rule tripleI)
  fix net assume "peer_of nd pt p x net"
  then obtain sh where p: "unat p < length (shards net)" and sh: "shards net ! unat p = Some sh"
      and I: "peer_in nd pt x (sh, ctx net)"
    by (auto simp: peer_of_def session_at_def peer_in_def split: if_splits option.splits)
  obtain r sh' c' where r: "m (sh, ctx net) = (r, (sh', c'))" by (metis surj_pair)
  with tripleD [OF assms I] p sh show "ends True (\<lambda>_. peer_of nd pt p x) (at_port p m net)"
    by (cases r) (auto simp: at_port_def get_shard_def peer_of_def session_at_def peer_in_def)
qed

lemma other_at_port:
  assumes "q \<noteq> p"
  shows "keeps True (\<lambda>net. session_at net q x = s) (at_port p m)"
proof (rule tripleI)
  fix net :: network
  assume I: "session_at net q x = s"
  have "unat q \<noteq> unat p" using assms by (metis unsigned_word_eqI)
  then have same: "session_at (net\<lparr>ctx := c, shards := (shards net)[unat p := Some sh]\<rparr>) q x = s" for c sh
    using I by (auto simp: session_at_def)
  show "ends True (\<lambda>_ net. session_at net q x = s) (at_port p m net)"
  proof (rule ends_partial)
    fix v net' assume "at_port p m net = (Ok v, net')"
    then obtain c sh where "net' = net\<lparr>ctx := c, shards := (shards net)[unat p := Some sh]\<rparr>"
      by (auto simp: at_port_def split: result.splits option.splits prod.splits)
    then show "session_at net' q x = s" using same by simp
  qed
qed

text \<open>Completing a job changes no shard and sends nothing.\<close>

lemma spawn_unseen: "keeps True (\<lambda>net. shards net = shs \<and> udp_out (ctx net) = out) (net_spawn t)"
  by (simp add: triple_def net_spawn_def net_context_action_def spawn_def)

lemma open_all_unseen: "keeps True (\<lambda>net. shards net = shs \<and> udp_out (ctx net) = out) (open_all X h nodes)"
  unfolding open_all_def
  by (rule keep_bind [OF peer_read]) (auto split: option.split simp del: return_st_simps
    intro!: keep_for spawn_unseen triple_return_keep)

lemma complete_unseen: "keeps True (\<lambda>net. shards net = shs \<and> udp_out (ctx net) = out) (complete X m j)"
proof (rule tripleI)
  fix net :: network
  assume I: "shards net = shs \<and> udp_out (ctx net) = out"
  have "keeps True (\<lambda>net. shards net = shs \<and> udp_out (ctx net) = out)
      (bind_st (case m of NodeList nodes _ _ \<Rightarrow> open_all X h (take n nodes) | _ \<Rightarrow> return_st ())
        (\<lambda>_. return_st (None :: network_job option)))" for h n
    by (cases m) (auto simp del: return_st_simps intro!: keep_bind open_all_unseen triple_return_keep)
  note find = tripleD [OF this, of net]
  show "ends True (\<lambda>_ net. shards net = shs \<and> udp_out (ctx net) = out) (complete X m j net)"
    using I find by (auto simp: complete_def split: network_job_data.split prod.split)
qed

lemma complete_keeps:
  assumes "\<And>net net'. shards net = shards net' \<Longrightarrow> udp_out (ctx net) = udp_out (ctx net') \<Longrightarrow> I net = I net'"
  shows "keeps True I (complete X m j)"
proof (rule tripleI, rule ends_partial)
  fix net v net' assume "I net" "complete X m j net = (Ok v, net')"
  with triple_Ok [OF complete_unseen _ this(2), of "shards net" "udp_out (ctx net)"] assms [of net net']
  show "I net'" by simp
qed

lemma process_packet_frame:
  assumes "\<And>net net'. shards net = shards net' \<Longrightarrow> udp_out (ctx net) = udp_out (ctx net') \<Longrightarrow> I net = I net'"
    and "keeps True I (at_port p (recv_packet N now pkt a))" "\<And>j. keeps True I (at_port p (assign_job N now f j))"
    and "\<nexists>h nd pt. msg pkt = Introduce h nd pt"
  shows "keeps True I (process_packet N now f p pkt a)"
proof -
  have "keeps True I (bind_st (at_port p (recv_packet N now pkt a)) (\<lambda>job. case job of
      None \<Rightarrow> return_st ()
    | Some j \<Rightarrow> bind_st (complete (core_ext N) (msg pkt) j) (\<lambda>nj. case nj of
        None \<Rightarrow> return_st ()
      | Some nj \<Rightarrow> bind_st (at_port p (assign_job N now f nj)) (\<lambda>_. return_st ()))))" (is "keeps True I ?m")
    by (auto simp del: return_st_simps split: option.split
      intro!: keep_bind [OF assms(2)] keep_bind [OF complete_keeps [OF assms(1)]] keep_bind [OF assms(3)] triple_return_keep)
  moreover have "process_packet N now f p pkt a = ?m"
    using assms(4) unfolding process_packet_def by (cases "msg pkt") (simp_all only: message.case, auto)
  ultimately show ?thesis by simp
qed

lemma process_packet_peer:
  assumes "net_ok X k net" "peer_of nd pt q x net" "pt \<noteq> 255"
    and "\<forall>h nd' pt'. msg pkt = Introduce h nd' pt' \<longrightarrow> check_sig N pkt nd \<noteq> (Ok True :: (bool, io_error) result)"
    and "process_packet N now f p pkt a net = (Ok (), net')"
  shows "\<exists>s. session_at net' q x = Some s \<and> remote_peer s = nd \<and> remote_port s = pt \<and> remote_addr s = x"
proof (cases "q = p")
  case False
  have "keeps True (\<lambda>net. session_at net q x = s) (process_packet N now f p pkt a)" for s
  proof (cases "\<exists>h nd pt. msg pkt = Introduce h nd pt")
    case True
    then obtain h nd pt where i: "msg pkt = Introduce h nd pt" by blast
    show ?thesis unfolding process_packet_def i message.case by (rule other_at_port [OF False])
  next
    case False
    then show ?thesis
      by (intro process_packet_frame other_at_port \<open>q \<noteq> p\<close>) (auto simp: session_at_def)
  qed
  from triple_Ok [OF this _ assms(5)] assms(2) show ?thesis by (auto simp: peer_of_def peer_is_def)
next
  case True
  have "peer_of nd pt p x net'"
  proof (cases "\<exists>h nd pt. msg pkt = Introduce h nd pt")
    case False
    have "keeps True (peer_of nd pt p x) (process_packet N now f p pkt a)"
      by (intro process_packet_frame False peer_at_port peer_recv_packet peer_assign_job)
        (auto simp: peer_of_def session_at_def peer_is_def)
    from triple_Ok [OF this _ assms(5)] assms(2) True show ?thesis by simp
  next
    case intro: True
    then obtain h nd' pt' where i: "msg pkt = Introduce h nd' pt'" by blast
    from assms(2) True obtain sh where p: "unat p < length (shards net)" and sh: "shards net ! unat p = Some sh"
        and I: "peer_in nd pt x (sh, ctx net)"
      by (auto simp: peer_of_def session_at_def peer_in_def split: if_splits option.splits)
    have "shard_fine X (of_nat (unat p)) sh" using assms(1) p sh unfolding net_ok_def by (metis (no_types))
    then have filed: "\<forall>(y, s) \<in> set (sessions sh). remote_addr s = y" by (auto simp: shard_fine_def sess_fine_def)
    obtain r sh' c' where r: "process_introduce N pkt a nd' (sh, ctx net) = (r, (sh', c'))" by (metis surj_pair)
    have "ends True (\<lambda>_. peer_in nd pt x) (r, (sh', c'))"
      unfolding r [symmetric] by (rule peer_introduce [OF I filed assms(3)]) (use assms(4) i in blast)
    with assms(5) p sh r show ?thesis
      by (cases r) (auto simp: process_packet_def i at_port_def get_shard_def peer_of_def session_at_def peer_in_def)
  qed
  then show ?thesis using True by (auto simp: peer_of_def peer_is_def)
qed

text \<open>
  The opening of a session has no such protection. When a host asks for a session over UDP, the address that
  its endpoint resolves to is only known after the check for a session with the same
  endpoint, and the new session replaces whatever session is filed under that address.
\<close>

lemma udp_open_replaces_session:
  assumes "session_at net q x = Some s" "resolve_port net (con_network con) = q" "q < 255"
    and "protocol (endpoint (con_peer con)) = Udp" "\<not> con_introduce con"
  shows "\<exists>net' s'. connect N now con x net = (Ok (), net') \<and>
    session_at net' q x = Some s' \<and> remote_peer s' = con_peer con \<and> \<not> is_introduced s'"
proof -
  from assms(1) obtain sh where n: "unat q < length (shards net)" and sh: "shards net ! unat q = Some sh"
    by (auto simp: session_at_def split: if_splits option.splits)
  have p: "resolve_port (net\<lparr>ctx := c\<rparr>) h = resolve_port net h" "get_shard (net\<lparr>ctx := c\<rparr>) q = Ok (Some sh)" for c h
    using n sh by (simp_all add: resolve_port_def get_shard_def)
  show ?thesis
    using assms(2-5) n
    by (simp add: connect_def new_session_def session_new_def Let_def bind_st_def p at_port_def file_session_def
      on_shard_def insert_session_def session_at_def is_introduced_def update_conv')
qed

text \<open>A datagram to port 255 changes no shard; at most it leaves the task that opens a session.\<close>

lemma discovery_only_spawns:
  assumes "udp_process_packet N now f (a, \<lparr>raw_port = 255, payload = pkt\<rparr>) net = (Ok (), net')"
  shows "shards net' = shards net \<and> (tasks (ctx net') = tasks (ctx net) \<or>
    (\<exists>h nd pt con. msg pkt = Introduce h nd pt \<and> tasks (ctx net') = tasks (ctx net) @ [OpenTask con (AfterUdp pkt h)]))"
  using assms by (auto simp: udp_process_packet_def bind_st_def read_st_def net_spawn_def net_context_action_def
    spawn_def split: message.splits result.splits option.splits elim!: bind_res.elims)

lemma datagram_keeps_peer:
  assumes "net_ok X 0 net" "udp_process_packet N now f (a, \<lparr>raw_port = p, payload = pkt\<rparr>) net = (Ok (), net')"
    and "session_at net q x = Some s" "is_introduced s"
    and "\<forall>h nd pt. msg pkt = Introduce h nd pt \<longrightarrow> check_sig N pkt (remote_peer s) \<noteq> (Ok True :: (bool, io_error) result)"
  shows "\<exists>s'. session_at net' q x = Some s' \<and> remote_peer s' = remote_peer s \<and>
    remote_port s' = remote_port s \<and> remote_addr s' = x"
proof -
  obtain sh where q: "unat q < length (shards net)" "shards net ! unat q = Some sh" "hm_get (sessions sh) x = Some s"
    using assms(3) by (auto simp: session_at_def split: if_splits option.splits)
  have "shard_fine X (of_nat (unat q)) sh" using assms(1) q unfolding net_ok_def by (metis (no_types))
  then have "remote_addr s = x" using map_of_SomeD [OF q(3)] by (auto simp: shard_fine_def sess_fine_def)
  then have peer: "peer_of (remote_peer s) (remote_port s) q x net"
    using assms(1,3) by (simp add: peer_of_def peer_is_def net_ok_def ctx_ok_def)
  show ?thesis
  proof (cases "p = 255")
    case True
    have same: "shards net' = shards net" using discovery_only_spawns assms(2) True by blast
    then have "session_at net' q x = session_at net q x" by (simp add: session_at_def)
    with assms(3) \<open>remote_addr s = x\<close> show ?thesis by simp
  next
    case False
    have g: "get_shard net p = Ok (shards net ! unat p)" using get_shard_ok [OF assms(1) port_below [OF False]] .
    show ?thesis
    proof (cases "shards net ! unat p")
      case None
      then have "net' = net" using assms(2) False g by (simp add: udp_process_packet_def bind_st_def read_st_def)
      with assms(3) \<open>remote_addr s = x\<close> show ?thesis by simp
    next
      case (Some sh)
      then have "process_packet N now f p pkt a net = (Ok (), net')"
        using assms(2) False g by (simp add: udp_process_packet_def bind_st_def read_st_def)
      from process_packet_peer [OF assms(1) peer _ assms(5) this] assms(4) show ?thesis by (simp add: is_introduced_def)
    qed
  qed
qed

text \<open>
  C8: what a datagram can do to the identity of an introduced session, its peer and the port and the
  address that the node answers to. While the datagram is handled it changes the identity of no session
  of the node, unless it is an introduction with a signature of the key that the session was
  introduced with. A datagram to port 255 changes no session at all, and leaves at most the task that
  opens a session for the host that introduces itself. That task, though, needs no signature of
  the old peer: once it runs, a session over UDP to a host whose endpoint resolves to the address of the
  introduced session takes its place, with the new host as its peer and not introduced.
\<close>

theorem introduced_sessions_keep_peer:
  assumes "net_ok X 0 net" "udp_process_packet N now f (a, \<lparr>raw_port = p, payload = pkt\<rparr>) net = (Ok (), net')"
    and "session_at net q x = Some s" "is_introduced s"
    and "\<forall>h nd pt. msg pkt = Introduce h nd pt \<longrightarrow> check_sig N pkt (remote_peer s) \<noteq> (Ok True :: (bool, io_error) result)"
  shows "(\<exists>s'. session_at net' q x = Some s' \<and> remote_peer s' = remote_peer s \<and>
      remote_port s' = remote_port s \<and> remote_addr s' = x) \<and>
    (p = 255 \<longrightarrow> shards net' = shards net \<and> (tasks (ctx net') = tasks (ctx net) \<or>
      (\<exists>h nd pt con. msg pkt = Introduce h nd pt \<and> tasks (ctx net') = tasks (ctx net) @ [OpenTask con (AfterUdp pkt h)]))) \<and>
    (resolve_port net' (con_network con) = q \<and> q < 255 \<and> protocol (endpoint (con_peer con)) = Udp \<and>
        \<not> con_introduce con \<longrightarrow>
      (\<exists>net'' s''. connect N later con x net' = (Ok (), net'') \<and> session_at net'' q x = Some s'' \<and>
        remote_peer s'' = con_peer con \<and> \<not> is_introduced s''))"
proof -
  from datagram_keeps_peer [OF assms] obtain s' where s': "session_at net' q x = Some s'"
      "remote_peer s' = remote_peer s" "remote_port s' = remote_port s" "remote_addr s' = x" by blast
  moreover have "p = 255 \<longrightarrow> shards net' = shards net \<and> (tasks (ctx net') = tasks (ctx net) \<or>
      (\<exists>h nd pt con. msg pkt = Introduce h nd pt \<and> tasks (ctx net') = tasks (ctx net) @ [OpenTask con (AfterUdp pkt h)]))"
    using discovery_only_spawns assms(2) by blast
  ultimately show ?thesis using udp_open_replaces_session [OF s'(1)] by blast
qed

section \<open>Silent peers\<close>

text \<open>The checks of a session at the given pairs of clock readings, each after the timeout of a ping.\<close>

definition checks :: "'s net_ext \<Rightarrow> (time \<times> time) list \<Rightarrow> unit sess_action" where
  "checks N = for_st (\<lambda>(now, now'). check_conn N now now')"

fun spaced :: "time \<Rightarrow> (time \<times> time) list \<Rightarrow> bool" where
  "spaced lps [] \<longleftrightarrow> True"
| "spaced lps ((now, now') # ts) \<longleftrightarrow> time_less PING_TIMEOUT (time_diff lps now) \<and> spaced now' ts"

text \<open>
  An action of a session that does what it should or panics because the UDP socket refused a packet,
  which closes the way to the socket for good.
\<close>

fun unless_refused ::
  "'s net_ext \<Rightarrow> ('a \<Rightarrow> session \<times> net_context \<Rightarrow> bool) \<Rightarrow> ('a, io_error) result \<times> session \<times> net_context \<Rightarrow> bool" where
  "unless_refused N Q (Ok x, sc) \<longleftrightarrow> Q x sc"
| "unless_refused N Q (Panic, sc) \<longleftrightarrow> udp_out (snd sc) = None \<and> udp_may_fail N"
| "unless_refused N Q (_, sc) \<longleftrightarrow> False"

lemma unless_refused_bind:
  assumes "unless_refused N Q (m sc)" "\<And>x sc. Q x sc \<Longrightarrow> unless_refused N R (f x sc)"
  shows "unless_refused N R (bind_st m f sc)"
  using assms by (cases "(N, Q, m sc)" rule: unless_refused.cases) (auto simp: bind_st_def)

lemma unless_refused_mono:
  "unless_refused N Q r \<Longrightarrow> (\<And>x sc. Q x sc \<Longrightarrow> R x sc) \<Longrightarrow> unless_refused N R r"
  by (cases "(N, Q, r)" rule: unless_refused.cases) auto

lemma unless_refusedE:
  assumes "unless_refused N Q r"
  obtains x sc where "r = (Ok x, sc)" "Q x sc" | s c where "r = (Panic, (s, c))" "udp_out c = None" "udp_may_fail N"
  using assms by (cases "(N, Q, r)" rule: unless_refused.cases) auto

lemma unless_refused_udp:
  assumes "sends_freely I" "I (s, c)"
  shows "unless_refused N (\<lambda>_. I) (send_udp N pl (s, c))"
proof -
  note I = sends_freelyD [OF assms]
  from I(1) obtain out where "udp_out c = Some out" by blast
  with I(5) show ?thesis
    by (cases "udp_accepts N out (remote_addr s, \<lparr>raw_port = remote_port s, payload = pl\<rparr>)")
      (simp_all add: send_udp_def on_context_def udp_send_packets_def udp_may_fail_def del: split_paired_Ex, blast)
qed

lemma unless_refused_via:
  assumes "sends_freely I" "I (s, c)" "\<And>pl s c. I (s, c) \<Longrightarrow> unless_refused N (\<lambda>_. I) (out pl (s, c))"
  shows "unless_refused N (\<lambda>_. I) (send_via out N m w (s, c))"
proof -
  have "unless_refused N (\<lambda>_. I) (bind_st (out pl) (\<lambda>_. return_st n) (s\<lparr>current_seq := k\<rparr>, c))" for pl and n :: u32 and k
    by (rule unless_refused_bind [where Q = "\<lambda>_. I"]) (use assms in \<open>auto dest: sends_freelyD\<close>)
  then show ?thesis by (simp add: send_via_def Let_def)
qed

lemma unless_refused_packet:
  assumes "sends_freely I" "I (s, c)"
  shows "unless_refused N (\<lambda>_. I) (send_packet N pl (s, c))"
proof -
  have via: "unless_refused N (\<lambda>_. I) (send_via (send_udp N) N m w (s\<lparr>sink := None\<rparr>, c))" for m w
    by (rule unless_refused_via [OF assms(1) sends_freelyD(3) [OF assms]]) (rule unless_refused_udp [OF assms(1)])
  have "unless_refused N (\<lambda>_. I) (close_via (send_udp N) N (s\<lparr>sink := None\<rparr>, c))"
    unfolding close_via_def
    by (rule unless_refused_bind [where Q = "\<lambda>_. I"], rule via) (use assms(1) in \<open>auto simp: on_session_def dest: sends_freelyD(4)\<close>)
  then show ?thesis
    using unless_refused_udp [OF assms, of N pl] sends_freelyD(3) [OF assms] by (simp add: send_packet_def split: option.split)
qed

lemma unless_refused_then:
  assumes "sends_freely I" "I (s, c)" "\<And>s c. I (s, c) \<Longrightarrow> R () (g s, c)"
  shows "unless_refused N R (bind_st (send N m w) (\<lambda>_. on_session g) (s, c))"
proof -
  have "unless_refused N (\<lambda>_. I) (send N m w (s, c))"
    unfolding send_def by (rule unless_refused_via [OF assms(1,2)]) (rule unless_refused_packet [OF assms(1)])
  then show ?thesis by (rule unless_refused_bind) (use assms(3) in \<open>auto simp: on_session_def\<close>)
qed

definition waiting :: "u32 \<Rightarrow> bool \<Rightarrow> time option \<Rightarrow> session \<times> net_context \<Rightarrow> bool" where
  "waiting k known lps = (\<lambda>(s, c). strikes s = k \<and> is_introduced s = known \<and> last_ping_send s = lps \<and> udp_out c \<noteq> None)"

lemma waiting_sends: "sends_freely (waiting k known lps)"
  by (auto simp: sends_freely_def waiting_def is_introduced_def)

text \<open>
  One check: a peer that was not introduced or that left a ping unanswered gets a strike, and no
  session that goes on has more than three.
\<close>

definition struck :: "bool \<Rightarrow> time \<Rightarrow> nat \<Rightarrow> session \<times> net_context \<Rightarrow> bool" where
  "struck known lps n = (\<lambda>(s, c). udp_out c \<noteq> None \<and> (sess_done s \<noteq> None \<or>
     n \<le> unat (strikes s) \<and> unat (strikes s) \<le> 3 \<and> is_introduced s = known \<and> (known \<longrightarrow> last_ping_send s = Some lps)))"

lemma strike_count: "unat (k :: u32) \<le> 3 \<Longrightarrow> unat (k + 1) = unat k + 1"
  by (simp add: unat_word_ariths)

lemma three_strikes: "(ucast TIMEOUT_TOLERANCE :: u32) < k \<longleftrightarrow> 3 < unat k"
  by (simp add: TIMEOUT_TOLERANCE_def word_less_nat_alt)

lemma check_unknown:
  assumes "\<not> is_introduced s" "udp_out c \<noteq> None" "sess_done s = None" "n \<le> unat (strikes s + 1)"
  shows "unless_refused N (\<lambda>_. struck False now' n) (check_conn N now now' (s, c))"
proof -
  have "unless_refused N (\<lambda>_. struck False now' n) (bind_st (send N m False)
      (\<lambda>_. on_session (\<lambda>s. let n = strikes s + 1; s = s\<lparr>strikes := n\<rparr>
          in if ucast TIMEOUT_TOLERANCE < n then s\<lparr>sess_done := Some Timeout\<rparr> else s)) (s, c))" for m
    by (rule unless_refused_then [OF waiting_sends, of "strikes s" False "last_ping_send s"])
      (use assms in \<open>auto simp: waiting_def struck_def Let_def three_strikes is_introduced_def\<close>)
  with assms(1,3) show ?thesis by (simp add: check_conn_def)
qed

lemma check_known:
  assumes "is_introduced s" "udp_out c \<noteq> None" "sess_done s = None"
    and late: "late = (case last_ping_send s of Some lps \<Rightarrow> time_less PING_TIMEOUT (time_diff lps now) | None \<Rightarrow> False)"
    and "n \<le> unat (strikes s + (if late then 1 else 0))"
  shows "unless_refused N (\<lambda>_. struck True now' n) (check_conn N now now' (s, c))"
proof -
  let ?k = "strikes s + (if late then 1 else 0)" and ?s = "if late then s\<lparr>strikes := strikes s + 1\<rparr> else s"
  have run: "check_conn N now now' (s, c) =
      (if 3 < unat ?k then (Ok (), (?s\<lparr>sess_done := Some Timeout\<rparr>, c))
       else bind_st (send N (Ping now') False) (\<lambda>_. on_session (\<lambda>s. s\<lparr>last_ping_send := Some now'\<rparr>)) (?s, c))"
    using assms(1,3) late
    by (cases "last_ping_send s") (auto simp: check_conn_def Let_def three_strikes)
  show ?thesis
  proof (cases "3 < unat ?k")
    case True
    then show ?thesis using assms(2) by (simp add: run struck_def)
  next
    case False
    have "waiting ?k True (last_ping_send s) (?s, c)"
      using assms(1,2) by (simp add: waiting_def is_introduced_def)
    then show ?thesis unfolding run if_not_P [OF False]
      by (rule unless_refused_then [OF waiting_sends])
        (use assms(5) False in \<open>auto simp: waiting_def struck_def is_introduced_def\<close>)
  qed
qed

lemma check_struck:
  assumes "struck known lps n (s, c)" "time_less PING_TIMEOUT (time_diff lps now)"
  shows "unless_refused N (\<lambda>_. struck known now' (Suc n)) (check_conn N now now' (s, c))"
proof (cases "sess_done s = None")
  case True
  then have s: "udp_out c \<noteq> None" "Suc n \<le> unat (strikes s + 1)" "is_introduced s = known"
    "known \<longrightarrow> last_ping_send s = Some lps" using assms(1) by (auto simp: struck_def strike_count)
  show ?thesis
  proof (cases known)
    case known: True
    then show ?thesis using check_known [OF _ s(1) True refl, where now = now and n = "Suc n"] s assms(2) by simp
  next
    case False
    then show ?thesis using check_unknown [OF _ s(1) True s(2)] s(3) by simp
  qed
qed (use assms(1) in \<open>simp add: check_conn_def struck_def\<close>)

lemma checks_struck:
  "struck known lps n sc \<Longrightarrow> spaced lps ts \<Longrightarrow> 3 < n + length ts \<Longrightarrow>
    unless_refused N (\<lambda>_ (s, c). sess_done s \<noteq> None) (checks N ts sc)"
proof (induction ts arbitrary: lps n sc)
  case Nil
  then show ?case by (auto simp: checks_def struck_def)
next
  case (Cons t ts)
  obtain now now' s c where eq: "t = (now, now')" "sc = (s, c)" by (metis surj_pair)
  have "unless_refused N (\<lambda>_. struck known now' (Suc n)) (check_conn N now now' (s, c))"
    by (rule check_struck) (use Cons.prems eq in auto)
  moreover have "unless_refused N (\<lambda>_ (s, c). sess_done s \<noteq> None) (checks N ts sc')" if "struck known now' (Suc n) sc'" for sc'
    using Cons.IH [OF that] Cons.prems by (simp add: eq)
  ultimately show ?case
    unfolding checks_def eq for_st.simps case_prod_conv by (rule unless_refused_bind) (simp add: checks_def)
qed

text \<open>
  C20: a peer that stays silent is given up. Five checks of its session, the last four of them each
  later than the ping timeout after the one before, leave the session marked as done, whatever its
  state was: introduced or not, with pings or not, with any number of strikes. The one
  other end is a panic in the middle of a check when the UDP socket refuses a packet, whose
  result the code unwraps; the way to the socket is gone then.
\<close>

theorem silent_peer_times_out:
  assumes "udp_out c \<noteq> None" "spaced now' ts" "length ts = 4"
  shows "(\<exists>s' c'. checks N ((now, now') # ts) (s, c) = (Ok (), (s', c')) \<and> sess_done s' \<noteq> None) \<or>
    (\<exists>s' c'. checks N ((now, now') # ts) (s, c) = (Panic, (s', c')) \<and> udp_out c' = None \<and>
      (\<exists>out q. \<not> udp_accepts N out q))"
proof -
  have "unless_refused N (\<lambda>_. struck (is_introduced s) now' 0) (check_conn N now now' (s, c))"
  proof (cases "sess_done s = None")
    case True
    then show ?thesis
      using check_known [OF _ assms(1) True refl le0] check_unknown [OF _ assms(1) True le0]
      by (cases "is_introduced s") auto
  qed (use assms(1) in \<open>simp add: check_conn_def struck_def\<close>)
  then have "unless_refused N (\<lambda>_ (s, c). sess_done s \<noteq> None) (checks N ((now, now') # ts) (s, c))"
    unfolding checks_def for_st.simps case_prod_conv
    by (rule unless_refused_bind) (rule checks_struck [unfolded checks_def, OF _ assms(2)], simp_all add: assms(3))
  then show ?thesis by (cases rule: unless_refusedE) (auto simp: udp_may_fail_def)
qed

section \<open>Frames\<close>

lemma tcp_encode_append: "tcp_encode N p dst = dst @ tcp_encode N p []"
  by (simp add: tcp_encode_def Let_def)

lemma tcp_frames_append: "fold (tcp_encode N) ps dst = dst @ fold (tcp_encode N) ps []"
proof (induction ps arbitrary: dst)
  case (Cons p ps)
  have "fold (tcp_encode N) (p # ps) dst = dst @ tcp_encode N p [] @ fold (tcp_encode N) ps []" for dst
    using Cons.IH [of "tcp_encode N p dst"] tcp_encode_append [of N p dst] by simp
  from this [of dst] this [of "[]"] show ?case by simp
qed simp

lemma tcp_decode_frame:
  assumes "de (packet_codec N) (ser (packet_codec N) p) = Ok p" "length (ser (packet_codec N) p) < 2 ^ 32"
  shows "tcp_decode N (tcp_encode N p [] @ rest) = (Ok (Some p), rest)"
  using assms by (simp add: tcp_decode_def tcp_encode_def Let_def unat_of_nat take_bit_nat_eq_self read_write_le)

text \<open>
  C26: the packets written to a TCP stream are read back one by one and in order, wherever the
  stream is cut: while a frame is not complete the decoder takes nothing from the buffer and
  asks for more, and when it is complete exactly this frame is taken.
\<close>

theorem tcp_stream_round_trip:
  assumes "de (packet_codec N) (ser (packet_codec N) p) = Ok p" "length (ser (packet_codec N) p) < 2 ^ 32"
  shows "tcp_decode N (take n (fold (tcp_encode N) (p # ps) [])) =
    (if n < length (tcp_encode N p []) then (Ok None, take n (fold (tcp_encode N) (p # ps) []))
     else (Ok (Some p), take (n - length (tcp_encode N p [])) (fold (tcp_encode N) ps [])))"
proof -
  let ?f = "tcp_encode N p []" and ?rest = "fold (tcp_encode N) ps []"
  have all: "fold (tcp_encode N) (p # ps) [] = ?f @ ?rest" using tcp_frames_append [of N ps ?f] by simp
  show ?thesis
  proof (cases "n < length ?f")
    case True
    have len: "length ?f = length (ser (packet_codec N) p) + 4" by (simp add: tcp_encode_def Let_def)
    have "read_le (take 4 (take n ?f)) = (of_nat (length (ser (packet_codec N) p)) :: u32)" if "4 \<le> n"
      using that by (simp add: tcp_encode_def Let_def min_def read_write_le)
    then have "tcp_decode N (take n ?f) = (Ok None, take n ?f)"
      using True assms(2) len by (auto simp: tcp_decode_def Let_def unat_of_nat take_bit_nat_eq_self)
    with True show ?thesis unfolding all by simp
  next
    case False
    then show ?thesis using tcp_decode_frame [OF assms] unfolding all by simp
  qed
qed

end
