(* ===== verification/Liveness.thy ===== *)
theory Liveness
  imports Keeper
begin

text \<open>
  Progress of the record keeper: the block that \<open>create_block\<close> makes when no transaction is pending
  passes validation and becomes the new head of the chain.
\<close>

text \<open>Rules that accept a block without changes.\<close>

definition accepts_nothing :: "('s, 'g) mutation_rule list \<Rightarrow> bool" where
  "accepts_nothing rules \<longleftrightarrow>
     (\<forall>rule \<in> set rules. \<forall>st cache g. \<exists>cache' g'. rule st [] cache g = (Ok cache', g'))"

lemma accepts_nothing_run:
  assumes "accepts_nothing rules"
  shows "\<exists>g'. is_valid_mutation_given_state X rules st [] g = (Ok (), g')"
proof -
  have "\<exists>c' g'. fold_st (\<lambda>rule cache. rule st [] cache) rules c g = (Ok c', g')" for c g
    using assms
  proof (induction rules arbitrary: c g)
    case (Cons rule rules)
    obtain c1 g1 where "rule st [] c g = (Ok c1, g1)" using Cons.prems unfolding accepts_nothing_def by (metis list.set_intros(1))
    then show ?case using Cons.IH [of c1 g1] Cons.prems by (auto simp: accepts_nothing_def)
  qed simp
  then obtain c' g' where "fold_st (\<lambda>rule cache. rule st [] cache) rules [] g = (Ok c', g')" by blast
  then show ?thesis
    by (simp add: is_valid_mutation_given_state_def bind_st_def read_st_def plot_event_is_valid_def
      plot_events_rule_iter_def duplicates_is_valid_def)
qed

text \<open>An empty block on the head: what makes it valid.\<close>

definition next_block :: "'s ext \<Rightarrow> time \<Rightarrow> 's dbase \<Rightarrow> block \<Rightarrow> bool" where
  "next_block X now db blk \<longleftrightarrow> txns blk = [] \<and> prev (header blk) = get_current_block_hash db \<and>
     merkle_root (header blk) = calculate_merkle_root X [] \<and> \<not> time_less now (timestamp (header blk)) \<and>
     (\<exists>hd. get_block_header X db (get_current_block_hash db) = Ok hd \<and>
        \<not> time_less (timestamp (header blk)) (timestamp hd) \<and>
        (shard hd = shard (header blk) \<or> shard hd = U256_ZERO))"

lemma next_block_valid:
  assumes "next_block X now (rk_db rk) blk" "accepts_nothing (rk_rules rk)" "tip_ok X content (rk_db rk)"
  shows "\<exists>rk'. rk_is_valid_block X now blk rk = (Ok (), rk')"
proof -
  let ?st = "db_state_new (rk_db rk)"
  have at: "db_state_at X ?st (prev (header blk)) = Ok ?st"
    using assms(1) by (simp add: next_block_def db_state_at_def walk_def bind_st_def read_st_def get_current_block_hash_def)
  have "get_block_header X ?st = get_block_header X (rk_db rk)"
    using tip_new [OF assms(3)] by (auto simp: same_blocks_def)
  then have "time_stamp_is_valid X now ?st blk = Ok ()" "merkle_root_is_valid X blk = Ok ()"
    using assms(1) by (auto simp: time_stamp_is_valid_def merkle_root_is_valid_def next_block_def)
  then have "\<exists>g'. is_valid_block_given_state X now (rk_rules rk) ?st (pending_txns rk) blk (rk_game rk) = (Ok (), g')"
    using accepts_nothing_run [OF assms(2), of X ?st "rk_game rk"] assms(1)
    by (simp add: is_valid_block_given_state_def bind_st_def read_st_def next_block_def)
  then show ?thesis by (auto simp: rk_is_valid_block_def bind_st_def read_st_def at on_game_def)
qed

text \<open>A block on top of the highest head is the one higher block, and the walk to it is one step.\<close>

lemma walk_to_child:
  assumes tip: "tip_ok X content db" and b: "known_block X db b" "parent X db b = get_current_block_hash db"
    and top: "\<And>x. known_block X db x \<Longrightarrow> x \<noteq> b \<Longrightarrow> block_ht X db x \<le> block_ht X db (get_current_block_hash db)"
    and blk: "get_block X db b = Ok blk" "txns blk = []"
    and sh: "\<And>ha hb. get_block_header X db (get_current_block_hash db) = Ok ha \<Longrightarrow>
      get_block_header X db b = Ok hb \<Longrightarrow> shard ha = shard hb \<or> shard ha = U256_ZERO \<or> shard hb = U256_ZERO"
  shows "\<exists>r db'. walk_to_head X db = (Ok r, db') \<and> get_current_block_hash db' = b \<and> (quiet db \<longrightarrow> quiet db')"
proof -
  let ?a = "get_current_block_hash db" and ?ht = "block_ht X db"
  have inv: "chain_inv X db" and ok: "store_ok X content db" and a: "known_block X db ?a"
    using tip by (simp_all add: tip_ok_def)
  have nodes: "chain_node X db ?a" "chain_node X db b" using inv a b by (auto simp: chain_node_def)
  have nz: "b \<noteq> U256_ZERO" using b(1) inv chain_inv_header(1) by (auto simp: known_block_def result_simps)
  have ht: "?ht b = Suc (?ht ?a)" using tree.ht_up [OF nodes(2) nz] b(2) by simp
  have ne: "?a \<noteq> b" using ht by auto
  obtain c where c: "find_chain_head X db = Ok c" "known_block X db c"
    "\<forall>x. known_block X db x \<longrightarrow> ?ht x \<le> ?ht c"
    using chain_head_highest [OF inv a] by blast
  have "c = b" using c top [of c] b(1) ht by (metis Suc_n_not_le_n le_trans)
  have "0 < j" if "(parent X db ^^ i) ?a = (parent X db ^^ j) b" "i \<le> ?ht ?a" for i j
    using tree.ht_anc [OF nodes(1), of i] that ht by (cases j) auto
  then have m: "meet (parent X db) ?ht ?a b 0 1" using b(2) ht by (auto simp: meet_def Suc_le_eq)
  have path: "calculate_block_path X db ?a b = Ok ([], [(of_nat (?ht b), b)])"
    using block_path_meet [OF inv refl a b(1) sh m] by (simp add: branch_def)
  obtain l where l: "get_blocks_of_height X db (of_nat (?ht b)) = Ok l" "b \<in> set l"
    using chain_inv_height(1) [OF inv, of "of_nat (?ht b)"] known_stored [OF inv b(1)] b(1) by auto
  obtain e db' where redo: "redo_block X (of_nat (?ht b), b) 0 db = (Ok e, db')" "quiet db \<longrightarrow> quiet db'"
    using store.redo_empty_block [OF ok blk l, of 0] by blast
  have run: "walk_to_head X db = (Ok (0, e), db')"
    using ne nz tip_head_nonzero [OF tip] path redo(1) c(1) \<open>c = b\<close>
    by (simp add: walk_to_head_def walk_def bind_st_def read_st_def u256_is_zero_def)
  then have "get_current_block_hash db' = b"
    using store.redo_block_effect(2) [OF ok redo(1)] by (simp add: get_current_block_hash_def)
  then show ?thesis using run redo(2) by blast
qed

lemma quiet_add_block: "preserves quiet (add_block X blk)"
  unfolding add_block_def add_block_to_height_def add_height_for_block_def add_block_for_txn_def Let_def
  by (intro preserves; auto intro!: preserves split: if_split)+

lemma quiet_new: "quiet (db_state_new db)"
  by (simp add: quiet_def db_state_new_def db_diff_default_def db_diff_new_def)

lemma quiet_compiles: "quiet st \<Longrightarrow> \<exists>wb. compile_state X st = Ok wb"
  by (auto simp: quiet_def compile_def changed_plots_def)

lemma header_kept:
  assumes "store_ok X content db" "add_block X blk db = (Ok True, db')" "x \<noteq> block_calculate_hash X blk"
  shows "get_block_header X db' x = get_block_header X db x"
proof -
  obtain m where ok': "store_ok X content db'" and same: "\<And>k. chain_key k \<Longrightarrow>
       k \<notin> {Blockchain (BlockHeaderE (block_calculate_hash X blk)), Blockchain (TxnListE (merkle_root (header blk))),
            Cache (HeightByBlock (block_calculate_hash X blk)), Cache (BlocksByHeight (m + 1))} \<union>
           (\<lambda>t. Cache (BlocksByTxn t)) ` set (txns blk) \<Longrightarrow> db_val content db' k = db_val content db k"
    using store.add_block_effect [OF assms(1,2)] by metis
  show ?thesis using assms(3) by (intro store.readings_cong(1) [OF assms(1) ok'] same) auto
qed

lemma build_next_block:
  assumes tip: "tip_ok X content db" and top: "on_top X db" and nb: "next_block X now db blk"
    and nz: "block_calculate_hash X blk \<noteq> U256_ZERO" and room: "room_for X db 1"
    and new: "\<not> known_block X db (block_calculate_hash X blk)"
  shows "\<exists>q st'. build_block X blk (db_state_new db, rk) = (Ok (Some q), (st', rk)) \<and>
    get_current_block_hash st' = block_calculate_hash X blk"
proof -
  let ?st = "db_state_new db" and ?b = "block_calculate_hash X blk"
  have t: "tip_ok X content ?st" "same_blocks X db ?st" using tip_new [OF tip] by simp_all
  have h: "get_current_block_hash ?st = get_current_block_hash db" by (simp add: get_current_block_hash_def)
  have e: "txns blk = []" "prev (header blk) = get_current_block_hash db" using nb by (simp_all add: next_block_def)
  have "\<exists>st1. add_block X blk ?st = (Ok True, st1)"
    by (rule store.add_block_total [of X content])
      (use t e new in \<open>auto simp: tip_ok_def same_blocks_tree get_block_height_def h\<close>)
  then obtain st1 where a: "add_block X blk ?st = (Ok True, st1)" by blast
  have "room_for X ?st (Suc 0)" using room same_blocks_room [OF t(2)] by simp
  note ab = add_block_tip [OF t(1) a nz this]
  have hd1: "get_current_block_hash st1 = get_current_block_hash db" using ab by (simp add: get_current_block_hash_def)
  have b1: "get_block_header X st1 ?b = Ok (header blk)"
    using ab by (auto simp: get_block_def complete_block_def result_simps)
  have par: "parent X st1 ?b = get_current_block_hash st1" using b1 nz e(2) hd1 by (simp add: parent_def)
  have top1: "block_ht X st1 x \<le> block_ht X st1 (get_current_block_hash st1)" if "known_block X st1 x" "x \<noteq> ?b" for x
  proof -
    have "get_current_block_hash db \<noteq> ?b" using new tip by (auto simp: tip_ok_def)
    then show ?thesis using that top ab by (simp add: hd1 on_top_def same_blocks_tree [OF t(2)])
  qed
  have sh: "shard ha = shard hb \<or> shard ha = U256_ZERO \<or> shard hb = U256_ZERO"
    if "get_block_header X st1 (get_current_block_hash st1) = Ok ha" "get_block_header X st1 ?b = Ok hb" for ha hb
  proof -
    have "get_current_block_hash db \<noteq> ?b" using new tip by (auto simp: tip_ok_def)
    then have "get_block_header X st1 (get_current_block_hash db) = get_block_header X db (get_current_block_hash db)"
      using header_kept [of X content, OF _ a] t unfolding tip_ok_def same_blocks_def by metis
    then show ?thesis using that nb b1 by (auto simp: next_block_def hd1)
  qed
  obtain r st' where w: "walk_to_head X st1 = (Ok r, st')" "get_current_block_hash st' = ?b" "quiet st1 \<longrightarrow> quiet st'"
    using walk_to_child [of X content st1 ?b blk, OF _ _ par top1 _ e(1) sh] ab by blast
  have "quiet st1" using preservesD [OF quiet_add_block quiet_new a] .
  then obtain wb where "compile_state X st' = Ok wb" using w(3) quiet_compiles by blast
  then show ?thesis using a w(1,2) e(1)
    by (cases r) (auto simp: build_block_def bind_st_def lift_state_def read_st_def)
qed

lemma next_block_accepted:
  assumes k: "keeper_ok X content rk" and nb: "next_block X now (rk_db rk) blk" and acc: "accepts_nothing (rk_rules rk)"
    and nz: "block_calculate_hash X blk \<noteq> U256_ZERO" and room: "room_for X (rk_db rk) 1"
    and new: "get_block_header X (rk_db rk) (block_calculate_hash X blk) = Err e"
  shows "\<exists>rk'. rk_add_block X now blk fresh rk = (Ok True, rk') \<and> keeper_ok X content rk' \<and>
    get_current_block_hash (rk_db rk') = block_calculate_hash X blk \<and> pending_txns rk' = pending_txns rk"
proof -
  have tip: "tip_ok X content (rk_db rk)" and top: "on_top X (rk_db rk)" and p: "pending_ok X (pending_txns rk)"
    using k by (simp_all add: keeper_ok_def)
  obtain s h where db: "rk_db rk = DatabaseImpl s h" using k by (auto simp: keeper_ok_def)
  obtain rk1 where v: "rk_is_valid_block X now blk rk = (Ok (), rk1)" using next_block_valid [OF nb acc tip] by blast
  have s1: "rk_db rk1 = rk_db rk" "pending_txns rk1 = pending_txns rk"
    using valid_block_same [OF v] by (simp_all add: same_records_def)
  have nk: "\<not> known_block X (rk_db rk) (block_calculate_hash X blk)" by (simp add: known_block_def new)
  obtain q st' where b: "build_block X blk (db_state_new (rk_db rk), rk1) = (Ok (Some q), (st', rk1))"
    and hd: "get_current_block_hash st' = block_calculate_hash X blk"
    using build_next_block [OF tip top nb nz room nk] by blast
  obtain undone ear uncled wb where q: "q = (undone, ear, uncled, wb)" by (cases q)
  have new_st: "tip_ok X content (db_state_new (rk_db rk))" "room_for X (db_state_new (rk_db rk)) (Suc 0)"
    using tip_new [OF tip] room same_blocks_room by auto
  have ov: "over (DatabaseImpl s h) (db_state_new (rk_db rk))" by (simp add: db)
  note bt = build_block_tip [OF b [unfolded q] new_st(1) _ nz new_st(2) ov]
  obtain r rk' where c: "commit_block X blk fresh (get_current_block_height (rk_db rk)) (Some (undone, ear, uncled, wb)) rk1 = (r, rk')"
    by fastforce
  have cm: "r = Ok True \<and> keeper_ok X content rk' \<and> same_blocks X st' (rk_db rk') \<and>
    get_block X (rk_db rk') = get_block X st' \<and> get_txn X (rk_db rk') = get_txn X st' \<and>
    get_current_block_hash (rk_db rk') = get_current_block_hash st' \<and> pending_txns rk' = pending_txns rk1"
    by (rule commit_block_tip [OF _ _ _ _ _ _ c]) (use bt p s1 db in auto)
  have "store_block X blk fresh rk1 = (Ok True, rk')"
    using b c cm by (simp add: store_block_def s1 q)
  then have "rk_add_block X now blk fresh rk = (Ok True, rk')"
    using v new by (simp add: rk_add_block_def get_block_def)
  then show ?thesis using cm hd s1 by auto
qed

text \<open>
  C5: when no transaction is pending, the block that \<open>create_block\<close> makes at a time that is not before
  the head's is accepted by \<open>add_block\<close> at any later time and becomes the new head, provided that
  its hash is new and not zero and the rules of the game accept a block without changes.
\<close>

theorem created_block_becomes_head:
  assumes "keeper_ok X content rk" "pending_txns rk = []" "rk_create_block X now rk = Ok blk"
    and "get_current_block_header X (rk_db rk) = Ok cbh" "\<not> time_less now (timestamp cbh)" "\<not> time_less later now"
    and "accepts_nothing (rk_rules rk)" "room_for X (rk_db rk) 1"
    and "block_calculate_hash X blk \<noteq> U256_ZERO" "get_block_header X (rk_db rk) (block_calculate_hash X blk) = Err e"
  shows "\<exists>rk'. rk_add_block X later blk fresh rk = (Ok True, rk') \<and> keeper_ok X content rk' \<and>
    get_current_block_hash (rk_db rk') = block_calculate_hash X blk"
proof -
  have hash: "header_calculate_hash X cbh = get_current_block_hash (rk_db rk)"
    using assms(1,4) by (simp add: keeper_ok_def tip_ok_def headers_hashed_def get_current_block_header_def)
  have "next_block X later (rk_db rk) blk"
    using assms(2-6) hash
    by (auto simp: rk_create_block_def next_block_def get_current_block_header_def Let_def u256_is_zero_def)
  from next_block_accepted [OF assms(1) this assms(7,9,8,10)] show ?thesis by blast
qed

end
