(* ===== verification/Event_Reads.thy ===== *)
theory Event_Reads
  imports Net_State
begin

text \<open>
  Reading the events of a plot through a \<open>DBState\<close> (\<open>core/src/record_keeper/db_state.rs\<close>) after
  events were added to it and removed from it: what \<open>get_plot_events\<close> returns, in terms of what the
  database under the state returns and of the events the state recorded.
\<close>

subsection \<open>The events a state returns\<close>

lemma fold_remove_events:
  assumes "events_ok evs"
  shows "events_ok (fold (\<lambda>(t, l) evs. remove_events evs t l) rs evs) \<and>
    event_set (fold (\<lambda>(t, l) evs. remove_events evs t l) rs evs) = event_set evs - (\<Union>(t, l)\<in>set rs. {t} \<times> set l)"
  using assms by (induction rs arbitrary: evs) auto

lemma fold_add_events:
  assumes "events_ok evs"
  shows "events_ok (fold (\<lambda>(t, l) evs. add_events evs t l) ns evs) \<and>
    event_set (fold (\<lambda>(t, l) evs. add_events evs t l) ns evs) = event_set evs \<union> (\<Union>(t, l)\<in>set ns. {t} \<times> set l)"
  using assms
proof (induction ns arbitrary: evs)
  case (Cons n ns)
  obtain t l where n: "n = (t, l)" by (cases n)
  show ?case using Cons.IH [of "add_events evs t l"] add_events_set [OF Cons.prems, of t l] by (simp add: n Un_assoc)
qed simp

lemma ticks_from_set:
  assumes "events_ok evs"
  shows "(\<Union>(t, l)\<in>set (ticks_from from evs). {t} \<times> set l) = {(t, e) \<in> event_set evs. from \<le> t}"
proof -
  have "(t, l) \<in> set evs \<longleftrightarrow> map_of evs t = Some l" for t l
    using assms bt_ok_distinct [of evs] by (simp add: events_ok_def)
  then show ?thesis by (auto simp: ticks_from_def event_set_def)
qed

text \<open>The recorded events of one plot from a tick on.\<close>

definition recorded :: "(plot_id, raw_events) hash_map \<Rightarrow> plot_id \<Rightarrow> u64 \<Rightarrow> (u64 \<times> raw_event) set" where
  "recorded m q from = {(t, e). (q, t, e) \<in> plots_set m \<and> from \<le> t}"

lemma recorded_simps [simp]:
  "hm_get m q = None \<Longrightarrow> recorded m q from = {}"
  "hm_get m q = Some evs \<Longrightarrow> recorded m q from = {(t, e) \<in> event_set evs. from \<le> t}"
  by (auto simp: recorded_def plots_set_def)

lemma state_plot_events:
  assumes "diff_events_ok d" and base: "map_not_found (get_plot_events X db q from) [] = Ok B" "events_ok B"
  shows "\<exists>R. get_plot_events X (DBState db d h) q from = Ok R \<and> events_ok R \<and>
    event_set R = (event_set B - recorded (del_events d) q from) \<union> recorded (new_events d) q from"
proof -
  have ok: "events_ok evs" if "hm_get (new_events d) q = Some evs \<or> hm_get (del_events d) q = Some evs" for evs
    using assms(1) that by (auto simp: diff_events_ok_def plots_ok_def)
  define C where "C = (case get_removed_events d q of
      Some r \<Rightarrow> fold (\<lambda>(tick, l) evs. remove_events evs tick l) (ticks_from from r) B | None \<Rightarrow> B)"
  have C: "events_ok C \<and> event_set C = event_set B - recorded (del_events d) q from"
    using fold_remove_events [OF base(2)] ok base(2)
    by (cases "hm_get (del_events d) q") (simp_all add: C_def get_removed_events_def ticks_from_set)
  define R where "R = (case get_new_events d q of
      Some n \<Rightarrow> fold (\<lambda>(tick, l) evs. add_events evs tick l) (ticks_from from n) C | None \<Rightarrow> C)"
  have "events_ok R \<and> event_set R = event_set C \<union> recorded (new_events d) q from"
    using fold_add_events [of C] ok C
    by (cases "hm_get (new_events d) q") (simp_all add: R_def get_new_events_def ticks_from_set)
  moreover have "get_plot_events X (DBState db d h) q from = Ok R"
    unfolding R_def C_def by (simp add: base(1) Let_def)
  ultimately show ?thesis using C by auto
qed

text \<open>
  C28: reading the events of a plot \<open>q\<close> from a tick on through a state in which no event is both to be
  added and to be removed, over a database whose events of the plot can be read. After \<open>_add_event\<close> of
  an event of \<open>p\<close> the read returns this event besides what it returned before, in one case nothing
  more: the state had recorded the removal of the event although the database does not hold it. After
  \<open>_remove_event\<close> the read returns everything but this event, in one case still everything: the state
  had added the event although the database holds it too. Events of other plots, of ticks before the
  first one read, and of plots outside the bounds of the state change nothing, and no event is both to
  be added and to be removed afterwards.
\<close>

theorem state_event_reads:
  assumes "diff_events_ok d" "map_not_found (get_plot_events X db q from) [] = Ok B" "events_ok B"
  shows "\<exists>R d1 d2 R1 R2. get_plot_events X (DBState db d h) q from = Ok R \<and>
    db_add_event X p t e (DBState db d h) = (Ok (), DBState db d1 h) \<and> diff_events_ok d1 \<and>
    get_plot_events X (DBState db d1 h) q from = Ok R1 \<and>
    event_set R1 = (if relevant_plot d p \<and> q = p \<and> from \<le> t \<and>
        \<not> (is_event_removed d p t e \<and> (t, e) \<notin> event_set B)
      then insert (t, e) (event_set R) else event_set R) \<and>
    db_remove_event X p t e (DBState db d h) = (Ok (), DBState db d2 h) \<and> diff_events_ok d2 \<and>
    get_plot_events X (DBState db d2 h) q from = Ok R2 \<and>
    event_set R2 = (if relevant_plot d p \<and> q = p \<and> from \<le> t \<and>
        \<not> ((p, t, e) \<in> plots_set (new_events d) \<and> (t, e) \<in> event_set B)
      then event_set R - {(t, e)} else event_set R)"
proof -
  let ?d1 = "diff_add_event d p t e" and ?d2 = "diff_remove_event d p t e"
  have ok: "diff_events_ok ?d1" "diff_events_ok ?d2" using assms(1) by simp_all
  obtain R where R: "get_plot_events X (DBState db d h) q from = Ok R"
    "event_set R = (event_set B - recorded (del_events d) q from) \<union> recorded (new_events d) q from"
    using state_plot_events [OF assms] by blast
  obtain R1 where R1: "get_plot_events X (DBState db ?d1 h) q from = Ok R1"
    "event_set R1 = (event_set B - recorded (del_events ?d1) q from) \<union> recorded (new_events ?d1) q from"
    using state_plot_events [OF ok(1) assms(2,3)] by blast
  obtain R2 where R2: "get_plot_events X (DBState db ?d2 h) q from = Ok R2"
    "event_set R2 = (event_set B - recorded (del_events ?d2) q from) \<union> recorded (new_events ?d2) q from"
    using state_plot_events [OF ok(2) assms(2,3)] by blast
  have rem: "is_event_removed d p t e \<longleftrightarrow> (p, t, e) \<in> plots_set (del_events d)"
    by (auto simp: is_event_removed_def plots_set_def event_set_def split: option.splits)
  have plots: "plots_ok (new_events d)" "plots_ok (del_events d)"
    "plots_set (new_events d) \<inter> plots_set (del_events d) = {}"
    using assms(1) by (simp_all add: diff_events_ok_def)
  have "event_set R1 = (if relevant_plot d p \<and> q = p \<and> from \<le> t \<and>
        \<not> (is_event_removed d p t e \<and> (t, e) \<notin> event_set B)
      then insert (t, e) (event_set R) else event_set R)"
    unfolding R1(2) R(2) rem using plots
    by (auto simp: diff_add_event_def Let_def split_beta plots_remove_removed recorded_def)
  moreover have "event_set R2 = (if relevant_plot d p \<and> q = p \<and> from \<le> t \<and>
        \<not> ((p, t, e) \<in> plots_set (new_events d) \<and> (t, e) \<in> event_set B)
      then event_set R - {(t, e)} else event_set R)"
    unfolding R2(2) R(2) using plots
    by (auto simp: diff_remove_event_def Let_def split_beta plots_remove_removed recorded_def)
  ultimately show ?thesis
    using R(1) R1(1) R2(1) ok
    by (intro exI [of _ R] exI [of _ ?d1] exI [of _ ?d2] exI [of _ R1] exI [of _ R2]) simp
qed

end
