(* ===== verification/Chain_Demo.thy ===== *)
theory Chain_Demo
  imports Walk
begin

text \<open>
  A small chain in the in-memory instance: a genesis block, two children of it and the head on
  the first child. It applies the theorems on the chain to concrete databases.
\<close>

definition demo_header :: "u16 \<Rightarrow> u256 \<Rightarrow> block_header" where
  "demo_header v p = \<lparr>version = v, timestamp = 0, shard = U256_ZERO, prev = p,
     merkle_root = U256_ZERO, blob = []\<rparr>"

definition demo_block :: "u16 \<Rightarrow> u256 \<Rightarrow> block" where
  "demo_block v p = \<lparr>header = demo_header v p, txns = []\<rparr>"

definition demo_empty :: "mem_store dbase" where
  "demo_empty = DatabaseImpl [] head_ref_default"

text \<open>The hash of a demo block: the instance's digest keeps the front of the encoded header.\<close>

definition demo_hash :: "u16 \<Rightarrow> u256" where
  "demo_hash v = block_calculate_hash mem_ext (demo_block v U256_ZERO)"

lemma demo_hash_values:
  "demo_hash 1 = U256 0 0 0 0x100000000000000" "demo_hash 2 = U256 0 0 0 0x200000000000000"
  "demo_hash 3 = U256 0 0 0 0x300000000000000"
  by code_simp+

lemma demo_ser:
  "take 32 (ser (header_codec mem_ext) (demo_header v p)) =
   take 32 (ser (header_codec mem_ext) (demo_header v U256_ZERO))"
  "32 \<le> length (ser (header_codec mem_ext) (demo_header v p))"
  by (auto simp: mem_ext_def codec_of_def fmt_header_def fmt_iso_def fmt_pair_def fmt_word_def
    fmt_u64_def fmt_u256_def demo_header_def U256_ZERO_def)

lemma demo_hash: "block_calculate_hash mem_ext (demo_block v p) = demo_hash v"
proof -
  have sha: "sha3_256 mem_ext b = take 32 b" if "32 \<le> length b" for b
    using that by (simp add: mem_ext_def)
  show ?thesis
    using demo_ser(1) [of v p] demo_ser(2) [of v p] demo_ser(2) [of v U256_ZERO]
    by (simp add: demo_hash_def block_calculate_hash_def header_calculate_hash_def hash_obj_def
      hash_bytes_def Let_def demo_block_def sha digest_into_def)
qed

lemma demo_nonzero: "v \<in> {1, 2, 3} \<Longrightarrow> demo_hash v \<noteq> U256_ZERO"
  using demo_hash_values by (auto simp: U256_ZERO_def)

subsection \<open>Growing the chain\<close>

text \<open>What a demo database satisfies: the assumptions of the theorems on the chain.\<close>

definition demo_ok :: "mem_store dbase \<Rightarrow> bool" where
  "demo_ok db \<longleftrightarrow> db_ok db \<and> chain_inv mem_ext db \<and> txn_caches_ok mem_ext db"

lemma demo_store: "store_ok mem_ext map_of db \<longleftrightarrow> db_ok db"
  using mem.rocksdb_axioms mem_codecs_ok by (simp add: store_ok_def)

lemma demo_empty_ok: "demo_ok demo_empty"
proof -
  have g: "db_get mem_ext demo_empty k = Err (NotFound k)" for k
    by (simp add: demo_empty_def get_raw_data_static_def mem_ext_def)
  show ?thesis
    by (simp add: demo_ok_def chain_inv_def txn_caches_ok_def known_block_def stored_height_def
      get_block_header_def get_blocks_of_height_def get_txn_blocks_def g)
      (simp add: demo_empty_def get_current_block_hash_def get_current_block_height_def head_ref_default_def)
qed

text \<open>Adding a new demo block below a known parent (or at the origin of an empty chain).\<close>

definition demo_add :: "u16 \<Rightarrow> u256 \<Rightarrow> mem_store dbase \<Rightarrow> mem_store dbase" where
  "demo_add v p db = snd (add_block mem_ext (demo_block v p) db)"

lemma demo_add_run:
  assumes "demo_ok db" "v \<in> {1, 2, 3}" "\<not> known_block mem_ext db (demo_hash v)"
    and "get_block_height mem_ext db p = Ok n" "unat n < 1000"
  shows "add_block mem_ext (demo_block v p) db = (Ok True, demo_add v p db)"
    "demo_ok (demo_add v p db)"
    "known_block mem_ext (demo_add v p db) x \<longleftrightarrow> x = demo_hash v \<or> known_block mem_ext db x"
    "stored_height mem_ext (demo_add v p db) x =
      (if x = demo_hash v then Some (n + 1) else stored_height mem_ext db x)"
    "db_head (demo_add v p db) = db_head db"
    "x \<noteq> demo_hash v \<Longrightarrow> db_get mem_ext (demo_add v p db) (Cache (HeightByBlock x)) =
      db_get mem_ext db (Cache (HeightByBlock x))"
proof -
  have ok: "store_ok mem_ext map_of db" using assms(1) by (simp add: demo_store demo_ok_def)
  have p: "prev (header (demo_block v p)) = p" "txns (demo_block v p) = []"
    by (simp_all add: demo_block_def demo_header_def)
  obtain db' where run: "add_block mem_ext (demo_block v p) db = (Ok True, db')"
    using store.add_block_total [OF ok, of "demo_block v p" n] assms(1,3,4)
    by (auto simp: demo_ok_def demo_hash p)
  then have db': "demo_add v p db = db'" by (simp add: demo_add_def)
  show "add_block mem_ext (demo_block v p) db = (Ok True, demo_add v p db)" using run db' by simp
  obtain m l where m: "get_block_height mem_ext db p = Ok m"
    and e: "store_ok mem_ext map_of db'" "db_head db' = db_head db"
    and v1: "db_val map_of db' (Blockchain (BlockHeaderE (demo_hash v))) =
       Some (ser (header_codec mem_ext) (header (demo_block v p)))"
    and v2: "db_val map_of db' (Cache (HeightByBlock (demo_hash v))) = Some (write_le 8 (m + 1))"
    and same: "\<And>k. chain_key k \<Longrightarrow>
       k \<notin> {Blockchain (BlockHeaderE (demo_hash v)), Blockchain (TxnListE (merkle_root (header (demo_block v p)))),
            Cache (HeightByBlock (demo_hash v)), Cache (BlocksByHeight (m + 1))} \<Longrightarrow>
       db_val map_of db' k = db_val map_of db k"
    using store.add_block_effect [OF ok run] unfolding demo_hash p by (metis (no_types, lifting) Un_empty_right image_empty list.set(1))
  have mn: "m = n" using m assms(4) by simp
  have "chain_inv mem_ext db'"
    by (rule store.add_block_chain_inv [OF ok _ run])
      (use assms demo_nonzero [OF assms(2)] in \<open>auto simp: demo_ok_def demo_hash p\<close>)
  moreover have "txn_caches_ok mem_ext db'"
    using assms(1) same by (auto simp: demo_ok_def store.txn_caches_val [OF ok] store.txn_caches_val [OF e(1)])
  ultimately show "demo_ok (demo_add v p db)" using e(1) by (simp add: db' demo_ok_def demo_store)
  show "db_head (demo_add v p db) = db_head db" using e(2) by (simp add: db')
  show "x \<noteq> demo_hash v \<Longrightarrow> db_get mem_ext (demo_add v p db) (Cache (HeightByBlock x)) =
      db_get mem_ext db (Cache (HeightByBlock x))"
    using same [of "Cache (HeightByBlock x)"] by (simp add: db' store.get_val [OF ok] store.get_val [OF e(1)])
  show "known_block mem_ext (demo_add v p db) x \<longleftrightarrow> x = demo_hash v \<or> known_block mem_ext db x"
    using v1 same [of "Blockchain (BlockHeaderE x)"] mem_codecs_ok
    by (cases "x = demo_hash v") (auto simp: db' store.known_val [OF ok] store.known_val [OF e(1)])
  show "stored_height mem_ext (demo_add v p db) x =
      (if x = demo_hash v then Some (n + 1) else stored_height mem_ext db x)"
    using v2 same [of "Cache (HeightByBlock x)"] mn
    by (cases "x = demo_hash v") (auto simp: db' store.stored_height_val [OF ok] store.stored_height_val [OF e(1)])
qed

lemma db_get_set_head [simp]: "db_get X (set_head r db) k = db_get X db k"
  by (cases db) auto

lemma readings_set_head [simp]:
  "get_block_header X (set_head r db) b = get_block_header X db b"
  "stored_height X (set_head r db) b = stored_height X db b"
  "known_block X (set_head r db) b = known_block X db b"
  "get_blocks_of_height X (set_head r db) n = get_blocks_of_height X db n"
  "get_txn_blocks X (set_head r db) t = get_txn_blocks X db t"
  "get_current_block_hash (set_head r db) = href_block r"
  "get_current_block_height (set_head r db) = href_height r"
  by (simp_all add: get_block_header_def stored_height_def known_block_def get_blocks_of_height_def
    get_txn_blocks_def get_current_block_hash_def get_current_block_height_def)

lemma demo_ok_set_head:
  assumes "demo_ok db" "known_block mem_ext db b" "stored_height mem_ext db b = Some n"
  shows "demo_ok (set_head \<lparr>href_block = b, href_height = n\<rparr> db)"
proof -
  have "chain_inv mem_ext (set_head \<lparr>href_block = b, href_height = n\<rparr> db)"
    by (rule chain_inv_same_blocks [where db = db]) (use assms in \<open>auto simp: demo_ok_def same_blocks_def\<close>)
  then show ?thesis using assms(1) by (simp add: demo_ok_def txn_caches_ok_def)
qed

text \<open>The genesis block with the head on it, then two children.\<close>

definition demo1 :: "mem_store dbase" where
  "demo1 = set_head \<lparr>href_block = demo_hash 1, href_height = 1\<rparr> (demo_add 1 U256_ZERO demo_empty)"

definition demo2 :: "mem_store dbase" where
  "demo2 = demo_add 2 (demo_hash 1) demo1"

definition demo3 :: "mem_store dbase" where
  "demo3 = demo_add 3 (demo_hash 1) demo2"

lemma demo_hash_distinct [simp]:
  "demo_hash 1 \<noteq> demo_hash 2" "demo_hash 1 \<noteq> demo_hash 3" "demo_hash 2 \<noteq> demo_hash 3"
  "demo_hash 2 \<noteq> demo_hash 1" "demo_hash 3 \<noteq> demo_hash 1" "demo_hash 3 \<noteq> demo_hash 2"
  "demo_hash 1 \<noteq> U256_ZERO" "demo_hash 2 \<noteq> U256_ZERO" "demo_hash 3 \<noteq> U256_ZERO"
  by (simp_all add: demo_hash_values U256_ZERO_def)

lemma demo_empty_reads:
  "\<not> known_block mem_ext demo_empty b" "stored_height mem_ext demo_empty b = None"
  "get_block_height mem_ext demo_empty U256_ZERO = Ok 0"
  by (simp_all add: known_block_def stored_height_def get_block_header_def get_block_height_def
    demo_empty_def get_raw_data_static_def mem_ext_def get_current_block_hash_def
    get_current_block_height_def head_ref_default_def)

lemmas demo_add0 = demo_add_run [OF demo_empty_ok _ demo_empty_reads(1,3)]

lemma demo1_facts:
  "demo_ok demo1" "known_block mem_ext demo1 b \<longleftrightarrow> b = demo_hash 1"
  "stored_height mem_ext demo1 b = (if b = demo_hash 1 then Some 1 else None)"
  "get_current_block_hash demo1 = demo_hash 1" "get_current_block_height demo1 = 1"
  using demo_add0 [of 1] demo_ok_set_head [of "demo_add 1 U256_ZERO demo_empty" "demo_hash 1" 1]
  by (simp_all add: demo1_def demo_empty_reads)

lemma demo1_height: "get_block_height mem_ext demo1 (demo_hash 1) = Ok 1"
  by (simp add: get_block_height_def demo1_facts)

lemmas demo_add1 = demo_add_run [OF demo1_facts(1), of 2 "demo_hash 1" 1, folded demo2_def]

lemma demo2_facts:
  "demo_ok demo2" "known_block mem_ext demo2 b \<longleftrightarrow> b \<in> {demo_hash 1, demo_hash 2}"
  "stored_height mem_ext demo2 b =
    (if b = demo_hash 2 then Some 2 else if b = demo_hash 1 then Some 1 else None)"
  "get_current_block_hash demo2 = demo_hash 1" "get_current_block_height demo2 = 1"
  using demo_add1 demo1_facts(4,5)
  by (auto simp: demo1_facts demo1_height get_current_block_hash_def get_current_block_height_def)

lemma demo2_height: "get_block_height mem_ext demo2 (demo_hash 1) = Ok 1"
  by (simp add: get_block_height_def demo2_facts)

lemmas demo_add2 = demo_add_run [OF demo2_facts(1), of 3 "demo_hash 1" 1, folded demo3_def]

lemma demo3_facts:
  "demo_ok demo3" "known_block mem_ext demo3 b \<longleftrightarrow> b \<in> {demo_hash 1, demo_hash 2, demo_hash 3}"
  "stored_height mem_ext demo3 b =
    (if b = demo_hash 3 then Some 2 else stored_height mem_ext demo2 b)"
  "get_current_block_hash demo3 = demo_hash 1" "get_current_block_height demo3 = 1"
  using demo_add2 demo2_facts(4,5)
  by (auto simp: demo2_facts(2) demo2_height get_current_block_hash_def get_current_block_height_def)

subsection \<open>Witnesses\<close>

text \<open>Adding the second block to the genesis chain keeps the invariant.\<close>

theorem add_block_keeps_chain_inv_witness:
  "add_block mem_ext (demo_block 2 (demo_hash 1)) demo1 = (Ok True, demo2) \<and> chain_inv mem_ext demo2"
proof -
  have run: "add_block mem_ext (demo_block 2 (demo_hash 1)) demo1 = (Ok True, demo2)"
    using demo_add1(1) by (simp add: demo1_facts demo1_height)
  have p: "prev (header (demo_block 2 (demo_hash 1))) = demo_hash 1"
    by (simp add: demo_block_def demo_header_def)
  show ?thesis
    using add_block_keeps_chain_inv [OF mem.rocksdb_axioms mem_codecs_ok _ _ run] demo1_facts(1)
    by (simp add: run demo_ok_def demo_hash p demo1_height)
qed

text \<open>Adding the genesis block again is refused, adding a block with an unknown parent fails.\<close>

theorem add_block_outcomes_witness:
  "add_block mem_ext (demo_block 1 U256_ZERO) demo1 = (Ok False, demo1) \<and>
   (\<exists>db' e. add_block mem_ext (demo_block 2 (demo_hash 3)) demo1 = (Err e, db') \<and>
      known_block mem_ext db' (demo_hash 2))"
proof -
  have g: "get_block_height mem_ext demo1 (demo_hash 3) = Err (NotFound (Cache (HeightByBlock (demo_hash 3))))"
  proof -
    have "db_get mem_ext demo1 (Cache (HeightByBlock (demo_hash 3))) =
        Err (NotFound (Cache (HeightByBlock (demo_hash 3))))"
      using demo_add0(6) [of 1 "demo_hash 3"]
      by (simp add: demo1_def) (simp add: demo_empty_def get_raw_data_static_def mem_ext_def)
    then show ?thesis by (simp add: get_block_height_def demo1_facts)
  qed
  have p: "prev (header (demo_block 2 (demo_hash 3))) = demo_hash 3"
    by (simp add: demo_block_def demo_header_def)
  note t = add_block_outcomes [OF mem.rocksdb_axioms mem_codecs_ok, of demo1]
  from t [of "demo_block 1 U256_ZERO"] t [of "demo_block 2 (demo_hash 3)"] show ?thesis
    using demo1_facts(1) g by (auto simp: demo_ok_def demo_hash demo1_facts p)
qed

text \<open>The tree of the demo chain.\<close>

lemma demo_header_stored:
  assumes "demo_ok db" "v \<in> {1, 2, 3}" "\<not> known_block mem_ext db (demo_hash v)"
    and "get_block_height mem_ext db p = Ok n" "unat n < 1000"
  shows "get_block mem_ext (demo_add v p db) (demo_hash v) = Ok (demo_block v p)"
    "get_block_header mem_ext (demo_add v p db) (demo_hash v) = Ok (demo_header v p)"
proof -
  have ok: "store_ok mem_ext map_of db" using assms(1) by (simp add: demo_store demo_ok_def)
  show *: "get_block mem_ext (demo_add v p db) (demo_hash v) = Ok (demo_block v p)"
    using store.get_block_added [OF ok demo_add_run(1) [OF assms]] by (simp add: demo_hash)
  then show "get_block_header mem_ext (demo_add v p db) (demo_hash v) = Ok (demo_header v p)"
    by (auto simp: get_block_def complete_block_def result_simps demo_block_def)
qed

lemma demo2_block:
  "get_block mem_ext demo2 (demo_hash 2) = Ok (demo_block 2 (demo_hash 1))"
  "get_block_header mem_ext demo2 (demo_hash 2) = Ok (demo_header 2 (demo_hash 1))"
  using demo_header_stored [OF demo1_facts(1), of 2 "demo_hash 1" 1]
  by (simp_all add: demo1_facts demo1_height demo2_def)

lemma demo2_tree:
  "block_ht mem_ext demo2 (demo_hash 1) = 1" "block_ht mem_ext demo2 (demo_hash 2) = 2"
  "parent mem_ext demo2 (demo_hash 2) = demo_hash 1" "parent mem_ext demo2 (demo_hash 1) = U256_ZERO"
proof -
  show h: "block_ht mem_ext demo2 (demo_hash 1) = 1" "block_ht mem_ext demo2 (demo_hash 2) = 2"
    by (simp_all add: block_ht_def demo2_facts)
  show "parent mem_ext demo2 (demo_hash 2) = demo_hash 1"
    by (simp add: parent_def demo2_block demo_header_def)
  have "chain_node mem_ext demo2 (demo_hash 1)"
    using demo2_facts(1) by (simp add: chain_node_def demo_ok_def demo2_facts)
  then show "parent mem_ext demo2 (demo_hash 1) = U256_ZERO"
    using tree.anc_is_root [of mem_ext demo2 "demo_hash 1" 1] h by simp
qed

lemma demo_meet: "meet (parent mem_ext demo2) (block_ht mem_ext demo2) (demo_hash 1) (demo_hash 2) 0 1"
proof -
  have "0 < j" if "i \<le> 1" "(parent mem_ext demo2 ^^ i) (demo_hash 1) = (parent mem_ext demo2 ^^ j) (demo_hash 2)" for i j
    using that not_sym [OF demo_hash_distinct(8)] by (cases i; cases j) (auto simp: demo2_tree)
  then show ?thesis by (auto simp: meet_def demo2_tree Suc_le_eq)
qed

lemma demo_shards:
  "\<forall>ha hb. get_block_header mem_ext demo2 (get_current_block_hash demo2) = Ok ha \<longrightarrow>
      get_block_header mem_ext demo2 (demo_hash 2) = Ok hb \<longrightarrow>
      shard ha = shard hb \<or> shard ha = U256_ZERO \<or> shard hb = U256_ZERO"
  by (simp add: demo2_block demo_header_def)

theorem block_path_correct_witness:
  "calculate_block_path mem_ext demo2 (demo_hash 1) (demo_hash 2) = Ok ([], [(2, demo_hash 2)])"
proof -
  have inv: "chain_inv mem_ext demo2" using demo2_facts(1) by (simp add: demo_ok_def)
  obtain i j where m: "meet (parent mem_ext demo2) (block_ht mem_ext demo2) (demo_hash 1) (demo_hash 2) i j"
    and path: "calculate_block_path mem_ext demo2 (demo_hash 1) (demo_hash 2) =
      Ok (branch mem_ext demo2 (demo_hash 1) i, branch mem_ext demo2 (demo_hash 2) j)"
    using block_path_correct [OF inv, of "demo_hash 2"] demo_shards
    by (auto simp: demo2_facts split: if_splits)
  have "i = 0" using m demo_meet unfolding meet_def by (metis le_zero_eq zero_le)
  moreover have "j = 1" using m demo_meet unfolding meet_def by (meson le_antisym)
  ultimately show ?thesis using path by (simp add: branch_def demo2_tree)
qed

theorem find_chain_head_highest_witness:
  "find_chain_head mem_ext demo2 = Ok (demo_hash 2)"
proof -
  have inv: "chain_inv mem_ext demo2" using demo2_facts(1) by (simp add: demo_ok_def)
  obtain c where "find_chain_head mem_ext demo2 = Ok c" "c \<in> {demo_hash 1, demo_hash 2}"
    "block_ht mem_ext demo2 (demo_hash 2) \<le> block_ht mem_ext demo2 c"
    using find_chain_head_highest [OF inv] by (auto simp: demo2_facts)
  then show ?thesis using demo2_tree by auto
qed

lemma demo_walk_run: "\<exists>t db'. walk mem_ext (demo_hash 2) demo2 = (Ok (0, t), db')"
proof -
  have inv: "chain_inv mem_ext demo2" using demo2_facts(1) by (simp add: demo_ok_def)
  have ok: "store_ok mem_ext map_of demo2" using demo2_facts(1) by (simp add: demo_store demo_ok_def)
  have path: "calculate_block_path mem_ext demo2 (demo_hash 1) (demo_hash 2) = Ok ([], [(2, demo_hash 2)])"
    using block_path_meet [OF inv _ _ _ _ demo_meet] demo_shards
    by (simp add: demo2_facts branch_def demo2_tree)
  obtain l where "get_blocks_of_height mem_ext demo2 2 = Ok l" "demo_hash 2 \<in> set l"
    using chain_inv_height(1) [OF inv, of 2] by (auto simp: demo2_facts)
  then obtain e db' where "redo_block mem_ext (2, demo_hash 2) 0 demo2 = (Ok e, db')"
    using store.redo_empty_block [OF ok demo2_block(1), of 2 l 0] by (simp add: demo_block_def) blast
  then show ?thesis using path
    by (simp add: walk_def bind_st_def read_st_def demo2_facts u256_is_zero_def)
qed

text \<open>From the genesis block, the walk to its child undoes nothing and moves the head there.\<close>

theorem walk_reaches_target_witness:
  "\<exists>t db'. walk mem_ext (demo_hash 2) demo2 = (Ok (0, t), db') \<and>
     get_current_block_hash db' = demo_hash 2 \<and> get_current_block_height db' = 2 \<and>
     chain_inv mem_ext db' \<and> marks_ok mem_ext db'"
proof -
  have inv: "chain_inv mem_ext demo2" using demo2_facts(1) by (simp add: demo_ok_def)
  have "get_blocks_of_height mem_ext demo2 1 = Ok [demo_hash 1]"
  proof -
    obtain l where l: "get_blocks_of_height mem_ext demo2 1 = Ok l" "distinct l"
      and m: "\<forall>b. b \<in> set l \<longleftrightarrow> known_block mem_ext demo2 b \<and> stored_height mem_ext demo2 b = Some 1"
      using chain_inv_height(1) [OF inv, of 1] by blast
    have s: "set l = {demo_hash 1}" using m by (auto simp: demo2_facts split: if_splits)
    then have "length l = 1" using l(2) distinct_card [of l] by simp
    then obtain x where "l = [x]" by (cases l) auto
    then show ?thesis using s l(1) by simp
  qed
  then have "get_current_block_of_height mem_ext demo2 1 = Ok (demo_hash 1)"
    by (auto simp: get_blocks_of_height_def get_current_block_of_height_def result_simps
      split: result.splits error.splits)
  then have marks: "marks_ok mem_ext demo2" by (simp add: marks_ok_def demo2_facts demo2_tree)
  obtain t db' where w: "walk mem_ext (demo_hash 2) demo2 = (Ok (0, t), db')"
    using demo_walk_run by blast
  show ?thesis
    using walk_reaches_target [OF mem.rocksdb_axioms mem_codecs_ok _ inv marks _ _ w]
      demo2_facts(1) w by (auto simp: demo2_facts demo2_tree demo_ok_def)
qed

text \<open>Two transactions in two orders have different roots.\<close>

theorem merkle_root_determines_txns_witness:
  "calculate_merkle_root mem_ext [demo_hash 1, demo_hash 2] \<noteq>
   calculate_merkle_root mem_ext [demo_hash 2, demo_hash 1]"
proof
  let ?a = "demo_hash 1" and ?b = "demo_hash 2"
  assume eq: "calculate_merkle_root mem_ext [?a, ?b] = calculate_merkle_root mem_ext [?b, ?a]"
  have pairs: "set (merkle_pairs mem_ext [x, y]) = {(x, y)}" for x y
    by (simp add: merkle_pairs.simps [of _ "[_, _]"] merkle_pairs.simps [of _ "[_]"]
      merkle_level_merge_pairs)
  have "merge_hashes mem_ext ?a ?b \<noteq> merge_hashes mem_ext ?b ?a"
    unfolding demo_hash_values by code_simp
  then have "inj_on (\<lambda>(a, b). merge_hashes mem_ext a b)
      (set (merkle_pairs mem_ext [?a, ?b]) \<union> set (merkle_pairs mem_ext [?b, ?a]))"
    by (auto simp: pairs inj_on_def)
  from merkle_root_determines_txns [OF this _ eq] show False by simp
qed

end
