(* ===== verification/Checkers.thy ===== *)
theory Checkers
  imports Big_Uint
begin

text \<open>
  The checkers game of \<open>checkers/src/checkers.rs\<close>: players, directions, tiles, the board and the
  moves on it. A board is a list of eight rows of eight tiles; reading outside of it is a panic.
  The lemmas show that a play never panics, that a refused play leaves the board as it was, what
  a play does to the pieces, and that every board reached from the starting position is one of a
  checkers game.
\<close>

section \<open>Players, directions and tiles\<close>

datatype player = Red | Black

datatype checkers_error = GameAlreadyStarted | InvalidPlay | WrongPlayer | MissingPiece | InvalidCoordinate

definition from_turn :: "u64 \<Rightarrow> (player, checkers_error) result" where
  "from_turn turn =
     (if turn = 0 \<or> turn = 1 then Err InvalidPlay
      else if turn mod 2 = 0 then Ok Red else Ok Black)"

datatype checkers_dir = NW | NE | SE | SW

fun dir_vec :: "checkers_dir \<Rightarrow> i8 \<times> i8" where
  "dir_vec NW = (-1, -1)"
| "dir_vec NE = (-1, 1)"
| "dir_vec SE = (1, 1)"
| "dir_vec SW = (1, -1)"

text \<open>The casts: \<open>usize as i8\<close> keeps the low eight bits, \<open>i8 as usize\<close> extends the sign.\<close>

definition move_in_dir_c :: "checkers_dir \<Rightarrow> usize \<Rightarrow> usize \<Rightarrow> usize \<times> usize" where
  "move_in_dir_c d r c =
     (let (dr, dc) = dir_vec d in (scast ((ucast r :: i8) + dr), scast ((ucast c :: i8) + dc)))"

definition jump_in_dir :: "checkers_dir \<Rightarrow> usize \<Rightarrow> usize \<Rightarrow> usize \<times> usize" where
  "jump_in_dir d r c =
     (let (dr, dc) = dir_vec d in (scast ((ucast r :: i8) + dr * 2), scast ((ucast c :: i8) + dc * 2)))"

datatype checkers_event =
    Start u160 u160
  | Join u160
  | Move u8 checkers_dir
  | Jump u8 "checkers_dir list"

datatype tile = NoneT | RedT | RedKing | BlackT | BlackKing

fun upgrade :: "tile \<Rightarrow> tile" where
  "upgrade RedT = RedKing"
| "upgrade BlackT = BlackKing"
| "upgrade t = t"

fun is_this_player :: "tile \<Rightarrow> player \<Rightarrow> bool" where
  "is_this_player RedT player = (player = Red)"
| "is_this_player RedKing player = (player = Red)"
| "is_this_player BlackT player = (player = Black)"
| "is_this_player BlackKing player = (player = Black)"
| "is_this_player NoneT player = False"

fun is_other_player :: "tile \<Rightarrow> player \<Rightarrow> bool" where
  "is_other_player RedT player = (player \<noteq> Red)"
| "is_other_player RedKing player = (player \<noteq> Red)"
| "is_other_player BlackT player = (player \<noteq> Black)"
| "is_other_player BlackKing player = (player \<noteq> Black)"
| "is_other_player NoneT player = False"

fun valid_direction :: "tile \<Rightarrow> checkers_dir \<Rightarrow> bool" where
  "valid_direction RedT dir = (dir = NE \<or> dir = NW)"
| "valid_direction BlackT dir = (dir = SE \<or> dir = SW)"
| "valid_direction RedKing dir = True"
| "valid_direction BlackKing dir = True"
| "valid_direction NoneT dir = False"

fun checkers_description :: "checkers_error \<Rightarrow> string" where
  "checkers_description GameAlreadyStarted = ''Game already started.''"
| "checkers_description InvalidPlay = ''Cannot move the piece in that way.''"
| "checkers_description WrongPlayer = ''Cannot move the other players pieces.''"
| "checkers_description MissingPiece = ''Cannot move nothing...''"
| "checkers_description InvalidCoordinate = ''The coordinate specified is not on the board.''"

section \<open>The board\<close>

type_synonym board = "tile list list"

definition board_default :: board where
  "board_default =
     (let N = NoneT; R = RedT; B = BlackT in
       [[B, N, B, N, B, N, B, N],
        [N, B, N, B, N, B, N, B],
        [B, N, B, N, B, N, B, N],
        replicate 8 N,
        replicate 8 N,
        [N, R, N, R, N, R, N, R],
        [R, N, R, N, R, N, R, N],
        [N, R, N, R, N, R, N, R]])"

definition board_new :: board where
  "board_new = replicate 8 (replicate 8 NoneT)"

text \<open>\<open>self.0[r][c]\<close>, read and written.\<close>

definition tile_at :: "board \<Rightarrow> usize \<Rightarrow> usize \<Rightarrow> (tile, checkers_error) result" where
  "tile_at b r c = (if r < 8 \<and> c < 8 then Ok (b ! unat r ! unat c) else Panic)"

definition set_tile :: "board \<Rightarrow> usize \<Rightarrow> usize \<Rightarrow> tile \<Rightarrow> (board, checkers_error) result" where
  "set_tile b r c t =
     (if r < 8 \<and> c < 8 then Ok (b[unat r := (b ! unat r)[unat c := t]]) else Panic)"

definition idx_to_rc :: "u8 \<Rightarrow> (u8 \<times> u8, checkers_error) result" where
  "idx_to_rc idx = (if 63 < idx then Err InvalidCoordinate else Ok (idx div 8, idx mod 8))"

definition rc_to_idx :: "u8 \<Rightarrow> u8 \<Rightarrow> (u8, checkers_error) result" where
  "rc_to_idx r c = (if 7 < r \<or> 7 < c then Err InvalidCoordinate else Ok (r * 8 + c))"

text \<open>
  \<open>play\<close> is an action on the board: it reads and writes single tiles, a refusal or a panic leaves the
  board as the steps before it made it.
\<close>

definition get_tile :: "usize \<Rightarrow> usize \<Rightarrow> (board, tile, checkers_error) action" where
  "get_tile r c = read_st (\<lambda>b. tile_at b r c)"

definition put_tile :: "usize \<Rightarrow> usize \<Rightarrow> tile \<Rightarrow> (board, unit, checkers_error) action" where
  "put_tile r c t b =
     (case set_tile b r c t of
        Ok b' \<Rightarrow> (Ok (), b') | Err e \<Rightarrow> (Err e, b) | Panic \<Rightarrow> (Panic, b) | Diverge \<Rightarrow> (Diverge, b))"

definition refuse :: "checkers_error \<Rightarrow> (board, 'a, checkers_error) action" where
  "refuse e b = (Err e, b)"

text \<open>Upgrade the piece that reached the first or the last row.\<close>

definition promote :: "usize \<Rightarrow> usize \<Rightarrow> (board, unit, checkers_error) action" where
  "promote nr nc =
     (if nr = 0 \<or> nr = 7 then bind_st (get_tile nr nc) (\<lambda>t. put_tile nr nc (upgrade t)) else return_st ())"

text \<open>The ownership checks at the start of both moves.\<close>

definition own_piece :: "usize \<Rightarrow> usize \<Rightarrow> player \<Rightarrow> (board, unit, checkers_error) action" where
  "own_piece r c player =
     bind_st (get_tile r c)
       (\<lambda>t. if t = NoneT then refuse MissingPiece
            else if \<not> is_this_player t player then refuse WrongPlayer else return_st ())"

definition play_move :: "u8 \<Rightarrow> checkers_dir \<Rightarrow> player \<Rightarrow> (board, unit, checkers_error) action" where
  "play_move idx dir player =
     bind_st (read_st (\<lambda>_. idx_to_rc idx)) (\<lambda>(r8, c8). let r = ucast r8; c = ucast c8 in
       bind_st (own_piece r c player)
         (\<lambda>_. bind_st (get_tile r c)
           (\<lambda>t. if \<not> valid_direction t dir then refuse InvalidPlay
             else let (nr, nc) = move_in_dir_c dir r c in
               bind_st (if 7 < nr \<or> 7 < nc then return_st True
                        else bind_st (get_tile nr nc) (\<lambda>n. return_st (n \<noteq> NoneT)))
                 (\<lambda>blocked. if blocked then refuse InvalidPlay
                   else bind_st (get_tile r c)
                     (\<lambda>t. bind_st (put_tile nr nc t)
                       (\<lambda>_. bind_st (put_tile r c NoneT) (\<lambda>_. promote nr nc)))))))"

text \<open>The end of an invalid jump: the board gets the copy made before the first jump.\<close>

definition invalid_jump :: "board \<Rightarrow> (board, 'a, checkers_error) action" where
  "invalid_jump old_board = bind_st (\<lambda>_. (Ok (), old_board)) (\<lambda>_. refuse InvalidPlay)"

text \<open>
  One jump of the loop: from \<open>(r, c)\<close> over the neighbour onto the tile behind it, which is the
  position of the next one.
\<close>

definition jump_step ::
  "player \<Rightarrow> board \<Rightarrow> checkers_dir \<Rightarrow> usize \<times> usize \<Rightarrow> (board, usize \<times> usize, checkers_error) action" where
  "jump_step player old_board dir = (\<lambda>(r, c).
     bind_st (get_tile r c)
       (\<lambda>t. if \<not> valid_direction t dir then invalid_jump old_board
         else let (pr, pc) = move_in_dir_c dir r c; (nr, nc) = jump_in_dir dir r c in
           bind_st
             (if 7 < nr \<or> 7 < nc then return_st True
              else bind_st (get_tile nr nc)
                (\<lambda>n. if n \<noteq> NoneT then return_st True
                     else bind_st (get_tile pr pc) (\<lambda>p. return_st (\<not> is_other_player p player))))
             (\<lambda>blocked. if blocked then invalid_jump old_board
               else bind_st (get_tile r c)
                 (\<lambda>t. bind_st (put_tile nr nc t)
                   (\<lambda>_. bind_st (put_tile pr pc NoneT)
                     (\<lambda>_. bind_st (put_tile r c NoneT) (\<lambda>_. return_st (nr, nc))))))))"

definition play_jump :: "u8 \<Rightarrow> checkers_dir list \<Rightarrow> player \<Rightarrow> (board, unit, checkers_error) action" where
  "play_jump idx path player =
     bind_st (read_st (\<lambda>_. idx_to_rc idx)) (\<lambda>(r8, c8). let r = ucast r8; c = ucast c8 in
       bind_st (own_piece r c player)
         (\<lambda>_. bind_st (read_st Ok)
           (\<lambda>old_board. bind_st (fold_st (jump_step player old_board) path (r, c))
             (\<lambda>(nr, nc). promote nr nc))))"

definition play :: "checkers_event \<Rightarrow> player \<Rightarrow> (board, unit, checkers_error) action" where
  "play event player =
     (case event of
        Move idx dir \<Rightarrow> play_move idx dir player
      | Jump idx path \<Rightarrow> play_jump idx path player
      | Start _ _ \<Rightarrow> refuse GameAlreadyStarted
      | Join _ \<Rightarrow> refuse GameAlreadyStarted)"

section \<open>The geometry of the board\<close>

text \<open>The squares by row and column, and the change of both in a direction.\<close>

fun delta :: "checkers_dir \<Rightarrow> int \<times> int" where
  "delta NW = (-1, -1)"
| "delta NE = (-1, 1)"
| "delta SE = (1, 1)"
| "delta SW = (1, -1)"

definition shift :: "checkers_dir \<Rightarrow> int \<Rightarrow> nat \<times> nat \<Rightarrow> int \<times> int" where
  "shift d k sq = (int (fst sq) + k * fst (delta d), int (snd sq) + k * snd (delta d))"

definition on_board :: "nat \<times> nat \<Rightarrow> bool" where
  "on_board sq \<longleftrightarrow> fst sq < 8 \<and> snd sq < 8"

definition squares :: "(nat \<times> nat) set" where
  "squares = {..<8} \<times> {..<8}"

lemma squares_iff: "sq \<in> squares \<longleftrightarrow> on_board sq"
  by (cases sq) (simp add: squares_def on_board_def)

definition pos :: "usize \<times> usize \<Rightarrow> nat \<times> nat" where
  "pos rc = (unat (fst rc), unat (snd rc))"

definition int_pos :: "usize \<times> usize \<Rightarrow> int \<times> int" where
  "int_pos rc = (int (unat (fst rc)), int (unat (snd rc)))"

text \<open>
  A row or column moved by at most two is outside of the board, or moved by that much. The eight
  values and four offsets are evaluated.
\<close>

definition axis :: "usize \<Rightarrow> i8 \<Rightarrow> usize" where
  "axis r d = scast ((ucast r :: i8) + d)"

definition axis_ok :: "nat \<Rightarrow> int \<Rightarrow> bool" where
  "axis_ok i k \<longleftrightarrow> (let n = axis (of_nat i) (of_int k) in
     (n < 8 \<longleftrightarrow> 0 \<le> int i + k \<and> int i + k < 8) \<and> (n < 8 \<longrightarrow> int (unat n) = int i + k))"

lemma axis_table: "list_all (\<lambda>i. list_all (axis_ok i) [-2, -1, 1, 2]) [0..<8]"
  by (simp add: upt_rec axis_ok_def axis_def Let_def)

lemma axis_lands:
  assumes "r < 8" "k \<in> {-2, -1, 1, 2}"
  shows "axis r (of_int k) < 8 \<longleftrightarrow> 0 \<le> int (unat r) + k \<and> int (unat r) + k < 8"
    "axis r (of_int k) < 8 \<Longrightarrow> int (unat (axis r (of_int k))) = int (unat r) + k"
proof -
  have "unat r < 8" using assms by (simp add: word_less_nat_alt)
  then have "axis_ok (unat r) k" using axis_table assms(2) unfolding list_all_iff by auto
  then show "axis r (of_int k) < 8 \<longleftrightarrow> 0 \<le> int (unat r) + k \<and> int (unat r) + k < 8"
    "axis r (of_int k) < 8 \<Longrightarrow> int (unat (axis r (of_int k))) = int (unat r) + k"
    by (simp_all add: axis_ok_def Let_def)
qed

lemmas axis_steps = axis_lands [where k = 1, simplified] axis_lands [where k = "-1", simplified]
  axis_lands [where k = 2, simplified] axis_lands [where k = "-2", simplified]

lemma dir_axis:
  "move_in_dir_c d r c = (axis r (fst (dir_vec d)), axis c (snd (dir_vec d)))"
  "jump_in_dir d r c = (axis r (fst (dir_vec d) * 2), axis c (snd (dir_vec d) * 2))"
  by (simp_all add: move_in_dir_c_def jump_in_dir_def axis_def split: prod.splits)

lemma move_lands:
  assumes "r < 8" "c < 8" "move_in_dir_c d r c = (nr, nc)" "nr < 8" "nc < 8"
  shows "int_pos (nr, nc) = shift d 1 (pos (r, c))"
  using assms by (cases d) (auto simp: dir_axis int_pos_def shift_def pos_def axis_steps)

lemma jump_lands:
  assumes "r < 8" "c < 8" "jump_in_dir d r c = (nr, nc)" "nr < 8" "nc < 8" "move_in_dir_c d r c = (pr, pc)"
  shows "int_pos (nr, nc) = shift d 2 (pos (r, c))" "pr < 8" "pc < 8"
    "int_pos (pr, pc) = shift d 1 (pos (r, c))"
proof -
  show "int_pos (nr, nc) = shift d 2 (pos (r, c))"
    using assms by (cases d) (auto simp: dir_axis int_pos_def shift_def pos_def axis_steps)
  have u: "uint r < 8" "uint c < 8" using assms(1,2) by (simp_all add: word_less_def)
  show p: "pr < 8"
    using assms u by (cases d) (auto simp: dir_axis axis_steps)
  show q: "pc < 8"
    using assms u by (cases d) (auto simp: dir_axis axis_steps)
  show "int_pos (pr, pc) = shift d 1 (pos (r, c))"
    by (rule move_lands [OF assms(1,2,6) p q])
qed

section \<open>Boards as maps from squares to tiles\<close>

definition board_ok :: "board \<Rightarrow> bool" where
  "board_ok b \<longleftrightarrow> length b = 8 \<and> (\<forall>row \<in> set b. length row = 8)"

definition cell :: "board \<Rightarrow> nat \<times> nat \<Rightarrow> tile" where
  "cell b sq = b ! fst sq ! snd sq"

definition put_cell :: "board \<Rightarrow> nat \<times> nat \<Rightarrow> tile \<Rightarrow> board" where
  "put_cell b sq t = b[fst sq := (b ! fst sq)[snd sq := t]]"

lemma u64_le7_less8 [simp]: "(x :: usize) \<le> 7 \<longleftrightarrow> x < 8" "7 < (x :: usize) \<longleftrightarrow> \<not> x < 8"
  by (auto simp: word_less_nat_alt word_le_nat_alt)

lemma on_board_pos: "on_board (pos (r, c)) \<longleftrightarrow> r < 8 \<and> c < 8"
  by (simp add: on_board_def pos_def word_less_nat_alt)

lemma tile_at_pos: "tile_at b r c = (if on_board (pos (r, c)) then Ok (cell b (pos (r, c))) else Panic)"
  by (simp add: tile_at_def on_board_pos) (simp add: cell_def pos_def)

lemma set_tile_pos:
  "set_tile b r c t = (if on_board (pos (r, c)) then Ok (put_cell b (pos (r, c)) t) else Panic)"
  by (simp add: set_tile_def on_board_pos) (simp add: put_cell_def pos_def)

lemma get_tile_pos:
  "get_tile r c b = (if on_board (pos (r, c)) then (Ok (cell b (pos (r, c))), b) else (Panic, b))"
  by (simp add: get_tile_def read_st_def tile_at_pos)

lemma put_tile_pos:
  "put_tile r c t b = (if on_board (pos (r, c)) then (Ok (), put_cell b (pos (r, c)) t) else (Panic, b))"
  by (simp add: put_tile_def set_tile_pos)

lemma board_ok_put [simp]: "board_ok b \<Longrightarrow> on_board sq \<Longrightarrow> board_ok (put_cell b sq t)"
  by (auto simp: board_ok_def put_cell_def on_board_def dest: subsetD [OF set_update_subset_insert])

lemma cell_put [simp]:
  "board_ok b \<Longrightarrow> on_board sq \<Longrightarrow> cell (put_cell b sq t) x = (if x = sq then t else cell b x)"
  by (cases x; cases sq) (auto simp: board_ok_def put_cell_def on_board_def cell_def nth_list_update)

section \<open>Counting pieces\<close>

definition pieces :: "board \<Rightarrow> player \<Rightarrow> nat" where
  "pieces b p = length (filter (\<lambda>t. is_this_player t p) (concat b))"

lemma pieces_sum:
  assumes "board_ok b"
  shows "pieces b p = (\<Sum>sq \<in> squares. (if is_this_player (cell b sq) p then 1 else 0))"
proof -
  have row: "length (filter P xs) = (\<Sum>j < length xs. if P (xs ! j) then 1 else 0)" for P :: "tile \<Rightarrow> bool" and xs
    by (simp add: length_filter_conv_card sum.If_cases Int_def)
  have "pieces b p = sum_list (map (\<lambda>row. length (filter (\<lambda>t. is_this_player t p) row)) b)"
    by (simp add: pieces_def filter_concat length_concat o_def)
  also have "\<dots> = (\<Sum>i < 8. length (filter (\<lambda>t. is_this_player t p) (b ! i)))"
    using assms by (simp add: sum_list_sum_nth board_ok_def atLeast0LessThan)
  also have "\<dots> = (\<Sum>i < 8. \<Sum>j < 8. if is_this_player (cell b (i, j)) p then 1 else 0)"
    using assms by (intro sum.cong) (simp_all add: row board_ok_def cell_def)
  finally show ?thesis by (simp only: squares_def sum.cartesian_product) (simp add: case_prod_unfold)
qed

lemma pieces_put:
  assumes "board_ok b" "on_board sq"
  shows "pieces (put_cell b sq t) p + of_bool (is_this_player (cell b sq) p) =
    pieces b p + of_bool (is_this_player t p)"
proof -
  have fin: "finite squares" "sq \<in> squares" using assms by (simp_all add: squares_def squares_iff [unfolded squares_def])
  have "(\<Sum>x \<in> squares - {sq}. if is_this_player (cell (put_cell b sq t) x) p then 1 else 0 :: nat) =
      (\<Sum>x \<in> squares - {sq}. if is_this_player (cell b x) p then 1 else 0)"
    using assms by (intro sum.cong) auto
  then show ?thesis
    using assms fin by (simp only: pieces_sum board_ok_put sum.remove [of squares sq]) simp
qed

section \<open>The effect of a play\<close>

lemma unat_eq_nat_iff: "n < 2 ^ 64 \<Longrightarrow> (r :: usize) = of_nat n \<longleftrightarrow> unat r = n"
  by (auto simp: unat_of_nat take_bit_nat_eq_self)

definition steps_to :: "checkers_dir \<Rightarrow> int \<Rightarrow> nat \<times> nat \<Rightarrow> nat \<times> nat \<Rightarrow> bool" where
  "steps_to d k s n \<longleftrightarrow> on_board s \<and> on_board n \<and> (int (fst n), int (snd n)) = shift d k s"

lemma steps_to_board: "steps_to d k s n \<Longrightarrow> on_board s \<and> on_board n"
  by (simp add: steps_to_def)

lemma steps_to_parity: "steps_to d k s n \<Longrightarrow> even (fst n + snd n) = even (fst s + snd s)"
proof -
  assume "steps_to d k s n"
  then have "int (fst n) + int (snd n) = int (fst s) + int (snd s) + k * (fst (delta d) + snd (delta d))"
    by (auto simp: steps_to_def shift_def algebra_simps)
  moreover have "even (fst (delta d) + snd (delta d))" by (cases d) simp_all
  ultimately have "even (int (fst n) + int (snd n)) = even (int (fst s) + int (snd s))" by simp
  then show ?thesis by (metis even_of_nat of_nat_add)
qed

lemma steps_to_neq: "steps_to d k s n \<Longrightarrow> k \<noteq> 0 \<Longrightarrow> n \<noteq> s"
  by (cases d) (auto simp: steps_to_def shift_def)

lemma steps_to_2_1: "steps_to d 2 s n \<Longrightarrow> steps_to d 1 s m \<Longrightarrow> m \<noteq> n"
  by (cases d) (auto simp: steps_to_def shift_def)

lemma steps_to_direction:
  "steps_to d k s n \<Longrightarrow> 0 < k \<Longrightarrow> valid_direction RedT d \<Longrightarrow> fst n < fst s"
  "steps_to d k s n \<Longrightarrow> 0 < k \<Longrightarrow> valid_direction BlackT d \<Longrightarrow> fst s < fst n"
  by (cases d; auto simp: steps_to_def shift_def)+

definition crown :: "board \<Rightarrow> nat \<times> nat \<Rightarrow> board" where
  "crown b sq = (if fst sq = 0 \<or> fst sq = 7 then put_cell b sq (upgrade (cell b sq)) else b)"

lemma promote_pos: "on_board (pos (r, c)) \<Longrightarrow> promote r c b = (Ok (), crown b (pos (r, c)))"
proof -
  assume a: "on_board (pos (r, c))"
  have "(r = 0 \<or> r = 7) \<longleftrightarrow> unat r = 0 \<or> unat r = 7"
    using unat_eq_nat_iff [of 0 r] unat_eq_nat_iff [of 7 r] by simp
  then show ?thesis using a by (simp add: promote_def crown_def get_tile_pos put_tile_pos) (simp add: pos_def)
qed

lemma idx_to_rc_board:
  "idx_to_rc idx = Ok (r, c) \<Longrightarrow> (ucast r :: usize) < 8 \<and> (ucast c :: usize) < 8"
proof -
  assume "idx_to_rc idx = Ok (r, c)"
  then have i: "unat idx \<le> 63" "r = idx div 8" "c = idx mod 8"
    by (auto simp: idx_to_rc_def word_le_nat_alt not_less split: if_splits)
  have "unat r < 8" "unat c < 8" using i by (simp_all add: unat_div unat_mod)
  then show ?thesis by (simp add: word_less_nat_alt unsigned_ucast_eq take_bit_nat_eq_self)
qed

lemma idx_to_rc_total: "(\<exists>r c. idx_to_rc idx = Ok (r, c)) \<or> idx_to_rc idx = Err InvalidCoordinate"
  by (simp add: idx_to_rc_def)

lemma own_piece_pos:
  "r < 8 \<Longrightarrow> c < 8 \<Longrightarrow> own_piece r c p b =
     (let t = cell b (pos (r, c)) in
       (if t = NoneT then Err MissingPiece else if \<not> is_this_player t p then Err WrongPlayer else Ok (), b))"
  by (simp add: own_piece_def get_tile_pos on_board_pos refuse_def Let_def)

definition moved :: "board \<Rightarrow> nat \<times> nat \<Rightarrow> nat \<times> nat \<Rightarrow> board" where
  "moved b s n = put_cell (put_cell b n (cell b s)) s NoneT"

definition jumped :: "board \<Rightarrow> nat \<times> nat \<Rightarrow> nat \<times> nat \<Rightarrow> nat \<times> nat \<Rightarrow> board" where
  "jumped b s m n = put_cell (put_cell (put_cell b n (cell b s)) m NoneT) s NoneT"

section \<open>Plays on squares\<close>

text \<open>
  \<open>play\<close> on squares, without machine integers and panics, and with the outcome of the whole play: the
  square a number of steps away, the moves and the paths of jumps.
\<close>

definition neighbour :: "checkers_dir \<Rightarrow> int \<Rightarrow> nat \<times> nat \<Rightarrow> (nat \<times> nat) option" where
  "neighbour d k s =
     (let (i, j) = shift d k s in if 0 \<le> i \<and> i < 8 \<and> 0 \<le> j \<and> j < 8 then Some (nat i, nat j) else None)"

fun square_jumps :: "player \<Rightarrow> checkers_dir list \<Rightarrow> board \<Rightarrow> nat \<times> nat \<Rightarrow> (board \<times> nat \<times> nat) option" where
  "square_jumps p [] b s = Some (b, s)"
| "square_jumps p (d # path) b s =
     (case (neighbour d 1 s, neighbour d 2 s) of
        (Some m, Some n) \<Rightarrow>
          if valid_direction (cell b s) d \<and> is_other_player (cell b m) p \<and> cell b n = NoneT
          then square_jumps p path (jumped b s m n) n else None
      | _ \<Rightarrow> None)"

definition with_piece ::
  "board \<Rightarrow> u8 \<Rightarrow> player \<Rightarrow> (nat \<times> nat \<Rightarrow> (board, checkers_error) result) \<Rightarrow> (board, checkers_error) result" where
  "with_piece b idx p act =
     (if 64 \<le> unat idx then Err InvalidCoordinate
      else let s = (unat idx div 8, unat idx mod 8) in
        if cell b s = NoneT then Err MissingPiece
        else if \<not> is_this_player (cell b s) p then Err WrongPlayer
        else act s)"

fun square_play :: "checkers_event \<Rightarrow> player \<Rightarrow> board \<Rightarrow> (board, checkers_error) result" where
  "square_play (Move idx d) p b = with_piece b idx p (\<lambda>s.
     case neighbour d 1 s of
       Some n \<Rightarrow> if valid_direction (cell b s) d \<and> cell b n = NoneT then Ok (crown (moved b s n) n) else Err InvalidPlay
     | None \<Rightarrow> Err InvalidPlay)"
| "square_play (Jump idx path) p b = with_piece b idx p (\<lambda>s.
     case square_jumps p path b s of Some (b', n) \<Rightarrow> Ok (crown b' n) | None \<Rightarrow> Err InvalidPlay)"
| "square_play (Start x y) p b = Err GameAlreadyStarted"
| "square_play (Join x) p b = Err GameAlreadyStarted"

lemma neighbour_axis:
  assumes "r < 8" "c < 8"
  shows "neighbour d 1 (pos (r, c)) =
      (let (nr, nc) = move_in_dir_c d r c in if nr < 8 \<and> nc < 8 then Some (pos (nr, nc)) else None)"
    "neighbour d 2 (pos (r, c)) =
      (let (nr, nc) = jump_in_dir d r c in if nr < 8 \<and> nc < 8 then Some (pos (nr, nc)) else None)"
proof -
  have n: "unat (axis x (of_int k)) = nat (int (unat x) + k)" if "x < 8" "k \<in> {-2, -1, 1, 2}" "axis x (of_int k) < 8" for x k
    using axis_lands(2) [OF that] by linarith
  note ns = n [where k = 1, simplified] n [where k = "-1", simplified] n [where k = 2, simplified]
    n [where k = "-2", simplified]
  show "neighbour d 1 (pos (r, c)) =
      (let (nr, nc) = move_in_dir_c d r c in if nr < 8 \<and> nc < 8 then Some (pos (nr, nc)) else None)"
    using assms ns [of r] ns [of c]
    by (cases d) (auto simp: neighbour_def dir_axis shift_def pos_def axis_steps Let_def)
  show "neighbour d 2 (pos (r, c)) =
      (let (nr, nc) = jump_in_dir d r c in if nr < 8 \<and> nc < 8 then Some (pos (nr, nc)) else None)"
    using assms ns [of r] ns [of c]
    by (cases d) (auto simp: neighbour_def dir_axis shift_def pos_def axis_steps Let_def)
qed

lemma idx_square:
  "idx_to_rc idx = (if 64 \<le> unat idx then Err InvalidCoordinate else Ok (idx div 8, idx mod 8))"
  "pos (ucast (idx div 8 :: u8), ucast (idx mod 8 :: u8)) = (unat idx div 8, unat idx mod 8)"
proof -
  show "idx_to_rc idx = (if 64 \<le> unat idx then Err InvalidCoordinate else Ok (idx div 8, idx mod 8))"
    by (auto simp: idx_to_rc_def word_less_nat_alt)
  show "pos (ucast (idx div 8 :: u8), ucast (idx mod 8 :: u8)) = (unat idx div 8, unat idx mod 8)"
    by (simp add: pos_def unsigned_ucast_eq take_bit_nat_eq_self unat_div unat_mod order.strict_trans1
      [OF div_le_dividend] order.strict_trans1 [OF mod_less_eq_dividend] unsigned_less [where ?'a = nat, THEN order.strict_trans2])
qed

lemma jump_step_square:
  assumes "r < 8" "c < 8"
  shows "jump_step p old d (r, c) b =
    (case (neighbour d 1 (pos (r, c)), neighbour d 2 (pos (r, c))) of
       (Some m, Some n) \<Rightarrow>
         if valid_direction (cell b (pos (r, c))) d \<and> is_other_player (cell b m) p \<and> cell b n = NoneT
         then (Ok (jump_in_dir d r c), jumped b (pos (r, c)) m n) else (Err InvalidPlay, old)
     | _ \<Rightarrow> (Err InvalidPlay, old))"
proof -
  obtain nr nc where n: "jump_in_dir d r c = (nr, nc)" by (cases "jump_in_dir d r c")
  obtain pr pc where m: "move_in_dir_c d r c = (pr, pc)" by (cases "move_in_dir_c d r c")
  have "nr < 8 \<and> nc < 8 \<Longrightarrow> pr < 8 \<and> pc < 8" using jump_lands(2,3) [OF assms n _ _ m] by blast
  then show ?thesis using assms
    by (auto simp: jump_step_def bind_st_def neighbour_axis n m get_tile_pos put_tile_pos on_board_pos jumped_def
      invalid_jump_def refuse_def Let_def)
qed

lemma jump_loop_square:
  assumes "r < 8" "c < 8"
  shows "(case fold_st (jump_step p old) path (r, c) b of
      (Ok (r', c'), b') \<Rightarrow> r' < 8 \<and> c' < 8 \<and> square_jumps p path b (pos (r, c)) = Some (b', pos (r', c'))
    | (Err e, b') \<Rightarrow> e = InvalidPlay \<and> b' = old \<and> square_jumps p path b (pos (r, c)) = None
    | _ \<Rightarrow> False)"
  using assms
proof (induction path arbitrary: b r c)
  case (Cons d path)
  obtain nr nc where n: "jump_in_dir d r c = (nr, nc)" by (cases "jump_in_dir d r c")
  have two: "neighbour d 2 (pos (r, c)) = (if nr < 8 \<and> nc < 8 then Some (pos (nr, nc)) else None)"
    using neighbour_axis(2) [OF Cons.prems, of d] by (simp add: n)
  show ?case
  proof (cases "\<exists>m. neighbour d 1 (pos (r, c)) = Some m \<and> nr < 8 \<and> nc < 8 \<and> valid_direction (cell b (pos (r, c))) d \<and>
      is_other_player (cell b m) p \<and> cell b (pos (nr, nc)) = NoneT")
    case True
    then obtain m where m: "neighbour d 1 (pos (r, c)) = Some m" "nr < 8" "nc < 8"
      "valid_direction (cell b (pos (r, c))) d" "is_other_player (cell b m) p" "cell b (pos (nr, nc)) = NoneT" by blast
    have j: "jump_step p old d (r, c) b = (Ok (nr, nc), jumped b (pos (r, c)) m (pos (nr, nc)))"
      using m by (simp add: jump_step_square [OF Cons.prems] two n)
    have q: "square_jumps p (d # path) b (pos (r, c)) =
        square_jumps p path (jumped b (pos (r, c)) m (pos (nr, nc))) (pos (nr, nc))"
      using m by (simp add: two)
    show ?thesis unfolding fold_st.simps bind_st_Ok [of "jump_step p old d (r, c)", OF j] q by (rule Cons.IH [OF m(2,3)])
  next
    case False
    then have "jump_step p old d (r, c) b = (Err InvalidPlay, old)" "square_jumps p (d # path) b (pos (r, c)) = None"
      by (auto simp: jump_step_square [OF Cons.prems] two n split: option.splits)
    then show ?thesis by (simp add: bind_st_def)
  qed
qed simp

text \<open>The outcome of a play: an error leaves the board as it was.\<close>

definition outcome :: "(board, checkers_error) result \<Rightarrow> board \<Rightarrow> (unit, checkers_error) result \<times> board" where
  "outcome res b = (case res of Ok b' \<Rightarrow> (Ok (), b') | Err e \<Rightarrow> (Err e, b) | _ \<Rightarrow> (Panic, b))"

lemma outcome_simps [simp]: "outcome (Ok b') b = (Ok (), b')" "outcome (Err e) b = (Err e, b)"
  by (simp_all add: outcome_def)

lemma square_play_move: "play_move idx d p b = outcome (square_play (Move idx d) p b) b"
proof (cases "64 \<le> unat idx")
  case False
  define r c :: usize where rcd: "r = ucast (idx div 8)" "c = ucast (idx mod 8)"
  have i: "idx_to_rc idx = Ok (idx div 8, idx mod 8)" using False by (simp add: idx_square)
  have rc: "r < 8" "c < 8" using idx_to_rc_board [OF i] by (simp_all add: rcd)
  have s: "(unat idx div 8, unat idx mod 8) = pos (r, c)" by (simp only: rcd idx_square)
  obtain nr nc where n: "move_in_dir_c d r c = (nr, nc)" by (cases "move_in_dir_c d r c")
  show ?thesis using False rc unfolding square_play.simps with_piece_def s
    by (auto simp: play_move_def bind_st_def read_st_def i rcd [symmetric] own_piece_pos neighbour_axis n get_tile_pos
      put_tile_pos on_board_pos promote_pos moved_def refuse_def Let_def)
qed (simp add: play_move_def idx_square with_piece_def bind_st_def read_st_def)

lemma square_play_jump: "play_jump idx path p b = outcome (square_play (Jump idx path) p b) b"
proof (cases "64 \<le> unat idx")
  case False
  define r c :: usize where rcd: "r = ucast (idx div 8)" "c = ucast (idx mod 8)"
  have i: "idx_to_rc idx = Ok (idx div 8, idx mod 8)" using False by (simp add: idx_square)
  have rc: "r < 8" "c < 8" using idx_to_rc_board [OF i] by (simp_all add: rcd)
  have s: "(unat idx div 8, unat idx mod 8) = pos (r, c)" by (simp only: rcd idx_square)
  obtain res b1 where loop: "fold_st (jump_step p b) path (r, c) b = (res, b1)" by fastforce
  show ?thesis
    using False rc jump_loop_square [OF rc, where p = p and old = b and path = path and b = b] unfolding square_play.simps with_piece_def s loop
    by (cases res) (auto simp: play_jump_def bind_st_def read_st_def i rcd [symmetric] own_piece_pos promote_pos
      on_board_pos loop Let_def split: prod.splits)
qed (simp add: play_jump_def idx_square with_piece_def bind_st_def read_st_def)

lemma square_play_total: "(\<exists>b'. square_play ev p b = Ok b') \<or> (\<exists>e. square_play ev p b = Err e)"
  by (cases ev) (auto simp: with_piece_def Let_def split: option.splits)

lemma play_square: "play ev p b = outcome (square_play ev p b) b"
  by (cases ev) (simp_all add: play_def square_play_move square_play_jump refuse_def del: square_play.simps(1,2))

lemma neighbour_steps: "on_board s \<Longrightarrow> neighbour d k s = Some n \<Longrightarrow> steps_to d k s n"
  by (auto simp: neighbour_def steps_to_def on_board_def Let_def split: prod.splits if_splits)

lemma square_move_cases:
  assumes "square_play (Move idx d) p b = Ok b'"
  obtains s n where "b' = crown (moved b s n) n" "steps_to d 1 s n" "is_this_player (cell b s) p"
    "valid_direction (cell b s) d" "cell b n = NoneT"
proof -
  have "on_board (unat idx div 8, unat idx mod 8)" if "unat idx < 64" using that by (simp add: on_board_def)
  then show thesis
    using assms that neighbour_steps by (auto simp: with_piece_def Let_def split: if_splits option.splits)
qed

section \<open>The boards of a game\<close>

fun opponent :: "player \<Rightarrow> player" where
  "opponent Red = Black"
| "opponent Black = Red"

lemma other_is_opponent: "is_other_player t p \<longleftrightarrow> is_this_player t (opponent p)"
  by (cases t; cases p) simp_all

lemma other_not_this: "is_other_player t p \<Longrightarrow> \<not> is_this_player t p"
  by (cases t; cases p) simp_all

lemma upgrade_owner [simp]: "is_this_player (upgrade t) p = is_this_player t p"
  by (cases t) simp_all

lemma upgrade_tiles [simp]:
  "upgrade t \<noteq> RedT" "upgrade t \<noteq> BlackT" "upgrade t = NoneT \<longleftrightarrow> t = NoneT"
  by (cases t; simp)+

text \<open>All pieces stand on the squares of one colour.\<close>

definition on_dark :: "board \<Rightarrow> bool" where
  "on_dark b \<longleftrightarrow> (\<forall>sq. on_board sq \<longrightarrow> cell b sq \<noteq> NoneT \<longrightarrow> even (fst sq + snd sq))"

text \<open>A man on the far row that should be a king.\<close>

definition uncrowned :: "board \<Rightarrow> nat \<times> nat \<Rightarrow> bool" where
  "uncrowned b sq \<longleftrightarrow> fst sq = 0 \<and> cell b sq = RedT \<or> fst sq = 7 \<and> cell b sq = BlackT"

definition game_board :: "board \<Rightarrow> bool" where
  "game_board b \<longleftrightarrow> board_ok b \<and> on_dark b \<and> (\<forall>sq. on_board sq \<longrightarrow> \<not> uncrowned b sq)"

text \<open>In the middle of a path of jumps only the jumping piece may wait for its crown.\<close>

definition jumping :: "player \<Rightarrow> board \<Rightarrow> nat \<Rightarrow> board \<times> nat \<times> nat \<Rightarrow> bool" where
  "jumping p b0 k = (\<lambda>(b, s). on_board s \<and> board_ok b \<and> on_dark b \<and>
     (\<forall>sq. on_board sq \<longrightarrow> sq \<noteq> s \<longrightarrow> \<not> uncrowned b sq) \<and>
     is_this_player (cell b s) p \<and>
     pieces b p = pieces b0 p \<and> pieces b (opponent p) + k = pieces b0 (opponent p))"

lemma board_ok_crown: "board_ok b \<Longrightarrow> on_board n \<Longrightarrow> board_ok (crown b n)"
  by (simp add: crown_def)

lemma crown_facts:
  assumes "board_ok b" "on_board n"
  shows "on_dark b \<Longrightarrow> on_dark (crown b n)" "pieces (crown b n) q = pieces b q"
    "(\<forall>sq. on_board sq \<longrightarrow> sq \<noteq> n \<longrightarrow> \<not> uncrowned b sq) \<Longrightarrow> on_board sq \<Longrightarrow> \<not> uncrowned (crown b n) sq"
  using assms pieces_put [OF assms, of "upgrade (cell b n)" q]
  by (auto simp: crown_def on_dark_def uncrowned_def simp del: split_paired_All)

lemma jumping_crown:
  assumes "jumping p b0 k (b, s)"
  shows "game_board (crown b s)" "pieces (crown b s) p = pieces b0 p"
    "pieces (crown b s) (opponent p) + k = pieces b0 (opponent p)"
  using assms crown_facts [of b s]
  by (auto simp: jumping_def game_board_def board_ok_crown)

lemma jumping_step:
  assumes j: "jumping p b0 k (b, s)" and n: "steps_to d 2 s n" and m: "steps_to d 1 s m"
    and e: "cell b n = NoneT" "is_other_player (cell b m) p"
  shows "jumping p b0 (Suc k) (jumped b s m n, n)"
proof -
  have b: "board_ok b" using j by (simp add: jumping_def)
  have ob: "on_board s" "on_board m" "on_board n" using n m steps_to_board by blast+
  have neq: "n \<noteq> s" "m \<noteq> s" "m \<noteq> n"
    using steps_to_neq [OF n] steps_to_neq [OF m] steps_to_2_1 [OF n m] by auto
  let ?b1 = "put_cell b n (cell b s)" and ?b2 = "put_cell (put_cell b n (cell b s)) m NoneT"
  have c: "cell (jumped b s m n) sq =
      (if sq = s \<or> sq = m then NoneT else if sq = n then cell b s else cell b sq)" for sq
    using b ob by (simp add: jumped_def)
  have "cell b s \<noteq> NoneT" using j by (auto simp: jumping_def)
  then have "even (fst s + snd s)" using j ob(1) unfolding jumping_def on_dark_def by blast
  then have "on_dark (jumped b s m n)"
    using j steps_to_parity [OF n] unfolding on_dark_def jumping_def
    by (auto simp: c simp del: split_paired_All even_add)
  moreover have "pieces (jumped b s m n) q + of_bool (is_this_player (cell b m) q) = pieces b q" for q
    using pieces_put [OF b ob(3), of "cell b s" q] pieces_put [of ?b1 m NoneT q]
      pieces_put [of ?b2 s NoneT q] b ob neq e(1) by (simp add: jumped_def)
  from this [of p] this [of "opponent p"]
  have "pieces (jumped b s m n) p = pieces b p"
    "Suc (pieces (jumped b s m n) (opponent p)) = pieces b (opponent p)"
    using e(2) other_not_this [OF e(2)] other_is_opponent [of "cell b m" p] by simp_all
  moreover have "\<not> uncrowned (jumped b s m n) sq" if "on_board sq" "sq \<noteq> n" for sq
    using j that by (auto simp: jumping_def uncrowned_def c simp del: split_paired_All)
  moreover have "board_ok (jumped b s m n)" using b ob by (simp add: jumped_def)
  ultimately show ?thesis using j neq ob by (auto simp: jumping_def c simp del: split_paired_All)
qed

lemma jump_path:
  assumes "jumping p b0 k (b, s)" "square_jumps p path b s = Some (b', n)"
  shows "jumping p b0 (k + length path) (b', n)"
  using assms
proof (induction path arbitrary: k b s)
  case (Cons d path)
  have s: "on_board s" using Cons.prems(1) by (simp add: jumping_def)
  obtain m t where mt: "neighbour d 1 s = Some m" "neighbour d 2 s = Some t" "is_other_player (cell b m) p"
    "cell b t = NoneT" "square_jumps p path (jumped b s m t) t = Some (b', n)"
    using Cons.prems(2) by (auto split: option.splits if_splits)
  show ?case
    using Cons.IH [OF jumping_step [OF Cons.prems(1) neighbour_steps [OF s mt(2)] neighbour_steps [OF s mt(1)] mt(4,3)] mt(5)]
    by simp
qed simp

text \<open>The pieces a play takes: one for each jump of its path.\<close>

fun captures :: "checkers_event \<Rightarrow> nat" where
  "captures (Jump idx path) = length path"
| "captures _ = 0"

definition play_ok :: "checkers_event \<Rightarrow> player \<Rightarrow> board \<Rightarrow> board \<Rightarrow> bool" where
  "play_ok ev p b b' \<longleftrightarrow> game_board b' \<and> pieces b' p = pieces b p \<and>
     pieces b' (opponent p) + captures ev = pieces b (opponent p)"

lemma square_move_ok:
  assumes "game_board b" "square_play (Move idx d) p b = Ok b'"
  shows "play_ok (Move idx d) p b b'"
proof -
  have b: "board_ok b" using assms by (simp add: game_board_def)
  obtain s n where n: "b' = crown (moved b s n) n" "steps_to d 1 s n" "is_this_player (cell b s) p"
    "cell b n = NoneT"
    by (rule square_move_cases [OF assms(2)])
  have ob: "on_board s" "on_board n" using steps_to_board n by auto
  have "n \<noteq> s" using steps_to_neq [OF n(2)] by simp
  then have c: "cell (moved b s n) sq = (if sq = s then NoneT else if sq = n then cell b s else cell b sq)" for sq
    using b ob by (simp add: moved_def)
  have ok: "board_ok (moved b s n)" using b ob by (simp add: moved_def)
  have "cell b s \<noteq> NoneT" using n(3) by auto
  then have "even (fst s + snd s)" using assms(1) ob(1) unfolding game_board_def on_dark_def by blast
  then have "on_dark (moved b s n)"
    using assms(1) steps_to_parity [OF n(2)] unfolding on_dark_def game_board_def
    by (auto simp: c simp del: split_paired_All even_add)
  moreover have "\<not> uncrowned (moved b s n) sq" if "on_board sq" "sq \<noteq> n" for sq
    using assms(1) that by (auto simp: game_board_def uncrowned_def c simp del: split_paired_All)
  moreover have "pieces (moved b s n) q = pieces b q" for q
    using pieces_put [OF b ob(2), of "cell b s" q] pieces_put [of "put_cell b n (cell b s)" s NoneT q]
      b ob n(4) \<open>n \<noteq> s\<close> by (simp add: moved_def)
  ultimately show ?thesis
    using crown_facts [OF ok ob(2)] board_ok_crown [OF ok ob(2)] by (simp add: play_ok_def game_board_def n(1))
qed

lemma square_jump_ok:
  assumes "game_board b" "square_play (Jump idx path) p b = Ok b'"
  shows "play_ok (Jump idx path) p b b'"
proof -
  define s where "s = (unat idx div 8, unat idx mod 8)"
  obtain b1 n where j: "unat idx < 64" "is_this_player (cell b s) p" "square_jumps p path b s = Some (b1, n)"
    "b' = crown b1 n"
    using assms(2) by (auto simp: with_piece_def s_def Let_def split: if_splits option.splits)
  have "jumping p b 0 (b, s)"
    using assms(1) j(1,2) by (auto simp: jumping_def game_board_def s_def on_board_def simp del: split_paired_All)
  from jump_path [OF this j(3)] show ?thesis using jumping_crown by (simp add: play_ok_def j(4))
qed

lemma play_cases:
  assumes "game_board b"
  obtains (played) b' where "play ev p b = (Ok (), b')" "play_ok ev p b b'"
    | (refused) e where "play ev p b = (Err e, b)"
proof (cases "square_play ev p b")
  case (Ok b')
  then have "play_ok ev p b b'"
    using square_move_ok [OF assms] square_jump_ok [OF assms] by (cases ev) (simp_all del: square_play.simps(1,2))
  then show ?thesis using played Ok by (simp add: play_square)
qed (use square_play_total [of ev p b] refused in \<open>auto simp: play_square\<close>)

lemma default_table:
  "list_all (\<lambda>i. list_all (\<lambda>j. (cell board_default (i, j) = NoneT \<or> even (i + j)) \<and>
     \<not> uncrowned board_default (i, j)) [0..<8]) [0..<8]"
  by code_simp

lemma default_board: "game_board board_default" "pieces board_default Red = 12" "pieces board_default Black = 12"
proof -
  show "game_board board_default"
    unfolding game_board_def
  proof (intro conjI allI impI)
    show "board_ok board_default" by (simp add: board_ok_def board_default_def Let_def)
  qed (use default_table in \<open>fastforce simp: list_all_iff on_dark_def on_board_def\<close>)+
qed (simp_all add: pieces_def board_default_def Let_def)

section \<open>The rules of the game\<close>

text \<open>
  The rules of checkers, said without the functions of the code: who owns a piece, whether it is a
  king, which way a man goes (the red ones to smaller rows, the black ones to greater rows), what is
  taken, and where a man is crowned: on the far row only. A jump takes at least one piece.
\<close>

fun owner :: "tile \<Rightarrow> player option" where
  "owner RedT = Some Red" | "owner RedKing = Some Red"
| "owner BlackT = Some Black" | "owner BlackKing = Some Black"
| "owner NoneT = None"

fun king_of :: "player \<Rightarrow> tile" where
  "king_of Red = RedKing"
| "king_of Black = BlackKing"

definition goes :: "tile \<Rightarrow> nat \<Rightarrow> nat \<Rightarrow> bool" where
  "goes t from to \<longleftrightarrow> (case owner t of
     None \<Rightarrow> False
   | Some p \<Rightarrow> t = king_of p \<or> (case p of Red \<Rightarrow> to < from | Black \<Rightarrow> from < to))"

fun far_row :: "player \<Rightarrow> nat" where
  "far_row Red = 0"
| "far_row Black = 7"

definition arrive :: "board \<Rightarrow> nat \<times> nat \<Rightarrow> board" where
  "arrive b n = (case owner (cell b n) of
     Some p \<Rightarrow> if fst n = far_row p then put_cell b n (king_of p) else b
   | None \<Rightarrow> b)"

fun rule_jumps :: "player \<Rightarrow> checkers_dir list \<Rightarrow> board \<Rightarrow> nat \<times> nat \<Rightarrow> (board \<times> nat \<times> nat) option" where
  "rule_jumps p [] b s = Some (b, s)"
| "rule_jumps p (d # path) b s =
     (case (neighbour d 1 s, neighbour d 2 s) of
        (Some m, Some n) \<Rightarrow>
          if goes (cell b s) (fst s) (fst n) \<and> owner (cell b m) = Some (opponent p) \<and> cell b n = NoneT
          then rule_jumps p path (jumped b s m n) n else None
      | _ \<Rightarrow> None)"

definition rule_piece :: "board \<Rightarrow> u8 \<Rightarrow> player \<Rightarrow> (nat \<times> nat, checkers_error) result" where
  "rule_piece b idx p =
     (if 64 \<le> unat idx then Err InvalidCoordinate
      else let s = (unat idx div 8, unat idx mod 8) in
        case owner (cell b s) of
          None \<Rightarrow> Err MissingPiece
        | Some q \<Rightarrow> if q = p then Ok s else Err WrongPlayer)"

fun rule_play :: "checkers_event \<Rightarrow> player \<Rightarrow> board \<Rightarrow> (board, checkers_error) result" where
  "rule_play (Move idx d) p b = and_then (rule_piece b idx p) (\<lambda>s.
     case neighbour d 1 s of
       Some n \<Rightarrow> if goes (cell b s) (fst s) (fst n) \<and> cell b n = NoneT then Ok (arrive (moved b s n) n) else Err InvalidPlay
     | None \<Rightarrow> Err InvalidPlay)"
| "rule_play (Jump idx path) p b = and_then (rule_piece b idx p) (\<lambda>s.
     if path = [] then Err InvalidPlay
     else case rule_jumps p path b s of Some (b', n) \<Rightarrow> Ok (arrive b' n) | None \<Rightarrow> Err InvalidPlay)"
| "rule_play (Start x y) p b = Err GameAlreadyStarted"
| "rule_play (Join x) p b = Err GameAlreadyStarted"

text \<open>The code and the rules, test by test.\<close>

lemma owner_tests:
  "is_this_player t p \<longleftrightarrow> owner t = Some p" "is_other_player t p \<longleftrightarrow> owner t = Some (opponent p)"
  "t = NoneT \<longleftrightarrow> owner t = None"
  by (cases t; cases p; simp)+

lemma goes_direction:
  assumes "steps_to d k s n" "0 < k"
  shows "valid_direction t d \<longleftrightarrow> goes t (fst s) (fst n)"
  using assms by (cases t; cases d) (auto simp: goes_def steps_to_def shift_def)

lemma rule_jumps_square:
  "on_board s \<Longrightarrow> rule_jumps p path b s = square_jumps p path b s"
proof (induction path arbitrary: b s)
  case (Cons d path)
  show ?case
  proof (cases "neighbour d 1 s")
    case (Some m)
    show ?thesis
    proof (cases "neighbour d 2 s")
      case two: (Some n)
      have "steps_to d 2 s n" by (rule neighbour_steps [OF Cons.prems two])
      then show ?thesis
        using Cons.IH [of n] goes_direction [of d 2 s n "cell b s"]
        by (simp add: Some two owner_tests(2) steps_to_board)
    qed (simp add: Some)
  qed simp
qed simp

text \<open>A man that moved is on another row than before, so that it is not on its own first row.\<close>

definition advanced :: "tile \<Rightarrow> nat \<times> nat \<Rightarrow> bool" where
  "advanced t n \<longleftrightarrow> on_board n \<and> (t = RedT \<longrightarrow> fst n < 7) \<and> (t = BlackT \<longrightarrow> 0 < fst n)"

lemma crown_arrive: "advanced (cell b n) n \<Longrightarrow> board_ok b \<Longrightarrow> crown b n = arrive b n"
proof -
  have same: "put_cell b n (cell b n) = b" if "board_ok b" "on_board n"
    using that by (simp add: put_cell_def cell_def board_ok_def on_board_def)
  show "advanced (cell b n) n \<Longrightarrow> board_ok b \<Longrightarrow> crown b n = arrive b n"
    using same by (cases "cell b n") (auto simp: advanced_def crown_def arrive_def)
qed

lemma step_advances: "steps_to d k s n \<Longrightarrow> 0 < k \<Longrightarrow> valid_direction t d \<Longrightarrow> advanced t n"
  by (cases t; cases d) (auto simp: advanced_def steps_to_def shift_def on_board_def)

lemma jumps_advance:
  assumes "square_jumps p path b s = Some (b', n)" "board_ok b" "on_board s"
  shows "board_ok b' \<and> on_board n \<and> cell b' n = cell b s \<and> (path = [] \<or> advanced (cell b s) n)"
  using assms
proof (induction path arbitrary: b s)
  case (Cons d path)
  obtain m t where mt: "neighbour d 1 s = Some m" "neighbour d 2 s = Some t" "valid_direction (cell b s) d"
    "square_jumps p path (jumped b s m t) t = Some (b', n)"
    using Cons.prems(1) by (auto split: option.splits if_splits)
  have st: "steps_to d 1 s m" "steps_to d 2 s t" using neighbour_steps [OF Cons.prems(3)] mt by blast+
  then have ob: "on_board m" "on_board t" using steps_to_board by blast+
  have neq: "t \<noteq> s" "m \<noteq> t" using steps_to_neq [OF st(2)] steps_to_2_1 [OF st(2,1)] by auto
  have c: "cell (jumped b s m t) t = cell b s" using neq Cons.prems(2,3) ob by (simp add: jumped_def)
  have ok: "board_ok (jumped b s m t)" using Cons.prems(2,3) ob by (simp add: jumped_def)
  show ?case
    using Cons.IH [OF mt(4) ok ob(2)] step_advances [OF st(2) _ mt(3)] mt(4) c by (cases path) auto
qed simp

text \<open>
  What the code accepts: the plays of the rules, and besides them a jump along no path at all, which
  leaves the piece where it is and makes a king of a man that stands on the first or last row, its own
  first row included.
\<close>

definition accepted_play :: "checkers_event \<Rightarrow> player \<Rightarrow> board \<Rightarrow> (board, checkers_error) result" where
  "accepted_play ev p b =
     (case ev of
        Jump idx [] \<Rightarrow> and_then (rule_piece b idx p)
          (\<lambda>s. Ok (if fst s = 0 \<or> fst s = 7 then put_cell b s (king_of p) else b))
      | _ \<Rightarrow> rule_play ev p b)"

lemma with_piece_rule: "with_piece b idx p act = and_then (rule_piece b idx p) act"
  by (auto simp: with_piece_def rule_piece_def owner_tests Let_def split: option.splits)

lemma rule_piece_Ok: "rule_piece b idx p = Ok s \<Longrightarrow> on_board s \<and> owner (cell b s) = Some p"
  by (auto simp: rule_piece_def on_board_def Let_def split: if_splits option.splits)

lemma accepted_move:
  assumes "board_ok b"
  shows "square_play (Move idx d) p b = accepted_play (Move idx d) p b"
proof (cases "rule_piece b idx p")
  case (Ok s)
  have s: "on_board s" using rule_piece_Ok [OF Ok] by simp
  show ?thesis
  proof (cases "neighbour d 1 s")
    case (Some n)
    have st: "steps_to d 1 s n" by (rule neighbour_steps [OF s Some])
    have ob: "on_board n" "n \<noteq> s" using steps_to_board [OF st] steps_to_neq [OF st] by auto
    have c: "cell (moved b s n) n = cell b s" "board_ok (moved b s n)"
      using assms s ob by (simp_all add: moved_def)
    have "valid_direction (cell b s) d \<Longrightarrow> crown (moved b s n) n = arrive (moved b s n) n"
      using crown_arrive [of "moved b s n" n] step_advances [OF st, of "cell b s"] c by simp
    then show ?thesis
      using goes_direction [OF st, of "cell b s"] by (simp add: accepted_play_def with_piece_rule Ok Some)
  qed (simp add: accepted_play_def with_piece_rule Ok)
qed (simp_all add: accepted_play_def with_piece_rule)

lemma accepted_jump:
  assumes "board_ok b"
  shows "square_play (Jump idx path) p b = accepted_play (Jump idx path) p b"
proof (cases "rule_piece b idx p")
  case (Ok s)
  have s: "on_board s" "owner (cell b s) = Some p" using rule_piece_Ok [OF Ok] by simp_all
  show ?thesis
  proof (cases path)
    case Nil
    have same: "put_cell b s (cell b s) = b"
      using assms s(1) by (simp add: put_cell_def cell_def board_ok_def on_board_def)
    have "upgrade (cell b s) = king_of p" using s(2) by (cases "cell b s") auto
    then have "crown b s = (if fst s = 0 \<or> fst s = 7 then put_cell b s (king_of p) else b)"
      by (simp add: crown_def)
    then show ?thesis by (simp add: accepted_play_def with_piece_rule Ok Nil)
  next
    case (Cons d rest)
    have "crown b' n = arrive b' n" if "square_jumps p path b s = Some (b', n)" for b' n
      using jumps_advance [OF that assms s(1)] crown_arrive [of b' n] Cons by simp
    then show ?thesis
      using rule_jumps_square [OF s(1), of p path b] Cons
      by (simp add: accepted_play_def with_piece_rule Ok split: option.splits)
  qed
qed (cases path; simp add: accepted_play_def with_piece_rule)+

lemma accepted_square: "board_ok b \<Longrightarrow> square_play ev p b = accepted_play ev p b"
  using accepted_move [of b _ _ p] accepted_jump [of b _ _ p]
  by (cases ev) (simp_all add: accepted_play_def del: square_play.simps(1,2))

section \<open>Properties\<close>

text \<open>
  C19: on an eight by eight board a play has exactly the outcome the rules of checkers give it (the
  board the rules describe, or their error and the board as it was before the first jump), with one
  exception: a jump along an empty path, which the rules refuse, is accepted, and makes a king of a
  man on the first or last row. It never panics. (\<open>board_ok\<close> is the array type of the code's board.)
\<close>

theorem play_follows_rules:
  assumes "board_ok b"
  shows "(case accepted_play ev p b of
       Ok b' \<Rightarrow> play ev p b = (Ok (), b') \<and> (rule_play ev p b = Ok b' \<or> (\<exists>idx. ev = Jump idx []))
     | Err e \<Rightarrow> play ev p b = (Err e, b) \<and> rule_play ev p b = Err e
     | _ \<Rightarrow> False)"
proof -
  have "accepted_play ev p b = rule_play ev p b \<or>
      (\<exists>idx. ev = Jump idx [] \<and> (\<forall>e. accepted_play ev p b = Err e \<longrightarrow> rule_play ev p b = Err e))"
  proof (cases ev)
    case (Jump idx path)
    show ?thesis
      by (cases path; cases "rule_piece b idx p") (simp_all add: Jump accepted_play_def)
  qed (simp_all add: accepted_play_def)
  then show ?thesis
    using square_play_total [of ev p b] accepted_square [OF assms, of ev p] play_square [of ev p b]
    by (cases "accepted_play ev p b") auto
qed

theorem play_follows_rules_witness:
  "play (Jump 57 [NE]) Red board_default = (Err InvalidPlay, board_default) \<and>
   (\<exists>b'. play (Move 41 NE) Red board_default = (Ok (), b') \<and> rule_play (Move 41 NE) Red board_default = Ok b')"
proof -
  have ok: "board_ok board_default" by (simp add: board_ok_def board_default_def Let_def)
  have "accepted_play (Jump 57 [NE]) Red board_default = Err InvalidPlay" by code_simp
  moreover have "\<exists>b'. accepted_play (Move 41 NE) Red board_default = Ok b'"
    by (simp add: accepted_play_def rule_piece_def neighbour_def shift_def goes_def cell_def board_default_def Let_def)
  ultimately show ?thesis
    using play_follows_rules [OF ok, of "Jump 57 [NE]" Red] play_follows_rules [OF ok, of "Move 41 NE" Red]
    by auto
qed

text \<open>
  C32: a play on a board of the game gives a board of the game (eight by eight, pieces on the dark
  squares only, no man left on its far row), keeps the number of pieces of the player, and takes
  exactly one piece of the opponent for each jump of its path.
\<close>

theorem play_keeps_game_board:
  assumes "game_board b" "play ev p b = (Ok (), b')"
  shows "game_board b' \<and> pieces b' p = pieces b p \<and> pieces b' (opponent p) + captures ev = pieces b (opponent p)"
  using play_cases [OF assms(1), of ev p] assms(2) by (auto simp: play_ok_def)

theorem play_keeps_game_board_witness:
  "game_board (put_cell (put_cell board_default (5, 1) NoneT) (4, 2) RedT)"
proof -
  have "play (Move 41 NE) Red board_default = (Ok (), put_cell (put_cell board_default (5, 1) NoneT) (4, 2) RedT)"
    by code_simp
  from play_keeps_game_board [OF default_board(1) this] show ?thesis by blast
qed

text \<open>The positions of a game: the starting board is the one of turn two, and turns alternate.\<close>

inductive position_at :: "u64 \<Rightarrow> board \<Rightarrow> bool" where
  start: "position_at 2 board_default"
| turn: "position_at t b \<Longrightarrow> from_turn t = Ok p \<Longrightarrow> play ev p b = (Ok (), b') \<Longrightarrow> position_at (t + 1) b'"

text \<open>
  Every position reached from the starting board by accepted plays in turn is a board of the
  game with at most twelve pieces of each player.
\<close>

theorem positions_are_game_boards:
  assumes "position_at t b"
  shows "game_board b \<and> pieces b Red \<le> 12 \<and> pieces b Black \<le> 12"
  using assms
proof induction
  case (turn t b p ev b')
  then have "play_ok ev p b b'" using play_cases [of b ev p] by auto
  then show ?case using turn.IH by (cases p) (auto simp: play_ok_def)
qed (simp add: default_board)

theorem positions_are_game_boards_witness:
  "\<exists>b. position_at 3 b \<and> game_board b \<and> pieces b Red \<le> 12 \<and> pieces b Black \<le> 12"
proof -
  have "play (Move 41 NE) Red board_default = (Ok (), put_cell (put_cell board_default (5, 1) NoneT) (4, 2) RedT)"
    by code_simp
  from position_at.turn [OF position_at.start _ this] have "\<exists>b. position_at 3 b"
    by (auto simp: from_turn_def)
  then show ?thesis using positions_are_game_boards by blast
qed

text \<open>
  an empty path of jumps is an accepted play, and it makes a king of a man that never left the
  first row of its own side.
\<close>

theorem empty_jump_crowns_home_row:
  "\<exists>b'. play (Jump 57 []) Red board_default = (Ok (), b') \<and> cell board_default (7, 1) = RedT \<and>
     b' = put_cell board_default (7, 1) RedKing"
  by (simp add: play_square with_piece_def crown_def board_default_def cell_def Let_def)

text \<open>
  index and row-column conversions are inverse to each other on the board, and refuse what is
  outside of it.
\<close>

theorem square_index_round_trip:
  "(if idx \<le> 63 then and_then (idx_to_rc idx) (\<lambda>(r, c). rc_to_idx r c) = Ok idx
    else idx_to_rc idx = Err InvalidCoordinate) \<and>
   (if r \<le> 7 \<and> c \<le> 7 then and_then (rc_to_idx r c) idx_to_rc = Ok (r, c)
    else rc_to_idx r c = Err InvalidCoordinate)"
proof (intro conjI)
  have "idx div 8 \<le> 7" "idx mod 8 \<le> 7" if "idx \<le> 63"
    using that by (simp_all add: word_le_nat_alt unat_div unat_mod)
  moreover have "idx div 8 * 8 + idx mod 8 = idx" by (rule div_mult_mod_eq)
  ultimately show "if idx \<le> 63 then and_then (idx_to_rc idx) (\<lambda>(r, c). rc_to_idx r c) = Ok idx
    else idx_to_rc idx = Err InvalidCoordinate"
    by (auto simp: idx_to_rc_def rc_to_idx_def not_less)
  have "unat (r * 8 + c) = unat r * 8 + unat c" if "r \<le> 7" "c \<le> 7"
    using that by (simp add: word_le_nat_alt unat_word_ariths)
  then have "r * 8 + c \<le> 63 \<and> (r * 8 + c) div 8 = r \<and> (r * 8 + c) mod 8 = c" if "r \<le> 7" "c \<le> 7"
    using that by (simp add: word_le_nat_alt word_eq_iff_unsigned [where ?'a = nat] unat_div unat_mod)
  then show "if r \<le> 7 \<and> c \<le> 7 then and_then (rc_to_idx r c) idx_to_rc = Ok (r, c)
    else rc_to_idx r c = Err InvalidCoordinate"
    by (auto simp: idx_to_rc_def rc_to_idx_def not_less)
qed

end
