(* ===== verification/Game_Cache.thy ===== *)
theory Game_Cache
  imports Primitives
begin

text \<open>
  The cache of game states by tick and plot of \<open>core/src/record_keeper/game_state.rs\<close>. The lemmas
  show that it implements one history of states per plot: caching a state forgets the states of
  later ticks, and a lookup returns the newest state that is not after the tick asked for.
\<close>

section \<open>The cache\<close>

record 'g game_state_cache =
  states :: "(u64, (plot_id, 'g) hash_map) btree_map"
  latest_ticks :: "(plot_id, u64) hash_map"

definition game_state_cache_new :: "'g game_state_cache" where
  "game_state_cache_new = \<lparr>states = [], latest_ticks = []\<rparr>"

text \<open>
  \<open>drop_after\<close> with a plot walks the ticks downwards until it reaches \<open>tick\<close>; without one it splits
  the map at \<open>tick\<close> and puts the entry of \<open>tick\<close> back.
\<close>

definition drop_after :: "u64 \<Rightarrow> plot_id option \<Rightarrow> 'g game_state_cache \<Rightarrow> 'g game_state_cache" where
  "drop_after tick plot c =
     (case plot of
        Some p \<Rightarrow>
          let down = rev (states c); late = takeWhile (\<lambda>(t, _). \<not> t \<le> tick) down
          in c\<lparr>states := rev (map (\<lambda>(t, plots). (t, hm_remove p plots)) late @ drop (length late) down)\<rparr>
      | None \<Rightarrow>
          let t = bt_get (states c) tick;
              kept = filter (\<lambda>(k, _). k < tick) (bt_remove tick (states c))
          in c\<lparr>states := (case t of Some plots \<Rightarrow> bt_insert tick plots kept | None \<Rightarrow> kept)\<rparr>)"

definition cache_state :: "u64 \<Rightarrow> plot_id \<Rightarrow> 'g \<Rightarrow> 'g game_state_cache \<Rightarrow> 'g game_state_cache" where
  "cache_state tick plot state c =
     (let plots = (case bt_get (states c) tick of None \<Rightarrow> [] | Some plots \<Rightarrow> plots);
          c1 = c\<lparr>states := bt_insert tick (hm_insert plot state plots) (states c)\<rparr>;
          c2 = (case hm_get (latest_ticks c1) plot of
                  Some l \<Rightarrow> if tick < l then drop_after tick (Some plot) c1 else c1
                | None \<Rightarrow> c1)
      in c2\<lparr>latest_ticks := hm_insert plot tick (latest_ticks c2)\<rparr>)"

definition latest_state ::
  "'g game_state_cache \<Rightarrow> plot_id \<Rightarrow> u64 option \<Rightarrow> ((u64 \<times> 'g) option, 'e) result" where
  "latest_state c plot tick =
     (case hm_get (latest_ticks c) plot of
        None \<Rightarrow> Ok None
      | Some l \<Rightarrow>
          (case tick of
             Some tk \<Rightarrow>
               if l \<le> tk
               then and_then (unwrap (bt_get (states c) l))
                 (\<lambda>plots. and_then (unwrap (hm_get plots plot)) (\<lambda>s. Ok (Some (l, s))))
               else (case filter (\<lambda>(_, plots). hm_get plots plot \<noteq> None)
                         (dropWhile (\<lambda>(t, _). tk < t) (rev (states c))) of
                       [] \<Rightarrow> Ok None
                     | (t, plots) # _ \<Rightarrow> and_then (unwrap (hm_get plots plot)) (\<lambda>s. Ok (Some (t, s))))
           | None \<Rightarrow>
               and_then (unwrap (bt_get (states c) l))
                 (\<lambda>plots. and_then (unwrap (hm_get plots plot)) (\<lambda>s. Ok (Some (l, s))))))"

definition drop_before :: "u64 \<Rightarrow> plot_id option \<Rightarrow> 'g game_state_cache \<Rightarrow> 'g game_state_cache" where
  "drop_before tick plot c =
     (case plot of
        Some p \<Rightarrow>
          let early = takeWhile (\<lambda>(t, _). \<not> tick \<le> t) (states c)
          in c\<lparr>states := map (\<lambda>(t, plots). (t, hm_remove p plots)) early @ drop (length early) (states c)\<rparr>
      | None \<Rightarrow> c\<lparr>states := bt_split_off tick (states c)\<rparr>)"

definition drop_plot :: "plot_id \<Rightarrow> 'g game_state_cache \<Rightarrow> 'g game_state_cache" where
  "drop_plot plot c = c\<lparr>states := map (\<lambda>(t, plots). (t, hm_remove plot plots)) (states c)\<rparr>"

section \<open>The history of a plot\<close>

definition history :: "'g game_state_cache \<Rightarrow> plot_id \<Rightarrow> u64 \<rightharpoonup> 'g" where
  "history c p t = Option.bind (bt_get (states c) t) (\<lambda>plots. hm_get plots p)"

text \<open>The states of a plot that is known end with the one of its latest tick.\<close>

definition cache_ok :: "'g game_state_cache \<Rightarrow> bool" where
  "cache_ok c \<longleftrightarrow> bt_ok (states c) \<and>
     (\<forall>p. case hm_get (latest_ticks c) p of
        Some l \<Rightarrow> history c p l \<noteq> None \<and> (\<forall>t > l. history c p t = None)
      | None \<Rightarrow> \<forall>t. history c p t = None)"

lemma cache_ok_sorted: "cache_ok c \<Longrightarrow> bt_ok (states c)"
  by (simp add: cache_ok_def)

lemma cache_ok_latest:
  assumes "cache_ok c"
  shows "hm_get (latest_ticks c) p = Some l \<Longrightarrow> history c p l \<noteq> None"
    "hm_get (latest_ticks c) p = Some l \<Longrightarrow> l < t \<Longrightarrow> history c p t = None"
    "hm_get (latest_ticks c) p = None \<Longrightarrow> history c p t = None"
  using assms unfolding cache_ok_def by (force split: option.splits)+

text \<open>Walking a sorted map from either end is filtering it.\<close>

lemma rev_take_late:
  assumes "bt_ok m"
  shows "rev (map f (takeWhile (\<lambda>(t, _). \<not> t \<le> k) (rev m)) @ drop (length (takeWhile (\<lambda>(t, _). \<not> t \<le> k) (rev m))) (rev m)) =
    map (\<lambda>e. if fst e \<le> k then e else f e) m"
  using assms
proof (induction m rule: rev_induct)
  case (snoc e m)
  have m: "bt_ok m" "\<forall>x \<in> set m. fst x < fst e" using snoc.prems by (auto simp: sorted_wrt_append)
  show ?case
  proof (cases "fst e \<le> k")
    case True
    then have "map (\<lambda>e. if fst e \<le> k then e else f e) m = m" using m(2) by (intro map_idI) force
    then show ?thesis using True by (simp add: case_prod_unfold)
  next
    case False
    then show ?thesis using snoc.IH [OF m(1)] by (simp add: case_prod_unfold)
  qed
qed simp

lemma map_of_map_cond:
  "map_of (map (\<lambda>e. if P (fst e) then e else (case e of (t, plots) \<Rightarrow> (t, f plots))) m) t =
     (if P t then map_of m t else map_option f (map_of m t))"
  by (induction m) auto

lemma drop_after_states:
  assumes "bt_ok (states c)"
  shows "states (drop_after tick (Some p) c) =
      map (\<lambda>e. if fst e \<le> tick then e else (case e of (t, plots) \<Rightarrow> (t, hm_remove p plots))) (states c)"
    "latest_ticks (drop_after tick (Some p) c) = latest_ticks c"
  using rev_take_late [OF assms, of "\<lambda>(t, plots). (t, hm_remove p plots)" tick]
  by (simp_all add: drop_after_def Let_def)

lemma history_drop_after:
  assumes "bt_ok (states c)"
  shows "history (drop_after tick (Some p) c) q t = (if q = p \<and> tick < t then None else history c q t)"
  using map_of_map_cond [of "\<lambda>x. x \<le> tick" "hm_remove p" "states c" t]
  by (auto simp: history_def drop_after_states [OF assms] map_simps not_le split: Option.bind_split)

lemma drop_after_sorted:
  assumes "bt_ok (states c)"
  shows "bt_ok (states (drop_after tick (Some p) c))"
proof -
  have "map fst (states (drop_after tick (Some p) c)) = map fst (states c)"
    unfolding drop_after_states [OF assms] by (simp add: comp_def case_prod_unfold if_distrib cong: if_cong)
  then show ?thesis using assms by simp
qed

lemma history_cache_state:
  assumes "cache_ok c"
  shows "history (cache_state tick p s c) q t =
      (if q = p then (if t = tick then Some s else if t < tick then history c p t else None) else history c q t)"
    "bt_ok (states (cache_state tick p s c))"
    "latest_ticks (cache_state tick p s c) = hm_insert p tick (latest_ticks c)"
proof -
  define c1 where "c1 = c\<lparr>states := bt_insert tick (hm_insert p s
    (case bt_get (states c) tick of None \<Rightarrow> [] | Some plots \<Rightarrow> plots)) (states c)\<rparr>"
  define c2 where "c2 = (case hm_get (latest_ticks c) p of
    Some l \<Rightarrow> if tick < l then drop_after tick (Some p) c1 else c1 | None \<Rightarrow> c1)"
  have run: "cache_state tick p s c = c2\<lparr>latest_ticks := hm_insert p tick (latest_ticks c2)\<rparr>"
    by (auto simp: cache_state_def c2_def c1_def Let_def split: option.splits)
  have ok: "bt_ok (states c1)" using cache_ok_sorted [OF assms] by (simp add: c1_def)
  have h1: "history c1 q t = (if q = p \<and> t = tick then Some s else history c q t)" for q t
    using cache_ok_sorted [OF assms] by (auto simp: c1_def history_def map_simps split: option.splits)
  have late: "history c p t = None" if "\<not> (\<exists>l. hm_get (latest_ticks c) p = Some l \<and> tick < l)" "tick < t" for t
    using that cache_ok_latest [OF assms] by (cases "hm_get (latest_ticks c) p") (auto simp: not_less)
  have h2: "history c2 q t =
      (if q = p then (if t = tick then Some s else if t < tick then history c p t else None) else history c q t)"
    using late [of t] by (auto simp: c2_def history_drop_after [OF ok] h1 not_less split: option.splits)
  show "history (cache_state tick p s c) q t =
      (if q = p then (if t = tick then Some s else if t < tick then history c p t else None) else history c q t)"
    using h2 by (simp add: run history_def)
  have "latest_ticks c2 = latest_ticks c" "bt_ok (states c2)"
    using ok drop_after_states(2) [OF ok] drop_after_sorted [OF ok]
    by (auto simp: c2_def c1_def split: option.splits)
  then show "bt_ok (states (cache_state tick p s c))"
    "latest_ticks (cache_state tick p s c) = hm_insert p tick (latest_ticks c)"
    by (simp_all add: run)
qed

lemma cache_state_ok: "cache_ok c \<Longrightarrow> cache_ok (cache_state tick p s c)"
proof -
  assume ok: "cache_ok c"
  have "case hm_get (latest_ticks (cache_state tick p s c)) q of
        Some l \<Rightarrow> history (cache_state tick p s c) q l \<noteq> None \<and>
          (\<forall>t > l. history (cache_state tick p s c) q t = None)
      | None \<Rightarrow> \<forall>t. history (cache_state tick p s c) q t = None" for q
    using cache_ok_latest [OF ok, of q]
    by (cases "q = p") (auto simp: history_cache_state [OF ok] map_simps split: option.splits)
  then show ?thesis using history_cache_state(2) [OF ok] by (simp add: cache_ok_def)
qed

text \<open>The newest entry of a plot at or before a tick.\<close>

definition newest :: "(u64 \<rightharpoonup> 'g) \<Rightarrow> u64 option \<Rightarrow> (u64 \<times> 'g) option \<Rightarrow> bool" where
  "newest h tick r \<longleftrightarrow>
     (case r of
        Some (t, s) \<Rightarrow> h t = Some s \<and> (\<forall>tk. tick = Some tk \<longrightarrow> t \<le> tk) \<and>
          (\<forall>t' > t. (\<forall>tk. tick = Some tk \<longrightarrow> t' \<le> tk) \<longrightarrow> h t' = None)
      | None \<Rightarrow> \<forall>t. (\<forall>tk. tick = Some tk \<longrightarrow> t \<le> tk) \<longrightarrow> h t = None)"

lemma drop_while_rev:
  assumes "bt_ok m"
  shows "dropWhile (\<lambda>(t, _). tk < t) (rev m) = rev (filter (\<lambda>e. fst e \<le> tk) m)"
  using assms
proof (induction m rule: rev_induct)
  case (snoc e m)
  have m: "bt_ok m" "\<forall>x \<in> set m. fst x < fst e" using snoc.prems by (auto simp: sorted_wrt_append)
  show ?case
  proof (cases "tk < fst e")
    case True
    then show ?thesis using snoc.IH [OF m(1)] by (simp add: case_prod_unfold not_le)
  next
    case False
    then have "filter (\<lambda>e. fst e \<le> tk) m = m" using m(2) by (intro filter_True) force
    then show ?thesis using False by (simp add: case_prod_unfold not_le)
  qed
qed simp

lemma last_filter_newest:
  assumes "bt_ok m"
  shows "case rev (filter P m) of
      [] \<Rightarrow> \<forall>t v. map_of m t = Some v \<longrightarrow> \<not> P (t, v)
    | (t, v) # _ \<Rightarrow> map_of m t = Some v \<and> P (t, v) \<and> (\<forall>t' v'. t < t' \<longrightarrow> map_of m t' = Some v' \<longrightarrow> \<not> P (t', v'))"
  using assms
proof (induction m rule: rev_induct)
  case (snoc e m)
  obtain k v where e: "e = (k, v)" by (cases e)
  have m: "bt_ok m" "\<forall>x \<in> set m. fst x < k" using snoc.prems by (auto simp: sorted_wrt_append e)
  have none: "map_of m k = None" using m(2) by (auto simp: map_of_eq_None_iff)
  have mo: "map_of (m @ [e]) t = (if t = k then Some v else map_of m t)" for t
    using none by (auto simp: e map_add_def split: option.splits)
  have less: "t < k" if "map_of m t = Some w" for t w using m(2) map_of_SomeD [OF that] by force
  show ?case
  proof (cases "P e")
    case True
    then show ?thesis using mo less by (auto simp: e) (metis less order.asym)
  next
    case False
    then show ?thesis using snoc.IH [OF m(1)] none by (auto simp: mo e split: list.splits if_splits)
  qed
qed simp

lemma latest_state_newest:
  assumes "cache_ok c"
  shows "\<exists>r. latest_state c p tick = Ok r \<and> newest (history c p) tick r"
proof (cases "hm_get (latest_ticks c) p")
  case None
  then show ?thesis using cache_ok_latest(3) [OF assms None] by (auto simp: latest_state_def newest_def)
next
  case (Some l)
  note l = cache_ok_latest(1,2) [OF assms Some]
  obtain plots s where s: "bt_get (states c) l = Some plots" "hm_get plots p = Some s"
    using l(1) by (auto simp: history_def split: Option.bind_splits)
  then have h: "history c p l = Some s" by (simp add: history_def)
  show ?thesis
  proof (cases "\<exists>tk. tick = Some tk \<and> tk < l")
    case False
    then have "latest_state c p tick = Ok (Some (l, s))"
      using Some s by (auto simp: latest_state_def not_less split: option.splits)
    moreover have "newest (history c p) tick (Some (l, s))" using False h l(2) by (auto simp: newest_def not_less)
    ultimately show ?thesis by blast
  next
    case True
    then obtain tk where tk: "tick = Some tk" "tk < l" by blast
    let ?P = "\<lambda>e. fst e \<le> tk \<and> hm_get (snd e) p \<noteq> None"
    have f: "filter (\<lambda>(_, plots). hm_get plots p \<noteq> None) (dropWhile (\<lambda>(t, _). tk < t) (rev (states c))) =
        rev (filter ?P (states c))"
      by (simp only: drop_while_rev [OF cache_ok_sorted [OF assms]])
        (simp add: rev_filter case_prod_unfold conj_commute)
    have run: "latest_state c p tick = (case rev (filter ?P (states c)) of
        [] \<Rightarrow> Ok None | (t, plots) # _ \<Rightarrow> and_then (unwrap (hm_get plots p)) (\<lambda>s. Ok (Some (t, s))))"
      unfolding latest_state_def Some tk(1) option.case f if_not_P [OF tk(2) [folded not_le]] by (rule refl)
    note n = last_filter_newest [OF cache_ok_sorted [OF assms], of ?P]
    show ?thesis
    proof (cases "rev (filter ?P (states c))")
      case Nil
      then show ?thesis using n unfolding run Nil
        by (auto simp: newest_def history_def tk(1) split: Option.bind_splits)
    next
      case (Cons e es)
      obtain t plots where e: "e = (t, plots)" by (cases e)
      show ?thesis using n unfolding run Cons e
        by (auto simp: newest_def history_def tk(1) unwrap_def split: Option.bind_splits)
    qed
  qed
qed

section \<open>Properties\<close>

text \<open>
  C33: caching a state implements an update of the history of its plot: the state is the one of its
  tick, the states of earlier ticks stay, those of later ticks are forgotten, and the other plots
  are not touched. The cache stays well-formed.
\<close>

theorem cache_refines_history:
  assumes "cache_ok c"
  shows "cache_ok (cache_state tick p s c) \<and>
    history (cache_state tick p s c) =
      (history c)(p := (\<lambda>t. if t = tick then Some s else if t < tick then history c p t else None))"
  using cache_state_ok [OF assms] by (auto simp: fun_eq_iff history_cache_state(1) [OF assms])

lemma cache_ok_new: "cache_ok game_state_cache_new"
  by (simp add: cache_ok_def game_state_cache_new_def history_def)

theorem cache_refines_history_witness:
  "history (cache_state 3 (Coord 0 0) (7 :: nat) game_state_cache_new) (Coord 0 0) 3 = Some 7"
  using cache_refines_history [OF cache_ok_new, of 3 "Coord 0 0" "7 :: nat"] by simp

text \<open>
  A lookup in a well-formed cache does not panic and returns the newest state of the plot, or the
  newest one at or before the tick asked for, and nothing exactly when there is none.
\<close>

theorem latest_returns_newest:
  assumes "cache_ok c"
  shows "\<exists>r. latest_state c p tick = (Ok r :: (_, string) result) \<and> newest (history c p) tick r"
  using latest_state_newest [OF assms] .

theorem latest_returns_newest_witness:
  "\<exists>r. latest_state (cache_state 3 (Coord 0 0) (7 :: nat) game_state_cache_new) (Coord 0 0) (Some 5) =
      (Ok r :: (_, string) result) \<and>
    newest (history (cache_state 3 (Coord 0 0) 7 game_state_cache_new) (Coord 0 0)) (Some 5) r"
  by (rule latest_returns_newest [OF cache_state_ok [OF cache_ok_new]])

text \<open>
  dropping a plot, or everything before a later tick, does not forget the latest tick of the
  plot: the next lookup without a tick panics, although the plot was cached and dropped by the
  operations of the cache itself.
\<close>

theorem drop_leaves_dangling_latest:
  "latest_state (drop_plot p (cache_state t p s game_state_cache_new)) p None = Panic \<and>
   (if t < u then latest_state (drop_before u None (cache_state t p s game_state_cache_new)) p None = Panic
    else latest_state (drop_before u None (cache_state t p s game_state_cache_new)) p None = Ok (Some (t, s)))"
  by (auto simp: latest_state_def drop_plot_def drop_before_def cache_state_def game_state_cache_new_def
    Let_def unwrap_def bt_split_off_def)

end
