(* ===== verification/Checkers_Rules.thy ===== *)
theory Checkers_Rules
  imports Checkers Game_Cache Rules "HOL-Library.Product_Lexorder"
begin

text \<open>
  The mutation rules of the checkers game (\<open>checkers/src/rules\<close>). The binary form of the events of
  the game is the parameter \<open>E\<close>.
\<close>

section \<open>Events of a mutation\<close>

record 'e de_plot_event =
  de_from :: plot_id
  de_to :: "plot_id list"
  de_tick :: u64
  de_event :: 'e

definition de_plot_event_deserialize :: "'e codec \<Rightarrow> plot_event \<Rightarrow> ('e de_plot_event, string) result" where
  "de_plot_event_deserialize E e =
     and_then (de E (pe_event e))
       (\<lambda>ev. Ok \<lparr>de_from = pe_from e, de_to = pe_to e, de_tick = pe_tick e, de_event = ev\<rparr>)"

definition de_plot_event_serialize :: "'e codec \<Rightarrow> 'e de_plot_event \<Rightarrow> plot_event" where
  "de_plot_event_serialize E e =
     \<lparr>pe_from = de_from e, pe_to = de_to e, pe_tick = de_tick e, pe_event = ser E (de_event e)\<rparr>"

type_synonym game_event = "checkers_event de_plot_event \<times> u160"

definition get_events :: "checkers_event codec \<Rightarrow> signed_change list \<Rightarrow> (game_event list, error) result" where
  "get_events E m =
     and_then (plot_events_rule_iter
         (\<lambda>event player events. and_then (lift_de (de_plot_event_deserialize E event))
            (\<lambda>e. Ok (events @ [(e, player)]))) m [])
       (\<lambda>events. Ok (sort_key (\<lambda>(e, _). (de_from e, de_tick e)) events))"

section \<open>The rules\<close>

definition valid_event_is_valid :: "checkers_event codec \<Rightarrow> signed_change list \<Rightarrow> (unit, error) result" where
  "valid_event_is_valid E m =
     plot_events_rule_iter
       (\<lambda>event _ _. case de E (pe_event event) of
            Err err \<Rightarrow> Err (Logic (InvalidMutation err))
          | Ok _ \<Rightarrow> Ok ()
          | Panic \<Rightarrow> Panic
          | Diverge \<Rightarrow> Diverge) m ()"

type_synonym boards = "(plot_id, (u160 \<times> u160) \<times> u64) hash_map"

text \<open>\<open>deserialize(&list[0])?\<close>: the first event of a tick.\<close>

definition first_event :: "checkers_event codec \<Rightarrow> raw_event list \<Rightarrow> (checkers_event, error) result" where
  "first_event E l = (case l of [] \<Rightarrow> Panic | b # _ \<Rightarrow> lift_de (de E b))"

text \<open>The players of a game that was started and joined.\<close>

definition players_of_start :: "checkers_event codec \<Rightarrow> raw_event list \<Rightarrow> (u160 \<times> u160, error) result" where
  "players_of_start E start_event =
     and_then (first_event E start_event) (\<lambda>ev. case ev of Start p1 p2 \<Rightarrow> Ok (p1, p2) | _ \<Rightarrow> Panic)"

definition turns_start ::
  "'s ext \<Rightarrow> 's dbase \<Rightarrow> game_event \<Rightarrow> boards \<Rightarrow> (boards, error) result" where
  "turns_start X state = (\<lambda>(e, player) boards.
     case de_event e of
       Start p1 p2 \<Rightarrow>
         and_then (get_plot_events X state (de_from e) 0)
           (\<lambda>evs. and_then (assert_mut_valid (evs = []) ''Cannot start a new game on an existing board.'')
             (\<lambda>_. and_then (assert_mut_valid (p1 = player \<or> p2 = player) ''Cannot start a game for other players.'')
               (\<lambda>_. Ok (hm_insert (de_from e) ((p1, p2), de_tick e) boards))))
     | _ \<Rightarrow> Err (Logic (InvalidMutation ''Must have new game txn to begin a game'')))"

definition turns_join ::
  "'s ext \<Rightarrow> checkers_event codec \<Rightarrow> 's dbase \<Rightarrow> game_event \<Rightarrow> boards \<Rightarrow> (boards, error) result" where
  "turns_join X E state = (\<lambda>(e, _) boards.
     case de_event e of
       Join player \<Rightarrow>
         and_then
           (case hm_get boards (de_from e) of
              Some (players, _) \<Rightarrow> Ok players
            | None \<Rightarrow>
                and_then (get_plot_events X state (de_from e) 0)
                  (\<lambda>events. let start_event = bt_get events 0 in
                    and_then (assert_mut_valid (start_event \<noteq> None) ''Missing start'')
                      (\<lambda>_. and_then (assert_mut_valid (bt_get events 1 = None) ''Game is already full'')
                        (\<lambda>_. and_then (unwrap start_event) (players_of_start E)))))
           (\<lambda>(p1, p2). let boards = hm_remove (de_from e) boards in
              if p1 = U160_ZERO then Ok (hm_insert (de_from e) ((player, p2), de_tick e) boards)
              else if p2 = U160_ZERO then Ok (hm_insert (de_from e) ((p1, player), de_tick e) boards)
              else Err (Logic (InvalidMutation ''Game is already full'')))
     | _ \<Rightarrow> Err (Logic (InvalidMutation ''Must have new game txn to begin a game'')))"

definition is_join :: "checkers_event \<Rightarrow> bool" where
  "is_join ev = (case ev of Join _ \<Rightarrow> True | _ \<Rightarrow> False)"

definition turns_continue ::
  "'s ext \<Rightarrow> checkers_event codec \<Rightarrow> 's dbase \<Rightarrow> game_event \<Rightarrow> boards \<Rightarrow> (boards, error) result" where
  "turns_continue X E state = (\<lambda>(e, _) boards.
     case hm_get boards (de_from e) of
       Some (players, last_turn) \<Rightarrow>
         and_then (assert_mut_valid (last_turn + 1 = de_tick e \<or> (de_tick e = 0 \<and> is_join (de_event e)))
             ''Cannot skip or duplicate turns.'')
           (\<lambda>_. Ok (hm_insert (de_from e) (players, de_tick e) (hm_remove (de_from e) boards)))
     | None \<Rightarrow>
         and_then (get_plot_events X state (de_from e) 0)
           (\<lambda>events. let start_event = bt_get events 0; join_event = bt_get events 1 in
             and_then (assert_mut_valid (start_event \<noteq> None) ''Game is not started.'')
               (\<lambda>_. and_then (assert_mut_valid (de_tick e = 2 \<or> bt_get events (de_tick e - 1) \<noteq> None) ''Missing prior turns.'')
                 (\<lambda>_. and_then (assert_mut_valid (bt_get events (de_tick e) = None) ''Cannot replace existing turn.'')
                   (\<lambda>_. and_then (and_then (unwrap start_event) (players_of_start E))
                     (\<lambda>(p1, p2). case join_event of
                        Some l \<Rightarrow>
                          and_then (first_event E l)
                            (\<lambda>ev. case ev of
                               Join player \<Rightarrow>
                                 if p1 = U160_ZERO then Ok (hm_insert (de_from e) ((player, p2), de_tick e) boards)
                                 else if p2 = U160_ZERO then Ok (hm_insert (de_from e) ((p1, player), de_tick e) boards)
                                 else Ok boards
                             | _ \<Rightarrow> Panic)
                      | None \<Rightarrow> Ok (hm_insert (de_from e) ((p1, p2), de_tick e) boards)))))))"

definition turns_step ::
  "'s ext \<Rightarrow> checkers_event codec \<Rightarrow> 's dbase \<Rightarrow> game_event \<Rightarrow> boards \<Rightarrow> (boards, error) result" where
  "turns_step X E state ge boards =
     (let e = fst ge in
       and_then (assert_mut_valid (de_tick e \<le> 500) ''Games may not have more than 500 turns.'')
         (\<lambda>_. and_then (assert_mut_valid (de_to e = []) ''Checkers events only occur on one plot.'')
           (\<lambda>_. if de_tick e = 0 then turns_start X state ge boards
                else if de_tick e = 1 then turns_join X E state ge boards
                else turns_continue X E state ge boards)))"

definition turns_player :: "boards \<Rightarrow> game_event \<Rightarrow> (unit, error) result" where
  "turns_player boards = (\<lambda>(e, player).
     if de_tick e = 0 then Ok ()
     else and_then (unwrap (hm_get boards (de_from e)))
       (\<lambda>((p1, p2), _).
          and_then (assert_mut_valid (p1 \<noteq> U160_ZERO \<and> p2 \<noteq> U160_ZERO) ''Waiting for player.'')
            (\<lambda>_. if de_tick e mod 2 = 0 then assert_mut_valid (player = p1) ''Invalid player.''
                 else assert_mut_valid (player = p2) ''Invalid player.'')))"

definition turns_is_valid :: "'s ext \<Rightarrow> checkers_event codec \<Rightarrow> 's dbase \<Rightarrow> signed_change list \<Rightarrow> (unit, error) result" where
  "turns_is_valid X E state m =
     and_then (get_events E m)
       (\<lambda>events. and_then (for_each (turns_step X E state) events [])
         (\<lambda>boards. for_each (\<lambda>ge _. turns_player boards ge) events ()))"

section \<open>The rule of the game\<close>

text \<open>Plays that are known to be legal: any error is a panic (\<open>unwrap\<close>).\<close>

definition unwrap_res :: "('a, 'x) result \<Rightarrow> ('a, 'e) result" where
  "unwrap_res r = (case r of Ok v \<Rightarrow> Ok v | Diverge \<Rightarrow> Diverge | _ \<Rightarrow> Panic)"

definition replay_step :: "checkers_event codec \<Rightarrow> u64 \<times> raw_event list \<Rightarrow> board \<Rightarrow> (board, error) result" where
  "replay_step E = (\<lambda>(t, e) b.
     and_then (case e of [] \<Rightarrow> Panic | raw # _ \<Rightarrow> unwrap_res (de E raw))
       (\<lambda>ev. and_then (unwrap_res (from_turn t))
         (\<lambda>p. case play ev p b of (r, b') \<Rightarrow> and_then (unwrap_res r) (\<lambda>_. Ok b'))))"

definition game_step ::
  "'s ext \<Rightarrow> checkers_event codec \<Rightarrow> 's dbase \<Rightarrow> game_event \<Rightarrow> (board game_state_cache, unit, error) action" where
  "game_step X E state = (\<lambda>(e, _) c.
     if de_tick e < 2 then (Ok (), c)
     else bind_st
       (read_st (\<lambda>c. and_then (latest_state c (de_from e) (Some (de_tick e - 1)))
          (\<lambda>r. Ok (case r of Some (t, b) \<Rightarrow> (t, b) | None \<Rightarrow> (2, board_default)))))
       (\<lambda>(start_tick, b0). bind_st
          (read_st (\<lambda>_. if start_tick + 1 < de_tick e
             then and_then (get_plot_events X state (de_from e) (start_tick + 1))
               (\<lambda>old_events. for_each (replay_step E) old_events b0)
             else Ok b0))
          (\<lambda>b1. bind_st (read_st (\<lambda>_. unwrap_res (from_turn (de_tick e))))
             (\<lambda>player c. case play (de_event e) player b1 of
                (Ok _, b2) \<Rightarrow> (Ok (), cache_state (de_tick e) (de_from e) b2 c)
              | (Err err, _) \<Rightarrow> (Err (Logic (InvalidMutation (checkers_description err))), c)
              | (Panic, _) \<Rightarrow> (Panic, c)
              | (Diverge, _) \<Rightarrow> (Diverge, c)))) c)"

definition game_is_valid ::
  "'s ext \<Rightarrow> checkers_event codec \<Rightarrow> 's dbase \<Rightarrow> signed_change list \<Rightarrow> (board game_state_cache, unit, error) action" where
  "game_is_valid X E state m =
     bind_st (read_st (\<lambda>_. get_events E m)) (\<lambda>events. for_st (game_step X E state) events)"

definition build_rules :: "'s ext \<Rightarrow> checkers_event codec \<Rightarrow> ('s, board game_state_cache) mutation_rule list" where
  "build_rules X E =
     [\<lambda>state m cache. bind_st (read_st (\<lambda>_. valid_event_is_valid E m)) (\<lambda>_. return_st cache),
      \<lambda>state m cache. bind_st (read_st (\<lambda>_. turns_is_valid X E state m)) (\<lambda>_. return_st cache),
      \<lambda>state m cache. bind_st (game_is_valid X E state m) (\<lambda>_. return_st cache)]"

section \<open>What the rule on turns guarantees\<close>

lemma assert_mut_valid_Ok [result_simps]: "assert_mut_valid c msg = Ok u \<longleftrightarrow> c"
  by (simp add: assert_mut_valid_def)

lemma unwrap_res_Ok [result_simps]: "unwrap_res r = Ok x \<longleftrightarrow> r = Ok x"
  by (cases r) (simp_all add: unwrap_res_def)

text \<open>The ticks at which the network state has events of a plot.\<close>

definition known_ticks :: "'s ext \<Rightarrow> 's dbase \<Rightarrow> plot_id \<Rightarrow> u64 set" where
  "known_ticks X st p = {t. \<exists>evs. get_plot_events X st p 0 = Ok evs \<and> bt_get evs t \<noteq> None}"

definition slot :: "game_event \<Rightarrow> plot_id \<times> u64" where
  "slot ge = (de_from (fst ge), de_tick (fst ge))"

text \<open>An event comes after the start of its game and directly after the turn before it.\<close>

definition turn_in_order :: "'s ext \<Rightarrow> 's dbase \<Rightarrow> (plot_id \<times> u64) set \<Rightarrow> game_event \<Rightarrow> bool" where
  "turn_in_order X st before ge =
     (let e = fst ge; p = de_from e; t = de_tick e in
       t \<le> 500 \<and> de_to e = [] \<and>
       (t = 0 \<longrightarrow> (\<exists>p1 p2. de_event e = Start p1 p2 \<and> snd ge \<in> {p1, p2}) \<and> known_ticks X st p = {}) \<and>
       (t \<noteq> 0 \<longrightarrow> 0 \<in> known_ticks X st p \<or> (p, 0) \<in> before) \<and>
       (2 < t \<longrightarrow> t - 1 \<in> known_ticks X st p \<and> t \<notin> known_ticks X st p \<or> (p, t - 1) \<in> before))"

definition boards_ok :: "'s ext \<Rightarrow> 's dbase \<Rightarrow> (plot_id \<times> u64) set \<Rightarrow> boards \<Rightarrow> bool" where
  "boards_ok X st before boards \<longleftrightarrow>
     (\<forall>p players l. hm_get boards p = Some (players, l) \<longrightarrow>
        (p, l) \<in> before \<and> (0 \<in> known_ticks X st p \<or> (p, 0) \<in> before))"

lemma turn_in_order_mono: "turn_in_order X st A ge \<Longrightarrow> A \<subseteq> B \<Longrightarrow> turn_in_order X st B ge"
  by (auto simp: turn_in_order_def Let_def)

lemma boards_ok_insert:
  "boards_ok X st A boards \<Longrightarrow> 0 \<in> known_ticks X st p \<or> (p, 0) \<in> insert (p, t) A \<Longrightarrow>
     boards_ok X st (insert (p, t) A) (hm_insert p (players, t) boards)"
  "boards_ok X st A boards \<Longrightarrow> boards_ok X st A (hm_remove p boards)"
  "boards_ok X st A boards \<Longrightarrow> A \<subseteq> B \<Longrightarrow> boards_ok X st B boards"
  by (auto simp: boards_ok_def map_simps split: if_splits) (meson subsetD)

text \<open>The last part of the check of a plot seen for the first time.\<close>

definition seated :: "checkers_event codec \<Rightarrow> plot_id \<Rightarrow> u64 \<Rightarrow> raw_event list option \<Rightarrow> boards \<Rightarrow> boards \<Rightarrow> bool" where
  "seated E p t join_event boards boards' \<longleftrightarrow> (\<exists>p1 p2. (case join_event of
      Some l \<Rightarrow> and_then (first_event E l)
        (\<lambda>ev. case ev of
           Join player \<Rightarrow>
             if p1 = U160_ZERO then Ok (hm_insert p ((player, p2), t) boards)
             else if p2 = U160_ZERO then Ok (hm_insert p ((p1, player), t) boards)
             else Ok boards
         | _ \<Rightarrow> Panic)
    | None \<Rightarrow> Ok (hm_insert p ((p1, p2), t) boards)) = Ok boards')"

lemma seated_cases:
  assumes "seated E p t j boards boards'"
  shows "boards' = boards \<or> (\<exists>players. boards' = hm_insert p (players, t) boards)"
proof (cases j)
  case None
  then show ?thesis using assms by (auto simp: seated_def)
next
  case (Some l)
  then obtain p1 p2 ev where "(case ev of
           Join player \<Rightarrow>
             if p1 = U160_ZERO then Ok (hm_insert p ((player, p2), t) boards)
             else if p2 = U160_ZERO then Ok (hm_insert p ((p1, player), t) boards)
             else Ok boards
         | _ \<Rightarrow> Panic) = (Ok boards' :: (boards, error) result)"
    using assms by (auto simp: seated_def result_simps)
  then show ?thesis by (cases ev) (auto split: if_splits)
qed

lemma turns_step_sound:
  assumes "turns_step X E st ge boards = Ok boards'" "boards_ok X st A boards"
  shows "turn_in_order X st A ge \<and> boards_ok X st (insert (slot ge) A) boards'"
proof -
  obtain e u where ge: "ge = (e, u)" by (cases ge)
  let ?p = "de_from e" and ?t = "de_tick e"
  have b: "?t \<le> 500" "de_to e = []"
    and run: "(if ?t = 0 then turns_start X st ge boards else if ?t = 1 then turns_join X E st ge boards
      else turns_continue X E st ge boards) = Ok boards'"
    using assms(1) by (auto simp: turns_step_def ge Let_def result_simps)
  note ins = boards_ok_insert [of X st A]
  consider (start) "?t = 0" | (join) "?t = 1" | (later) "?t \<noteq> 0" "?t \<noteq> 1" by blast
  then show ?thesis
  proof cases
    case start
    then show ?thesis
      using run b ins(1) [OF assms(2), of ?p 0]
      by (auto simp: ge turns_start_def result_simps turn_in_order_def slot_def known_ticks_def split: checkers_event.splits)
  next
    case join
    from run join have src: "0 \<in> known_ticks X st ?p \<or> (\<exists>l. hm_get boards ?p = Some l)"
      and out: "\<exists>players. boards' = hm_insert ?p (players, ?t) (hm_remove ?p boards)"
      by (auto simp: ge turns_join_def result_simps known_ticks_def Let_def
        split: checkers_event.splits option.splits if_splits)
    have "0 \<in> known_ticks X st ?p \<or> (?p, 0) \<in> A" using src assms(2) by (auto simp: boards_ok_def)
    then show ?thesis
      using join b out ins(1) [OF ins(2) [OF assms(2)], of ?p ?t] by (auto simp: ge turn_in_order_def slot_def Let_def)
  next
    case later
    show ?thesis
    proof (cases "hm_get boards ?p")
      case None
      from run later None obtain evs where evs: "get_plot_events X st ?p 0 = Ok evs" "bt_get evs 0 \<noteq> None"
        "?t = 2 \<or> bt_get evs (?t - 1) \<noteq> None" "bt_get evs ?t = None"
        and out: "seated E ?p ?t (bt_get evs 1) boards boards'"
        by (auto simp: ge turns_continue_def result_simps Let_def seated_def)
      then show ?thesis
        using later b ins(1) [OF assms(2), of ?p ?t] ins(3) [OF assms(2) subset_insertI] seated_cases [OF out]
        by (auto simp: ge turn_in_order_def slot_def known_ticks_def Let_def)
    next
      case (Some pl)
      obtain players l where pl: "pl = (players, l)" by (cases pl)
      from run later Some have "l + 1 = ?t" "boards' = hm_insert ?p (players, ?t) (hm_remove ?p boards)"
        by (auto simp: ge turns_continue_def result_simps pl)
      moreover from this have "l = ?t - 1" by (simp add: eq_diff_eq)
      moreover have "(?p, l) \<in> A" "0 \<in> known_ticks X st ?p \<or> (?p, 0) \<in> A"
        using assms(2) Some [unfolded pl] unfolding boards_ok_def by blast+
      ultimately show ?thesis
        using later b ins(1) [OF ins(2) [OF assms(2)], of ?p ?t, where players = players]
        by (auto simp: ge turn_in_order_def slot_def Let_def)
    qed
  qed
qed

lemma turns_loop_sound:
  assumes "for_each (turns_step X E st) evs boards = Ok boards'" "boards_ok X st A boards"
  shows "\<forall>ge \<in> set evs. turn_in_order X st (A \<union> slot ` set evs) ge"
  using assms
proof (induction evs arbitrary: boards A)
  case (Cons ge evs)
  obtain b1 where b1: "turns_step X E st ge boards = Ok b1" "for_each (turns_step X E st) evs b1 = Ok boards'"
    using Cons.prems(1) by (auto simp: result_simps)
  note s = turns_step_sound [OF b1(1) Cons.prems(2)]
  show ?case
    using Cons.IH [OF b1(2), of "insert (slot ge) A"] s
      turn_in_order_mono [of X st A ge "insert (slot ge) (A \<union> slot ` set evs)"] by auto
qed simp

text \<open>
  The seats of a game, read off its start and its joins: those of the network state (the first event
  of ticks 0 and 1), then those of the block. A join takes the first seat that is open.
\<close>

definition seat_join :: "checkers_event \<Rightarrow> u160 \<times> u160 \<Rightarrow> u160 \<times> u160" where
  "seat_join ev seats =
     (case (ev, seats) of
        (Join player, p1, p2) \<Rightarrow>
          if p1 = U160_ZERO then (player, p2) else if p2 = U160_ZERO then (p1, player) else (p1, p2)
      | _ \<Rightarrow> seats)"

definition state_turn :: "'s ext \<Rightarrow> checkers_event codec \<Rightarrow> 's dbase \<Rightarrow> plot_id \<Rightarrow> u64 \<Rightarrow> checkers_event list" where
  "state_turn X E st p t =
     (case get_plot_events X st p 0 of
        Ok evs \<Rightarrow> (case bt_get evs t of
          Some (b # _) \<Rightarrow> (case de E b of Ok ev \<Rightarrow> [ev] | _ \<Rightarrow> []) | _ \<Rightarrow> [])
      | _ \<Rightarrow> [])"

definition block_turn :: "game_event list \<Rightarrow> plot_id \<Rightarrow> u64 \<Rightarrow> checkers_event list" where
  "block_turn evs p t = map (\<lambda>ge. de_event (fst ge)) (filter (\<lambda>ge. slot ge = (p, t)) evs)"

definition game_seats ::
  "'s ext \<Rightarrow> checkers_event codec \<Rightarrow> 's dbase \<Rightarrow> game_event list \<Rightarrow> plot_id \<Rightarrow> (u160 \<times> u160) option" where
  "game_seats X E st evs p =
     (case rev (state_turn X E st p 0 @ block_turn evs p 0) of
        Start p1 p2 # _ \<Rightarrow> Some (fold seat_join (state_turn X E st p 1 @ block_turn evs p 1) (p1, p2))
      | _ \<Rightarrow> None)"

lemma block_turn_snoc [simp]:
  "block_turn [] p t = []"
  "block_turn (evs @ [ge]) p t = block_turn evs p t @ (if slot ge = (p, t) then [de_event (fst ge)] else [])"
  by (simp_all add: block_turn_def)

lemma game_seats_cong:
  "block_turn evs p 0 = block_turn evs' p 0 \<Longrightarrow> block_turn evs p 1 = block_turn evs' p 1 \<Longrightarrow>
    game_seats X E st evs p = game_seats X E st evs' p"
  by (simp only: game_seats_def)

lemma state_turn_simps:
  "get_plot_events X st p 0 = Ok evs \<Longrightarrow> bt_get evs t = None \<Longrightarrow> state_turn X E st p t = []"
  "get_plot_events X st p 0 = Ok evs \<Longrightarrow> bt_get evs t = Some l \<Longrightarrow> first_event E l = Ok ev \<Longrightarrow>
    state_turn X E st p t = [ev]"
  by (auto simp: state_turn_def first_event_def result_simps split: list.splits result.splits)

lemma players_of_start_Ok: "players_of_start E l = Ok (p1, p2) \<longleftrightarrow> first_event E l = Ok (Start p1 p2)"
  by (cases "first_event E l") (auto simp: players_of_start_def split: checkers_event.splits)

definition seats_ok :: "'s ext \<Rightarrow> checkers_event codec \<Rightarrow> 's dbase \<Rightarrow> game_event list \<Rightarrow> boards \<Rightarrow> bool" where
  "seats_ok X E st evs boards \<longleftrightarrow> (\<forall>p. case hm_get boards p of
       Some (players, _) \<Rightarrow> game_seats X E st evs p = Some players
     | None \<Rightarrow> block_turn evs p 0 = [] \<and> block_turn evs p 1 = [])"

lemma seats_okD:
  assumes ok: "seats_ok X E st evs boards"
  shows "hm_get boards p = Some (players, l) \<Longrightarrow> game_seats X E st evs p = Some players"
    "hm_get boards p = None \<Longrightarrow> block_turn evs p 0 = [] \<and> block_turn evs p 1 = []"
proof -
  show "hm_get boards p = Some (players, l) \<Longrightarrow> game_seats X E st evs p = Some players"
    "hm_get boards p = None \<Longrightarrow> block_turn evs p 0 = [] \<and> block_turn evs p 1 = []"
    using ok [unfolded seats_ok_def, rule_format, of p] by simp_all
qed

text \<open>Only the plot of an event gets new seats.\<close>

lemma seats_ok_step:
  assumes "seats_ok X E st evs boards" "\<And>q. q \<noteq> de_from (fst ge) \<Longrightarrow> hm_get boards' q = hm_get boards q"
    and "case hm_get boards' (de_from (fst ge)) of
       Some (players, _) \<Rightarrow> game_seats X E st (evs @ [ge]) (de_from (fst ge)) = Some players
     | None \<Rightarrow> block_turn (evs @ [ge]) (de_from (fst ge)) 0 = [] \<and> block_turn (evs @ [ge]) (de_from (fst ge)) 1 = []"
  shows "seats_ok X E st (evs @ [ge]) boards'"
  unfolding seats_ok_def
proof
  fix q
  show "case hm_get boards' q of
       Some (players, _) \<Rightarrow> game_seats X E st (evs @ [ge]) q = Some players
     | None \<Rightarrow> block_turn (evs @ [ge]) q 0 = [] \<and> block_turn (evs @ [ge]) q 1 = []"
  proof (cases "q = de_from (fst ge)")
    case False
    then have "block_turn (evs @ [ge]) q t = block_turn evs q t" for t by (simp add: slot_def)
    then have "game_seats X E st (evs @ [ge]) q = game_seats X E st evs q" by (intro game_seats_cong)
    then show ?thesis
      using assms(1) [unfolded seats_ok_def, rule_format, of q] assms(2) [OF False] False
      by (auto simp: slot_def split: option.splits)
  next
    case True
    show ?thesis unfolding True by (rule assms(3))
  qed
qed

lemma turns_start_seats:
  assumes "turns_start X st ge boards = Ok boards'" "seats_ok X E st evs boards" "de_tick (fst ge) = 0"
    and "block_turn evs (de_from (fst ge)) 1 = []"
  shows "seats_ok X E st (evs @ [ge]) boards'"
proof -
  obtain e u where ge: "ge = (e, u)" by (cases ge)
  obtain p1 p2 where s: "de_event e = Start p1 p2" "get_plot_events X st (de_from e) 0 = Ok []"
    "boards' = hm_insert (de_from e) ((p1, p2), de_tick e) boards"
    using assms(1) by (auto simp: ge turns_start_def result_simps split: checkers_event.splits)
  have "state_turn X E st (de_from e) t = []" for t by (rule state_turn_simps(1) [OF s(2)]) simp
  then have "game_seats X E st (evs @ [ge]) (de_from e) = Some (p1, p2)"
    using assms(3,4) by (simp add: ge game_seats_def slot_def s(1))
  then show ?thesis
    by (intro seats_ok_step [OF assms(2)]) (simp_all add: s(3) ge map_simps)
qed

lemma turns_join_seats:
  assumes "turns_join X E st ge boards = Ok boards'" "seats_ok X E st evs boards" "de_tick (fst ge) = 1"
  shows "seats_ok X E st (evs @ [ge]) boards'"
proof -
  obtain e u where ge: "ge = (e, u)" by (cases ge)
  let ?p = "de_from e"
  obtain a where j: "de_event e = Join a"
    using assms(1) by (auto simp: ge turns_join_def split: checkers_event.splits)
  define src where "src = (case hm_get boards ?p of
      Some (players, _) \<Rightarrow> Ok players
    | None \<Rightarrow> and_then (get_plot_events X st ?p 0)
        (\<lambda>events. let start_event = bt_get events 0 in
          and_then (assert_mut_valid (start_event \<noteq> None) ''Missing start'')
            (\<lambda>_. and_then (assert_mut_valid (bt_get events 1 = None) ''Game is already full'')
              (\<lambda>_. and_then (unwrap start_event) (players_of_start E)))))"
  obtain p1 p2 where src: "src = Ok (p1, p2)"
    and b: "boards' = hm_insert ?p (seat_join (Join a) (p1, p2), de_tick e) (hm_remove ?p boards)"
    using assms(1) unfolding ge turns_join_def prod.case j checkers_event.case src_def [symmetric]
    by (auto simp: result_simps Let_def seat_join_def split: if_splits)
  have players: "(\<exists>l. hm_get boards ?p = Some ((p1, p2), l)) \<or> hm_get boards ?p = None \<and>
      (\<exists>known l. get_plot_events X st ?p 0 = Ok known \<and> bt_get known 1 = None \<and> bt_get known 0 = Some l \<and>
        first_event E l = Ok (Start p1 p2))"
    using src unfolding src_def by (auto simp: result_simps Let_def players_of_start_Ok split: option.splits)
  have "game_seats X E st evs ?p = Some (p1, p2)"
    using players
  proof (elim disjE exE conjE)
    fix known l assume k: "get_plot_events X st ?p 0 = Ok known" "bt_get known 1 = None" "bt_get known 0 = Some l"
      "first_event E l = Ok (Start p1 p2)" "hm_get boards ?p = None"
    show ?thesis
      using seats_okD(2) [OF assms(2) k(5)]
      by (simp add: game_seats_def state_turn_simps(1) [OF k(1,2)] state_turn_simps(2) [OF k(1,3,4)])
  qed (rule seats_okD(1) [OF assms(2)])
  then have "game_seats X E st (evs @ [ge]) ?p = Some (seat_join (Join a) (p1, p2))"
    using assms(3) by (auto simp: ge game_seats_def slot_def j split: list.splits checkers_event.splits)
  then show ?thesis
    by (intro seats_ok_step [OF assms(2)]) (simp_all add: b ge map_simps split: prod.split)
qed

lemma turns_continue_seats:
  assumes "turns_continue X E st ge boards = Ok boards'" "seats_ok X E st evs boards"
    and "de_tick (fst ge) \<noteq> 0" "de_tick (fst ge) \<noteq> 1"
  shows "seats_ok X E st (evs @ [ge]) boards'"
proof -
  obtain e u where ge: "ge = (e, u)" by (cases ge)
  let ?p = "de_from e"
  have turns: "block_turn (evs @ [ge]) q 0 = block_turn evs q 0" "block_turn (evs @ [ge]) q 1 = block_turn evs q 1" for q
    using assms(3,4) by (simp_all add: slot_def)
  note same = game_seats_cong [OF turns] turns
  show ?thesis
  proof (cases "hm_get boards ?p")
    case (Some pl)
    obtain players l where pl: "pl = (players, l)" by (cases pl)
    have "boards' = hm_insert ?p (players, de_tick e) (hm_remove ?p boards)"
      using assms(1) Some by (auto simp: ge turns_continue_def result_simps pl)
    then show ?thesis
      using seats_okD(1) [OF assms(2) Some [unfolded pl]]
      by (intro seats_ok_step [OF assms(2)]) (simp_all add: ge same [unfolded ge] map_simps split: prod.split)
  next
    case None
    obtain known l p1 p2 where k: "get_plot_events X st ?p 0 = Ok known" "bt_get known 0 = Some l"
      "first_event E l = Ok (Start p1 p2)"
      and out: "(case bt_get known 1 of
          Some l \<Rightarrow> and_then (first_event E l)
            (\<lambda>ev. case ev of
               Join player \<Rightarrow>
                 if p1 = U160_ZERO then Ok (hm_insert ?p ((player, p2), de_tick e) boards)
                 else if p2 = U160_ZERO then Ok (hm_insert ?p ((p1, player), de_tick e) boards)
                 else Ok boards
             | _ \<Rightarrow> Panic)
        | None \<Rightarrow> Ok (hm_insert ?p ((p1, p2), de_tick e) boards)) = Ok boards'"
      using assms(1) None
      by (auto simp: ge turns_continue_def result_simps Let_def players_of_start_Ok)
    have none: "block_turn evs ?p 0 = []" "block_turn evs ?p 1 = []" using seats_okD(2) [OF assms(2) None] by simp_all
    have st0: "state_turn X E st ?p 0 = [Start p1 p2]" by (rule state_turn_simps(2) [OF k])
    have "boards' = boards \<or>
      (\<exists>players. boards' = hm_insert ?p (players, de_tick e) boards \<and> game_seats X E st evs ?p = Some players)"
    proof (cases "bt_get known 1")
      case None
      then have "state_turn X E st ?p 1 = []" by (rule state_turn_simps(1) [OF k(1)])
      then show ?thesis using out None by (simp add: game_seats_def none st0)
    next
      case (Some j)
      then obtain ev where ev: "first_event E j = Ok ev" using out by (auto simp: result_simps)
      have "state_turn X E st ?p 1 = [ev]" by (rule state_turn_simps(2) [OF k(1) Some ev])
      then show ?thesis using out Some ev
        by (cases ev) (auto simp: game_seats_def none st0 seat_join_def split: if_splits)
    qed
    then show ?thesis
    proof (elim disjE exE conjE)
      assume "boards' = boards"
      then show ?thesis
        by (intro seats_ok_step [OF assms(2)]) (simp_all add: ge same [unfolded ge] None none del: block_turn_snoc)
    next
      fix players assume "boards' = hm_insert ?p (players, de_tick e) boards" "game_seats X E st evs ?p = Some players"
      then show ?thesis
        by (intro seats_ok_step [OF assms(2)]) (simp_all add: ge same [unfolded ge] map_simps)
    qed
  qed
qed

lemma turns_step_seats:
  assumes "turns_step X E st ge boards = Ok boards'" "seats_ok X E st evs boards"
    and "\<And>ge'. ge' \<in> set evs \<Longrightarrow> slot ge' \<le> slot ge"
  shows "seats_ok X E st (evs @ [ge]) boards'"
proof -
  have run: "(if de_tick (fst ge) = 0 then turns_start X st ge boards
      else if de_tick (fst ge) = 1 then turns_join X E st ge boards
      else turns_continue X E st ge boards) = Ok boards'"
    using assms(1) by (auto simp: turns_step_def Let_def result_simps)
  have "block_turn evs (de_from (fst ge)) 1 = []" if "de_tick (fst ge) = 0"
    using assms(3) that by (force simp: block_turn_def filter_empty_conv slot_def less_eq_prod_def)
  then show ?thesis
    using run turns_start_seats [OF _ assms(2)] turns_join_seats [OF _ assms(2)]
      turns_continue_seats [OF _ assms(2)] by (auto split: if_splits)
qed

lemma turns_loop_seats:
  assumes "for_each (turns_step X E st) evs boards = Ok boards'" "seats_ok X E st pre boards"
    and "sorted (map slot (pre @ evs))"
  shows "seats_ok X E st (pre @ evs) boards'"
  using assms
proof (induction evs arbitrary: boards pre)
  case (Cons ge evs)
  obtain b1 where b1: "turns_step X E st ge boards = Ok b1" "for_each (turns_step X E st) evs b1 = Ok boards'"
    using Cons.prems(1) by (auto simp: result_simps)
  have "seats_ok X E st (pre @ [ge]) b1"
    by (rule turns_step_seats [OF b1(1) Cons.prems(2)]) (use Cons.prems(3) in \<open>auto simp: sorted_append\<close>)
  then show ?case using Cons.IH [OF b1(2), of "pre @ [ge]"] Cons.prems(3) by simp
qed simp

lemma get_events_sorted: "get_events E m = Ok evs \<Longrightarrow> sorted (map slot evs)"
proof -
  have "(\<lambda>(e, _). (de_from e, de_tick e)) = slot" by (auto simp: slot_def)
  then show "get_events E m = Ok evs \<Longrightarrow> sorted (map slot evs)"
    by (auto simp: get_events_def result_simps sorted_sort_key)
qed

text \<open>
  C39: when the rule on turns accepts the changes of a block, every game event in them is one of the
  first 500 turns of its plot and follows the turn before it, in the network state or in the block
  itself; a game starts only on a plot without events and by one of its players; and every event
  after the start is signed by the player whose turn it is: the seats that the start and the joins of
  the game give are both taken, the events of even ticks are signed by the player of the first seat
  and those of odd ticks by the player of the second seat (the comment on \<open>Turns\<close> has it the other way
  round).
\<close>

theorem turns_in_order:
  assumes "get_events E m = Ok evs" "turns_is_valid X E st m = Ok ()" "ge \<in> set evs"
  shows "turn_in_order X st (slot ` set evs) ge \<and>
    (de_tick (fst ge) \<noteq> 0 \<longrightarrow>
      (\<exists>p1 p2. game_seats X E st evs (de_from (fst ge)) = Some (p1, p2) \<and>
        p1 \<noteq> U160_ZERO \<and> p2 \<noteq> U160_ZERO \<and>
        snd ge = (if even (unat (de_tick (fst ge))) then p1 else p2)))"
proof -
  obtain boards where b: "for_each (turns_step X E st) evs [] = Ok boards"
    "for_each (\<lambda>ge _. turns_player boards ge) evs () = Ok ()"
    using assms(1,2) by (auto simp: turns_is_valid_def result_simps)
  have p: "turns_player boards ge = Ok ()"
    using b(2) assms(3) by (induction evs) (auto simp: result_simps)
  have seats: "seats_ok X E st evs boards"
    using turns_loop_seats [OF b(1), of "[]"] get_events_sorted [OF assms(1)] by (simp add: seats_ok_def)
  have even: "even (unat t) = (t mod 2 = 0)" for t :: u64
    using unat_mod [of t 2] by (simp add: even_iff_mod_2_eq_zero flip: unat_eq_0)
  have "\<exists>p1 p2. game_seats X E st evs (de_from (fst ge)) = Some (p1, p2) \<and> p1 \<noteq> U160_ZERO \<and> p2 \<noteq> U160_ZERO \<and>
      snd ge = (if even (unat (de_tick (fst ge))) then p1 else p2)"
    if t: "de_tick (fst ge) \<noteq> 0"
  proof -
    obtain p1 p2 l where "hm_get boards (de_from (fst ge)) = Some ((p1, p2), l)" "p1 \<noteq> U160_ZERO" "p2 \<noteq> U160_ZERO"
      "if de_tick (fst ge) mod 2 = 0 then snd ge = p1 else snd ge = p2"
      using p t by (cases ge; cases "de_tick (fst ge) mod 2 = 0") (auto simp: turns_player_def result_simps)
    then show ?thesis using seats_okD(1) [OF seats] by (auto simp only: even split: if_splits)
  qed
  moreover have "boards_ok X st {} []" by (simp add: boards_ok_def)
  ultimately show ?thesis using turns_loop_sound [OF b(1), of "{}"] assms(3) by auto
qed

section \<open>Single events\<close>

definition one_event :: "checkers_event codec \<Rightarrow> plot_id \<Rightarrow> u64 \<Rightarrow> checkers_event \<Rightarrow> u160 \<Rightarrow> signed_change list" where
  "one_event E p t ev u = [(PlotEventCh \<lparr>pe_from = p, pe_to = [], pe_tick = t, pe_event = ser E ev\<rparr>, u)]"

lemma codec_okD: "codec_ok E \<Longrightarrow> de E (ser E x) = Ok x"
  by (simp add: codec_ok_def)

lemma get_events_one:
  "codec_ok E \<Longrightarrow> get_events E (one_event E p t ev u) =
     Ok [(\<lparr>de_from = p, de_to = [], de_tick = t, de_event = ev\<rparr>, u)]"
  by (simp add: get_events_def one_event_def plot_events_rule_iter_def de_plot_event_deserialize_def codec_okD)

text \<open>
  joining a started game. When the second seat is open, the rule accepts a join exactly if it is
  signed by the player it names. When the first seat is open, it accepts a join only if it is signed
  by the player who already has the second seat, so nobody else can join such a game.
\<close>

theorem join_of_open_seat:
  assumes "codec_ok E" "a \<noteq> U160_ZERO" "b \<noteq> U160_ZERO"
  shows "(get_plot_events X st p 0 = Ok [(0, [ser E (Start a U160_ZERO)])] \<longrightarrow>
      turns_is_valid X E st (one_event E p 1 (Join b) u) =
        (if u = b then Ok () else Err (Logic (InvalidMutation ''Invalid player.'')))) \<and>
    (get_plot_events X st p 0 = Ok [(0, [ser E (Start U160_ZERO a)])] \<longrightarrow>
      turns_is_valid X E st (one_event E p 1 (Join b) u) =
        (if u = a then Ok () else Err (Logic (InvalidMutation ''Invalid player.''))))"
  using assms
  by (auto simp: turns_is_valid_def get_events_one turns_step_def turns_join_def turns_player_def
    assert_mut_valid_def players_of_start_def first_event_def codec_okD Let_def unwrap_def)

lemma latest_at_tick:
  assumes "cache_ok c" "history c p t = Some b"
  shows "latest_state c p (Some t) = (Ok (Some (t, b)) :: (_, 'e) result)"
proof -
  obtain r where r: "latest_state c p (Some t) = (Ok r :: (_, 'e) result)" "newest (history c p) (Some t) r"
    using latest_state_newest [OF assms(1), of p "Some t"] by blast
  from r(2) obtain s d where s: "r = Some (s, d)" "history c p s = Some d" "s \<le> t"
    "\<forall>t' > s. t' \<le> t \<longrightarrow> history c p t' = None"
    using assms(2) by (cases r) (auto simp: newest_def)
  then have "s = t" using assms(2) by (metis option.distinct(1) order.order_iff_strict order.refl)
  then have "r = Some (t, b)" using s assms(2) by simp
  then show ?thesis using r(1) by simp
qed

lemma from_turn_player:
  assumes "2 \<le> t"
  shows "from_turn t = Ok (if even (unat t) then Red else Black)"
proof -
  have "2 \<le> unat t" using assms by (simp add: word_le_nat_alt)
  then have "t \<noteq> 0" "t \<noteq> 1" by auto
  moreover have "even (unat t) = (t mod 2 = 0)"
    using unat_mod [of t 2] by (simp add: even_iff_mod_2_eq_zero flip: unat_eq_0)
  ultimately show ?thesis by (simp only: from_turn_def if_False simp_thms) simp
qed

text \<open>
  C40: when the cache of the rule of the game holds the board of the turn before, the rule accepts a
  move exactly if \<open>play\<close> accepts it for the player of that turn on that board (\<open>square_play\<close> is \<open>play\<close> on
  squares: the rules of checkers, and the empty jump), and the cache then holds the new board at the
  turn; otherwise the cache is left as it was.
\<close>

theorem game_rule_on_cached_board:
  assumes "codec_ok E" "cache_ok c" "2 \<le> t" "history c p (t - 1) = Some b"
  shows "game_is_valid X E st (one_event E p t ev u) c =
    (case square_play ev (if even (unat t) then Red else Black) b of
       Ok b' \<Rightarrow> (Ok (), cache_state t p b' c)
     | Err e \<Rightarrow> (Err (Logic (InvalidMutation (checkers_description e))), c)
     | _ \<Rightarrow> (Panic, c))"
proof -
  have l: "latest_state c p (Some (t - 1)) = Ok (Some (t - 1, b))" by (rule latest_at_tick [OF assms(2,4)])
  have "\<not> t < 2" using assms(3) by simp
  then show ?thesis
    using square_play_total [of ev "if even (unat t) then Red else Black" b] from_turn_player [OF assms(3)]
    by (auto simp: game_is_valid_def get_events_one [OF assms(1)] game_step_def read_st_def bind_st_def l
      unwrap_res_def play_square simp del: square_play.simps)
qed

text \<open>
  With an empty cache (a node that was just started) the rule of the game replays the events of
  a plot from turn three on, on the starting board, so the first move of the game is skipped: after
  the two legal moves 41 NE and 16 SE the legal third move 34 NE, with the piece that moved first,
  is refused because there is no piece.
\<close>

theorem game_rule_skips_first_move:
  assumes "codec_ok E" "get_plot_events X st p 3 = Ok [(3, [ser E (Move 16 SE)])]"
  shows "(\<exists>b b'. position_at 4 b \<and> play (Move 34 NE) Red b = (Ok (), b')) \<and>
    game_is_valid X E st (one_event E p 4 (Move 34 NE) u) game_state_cache_new =
      (Err (Logic (InvalidMutation ''Cannot move nothing...'')), game_state_cache_new)"
proof
  let ?b3 = "put_cell (put_cell board_default (5, 1) NoneT) (4, 2) RedT"
  let ?b4 = "put_cell (put_cell ?b3 (2, 0) NoneT) (3, 1) BlackT"
  have p2: "play (Move 41 NE) Red board_default = (Ok (), ?b3)" by code_simp
  have p3: "play (Move 16 SE) Black ?b3 = (Ok (), ?b4)" by code_simp
  have "position_at 3 ?b3" using position_at.turn [OF position_at.start _ p2] by (simp add: from_turn_def)
  from position_at.turn [OF this _ p3] have "position_at 4 ?b4" by (simp add: from_turn_def)
  moreover have "\<exists>b'. play (Move 34 NE) Red ?b4 = (Ok (), b')"
    by (simp add: play_square with_piece_def neighbour_def shift_def cell_def put_cell_def board_default_def Let_def)
  ultimately show "\<exists>b b'. position_at 4 b \<and> play (Move 34 NE) Red b = (Ok (), b')" by blast
  let ?c3 = "put_cell (put_cell board_default (2, 0) NoneT) (3, 1) BlackT"
  have q3: "play (Move 16 SE) Black board_default = (Ok (), ?c3)" by code_simp
  have q4: "play (Move 34 NE) Red ?c3 = (Err MissingPiece, ?c3)" by code_simp
  show "game_is_valid X E st (one_event E p 4 (Move 34 NE) u) game_state_cache_new =
      (Err (Logic (InvalidMutation ''Cannot move nothing...'')), game_state_cache_new)"
    using q4 by (simp add: game_is_valid_def get_events_one [OF assms(1)] game_step_def read_st_def bind_st_def
      latest_state_def game_state_cache_new_def assms(2) replay_step_def codec_okD [OF assms(1)] unwrap_res_def
      from_turn_def q3 del: One_nat_def)
qed

end
