(* ===== verification/Rules_Demo.thy ===== *)
theory Rules_Demo
  imports Event_Reads Chain_Demo Checkers_Rules Db_Compile Block_Package
begin

text \<open>
  Concrete states of the in-memory instance on which the theorems on the rules, the compiled diffs
  and the block packages are applied: a state over the empty database whose diff has the events of
  one plot or one generic value.
\<close>

subsection \<open>A codec for the events of the game\<close>

fun dir_byte :: "checkers_dir \<Rightarrow> u8" where
  "dir_byte NW = 0" | "dir_byte NE = 1" | "dir_byte SE = 2" | "dir_byte SW = 3"

definition byte_dir :: "u8 \<Rightarrow> checkers_dir" where
  "byte_dir b = (if b = 0 then NW else if b = 1 then NE else if b = 2 then SE else SW)"

fun event_fields :: "checkers_event \<Rightarrow> u8 \<times> u160 \<times> u160 \<times> u8 \<times> bin" where
  "event_fields (Start a b) = (0, a, b, 0, [])"
| "event_fields (Join a) = (1, a, U160_ZERO, 0, [])"
| "event_fields (Move i d) = (2, U160_ZERO, U160_ZERO, i, [dir_byte d])"
| "event_fields (Jump i ds) = (3, U160_ZERO, U160_ZERO, i, map dir_byte ds)"

definition event_of_fields :: "u8 \<times> u160 \<times> u160 \<times> u8 \<times> bin \<Rightarrow> checkers_event" where
  "event_of_fields = (\<lambda>(tag, a, b, i, ds).
     if tag = 0 then Start a b else if tag = 1 then Join a
     else if tag = 2 then Move i (case ds of d # _ \<Rightarrow> byte_dir d | [] \<Rightarrow> NW)
     else Jump i (map byte_dir ds))"

definition fmt_game_event :: "checkers_event fmt" where
  "fmt_game_event = fmt_iso event_fields event_of_fields
     (fmt_pair (fmt_word 1) (fmt_pair fmt_u160 (fmt_pair fmt_u160 (fmt_pair (fmt_word 1) fmt_bin))))"

lemma byte_dir_inverse [simp]: "byte_dir (dir_byte d) = d"
  by (cases d) (simp_all add: byte_dir_def)

lemma event_fields_inverse: "event_of_fields (event_fields ev) = ev"
  by (cases ev) (simp_all add: event_of_fields_def o_def)

interpretation f_game_event: format fmt_game_event
  unfolding fmt_game_event_def
  by (intro format_iso formats format_word) (simp_all add: event_fields_inverse)

definition game_codec :: "checkers_event codec" where
  "game_codec = codec_of fmt_game_event"

lemma game_codec_ok: "codec_ok game_codec"
  unfolding game_codec_def by (rule codec_of_ok [OF f_game_event.format_axioms])

subsection \<open>States with the events of one plot\<close>

definition with_events :: "plot_id \<Rightarrow> raw_events \<Rightarrow> mem_store dbase" where
  "with_events p evs = DBState demo_empty (db_diff_default\<lparr>new_events := [(p, evs)]\<rparr>) head_ref_default"

definition with_value :: "key \<Rightarrow> bin \<Rightarrow> mem_store dbase" where
  "with_value k v = DBState demo_empty (set_value db_diff_default k v) head_ref_default"

lemma diff_default_empty:
  "new_events db_diff_default = []" "del_events db_diff_default = []"
  "new_values db_diff_default = []" "del_values db_diff_default = []"
  "bounds db_diff_default = None" "filters db_diff_default = None"
  by (simp_all add: db_diff_default_def db_diff_new_def)

lemma demo_empty_events: "get_plot_events mem_ext demo_empty p t = Ok []"
  by (simp add: demo_empty_def plot_events_loop.simps returns_def get_raw_data_static_def mem_ext_def
    bt_split_off_def)

lemma with_events_get:
  "get_plot_events mem_ext (with_events p [(t, [b])]) q s = Ok (if p = q \<and> s \<le> t then [(t, [b])] else [])"
  by (simp add: with_events_def demo_empty_events get_removed_events_def get_new_events_def diff_default_empty
    ticks_from_def add_events_def add_event_def)

text \<open>A stored value is read through the state.\<close>

lemma with_value_get:
  "\<not> is_plot_key k \<Longrightarrow> db_get mem_ext (with_value k v) k' =
     (if is_plot_key k' then Panic else if k' = k then Ok v else Err (NotFound k'))"
  by (simp add: with_value_def set_value_def relevant_key_def diff_default_empty get_value_def
    is_value_deleted_def demo_empty_def get_raw_data_static_def mem_ext_def)

subsection \<open>Witnesses for the rules\<close>

definition alice :: u160 where "alice = U160 1 0 0 0 0"
definition bob :: u160 where "bob = U160 2 0 0 0 0"

lemma players_distinct [simp]:
  "alice \<noteq> U160_ZERO" "bob \<noteq> U160_ZERO" "alice \<noteq> bob" "bob \<noteq> alice"
  by (simp_all add: alice_def bob_def U160_ZERO_def)

theorem duplicates_ruled_out_witness:
  "duplicates_is_valid mem_ext (with_events (Coord 0 0) [(1, [[1]])])
     [(PlotEventCh \<lparr>pe_from = Coord 0 0, pe_to = [Coord 1 0], pe_tick = 1, pe_event = [2]\<rparr>, alice)] = Ok () \<and>
   distinct (all_touched
     [(PlotEventCh \<lparr>pe_from = Coord 0 0, pe_to = [Coord 1 0], pe_tick = 1, pe_event = [2]\<rparr>, alice)])"
proof -
  let ?m = "[(PlotEventCh \<lparr>pe_from = Coord 0 0, pe_to = [Coord 1 0], pe_tick = 1, pe_event = [2]\<rparr>, alice)]"
  let ?st = "with_events (Coord 0 0) [(1, [[1]])]"
  have d: "duplicates_is_valid mem_ext ?st ?m = Ok ()"
    by (simp add: duplicates_is_valid_def duplicated_within_txn_def duplicated_within_net_def with_events_get
      refuse_if_def Let_def)
  have "plot_event_is_valid ?m = Ok ()" "recipients_ok ?m"
    by (simp_all add: plot_event_valid_iff recipients_ok_def)
  from duplicates_ruled_out [OF this(1) d this(2)] d show ?thesis by blast
qed

theorem shares_cover_transfers_witness:
  "\<exists>stake. get_validator_stake mem_ext (with_value (Network (ValidatorStake alice)) (write_le 8 (9 :: u64))) alice = Ok stake \<and>
     total_sent alice [(Transfer alice [(bob, 4)], alice)] \<le> unat stake"
proof -
  let ?st = "with_value (Network (ValidatorStake alice)) (write_le 8 (9 :: u64))"
  have "shares_is_valid mem_ext ?st [(Transfer alice [(bob, 4)], alice)] = Ok ()"
    by (simp add: shares_is_valid_def get_validator_stake_def with_value_get add_shares_def checked_add_def refuse_if_def)
  then show ?thesis using shares_cover_transfers by fastforce
qed

theorem turns_in_order_witness:
  "\<exists>st m evs ge. get_events game_codec m = Ok evs \<and> turns_is_valid mem_ext game_codec st m = Ok () \<and>
     evs = [ge] \<and> de_tick (fst ge) = 2 \<and> game_seats mem_ext game_codec st evs (Coord 0 0) = Some (alice, bob) \<and>
     snd ge = alice \<and> 0 \<in> known_ticks mem_ext st (Coord 0 0)"
proof -
  let ?st = "with_events (Coord 0 0) [(0, [ser game_codec (Start alice bob)])]"
  let ?m = "one_event game_codec (Coord 0 0) 2 (Move 41 NE) alice"
  let ?ge = "(\<lparr>de_from = Coord 0 0, de_to = [], de_tick = 2, de_event = Move 41 NE\<rparr>, alice)"
  note ev = get_events_one [OF game_codec_ok, of "Coord 0 0" 2 "Move 41 NE" alice]
  have v: "turns_is_valid mem_ext game_codec ?st ?m = Ok ()"
    by (simp add: turns_is_valid_def ev turns_step_def turns_continue_def turns_player_def with_events_get
      assert_mut_valid_def players_of_start_def first_event_def codec_okD [OF game_codec_ok] Let_def unwrap_def)
  have seats: "game_seats mem_ext game_codec ?st [?ge] (Coord 0 0) = Some (alice, bob)"
    by (simp add: game_seats_def state_turn_def block_turn_def slot_def with_events_get codec_okD [OF game_codec_ok])
  from turns_in_order [OF ev v, of ?ge] have "0 \<in> known_ticks mem_ext ?st (Coord 0 0)" "snd ?ge = alice"
    by (auto simp: turn_in_order_def slot_def seats)
  with ev v seats show ?thesis by (intro exI [of _ ?st] exI [of _ ?m] exI [of _ "[?ge]"] exI [of _ ?ge]) simp
qed

theorem join_of_open_seat_witness:
  "turns_is_valid mem_ext game_codec (with_events (Coord 0 0) [(0, [ser game_codec (Start alice U160_ZERO)])])
     (one_event game_codec (Coord 0 0) 1 (Join bob) bob) = Ok () \<and>
   turns_is_valid mem_ext game_codec (with_events (Coord 0 0) [(0, [ser game_codec (Start U160_ZERO alice)])])
     (one_event game_codec (Coord 0 0) 1 (Join bob) bob) = Err (Logic (InvalidMutation ''Invalid player.''))"
  using join_of_open_seat [OF game_codec_ok players_distinct(1,2), of mem_ext _ "Coord 0 0"]
  by (simp add: with_events_get)

theorem game_rule_on_cached_board_witness:
  "\<exists>b. game_is_valid mem_ext game_codec demo_empty (one_event game_codec (Coord 0 0) 2 (Move 41 NE) alice)
     (cache_state 1 (Coord 0 0) board_default game_state_cache_new) =
   (Ok (), cache_state 2 (Coord 0 0) b (cache_state 1 (Coord 0 0) board_default game_state_cache_new))"
proof -
  let ?c = "cache_state 1 (Coord 0 0) board_default game_state_cache_new"
  have "history ?c (Coord 0 0) (2 - 1) = Some board_default"
    by (simp add: history_cache_state(1) [OF cache_ok_new])
  note r = game_rule_on_cached_board [OF game_codec_ok cache_state_ok [OF cache_ok_new] _ this,
      of mem_ext demo_empty "Move 41 NE" alice]
  have "\<exists>b. square_play (Move 41 NE) Red board_default = Ok b"
    by (simp add: with_piece_def neighbour_def shift_def cell_def put_cell_def board_default_def Let_def)
  then show ?thesis using r by auto
qed

theorem game_rule_skips_first_move_witness:
  "game_is_valid mem_ext game_codec (with_events (Coord 0 0) [(3, [ser game_codec (Move 16 SE)])])
     (one_event game_codec (Coord 0 0) 4 (Move 34 NE) alice) game_state_cache_new =
   (Err (Logic (InvalidMutation ''Cannot move nothing...'')), game_state_cache_new)"
  using game_rule_skips_first_move [OF game_codec_ok, of mem_ext "with_events (Coord 0 0) [(3, [ser game_codec (Move 16 SE)])]"
    "Coord 0 0" alice] by (simp add: with_events_get)

subsection \<open>Witnesses for compiled diffs and packages\<close>

text \<open>A state that moved the head and set a value is compiled and applied.\<close>

definition moved_diff :: db_diff where
  "moved_diff = set_value db_diff_default (Cache CurrentHead) (ser_head_ref \<lparr>href_block = demo_hash 1, href_height = 1\<rparr>)"

theorem compile_apply_reads_like_state_witness:
  "\<exists>wb s'. compile mem_ext demo_empty moved_diff = Ok wb \<and>
     db_apply mem_ext wb demo_empty = (Ok (), DatabaseImpl s' \<lparr>href_block = demo_hash 1, href_height = 1\<rparr>)"
proof -
  let ?hr = "\<lparr>href_block = demo_hash 1, href_height = 1\<rparr>"
  have d: "new_values moved_diff = [(Cache CurrentHead, ser_head_ref ?hr)]" "del_values moved_diff = []"
    "new_events moved_diff = []" "del_events moved_diff = []"
    by (simp_all add: moved_diff_def set_value_def relevant_key_def diff_default_empty)
  have c: "compile mem_ext demo_empty moved_diff = Ok (compile_values moved_diff)"
    by (simp add: compile_def changed_plots_def d)
  have "values_ok moved_diff"
    "overlay moved_diff (Cache CurrentHead) (map_of [] (as_bin (Cache CurrentHead))) = Some (ser_head_ref ?hr)"
    by (simp_all add: values_ok_def overlay_def get_value_def is_value_deleted_def d)
  from compile_apply_reads_like_state [OF mem.rocksdb_axioms this, of head_ref_default] c
  show ?thesis by (auto simp: demo_empty_def)
qed

text \<open>A store with two events of a plot at a late tick, in their bucket.\<close>

definition late_events :: "mem_store dbase" where
  "late_events = DatabaseImpl
     [(plot_key_bin (Coord 0 0) 0, ser (events_codec mem_ext) []),
      (plot_key_bin (Coord 0 0) 1500, ser (events_codec mem_ext) [(1500, [[8], [7]])])] head_ref_default"

lemma late_buckets:
  "get_plot_event_bucket mem_ext late_events (Coord 0 0) 0 = Ok (Some [])"
  "get_plot_event_bucket mem_ext late_events (Coord 0 0) 1500 = Ok (Some [(1500, [[8], [7]])])"
proof -
  have k: "plot_key_bin (Coord 0 0) 0 \<noteq> plot_key_bin (Coord 0 0) 1500" by code_simp
  have c: "de (events_codec mem_ext) (ser (events_codec mem_ext) x) = Ok x" for x
    by (simp add: mem_codecs_ok)
  have g: "rdb_get mem_ext s b = Ok (map_of s b)" for s b by (simp add: mem_ext_def)
  show "get_plot_event_bucket mem_ext late_events (Coord 0 0) 0 = Ok (Some [])"
    "get_plot_event_bucket mem_ext late_events (Coord 0 0) 1500 = Ok (Some [(1500, [[8], [7]])])"
    using k by (simp_all add: late_events_def get_raw_data_static_def g c plot_key_bin_def)
qed

theorem removal_wipes_bucket_witness:
  "get_plot_event_bucket mem_ext late_events (Coord 0 0) 1500 = Ok (Some [(1500, [[8], [7]])]) \<and>
   compile mem_ext late_events (diff_remove_event db_diff_default (Coord 0 0) 1500 [7]) =
     Ok [BatchPut (plot_key_bin (Coord 0 0) 1500) (ser (events_codec mem_ext) [])]"
  using removal_wipes_bucket [OF late_buckets(1), of 1500 "[7]"] late_buckets(2)
  by (simp add: PLOT_EVENT_BUCKET_SIZE_def)

text \<open>A state that has one block and its transaction.\<close>

definition demo_txn :: txn where
  "demo_txn = \<lparr>txn_timestamp = 5, creator = alice, txn_mutation = mutation_new, signature = []\<rparr>"

definition demo_full_header :: block_header where
  "demo_full_header = (demo_header 2 (demo_hash 1))\<lparr>merkle_root := demo_hash 3\<rparr>"

definition demo_full :: "mem_store dbase" where
  "demo_full = DBState demo_empty
     (set_value (set_value db_diff_default (Blockchain (TxnListE (demo_hash 3)))
        (ser (hash_list_codec mem_ext) [txn_calculate_hash mem_ext demo_txn]))
        (Blockchain (TxnE (txn_calculate_hash mem_ext demo_txn))) (ser (txn_codec mem_ext) demo_txn)) head_ref_default"

lemma demo_full_reads:
  "complete_block mem_ext demo_full demo_full_header =
     Ok \<lparr>header = demo_full_header, txns = [txn_calculate_hash mem_ext demo_txn]\<rparr>"
  "get_txn mem_ext demo_full h =
     (if h = txn_calculate_hash mem_ext demo_txn then Ok demo_txn else Err (NotFound (Blockchain (TxnE h))))"
proof -
  have c: "de (hash_list_codec mem_ext) (ser (hash_list_codec mem_ext) x) = Ok x"
    "de (txn_codec mem_ext) (ser (txn_codec mem_ext) y) = Ok y" for x y
    by (simp_all add: mem_codecs_ok)
  have g: "rdb_get mem_ext [] b = Ok None" for b by (simp add: mem_ext_def)
  show "complete_block mem_ext demo_full demo_full_header =
     Ok \<lparr>header = demo_full_header, txns = [txn_calculate_hash mem_ext demo_txn]\<rparr>"
    "get_txn mem_ext demo_full h =
     (if h = txn_calculate_hash mem_ext demo_txn then Ok demo_txn else Err (NotFound (Blockchain (TxnE h))))"
    by (simp_all add: demo_full_def demo_full_header_def complete_block_def get_txn_def set_value_def
      relevant_key_def diff_default_empty get_value_def is_value_deleted_def c demo_empty_def
      get_raw_data_static_def g)
qed

lemma length_emit_u256: "length (emit fmt_u256 x) = 32"
  by (cases x) (simp add: fmt_u256_def fmt_iso_def fmt_pair_def fmt_word_def)

lemma demo_full_header_bytes: "length (ser (header_codec mem_ext) demo_full_header) = 107"
  by (simp add: demo_full_header_def demo_header_def mem_ext_def codec_of_def fmt_header_def fmt_iso_def
    fmt_pair_def fmt_word_def length_emit_u256 fmt_bin_def fmt_list_def fmt_u64_def)

lemma demo_full_fits:
  "packed_size mem_ext demo_full
     [\<lparr>header = demo_full_header, txns = [txn_calculate_hash mem_ext demo_txn]\<rparr>] \<le> 10000"
proof -
  have "txn_calculate_size demo_txn = 38"
    by (simp add: txn_calculate_size_def mutation_calculate_size_def demo_txn_def mutation_new_def)
  then show ?thesis
    by (simp add: packed_size_def block_bytes_def txn_bytes_def demo_full_reads demo_full_header_bytes)
qed

theorem package_round_trip_witness:
  "\<exists>pkg. package mem_ext demo_full [demo_full_header] 10000 = Ok pkg \<and>
     fst (package_unpack mem_ext pkg) =
       [\<lparr>header = demo_full_header, txns = [txn_calculate_hash mem_ext demo_txn]\<rparr>]"
proof -
  have t: "\<forall>h t. get_txn mem_ext demo_full h = Ok t \<longrightarrow> txn_calculate_hash mem_ext t = h"
    by (simp add: demo_full_reads)
  have "\<exists>pkg. package mem_ext demo_full [demo_full_header] 10000 = Ok pkg"
    by (auto simp: package_def demo_full_reads index_txn_def pack_txn_def Let_def unwrap_def)
  then obtain pkg where p: "package mem_ext demo_full [demo_full_header] 10000 = Ok pkg" by blast
  let ?bs = "[\<lparr>header = demo_full_header, txns = [txn_calculate_hash mem_ext demo_txn]\<rparr>]"
  from package_round_trip [OF p t] obtain k where
    k: "k \<le> 1" "k = 1 \<or> 10000 < packed_size mem_ext demo_full (take (Suc k) ?bs)"
      "fst (package_unpack mem_ext pkg) = take k ?bs"
    by (auto simp: demo_full_reads)
  then have "k = 1" using demo_full_fits by (cases k) auto
  then show ?thesis using p k(3) by auto
qed

section \<open>Events read through a state\<close>

text \<open>
  An event added to a state over the empty store is read back and gone after its removal; the
  addition after a removal that had nothing to remove is lost.
\<close>

theorem state_event_reads_witness:
  "\<exists>d1 R1 d2 R2 d3 R3.
     db_add_event mem_ext (Coord 0 0) 5 [1] (DBState demo_empty db_diff_default head_ref_default) =
       (Ok (), DBState demo_empty d1 head_ref_default) \<and>
     get_plot_events mem_ext (DBState demo_empty d1 head_ref_default) (Coord 0 0) 0 = Ok R1 \<and>
     event_set R1 = {(5, [1])} \<and>
     db_remove_event mem_ext (Coord 0 0) 5 [1] (DBState demo_empty db_diff_default head_ref_default) =
       (Ok (), DBState demo_empty d2 head_ref_default) \<and>
     get_plot_events mem_ext (DBState demo_empty d2 head_ref_default) (Coord 0 0) 0 = Ok R2 \<and>
     event_set R2 = {} \<and>
     db_add_event mem_ext (Coord 0 0) 5 [1] (DBState demo_empty d2 head_ref_default) =
       (Ok (), DBState demo_empty d3 head_ref_default) \<and>
     get_plot_events mem_ext (DBState demo_empty d3 head_ref_default) (Coord 0 0) 0 = Ok R3 \<and>
     event_set R3 = {}"
proof -
  let ?s = "\<lambda>d. DBState demo_empty d head_ref_default" and ?d = "db_diff_default"
  have b: "map_not_found (get_plot_events mem_ext demo_empty (Coord 0 0) 0) [] = Ok []"
    by (simp add: demo_empty_events)
  have d: "diff_events_ok ?d" "relevant_plot ?d (Coord 0 0)" "\<not> is_event_removed ?d (Coord 0 0) 5 [1]"
    by (simp_all add: db_diff_default_def) code_simp+
  have e: "get_plot_events mem_ext (?s ?d) (Coord 0 0) 0 = Ok []"
    by (simp add: demo_empty_events get_removed_events_def get_new_events_def diff_default_empty)
  have new: "(p, t, x) \<notin> plots_set (new_events ?d)" for p t x by (simp add: diff_default_empty)
  obtain d1 R1 d2 R2 where 1:
    "db_add_event mem_ext (Coord 0 0) 5 [1] (?s ?d) = (Ok (), ?s d1)"
    "get_plot_events mem_ext (?s d1) (Coord 0 0) 0 = Ok R1" "event_set R1 = {(5, [1])}"
    "db_remove_event mem_ext (Coord 0 0) 5 [1] (?s ?d) = (Ok (), ?s d2)" "diff_events_ok d2"
    "get_plot_events mem_ext (?s d2) (Coord 0 0) 0 = Ok R2" "event_set R2 = {}"
    using state_event_reads [OF d(1) b events_ok_empty(1), of head_ref_default "Coord 0 0" 5 "[1]"]
    unfolding e by (simp add: d(2,3) new) blast
  have "d2 = diff_remove_event ?d (Coord 0 0) 5 [1]" using 1(4) by simp
  then have d2: "relevant_plot d2 (Coord 0 0)" "is_event_removed d2 (Coord 0 0) 5 [1]"
    by (simp_all only:) (code_simp+)
  obtain d3 R3 where "db_add_event mem_ext (Coord 0 0) 5 [1] (?s d2) = (Ok (), ?s d3)"
    "get_plot_events mem_ext (?s d3) (Coord 0 0) 0 = Ok R3" "event_set R3 = {}"
    using state_event_reads [OF 1(5) b events_ok_empty(1), of head_ref_default "Coord 0 0" 5 "[1]"] d2 1(6,7)
    by (auto split: if_splits)
  with 1 show ?thesis by blast
qed

end
