(* ===== verification/Keeper_Demo.thy ===== *)
theory Keeper_Demo
  imports Liveness Rules_Demo
begin

text \<open>
  A record keeper of the in-memory instance with the rules of checkers: it is opened on an empty store
  with the genesis block of the demo chain, and then given a block, a transaction and a package. It
  applies the theorems on the record keeper to concrete inputs.
\<close>

lemma open_runs:
  assumes x: "rocksdb X content" "codecs_ok X" and empty: "content s = Map.empty"
    and nz: "block_calculate_hash X blk \<noteq> U256_ZERO" and blk: "txns blk = []" "prev (header blk) = U256_ZERO"
  shows "\<exists>rk. rk_open X s rules g (blk, []) = Ok rk"
proof -
  let ?db = "DatabaseImpl s head_ref_default" and ?b = "block_calculate_hash X blk"
  let ?st = "db_state_new ?db"
  have g: "rdb_get X s k = Ok None" for k using rocksdb.store_get [OF x(1)] empty by simp
  have db: "database_impl_new X s = ?db" by (simp add: database_impl_new_def get_raw_data_static_def g)
  have em: "rdb_is_empty X s" using rocksdb.store_is_empty [OF x(1)] empty by simp
  have bare: "bare X content ?st" using x by (auto simp: bare_def store_ok_def empty)
  have ok: "store_ok X content ?st" using bare by (simp add: bare_def)
  obtain st1 where a: "add_block X blk ?st = (Ok True, st1)"
    using store.add_block_total [OF ok bare_reads(6) [OF bare] disjI1 [OF blk(1)] bare_reads(1) [OF bare]]
      bare_reads(5) [OF bare] by (auto simp: blk(2))
  note ga = genesis_added [OF bare a nz]
  have gb: "get_block X st1 ?b = Ok blk" by (rule store.get_block_added [OF ok a])
  let ?r = "\<lparr>href_block = ?b, href_height = 1\<rparr>"
  have "store_ok X content (set_head ?r st1)" using ga(1) by (simp add: store.head_val)
  then obtain st2 where p: "db_put X (Cache CurrentHead) (ser_head_ref ?r) (set_head ?r st1) = (Ok (), st2)"
    using store.put_val [of X content "set_head ?r st1" "Cache CurrentHead" "ser_head_ref ?r"] by auto
  have w: "walk_to_head X st1 = (Ok (0, - 1), st2)"
    using ga(3,6) gb p blk(1)
    by (simp add: walk_to_head_def bind_st_def read_st_def get_current_block_hash_def head_ref_default_def
      u256_is_zero_def get_mutation_def db_mutate_def assert_not_contra_def mutation_new_def
      update_current_block_def Let_def)
  have "quiet st1" using preservesD [OF quiet_add_block quiet_new a] .
  then have "quiet st2" using quiet_put [of X "Cache CurrentHead" "ser_head_ref ?r"] p
    unfolding preserves_def by (metis quiet_head snd_conv)
  then obtain wb where c: "compile_state X st2 = Ok wb" using quiet_compiles by blast
  note gw = genesis_walk [OF ga(1-3) ga(4) ga(5,6,7) nz w ga(8)]
  have "over ?db st2"
    using preservesD [OF over_add(2) over_new a] preservesD [OF over_walk(4) _ w] by blast
  then obtain s' where "db_apply X wb ?db = (Ok (), DatabaseImpl s' (db_head st2))"
    using apply_tip [OF _ _ c] gw by blast
  then show ?thesis
    using a w c by (simp add: rk_open_def build_genesis_def record_keeper_new_def db em on_db_def Let_def
      bind_st_def read_st_def del: db_apply.simps)
qed

lemma build_rules_accept_nothing: "accepts_nothing (build_rules X E)"
  by (auto simp: accepts_nothing_def build_rules_def valid_event_is_valid_def plot_events_rule_iter_def
    turns_is_valid_def game_is_valid_def get_events_def bind_st_def read_st_def)

subsection \<open>The demo keeper\<close>

definition demo_keeper :: "(mem_store, board game_state_cache) record_keeper" where
  "demo_keeper =
     (case rk_open mem_ext [] (build_rules mem_ext game_codec) game_state_cache_new (demo_block 1 U256_ZERO, []) of
        Ok rk \<Rightarrow> rk | _ \<Rightarrow> record_keeper_new demo_empty [] game_state_cache_new)"

lemma demo_block_fields:
  "txns (demo_block v p) = []" "prev (header (demo_block v p)) = p" "merkle_root (header (demo_block v p)) = U256_ZERO"
  "timestamp (header (demo_block v p)) = 0" "shard (header (demo_block v p)) = U256_ZERO"
  by (simp_all add: demo_block_def demo_header_def)

lemma demo_keeper_open:
  "rk_open mem_ext [] (build_rules mem_ext game_codec) game_state_cache_new (demo_block 1 U256_ZERO, []) = Ok demo_keeper"
proof -
  obtain rk where "rk_open mem_ext [] (build_rules mem_ext game_codec) game_state_cache_new (demo_block 1 U256_ZERO, []) = Ok rk"
    using open_runs [OF mem.rocksdb_axioms mem_codecs_ok, of "[]" "demo_block 1 U256_ZERO"
        "build_rules mem_ext game_codec" game_state_cache_new]
    by (auto simp: demo_hash demo_block_fields)
  then show ?thesis by (simp add: demo_keeper_def)
qed

lemmas demo_keeper_opened = open_empty [OF mem.rocksdb_axioms mem_codecs_ok _ _ demo_keeper_open, simplified demo_hash, simplified]

lemma demo_keeper_facts:
  "keeper_ok mem_ext map_of demo_keeper" "known_block mem_ext (rk_db demo_keeper) b \<longleftrightarrow> b = demo_hash 1"
  "get_current_block_hash (rk_db demo_keeper) = demo_hash 1" "pending_txns demo_keeper = []"
  "get_block_header mem_ext (rk_db demo_keeper) (demo_hash 1) = Ok (demo_header 1 U256_ZERO)"
  "rk_rules demo_keeper = build_rules mem_ext game_codec"
  using demo_keeper_opened
  by (auto simp: get_block_def complete_block_def result_simps demo_block_def)

lemma demo_keeper_room: "room_for mem_ext (rk_db demo_keeper) 1"
proof -
  have inv: "chain_inv mem_ext (rk_db demo_keeper)" using demo_keeper_facts(1) by (simp add: keeper_ok_def tip_ok_def)
  have "block_ht mem_ext (rk_db demo_keeper) (demo_hash 1) = 1"
    using chain_inv_header(2) [OF inv demo_keeper_facts(5)] by (auto simp: block_ht_def demo_header_def)
  then show ?thesis by (simp add: room_for_def demo_keeper_facts)
qed

lemma demo_unknown_header:
  assumes "x \<noteq> demo_hash 1"
  shows "\<exists>e. get_block_header mem_ext (rk_db demo_keeper) x = Err e"
proof -
  obtain s h where db: "rk_db demo_keeper = DatabaseImpl s h" using demo_keeper_facts(1) by (auto simp: keeper_ok_def)
  have "\<not> is_ok (get_block_header mem_ext (rk_db demo_keeper) x)"
    using assms demo_keeper_facts(2) by (simp add: known_block_def)
  then show ?thesis
    by (auto simp: db get_block_header_def get_raw_data_static_def mem_ext_def codec_of_def split: option.splits)
qed

subsection \<open>Witnesses\<close>

text \<open>The second demo block is accepted and becomes the head.\<close>

lemma demo_block_accepted:
  "\<exists>rk'. rk_add_block mem_ext 5 (demo_block 2 (demo_hash 1)) True demo_keeper = (Ok True, rk') \<and>
    get_current_block_hash (rk_db rk') = demo_hash 2"
proof -
  have "calculate_merkle_root mem_ext [] = U256_ZERO" by (simp add: calculate_merkle_root_def merkle_loop.simps)
  then have nb: "next_block mem_ext 5 (rk_db demo_keeper) (demo_block 2 (demo_hash 1))"
    by (simp add: next_block_def demo_block_fields demo_keeper_facts time_less_def demo_header_def)
  obtain e where "get_block_header mem_ext (rk_db demo_keeper) (demo_hash 2) = Err e"
    using demo_unknown_header [of "demo_hash 2"] by auto
  from next_block_accepted [OF demo_keeper_facts(1) nb _ _ demo_keeper_room] this show ?thesis
    by (auto simp: demo_hash demo_keeper_facts build_rules_accept_nothing)
qed

theorem rk_add_block_outcome_witness:
  "\<exists>rk'. rk_add_block mem_ext 5 (demo_block 2 (demo_hash 1)) True demo_keeper = (Ok True, rk') \<and>
     keeper_ok mem_ext map_of rk' \<and> get_block mem_ext (rk_db rk') (demo_hash 2) = Ok (demo_block 2 (demo_hash 1))"
proof -
  obtain rk' where r: "rk_add_block mem_ext 5 (demo_block 2 (demo_hash 1)) True demo_keeper = (Ok True, rk')"
    using demo_block_accepted by blast
  from rk_add_block_outcome [OF demo_keeper_facts(1) _ demo_keeper_room r] show ?thesis
    using r by (simp add: demo_hash)
qed

theorem rk_add_pending_txn_outcome_witness:
  "\<exists>r rk'. rk_add_pending_txn mem_ext 5 demo_txn True demo_keeper = (r, rk') \<and> keeper_ok mem_ext map_of rk' \<and>
     rk_db rk' = rk_db demo_keeper"
proof -
  obtain r rk' where r: "rk_add_pending_txn mem_ext 5 demo_txn True demo_keeper = (r, rk')" by fastforce
  from rk_add_pending_txn_outcome [OF demo_keeper_facts(1) r] r show ?thesis by blast
qed

text \<open>A package with the second demo block.\<close>

definition demo_package :: block_package where
  "demo_package = \<lparr>pkg_blocks = [(demo_header 2 (demo_hash 1), [])], pkg_txns = []\<rparr>"

theorem rk_import_pkg_outcome_witness:
  "\<exists>r rk'. rk_import_pkg mem_ext 5 demo_package demo_keeper = (r, rk') \<and> keeper_ok mem_ext map_of rk'"
proof -
  have u: "fst (package_unpack mem_ext demo_package) = [demo_block 2 (demo_hash 1)]"
    by (simp add: package_unpack_def demo_package_def demo_block_def Let_def List.map_filter_simps)
  obtain r rk' where r: "rk_import_pkg mem_ext 5 demo_package demo_keeper = (r, rk')" by fastforce
  from rk_import_pkg_outcome [OF demo_keeper_facts(1) r] r demo_keeper_room show ?thesis
    by (simp add: u demo_hash)
qed

theorem rk_open_outcome_witness:
  "\<exists>rk. rk_open mem_ext [] (build_rules mem_ext game_codec) game_state_cache_new (demo_block 1 U256_ZERO, []) = Ok rk \<and>
     keeper_ok mem_ext map_of rk"
  using rk_open_outcome [OF mem.rocksdb_axioms mem_codecs_ok _ demo_keeper_open] demo_keeper_open
  by (auto simp: demo_hash)

theorem reached_keepers_follow_longest_chain_witness:
  "\<exists>rk'. reaches mem_ext demo_keeper rk' \<and> get_current_block_hash (rk_db rk') = demo_hash 2 \<and> marks_ok mem_ext (rk_db rk')"
proof -
  obtain rk' where r: "rk_add_block mem_ext 5 (demo_block 2 (demo_hash 1)) True demo_keeper = (Ok True, rk')"
    "get_current_block_hash (rk_db rk') = demo_hash 2" using demo_block_accepted by blast
  have s: "reaches mem_ext demo_keeper rk'"
    by (rule reaches.block [OF reaches.start _ demo_keeper_room r(1)]) (simp add: demo_hash)
  from reached_keepers_follow_longest_chain [OF mem.rocksdb_axioms mem_codecs_ok _ _ demo_keeper_open this] s r(2)
  show ?thesis by (auto simp: demo_hash)
qed

theorem created_block_becomes_head_witness:
  "\<exists>blk rk'. rk_create_block mem_ext 5 demo_keeper = Ok blk \<and> rk_add_block mem_ext 9 blk True demo_keeper = (Ok True, rk') \<and>
     get_current_block_hash (rk_db rk') = block_calculate_hash mem_ext blk"
proof -
  let ?blk = "\<lparr>header = \<lparr>version = 1, timestamp = 5, shard = demo_hash 1, prev = demo_hash 1,
      merkle_root = U256_ZERO, blob = []\<rparr>, txns = []\<rparr>"
  have c: "get_current_block_header mem_ext (rk_db demo_keeper) = Ok (demo_header 1 U256_ZERO)"
    by (simp add: get_current_block_header_def demo_keeper_facts)
  have hh: "header_calculate_hash mem_ext (demo_header 1 U256_ZERO) = demo_hash 1"
    using demo_hash [of 1 U256_ZERO] by (simp add: block_calculate_hash_def demo_block_def)
  have m: "calculate_merkle_root mem_ext [] = U256_ZERO" by (simp add: calculate_merkle_root_def merkle_loop.simps)
  have b: "rk_create_block mem_ext 5 demo_keeper = Ok ?blk"
    using hh by (simp add: rk_create_block_def c m demo_keeper_facts Let_def u256_is_zero_def) (simp add: demo_header_def)
  have h: "block_calculate_hash mem_ext ?blk \<noteq> demo_hash 1 \<and> block_calculate_hash mem_ext ?blk \<noteq> U256_ZERO"
    unfolding demo_hash_values by code_simp
  obtain e where "get_block_header mem_ext (rk_db demo_keeper) (block_calculate_hash mem_ext ?blk) = Err e"
    using demo_unknown_header h by blast
  from created_block_becomes_head [OF demo_keeper_facts(1,4) b c _ _ _ demo_keeper_room _ this, of 9 True] h b
  show ?thesis by (auto simp: time_less_def demo_header_def demo_keeper_facts build_rules_accept_nothing)
qed

end
