(* ===== verification/Net_Demo.thy ===== *)
theory Net_Demo
  imports Net_Peers Keeper_Demo
begin

text \<open>
  A node of the in-memory instance: the thread is started, attaches a network and accepts a peer.
  The theorems on the network thread are applied to it.
\<close>

section \<open>The node\<close>

definition ping_codec :: "packet codec" where
  "ping_codec = \<lparr>ser = (\<lambda>p. write_le 4 (seq p)), de = (\<lambda>b. Ok (packet_new (read_le b) (Ping 0)))\<rparr>"

fun demo_message :: "message \<Rightarrow> bin" where
  "demo_message (Introduce h nd p) = key nd @ [p]"
| "demo_message _ = []"

definition demo_net :: "mem_store net_ext" where
  "demo_net = \<lparr>core_ext = mem_ext, message_codec = \<lparr>ser = demo_message, de = (\<lambda>_. Ok (Ping 0))\<rparr>,
     packet_codec = ping_codec, raw_packet_codec = \<lparr>ser = (\<lambda>p. []), de = (\<lambda>_. Err [])\<rparr>,
     public_key_to_der = (\<lambda>k. Some [1]), udp_accepts = (\<lambda>_ _. True), tcp_accepts = (\<lambda>_ _. True),
     receiver_answer = (\<lambda>_ _ _. Some False)\<rparr>"

definition demo_pkg_ext :: pkg_ext where
  "demo_pkg_ext = \<lparr>pkg_codec = \<lparr>ser = (\<lambda>_. []), de = (\<lambda>_. Err [])\<rparr>, compress = Ok, decompress = Ok\<rparr>"

definition demo_config :: client_config where
  "demo_config = (config_from_key (PKey []))\<lparr>seed_nodes := []\<rparr>"

definition demo_network :: network where
  "demo_network = \<lparr>ctx =
     \<lparr>config = demo_config,
      my_node = \<lparr>endpoint = \<lparr>protocol = Udp, host = [], port = DEFAULT_PORT\<rparr>, key = [1],
                 node_version = PROTOCOL_VERSION, node_name = ''demo''\<rparr>,
      udp_out = Some [], active_syncs = 0, tasks = [], received_broadcasts = [],
      broadcast_receivers = replicate 256 False, next_rc = 0\<rparr>,
     shards = replicate 255 None, curr_port = 0, num_shards = 0\<rparr>"

lemma demo_network_starts: "client_run demo_net ''demo'' (demo_config) = Ok demo_network"
  by (simp add: client_run_def network_new_def context_new_def demo_net_def demo_network_def demo_config_def config_from_key_def)

definition demo_env :: env where
  "demo_env = \<lparr>env_now = 0, env_local = 0, env_clock = (\<lambda>_ _. (0, 0, 0)), env_sample = (\<lambda>_. hd), env_shuffle = (\<lambda>_ _ xs. xs),
     env_resolve = (\<lambda>h. Ok (V4 (of_nat (length h)))), env_created = Ok (), env_file = Ok (Some []), env_tcp_up = False,
     env_head = demo_hash 1, env_udp = (\<lambda>_ _. True), env_receive = (\<lambda>_ _ _. Some False)\<rparr>"

lemma demo_env_good: "good_env demo_env"
  by (auto simp: good_env_def demo_env_def samples_def reorders_def answers_def)

lemma demo_at_event [simp]: "at_event demo_net demo_env = demo_net"
  by (simp add: at_event_def demo_net_def demo_env_def)

lemma demo_run: "run_event demo_net demo_env ev = handle_event demo_net demo_env ev"
  by (simp add: run_event_def)

lemma demo_packets: "\<not> bad_packet demo_net p"
  by (auto simp: bad_packet_def check_sig_def verify_obj_def verify_bytes_def demo_net_def mem_ext_def)

lemma demo_goes_on: "may_stop demo_net demo_env net ev \<longleftrightarrow> fatal net ev"
  by (auto simp: may_stop_def demo_packets) (auto simp: demo_env_def)

definition demo_peer :: node where
  "demo_peer = \<lparr>endpoint = \<lparr>protocol = Udp, host = ''peer'', port = 7\<rparr>, key = [2], node_version = 1, node_name = ''peer''\<rparr>"

definition demo_hello :: packet where
  "demo_hello = \<lparr>seq = 0, msg = Introduce (demo_hash 1) demo_peer 3, sig = [2, 3]\<rparr>"

section \<open>A peer joins\<close>

definition demo_repo :: node_repository where
  "demo_repo = \<lparr>available_nodes = [], sorted_nodes = [], repo_changes = 0\<rparr>"

text \<open>The network with a shard at port 0 and nothing else.\<close>

definition demo_with :: "shard_info \<Rightarrow> net_context \<Rightarrow> network" where
  "demo_with sh c = demo_network\<lparr>ctx := c, shards := Some sh # replicate 254 None, curr_port := 1\<rparr>"

lemma many_places: "replicate 255 x = x # replicate 254 x"
  using replicate_Suc [of 254 x] by simp

lemma demo_attach:
  "run_event demo_net demo_env (AttachCmd (demo_hash 1) Primary) demo_network =
     (Ok (), demo_with (shard_new (demo_hash 1) 0 Primary demo_repo) (ctx demo_network))"
proof -
  have f: "free_port (None # replicate 254 None) 0 = Some (Ok (0, 1))" by (subst free_port.simps) simp
  have r: "load_node_repo demo_net (env_file demo_env) (ctx demo_network) = Ok demo_repo"
    by (simp add: load_node_repo_def demo_env_def demo_network_def repo_load_def demo_config_def repo_new_def
      repo_build_def demo_repo_def)
  have "shards demo_network = None # replicate 254 None" "curr_port demo_network = 0" "num_shards demo_network = 0"
    by (simp_all add: demo_network_def many_places)
  then show ?thesis
    by (simp add: demo_run handle_event_def attach_network_def r f bind_st_def read_st_def demo_with_def repo_len_def demo_repo_def
     )
qed

lemma demo_port: "sh_network_id sh = demo_hash 1 \<Longrightarrow> resolve_port (demo_with sh c) (demo_hash 1) = 0"
  by (simp add: resolve_port_def demo_with_def)

lemma demo_shard: "get_shard (demo_with sh c) 0 = Ok (Some sh)"
  by (simp add: get_shard_def demo_with_def)

lemma demo_at_port: "at_port 0 m (demo_with sh c) = (case m (sh, c) of (r, (sh', c')) \<Rightarrow> (r, demo_with sh' c'))"
  by (simp add: at_port_def demo_shard) (simp add: demo_with_def split: prod.split)

abbreviation demo_addr :: sock_addr where
  "demo_addr \<equiv> (V4 4, 7)"

abbreviation demo_shard0 :: shard_info where
  "demo_shard0 \<equiv> shard_new (demo_hash 1) 0 Primary demo_repo"

definition demo_open :: task where
  "demo_open = OpenTask (Ok \<lparr>con_peer = demo_peer, con_stream = None, con_introduce = False,
     con_network = demo_hash 1, con_port = 0\<rparr>) (AfterUdp demo_hello (demo_hash 1))"

lemma demo_knock:
  "run_event demo_net demo_env (Datagram (demo_addr, \<lparr>raw_port = 255, payload = demo_hello\<rparr>)) (demo_with demo_shard0 c) =
     (Ok (), demo_with demo_shard0 (spawn demo_open c))"
  by (simp add: demo_run handle_event_def udp_process_packet_def demo_hello_def bind_st_def read_st_def get_shard_by_id_def demo_port
    shard_new_def demo_shard Let_def net_spawn_def net_context_action_def demo_open_def open_session_def)
    (simp add: demo_with_def)

text \<open>The session before and after its peer has introduced itself.\<close>

definition demo_session :: "u8 \<Rightarrow> u32 \<Rightarrow> nat \<Rightarrow> session" where
  "demo_session p n rc = \<lparr>sess_done = None, sess_network_id = demo_hash 1, remote_peer = demo_peer, remote_port = p,
     local_port = 0, remote_addr = demo_addr, sink = None, established_since = 0, latency = from_milliseconds 0,
     last_ping_send = None, current_job = None, current_seq = n, strikes = 0, abuses = 0, sess_rc = rc\<rparr>"

definition demo_filed :: "session \<Rightarrow> shard_info" where
  "demo_filed s = demo_shard0\<lparr>sessions := [(demo_addr, s)], peer_ids := [get_hash_id mem_ext demo_peer]\<rparr>"

lemma demo_core [simp]: "core_ext demo_net = mem_ext"
  by (simp add: demo_net_def)

lemma demo_connect:
  "connect demo_net 0 \<lparr>con_peer = demo_peer, con_stream = None, con_introduce = False, con_network = demo_hash 1, con_port = 0\<rparr>
      demo_addr (demo_with demo_shard0 c) =
    (Ok (), demo_with (demo_filed (demo_session 255 0 (next_rc c))) (c\<lparr>next_rc := next_rc c + 1\<rparr>))"
proof -
  have w: "(demo_with sh c)\<lparr>ctx := c'\<rparr> = demo_with sh c'" "ctx (demo_with sh c) = c" for sh c c' by (simp_all add: demo_with_def)
  have p: "resolve_port (demo_with demo_shard0 c) (demo_hash 1) = 0" for c by (rule demo_port) (simp add: shard_new_def)
  show ?thesis
    by (simp add: connect_def demo_peer_def new_session_def session_new_def bind_st_def w p Let_def demo_at_port
      file_session_def on_shard_def insert_session_def)
      (simp add: shard_new_def session_drop_def demo_filed_def demo_session_def demo_peer_def hs_insert_def)
qed

lemma demo_handshake:
  assumes "udp_out c = Some out" "key (my_node c) = [1]"
  shows "\<exists>c'. handle_introduce demo_net demo_hello demo_addr (demo_session 255 0 rc, c) = (Ok (), (demo_session 3 1 rc, c')) \<and>
    next_rc c' = next_rc c"
  using assms
  by (simp add: handle_introduce_def demo_hello_def is_introduced_def demo_session_def bind_st_def take_introduction_def
    demo_peer_def send_introduce_def send_def send_via_def send_packet_def send_udp_def on_context_def udp_send_packets_def
    Let_def apply_sig_def packet_new_def demo_net_def)

lemma demo_introduce:
  assumes "udp_out c = Some out" "key (my_node c) = [1]"
  shows "\<exists>c'. process_packet demo_net now f 0 demo_hello demo_addr (demo_with (demo_filed (demo_session 255 0 rc)) c) =
    (Ok (), demo_with (demo_filed (demo_session 3 1 (next_rc c))) c')"
proof -
  obtain c' where h: "handle_introduce demo_net demo_hello demo_addr (demo_session 255 0 rc, c) =
      (Ok (), (demo_session 3 1 rc, c'))" "next_rc c' = next_rc c" using demo_handshake [OF assms] by blast
  have "find_session mem_ext (demo_filed (demo_session 255 0 rc)) demo_addr x = Some demo_addr" for x
    by (simp add: find_session_def demo_filed_def)
  then have "process_introduce demo_net demo_hello demo_addr demo_peer (demo_filed (demo_session 255 0 rc), c) =
      (Ok (), (demo_filed (demo_session 3 1 (next_rc c)), c'\<lparr>next_rc := next_rc c' + 1\<rparr>))"
    using h(2) by (simp add: process_introduce_def demo_filed_def shard_new_def bind_st_def h(1) insert_session_def)
      (simp add: demo_session_def session_drop_def)
  moreover have "msg demo_hello = Introduce (demo_hash 1) demo_peer 3" by (simp add: demo_hello_def)
  ultimately show ?thesis by (auto simp: process_packet_def demo_at_port)
qed

lemma demo_join:
  "\<exists>c. run_event demo_net demo_env (RunTask 0) (demo_with demo_shard0 (spawn demo_open (ctx demo_network))) =
      (Ok (), demo_with (demo_filed (demo_session 3 1 1)) c)"
proof -
  have task: "run_event demo_net demo_env (RunTask 0) (demo_with demo_shard0 (spawn demo_open (ctx demo_network))) =
      run_task demo_net demo_env demo_open (demo_with demo_shard0 (ctx demo_network))"
    by (simp add: demo_run handle_event_def demo_with_def spawn_def demo_network_def take_task_def demo_open_def)
  have e: "env_resolve demo_env ''peer'' = Ok (V4 4)" "host (endpoint demo_peer) = ''peer''" "port (endpoint demo_peer) = 7"
      "env_now demo_env = 0"
    by (simp_all add: demo_env_def demo_peer_def)
  let ?c = "(ctx demo_network)\<lparr>next_rc := 1\<rparr>"
  have "next_rc (ctx demo_network) = 0" "udp_out ?c = Some []" "key (my_node ?c) = [1]" "next_rc ?c = 1"
    by (simp_all add: demo_network_def)
  moreover have "resolve_port (demo_with (demo_filed s) c) (demo_hash 1) = 0" for s c
    by (rule demo_port) (simp add: demo_filed_def shard_new_def)
  ultimately show ?thesis
    using demo_introduce [of ?c "[]" "env_local demo_env" "env_shuffle demo_env 0 0" 0]
    unfolding task by (simp add: run_task_def demo_open_def run_open_def e bind_st_def demo_connect finish_open_def)
qed

text \<open>The state with the peer is reached.\<close>

lemma demo_joined:
  "\<exists>c. node_reaches demo_net demo_pkg_ext demo_network demo_keeper (demo_with (demo_filed (demo_session 3 1 1)) c) demo_keeper"
proof -
  have head: "env_head demo_env = get_current_block_hash (rk_db demo_keeper)"
    by (simp add: demo_env_def demo_keeper_facts)
  obtain c where "run_event demo_net demo_env (RunTask 0) (demo_with demo_shard0 (spawn demo_open (ctx demo_network))) =
      (Ok (), demo_with (demo_filed (demo_session 3 1 1)) c)" using demo_join by blast
  from node_reaches.event [OF node_reaches.event [OF node_reaches.event [OF node_reaches.start demo_env_good head demo_attach]
    demo_env_good head demo_knock] demo_env_good head this] show ?thesis by blast
qed

section \<open>Witnesses\<close>

theorem network_thread_survives_witness:
  "\<exists>c net'. run_event demo_net demo_env Timer (demo_with (demo_filed (demo_session 3 1 1)) c) = (Ok (), net') \<and>
     net_ok mem_ext 0 net'"
proof -
  obtain c where "node_reaches demo_net demo_pkg_ext demo_network demo_keeper (demo_with (demo_filed (demo_session 3 1 1)) c) demo_keeper"
    using demo_joined by blast
  from network_thread_survives [OF demo_network_starts this demo_env_good, of Timer] show ?thesis
    by (auto simp: demo_env_def)
qed

lemma demo_attached: "attached (demo_with sh c) = [sh]"
  by (simp add: attached_def demo_with_def List.map_filter_simps) (simp add: List.map_filter_def)

lemma demo_not_syncing: "syncing (demo_with (demo_filed (demo_session 3 1 1)) c) = []"
  by (simp add: syncing_def demo_attached demo_filed_def demo_session_def)

text \<open>With a peer and nothing to synchronise the node forges.\<close>

theorem should_forge_exact_witness:
  "\<exists>c. should_forge (demo_with (demo_filed (demo_session 3 1 1)) c) (demo_hash 1) = Ok True"
proof -
  obtain c where "node_reaches demo_net demo_pkg_ext demo_network demo_keeper (demo_with (demo_filed (demo_session 3 1 1)) c) demo_keeper"
    using demo_joined by blast
  from should_forge_exact [OF demo_network_starts this, of "demo_hash 1"]
  have "should_forge (demo_with (demo_filed (demo_session 3 1 1)) c) (demo_hash 1) = Ok
      (sh_network_id (demo_filed (demo_session 3 1 1)) = demo_hash 1 \<and>
       (\<exists>s \<in> snd ` set (sessions (demo_filed (demo_session 3 1 1))). is_introduced s))"
    unfolding demo_not_syncing demo_attached by simp
  then show ?thesis by (auto simp: demo_filed_def shard_new_def demo_session_def is_introduced_def)
qed

text \<open>With port 0 taken the search from port 0 finds port 1.\<close>

theorem port_search_terminates_witness:
  "free_port (Some demo_shard0 # replicate 254 None) 0 = Some (Ok (1, 2))"
proof -
  let ?shs = "Some demo_shard0 # replicate 254 None"
  from port_search_terminates [of ?shs 0] obtain d where
    d: "d < 255" "?shs ! (d mod 255) = None" "\<forall>e < d. ?shs ! (e mod 255) \<noteq> None"
      "free_port ?shs 0 = Some (Ok (of_nat (d mod 255), of_nat ((d + 1) mod 255)))" by auto
  have "d \<noteq> 0" using d(2) by (cases d) auto
  moreover have "\<not> 1 < d" using d(3) by auto
  ultimately have "d = 1" by simp
  with d(4) show ?thesis by simp
qed

theorem fatal_events_stop_the_thread_witness:
  "fst (run_event demo_net demo_env (TcpFirst demo_hello) demo_network) = Panic"
proof -
  have "net_ok mem_ext 0 demo_network" by (rule client_run_ok [OF demo_network_starts])
  moreover have "position P (replicate n None) = None" if "\<not> P None" for P :: "shard_info option \<Rightarrow> bool" and n
    using that by (induction n) auto
  then have "resolve_port demo_network (demo_hash 1) = 255" by (simp add: resolve_port_def demo_network_def)
  ultimately show ?thesis
    using fatal_events_stop_the_thread [of mem_ext demo_network demo_env _ _ _ _ demo_hello _ demo_net "demo_hash 1" demo_peer 3]
    by (simp add: demo_env_def) (simp add: demo_hello_def)
qed

text \<open>A stranger introduces itself as the peer without a signature.\<close>

definition demo_forged :: packet where
  "demo_forged = \<lparr>seq = 9, msg = Introduce (demo_hash 1) (demo_peer\<lparr>node_name := ''other''\<rparr>) 5, sig = []\<rparr>"

theorem introduced_sessions_keep_peer_witness:
  "\<exists>c net' s. udp_process_packet demo_net 0 (\<lambda>xs. xs) ((V4 9, 9), \<lparr>raw_port = 0, payload = demo_forged\<rparr>)
       (demo_with (demo_filed (demo_session 3 1 1)) c) = (Ok (), net') \<and>
     session_at net' 0 demo_addr = Some s \<and> remote_peer s = demo_peer \<and> remote_port s = 3"
proof -
  obtain c where c: "node_reaches demo_net demo_pkg_ext demo_network demo_keeper (demo_with (demo_filed (demo_session 3 1 1)) c) demo_keeper"
    using demo_joined by blast
  let ?net = "demo_with (demo_filed (demo_session 3 1 1)) c" and ?d = "((V4 9, 9), \<lparr>raw_port = 0, payload = demo_forged\<rparr>)"
  have ok: "net_ok mem_ext 0 ?net"
    using node_net_ok [OF c client_run_ok [OF demo_network_starts]] by (simp only: demo_core)
  have "ends False (\<lambda>_. net_ok mem_ext 0) (run_event demo_net demo_env (Datagram ?d) ?net)"
    using run_event_ends [OF demo_env_good, of demo_net ?net "Datagram ?d" False] ok
    by (simp add: demo_goes_on demo_forged_def)
  then obtain net' where run: "udp_process_packet demo_net 0 (\<lambda>xs. xs) ?d ?net = (Ok (), net')"
    unfolding demo_run handle_event_def by (auto simp: demo_env_def dest: ends_total)
  have at: "session_at ?net 0 demo_addr = Some (demo_session 3 1 1)"
    by (simp add: session_at_def demo_with_def demo_filed_def)
  have "check_sig demo_net demo_forged demo_peer = (Ok False :: (bool, io_error) result)"
    by (simp add: check_sig_def verify_obj_def verify_bytes_def demo_net_def mem_ext_def demo_forged_def)
  then have "\<exists>s. session_at net' 0 demo_addr = Some s \<and> remote_peer s = demo_peer \<and> remote_port s = 3"
    using introduced_sessions_keep_peer [OF ok run at, THEN conjunct1] by (simp add: demo_session_def is_introduced_def) blast
  with run show ?thesis by blast
qed

theorem silent_peer_times_out_witness:
  "\<exists>s' c'. checks demo_net [(0, 0), (5000, 5000), (10000, 10000), (15000, 15000), (20000, 20000)]
     (demo_session 3 1 1, ctx demo_network) = (Ok (), (s', c')) \<and> sess_done s' \<noteq> None"
proof -
  have "spaced 0 [(5000, 5000), (10000, 10000), (15000, 15000), (20000, 20000)]"
    by (simp add: PING_TIMEOUT_def time_less_def time_diff_def from_milliseconds_def)
  from silent_peer_times_out [OF _ this, of "ctx demo_network" demo_net 0 "demo_session 3 1 1"]
  show ?thesis by (auto simp: demo_network_def demo_net_def)
qed

theorem tcp_stream_round_trip_witness:
  "tcp_decode demo_net (fold (tcp_encode demo_net) [packet_new 7 (Ping 0), packet_new 8 (Ping 0)] []) =
     (Ok (Some (packet_new 7 (Ping 0))), tcp_encode demo_net (packet_new 8 (Ping 0)) [])"
  using tcp_stream_round_trip [of demo_net "packet_new 7 (Ping 0)" 16 "[packet_new 8 (Ping 0)]"]
  by (simp add: demo_net_def ping_codec_def packet_new_def read_write_le tcp_encode_def)

theorem repository_offers_best_node_first_witness:
  "\<exists>r0 r n. repo_new mem_ext = (Ok r0 :: (node_repository, io_error) result) \<and>
     for_each (run_repo_op mem_ext) [RepoNewNode demo_peer] r0 = (Ok r :: (node_repository, io_error) result) \<and>
     (repo_get_nodes r 0 :: (node, io_error) result) = Ok (ln_node n) \<and> n \<in> snd ` set (available_nodes r)"
proof -
  have "repo_len (repo_new_node mem_ext demo_peer r0) \<noteq> 0" if "(repo_new mem_ext :: (node_repository, io_error) result) = Ok r0" for r0
    using that by (auto simp: repo_new_def repo_build_def repo_new_node_def repo_len_def Let_def)
  note some = this
  from repository_offers_best_node_first [where X = mem_ext and ops = "[RepoNewNode demo_peer]" and 'e = io_error]
  obtain r0 r where r: "repo_new mem_ext = (Ok r0 :: (node_repository, io_error) result)"
    "for_each (run_repo_op mem_ext) [RepoNewNode demo_peer] r0 = (Ok r :: (node_repository, io_error) result)"
    and best: "0 < repo_len r \<longrightarrow> (\<exists>n. (repo_get_nodes r 0 :: (node, io_error) result) = Ok (ln_node n) \<and>
      n \<in> snd ` set (available_nodes r) \<and> (\<forall>m \<in> snd ` set (available_nodes r). score m \<le> score n))" by (elim exE conjE) (rule that)
  have "0 < repo_len r" using some [OF r(1)] r(2) by auto
  with best r show ?thesis by blast
qed

end
