(* ===== verification/Keeper_View.thy ===== *)
theory Keeper_View
  imports Keeper
begin

text \<open>
  The part of the \<open>RecordKeeper\<close> trait that the forgers read (heights, blocks, headers, stakes) and
  the contract behind it: every block has a height, one more than that of its parent, the header
  that is read is the header of the block, and the current block is a highest one. The record
  keeper on the database meets the contract in every state it can be in.
\<close>

section \<open>The trait object\<close>

record keeper_view =
  kv_height :: "u256 \<Rightarrow> (u64, error) result"
  kv_block :: "u256 \<Rightarrow> (block, error) result"
  kv_header :: "u256 \<Rightarrow> (block_header, error) result"
  kv_stake :: "u160 \<Rightarrow> (u64, error) result"

definition rk_view :: "'s ext \<Rightarrow> ('s, 'g) record_keeper \<Rightarrow> keeper_view" where
  "rk_view X rk = \<lparr>kv_height = rk_get_block_height X rk, kv_block = rk_get_block X rk,
     kv_header = rk_get_block_header X rk, kv_stake = rk_get_validator_stake rk\<rparr>"

definition view_ok :: "keeper_view \<Rightarrow> bool" where
  "view_ok V \<longleftrightarrow> (\<forall>h n. kv_height V h = Ok n \<longrightarrow> is_ok (kv_block V h)) \<and>
     (\<forall>h b. kv_block V h = Ok b \<longrightarrow> h \<noteq> U256_ZERO \<and> kv_header V h = Ok (header b) \<and>
        (\<exists>n. kv_height V h = Ok n \<and>
          (if prev (header b) = U256_ZERO then n = 1
           else \<exists>m. kv_height V (prev (header b)) = Ok m \<and> unat n = Suc (unat m)))) \<and>
     (\<forall>h x. kv_header V h = Ok x \<longrightarrow> is_ok (kv_block V h))"

section \<open>The tree of blocks behind it\<close>

definition view_parent :: "keeper_view \<Rightarrow> u256 \<Rightarrow> u256" where
  "view_parent V h = (if h = U256_ZERO then h else case kv_block V h of Ok b \<Rightarrow> prev (header b) | _ \<Rightarrow> U256_ZERO)"

definition view_ht :: "keeper_view \<Rightarrow> u256 \<Rightarrow> nat" where
  "view_ht V h = (if h = U256_ZERO then 0 else case kv_height V h of Ok n \<Rightarrow> unat n | _ \<Rightarrow> 0)"

definition view_node :: "keeper_view \<Rightarrow> u256 \<Rightarrow> bool" where
  "view_node V h \<longleftrightarrow> view_ok V \<and> (h = U256_ZERO \<or> is_ok (kv_block V h))"

lemma view_okD:
  assumes "view_ok V"
  shows "kv_height V h = Ok n \<Longrightarrow> \<exists>b. kv_block V h = Ok b"
    "kv_header V h = Ok x \<Longrightarrow> \<exists>b. kv_block V h = Ok b \<and> header b = x"
    "kv_block V h = Ok b \<Longrightarrow> h \<noteq> U256_ZERO" "kv_block V h = Ok b \<Longrightarrow> kv_header V h = Ok (header b)"
    "kv_block V h = Ok b \<Longrightarrow> \<exists>n. kv_height V h = Ok n \<and> (if prev (header b) = U256_ZERO then n = 1
       else \<exists>m. kv_height V (prev (header b)) = Ok m \<and> unat n = Suc (unat m))"
  using assms unfolding view_ok_def is_ok_iff by (blast, fastforce, blast+)

interpretation vt: rooted_tree "view_parent V" U256_ZERO "view_node V" "view_ht V" for V
proof unfold_locales
  have step: "view_node V (view_parent V b) \<and> view_ht V b = Suc (view_ht V (view_parent V b))"
    if b: "view_node V b" "b \<noteq> U256_ZERO" for b
  proof -
    obtain x where x: "view_ok V" "kv_block V b = Ok x" using b by (auto simp: view_node_def result_simps)
    note h = view_okD(5) [OF x]
    have p: "view_parent V b = prev (header x)" using x b(2) by (simp add: view_parent_def)
    show ?thesis
    proof (cases "prev (header x) = U256_ZERO")
      case False
      then obtain m n where "kv_height V (prev (header x)) = Ok m" "kv_height V b = Ok n" "unat n = Suc (unat m)"
        using h by auto
      then show ?thesis using False p x(1) b(2) view_okD(1) [OF x(1)]
        by (auto simp: view_node_def view_ht_def is_ok_iff)
    qed (use h p x(1) b(2) in \<open>auto simp: view_node_def view_ht_def\<close>)
  qed
  show "view_node V (view_parent V b)" if "view_node V b" for b
    using that step [OF that] by (cases "b = U256_ZERO") (auto simp: view_parent_def)
  show "view_ht V b = Suc (view_ht V (view_parent V b))" if "view_node V b" "b \<noteq> U256_ZERO" for b
    using step [OF that] by blast
qed (simp_all add: view_parent_def view_ht_def)

lemma known_node:
  assumes "view_ok V" "kv_height V h = Ok n"
  shows "view_node V h" "h \<noteq> U256_ZERO" "view_ht V h = unat n"
  using view_okD(1,3) [OF assms(1)] assms by (auto simp: view_node_def view_ht_def is_ok_iff)

lemma node_block:
  assumes "view_node V h" "h \<noteq> U256_ZERO"
  shows "\<exists>b. kv_block V h = Ok b \<and> prev (header b) = view_parent V h"
  using assms by (auto simp: view_node_def view_parent_def is_ok_iff)

section \<open>The contract of a record keeper\<close>

text \<open>
  \<open>ok\<close> is the invariant of a record keeper, \<open>step\<close> what its operations do, \<open>head\<close> its current block.
\<close>

locale chain_keeper =
  fixes ok :: "'k \<Rightarrow> bool" and step :: "'k \<Rightarrow> 'k \<Rightarrow> bool" and view :: "'k \<Rightarrow> keeper_view" and head :: "'k \<Rightarrow> u256"
  assumes step_ok: "ok k \<Longrightarrow> step k k' \<Longrightarrow> ok k'"
    and ok_view: "ok k \<Longrightarrow> view_ok (view k)"
    and head_known: "ok k \<Longrightarrow> \<exists>n. kv_height (view k) (head k) = Ok n"
    and head_highest: "ok k \<Longrightarrow> kv_height (view k) h = Ok n \<Longrightarrow> view_ht (view k) h \<le> view_ht (view k) (head k)"
begin

lemma steps_ok: "step\<^sup>*\<^sup>* k k' \<Longrightarrow> ok k \<Longrightarrow> ok k'"
  by (induction rule: rtranclp_induct) (auto intro: step_ok)

text \<open>The chain of the head: every height up to that of the head has exactly one block on it.\<close>

lemma chain_of_head:
  assumes "ok k" "0 < i" "i \<le> view_ht (view k) (head k)"
  shows "\<exists>!b. (\<exists>j. b = (view_parent (view k) ^^ j) (head k)) \<and> b \<noteq> U256_ZERO \<and> view_ht (view k) b = i"
proof -
  let ?V = "view k" and ?h = "head k"
  have n: "view_node ?V ?h" using head_known [OF assms(1)] known_node(1) ok_view [OF assms(1)] by blast
  let ?b = "(view_parent ?V ^^ (view_ht ?V ?h - i)) ?h"
  have b: "view_ht ?V ?b = i" using vt.ht_anc [OF n] assms(3) by simp
  show ?thesis
  proof (intro ex1I conjI)
    show "\<exists>j. ?b = (view_parent ?V ^^ j) ?h" by (rule exI) (rule refl)
    show "?b \<noteq> U256_ZERO" using b assms(2) vt.ht_root [of ?V] by (metis less_irrefl)
    fix b assume "(\<exists>j. b = (view_parent ?V ^^ j) ?h) \<and> b \<noteq> U256_ZERO \<and> view_ht ?V b = i"
    then obtain j where j: "b = (view_parent ?V ^^ j) ?h" "b \<noteq> U256_ZERO" "view_ht ?V b = i" by blast
    have "\<not> view_ht ?V ?h \<le> j" using vt.anc_is_root [OF n, of j] j(1,2) by simp
    then have "j = view_ht ?V ?h - i" using j(3) vt.ht_anc [OF n, of j] unfolding j(1) by linarith
    then show "b = ?b" using j(1) by simp
  qed (rule b)
qed

end

section \<open>The record keeper on the database meets it\<close>

definition rk_step :: "'s ext \<Rightarrow> ('s, 'g) record_keeper \<Rightarrow> ('s, 'g) record_keeper \<Rightarrow> bool" where
  "rk_step X rk rk' \<longleftrightarrow> reaches X rk rk'"

lemma rk_view_ht:
  assumes "keeper_ok X content rk" "kv_height (rk_view X rk) h = Ok n"
  shows "view_ht (rk_view X rk) h = block_ht X (rk_db rk) h" "known_block X (rk_db rk) h"
proof -
  have t: "tip_ok X content (rk_db rk)" using assms(1) by (simp add: keeper_ok_def)
  have n: "get_block_height X (rk_db rk) h = Ok n" using assms(2) by (simp add: rk_view_def rk_get_block_height_def)
  show "known_block X (rk_db rk) h" by (rule height_known(1) [OF t n])
  show "view_ht (rk_view X rk) h = block_ht X (rk_db rk) h"
    using height_known(2) [OF t n] assms(2) by (simp add: view_ht_def block_ht_def)
qed

lemma rk_view_ok:
  assumes "keeper_ok X content rk"
  shows "view_ok (rk_view X rk)"
proof -
  let ?db = "rk_db rk"
  have t: "tip_ok X content ?db" and inv: "chain_inv X ?db" and c: "blocks_complete X ?db"
    using assms by (simp_all add: keeper_ok_def tip_ok_def)
  have ht: "get_block_height X ?db h = Ok n \<longleftrightarrow> known_block X ?db h \<and> stored_height X ?db h = Some n" for h n
    using height_known(1) [OF t] block_height_stored [OF inv] by blast
  have blk: "is_ok (get_block X ?db h) \<longleftrightarrow> known_block X ?db h" for h
    using c by (auto simp: blocks_complete_def known_block_def get_block_def result_simps)
  have hd: "get_block_header X ?db h = Ok (header b)" if "get_block X ?db h = Ok b" for h b
    using that by (auto simp: get_block_def complete_block_def result_simps)
  have "h \<noteq> U256_ZERO \<and> (\<exists>n. get_block_height X ?db h = Ok n \<and> (if prev (header b) = U256_ZERO then n = 1
      else \<exists>m. get_block_height X ?db (prev (header b)) = Ok m \<and> unat n = Suc (unat m)))"
    if b: "get_block X ?db h = Ok b" for h b
  proof -
    have k: "known_block X ?db h" using hd [OF b] by (simp add: known_block_def)
    show ?thesis using chain_inv_header [OF inv hd [OF b]] k by (fastforce simp: ht split: if_splits)
  qed
  moreover have "is_ok (get_block X ?db h)" if "get_block_height X ?db h = Ok n" for h n
    using that by (simp add: ht blk)
  moreover have "is_ok (get_block X ?db h)" if "get_block_header X ?db h = Ok x" for h x
    using that by (simp add: blk known_block_def)
  ultimately show ?thesis
    using hd unfolding view_ok_def rk_view_def rk_get_block_def rk_get_block_height_def rk_get_block_header_def keeper_view.simps
    by blast
qed

interpretation rkc: chain_keeper "keeper_ok X content" "rk_step X" "rk_view X" rk_get_current_block_hash for X content
proof
  fix k k' :: "('a, 'b) record_keeper" and h n
  assume k: "keeper_ok X content k"
  show "view_ok (rk_view X k)" by (rule rk_view_ok [OF k])
  show "keeper_ok X content k'" if "rk_step X k k'" using that reached_ok k by (simp add: rk_step_def)
  have f: "chain_inv X (rk_db k)" "known_block X (rk_db k) (get_current_block_hash (rk_db k))"
    "\<And>b. known_block X (rk_db k) b \<Longrightarrow> block_ht X (rk_db k) b \<le> block_ht X (rk_db k) (get_current_block_hash (rk_db k))"
    using keeper_follows_longest_chain [OF k] by blast+
  have hh: "kv_height (rk_view X k) (rk_get_current_block_hash k) = Ok (get_current_block_height (rk_db k))"
    by (simp add: rk_view_def rk_get_block_height_def rk_get_current_block_hash_def get_block_height_def)
  then show "\<exists>n. kv_height (rk_view X k) (rk_get_current_block_hash k) = Ok n" by blast
  show "view_ht (rk_view X k) h \<le> view_ht (rk_view X k) (rk_get_current_block_hash k)"
    if "kv_height (rk_view X k) h = Ok n"
    using f(3) [OF rk_view_ht(2) [OF k that]] rk_view_ht(1) [OF k that] rk_view_ht(1) [OF k hh]
    by (simp add: rk_get_current_block_hash_def)
qed

end
