(* ===== verification/Dummy_Keeper.thy ===== *)
theory Dummy_Keeper
  imports Keeper_View
begin

text \<open>
  \<open>core/src/record_keeper/dummy.rs\<close>: the record keeper that holds blocks and transactions in memory,
  which the tests of the forgers use. It meets the same contract as the record keeper on the
  database, its answer to whether a block is in the current chain is right and always comes, and a
  block it creates is accepted and becomes the head.

  A node of the block tree is shared and only its list of children changes; the lists of children
  are a store of their own, under the hash of the node. The locks are taken inside the operations,
  which run one after the other here.
\<close>

section \<open>The in-memory record keeper\<close>

record tree_node =
  tn_block :: block
  tn_height :: u64

record dummy_keeper =
  dk_blocks :: "(u256, tree_node) hash_map"
  dk_children :: "(u256, u256 list) hash_map"
  dk_txns :: "(u256, txn) hash_map"
  dk_pending :: "(u256, txn) hash_map"
  dk_best :: tree_node

definition dk_genesis :: "'s ext \<Rightarrow> block" where
  "dk_genesis X = \<lparr>header = \<lparr>version = 1, timestamp = from_milliseconds 0, shard = U256_ZERO, prev = U256_ZERO,
     merkle_root = calculate_merkle_root X [], blob = []\<rparr>, txns = []\<rparr>"

definition dk_new :: "'s ext \<Rightarrow> dummy_keeper" where
  "dk_new X =
     (let n = \<lparr>tn_block = dk_genesis X, tn_height = 1\<rparr>; h = block_calculate_hash X (tn_block n) in
      \<lparr>dk_blocks = [(h, n)], dk_children = [(h, [])], dk_txns = [], dk_pending = [], dk_best = n\<rparr>)"

definition dk_get_current_block_hash :: "'s ext \<Rightarrow> dummy_keeper \<Rightarrow> u256" where
  "dk_get_current_block_hash X self = block_calculate_hash X (tn_block (dk_best self))"

definition dk_get_current_block_header :: "dummy_keeper \<Rightarrow> (block_header, error) result" where
  "dk_get_current_block_header self = Ok (header (tn_block (dk_best self)))"

definition dk_get_current_block :: "dummy_keeper \<Rightarrow> (block, error) result" where
  "dk_get_current_block self = Ok (tn_block (dk_best self))"

definition dk_get_block_height :: "dummy_keeper \<Rightarrow> u256 \<Rightarrow> (u64, error) result" where
  "dk_get_block_height self h =
     (case hm_get (dk_blocks self) h of
        Some n \<Rightarrow> Ok (tn_height n)
      | None \<Rightarrow> Err (Deserialize ''Could not find''))"

definition dk_get_block_header :: "dummy_keeper \<Rightarrow> u256 \<Rightarrow> (block_header, error) result" where
  "dk_get_block_header self h =
     (case hm_get (dk_blocks self) h of
        Some n \<Rightarrow> Ok (header (tn_block n))
      | None \<Rightarrow> Err (Deserialize ''Could not find block header!''))"

definition dk_get_block :: "dummy_keeper \<Rightarrow> u256 \<Rightarrow> (block, error) result" where
  "dk_get_block self h =
     (case hm_get (dk_blocks self) h of
        Some n \<Rightarrow> Ok (tn_block n)
      | None \<Rightarrow> Err (Deserialize ''Could not find block header!''))"

definition dk_complete_block :: "'s ext \<Rightarrow> dummy_keeper \<Rightarrow> block_header \<Rightarrow> (block, error) result" where
  "dk_complete_block X self head = dk_get_block self (header_calculate_hash X head)"

definition dk_get_stats :: "'s ext \<Rightarrow> dummy_keeper \<Rightarrow> (record_keeper_statistics, error) result" where
  "dk_get_stats X self =
     (let current_block = dk_get_current_block_hash X self in
       and_then (dk_get_block_height self current_block)
         (\<lambda>h. Ok \<lparr>stat_height = h, stat_current_block_hash = current_block,
              stat_pending_txns_count = of_nat (length (dk_pending self)),
              stat_pending_txns_size = foldl (\<lambda>acc (_, t). acc + of_nat (txn_calculate_size t)) 0 (dk_pending self)\<rparr>))"

definition dk_create_block :: "'s ext \<Rightarrow> time \<Rightarrow> dummy_keeper \<Rightarrow> (block, error) result" where
  "dk_create_block X now self =
     and_then (dk_get_current_block_header self)
       (\<lambda>cbh. let cbh_h = header_calculate_hash X cbh; ts = map fst (dk_pending self) in
          Ok \<lparr>header = \<lparr>version = 1, timestamp = now, shard = U256_ZERO, prev = cbh_h,
                merkle_root = calculate_merkle_root X ts, blob = []\<rparr>, txns = ts\<rparr>)"

text \<open>
  The transactions of a block move from the pending ones to the accepted ones; a transaction that
  a block lists twice is missing the second time, which is a panic.
\<close>

definition dk_take_txn :: "u256 \<Rightarrow> (dummy_keeper, unit, error) action" where
  "dk_take_txn t self =
     (case hm_get (dk_pending self) t of
        None \<Rightarrow> (Panic, self)
      | Some txn \<Rightarrow> (Ok (), self\<lparr>dk_pending := hm_remove t (dk_pending self), dk_txns := hm_insert t txn (dk_txns self)\<rparr>))"

definition dk_file_block :: "'s ext \<Rightarrow> block \<Rightarrow> tree_node \<Rightarrow> dummy_keeper \<Rightarrow> dummy_keeper" where
  "dk_file_block X blk node self =
     (let h = block_calculate_hash X blk; p = prev (header blk);
          n = \<lparr>tn_block = blk, tn_height = tn_height node + 1\<rparr> in
      self\<lparr>dk_children := hm_insert h [] (hm_insert p
             ((case hm_get (dk_children self) p of Some cs \<Rightarrow> cs | None \<Rightarrow> []) @ [h]) (dk_children self)),
           dk_best := (if tn_height (dk_best self) < tn_height n then n else dk_best self),
           dk_blocks := hm_insert h n (dk_blocks self)\<rparr>)"

definition dk_add_block :: "'s ext \<Rightarrow> block \<Rightarrow> bool \<Rightarrow> (dummy_keeper, bool, error) action" where
  "dk_add_block X blk fresh self =
     (if hm_get (dk_blocks self) (block_calculate_hash X blk) \<noteq> None then (Ok False, self)
      else case hm_get (dk_blocks self) (prev (header blk)) of
          None \<Rightarrow> (Err (Logic MissingPrevious), self)
        | Some node \<Rightarrow>
            if \<exists>t \<in> set (txns blk). hm_get (dk_pending self) t = None then (Err (Logic MissingPrevious), self)
            else bind_st (for_st dk_take_txn (txns blk))
              (\<lambda>_ self. (Ok True, dk_file_block X blk node self)) self)"

definition dk_add_pending_txn :: "'s ext \<Rightarrow> txn \<Rightarrow> bool \<Rightarrow> (dummy_keeper, bool, error) action" where
  "dk_add_pending_txn X t fresh self =
     (let h = txn_calculate_hash X t in
       (Ok (hm_get (dk_pending self) h = None), self\<lparr>dk_pending := hm_insert h t (dk_pending self)\<rparr>))"

text \<open>\<open>import_pkg\<close> and \<open>get_validator_key\<close> are those of the trait.\<close>

definition dk_import_txn :: "'s ext \<Rightarrow> u256 \<times> txn \<Rightarrow> (dummy_keeper, unit, error) action" where
  "dk_import_txn X p self = bind_st (dk_add_pending_txn X (snd p) False) (\<lambda>_. return_st ()) self"

definition dk_import_block :: "'s ext \<Rightarrow> block \<Rightarrow> (dummy_keeper, unit, error) action" where
  "dk_import_block X blk self = bind_st (dk_add_block X blk False) (\<lambda>_. return_st ()) self"

definition dk_import_pkg :: "'s ext \<Rightarrow> block_package \<Rightarrow> (dummy_keeper, u256, error) action" where
  "dk_import_pkg X pkg self =
     (let (blocks, txns) = package_unpack X pkg in
      if blocks = [] then (Err (Deserialize ''Empty Block Package''), self)
      else bind_st (for_st (dk_import_txn X) txns)
        (\<lambda>_. bind_st (for_st (dk_import_block X) blocks)
          (\<lambda>_. return_st (block_calculate_hash X (last blocks)))) self)"

definition dk_get_validator_key :: "dummy_keeper \<Rightarrow> u160 \<Rightarrow> (bin, error) result" where
  "dk_get_validator_key self i = Ok []"

definition dk_get_validator_stake :: "dummy_keeper \<Rightarrow> u160 \<Rightarrow> (u64, error) result" where
  "dk_get_validator_stake self i = Ok 1"

fun dk_latest_loop :: "dummy_keeper \<Rightarrow> nat \<Rightarrow> u256 \<Rightarrow> block_header list \<Rightarrow> (block_header list, error) result" where
  "dk_latest_loop self 0 cur blocks = Ok blocks"
| "dk_latest_loop self (Suc count) cur blocks =
     and_then (dk_get_block_header self cur) (\<lambda>b. dk_latest_loop self count (prev b) (blocks @ [b]))"

definition dk_get_latest_blocks :: "'s ext \<Rightarrow> dummy_keeper \<Rightarrow> nat \<Rightarrow> (block_header list, error) result" where
  "dk_get_latest_blocks X self count = dk_latest_loop self count (dk_get_current_block_hash X self) []"

definition dk_get_txn :: "dummy_keeper \<Rightarrow> u256 \<Rightarrow> (txn, error) result" where
  "dk_get_txn self h =
     (case hm_get (dk_txns self) h of
        Some t \<Rightarrow> Ok t
      | None \<Rightarrow> (case hm_get (dk_pending self) h of
            Some t \<Rightarrow> Ok t
          | None \<Rightarrow> Err (Deserialize ''Could not find txn hash!'')))"

definition dk_get_txn_receive_time :: "dummy_keeper \<Rightarrow> u256 \<Rightarrow> (time, error) result" where
  "dk_get_txn_receive_time self h = and_then (dk_get_txn self h) (\<lambda>t. Ok (txn_timestamp t))"

partial_function (option) dk_chain_loop ::
    "dummy_keeper \<Rightarrow> u256 \<Rightarrow> u256 \<Rightarrow> (u256, error) result option" where
  "dk_chain_loop self h cur =
     (if cur \<noteq> U256_ZERO \<and> cur \<noteq> h
      then case dk_get_block self cur of
          Ok b \<Rightarrow> dk_chain_loop self h (prev (header b))
        | Err e \<Rightarrow> Some (Err e)
        | Panic \<Rightarrow> Some Panic
        | Diverge \<Rightarrow> Some Diverge
      else Some (Ok cur))"

definition dk_is_block_in_current_chain :: "'s ext \<Rightarrow> dummy_keeper \<Rightarrow> u256 \<Rightarrow> (bool, error) result" where
  "dk_is_block_in_current_chain X self h =
     and_then (dk_get_block self h)
       (\<lambda>_. and_then (returns (dk_chain_loop self h (dk_get_current_block_hash X self)))
         (\<lambda>cur. Ok (cur = h)))"

definition dk_get_blocks_between :: "'s ext \<Rightarrow> dummy_keeper \<Rightarrow> u256 \<Rightarrow> u256 \<Rightarrow> nat \<Rightarrow> (block_package, error) result" where
  "dk_get_blocks_between X self last_known target limit = Ok package_new_empty"

definition dk_get_plot_events :: "dummy_keeper \<Rightarrow> coord \<Rightarrow> u64 \<Rightarrow> (raw_events, error) result" where
  "dk_get_plot_events self plot_id from_tick = Ok []"

definition dk_is_valid_block :: "dummy_keeper \<Rightarrow> block \<Rightarrow> (unit, error) result" where
  "dk_is_valid_block self blk = Ok ()"

definition dk_is_valid_txn :: "dummy_keeper \<Rightarrow> txn \<Rightarrow> (unit, error) result" where
  "dk_is_valid_txn self t = Ok ()"

definition dk_get_txn_blocks :: "dummy_keeper \<Rightarrow> u256 \<Rightarrow> (u256 set option, error) result" where
  "dk_get_txn_blocks self t = Ok None"

definition dk_get_account_txns :: "dummy_keeper \<Rightarrow> u160 \<Rightarrow> (u256 set, error) result" where
  "dk_get_account_txns self a = Ok {}"

definition dk_view :: "dummy_keeper \<Rightarrow> keeper_view" where
  "dk_view d = \<lparr>kv_height = dk_get_block_height d, kv_block = dk_get_block d,
     kv_header = dk_get_block_header d, kv_stake = dk_get_validator_stake d\<rparr>"

section \<open>The block tree\<close>

text \<open>
  The blocks in the order in which they were added: the genesis block, then children of earlier
  blocks, one higher than those.
\<close>

inductive grown :: "'s ext \<Rightarrow> (u256 \<times> tree_node) list \<Rightarrow> bool" for X where
  root: "prev (header g) = U256_ZERO \<Longrightarrow> block_calculate_hash X g \<noteq> U256_ZERO \<Longrightarrow>
    grown X [(block_calculate_hash X g, \<lparr>tn_block = g, tn_height = 1\<rparr>)]"
| child: "grown X ns \<Longrightarrow> hm_get ns (prev (header blk)) = Some p \<Longrightarrow> hm_get ns (block_calculate_hash X blk) = None \<Longrightarrow>
    block_calculate_hash X blk \<noteq> U256_ZERO \<Longrightarrow>
    grown X (ns @ [(block_calculate_hash X blk, \<lparr>tn_block = blk, tn_height = tn_height p + 1\<rparr>)])"

definition dk_ok :: "'s ext \<Rightarrow> dummy_keeper \<Rightarrow> bool" where
  "dk_ok X d \<longleftrightarrow> grown X (dk_blocks d) \<and> length (dk_blocks d) < 2 ^ 64 \<and>
     hm_get (dk_blocks d) (block_calculate_hash X (tn_block (dk_best d))) = Some (dk_best d) \<and>
     (\<forall>h n. hm_get (dk_blocks d) h = Some n \<longrightarrow> tn_height n \<le> tn_height (dk_best d)) \<and> hm_ok (dk_pending d)"

lemma grown_node:
  assumes "grown X ns" "length ns < 2 ^ 64" "hm_get ns h = Some n"
  shows "h \<noteq> U256_ZERO \<and> h = block_calculate_hash X (tn_block n) \<and> unat (tn_height n) \<le> length ns \<and>
    (if prev (header (tn_block n)) = U256_ZERO then tn_height n = 1
     else \<exists>m. hm_get ns (prev (header (tn_block n))) = Some m \<and> unat (tn_height n) = Suc (unat (tn_height m)))"
  using assms
proof (induction arbitrary: h n)
  case (child ns blk p)
  let ?b = "block_calculate_hash X blk" and ?n = "\<lparr>tn_block = blk, tn_height = tn_height p + 1\<rparr>"
  have get: "hm_get (ns @ [(?b, ?n)]) x = (if x = ?b then Some ?n else hm_get ns x)" for x
    using child.hyps(3) by (auto simp: map_add_def split: option.split)
  have p: "prev (header blk) \<noteq> ?b" using child.hyps(2,3) by auto
  have len: "length ns < 2 ^ 64" using child.prems(1) by simp
  note pp = child.IH [OF len child.hyps(2)]
  then have "unat (tn_height p) \<le> length ns" "prev (header blk) \<noteq> U256_ZERO" by blast+
  then have s: "unat (tn_height p + 1) = Suc (unat (tn_height p))"
    using child.prems(1) by (intro unat_Suc_u64) simp
  show ?case
  proof (cases "h = ?b")
    case True
    have n: "n = ?n" using child.prems(2) unfolding get True by simp
    have "\<exists>m. hm_get (ns @ [(?b, ?n)]) (prev (header blk)) = Some m \<and> unat (tn_height p + 1) = Suc (unat (tn_height m))"
      using p child.hyps(2) s unfolding get by simp
    then show ?thesis unfolding n True using child.hyps(4) pp s by (auto simp del: map_of_append)
  next
    case False
    then have h: "hm_get ns h = Some n" using child.prems(2) unfolding get by simp
    have "hm_get (ns @ [(?b, ?n)]) x = Some m" if "hm_get ns x = Some m" for x m
      using that child.hyps(3) unfolding get by auto
    then have "(\<exists>m. hm_get ns x = Some m \<and> P m) \<Longrightarrow> (\<exists>m. hm_get (ns @ [(?b, ?n)]) x = Some m \<and> P m)" for x P by blast
    then show ?thesis using child.IH [OF len h] by (auto simp del: map_of_append split: if_splits)
  qed
qed (auto split: if_splits)

lemma dk_view_ok:
  assumes "dk_ok X d"
  shows "view_ok (dk_view d)"
proof -
  have g: "grown X (dk_blocks d)" "length (dk_blocks d) < 2 ^ 64" using assms by (simp_all add: dk_ok_def)
  have blk: "dk_get_block d h = Ok b \<longleftrightarrow> (\<exists>n. hm_get (dk_blocks d) h = Some n \<and> b = tn_block n)" for h b
    by (auto simp: dk_get_block_def split: option.split)
  have hd: "dk_get_block_header d h = Ok x \<longleftrightarrow> (\<exists>n. hm_get (dk_blocks d) h = Some n \<and> x = header (tn_block n))" for h x
    by (auto simp: dk_get_block_header_def split: option.split)
  have ht: "dk_get_block_height d h = Ok m \<longleftrightarrow> (\<exists>n. hm_get (dk_blocks d) h = Some n \<and> m = tn_height n)" for h m
    by (auto simp: dk_get_block_height_def split: option.split)
  show ?thesis
    unfolding view_ok_def dk_view_def keeper_view.simps is_ok_iff blk hd ht
    using grown_node [OF g] by (fastforce split: if_splits)
qed

section \<open>Adding blocks\<close>

lemma take_txns_result:
  assumes "for_st dk_take_txn ts d = (r, d')"
  shows "\<exists>ps as. d' = d\<lparr>dk_pending := ps, dk_txns := as\<rparr> \<and> (hm_ok (dk_pending d) \<longrightarrow> hm_ok ps) \<and>
    (r = Ok () \<longrightarrow> (\<forall>h. hm_get ps h = (if h \<in> set ts then None else hm_get (dk_pending d) h)))"
  using assms
proof (induction ts arbitrary: d)
  case (Cons t ts)
  show ?case
  proof (cases "hm_get (dk_pending d) t")
    case None
    then show ?thesis using Cons.prems by (cases d) (auto simp: bind_st_def dk_take_txn_def)
  next
    case (Some x)
    let ?d = "d\<lparr>dk_pending := hm_remove t (dk_pending d), dk_txns := hm_insert t x (dk_txns d)\<rparr>"
    have "dk_take_txn t d = (Ok (), ?d)" using Some by (simp add: dk_take_txn_def)
    then have "for_st dk_take_txn ts ?d = (r, d')" using Cons.prems by simp
    from Cons.IH [OF this] show ?thesis by (auto simp: distinct_delete map_simps)
  qed
qed (rule exI [of _ "dk_pending d'"], rule exI [of _ "dk_txns d'"], simp)

lemma dk_file_ok:
  assumes ok: "dk_ok X d" and p: "hm_get (dk_blocks d) (prev (header blk)) = Some p"
    and new: "hm_get (dk_blocks d) (block_calculate_hash X blk) = None" "block_calculate_hash X blk \<noteq> U256_ZERO"
    and room: "Suc (length (dk_blocks d)) < 2 ^ 64"
  shows "dk_ok X (dk_file_block X blk p d)" "length (dk_blocks (dk_file_block X blk p d)) = Suc (length (dk_blocks d))"
proof -
  let ?b = "block_calculate_hash X blk" and ?n = "\<lparr>tn_block = blk, tn_height = tn_height p + 1\<rparr>"
  let ?d = "dk_file_block X blk p d"
  have "?b \<notin> fst ` set (dk_blocks d)" using new(1) by (simp add: map_of_eq_None_iff)
  then have bl: "dk_blocks ?d = dk_blocks d @ [(?b, ?n)]"
    using hm_insert_fresh [of ?b "dk_blocks d"] by (simp add: dk_file_block_def Let_def)
  have best: "dk_best ?d = (if tn_height (dk_best d) < tn_height p + 1 then ?n else dk_best d)"
    by (simp add: dk_file_block_def Let_def)
  have get: "hm_get (dk_blocks ?d) x = (if x = ?b then Some ?n else hm_get (dk_blocks d) x)" for x
    using new(1) by (auto simp: bl map_add_def split: option.split)
  have "grown X (dk_blocks ?d)" unfolding bl using ok p new by (intro grown.child) (auto simp: dk_ok_def)
  moreover have "hm_get (dk_blocks ?d) (block_calculate_hash X (tn_block (dk_best ?d))) = Some (dk_best ?d)"
    using ok new(1) by (auto simp: get best dk_ok_def)
  moreover have "tn_height n \<le> tn_height (dk_best ?d)" if "hm_get (dk_blocks ?d) h = Some n" for h n
  proof (cases "h = ?b")
    case False
    then have "tn_height n \<le> tn_height (dk_best d)" using that ok by (auto simp: get dk_ok_def)
    then show ?thesis by (auto simp: best)
  qed (use that in \<open>auto simp: get best\<close>)
  moreover have "hm_ok (dk_pending ?d)" using ok by (simp add: dk_ok_def dk_file_block_def Let_def)
  ultimately show "dk_ok X ?d" using room by (simp add: dk_ok_def bl)
  show "length (dk_blocks ?d) = Suc (length (dk_blocks d))" by (simp add: bl)
qed

lemma dk_add_block_cases:
  assumes "dk_add_block X blk fresh d = (r, d')"
  shows "(\<exists>ps as. d' = d\<lparr>dk_pending := ps, dk_txns := as\<rparr> \<and> (hm_ok (dk_pending d) \<longrightarrow> hm_ok ps) \<and> r \<noteq> Ok True) \<or>
    (\<exists>p ps as. hm_get (dk_blocks d) (prev (header blk)) = Some p \<and>
      hm_get (dk_blocks d) (block_calculate_hash X blk) = None \<and> r = Ok True \<and>
      d' = dk_file_block X blk p (d\<lparr>dk_pending := ps, dk_txns := as\<rparr>) \<and> (hm_ok (dk_pending d) \<longrightarrow> hm_ok ps) \<and>
      (\<forall>h. hm_get ps h = (if h \<in> set (txns blk) then None else hm_get (dk_pending d) h)))"
proof -
  obtain v d1 where v: "for_st dk_take_txn (txns blk) d = (v, d1)" by fastforce
  have same: "\<exists>ps as. d = d\<lparr>dk_pending := ps, dk_txns := as\<rparr> \<and> (hm_ok (dk_pending d) \<longrightarrow> hm_ok ps)"
    by (rule exI [of _ "dk_pending d"], rule exI [of _ "dk_txns d"]) simp
  show ?thesis
    using assms take_txns_result [OF v] same
    by (cases v) (auto simp: dk_add_block_def bind_st_def v split: option.splits if_splits)
qed

lemma dk_add_block_ok:
  assumes ok: "dk_ok X d" and run: "dk_add_block X blk fresh d = (r, d')"
    and nz: "block_calculate_hash X blk \<noteq> U256_ZERO" and room: "Suc (length (dk_blocks d)) < 2 ^ 64"
  shows "dk_ok X d' \<and> length (dk_blocks d') = length (dk_blocks d) + (if r = Ok True then 1 else 0)"
  using dk_add_block_cases [OF run]
proof
  assume "\<exists>ps as. d' = d\<lparr>dk_pending := ps, dk_txns := as\<rparr> \<and> (hm_ok (dk_pending d) \<longrightarrow> hm_ok ps) \<and> r \<noteq> Ok True"
  then show ?thesis using ok by (auto simp: dk_ok_def)
next
  assume "\<exists>p ps as. hm_get (dk_blocks d) (prev (header blk)) = Some p \<and>
      hm_get (dk_blocks d) (block_calculate_hash X blk) = None \<and> r = Ok True \<and>
      d' = dk_file_block X blk p (d\<lparr>dk_pending := ps, dk_txns := as\<rparr>) \<and> (hm_ok (dk_pending d) \<longrightarrow> hm_ok ps) \<and>
      (\<forall>h. hm_get ps h = (if h \<in> set (txns blk) then None else hm_get (dk_pending d) h))"
  then obtain p ps as where a: "hm_get (dk_blocks d) (prev (header blk)) = Some p"
    "hm_get (dk_blocks d) (block_calculate_hash X blk) = None" "r = Ok True"
    "d' = dk_file_block X blk p (d\<lparr>dk_pending := ps, dk_txns := as\<rparr>)" "hm_ok (dk_pending d) \<longrightarrow> hm_ok ps" by blast
  have "dk_ok X (d\<lparr>dk_pending := ps, dk_txns := as\<rparr>)" using ok a(5) by (simp add: dk_ok_def)
  from dk_file_ok [OF this _ _ nz, of p] a room show ?thesis by simp
qed

section \<open>All runs\<close>

definition dk_step :: "'s ext \<Rightarrow> dummy_keeper \<Rightarrow> dummy_keeper \<Rightarrow> bool" where
  "dk_step X d d' \<longleftrightarrow> (\<exists>blk fresh r. block_calculate_hash X blk \<noteq> U256_ZERO \<and> Suc (length (dk_blocks d)) < 2 ^ 64 \<and>
       dk_add_block X blk fresh d = (r, d')) \<or>
     (\<exists>t fresh r. dk_add_pending_txn X t fresh d = (r, d'))"

lemma dk_new_ok: "block_calculate_hash X (dk_genesis X) \<noteq> U256_ZERO \<Longrightarrow> dk_ok X (dk_new X)"
  using grown.root [of "dk_genesis X" X]
  by (auto simp: dk_ok_def dk_new_def dk_genesis_def Let_def split: if_splits)

interpretation dkc: chain_keeper "dk_ok X" "dk_step X" dk_view "dk_get_current_block_hash X" for X
proof
  fix k k' :: dummy_keeper and h n
  assume k: "dk_ok X k"
  show "view_ok (dk_view k)" by (rule dk_view_ok [OF k])
  show "dk_ok X k'" if "dk_step X k k'"
    using that dk_add_block_ok [OF k] k
    by (auto simp: dk_step_def dk_add_pending_txn_def dk_ok_def Let_def distinct_update)
  have hh: "kv_height (dk_view k) (dk_get_current_block_hash X k) = Ok (tn_height (dk_best k))"
    using k by (simp add: dk_view_def dk_get_block_height_def dk_get_current_block_hash_def dk_ok_def)
  then show "\<exists>n. kv_height (dk_view k) (dk_get_current_block_hash X k) = Ok n" by blast
  assume n: "kv_height (dk_view k) h = Ok n"
  then have "n \<le> tn_height (dk_best k)"
    using k by (auto simp: dk_view_def dk_get_block_height_def dk_ok_def split: option.splits)
  then show "view_ht (dk_view k) h \<le> view_ht (dk_view k) (dk_get_current_block_hash X k)"
    using known_node(3) [OF dk_view_ok [OF k] hh] known_node(3) [OF dk_view_ok [OF k] n] by (simp add: word_le_nat_alt)
qed

lemma dk_import_steps:
  assumes "for_st (dk_import_block X) blks d = (r, d')"
    and "\<forall>b \<in> set blks. block_calculate_hash X b \<noteq> U256_ZERO" "length (dk_blocks d) + length blks < 2 ^ 64" "dk_ok X d"
  shows "(dk_step X)\<^sup>*\<^sup>* d d'"
  using assms
proof (induction blks arbitrary: d)
  case (Cons b blks)
  obtain v d1 where v: "dk_add_block X b False d = (v, d1)" by fastforce
  have s: "dk_step X d d1" using v Cons.prems(2,3) by (fastforce simp: dk_step_def)
  note o1 = dk_add_block_ok [OF Cons.prems(4) v]
  show ?case
  proof (cases v)
    case (Ok x)
    then have "dk_import_block X b d = (Ok (), d1)" using v by (simp add: dk_import_block_def)
    then have "for_st (dk_import_block X) blks d1 = (r, d')"
      using Cons.prems(1) by simp
    from Cons.IH [OF this] o1 Cons.prems(2,3) have "(dk_step X)\<^sup>*\<^sup>* d1 d'" by (simp split: if_splits)
    then show ?thesis using s by (rule converse_rtranclp_into_rtranclp [rotated])
  qed (use Cons.prems(1) v s in \<open>auto simp: bind_st_def dk_import_block_def\<close>)
qed simp

section \<open>Whether a block is in the current chain\<close>

lemma chain_loop_finds:
  assumes "view_node (dk_view d) cur"
  shows "dk_chain_loop d h cur = Some (Ok (if \<exists>j. (view_parent (dk_view d) ^^ j) cur = h then h else U256_ZERO))"
  using assms
proof (induction "view_ht (dk_view d) cur" arbitrary: cur rule: less_induct)
  case (less cur)
  let ?up = "view_parent (dk_view d)"
  show ?case
  proof (cases "cur = U256_ZERO \<or> cur = h")
    case True
    moreover have "\<exists>j. (?up ^^ j) h = h" by (rule exI [of _ 0]) simp
    moreover have "(\<exists>j. (?up ^^ j) U256_ZERO = h) \<longleftrightarrow> h = U256_ZERO" using vt.anc_root by metis
    ultimately show ?thesis by (auto simp: dk_chain_loop.simps)
  next
    case False
    then obtain b where b: "dk_get_block d cur = Ok b" "prev (header b) = ?up cur"
      using node_block [OF less.prems] by (auto simp: dk_view_def)
    have "view_ht (dk_view d) (?up cur) < view_ht (dk_view d) cur" using vt.ht_up [OF less.prems] False by simp
    from less.hyps [OF this vt.node_up [OF less.prems]]
    have "dk_chain_loop d h cur = Some (Ok (if \<exists>j. (?up ^^ j) (?up cur) = h then h else U256_ZERO))"
      using False b by (subst dk_chain_loop.simps) simp
    moreover have "(\<exists>j. (?up ^^ j) (?up cur) = h) \<longleftrightarrow> (\<exists>j. (?up ^^ j) cur = h)"
    proof
      assume "\<exists>j. (?up ^^ j) (?up cur) = h"
      then obtain j where "(?up ^^ Suc j) cur = h" unfolding funpow_Suc_right by auto
      then show "\<exists>j. (?up ^^ j) cur = h" by blast
    next
      assume "\<exists>j. (?up ^^ j) cur = h"
      then obtain j where j: "(?up ^^ j) cur = h" by blast
      then have "j \<noteq> 0" using False by (cases j) auto
      then obtain i where "j = Suc i" by (cases j) auto
      then show "\<exists>j. (?up ^^ j) (?up cur) = h" using j by (auto simp: funpow_Suc_right simp del: funpow.simps)
    qed
    ultimately show ?thesis by simp
  qed
qed

lemma in_current_chain:
  assumes "dk_ok X d"
  shows "dk_is_block_in_current_chain X d h =
    and_then (dk_get_block d h) (\<lambda>_. Ok (\<exists>j. (view_parent (dk_view d) ^^ j) (dk_get_current_block_hash X d) = h))"
proof (cases "dk_get_block d h")
  case (Ok b)
  obtain n where "kv_height (dk_view d) (dk_get_current_block_hash X d) = Ok n" using dkc.head_known [OF assms] by blast
  from chain_loop_finds [OF known_node(1) [OF dkc.ok_view [OF assms] this]]
  have "dk_chain_loop d h (dk_get_current_block_hash X d) =
    Some (Ok (if \<exists>j. (view_parent (dk_view d) ^^ j) (dk_get_current_block_hash X d) = h then h else U256_ZERO))" .
  moreover have "h \<noteq> U256_ZERO" using view_okD(3) [OF dk_view_ok [OF assms], of h b] Ok by (simp add: dk_view_def)
  ultimately show ?thesis using Ok by (simp add: dk_is_block_in_current_chain_def)
qed (simp_all add: dk_is_block_in_current_chain_def)

section \<open>Creating a block\<close>

lemma dk_created_accepted:
  assumes ok: "dk_ok X d" and c: "dk_create_block X now d = Ok blk" and room: "Suc (length (dk_blocks d)) < 2 ^ 64"
    and new: "block_calculate_hash X blk \<noteq> U256_ZERO" "hm_get (dk_blocks d) (block_calculate_hash X blk) = None"
  shows "\<exists>d'. dk_add_block X blk fresh d = (Ok True, d') \<and> dk_ok X d' \<and>
    dk_get_current_block_hash X d' = block_calculate_hash X blk \<and> dk_pending d' = []"
proof -
  have e: "txns blk = map fst (dk_pending d)" "prev (header blk) = dk_get_current_block_hash X d"
    using c by (auto simp: dk_create_block_def dk_get_current_block_header_def dk_get_current_block_hash_def
      block_calculate_hash_def Let_def)
  have p: "hm_get (dk_blocks d) (prev (header blk)) = Some (dk_best d)"
    using ok by (simp add: e dk_ok_def dk_get_current_block_hash_def)
  have pend: "hm_get (dk_pending d) t \<noteq> None" if "t \<in> set (txns blk)" for t
    using that by (simp add: e map_of_eq_None_iff)
  have "\<exists>d1. for_st dk_take_txn ts d0 = (Ok (), d1)" if "distinct ts" "\<forall>t \<in> set ts. hm_get (dk_pending d0) t \<noteq> None" for ts d0
    using that
  proof (induction ts arbitrary: d0)
    case (Cons t ts)
    then obtain x where x: "hm_get (dk_pending d0) t = Some x" by auto
    let ?d = "d0\<lparr>dk_pending := hm_remove t (dk_pending d0), dk_txns := hm_insert t x (dk_txns d0)\<rparr>"
    have "dk_take_txn t d0 = (Ok (), ?d)" using x by (simp add: dk_take_txn_def)
    moreover have "\<exists>d1. for_st dk_take_txn ts ?d = (Ok (), d1)"
      by (rule Cons.IH) (use Cons.prems in \<open>auto simp: map_simps\<close>)
    ultimately show ?case by simp
  qed simp
  from this [of "txns blk" d] obtain d1 where d1: "for_st dk_take_txn (txns blk) d = (Ok (), d1)"
    using ok pend by (auto simp: e dk_ok_def)
  have run: "dk_add_block X blk fresh d = (Ok True, dk_file_block X blk (dk_best d) d1)"
    using new(2) p pend d1 by (auto simp: dk_add_block_def)
  obtain ps as where ps: "d1 = d\<lparr>dk_pending := ps, dk_txns := as\<rparr>"
    "\<forall>h. hm_get ps h = (if h \<in> set (txns blk) then None else hm_get (dk_pending d) h)"
    using take_txns_result [OF d1] by blast
  have "hm_get ps h = None" for h using ps(2) by (cases "h \<in> fst ` set (dk_pending d)") (auto simp: e map_of_eq_None_iff)
  then have "ps = []" by (metis map_of_eq_None_iff fst_conv image_eqI list.set_intros(1) neq_Nil_conv prod.exhaust_sel)
  moreover have "tn_height (dk_best d) < tn_height (dk_best d) + 1"
  proof -
    have "unat (tn_height (dk_best d)) \<le> length (dk_blocks d)"
      using grown_node [of X "dk_blocks d"] ok unfolding dk_ok_def by blast
    then show ?thesis using room unat_Suc_u64 [of "tn_height (dk_best d)"] by (simp add: word_less_nat_alt)
  qed
  ultimately show ?thesis
    using run dk_add_block_ok [OF ok run new(1) room]
    by (simp add: ps(1) dk_file_block_def dk_get_current_block_hash_def Let_def)
qed

section \<open>Properties\<close>

lemma dk_import_keeps_ok:
  assumes "dk_ok X d" "dk_import_pkg X pkg d = (r, d')"
    and "\<forall>b \<in> set (fst (package_unpack X pkg)). block_calculate_hash X b \<noteq> U256_ZERO"
    and "length (dk_blocks d) + length (fst (package_unpack X pkg)) < 2 ^ 64"
  shows "(dk_step X)\<^sup>*\<^sup>* d d'"
proof -
  obtain blks ts where u: "package_unpack X pkg = (blks, ts)" by fastforce
  let ?p = "for_st (dk_import_txn X) ts"
  obtain d1 where p: "?p d = (Ok (), d1)" "(dk_step X)\<^sup>*\<^sup>* d d1" "dk_blocks d1 = dk_blocks d"
  proof -
    have "\<exists>d1. for_st (dk_import_txn X) xs d0 = (Ok (), d1) \<and>
        (dk_step X)\<^sup>*\<^sup>* d0 d1 \<and> dk_blocks d1 = dk_blocks d0" for xs :: "(u256 \<times> txn) list" and d0
    proof (induction xs arbitrary: d0)
      case (Cons x xs)
      obtain h t where x: "x = (h, t)" by (cases x)
      obtain b d1 where a: "dk_add_pending_txn X t False d0 = (Ok b, d1)" "dk_blocks d1 = dk_blocks d0"
        by (auto simp: dk_add_pending_txn_def Let_def)
      then have "dk_step X d0 d1" by (auto simp: dk_step_def)
      moreover have "dk_import_txn X x d0 = (Ok (), d1)" using a x by (simp add: dk_import_txn_def)
      ultimately show ?case using Cons.IH [of d1] a(2)
        by (auto intro: converse_rtranclp_into_rtranclp)
    qed auto
    then show thesis using that by blast
  qed
  show ?thesis
  proof (cases "blks = []")
    case False
    let ?b = "for_st (dk_import_block X) blks"
    obtain v d2 where b: "?b d1 = (v, d2)" by fastforce
    have "d' = d2" using assms(2) False u p(1) b
      by (cases v) (auto simp: dk_import_pkg_def bind_st_def [of ?p] bind_st_def [of ?b])
    moreover have "(dk_step X)\<^sup>*\<^sup>* d1 d2"
      by (rule dk_import_steps [OF b]) (use assms u p dkc.steps_ok [OF p(2)] in auto)
    ultimately show ?thesis using p(2) by simp
  qed (use assms(2) u in \<open>simp add: dk_import_pkg_def\<close>)
qed

text \<open>
  C12: the in-memory record keeper, after any sequence of blocks and transactions from the genesis
  block on, has a current block that is a highest known one, and \<open>is_block_in_current_chain\<close> always
  returns: an error for an unknown block, and otherwise whether the block is the current one or an
  ancestor of it.
\<close>

theorem dummy_keeper_follows_longest_chain:
  assumes "block_calculate_hash X (dk_genesis X) \<noteq> U256_ZERO" "(dk_step X)\<^sup>*\<^sup>* (dk_new X) d"
  shows "(\<exists>n. dk_get_block_height d (dk_get_current_block_hash X d) = Ok n \<and>
      (\<forall>h m. dk_get_block_height d h = Ok m \<longrightarrow> m \<le> n)) \<and>
    (\<forall>h. dk_is_block_in_current_chain X d h = and_then (dk_get_block d h)
      (\<lambda>_. Ok (\<exists>j. (view_parent (dk_view d) ^^ j) (dk_get_current_block_hash X d) = h)))"
proof -
  have ok: "dk_ok X d" using dkc.steps_ok [OF assms(2) dk_new_ok [OF assms(1)]] .
  then have "dk_get_block_height d (dk_get_current_block_hash X d) = Ok (tn_height (dk_best d))"
    by (simp add: dk_get_block_height_def dk_get_current_block_hash_def dk_ok_def)
  moreover have "m \<le> tn_height (dk_best d)" if "dk_get_block_height d h = Ok m" for h m
    using ok that by (auto simp: dk_get_block_height_def dk_ok_def split: option.splits)
  ultimately show ?thesis using in_current_chain [OF ok] by blast
qed

text \<open>
  The block that the in-memory record keeper creates is accepted by it, becomes the current
  block and takes every pending transaction, provided that its hash is new and not zero.
\<close>

theorem dummy_created_block_becomes_head:
  assumes "block_calculate_hash X (dk_genesis X) \<noteq> U256_ZERO" "(dk_step X)\<^sup>*\<^sup>* (dk_new X) d"
    and "dk_create_block X now d = Ok blk" "Suc (length (dk_blocks d)) < 2 ^ 64"
    and "block_calculate_hash X blk \<noteq> U256_ZERO" "hm_get (dk_blocks d) (block_calculate_hash X blk) = None"
  shows "\<exists>d'. dk_add_block X blk fresh d = (Ok True, d') \<and>
    dk_get_current_block_hash X d' = block_calculate_hash X blk \<and> dk_pending d' = []"
  using dk_created_accepted [OF dkc.steps_ok [OF assms(2) dk_new_ok [OF assms(1)]] assms(3-6)] by blast

end
