(* ===== verification/Forging.thy ===== *)
theory Forging
  imports Dummy_Keeper
begin

text \<open>
  The forgers of \<open>core/src/forging\<close>: \<open>FlowerPicking\<close> (\<open>flower_picking.rs\<close>) and \<open>EPoS\<close> (\<open>epos.rs\<close>). A forger
  fills in the blob of a block that the record keeper made, decides how long to wait before the
  block is sent, and validates the blob of a block of somebody else. Both read the chain through
  the trait of the record keeper, here a \<open>keeper_view\<close>.

  The encoding of the data in a blob and of a block, the decoding and export of private keys, and
  the floating-point expressions of the sources are parameters. A message of a \<open>ForgeError\<close> is a
  constructor that holds the values in the text. Timers and messages to the network are collected
  in the state; the clock and random numbers are arguments.
\<close>

section \<open>Shared parts\<close>

datatype forge_error =
    HeightUnavailable error
  | BlockUnavailable error
  | HeaderUnavailable error
  | PrivateKeyUnreadable string
  | BlobUnreadable nat string
  | PublicKeyNotDer
  | InvalidDifficultyBlob
  | ValidatorInfoFailed forge_error
  | DifficultyInvalid
  | SignatureCountMismatch
  | SignaturesDoNotLineUp
  | BalanceUnavailable u160
  | TimestampsDoNotMatch
  | BlobDecodeError
  | SubmittedTooEarly

record epos_block_data =
  ed_difficulty :: u64
  ed_sigs :: "(bin \<times> u256) list"

record forge_ext =
  data_codec :: "epos_block_data codec"
  block_codec :: "block codec"
  private_key_from_der :: "bin \<Rightarrow> (pkey, string) result"
  public_key_to_der :: "pkey \<Rightarrow> (bin, string) result"
  log_trunc :: "nat \<Rightarrow> u64 \<Rightarrow> u64"
  scale_difficulty :: "u64 \<Rightarrow> u64 \<Rightarrow> i64 \<Rightarrow> u64 \<Rightarrow> u64"

definition forge_ext_ok :: "forge_ext \<Rightarrow> bool" where
  "forge_ext_ok F \<longleftrightarrow> codec_ok (data_codec F) \<and> codec_ok (block_codec F)"

fun expect_ok :: "('a, 'e) result \<Rightarrow> ('a, 'f) result" where
  "expect_ok (Ok x) = Ok x"
| "expect_ok (Err e) = Panic"
| "expect_ok Panic = Panic"
| "expect_ok Diverge = Diverge"

lemma expect_ok_Ok_iff [result_simps]: "expect_ok m = Ok x \<longleftrightarrow> m = Ok x"
  by (cases m) auto

text \<open>The walk back of \<open>for _ in 1..n\<close> in both forgers: \<open>k\<close> steps to the parent.\<close>

fun walk_back :: "keeper_view \<Rightarrow> nat \<Rightarrow> u256 \<Rightarrow> (u256, forge_error) result" where
  "walk_back rk 0 hash_cur = Ok hash_cur"
| "walk_back rk (Suc k) hash_cur =
     and_then (map_err BlockUnavailable (kv_block rk hash_cur)) (\<lambda>b. walk_back rk k (prev (header b)))"

definition set_blob :: "bin \<Rightarrow> block \<Rightarrow> block" where
  "set_blob x blk = blk\<lparr>header := (header blk)\<lparr>blob := x\<rparr>\<rparr>"

lemma set_blob_simps [simp]:
  "blob (header (set_blob x blk)) = x" "prev (header (set_blob x blk)) = prev (header blk)"
  "timestamp (header (set_blob x blk)) = timestamp (header blk)" "txns (set_blob x blk) = txns blk"
  "shard (header (set_blob x blk)) = shard (header blk)"
  by (simp_all add: set_blob_def)

section \<open>Flower picking\<close>

record flower_picking =
  fp_rate_target :: u64
  fp_recalculate_blocks :: u64

text \<open>The wait in milliseconds, from a random number; a remainder by zero is a panic.\<close>

definition gen_rand_mod :: "flower_picking \<Rightarrow> u64 \<Rightarrow> u64 \<Rightarrow> (u64, forge_error) result" where
  "gen_rand_mod self rnd diff =
     (if diff = 0 then Ok 1000
      else let m = diff * fp_rate_target self * 2 in if m = 0 then Panic else Ok (rnd mod m))"

definition fp_expected_difficulty ::
  "forge_ext \<Rightarrow> flower_picking \<Rightarrow> keeper_view \<Rightarrow> block \<Rightarrow> (u64, forge_error) result" where
  "fp_expected_difficulty F self rk blk =
     and_then (map_err HeightUnavailable (kv_height rk (prev (header blk))))
       (\<lambda>h. let height = h + 1; recalculate = fp_recalculate_blocks self in
         if recalculate = 0 then Panic
         else if height mod recalculate \<noteq> 0 then
           and_then (map_err BlockUnavailable (kv_block rk (prev (header blk))))
             (\<lambda>pb. expect_ok (de_u64 (blob (header pb))))
         else let n = (if height = recalculate then recalculate - 2 else recalculate) in
           and_then (map_err BlockUnavailable (kv_block rk (prev (header blk))))
             (\<lambda>pb. and_then (walk_back rk (unat n - 1) (prev (header blk)))
               (\<lambda>hash_cur. and_then (map_err BlockUnavailable (kv_block rk hash_cur))
                 (\<lambda>b. let actual = time_diff (timestamp (header b)) (timestamp (header pb)) in
                   and_then (expect_ok (de_u64 (blob (header pb))))
                     (\<lambda>last_diff. Ok (scale_difficulty F (fp_rate_target self) n actual last_diff))))))"

text \<open>\<open>create\<close> gives the block and the time in milliseconds after which its future is ready.\<close>

definition fp_create ::
  "forge_ext \<Rightarrow> flower_picking \<Rightarrow> keeper_view \<Rightarrow> u64 \<Rightarrow> block \<Rightarrow> (block \<times> u64, forge_error) result" where
  "fp_create F self rk rnd blk =
     and_then (fp_expected_difficulty F self rk blk)
       (\<lambda>diff. and_then (gen_rand_mod self rnd diff) (\<lambda>wait. Ok (set_blob (write_le 8 diff) blk, wait)))"

definition fp_validate ::
  "forge_ext \<Rightarrow> flower_picking \<Rightarrow> keeper_view \<Rightarrow> block \<Rightarrow> (forge_error option, forge_error) result" where
  "fp_validate F self rk blk =
     and_then (expect_ok (fp_expected_difficulty F self rk blk))
       (\<lambda>diff. case de_u64 (blob (header blk)) of
          Ok b_diff \<Rightarrow> Ok (if b_diff = diff then None else Some InvalidDifficultyBlob)
        | _ \<Rightarrow> Ok (Some InvalidDifficultyBlob))"

section \<open>Enhanced proof of stake\<close>

definition EPOS_BROADCAST_ID :: u8 where
  "EPOS_BROADCAST_ID = 0"

record epos_config =
  rate_target :: u64
  recalculate_blocks :: u64
  validators_scan :: u64
  validators_count_base :: u64
  signing_keys :: "bin list"

definition epos_config_new :: "bin list \<Rightarrow> epos_config" where
  "epos_config_new ks = \<lparr>rate_target = 12 * 1000, recalculate_blocks = 1800, validators_scan = 100,
     validators_count_base = 3, signing_keys = ks\<rparr>"

subsection \<open>Signatures in a block\<close>

text \<open>A \<open>U256\<close> is read from the first 32 bytes; longer input is accepted.\<close>

definition de_u256 :: "bin \<Rightarrow> (u256, string) result" where
  "de_u256 bs = (if 32 \<le> length bs then u256_from_little_endian bs else Err ''EndOfFileError'')"

definition decode_blob :: "forge_ext \<Rightarrow> bin \<Rightarrow> (epos_block_data, forge_error) result" where
  "decode_blob F bs = map_err (BlobUnreadable (length bs)) (de (data_codec F) bs)"

definition apply_block ::
  "'s ext \<Rightarrow> forge_ext \<Rightarrow> block \<Rightarrow> u64 \<Rightarrow> u256 \<Rightarrow> pkey \<Rightarrow> (epos_block_data \<times> block, forge_error) result" where
  "apply_block X F blk difficulty validator_info my_signer =
     and_then (if blob (header blk) \<noteq> [] then decode_blob F (blob (header blk))
               else Ok \<lparr>ed_difficulty = difficulty, ed_sigs = []\<rparr>)
       (\<lambda>data. let to_sign = u256_to_vec validator_info @ blob (header blk) in
         and_then (map_err (\<lambda>_. PublicKeyNotDer) (public_key_to_der F my_signer))
           (\<lambda>der. and_then (expect_ok (de_u256 (sign_bytes X to_sign my_signer)))
             (\<lambda>sig. let data' = data\<lparr>ed_sigs := ed_sigs data @ [(der, sig)]\<rparr> in
               Ok (data', set_blob (ser (data_codec F) data') blk))))"

fun check_sigs_loop :: "'s ext \<Rightarrow> (bin \<times> u256) list \<Rightarrow> bin \<Rightarrow> (bool, forge_error) result" where
  "check_sigs_loop X [] sig_so_far = Ok True"
| "check_sigs_loop X (s # sigs) sig_so_far =
     (case public_key_from_der X (fst s) of
        Ok k \<Rightarrow>
          and_then (verify_bytes X sig_so_far (u256_to_vec (snd s)) k)
            (\<lambda>good. if \<not> good then Ok False
               else check_sigs_loop X sigs (sig_so_far @ u256_to_vec (snd s)))
      | _ \<Rightarrow> Ok False)"

definition check_sigs :: "'s ext \<Rightarrow> epos_block_data \<Rightarrow> u256 \<Rightarrow> (bool, forge_error) result" where
  "check_sigs X self validator_info = check_sigs_loop X (ed_sigs self) (u256_to_vec validator_info)"

text \<open>The middle signature; a block with none is an index out of bounds.\<close>

definition get_relevant_validation_data :: "'s ext \<Rightarrow> epos_block_data \<Rightarrow> (u160 \<times> u256, forge_error) result" where
  "get_relevant_validation_data X self =
     (let i = length (ed_sigs self) div 2 in
      if i < length (ed_sigs self) then Ok (hash_pub_key X (fst (ed_sigs self ! i)), snd (ed_sigs self ! i)) else Panic)"

definition decode_relevant_validation_data ::
  "'s ext \<Rightarrow> forge_ext \<Rightarrow> block_header \<Rightarrow> (u160 \<times> u256, forge_error) result" where
  "decode_relevant_validation_data X F hdr =
     and_then (decode_blob F (blob hdr)) (get_relevant_validation_data X)"

definition genesis_block_data :: epos_block_data where
  "genesis_block_data = \<lparr>ed_difficulty = 1, ed_sigs = []\<rparr>"

subsection \<open>Waiting times and targets\<close>

text \<open>How long to wait for a block, in milliseconds; divisions by zero are panics.\<close>

definition gen_wait :: "epos_config \<Rightarrow> u64 \<Rightarrow> u64 \<Rightarrow> u64 \<Rightarrow> u64 \<Rightarrow> (u64, forge_error) result" where
  "gen_wait cfg diff stake target actual =
     (if stake = 0 then Ok (- 1)
      else let delta = min (target - actual) (actual - target) in
        if diff + 1 = 0 \<or> rate_target cfg = 0 then Panic
        else let range = (- 1) div (diff + 1) div rate_target cfg in
          if range = 0 then Panic else Ok (delta div range div stake))"

fun scan_headers :: "keeper_view \<Rightarrow> nat \<Rightarrow> u256 \<Rightarrow> block_header list \<Rightarrow> (block_header list, forge_error) result" where
  "scan_headers rk 0 p blocks = Ok blocks"
| "scan_headers rk (Suc k) p blocks =
     and_then (map_err BlockUnavailable (kv_header rk p))
       (\<lambda>b. if prev b = U256_ZERO then Ok blocks else scan_headers rk k (prev b) (blocks @ [b]))"

definition calculate_validator_info ::
  "'s ext \<Rightarrow> forge_ext \<Rightarrow> epos_config \<Rightarrow> keeper_view \<Rightarrow> u256 \<Rightarrow> (u256 \<times> u64, forge_error) result" where
  "calculate_validator_info X F cfg rk p =
     and_then (scan_headers rk (unat (validators_scan cfg)) p [])
       (\<lambda>blocks. and_then (map_results (decode_relevant_validation_data X F) blocks)
         (\<lambda>vs. let target = hash_bytes X (concat (map (\<lambda>(_, sig). rev (u256_to_vec sig)) vs));
                validators = card (fst ` set vs)
            in Ok (target, max (log_trunc F (max validators 1) (validators_count_base cfg)) 1)))"

definition epos_expected_difficulty ::
  "forge_ext \<Rightarrow> epos_config \<Rightarrow> keeper_view \<Rightarrow> block \<Rightarrow> (u64, forge_error) result" where
  "epos_expected_difficulty F cfg rk blk =
     and_then (map_err HeightUnavailable (kv_height rk (prev (header blk))))
       (\<lambda>h. let height = h + 1; recalculate = recalculate_blocks cfg in
         if recalculate = 0 then Panic
         else if height mod recalculate \<noteq> 0 then
           if height < recalculate then Ok 1
           else and_then (map_err BlockUnavailable (kv_block rk (prev (header blk))))
             (\<lambda>pb. and_then (expect_ok (de (data_codec F) (blob (header pb)))) (\<lambda>d. Ok (ed_difficulty d)))
         else let n = (if height = recalculate then recalculate - 2 else recalculate) in
           and_then (map_err BlockUnavailable (kv_block rk (prev (header blk))))
             (\<lambda>pb. and_then (walk_back rk (unat n - 1) (prev (header blk)))
               (\<lambda>hash_cur. let expected = rate_target cfg * n in
                 and_then (map_err BlockUnavailable (kv_block rk hash_cur))
                   (\<lambda>b. let actual = time_diff (timestamp (header b)) (timestamp (header pb)) in
                     and_then (expect_ok (de (data_codec F) (blob (header pb))))
                       (\<lambda>d. if actual = 0 then Panic else Ok (expected * ed_difficulty d div actual))))))"

subsection \<open>The forger\<close>

datatype forge_msg =
    RegisterBroadcastReceiver u8
  | SendBroadcast u256 u8 bin

text \<open>
  The state behind the locks: the best block so far with the signatures it needs and the time to
  send it, and the request that waits for a block (a oneshot channel, here its number). What the
  forger does to its environment is collected: the blocks handed to requests, the requests dropped
  for a newer one, the messages to the network and the timers that will call \<open>propagate_block\<close>.
\<close>

record epos =
  ep_keys :: "(u160 \<times> pkey) list"
  ep_config :: epos_config
  best_block :: "(u64 \<times> block \<times> u64) option"
  on_block :: "nat option"
  ep_requests :: nat
  ep_forged :: "(nat \<times> block) list"
  ep_cancelled :: "nat list"
  net_open :: bool
  net_sent :: "forge_msg list"
  ep_timers :: "u64 list"

definition epos_new :: "'s ext \<Rightarrow> forge_ext \<Rightarrow> bool \<Rightarrow> epos_config \<Rightarrow> (epos, forge_error) result" where
  "epos_new X F net_up config =
     and_then (map_results
         (\<lambda>raw. and_then (map_err PrivateKeyUnreadable (private_key_from_der F raw))
           (\<lambda>k. and_then (expect_ok (public_key_to_der F k)) (\<lambda>d. Ok (hash_pub_key X d, k))))
         (signing_keys config))
       (\<lambda>keys. if \<not> net_up then Panic
          else Ok \<lparr>ep_keys = keys, ep_config = config, best_block = None, on_block = None, ep_requests = 0,
            ep_forged = [], ep_cancelled = [], net_open = net_up,
            net_sent = [RegisterBroadcastReceiver EPOS_BROADCAST_ID], ep_timers = []\<rparr>)"

definition net_send :: "forge_msg \<Rightarrow> (epos, unit, forge_error) action" where
  "net_send m self = (if net_open self then (Ok (), self\<lparr>net_sent := net_sent self @ [m]\<rparr>) else (Panic, self))"

definition propagate_block :: "forge_ext \<Rightarrow> time \<Rightarrow> (epos, unit, forge_error) action" where
  "propagate_block F now self =
     (case best_block self of
        None \<Rightarrow> (Ok (), self\<lparr>best_block := None\<rparr>)
      | Some (req_validators, blk, propagate_at) \<Rightarrow>
          if now + 10 < propagate_at then (Ok (), self)
          else bind_st (read_st (\<lambda>_. expect_ok (de (data_codec F) (blob (header blk)))))
            (\<lambda>data. bind_st
              (if length (ed_sigs data) < unat req_validators
               then net_send (SendBroadcast (shard (header blk)) EPOS_BROADCAST_ID (ser (block_codec F) blk))
               else (\<lambda>self. (Ok (),
                 (case on_block self of
                    Some i \<Rightarrow> self\<lparr>ep_forged := ep_forged self @ [(i, blk)], on_block := None\<rparr>
                  | None \<Rightarrow> self))))
              (\<lambda>_ self. (Ok (), self\<lparr>best_block := None\<rparr>))) self)"

text \<open>The key that finds the block first; an error ends the search.\<close>

fun best_key ::
  "'s ext \<Rightarrow> forge_ext \<Rightarrow> epos_config \<Rightarrow> keeper_view \<Rightarrow> u64 \<Rightarrow> u256 \<Rightarrow> block \<Rightarrow> (u160 \<times> pkey) list \<Rightarrow>
   (block \<times> u64) option \<Rightarrow> ((block \<times> u64) option, forge_error) result" where
  "best_key X F cfg rk exp_diff target blk [] cur_best = Ok cur_best"
| "best_key X F cfg rk exp_diff target blk ((key_id, key) # keys) cur_best =
     and_then (map_err (\<lambda>_. BalanceUnavailable key_id) (kv_stake rk key_id))
       (\<lambda>stake. if stake = 0 then best_key X F cfg rk exp_diff target blk keys cur_best
         else and_then (apply_block X F blk exp_diff target key)
           (\<lambda>(data, key_block). and_then (get_relevant_validation_data X data)
             (\<lambda>(_, actual). and_then (gen_wait cfg exp_diff stake (u256_into_u64 target) (u256_into_u64 actual))
               (\<lambda>w. best_key X F cfg rk exp_diff target blk keys
                 (case cur_best of
                    Some (b, w0) \<Rightarrow> if w < w0 then Some (key_block, w) else cur_best
                  | None \<Rightarrow> Some (key_block, w))))))"

text \<open>The wait is at least 10 milliseconds, as a signed number.\<close>

definition schedule :: "time \<Rightarrow> u64 \<Rightarrow> block \<Rightarrow> u64 \<Rightarrow> epos \<Rightarrow> epos" where
  "schedule now req_validators blk disp self =
     (let thewait = (if 10 \<le> sint (disp - now) then disp - now else 10) in
      self\<lparr>best_block := Some (req_validators, blk, disp), ep_timers := ep_timers self @ [thewait]\<rparr>)"

definition offer_block ::
  "keeper_view \<Rightarrow> time \<Rightarrow> block \<Rightarrow> u64 \<Rightarrow> block \<times> u64 \<Rightarrow> (epos, unit, forge_error) action" where
  "offer_block rk now blk req_validators best self =
     (let disp = timestamp (header blk) + snd best in
      case best_block self of
        None \<Rightarrow> (Ok (), schedule now req_validators (fst best) disp self)
      | Some (old_validators, old_block, _) \<Rightarrow>
          bind_st (read_st (\<lambda>_. expect_ok (kv_height rk (prev (header blk)))))
            (\<lambda>new_height. bind_st (read_st (\<lambda>_. expect_ok (kv_height rk (prev (header old_block)))))
              (\<lambda>old_height self.
                if old_height < new_height \<or> disp < old_validators
                then (Ok (), schedule now req_validators (fst best) disp self) else (Ok (), self))) self)"

text \<open>The block to sign: the blob gets the difficulty, or has the difficulty that is expected.\<close>

definition block_to_sign :: "forge_ext \<Rightarrow> u64 \<Rightarrow> block \<Rightarrow> (block, forge_error) result" where
  "block_to_sign F exp_diff blk =
     (if blob (header blk) = [] then Ok (set_blob (ser (data_codec F) \<lparr>ed_difficulty = exp_diff, ed_sigs = []\<rparr>) blk)
      else and_then (decode_blob F (blob (header blk)))
        (\<lambda>cur. if ed_difficulty cur \<noteq> exp_diff then Err DifficultyInvalid else Ok blk))"

definition find_candidate ::
  "'s ext \<Rightarrow> forge_ext \<Rightarrow> epos \<Rightarrow> keeper_view \<Rightarrow> block \<Rightarrow> (u64 \<times> (block \<times> u64) option, forge_error) result" where
  "find_candidate X F self rk blk =
     and_then (calculate_validator_info X F (ep_config self) rk (prev (header blk)))
       (\<lambda>(target, req_validators). and_then (epos_expected_difficulty F (ep_config self) rk blk)
         (\<lambda>exp_diff. and_then (block_to_sign F exp_diff blk)
           (\<lambda>blk. and_then (best_key X F (ep_config self) rk exp_diff target blk (ep_keys self) None)
             (\<lambda>best. Ok (req_validators, best)))))"

text \<open>\<open>evaluate_block\<close>: every error is logged and answered with \<open>false\<close>.\<close>

definition evaluate_block ::
  "'s ext \<Rightarrow> forge_ext \<Rightarrow> keeper_view \<Rightarrow> time \<Rightarrow> block \<Rightarrow> (epos, bool, forge_error) action" where
  "evaluate_block X F rk now blk self =
     (case find_candidate X F self rk blk of
        Ok (req_validators, Some best) \<Rightarrow>
          bind_st (offer_block rk now blk req_validators best) (\<lambda>_. return_st True) self
      | Ok (_, None) \<Rightarrow> (Ok True, self)
      | Err e \<Rightarrow> (Ok False, self)
      | Panic \<Rightarrow> (Panic, self)
      | Diverge \<Rightarrow> (Diverge, self))"

text \<open>\<open>create\<close> gives the number of the request; the request before it, if it still waits, is cancelled.\<close>

definition epos_create ::
  "'s ext \<Rightarrow> forge_ext \<Rightarrow> keeper_view \<Rightarrow> time \<Rightarrow> block \<Rightarrow> (epos, nat, forge_error) action" where
  "epos_create X F rk now blk self =
     (let i = ep_requests self;
          self = self\<lparr>ep_cancelled := ep_cancelled self @ (case on_block self of Some j \<Rightarrow> [j] | None \<Rightarrow> []),
            on_block := Some i, ep_requests := i + 1\<rparr>
      in bind_st (evaluate_block X F rk now blk) (\<lambda>_. return_st i) self)"

definition receive_broadcast ::
  "'s ext \<Rightarrow> forge_ext \<Rightarrow> keeper_view \<Rightarrow> time \<Rightarrow> u256 \<Rightarrow> bin \<Rightarrow> (epos, bool, forge_error) action" where
  "receive_broadcast X F rk now network_id payload self =
     (case de (block_codec F) payload of
        Ok blk \<Rightarrow> bind_st (evaluate_block X F rk now blk) (\<lambda>_. return_st False) self
      | _ \<Rightarrow> (Ok False, self))"

subsection \<open>Validation\<close>

fun total_wait ::
  "'s ext \<Rightarrow> epos_config \<Rightarrow> keeper_view \<Rightarrow> u64 \<Rightarrow> u256 \<Rightarrow> (bin \<times> u256) list \<Rightarrow> u64 \<Rightarrow> (u64, forge_error) result" where
  "total_wait X cfg rk diff target [] wait = Ok wait"
| "total_wait X cfg rk diff target (s # sigs) wait =
     and_then (map_err (\<lambda>_. BalanceUnavailable (hash_pub_key X (fst s))) (kv_stake rk (hash_pub_key X (fst s))))
       (\<lambda>stake. and_then (gen_wait cfg diff stake (u256_into_u64 target) (u256_into_u64 (snd s)))
         (\<lambda>w. total_wait X cfg rk diff target sigs (wait + w)))"

definition epos_check ::
  "'s ext \<Rightarrow> forge_ext \<Rightarrow> epos_config \<Rightarrow> keeper_view \<Rightarrow> time \<Rightarrow> block \<Rightarrow> (unit, forge_error) result" where
  "epos_check X F cfg rk now blk =
     and_then (expect_ok (epos_expected_difficulty F cfg rk blk))
       (\<lambda>diff. and_then (map_err ValidatorInfoFailed (calculate_validator_info X F cfg rk (prev (header blk))))
         (\<lambda>(target, req_validators).
           and_then (case de (data_codec F) (blob (header blk)) of Ok d \<Rightarrow> Ok d | _ \<Rightarrow> Err BlobDecodeError)
             (\<lambda>data. if ed_difficulty data \<noteq> diff then Err DifficultyInvalid
               else if (of_nat (length (ed_sigs data)) :: u64) \<noteq> req_validators then Err SignatureCountMismatch
               else and_then (check_sigs X data target)
                 (\<lambda>good. if \<not> good then Err SignaturesDoNotLineUp
                   else and_then (total_wait X cfg rk diff target (ed_sigs data) 0)
                     (\<lambda>wait. and_then (map_err HeaderUnavailable (kv_header rk (prev (header blk))))
                       (\<lambda>prev_block. if timestamp (header blk) \<noteq> timestamp prev_block + wait then Err TimestampsDoNotMatch
                         else if time_less now (timestamp (header blk)) then Err SubmittedTooEarly
                         else Ok ()))))))"

definition epos_validate ::
  "'s ext \<Rightarrow> forge_ext \<Rightarrow> epos_config \<Rightarrow> keeper_view \<Rightarrow> time \<Rightarrow> block \<Rightarrow> (forge_error option, forge_error) result" where
  "epos_validate X F cfg rk now blk =
     (case epos_check X F cfg rk now blk of
        Ok _ \<Rightarrow> Ok None | Err e \<Rightarrow> Ok (Some e) | Panic \<Rightarrow> Panic | Diverge \<Rightarrow> Diverge)"

end
