(* ===== verification/Forging_Facts.thy ===== *)
theory Forging_Facts
  imports Forging
begin

text \<open>
  What the forgers do on a chain that a record keeper keeps: the walk back of a retarget stays in
  the chain and the difficulty is the stated quotient, the wait of a validator is the distance of
  its signature from the target, scaled, every request for a block is settled at most once, and a
  candidate whose time has come reaches the request. The validation of \<open>EPoS\<close> accepts no block.
\<close>

section \<open>Flower picking\<close>

lemma fp_difficulty_prev:
  "prev (header a) = prev (header b) \<Longrightarrow> fp_expected_difficulty F self rk a = fp_expected_difficulty F self rk b"
  by (simp only: fp_expected_difficulty_def)

text \<open>
  C30: a block that \<open>FlowerPicking\<close> creates validates on the same chain, differs from the given one
  in its blob only, and waits less than twice the target rate times its difficulty (one second when
  the difficulty is 0).
\<close>

theorem flower_block_validates:
  assumes "fp_create F self rk rnd blk = Ok (blk', wait)"
  shows "fp_validate F self rk blk' = Ok None \<and> set_blob (blob (header blk)) blk' = blk \<and>
    (\<exists>diff. fp_expected_difficulty F self rk blk = Ok diff \<and>
      (if diff = 0 then wait = 1000 else wait < diff * fp_rate_target self * 2))"
proof -
  obtain diff where d: "fp_expected_difficulty F self rk blk = Ok diff" "gen_rand_mod self rnd diff = Ok wait"
    "blk' = set_blob (write_le 8 diff) blk"
    using assms by (auto simp: fp_create_def result_simps)
  have "fp_expected_difficulty F self rk blk' = Ok diff"
    using d(1) fp_difficulty_prev [of blk' blk] by (simp add: d(3))
  then have "fp_validate F self rk blk' = Ok None" by (simp add: fp_validate_def d(3))
  moreover have "set_blob (blob (header blk)) blk' = blk" by (simp add: d(3) set_blob_def)
  moreover have "if diff = 0 then wait = 1000 else wait < diff * fp_rate_target self * 2"
    using d(2) by (auto simp: gen_rand_mod_def Let_def word_gt_0 intro!: word_mod_less_divisor split: if_splits)
  ultimately show ?thesis using d(1) by blast
qed

section \<open>The difficulty\<close>

lemma walk_back_ancestor:
  assumes "view_node V h" "k < view_ht V h"
  shows "walk_back V k h = Ok ((view_parent V ^^ k) h)"
  using assms
proof (induction k arbitrary: h)
  case (Suc k)
  then have "h \<noteq> U256_ZERO" using vt.ht_root by fastforce
  then obtain b where b: "kv_block V h = Ok b" "prev (header b) = view_parent V h"
    using node_block [OF Suc.prems(1)] by blast
  have "view_ht V h = Suc (view_ht V (view_parent V h))" using vt.ht_up [OF Suc.prems(1) \<open>h \<noteq> U256_ZERO\<close>] .
  then have "walk_back V k (view_parent V h) = Ok ((view_parent V ^^ k) (view_parent V h))"
    using Suc.IH [OF vt.node_up [OF Suc.prems(1)]] Suc.prems(2) by simp
  then show ?case using b by (simp add: funpow_swap1)
qed simp

text \<open>The number of blocks in the window of a retarget at a height, and the height of its first block.\<close>

definition window :: "u64 \<Rightarrow> u64 \<Rightarrow> u64" where
  "window recalculate height = (if height = recalculate then recalculate - 2 else recalculate)"

lemma window_size:
  assumes "3 \<le> r" "height mod r = 0" "height \<noteq> 0"
  shows "unat (window r height) = (if height = r then unat r - 2 else unat r)"
    "0 < unat (window r height)" "unat (window r height) + 1 < unat height"
    "unat height - unat (window r height) = (if height = r then 2 else unat height - unat r)"
proof -
  have r: "3 \<le> unat r" using assms(1) by (simp add: word_le_nat_alt)
  show w: "unat (window r height) = (if height = r then unat r - 2 else unat r)"
    using r unat_sub_of_nat [of 2 r] by (simp add: window_def)
  then show "0 < unat (window r height)" using r by simp
  show "unat height - unat (window r height) = (if height = r then 2 else unat height - unat r)"
    using w r by simp
  have "unat height mod unat r = 0" using assms(2) by (metis unat_0 unat_mod)
  then obtain q where q: "unat height = q * unat r" using mod_0_imp_dvd by (metis dvd_def mult.commute)
  have "q \<noteq> 0" using q assms(3) by (metis mult_zero_left unat_eq_zero)
  moreover have "2 \<le> q" if "height \<noteq> r" using that q calculation by (cases "q = 1") (auto simp: word_unat_eq_iff)
  ultimately show "unat (window r height) + 1 < unat height"
  proof (cases "height = r")
    case False
    then have "2 * unat r \<le> unat height" using \<open>height \<noteq> r \<Longrightarrow> 2 \<le> q\<close> q by simp
    then show ?thesis using w r False by simp
  qed (use w r in simp)
qed

context chain_keeper
begin

text \<open>The walk back of a retarget stays in the chain and never comes to the genesis block.\<close>

lemma retarget_window:
  assumes "ok k" "kv_height (view k) p = Ok h" "3 \<le> r" "(h + 1) mod r = 0" "h \<noteq> - 1"
  shows "\<exists>pb b start. kv_block (view k) p = Ok pb \<and> walk_back (view k) (unat (window r (h + 1)) - 1) p = Ok start \<and>
    kv_block (view k) start = Ok b \<and> start = (view_parent (view k) ^^ (unat (window r (h + 1)) - 1)) p \<and>
    view_ht (view k) start = (if h + 1 = r then 2 else unat (h + 1) - unat r)"
proof -
  let ?V = "view k" and ?n = "unat (window r (h + 1))"
  let ?s = "(view_parent ?V ^^ (?n - 1)) p"
  have nz: "h + 1 \<noteq> 0" using assms(5) by (metis add_eq_0_iff2)
  have h1: "unat (h + 1) = Suc (unat h)" using nz by (metis unatSuc add.commute)
  note w = window_size [OF assms(3,4) nz]
  note kn = known_node [OF ok_view [OF assms(1)] assms(2)]
  have lt: "?n - 1 < view_ht ?V p" using w(2,3) h1 kn(3) by simp
  have s: "view_node ?V ?s" by (rule vt.node_anc [OF kn(1)])
  have "?s \<noteq> U256_ZERO" using vt.anc_is_root [OF kn(1)] lt by (metis linorder_not_less)
  then obtain b where "kv_block ?V ?s = Ok b" using node_block [OF s] by blast
  moreover obtain pb where "kv_block ?V p = Ok pb" using node_block [OF kn(1,2)] by blast
  moreover have "view_ht ?V ?s = unat h - (?n - 1)" using vt.ht_anc [OF kn(1)] kn(3) by simp
  then have "view_ht ?V ?s = (if h + 1 = r then 2 else unat (h + 1) - unat r)" using w(2,3,4) h1 by simp
  ultimately show ?thesis using walk_back_ancestor [OF kn(1) lt] by blast
qed

lemma epos_retarget:
  assumes "ok k" "kv_height (view k) (prev (header blk)) = Ok h" "h \<noteq> - 1"
    and "3 \<le> recalculate_blocks cfg" "(h + 1) mod recalculate_blocks cfg = 0"
  defines "n \<equiv> window (recalculate_blocks cfg) (h + 1)"
  shows "\<exists>pb b start. kv_block (view k) (prev (header blk)) = Ok pb \<and> kv_block (view k) start = Ok b \<and>
    start = (view_parent (view k) ^^ (unat n - 1)) (prev (header blk)) \<and>
    view_ht (view k) start = (if h + 1 = recalculate_blocks cfg then 2 else unat (h + 1) - unat (recalculate_blocks cfg)) \<and>
    epos_expected_difficulty F cfg (view k) blk =
      and_then (expect_ok (de (data_codec F) (blob (header pb))))
        (\<lambda>d. if timestamp (header pb) = timestamp (header b) then Panic
          else Ok (rate_target cfg * n * ed_difficulty d div (timestamp (header pb) - timestamp (header b))))"
proof -
  obtain pb b start where w: "kv_block (view k) (prev (header blk)) = Ok pb"
    "walk_back (view k) (unat n - 1) (prev (header blk)) = Ok start" "kv_block (view k) start = Ok b"
    "start = (view_parent (view k) ^^ (unat n - 1)) (prev (header blk))"
    "view_ht (view k) start = (if h + 1 = recalculate_blocks cfg then 2 else unat (h + 1) - unat (recalculate_blocks cfg))"
    using retarget_window [OF assms(1,2,4,5,3)] unfolding n_def by blast
  have r: "recalculate_blocks cfg \<noteq> 0" using assms(4) by (auto simp: word_le_nat_alt)
  have n: "(if h + 1 = recalculate_blocks cfg then recalculate_blocks cfg - 2 else recalculate_blocks cfg) = n"
    by (simp add: n_def window_def)
  have e: "timestamp (header pb) - timestamp (header b) = 0 \<longleftrightarrow> timestamp (header pb) = timestamp (header b)" by auto
  have "epos_expected_difficulty F cfg (view k) blk =
      and_then (expect_ok (de (data_codec F) (blob (header pb))))
        (\<lambda>d. if timestamp (header pb) = timestamp (header b) then Panic
          else Ok (rate_target cfg * n * ed_difficulty d div (timestamp (header pb) - timestamp (header b))))"
    unfolding epos_expected_difficulty_def
    using assms(2,5) r w(1,2,3) by (simp add: Let_def n e time_diff_def from_milliseconds_def)
  then show ?thesis using w by blast
qed

lemma fp_retarget:
  assumes "ok k" "kv_height (view k) (prev (header blk)) = Ok h" "h \<noteq> - 1"
    and "3 \<le> fp_recalculate_blocks self" "(h + 1) mod fp_recalculate_blocks self = 0"
  shows "\<exists>pb actual. kv_block (view k) (prev (header blk)) = Ok pb \<and>
    fp_expected_difficulty F self (view k) blk = and_then (expect_ok (de_u64 (blob (header pb))))
      (\<lambda>d. Ok (scale_difficulty F (fp_rate_target self) (window (fp_recalculate_blocks self) (h + 1)) actual d))"
proof -
  let ?n = "window (fp_recalculate_blocks self) (h + 1)"
  obtain pb b start where w: "kv_block (view k) (prev (header blk)) = Ok pb"
    "walk_back (view k) (unat ?n - 1) (prev (header blk)) = Ok start" "kv_block (view k) start = Ok b"
    using retarget_window [OF assms(1,2,4,5,3)] by blast
  have r: "fp_recalculate_blocks self \<noteq> 0" using assms(4) by (auto simp: word_le_nat_alt)
  show ?thesis
    unfolding fp_expected_difficulty_def using assms(2,5) r w
    by (auto simp: Let_def window_def split: if_splits)
qed

end

text \<open>
  C13: at a height that is a multiple of \<open>recalculate_blocks\<close> (at least 3), \<open>EPoS\<close> computes the difficulty
  of a block on a chain of the record keeper without an error: the walk back ends at the block of
  height 2 the first time and \<open>recalculate_blocks\<close> below the new block later, never at the genesis
  block, and the result is the expected time times the last difficulty, divided by the time that
  passed in the window. Equal times, or a parent without readable data, are a panic.
\<close>

theorem epos_retarget_exact:
  assumes "keeper_ok X content rk" "rk_get_block_height X rk (prev (header blk)) = Ok h" "h \<noteq> - 1"
    and "3 \<le> recalculate_blocks cfg" "(h + 1) mod recalculate_blocks cfg = 0"
  shows "\<exists>pb b start. rk_get_block X rk (prev (header blk)) = Ok pb \<and> rk_get_block X rk start = Ok b \<and>
    start = (view_parent (rk_view X rk) ^^ (unat (window (recalculate_blocks cfg) (h + 1)) - 1)) (prev (header blk)) \<and>
    block_ht X (rk_db rk) start =
      (if h + 1 = recalculate_blocks cfg then 2 else unat (h + 1) - unat (recalculate_blocks cfg)) \<and>
    epos_expected_difficulty F cfg (rk_view X rk) blk =
      and_then (expect_ok (de (data_codec F) (blob (header pb))))
        (\<lambda>d. if timestamp (header pb) = timestamp (header b) then Panic
          else Ok (rate_target cfg * window (recalculate_blocks cfg) (h + 1) * ed_difficulty d div
            (timestamp (header pb) - timestamp (header b))))"
proof -
  have v: "kv_height (rk_view X rk) x = rk_get_block_height X rk x" "kv_block (rk_view X rk) x = rk_get_block X rk x" for x
    by (simp_all add: rk_view_def)
  have ht: "view_ht (rk_view X rk) start = block_ht X (rk_db rk) start" if b: "kv_block (rk_view X rk) start = Ok b" for start b
  proof -
    obtain n where "kv_height (rk_view X rk) start = Ok n" using view_okD(5) [OF rk_view_ok [OF assms(1)] b] by blast
    then show ?thesis by (rule rk_view_ht(1) [OF assms(1)])
  qed
  obtain pb b start where w: "kv_block (rk_view X rk) (prev (header blk)) = Ok pb" "kv_block (rk_view X rk) start = Ok b"
    "start = (view_parent (rk_view X rk) ^^ (unat (window (recalculate_blocks cfg) (h + 1)) - 1)) (prev (header blk))"
    "view_ht (rk_view X rk) start = (if h + 1 = recalculate_blocks cfg then 2 else unat (h + 1) - unat (recalculate_blocks cfg))"
    "epos_expected_difficulty F cfg (rk_view X rk) blk =
      and_then (expect_ok (de (data_codec F) (blob (header pb))))
        (\<lambda>d. if timestamp (header pb) = timestamp (header b) then Panic
          else Ok (rate_target cfg * window (recalculate_blocks cfg) (h + 1) * ed_difficulty d div
            (timestamp (header pb) - timestamp (header b))))"
    using rkc.epos_retarget [OF assms(1) _ assms(3-5), of blk F, unfolded v] assms(2) unfolding v by blast
  then show ?thesis using ht [OF w(2)] unfolding v by (metis (no_types, lifting))
qed

section \<open>The wait\<close>

text \<open>The distance of two numbers on the circle of the 64-bit numbers.\<close>

definition circle_gap :: "u64 \<Rightarrow> u64 \<Rightarrow> nat" where
  "circle_gap a b = (let g = (if unat a \<le> unat b then unat b - unat a else unat a - unat b) in min g (2 ^ 64 - g))"

lemma circle_gap_word: "unat (min (a - b) (b - a)) = circle_gap a b"
proof -
  have 1: "unat (x - y) = (if unat y \<le> unat x then unat x - unat y else 2 ^ 64 - (unat y - unat x))" for x y :: u64
    using unat_less_2p64 [of x] unat_less_2p64 [of y] by (simp add: unat_sub_if', linarith)
  have "unat (min (a - b) (b - a)) = min (unat (a - b)) (unat (b - a))"
    by (simp add: min_def word_le_nat_alt)
  then show ?thesis unfolding 1 using unat_less_2p64 [of a] unat_less_2p64 [of b]
    by (simp add: circle_gap_def Let_def min_def)
qed

lemma circle_gap_half: "circle_gap a b \<le> 2 ^ 63"
proof -
  have "min g (2 ^ 64 - g) \<le> (2 ^ 63 :: nat)" for g by (simp add: min_def, linarith)
  then show ?thesis unfolding circle_gap_def Let_def .
qed

lemma gap_scaled:
  assumes "0 < m" "m \<le> 2 ^ 64 - 1" "g \<le> 2 ^ 63"
  shows "g div ((2 ^ 64 - 1) div m) \<le> (m :: nat)"
proof -
  let ?r = "(2 ^ 64 - 1) div m"
  have r: "0 < ?r" using assms by (simp add: div_greater_zero_iff)
  have d: "?r * m + (2 ^ 64 - 1) mod m = 2 ^ 64 - (1 :: nat)" by simp
  have l: "(2 ^ 64 - 1) mod m < m" using assms(1) by simp
  have "2 ^ 63 \<le> m * ?r"
  proof (cases "m \<le> 2 ^ 63")
    case False
    moreover have "m * 1 \<le> m * ?r" using r by (intro mult_le_mono2) simp
    ultimately show ?thesis by linarith
  next
    case True
    have "2 ^ 63 \<le> p" if "p + s = 2 ^ 64 - 1" "s < m" for p s :: nat using that True by simp
    from this [OF d l] show ?thesis by (simp only: mult.commute)
  qed
  then have "g \<le> m * ?r" using assms(3) by simp
  then have "g div ?r \<le> m * ?r div ?r" by (rule div_le_mono)
  then show ?thesis using r by simp
qed

text \<open>
  C18: the wait of a validator is exactly the distance of its signature from the target on the circle
  of 64-bit numbers, in units of which \<open>(difficulty + 1) * rate_target\<close> make the whole circle, divided by
  its stake; so nobody with a stake waits longer than \<open>(difficulty + 1) * rate_target\<close> milliseconds. It is
  a panic exactly when that product is zero or does not fit in 64 bits, and a validator without a
  stake waits for ever.
\<close>

theorem gen_wait_exact:
  "gen_wait cfg diff stake target actual =
    (if stake = 0 then Ok (- 1)
     else if rate_target cfg = 0 \<or> 2 ^ 64 - 1 < (unat diff + 1) * unat (rate_target cfg) then Panic
     else Ok (of_nat (circle_gap target actual div
       ((2 ^ 64 - 1) div ((unat diff + 1) * unat (rate_target cfg))) div unat stake))) \<and>
   (stake \<noteq> 0 \<longrightarrow> gen_wait cfg diff stake target actual = Ok w \<longrightarrow>
     unat w * unat stake \<le> (unat diff + 1) * unat (rate_target cfg))"
proof -
  let ?m = "(unat diff + 1) * unat (rate_target cfg)" and ?N = "2 ^ 64 - 1 :: nat"
  let ?q = "circle_gap target actual div (?N div ?m) div unat stake"
  have N: "unat (- 1 :: u64) = ?N" by (simp add: unsigned_minus_1_eq_mask mask_eq_exp_minus_1)
  have inverse: "x = of_nat q" if "unat x = q" for x :: u64 and q using that by auto
  have d1: "unat (diff + 1) = unat diff + 1" if "diff + 1 \<noteq> 0"
    using that by (metis unatSuc add.commute Suc_eq_plus1)
  have z: "unat diff + 1 = 2 ^ 64" if "diff + 1 = 0"
  proof -
    have "diff = - 1" using that by (metis add_eq_0_iff2)
    then show ?thesis using N by simp
  qed
  have range: "unat ((- 1) div (diff + 1) div rate_target cfg) = ?N div ?m" if "diff + 1 \<noteq> 0"
    unfolding unat_div d1 [OF that] N div_mult2_eq ..
  have eq: "gen_wait cfg diff stake target actual =
    (if stake = 0 then Ok (- 1) else if rate_target cfg = 0 \<or> ?N < ?m then Panic else Ok (of_nat ?q))"
  proof (cases "stake = 0 \<or> rate_target cfg = 0")
    case False
    then have rt: "0 < unat (rate_target cfg)" by (simp add: unat_gt_0)
    show ?thesis
    proof (cases "diff + 1 = 0")
      case True
      have "?N < 2 ^ 64 * unat (rate_target cfg)" using rt by (cases "unat (rate_target cfg)") auto
      then show ?thesis using False True z [OF True] by (simp add: gen_wait_def)
    next
      case d: False
      have r0: "(- 1) div (diff + 1) div rate_target cfg = 0 \<longleftrightarrow> ?N < ?m"
        using range [OF d] rt by (simp add: word_unat_eq_iff div_eq_0_iff)
      have "unat (min (target - actual) (actual - target) div ((- 1) div (diff + 1) div rate_target cfg) div stake) = ?q"
        unfolding unat_div circle_gap_word d1 [OF d] N div_mult2_eq ..
      then have "min (target - actual) (actual - target) div ((- 1) div (diff + 1) div rate_target cfg) div stake = of_nat ?q"
        by (rule inverse)
      then show ?thesis using False d r0 by (simp add: gen_wait_def Let_def)
    qed
  qed (auto simp: gen_wait_def Let_def)
  moreover have "unat w * unat stake \<le> ?m" if s: "stake \<noteq> 0" "gen_wait cfg diff stake target actual = Ok w"
  proof -
    have c: "rate_target cfg \<noteq> 0" "?m \<le> ?N" "w = of_nat ?q" using eq s by (auto split: if_splits)
    have "0 < ?m" using c(1) by (simp add: unat_gt_0)
    from gap_scaled [OF this c(2) circle_gap_half [of target actual]]
    have g: "circle_gap target actual div (?N div ?m) \<le> ?m" .
    have "?q \<le> ?m" using g div_le_dividend le_trans by blast
    then have "?q \<le> ?N" using c(2) by (rule le_trans)
    moreover have "?N < 2 ^ 64" by simp
    ultimately have "?q < 2 ^ 64" by (rule le_less_trans)
    then have w: "unat w = ?q" unfolding c(3) by (rule unat_of_nat_u64)
    have "?q * unat stake \<le> circle_gap target actual div (?N div ?m)" by (rule div_times_less_eq_dividend)
    then show ?thesis unfolding w using g by (rule le_trans)
  qed
  ultimately show ?thesis by blast
qed

section \<open>Validation\<close>

lemma check_sigs_32:
  assumes "\<forall>k m s. rsa_verify X k m s = Some True \<longrightarrow> length s = 256" "sigs \<noteq> []"
  shows "check_sigs_loop X sigs m \<noteq> Ok True"
proof -
  obtain s sigs' where s: "sigs = s # sigs'" using assms(2) by (cases sigs) auto
  have "rsa_verify X k m (u256_to_vec (snd s)) \<noteq> Some True" for k
    using assms(1) length_u256_to_vec [of "snd s"] by fastforce
  then show ?thesis
    by (auto simp: s verify_bytes_def result_simps split: result.splits if_splits)
qed

text \<open>
  C21: with RSA keys of the size that \<open>signer.rs\<close> makes (2048 bits, so only signatures of 256 bytes verify),
  the validation of \<open>EPoS\<close> accepts no block at all: a signature is stored as a 256-bit number, of
  which 32 bytes are left to verify, and at least one signature is required.
\<close>

theorem epos_accepts_no_block:
  assumes "\<forall>k m s. rsa_verify X k m s = Some True \<longrightarrow> length s = 256"
  shows "epos_validate X F cfg rk now blk \<noteq> Ok None"
proof
  assume "epos_validate X F cfg rk now blk = Ok None"
  then have "epos_check X F cfg rk now blk = Ok ()"
    by (auto simp: epos_validate_def split: result.splits)
  then obtain target req data where v: "calculate_validator_info X F cfg rk (prev (header blk)) = Ok (target, req)"
    and l: "(of_nat (length (ed_sigs data)) :: u64) = req" and c: "check_sigs X data target = Ok True"
    by (auto simp: epos_check_def result_simps split: if_splits)
  have "1 \<le> req" using v by (auto simp: calculate_validator_info_def Let_def result_simps)
  then have "ed_sigs data \<noteq> []" using l by auto
  from check_sigs_32 [OF assms this] c show False by (simp add: check_sigs_def)
qed

section \<open>Requests\<close>

definition signed_block :: "forge_ext \<Rightarrow> block \<Rightarrow> bool" where
  "signed_block F blk \<longleftrightarrow> (\<exists>d. de (data_codec F) (blob (header blk)) = Ok d \<and> ed_sigs d \<noteq> [])"

lemma apply_block_signed:
  assumes "forge_ext_ok F" "apply_block X F blk diff info k = Ok (d, blk')"
  shows "signed_block F blk'"
  using assms by (auto simp: apply_block_def signed_block_def forge_ext_ok_def codec_ok_def Let_def result_simps)

lemma best_key_signed:
  assumes "forge_ext_ok F" "best_key X F cfg rk diff target blk keys cur = Ok (Some (b, w))"
    and "\<And>c v. cur = Some (c, v) \<Longrightarrow> signed_block F c"
  shows "signed_block F b"
  using assms(2,3)
proof (induction keys arbitrary: cur)
  case (Cons p keys)
  obtain i k where p: "p = (i, k)" by (cases p)
  obtain stake where s: "kv_stake rk i = Ok stake" using Cons.prems(1) by (auto simp: p result_simps)
  show ?case
  proof (cases "stake = 0")
    case True
    then show ?thesis using Cons.IH [OF _ Cons.prems(2)] Cons.prems(1) by (simp add: p s)
  next
    case False
    then obtain d kb w0 where a: "apply_block X F blk diff target k = Ok (d, kb)"
      and r: "best_key X F cfg rk diff target blk keys
        (case cur of Some (c, v) \<Rightarrow> if w0 < v then Some (kb, w0) else cur | None \<Rightarrow> Some (kb, w0)) = Ok (Some (b, w))"
      using Cons.prems(1) by (auto simp: p s result_simps)
    show ?thesis
      by (rule Cons.IH [OF r]) (use apply_block_signed [OF assms(1) a] Cons.prems(2) in \<open>auto split: option.splits if_splits\<close>)
  qed
qed auto

text \<open>The requests that have a block, that were dropped, and that wait.\<close>

definition settled :: "epos \<Rightarrow> nat list" where
  "settled e = map fst (ep_forged e) @ ep_cancelled e @ (case on_block e of Some i \<Rightarrow> [i] | None \<Rightarrow> [])"

definition epos_inv :: "forge_ext \<Rightarrow> epos \<Rightarrow> bool" where
  "epos_inv F e \<longleftrightarrow> distinct (settled e) \<and> set (settled e) = {..<ep_requests e} \<and>
     (\<forall>b \<in> snd ` set (ep_forged e). signed_block F b) \<and>
     (\<forall>r b t. best_block e = Some (r, b, t) \<longrightarrow> signed_block F b)"

lemma settled_cong [simp]:
  "settled (e\<lparr>best_block := b\<rparr>) = settled e" "settled (e\<lparr>best_block := b, ep_timers := ts\<rparr>) = settled e"
  "settled (e\<lparr>net_sent := ms\<rparr>) = settled e"
  by (simp_all add: settled_def)

lemma epos_inv_schedule [simp]:
  "epos_inv F e \<Longrightarrow> signed_block F b \<Longrightarrow> epos_inv F (schedule now req b disp e)"
  by (simp add: epos_inv_def schedule_def Let_def)

lemma offer_block_inv:
  assumes "epos_inv F e" "signed_block F (fst best)" "offer_block rk now blk req best e = (r, e')"
  shows "epos_inv F e'"
proof (cases "best_block e")
  case (Some p)
  then show ?thesis
    using assms
    by (cases p; cases "expect_ok (kv_height rk (prev (header blk))) :: (u64, forge_error) result";
        cases "expect_ok (kv_height rk (prev (header (fst (snd p))))) :: (u64, forge_error) result")
      (auto simp: offer_block_def Let_def bind_st_def read_st_def split: if_splits)
qed (use assms in \<open>auto simp: offer_block_def Let_def\<close>)

lemma evaluate_block_inv:
  assumes "forge_ext_ok F" "epos_inv F e" "evaluate_block X F rk now blk e = (r, e')"
  shows "epos_inv F e'"
proof (cases "find_candidate X F e rk blk")
  case (Ok p)
  obtain req best where p: "p = (req, best)" by (cases p)
  show ?thesis
  proof (cases best)
    case (Some q)
    obtain b w where q: "q = (b, w)" by (cases q)
    have "signed_block F b"
      using Ok best_key_signed [OF assms(1)] by (fastforce simp: p Some q find_candidate_def result_simps)
    then have "epos_inv F e1" if "offer_block rk now blk req (b, w) e = (v, e1)" for v e1
      using offer_block_inv [OF assms(2) _ that] by simp
    moreover obtain v e1 where "offer_block rk now blk req (b, w) e = (v, e1)" by fastforce
    ultimately show ?thesis using assms(3) Ok
      by (cases v) (auto simp: evaluate_block_def p Some q bind_st_def)
  qed (use assms(2,3) Ok in \<open>simp add: evaluate_block_def p\<close>)
qed (use assms(2,3) in \<open>auto simp: evaluate_block_def\<close>)

lemma create_inv:
  assumes "forge_ext_ok F" "epos_inv F e" "epos_create X F rk now blk e = (r, e')"
  shows "epos_inv F e'"
proof -
  let ?e = "e\<lparr>ep_cancelled := ep_cancelled e @ (case on_block e of Some j \<Rightarrow> [j] | None \<Rightarrow> []),
            on_block := Some (ep_requests e), ep_requests := ep_requests e + 1\<rparr>"
  have s: "settled ?e = settled e @ [ep_requests e]" by (simp add: settled_def split: option.split)
  have "epos_inv F ?e" using assms(2) unfolding epos_inv_def s by auto
  moreover obtain v e1 where "evaluate_block X F rk now blk ?e = (v, e1)" by fastforce
  ultimately show ?thesis using evaluate_block_inv [OF assms(1)] assms(3)
    by (cases v) (auto simp: epos_create_def Let_def bind_st_def)
qed

lemma receive_inv:
  assumes "forge_ext_ok F" "epos_inv F e" "receive_broadcast X F rk now i pl e = (r, e')"
  shows "epos_inv F e'"
proof (cases "de (block_codec F) pl")
  case (Ok blk)
  obtain v e1 where "evaluate_block X F rk now blk e = (v, e1)" by fastforce
  then show ?thesis using evaluate_block_inv [OF assms(1,2)] assms(3) Ok
    by (cases v) (auto simp: receive_broadcast_def bind_st_def)
qed (use assms(2,3) in \<open>auto simp: receive_broadcast_def\<close>)

lemma propagate_inv:
  assumes "epos_inv F e" "propagate_block F now e = (r, e')"
  shows "epos_inv F e'"
proof (cases "best_block e")
  case (Some p)
  obtain req b at where p: "p = (req, b, at)" by (cases p)
  have sb: "signed_block F b" using assms(1) Some p by (simp add: epos_inv_def)
  have none: "epos_inv F (e1\<lparr>best_block := None\<rparr>)" if "epos_inv F e1" for e1 using that by (simp add: epos_inv_def)
  have hand: "epos_inv F (e\<lparr>ep_forged := ep_forged e @ [(i, b)], on_block := None\<rparr>)" if "on_block e = Some i" for i
  proof -
    have s: "settled e = map fst (ep_forged e) @ ep_cancelled e @ [i]" using that by (simp add: settled_def)
    have s': "settled (e\<lparr>ep_forged := ep_forged e @ [(i, b)], on_block := None\<rparr>) = map fst (ep_forged e) @ [i] @ ep_cancelled e"
      by (simp add: settled_def)
    show ?thesis using assms(1) sb unfolding epos_inv_def s s' by auto
  qed
  have send: "epos_inv F (e\<lparr>net_sent := ms\<rparr>)" for ms using assms(1) by (simp add: epos_inv_def)
  show ?thesis
    using assms none hand send unfolding propagate_block_def Some p bind_st_def read_st_def net_send_def
    by (cases "de (data_codec F) (blob (header b))") (auto split: if_splits option.splits)
qed (use assms in \<open>auto simp: propagate_block_def epos_inv_def\<close>)

text \<open>
  A candidate at the same height replaces the current one only when its time is less than the number
  of signatures that the current one needs, so a candidate that would be sent earlier is dropped.
\<close>

lemma earlier_candidate_dropped:
  assumes "best_block e = Some (v, ob, at)" "kv_height rk (prev (header blk)) = Ok h" "kv_height rk (prev (header ob)) = Ok h"
    and "v \<le> timestamp (header blk) + w" "timestamp (header blk) + w < at"
  shows "offer_block rk now blk req (kb, w) e = (Ok (), e)"
  using assms by (simp add: offer_block_def bind_st_def read_st_def Let_def)

text \<open>The states of a forger: requests, broadcasts and timers in any order, on any state of the chain.\<close>

inductive forges :: "'s ext \<Rightarrow> forge_ext \<Rightarrow> epos_config \<Rightarrow> epos \<Rightarrow> bool" for X F cfg where
  start: "epos_new X F net_up cfg = Ok e \<Longrightarrow> forges X F cfg e"
| request: "forges X F cfg e \<Longrightarrow> epos_create X F rk now blk e = (r, e') \<Longrightarrow> forges X F cfg e'"
| broadcast: "forges X F cfg e \<Longrightarrow> receive_broadcast X F rk now i pl e = (r', e') \<Longrightarrow> forges X F cfg e'"
| timer: "forges X F cfg e \<Longrightarrow> propagate_block F now e = (r'', e') \<Longrightarrow> forges X F cfg e'"

lemma new_inv: "epos_new X F net_up cfg = Ok e \<Longrightarrow> epos_inv F e"
  by (auto simp: epos_new_def epos_inv_def settled_def result_simps split: if_splits)

text \<open>
  C11: whatever requests, partial blocks from the network and timers come, in any order and whatever
  the chain is like, every request for a block is in exactly one of three states: it waits, it was
  dropped for a newer one, or it was handed one block; and a block handed out carries a signature.
\<close>

theorem requests_settled_once:
  assumes "forge_ext_ok F" "forges X F cfg e"
  shows "distinct (settled e) \<and> set (settled e) = {..<ep_requests e} \<and>
    (\<forall>b \<in> snd ` set (ep_forged e). \<exists>d. de (data_codec F) (blob (header b)) = Ok d \<and> ed_sigs d \<noteq> [])"
proof -
  have "epos_inv F e" using assms(2)
    by induction (auto intro: new_inv create_inv [OF assms(1)] receive_inv [OF assms(1)] propagate_inv)
  then show ?thesis by (simp add: epos_inv_def signed_block_def)
qed

section \<open>From a request to a block\<close>

lemma find_candidate_cong:
  "ep_config e = ep_config e' \<Longrightarrow> ep_keys e = ep_keys e' \<Longrightarrow> find_candidate X F e rk blk = find_candidate X F e' rk blk"
  by (simp add: find_candidate_def)

text \<open>The wait of a timer started for a candidate, in numbers that do not wrap around.\<close>

lemma schedule_wait:
  fixes now disp :: u64
  assumes "unat now < 2 ^ 63" "unat disp < 2 ^ 63"
  shows "unat (if 10 \<le> sint (disp - now) then disp - now else 10 :: u64) =
    max (unat disp) (unat now + 10) - unat now"
proof -
  have d: "sint (disp - now) = int (unat disp) - int (unat now)"
  proof -
    have s: "sint x = int (unat x)" if "unat x < 2 ^ 63" for x :: u64
    proof -
      have "int (unat x) < 2 ^ 63" using that by (simp only: of_nat_less_numeral_power_cancel_iff)
      then have "uint x < 2 ^ 63" by simp
      moreover have "- (2 ^ 63) \<le> uint x" by (rule order_trans [of _ 0]) simp_all
      ultimately show ?thesis using signed_take_bit_int_eq_self [of 63 "uint x"] by (simp add: sint_uint)
    qed
    have "int (unat now) < 2 ^ 63" "int (unat disp) < 2 ^ 63"
      using assms by (simp_all only: of_nat_less_numeral_power_cancel_iff)
    then have b: "- (2 ^ 63) \<le> int (unat disp) - int (unat now)" "int (unat disp) - int (unat now) < 2 ^ 63"
      by linarith+
    have "sint (disp - now) = signed_take_bit 63 (int (unat disp) - int (unat now))"
      by (simp add: sint_word_ariths s [OF assms(1), simplified] s [OF assms(2), simplified])
    then show ?thesis by (simp only: signed_take_bit_int_eq_self [OF b])
  qed
  show ?thesis
  proof (cases "10 \<le> sint (disp - now)")
    case True
    then have "unat now + 10 \<le> unat disp" using d by linarith
    then show ?thesis using True by (simp add: unat_sub word_le_nat_alt)
  next
    case False
    then have "unat disp \<le> unat now + 10" using d by linarith
    then show ?thesis using False by simp
  qed
qed

text \<open>
  C14: a request for a block, made while no candidate is waiting, for which \<open>find_candidate\<close> finds
  a candidate (a block signed by one of the forger's keys, with the wait \<open>w\<close>), with times below
  \<open>2 ^ 63\<close> milliseconds: exactly one timer is started; it runs until the time of the block plus \<open>w\<close>,
  and at least 10 milliseconds. Before that time (less 10 milliseconds) the propagation does nothing
  and the candidate stays. When it runs, at the end of the timer or later, a candidate with all of the
  required signatures is handed to the request, and one with fewer is broadcast to the shard of the
  block once, over a network that is up, while the request goes on waiting; in both cases the
  candidate is dropped.
\<close>

theorem requested_block_delivered:
  assumes "forge_ext_ok F" "best_block e = None" "find_candidate X F e rk blk = Ok (req, Some (kb, w))"
    and "unat (timestamp (header blk)) + unat w < 2 ^ 63" "unat now < 2 ^ 63" "net_open e"
  shows "\<exists>d wait e'. epos_create X F rk now blk e = (Ok (ep_requests e), e') \<and>
    ep_timers e' = ep_timers e @ [wait] \<and>
    unat now + unat wait = max (unat (timestamp (header blk)) + unat w) (unat now + 10) \<and>
    de (data_codec F) (blob (header kb)) = Ok d \<and> ed_sigs d \<noteq> [] \<and>
    (\<forall>early :: u64. unat early + 10 < unat (timestamp (header blk)) + unat w \<longrightarrow>
      propagate_block F early e' = (Ok (), e')) \<and>
    (\<forall>later. unat now + unat wait \<le> unat later \<longrightarrow> unat later < 2 ^ 63 \<longrightarrow>
      (\<exists>e''. propagate_block F later e' = (Ok (), e'') \<and> best_block e'' = None \<and>
        (if unat req \<le> length (ed_sigs d)
         then ep_forged e'' = ep_forged e @ [(ep_requests e, kb)] \<and> on_block e'' = None \<and>
           net_sent e'' = net_sent e
         else ep_forged e'' = ep_forged e \<and> on_block e'' = Some (ep_requests e) \<and>
           net_sent e'' = net_sent e @
             [SendBroadcast (shard (header kb)) EPOS_BROADCAST_ID (ser (block_codec F) kb)])))"
proof -
  let ?e = "e\<lparr>ep_cancelled := ep_cancelled e @ (case on_block e of Some j \<Rightarrow> [j] | None \<Rightarrow> []),
            on_block := Some (ep_requests e), ep_requests := ep_requests e + 1\<rparr>"
  let ?disp = "timestamp (header blk) + w"
  let ?wait = "if 10 \<le> sint (?disp - now) then ?disp - now else 10"
  define s where "s = schedule now req kb ?disp ?e"
  have "find_candidate X F ?e rk blk = Ok (req, Some (kb, w))"
    using assms(3) find_candidate_cong [of ?e e X F rk blk] by simp
  then have ev: "epos_create X F rk now blk e = (Ok (ep_requests e), s)"
    using assms(2) by (simp add: s_def epos_create_def Let_def evaluate_block_def offer_block_def bind_st_def return_st_def)
  have "signed_block F kb"
    using assms(3) best_key_signed [OF assms(1)] by (fastforce simp: find_candidate_def result_simps)
  then obtain d where d: "de (data_codec F) (blob (header kb)) = Ok d" "ed_sigs d \<noteq> []" by (auto simp: signed_block_def)
  have b: "best_block s = Some (req, kb, ?disp)" "on_block s = Some (ep_requests e)"
    "ep_forged s = ep_forged e" "ep_timers s = ep_timers e @ [?wait]" "net_open s" "net_sent s = net_sent e"
    using assms(6) by (simp_all add: s_def schedule_def Let_def)
  have disp: "unat ?disp = unat (timestamp (header blk)) + unat w"
    using assms(4) by (simp add: unat_plus_if')
  have wait: "unat now + unat ?wait = max (unat ?disp) (unat now + 10)"
    using schedule_wait [of now ?disp] assms(4,5) disp by simp
  have early: "propagate_block F t s = (Ok (), s)" if "unat t + 10 < unat ?disp" for t :: u64
  proof -
    have "t + 10 < ?disp" using that assms(4) disp by (simp add: word_less_nat_alt unat_plus_if')
    then show ?thesis by (simp add: propagate_block_def b)
  qed
  have later: "\<not> t + 10 < ?disp" if "unat ?disp \<le> unat t" "unat t < 2 ^ 63" for t :: u64
    using that by (simp add: word_less_nat_alt unat_plus_if')
  show ?thesis
  proof (rule exI [of _ d], rule exI [of _ ?wait], rule exI [of _ s], intro conjI allI impI)
    fix t :: u64 assume "unat now + unat ?wait \<le> unat t" and "unat t < 2 ^ 63"
    then have "\<not> t + 10 < ?disp" using wait later by simp
    then show "\<exists>e''. propagate_block F t s = (Ok (), e'') \<and> best_block e'' = None \<and>
        (if unat req \<le> length (ed_sigs d)
         then ep_forged e'' = ep_forged e @ [(ep_requests e, kb)] \<and> on_block e'' = None \<and>
           net_sent e'' = net_sent e
         else ep_forged e'' = ep_forged e \<and> on_block e'' = Some (ep_requests e) \<and>
           net_sent e'' = net_sent e @
             [SendBroadcast (shard (header kb)) EPOS_BROADCAST_ID (ser (block_codec F) kb)])"
      using d by (simp add: propagate_block_def b bind_st_def read_st_def net_send_def)
  qed (use ev b(4) d wait early disp in simp_all)
qed

end
