(* ===== verification/Forging_Demo.thy ===== *)
theory Forging_Demo
  imports Forging_Facts Keeper_Demo
begin

text \<open>
  The in-memory record keeper and the forgers on concrete inputs: a block on the genesis block of
  the demo chain, a forger with one key, and a verifier of signatures that wants 256 bytes.
\<close>

section \<open>The in-memory record keeper\<close>

lemma demo_genesis: "dk_genesis mem_ext = demo_block 1 U256_ZERO"
  by (simp add: dk_genesis_def demo_block_def demo_header_def from_milliseconds_def calculate_merkle_root_def
    merkle_loop.simps)

definition demo_dk :: dummy_keeper where
  "demo_dk = snd (dk_add_block mem_ext (demo_block 2 (demo_hash 1)) True (dk_new mem_ext))"

lemma demo_new: "dk_new mem_ext = \<lparr>dk_blocks = [(demo_hash 1, \<lparr>tn_block = demo_block 1 U256_ZERO, tn_height = 1\<rparr>)],
    dk_children = [(demo_hash 1, [])], dk_txns = [], dk_pending = [],
    dk_best = \<lparr>tn_block = demo_block 1 U256_ZERO, tn_height = 1\<rparr>\<rparr>"
  by (simp add: dk_new_def Let_def demo_genesis demo_hash)

lemma demo_dk_added:
  "dk_add_block mem_ext (demo_block 2 (demo_hash 1)) True (dk_new mem_ext) = (Ok True, demo_dk)"
  "dk_blocks demo_dk = [(demo_hash 1, \<lparr>tn_block = demo_block 1 U256_ZERO, tn_height = 1\<rparr>),
     (demo_hash 2, \<lparr>tn_block = demo_block 2 (demo_hash 1), tn_height = 2\<rparr>)]"
  "dk_best demo_dk = \<lparr>tn_block = demo_block 2 (demo_hash 1), tn_height = 2\<rparr>"
  by (simp_all add: demo_dk_def dk_add_block_def demo_new demo_hash demo_block_fields dk_file_block_def Let_def)

lemma demo_dk_steps: "(dk_step mem_ext)\<^sup>*\<^sup>* (dk_new mem_ext) demo_dk"
proof -
  have "dk_step mem_ext (dk_new mem_ext) demo_dk"
    unfolding dk_step_def
    by (intro disjI1 exI [of _ "demo_block 2 (demo_hash 1)"] exI [of _ True] exI [of _ "Ok True"])
      (simp add: demo_dk_added(1) demo_hash, simp add: demo_new)
  then show ?thesis by blast
qed

theorem dummy_keeper_follows_longest_chain_witness:
  "dk_get_block_height demo_dk (demo_hash 2) = Ok 2 \<and> dk_is_block_in_current_chain mem_ext demo_dk (demo_hash 1) = Ok True"
proof -
  have h: "dk_get_current_block_hash mem_ext demo_dk = demo_hash 2"
    by (simp add: dk_get_current_block_hash_def demo_dk_added(3) demo_hash)
  have "(view_parent (dk_view demo_dk) ^^ 1) (demo_hash 2) = demo_hash 1"
    by (simp add: view_parent_def dk_view_def dk_get_block_def demo_dk_added(2) demo_block_fields)
  then have "\<exists>j. (view_parent (dk_view demo_dk) ^^ j) (demo_hash 2) = demo_hash 1" by blast
  moreover have "dk_get_block demo_dk (demo_hash 1) = Ok (demo_block 1 U256_ZERO)"
    by (simp add: dk_get_block_def demo_dk_added(2))
  moreover have "dk_get_block_height demo_dk (demo_hash 2) = Ok 2"
    by (simp add: dk_get_block_height_def demo_dk_added(2))
  ultimately show ?thesis
    using dummy_keeper_follows_longest_chain [OF _ demo_dk_steps] by (simp add: demo_genesis demo_hash h)
qed

section \<open>The forgers\<close>

definition fmt_data :: "epos_block_data fmt" where
  "fmt_data = fmt_iso (\<lambda>d. (ed_difficulty d, ed_sigs d)) (\<lambda>(a, b). \<lparr>ed_difficulty = a, ed_sigs = b\<rparr>)
     (fmt_pair fmt_u64 (fmt_list (fmt_pair fmt_bin fmt_u256)))"

definition fmt_block :: "block fmt" where
  "fmt_block = fmt_iso (\<lambda>b. (header b, txns b)) (\<lambda>(h, ts). \<lparr>header = h, txns = ts\<rparr>) (fmt_pair fmt_header fmt_hash_list)"

interpretation f_data: format fmt_data
  unfolding fmt_data_def by (intro format_iso formats) auto

interpretation f_block: format fmt_block
  unfolding fmt_block_def by (intro format_iso formats f_header.format_axioms) auto

definition demo_forge :: forge_ext where
  "demo_forge = \<lparr>data_codec = codec_of fmt_data, block_codec = codec_of fmt_block,
     private_key_from_der = (\<lambda>b. Ok (PKey b)), public_key_to_der = (\<lambda>k. case k of PKey b \<Rightarrow> Ok b),
     log_trunc = (\<lambda>n b. 0), scale_difficulty = (\<lambda>rate n actual d. d)\<rparr>"

lemma demo_forge_ok: "forge_ext_ok demo_forge"
  by (simp add: forge_ext_ok_def demo_forge_def codec_of_ok f_data.format_axioms f_block.format_axioms)

definition demo_epos :: epos where
  "demo_epos = \<lparr>ep_keys = [(hash_pub_key mem_ext [7], PKey [7])], ep_config = epos_config_new [[7]], best_block = None,
     on_block = None, ep_requests = 0, ep_forged = [], ep_cancelled = [], net_open = True,
     net_sent = [RegisterBroadcastReceiver EPOS_BROADCAST_ID], ep_timers = []\<rparr>"

lemma demo_epos_new: "epos_new mem_ext demo_forge True (epos_config_new [[7]]) = Ok demo_epos"
  by (simp add: demo_epos_def epos_new_def epos_config_new_def demo_forge_def)

theorem gen_wait_exact_witness:
  "\<exists>w. gen_wait (epos_config_new []) 1 2 0 (2 ^ 63) = Ok w \<and> unat w * 2 \<le> 24000"
proof -
  obtain w where "gen_wait (epos_config_new []) 1 2 0 (2 ^ 63) = Ok w"
    by (simp add: gen_wait_def epos_config_new_def Let_def)
  with gen_wait_exact [of "epos_config_new []" 1 2 0 "2 ^ 63" w] show ?thesis
    by (auto simp: epos_config_new_def)
qed

text \<open>An instance whose signatures have 256 bytes.\<close>

definition demo_rsa :: "mem_store ext" where
  "demo_rsa = mem_ext\<lparr>rsa_sign := (\<lambda>k b. take 256 (b @ replicate 256 0)),
     rsa_verify := (\<lambda>k b sig. Some (sig = take 256 (b @ replicate 256 0)))\<rparr>"

theorem epos_accepts_no_block_witness:
  "epos_validate demo_rsa demo_forge (epos_config_new []) (dk_view demo_dk) 5 (demo_block 3 (demo_hash 2)) \<noteq> Ok None"
  by (rule epos_accepts_no_block) (simp add: demo_rsa_def min_def)

section \<open>A block from request to delivery\<close>

lemma demo_data_codec [simp]:
  "de (data_codec demo_forge) (ser (data_codec demo_forge) d) = Ok d" "ser (data_codec demo_forge) d \<noteq> []"
proof -
  show "de (data_codec demo_forge) (ser (data_codec demo_forge) d) = Ok d"
    using demo_forge_ok by (simp add: forge_ext_ok_def codec_ok_def)
  have "write_le 8 x \<noteq> []" for x :: u64 by (metis length_0_conv length_write(1) zero_neq_numeral)
  then show "ser (data_codec demo_forge) d \<noteq> []"
    by (simp add: demo_forge_def codec_of_def fmt_data_def fmt_iso_def fmt_pair_def fmt_u64_def fmt_word_def)
qed

lemma demo_view:
  "kv_height (dk_view (dk_new mem_ext)) (demo_hash 1) = Ok 1"
  "kv_header (dk_view (dk_new mem_ext)) (demo_hash 1) = Ok (demo_header 1 U256_ZERO)"
  "kv_stake (dk_view (dk_new mem_ext)) i = Ok 1"
  by (simp_all add: dk_view_def dk_get_block_height_def dk_get_block_header_def dk_get_validator_stake_def demo_new demo_block_def)

lemma demo_info:
  "calculate_validator_info mem_ext demo_forge (epos_config_new [[7]]) (dk_view (dk_new mem_ext)) (demo_hash 1) =
     Ok (hash_bytes mem_ext [], 1)"
proof -
  have "(100 :: nat) = Suc 99" by simp
  then have "scan_headers (dk_view (dk_new mem_ext)) 100 (demo_hash 1) [] = Ok []"
    by (simp only: scan_headers.simps) (simp add: demo_view demo_header_def)
  then show ?thesis
    by (simp add: calculate_validator_info_def epos_config_new_def demo_forge_def)
qed

lemma demo_difficulty:
  "epos_expected_difficulty demo_forge (epos_config_new [[7]]) (dk_view (dk_new mem_ext)) (demo_block 2 (demo_hash 1)) = Ok 1"
  by (simp add: epos_expected_difficulty_def demo_block_fields demo_view epos_config_new_def)

lemma demo_candidate:
  "\<exists>kb. find_candidate mem_ext demo_forge demo_epos (dk_view (dk_new mem_ext)) (demo_block 2 (demo_hash 1)) =
     Ok (1, Some (kb, 0))"
proof -
  let ?t = "hash_bytes mem_ext []" and ?d = "\<lparr>ed_difficulty = 1, ed_sigs = []\<rparr>"
  let ?b = "set_blob (ser (data_codec demo_forge) ?d) (demo_block 2 (demo_hash 1))"
  let ?d' = "\<lparr>ed_difficulty = 1, ed_sigs = [([7], ?t)]\<rparr>"
  have s: "de_u256 (sign_bytes mem_ext (u256_to_vec ?t @ bs) k) = Ok ?t" for bs k
    by (simp add: de_u256_def sign_bytes_def mem_ext_def u256_read_vec)
  have pk: "public_key_to_der demo_forge (PKey [7]) = Ok [7]" by (simp add: demo_forge_def)
  have a: "apply_block mem_ext demo_forge ?b 1 ?t (PKey [7]) = Ok (?d', set_blob (ser (data_codec demo_forge) ?d') ?b)"
    by (simp add: apply_block_def decode_blob_def pk s Let_def)
  have r: "get_relevant_validation_data mem_ext ?d' = Ok (hash_pub_key mem_ext [7], ?t)"
    by (simp add: get_relevant_validation_data_def Let_def)
  have w: "gen_wait (epos_config_new [[7]]) 1 1 x x = Ok 0" for x
    by (simp add: gen_wait_def epos_config_new_def Let_def)
  have "block_to_sign demo_forge 1 (demo_block 2 (demo_hash 1)) = Ok ?b"
    by (simp add: block_to_sign_def demo_block_def demo_header_def)
  then show ?thesis
    by (simp add: find_candidate_def demo_epos_def demo_block_fields demo_info demo_difficulty demo_view a r w)
qed

theorem requested_block_delivered_witness:
  "\<exists>kb e' e''. epos_create mem_ext demo_forge (dk_view (dk_new mem_ext)) 0 (demo_block 2 (demo_hash 1)) demo_epos = (Ok 0, e') \<and>
     ep_timers e' = [10] \<and> propagate_block demo_forge 10 e' = (Ok (), e'') \<and> ep_forged e'' = [(0, kb)]"
proof -
  obtain kb where c: "find_candidate mem_ext demo_forge demo_epos (dk_view (dk_new mem_ext)) (demo_block 2 (demo_hash 1)) =
     Ok (1, Some (kb, 0))" using demo_candidate by blast
  have e: "best_block demo_epos = None" "ep_requests demo_epos = 0" "ep_forged demo_epos = []" "net_open demo_epos"
    "ep_timers demo_epos = []" by (simp_all add: demo_epos_def)
  have t: "timestamp (header (demo_block 2 (demo_hash 1))) = 0" by (simp add: demo_block_fields)
  have u: "unat x = 10 \<longleftrightarrow> x = 10" for x :: u64
    using word_unat_eq_iff [of x 10] by simp
  show ?thesis
    using requested_block_delivered [OF demo_forge_ok e(1) c _ _ e(4), of 0]
    apply (simp add: e t)
    apply (elim exE conjE)
    apply (drule spec [of _ 10])
    apply (auto simp: u Suc_le_eq e t)
    done
qed

theorem requests_settled_once_witness:
  "\<exists>e. forges mem_ext demo_forge (epos_config_new [[7]]) e \<and> ep_requests e = 1 \<and> set (settled e) = {0}"
proof -
  let ?V = "dk_view (dk_new mem_ext)" and ?blk = "demo_block 2 (demo_hash 1)"
  obtain kb where c: "find_candidate mem_ext demo_forge demo_epos ?V ?blk = Ok (1, Some (kb, 0))"
    using demo_candidate by blast
  obtain r e where e: "epos_create mem_ext demo_forge ?V 0 ?blk demo_epos = (r, e)" by fastforce
  have f: "forges mem_ext demo_forge (epos_config_new [[7]]) e"
    by (rule forges.request [OF forges.start [OF demo_epos_new] e])
  let ?e = "demo_epos\<lparr>ep_cancelled := [], on_block := Some 0, ep_requests := 1\<rparr>"
  have "find_candidate mem_ext demo_forge ?e ?V ?blk = Ok (1, Some (kb, 0))"
    using c find_candidate_cong [of ?e demo_epos mem_ext demo_forge ?V ?blk] by simp
  then have "ep_requests e = 1"
    using e by (simp add: epos_create_def demo_epos_def evaluate_block_def offer_block_def schedule_def Let_def bind_st_def) auto
  then show ?thesis using f requests_settled_once [OF demo_forge_ok f] by auto
qed

text \<open>A chain whose last block has height 2 and difficulty 3.\<close>

definition demo_flowers :: keeper_view where
  "demo_flowers = \<lparr>kv_height = \<lambda>_. Ok 2, kv_block = \<lambda>_. Ok (set_blob (write_le 8 (3 :: u64)) (demo_block 2 (demo_hash 1))),
     kv_header = \<lambda>_. Ok (demo_header 2 (demo_hash 1)), kv_stake = \<lambda>_. Ok 1\<rparr>"

theorem flower_block_validates_witness:
  "\<exists>blk'. fp_create demo_forge \<lparr>fp_rate_target = 12000, fp_recalculate_blocks = 5\<rparr> demo_flowers 17 (demo_block 3 (demo_hash 2)) =
      Ok (blk', 17) \<and>
    fp_validate demo_forge \<lparr>fp_rate_target = 12000, fp_recalculate_blocks = 5\<rparr> demo_flowers blk' = Ok None"
proof -
  let ?s = "\<lparr>fp_rate_target = 12000, fp_recalculate_blocks = 5\<rparr>"
  have d: "fp_expected_difficulty demo_forge ?s demo_flowers (demo_block 3 (demo_hash 2)) = Ok 3"
    by (simp add: fp_expected_difficulty_def demo_flowers_def)
  have "gen_rand_mod ?s 17 3 = Ok 17" by (simp add: gen_rand_mod_def)
  then have "fp_create demo_forge ?s demo_flowers 17 (demo_block 3 (demo_hash 2)) =
      Ok (set_blob (write_le 8 (3 :: u64)) (demo_block 3 (demo_hash 2)), 17)"
    by (simp add: fp_create_def d)
  with flower_block_validates [OF this] show ?thesis by blast
qed

theorem epos_retarget_exact_witness:
  "\<exists>(rk :: (mem_store, board game_state_cache) record_keeper) pb start b. keeper_ok mem_ext map_of rk \<and> rk_get_block mem_ext rk (demo_hash 2) = Ok pb \<and>
     rk_get_block mem_ext rk start = Ok b \<and> block_ht mem_ext (rk_db rk) start = 2 \<and>
     epos_expected_difficulty demo_forge ((epos_config_new [])\<lparr>recalculate_blocks := 3\<rparr>) (rk_view mem_ext rk)
         (demo_block 3 (demo_hash 2)) =
       and_then (expect_ok (de (data_codec demo_forge) (blob (header pb))))
         (\<lambda>d. if timestamp (header pb) = timestamp (header b) then Panic
           else Ok (12000 * ed_difficulty d div (timestamp (header pb) - timestamp (header b))))"
proof -
  obtain rk where r: "rk_add_block mem_ext 5 (demo_block 2 (demo_hash 1)) True demo_keeper = (Ok True, rk)"
    using demo_block_accepted by blast
  note o = add_block_outcome [OF demo_keeper_facts(1) _ demo_keeper_room r, simplified demo_hash, simplified]
  have k: "keeper_ok mem_ext map_of rk" "get_block mem_ext (rk_db rk) (demo_hash 2) = Ok (demo_block 2 (demo_hash 1))"
    and kn: "known_block mem_ext (rk_db rk) b \<longleftrightarrow> b = demo_hash 2 \<or> b = demo_hash 1" for b
    using o by (simp_all add: demo_keeper_facts)
  have inv: "chain_inv mem_ext (rk_db rk)" using k(1) by (simp add: keeper_ok_def tip_ok_def)
  have h2: "get_block_header mem_ext (rk_db rk) (demo_hash 2) = Ok (header (demo_block 2 (demo_hash 1)))"
    using k(2) by (auto simp: get_block_def complete_block_def result_simps demo_block_def)
  obtain h1 where h1: "get_block_header mem_ext (rk_db rk) (demo_hash 1) = Ok h1"
    using kn [of "demo_hash 1"] by (auto simp: known_block_def is_ok_iff)
  obtain n m where n: "stored_height mem_ext (rk_db rk) (demo_hash 2) = Some n"
    "stored_height mem_ext (rk_db rk) (demo_hash 1) = Some m" "unat n = Suc (unat m)"
    using chain_inv_header(2) [OF inv h2] by (auto simp: demo_block_fields)
  have "m = 1"
  proof (rule ccontr)
    assume "m \<noteq> 1"
    with chain_inv_header(2) [OF inv h1] n(2)
    obtain m' where "known_block mem_ext (rk_db rk) (prev h1)" "stored_height mem_ext (rk_db rk) (prev h1) = Some m'"
      "unat m = Suc (unat m')" by (auto split: if_splits)
    then show False using n kn [of "prev h1"] by auto
  qed
  then have "unat n = unat (2 :: u64)" using n(3) by simp
  then have "n = 2" by (simp only: word_unat_eq_iff)
  then have "get_block_height mem_ext (rk_db rk) (demo_hash 2) = Ok 2"
    using block_height_stored [OF inv] kn n(1) by blast
  then have ht: "rk_get_block_height mem_ext rk (prev (header (demo_block 3 (demo_hash 2)))) = Ok 2"
    by (simp add: rk_get_block_height_def demo_block_fields)
  let ?cfg = "(epos_config_new [])\<lparr>recalculate_blocks := 3\<rparr>"
  have c: "(2 :: u64) \<noteq> - 1" "3 \<le> recalculate_blocks ?cfg" "(2 + 1) mod recalculate_blocks ?cfg = 0" by simp_all
  have rw: "rate_target ?cfg * window (recalculate_blocks ?cfg) (2 + 1) = 12000" by (simp add: epos_config_new_def window_def)
  have b: "((2 :: u64) + 1 = recalculate_blocks ?cfg) = True" by simp
  from epos_retarget_exact [OF k(1) ht c, of demo_forge, unfolded rw b if_True demo_block_fields]
  obtain pb b start where "rk_get_block mem_ext rk (demo_hash 2) = Ok pb" "rk_get_block mem_ext rk start = Ok b"
    "block_ht mem_ext (rk_db rk) start = 2"
    "epos_expected_difficulty demo_forge ?cfg (rk_view mem_ext rk) (demo_block 3 (demo_hash 2)) =
       and_then (expect_ok (de (data_codec demo_forge) (blob (header pb))))
         (\<lambda>d. if timestamp (header pb) = timestamp (header b) then Panic
           else Ok (12000 * ed_difficulty d div (timestamp (header pb) - timestamp (header b))))"
    by metis
  with k(1) show ?thesis by blast
qed

end
