(* ===== verification/Power_Grid.thy ===== *)
theory Power_Grid
  imports Coords
begin

text \<open>
  The power and data grids of the game client, \<open>client/src/world/power_grid.rs\<close>: a grid is a set of
  segments with the buildings connected to it, and a net keeps the grids of a plot apart and merges
  and splits them as segments come and go. A \<open>HashSet\<close> is a list without duplicates whose order is
  that of the iteration; of a structure, the code reads its id, location and extent. The debug
  assertions are off, as in a release build, and coordinates wrap.
\<close>

section \<open>Grids\<close>

record structure_info =
  st_id :: u8
  st_location :: coord
  st_xy_len :: "u32 \<times> u32"

record structure_node =
  sn_structure :: structure_info
  sn_priority :: u8

definition node_eq :: "structure_node \<Rightarrow> structure_node \<Rightarrow> bool" where
  "node_eq self other \<longleftrightarrow> st_id (sn_structure self) = st_id (sn_structure other) \<and>
     st_location (sn_structure self) = st_location (sn_structure other)"

record grid =
  segments :: "coord list"
  buildings :: "structure_node list"

definition grid_new :: "coord \<Rightarrow> grid" where
  "grid_new segment = \<lparr>segments = [segment], buildings = []\<rparr>"

definition is_grid :: "grid \<Rightarrow> i32 \<Rightarrow> i32 \<Rightarrow> bool" where
  "is_grid self x y \<longleftrightarrow> Coord x y \<in> set (segments self)"

definition is_adj :: "grid \<Rightarrow> coord \<Rightarrow> bool" where
  "is_adj self point \<longleftrightarrow> point \<in> set (segments self) \<or>
     is_grid self (coord_x point - 1) (coord_y point) \<or> is_grid self (coord_x point + 1) (coord_y point) \<or>
     is_grid self (coord_x point) (coord_y point - 1) \<or> is_grid self (coord_x point) (coord_y point + 1)"

definition contains_segment :: "grid \<Rightarrow> coord \<Rightarrow> bool" where
  "contains_segment self point \<longleftrightarrow> point \<in> set (segments self)"

definition grid_add_segment :: "coord \<Rightarrow> grid \<Rightarrow> bool \<times> grid" where
  "grid_add_segment segment self =
     (let (fresh, ss) = hs_insert segment (segments self) in (fresh, self\<lparr>segments := ss\<rparr>))"

definition grid_add_building :: "structure_info \<Rightarrow> u8 \<Rightarrow> grid \<Rightarrow> bool \<times> grid" where
  "grid_add_building s priority self =
     (let n = \<lparr>sn_structure = s, sn_priority = priority\<rparr> in
      if \<exists>m \<in> set (buildings self). node_eq m n then (False, self)
      else (True, self\<lparr>buildings := buildings self @ [n]\<rparr>))"

definition grid_remove_building :: "structure_info \<Rightarrow> grid \<Rightarrow> bool \<times> grid" where
  "grid_remove_building s self =
     (let n = \<lparr>sn_structure = s, sn_priority = 0\<rparr> in
      (\<exists>m \<in> set (buildings self). node_eq m n,
       self\<lparr>buildings := filter (\<lambda>m. \<not> node_eq m n) (buildings self)\<rparr>))"

definition is_connected :: "grid \<Rightarrow> structure_info \<Rightarrow> bool" where
  "is_connected self s \<longleftrightarrow> (\<exists>m \<in> set (buildings self). node_eq m \<lparr>sn_structure = s, sn_priority = 0\<rparr>)"

text \<open>The lengths are read as signed numbers; the ranges are empty when they are negative.\<close>

definition is_structure_adj :: "grid \<Rightarrow> structure_info \<Rightarrow> bool" where
  "is_structure_adj self s =
     (let bx = coord_x (st_location s); b_y = coord_y (st_location s);
          xl = fst (st_xy_len s); yl = snd (st_xy_len s)
      in (\<exists>dx \<in> set (map of_nat [0..<nat (sint xl)]). is_grid self (bx + dx) (b_y - 1) \<or> is_grid self (bx + dx) (b_y + yl)) \<or>
         (\<exists>dy \<in> set (map of_nat [0..<nat (sint yl)]). is_grid self (bx - 1) (b_y + dy) \<or> is_grid self (bx + xl) (b_y + dy)))"

definition merge_node :: "structure_node \<Rightarrow> structure_node list \<Rightarrow> structure_node list" where
  "merge_node n ns = (if \<exists>m \<in> set ns. node_eq m n then ns else ns @ [n])"

definition grid_merge :: "grid \<Rightarrow> grid \<Rightarrow> grid" where
  "grid_merge self other =
     \<lparr>segments = fold (\<lambda>s ss. snd (hs_insert s ss)) (segments other) (segments self),
      buildings = fold merge_node (buildings other) (buildings self)\<rparr>"

subsection \<open>Removing segments\<close>

text \<open>The search from one segment: what is left, the queue, and the segments found.\<close>

definition explore_step :: "coord \<Rightarrow> direction \<Rightarrow> coord list \<times> coord list \<Rightarrow> coord list \<times> coord list" where
  "explore_step s dir p =
     (let n = move_in_dir s dir 1 in
      if n \<in> set (fst p) then (filter (\<lambda>x. x \<noteq> n) (fst p), snd p @ [n]) else p)"

definition explore :: "coord \<Rightarrow> coord list \<times> coord list \<Rightarrow> coord list \<times> coord list" where
  "explore s p = fold (explore_step s) cardinal_iterator p"

text \<open>The segments move from what is left to the queue.\<close>

lemma explore_moves:
  assumes "fold (explore_step s) ds (left, queue) = (left', queue')"
  shows "\<exists>ns. queue' = queue @ ns \<and> left' = filter (\<lambda>x. x \<notin> set ns) left \<and>
    set ns = set left \<inter> (\<lambda>d. move_in_dir s d 1) ` set ds \<and> length left' + length ns \<le> length left"
  using assms
proof (induction ds arbitrary: left queue)
  case (Cons d ds)
  let ?n = "move_in_dir s d 1"
  show ?case
  proof (cases "?n \<in> set left")
    case True
    then obtain ns where ns: "queue' = (queue @ [?n]) @ ns" "left' = filter (\<lambda>x. x \<notin> set ns) (filter (\<lambda>x. x \<noteq> ?n) left)"
      "set ns = set (filter (\<lambda>x. x \<noteq> ?n) left) \<inter> (\<lambda>d. move_in_dir s d 1) ` set ds"
      "length left' + length ns \<le> length (filter (\<lambda>x. x \<noteq> ?n) left)"
      using Cons.IH [of "filter (\<lambda>x. x \<noteq> ?n) left" "queue @ [?n]"] Cons.prems by (auto simp: explore_step_def Let_def)
    have "length (filter (\<lambda>x. x \<noteq> ?n) left) < length left" using True by (simp add: length_filter_less)
    then show ?thesis
      by (intro exI [of _ "?n # ns"]) (use ns True in \<open>auto simp: conj_commute intro: arg_cong [of _ _ "\<lambda>P. filter P left"]\<close>)
  next
    case False
    then obtain ns where "queue' = queue @ ns" "left' = filter (\<lambda>x. x \<notin> set ns) left"
      "set ns = set left \<inter> (\<lambda>d. move_in_dir s d 1) ` set ds" "length left' + length ns \<le> length left"
      using Cons.IH [of left queue] Cons.prems by (auto simp: explore_step_def Let_def)
    then show ?thesis using False by (intro exI [of _ ns]) auto
  qed
qed auto

function bfs :: "coord list \<Rightarrow> coord list \<Rightarrow> coord list \<Rightarrow> coord list \<times> coord list" where
  "bfs left [] found = (left, found)"
| "bfs left (s # queue) found =
     bfs (fst (explore s (left, queue))) (snd (explore s (left, queue))) (snd (hs_insert s found))"
  by pat_completeness auto
termination
proof (relation "measure (\<lambda>(left, queue, found). length left + length queue)")
  fix left s queue found
  obtain l q where e: "explore s (left, queue) = (l, q)" by fastforce
  from explore_moves [OF e [unfolded explore_def]]
  show "((fst (explore s (left, queue)), snd (explore s (left, queue)), snd (hs_insert s found)), (left, s # queue, found)) \<in>
      measure (\<lambda>(left, queue, found). length left + length queue)"
    by (auto simp: e)
qed simp

lemma bfs_length: "length (fst (bfs left queue found)) \<le> length left"
proof (induction left queue found rule: bfs.induct)
  case (2 left s queue found)
  obtain l q where e: "explore s (left, queue) = (l, q)" by fastforce
  show ?case using 2 explore_moves [OF e [unfolded explore_def]] by (auto simp: e)
qed simp

declare bfs.simps(2) [simp del]

text \<open>Grid after grid until no segment is left; the search starts at an arbitrary segment.\<close>

function split_grids :: "coord list \<Rightarrow> grid list" where
  "split_grids [] = []"
| "split_grids (s # left) =
     (let r = bfs (filter (\<lambda>x. x \<noteq> s) left) [s] [] in \<lparr>segments = snd r, buildings = []\<rparr> # split_grids (fst r))"
  by pat_completeness auto
termination
proof (relation "measure length")
  fix s left r
  assume "r = bfs (filter (\<lambda>x. x \<noteq> s) left) [s] []"
  then show "(fst r, s # left) \<in> measure length"
    using le_trans [OF bfs_length length_filter_le] by (simp only: in_measure length_Cons less_Suc_eq_le)
qed simp

text \<open>Every building is added to every grid: adding one does not check that it is next to the grid.\<close>

definition attach_buildings :: "structure_node list \<Rightarrow> grid \<Rightarrow> grid" where
  "attach_buildings bs g = fold (\<lambda>b g. snd (grid_add_building (sn_structure b) (sn_priority b) g)) bs g"

definition grid_remove_segments :: "coord set \<Rightarrow> grid \<Rightarrow> grid list" where
  "grid_remove_segments ss self =
     map (attach_buildings (buildings self)) (split_grids (filter (\<lambda>s. s \<notin> ss) (segments self)))"

section \<open>The net of grids\<close>

type_synonym grid_net = "grid list"

definition grid_net_new :: grid_net where
  "grid_net_new = []"

text \<open>The grids are taken from the front one by one; those that are not next to the segment go to the back.\<close>

fun add_segment_loop :: "coord \<Rightarrow> grid list \<Rightarrow> grid list \<Rightarrow> grid option \<Rightarrow> grid list \<times> grid option" where
  "add_segment_loop segment [] kept master = (kept, master)"
| "add_segment_loop segment (g # gs) kept master =
     (if is_adj g segment then
        add_segment_loop segment gs kept
          (Some (case master of Some m \<Rightarrow> grid_merge m g | None \<Rightarrow> snd (grid_add_segment segment g)))
      else add_segment_loop segment gs (kept @ [g]) master)"

definition net_add_segment :: "coord \<Rightarrow> grid_net \<Rightarrow> grid_net" where
  "net_add_segment segment self =
     (case add_segment_loop segment self [] None of
        (kept, Some master) \<Rightarrow> kept @ [master]
      | (kept, None) \<Rightarrow> kept @ [grid_new segment])"

definition net_remove_segments :: "coord set \<Rightarrow> grid_net \<Rightarrow> grid_net" where
  "net_remove_segments ss self = concat (map (grid_remove_segments ss) self)"

definition net_add_building :: "structure_info \<Rightarrow> u8 \<Rightarrow> grid_net \<Rightarrow> bool \<times> grid_net" where
  "net_add_building s priority self =
     (\<exists>g \<in> set self. is_structure_adj g s,
      map (\<lambda>g. if is_structure_adj g s then snd (grid_add_building s priority g) else g) self)"

definition net_remove_building :: "structure_info \<Rightarrow> grid_net \<Rightarrow> bool \<times> grid_net" where
  "net_remove_building s self =
     (\<exists>g \<in> set self. fst (grid_remove_building s g), map (\<lambda>g. snd (grid_remove_building s g)) self)"

section \<open>Connected segments\<close>

definition touching :: "coord \<Rightarrow> coord \<Rightarrow> bool" where
  "touching a b \<longleftrightarrow> (\<exists>d \<in> set cardinal_iterator. move_in_dir a d 1 = b)"

lemma moves: "move_in_dir (Coord x y) DirN 1 = Coord x (y + 1)" "move_in_dir (Coord x y) DirE 1 = Coord (x + 1) y"
  "move_in_dir (Coord x y) DirS 1 = Coord x (y - 1)" "move_in_dir (Coord x y) DirW 1 = Coord (x - 1) y"
  by (simp_all add: move_in_dir_def)

lemma touching_iff: "touching (Coord x y) (Coord u v) \<longleftrightarrow>
    (u = x \<and> (v = y + 1 \<or> v = y - 1)) \<or> (v = y \<and> (u = x + 1 \<or> u = x - 1))"
  by (auto simp: touching_def cardinal_iterator_def moves)

lemma touching_sym: "touching a b \<longleftrightarrow> touching b a"
  by (cases a; cases b) (auto simp: touching_iff)

lemma is_adj_iff: "is_adj g p \<longleftrightarrow> (\<exists>q \<in> set (segments g). q = p \<or> touching p q)"
proof (cases p)
  case (Coord x y)
  have "(\<exists>q \<in> S. q = p \<or> touching p q) \<longleftrightarrow> p \<in> S \<or> (\<exists>d \<in> set cardinal_iterator. move_in_dir p d 1 \<in> S)" for S
    by (auto simp: touching_def)
  then show ?thesis by (auto simp: is_adj_def is_grid_def cardinal_iterator_def Coord moves)
qed

definition links :: "coord set \<Rightarrow> (coord \<times> coord) set" where
  "links S = {(a, b). a \<in> S \<and> b \<in> S \<and> touching a b}"

definition connected_set :: "coord set \<Rightarrow> bool" where
  "connected_set S \<longleftrightarrow> (\<forall>a \<in> S. \<forall>b \<in> S. (a, b) \<in> (links S)\<^sup>*)"

lemma links_mono: "S \<subseteq> T \<Longrightarrow> (a, b) \<in> (links S)\<^sup>* \<Longrightarrow> (a, b) \<in> (links T)\<^sup>*"
  by (rule rtrancl_mono [THEN subsetD]) (auto simp: links_def)

lemma links_sym: "(a, b) \<in> (links S)\<^sup>* \<Longrightarrow> (b, a) \<in> (links S)\<^sup>*"
  by (metis (no_types, lifting) links_def case_prodD case_prodI mem_Collect_eq symD symI sym_rtrancl touching_sym)

lemma connected_starI: "(\<And>a. a \<in> S \<Longrightarrow> (s, a) \<in> (links S)\<^sup>*) \<Longrightarrow> connected_set S"
  unfolding connected_set_def using links_sym rtrancl_trans by metis

lemma connected_grow:
  assumes "connected_set S" "s \<in> S" "\<And>n. n \<in> N \<Longrightarrow> touching s n"
  shows "connected_set (S \<union> N)"
proof (rule connected_starI)
  fix a assume "a \<in> S \<union> N"
  then show "(s, a) \<in> (links (S \<union> N))\<^sup>*"
  proof
    assume "a \<in> S"
    then show ?thesis using assms(1,2) links_mono [of S "S \<union> N"] by (auto simp: connected_set_def)
  next
    assume "a \<in> N"
    then have "(s, a) \<in> links (S \<union> N)" using assms(2,3) by (simp add: links_def)
    then show ?thesis ..
  qed
qed

section \<open>The search\<close>

lemma bfs_result:
  assumes "bfs left queue found = (l, f)" "connected_set (set found \<union> set queue)"
    and "\<And>a b. a \<in> set found \<Longrightarrow> b \<in> set left \<Longrightarrow> \<not> touching a b"
    and "(set found \<union> set queue) \<inter> set left = {}"
  shows "set f = set found \<union> set queue \<union> (set left - set l) \<and> set l \<subseteq> set left \<and> connected_set (set f) \<and>
    (\<forall>a \<in> set f. \<forall>b \<in> set l. a \<noteq> b \<and> \<not> touching a b) \<and> (distinct found \<longrightarrow> distinct f)"
  using assms
proof (induction left queue found arbitrary: l f rule: bfs.induct)
  case (2 left s queue found)
  obtain left' queue' where e: "explore s (left, queue) = (left', queue')" by fastforce
  obtain ns where ns: "queue' = queue @ ns" "left' = filter (\<lambda>x. x \<notin> set ns) left"
    "set ns = set left \<inter> (\<lambda>d. move_in_dir s d 1) ` set cardinal_iterator"
    using explore_moves [OF e [unfolded explore_def]] by blast
  let ?found = "snd (hs_insert s found)"
  have n: "n \<in> set ns \<longleftrightarrow> n \<in> set left \<and> touching s n" for n using ns(3) by (auto simp: touching_def)
  have "connected_set ((set found \<union> set (s # queue)) \<union> set ns)"
    by (rule connected_grow [OF 2(3), of s]) (auto simp: n)
  moreover have "set ?found \<union> set queue' = (set found \<union> set (s # queue)) \<union> set ns" by (auto simp: ns(1))
  ultimately have c: "connected_set (set ?found \<union> set queue')" by (simp only:)
  have t: "\<not> touching a b" if "a \<in> set ?found" "b \<in> set left'" for a b
    using that 2(4) by (auto simp: ns(2) n)
  have d: "(set ?found \<union> set queue') \<inter> set left' = {}" using 2(5) by (auto simp: ns)
  have run: "bfs left' queue' ?found = (l, f)" using 2(2) by (simp add: e bfs.simps(2))
  note r = 2(1) [unfolded e fst_conv snd_conv, OF run c t d]
  have "set left = set left' \<union> set ns" using n by (auto simp: ns(2))
  then show ?case using r d 2(5) by (auto simp: ns(1))
qed auto

definition apart :: "grid \<Rightarrow> grid \<Rightarrow> bool" where
  "apart g h \<longleftrightarrow> (\<forall>a \<in> set (segments g). \<forall>b \<in> set (segments h). a \<noteq> b \<and> \<not> touching a b)"

definition grid_ok :: "grid \<Rightarrow> bool" where
  "grid_ok g \<longleftrightarrow> segments g \<noteq> [] \<and> distinct (segments g) \<and> connected_set (set (segments g))"

definition net_ok :: "grid_net \<Rightarrow> bool" where
  "net_ok gs \<longleftrightarrow> (\<forall>g \<in> set gs. grid_ok g) \<and> sorted_wrt apart gs"

definition all_segments :: "grid_net \<Rightarrow> coord set" where
  "all_segments gs = (\<Union>g \<in> set gs. set (segments g))"

lemma apart_sym: "apart g h \<longleftrightarrow> apart h g"
  using touching_sym by (auto simp: apart_def)

lemma split_grids_ok: "net_ok (split_grids ss) \<and> all_segments (split_grids ss) = set ss"
proof (induction ss rule: split_grids.induct)
  case (2 s left)
  let ?left = "filter (\<lambda>x. x \<noteq> s) left"
  obtain l f where b: "bfs ?left [s] [] = (l, f)" by fastforce
  have r: "set f = set [] \<union> set [s] \<union> (set ?left - set l) \<and> set l \<subseteq> set ?left \<and> connected_set (set f) \<and>
    (\<forall>a \<in> set f. \<forall>b \<in> set l. a \<noteq> b \<and> \<not> touching a b) \<and> (distinct ([] :: coord list) \<longrightarrow> distinct f)"
    by (rule bfs_result [OF b]) (auto simp: connected_set_def)
  have IH: "net_ok (split_grids l)" "all_segments (split_grids l) = set l" using 2 [OF refl] b by simp_all
  have s: "split_grids (s # left) = \<lparr>segments = f, buildings = []\<rparr> # split_grids l" using b by simp
  have f: "set f = {} \<union> {s} \<union> (set ?left - set l)" "set l \<subseteq> set ?left" "connected_set (set f)" "distinct f"
    and sep: "a \<in> set f \<Longrightarrow> b \<in> set l \<Longrightarrow> a \<noteq> b \<and> \<not> touching a b" for a b
    using r unfolding list.set distinct.simps by blast+
  have "s \<in> set f" unfolding f(1) by simp
  then have "f \<noteq> []" by (rule length_pos_if_in_set [THEN length_greater_0_conv [THEN iffD1]])
  then have "grid_ok \<lparr>segments = f, buildings = []\<rparr>" using f(3,4) by (simp add: grid_ok_def)
  moreover have "apart \<lparr>segments = f, buildings = []\<rparr> h" if "h \<in> set (split_grids l)" for h
  proof -
    have "set (segments h) \<subseteq> set l" using that IH(2) by (auto simp: all_segments_def)
    then show ?thesis using sep unfolding apart_def by auto
  qed
  moreover have "set f \<union> set l = set (s # left)" using f(1,2) by auto
  ultimately show ?case unfolding s using IH by (simp add: net_ok_def all_segments_def)
qed (simp add: net_ok_def all_segments_def)

lemma attach_segments [simp]: "segments (attach_buildings bs g) = segments g"
proof -
  have "segments (fold (\<lambda>b g. snd (grid_add_building (sn_structure b) (sn_priority b) g)) bs g) = segments g"
    by (induction bs arbitrary: g) (auto simp: grid_add_building_def Let_def)
  then show ?thesis by (simp add: attach_buildings_def)
qed

text \<open>
  When a grid is split, every building ends up in every part, whether or not it is next to it: the
  check that it is next to the grid is a debug assertion.
\<close>

lemma is_connected_add: "is_connected (snd (grid_add_building s p g)) r \<longleftrightarrow>
    is_connected g r \<or> (st_id r = st_id s \<and> st_location r = st_location s)"
  by (auto simp: is_connected_def grid_add_building_def node_eq_def Let_def)

lemma split_keeps_all_buildings:
  assumes "h \<in> set (grid_remove_segments ss g)" "b \<in> set (buildings g)"
  shows "is_connected h (sn_structure b)"
proof -
  have f: "is_connected (fold (\<lambda>b g. snd (grid_add_building (sn_structure b) (sn_priority b) g)) bs k) r \<longleftrightarrow>
      is_connected k r \<or> (\<exists>b \<in> set bs. st_id r = st_id (sn_structure b) \<and> st_location r = st_location (sn_structure b))" for bs k r
    by (induction bs arbitrary: k) (auto simp: is_connected_add)
  obtain k where "h = attach_buildings (buildings g) k" using assms(1) by (auto simp: grid_remove_segments_def)
  then show ?thesis using assms(2) f by (auto simp: attach_buildings_def)
qed

section \<open>The operations of the net\<close>

lemma net_ok_segments:
  assumes "map segments gs = map segments hs"
  shows "net_ok gs = net_ok hs" "all_segments gs = all_segments hs"
proof -
  have len: "length gs = length hs" using assms by (metis length_map)
  have nth: "segments (gs ! i) = segments (hs ! i)" if "i < length gs" for i
    using that assms len by (metis nth_map)
  have "(\<forall>g \<in> set gs. grid_ok g) \<longleftrightarrow> (\<forall>g \<in> set hs. grid_ok g)"
    using len nth by (auto simp: all_set_conv_all_nth grid_ok_def)
  moreover have "sorted_wrt apart gs = sorted_wrt apart hs"
    using len nth by (auto simp: sorted_wrt_iff_nth_less apart_def)
  ultimately show "net_ok gs = net_ok hs" by (simp add: net_ok_def)
  show "all_segments gs = all_segments hs"
    using arg_cong [OF assms, of "\<lambda>xs. \<Union> (set ` set xs)"] by (simp add: all_segments_def)
qed

lemma remove_segments_grid:
  "net_ok (grid_remove_segments ss g) \<and> all_segments (grid_remove_segments ss g) = set (segments g) - ss"
proof -
  let ?xs = "filter (\<lambda>s. s \<notin> ss) (segments g)"
  have "map segments (grid_remove_segments ss g) = map segments (split_grids ?xs)"
    by (simp add: grid_remove_segments_def)
  from net_ok_segments [OF this] split_grids_ok [of ?xs] show ?thesis by auto
qed

lemma net_ok_append:
  "net_ok (gs @ hs) \<longleftrightarrow> net_ok gs \<and> net_ok hs \<and> (\<forall>g \<in> set gs. \<forall>h \<in> set hs. apart g h)"
  by (auto simp: net_ok_def sorted_wrt_append)

lemma net_ok_apart: "net_ok gs \<Longrightarrow> g \<in> set gs \<Longrightarrow> h \<in> set gs \<Longrightarrow> g \<noteq> h \<Longrightarrow> apart g h"
proof (induction gs)
  case (Cons x gs)
  then show ?case using apart_sym by (auto simp: net_ok_def)
qed simp

lemma net_remove_ok:
  assumes "net_ok gs"
  shows "net_ok (net_remove_segments ss gs) \<and> all_segments (net_remove_segments ss gs) = all_segments gs - ss"
  using assms
proof (induction gs)
  case (Cons g gs)
  let ?g = "grid_remove_segments ss g" and ?gs = "net_remove_segments ss gs"
  have IH: "net_ok ?gs" "all_segments ?gs = all_segments gs - ss" using Cons by (simp_all add: net_ok_def)
  have r: "net_remove_segments ss (g # gs) = ?g @ ?gs" by (simp add: net_remove_segments_def)
  have "apart x y" if "x \<in> set ?g" "y \<in> set ?gs" for x y
  proof -
    have "set (segments x) \<subseteq> set (segments g)" "set (segments y) \<subseteq> all_segments gs"
      using that remove_segments_grid [of ss g] IH(2) by (auto simp: all_segments_def)
    moreover have "a \<noteq> b \<and> \<not> touching a b" if "a \<in> set (segments g)" "b \<in> all_segments gs" for a b
      using that Cons.prems by (auto simp: net_ok_def all_segments_def apart_def)
    ultimately show ?thesis unfolding apart_def by blast
  qed
  moreover have "all_segments (?g @ ?gs) = all_segments (g # gs) - ss"
    using IH(2) remove_segments_grid [of ss g] by (auto simp: all_segments_def)
  ultimately show ?case using IH(1) remove_segments_grid [of ss g] unfolding r net_ok_append by blast
qed (simp add: net_remove_segments_def net_ok_def all_segments_def)

lemma merge_segments: "set (segments (grid_merge g h)) = set (segments g) \<union> set (segments h)"
  "distinct (segments g) \<Longrightarrow> distinct (segments (grid_merge g h))"
proof -
  have "set (fold (\<lambda>s ss. snd (hs_insert s ss)) xs ys) = set ys \<union> set xs" for xs ys :: "coord list"
    by (induction xs arbitrary: ys) auto
  moreover have "distinct ys \<Longrightarrow> distinct (fold (\<lambda>s ss. snd (hs_insert s ss)) xs ys)" for xs ys :: "coord list"
    by (induction xs arbitrary: ys) auto
  ultimately show "set (segments (grid_merge g h)) = set (segments g) \<union> set (segments h)"
    "distinct (segments g) \<Longrightarrow> distinct (segments (grid_merge g h))"
    by (simp_all add: grid_merge_def)
qed

lemma add_segment_segments: "segments (snd (grid_add_segment c g)) = snd (hs_insert c (segments g))"
  by (simp add: grid_add_segment_def split: prod.split)

lemma add_loop_result:
  assumes "add_segment_loop c gs kept m = (kept', m')"
  shows "kept' = kept @ filter (\<lambda>g. \<not> is_adj g c) gs \<and>
    (if \<exists>g \<in> set gs. is_adj g c
     then \<exists>x. m' = Some x \<and> set (segments x) =
       (case m of Some y \<Rightarrow> set (segments y) | None \<Rightarrow> {c}) \<union> (\<Union>g \<in> {g \<in> set gs. is_adj g c}. set (segments g)) \<and>
       ((\<forall>g \<in> set gs. distinct (segments g)) \<longrightarrow> (\<forall>y. m = Some y \<longrightarrow> distinct (segments y)) \<longrightarrow> distinct (segments x))
     else m' = m)"
  using assms
proof (induction c gs kept m rule: add_segment_loop.induct)
  case (2 c g gs kept m)
  show ?case
  proof (cases "is_adj g c")
    case True
    let ?m = "case m of Some x \<Rightarrow> grid_merge x g | None \<Rightarrow> snd (grid_add_segment c g)"
    have s: "set (segments ?m) = (case m of Some y \<Rightarrow> set (segments y) | None \<Rightarrow> {c}) \<union> set (segments g)"
      by (auto simp: merge_segments add_segment_segments split: option.split)
    have d: "distinct (segments ?m)" if "distinct (segments g)" "\<And>y. m = Some y \<Longrightarrow> distinct (segments y)"
      using that by (auto simp: merge_segments add_segment_segments split: option.split)
    have IH: "add_segment_loop c gs kept (Some ?m) = (kept', m')" using 2(3) True by simp
    note r = 2(1) [OF True IH]
    show ?thesis
    proof (cases "\<exists>g \<in> set gs. is_adj g c")
      case ex: True
      then obtain x where x: "m' = Some x" "set (segments x) = set (segments ?m) \<union> (\<Union>g \<in> {g \<in> set gs. is_adj g c}. set (segments g))"
        "(\<forall>g \<in> set gs. distinct (segments g)) \<longrightarrow> distinct (segments ?m) \<longrightarrow> distinct (segments x)"
        using r by auto
      have "{h \<in> set (g # gs). is_adj h c} = insert g {h \<in> set gs. is_adj h c}" using True by auto
      then show ?thesis using r True x d by (auto simp: s)
    next
      case False
      then have "{h \<in> set (g # gs). is_adj h c} = {g}" using True by auto
      then show ?thesis using r True False d by (auto simp: s)
    qed
  next
    case False
    then have e: "{h \<in> set (g # gs). is_adj h c} = {h \<in> set gs. is_adj h c}" by auto
    have "add_segment_loop c gs (kept @ [g]) m = (kept', m')" using 2(3) False by simp
    note r = 2(2) [OF False this]
    show ?thesis
    proof (cases "\<exists>h \<in> set gs. is_adj h c")
      case True
      then obtain x where "m' = Some x" "set (segments x) =
          (case m of Some y \<Rightarrow> set (segments y) | None \<Rightarrow> {c}) \<union> (\<Union>h \<in> {h \<in> set gs. is_adj h c}. set (segments h))"
        "(\<forall>h \<in> set gs. distinct (segments h)) \<longrightarrow> (\<forall>y. m = Some y \<longrightarrow> distinct (segments y)) \<longrightarrow> distinct (segments x)"
        using r by auto
      then show ?thesis using r True False unfolding e by auto
    qed (use r False in auto)
  qed
qed simp

lemma master_connected:
  assumes "\<And>g. g \<in> G \<Longrightarrow> grid_ok g \<and> is_adj g c"
  shows "connected_set ({c} \<union> (\<Union>g \<in> G. set (segments g)))"
proof (rule connected_starI)
  let ?S = "{c} \<union> (\<Union>g \<in> G. set (segments g))"
  fix a assume "a \<in> ?S"
  show "(c, a) \<in> (links ?S)\<^sup>*"
  proof (cases "a = c")
    case False
    then obtain g where g: "g \<in> G" "a \<in> set (segments g)" using \<open>a \<in> ?S\<close> by blast
    then obtain q where q: "q \<in> set (segments g)" "q = c \<or> touching c q" using assms is_adj_iff by blast
    have "(q, a) \<in> (links (set (segments g)))\<^sup>*" using assms [OF g(1)] q(1) g(2) by (simp add: grid_ok_def connected_set_def)
    then have "(q, a) \<in> (links ?S)\<^sup>*" by (rule links_mono [rotated]) (use g(1) in auto)
    moreover have "(c, q) \<in> (links ?S)\<^sup>*"
    proof (cases "q = c")
      case False
      then have "(c, q) \<in> links ?S" using q g(1) by (auto simp: links_def)
      then show ?thesis ..
    qed simp
    ultimately show ?thesis by simp
  qed simp
qed

lemma net_add_ok:
  assumes "net_ok gs"
  shows "net_ok (net_add_segment c gs) \<and> all_segments (net_add_segment c gs) = insert c (all_segments gs)"
proof -
  let ?near = "{g \<in> set gs. is_adj g c}" and ?far = "filter (\<lambda>g. \<not> is_adj g c) gs"
  have ok: "grid_ok g" if "g \<in> set gs" for g using that assms by (simp add: net_ok_def)
  have "\<exists>m. net_add_segment c gs = ?far @ [m] \<and> set (segments m) = {c} \<union> (\<Union>g \<in> ?near. set (segments g)) \<and> distinct (segments m)"
  proof -
    obtain kept m where l: "add_segment_loop c gs [] None = (kept, m)" by fastforce
    have d: "\<forall>g \<in> set gs. distinct (segments g)" using ok by (simp add: grid_ok_def)
    show ?thesis
    proof (cases "\<exists>g \<in> set gs. is_adj g c")
      case True
      then show ?thesis using add_loop_result [OF l] d by (auto simp: net_add_segment_def l)
    next
      case False
      then have "?near = {}" "kept = ?far" "m = None" using add_loop_result [OF l] by auto
      then show ?thesis by (auto simp: net_add_segment_def l grid_new_def)
    qed
  qed
  then obtain m where m: "net_add_segment c gs = ?far @ [m]" "set (segments m) = {c} \<union> (\<Union>g \<in> ?near. set (segments g))"
    "distinct (segments m)" by blast
  have "connected_set ({c} \<union> (\<Union>g \<in> ?near. set (segments g)))" by (rule master_connected) (use ok in auto)
  moreover have "segments m \<noteq> []" using m(2) by (metis Un_insert_left insert_not_empty list.set(1))
  ultimately have "grid_ok m" using m by (simp add: grid_ok_def)
  then have one: "net_ok [m]" by (simp add: net_ok_def)
  have far: "net_ok ?far" using assms by (auto simp: net_ok_def sorted_wrt_filter)
  have "apart g m" if g: "g \<in> set ?far" for g
  proof -
    have "a \<noteq> b \<and> \<not> touching a b" if ab: "a \<in> set (segments g)" "b \<in> set (segments m)" for a b
    proof (cases "b = c")
      case True
      then show ?thesis using g ab(1) touching_sym by (auto simp: is_adj_iff)
    next
      case False
      then obtain h where "h \<in> ?near" "b \<in> set (segments h)" using ab(2) unfolding m(2) by blast
      moreover have "apart g h" if "h \<in> ?near" for h
        by (rule net_ok_apart [OF assms]) (use that g in auto)
      ultimately show ?thesis using ab(1) unfolding apart_def by blast
    qed
    then show ?thesis by (simp add: apart_def)
  qed
  then have "net_ok (?far @ [m])" using one far by (simp add: net_ok_append)
  moreover have "all_segments (?far @ [m]) = insert c (all_segments gs)"
    using m(2) by (auto simp: all_segments_def)
  ultimately show ?thesis using m(1) by simp
qed

lemma building_segments:
  "map segments (snd (net_add_building s p gs)) = map segments gs"
  "map segments (snd (net_remove_building s gs)) = map segments gs"
  by (auto simp: net_add_building_def net_remove_building_def grid_add_building_def grid_remove_building_def Let_def)

section \<open>The net is the set of its connected components\<close>

datatype net_op =
    AddSegment coord
  | RemoveSegments "coord set"
  | AddBuilding structure_info u8
  | RemoveBuilding structure_info

fun run_op :: "net_op \<Rightarrow> grid_net \<Rightarrow> grid_net" where
  "run_op (AddSegment c) gs = net_add_segment c gs"
| "run_op (RemoveSegments ss) gs = net_remove_segments ss gs"
| "run_op (AddBuilding s p) gs = snd (net_add_building s p gs)"
| "run_op (RemoveBuilding s) gs = snd (net_remove_building s gs)"

fun segments_after :: "net_op \<Rightarrow> coord set \<Rightarrow> coord set" where
  "segments_after (AddSegment c) S = insert c S"
| "segments_after (RemoveSegments ss) S = S - ss"
| "segments_after (AddBuilding s p) S = S"
| "segments_after (RemoveBuilding s) S = S"

lemma run_op_ok:
  assumes "net_ok gs"
  shows "net_ok (run_op op gs)" "all_segments (run_op op gs) = segments_after op (all_segments gs)"
  using assms net_add_ok net_remove_ok net_ok_segments [OF building_segments(1)] net_ok_segments [OF building_segments(2)]
  by (cases op; simp)+

lemma runs_ok: "net_ok gs \<Longrightarrow> net_ok (fold run_op ops gs) \<and> all_segments (fold run_op ops gs) = fold segments_after ops (all_segments gs)"
  by (induction ops arbitrary: gs) (simp_all add: run_op_ok)

lemma net_ok_components:
  assumes "net_ok gs"
  shows "(\<exists>g \<in> set gs. a \<in> set (segments g) \<and> b \<in> set (segments g)) \<longleftrightarrow>
    a \<in> all_segments gs \<and> (a, b) \<in> (links (all_segments gs))\<^sup>*"
proof
  assume "\<exists>g \<in> set gs. a \<in> set (segments g) \<and> b \<in> set (segments g)"
  then obtain g where g: "g \<in> set gs" "a \<in> set (segments g)" "b \<in> set (segments g)" by blast
  then have "(a, b) \<in> (links (set (segments g)))\<^sup>*" using assms by (auto simp: net_ok_def grid_ok_def connected_set_def)
  then have "(a, b) \<in> (links (all_segments gs))\<^sup>*" by (rule links_mono [rotated]) (use g(1) in \<open>auto simp: all_segments_def\<close>)
  then show "a \<in> all_segments gs \<and> (a, b) \<in> (links (all_segments gs))\<^sup>*" using g by (auto simp: all_segments_def)
next
  assume "a \<in> all_segments gs \<and> (a, b) \<in> (links (all_segments gs))\<^sup>*"
  then obtain g where g: "g \<in> set gs" "a \<in> set (segments g)" and p: "(a, b) \<in> (links (all_segments gs))\<^sup>*"
    by (auto simp: all_segments_def)
  from p have "b \<in> set (segments g)"
  proof induction
    case (step y z)
    then obtain h where h: "h \<in> set gs" "z \<in> set (segments h)" "touching y z" by (auto simp: links_def all_segments_def)
    then have "\<not> apart g h" using step.IH unfolding apart_def by blast
    then show ?case using net_ok_apart [OF assms g(1) h(1)] h(2) by blast
  qed (rule g)
  then show "\<exists>g \<in> set gs. a \<in> set (segments g) \<and> b \<in> set (segments g)" using g by blast
qed

text \<open>
  C25: after any sequence of additions and removals of segments and buildings, the grids of a net
  hold exactly the segments that were added and not removed since, and two segments are in the same
  grid exactly when a path of neighbouring segments leads from one to the other; no grid is empty
  and no segment is in two grids.
\<close>

theorem grids_are_components:
  "let net = fold run_op ops grid_net_new; S = fold segments_after ops {} in
    all_segments net = S \<and> [] \<notin> segments ` set net \<and>
    (\<forall>a b. (\<exists>g \<in> set net. a \<in> set (segments g) \<and> b \<in> set (segments g)) \<longleftrightarrow> a \<in> S \<and> (a, b) \<in> (links S)\<^sup>*) \<and>
    sorted_wrt (\<lambda>g h. set (segments g) \<inter> set (segments h) = {}) net"
proof -
  define net where "net = fold run_op ops grid_net_new"
  define S where "S = fold segments_after ops {}"
  have ok: "net_ok net" and S: "all_segments net = S"
    using runs_ok [of grid_net_new ops] by (simp_all add: net_def S_def grid_net_new_def net_ok_def all_segments_def)
  have "sorted_wrt (\<lambda>g h. set (segments g) \<inter> set (segments h) = {}) net"
    by (rule sorted_wrt_mono_rel [of _ apart]) (use ok in \<open>auto simp: net_ok_def apart_def\<close>)
  moreover have "[] \<notin> segments ` set net" using ok by (auto simp: net_ok_def grid_ok_def)
  ultimately show ?thesis
    using net_ok_components [OF ok] unfolding net_def [symmetric] S_def [symmetric] Let_def S by blast
qed

theorem grids_are_components_witness:
  "\<exists>g \<in> set (fold run_op [AddSegment (Coord 0 0), AddSegment (Coord 2 0), AddSegment (Coord 1 0)] grid_net_new).
     Coord 0 0 \<in> set (segments g) \<and> Coord 2 0 \<in> set (segments g)"
proof -
  let ?S = "{Coord 1 0, Coord 2 0, Coord 0 0}"
  have "(Coord 0 0, Coord 1 0) \<in> links ?S" "(Coord 1 0, Coord 2 0) \<in> links ?S"
    by (simp_all add: links_def touching_iff)
  then have "(Coord 0 0, Coord 2 0) \<in> (links ?S)\<^sup>*" by (meson rtrancl.simps)
  then show ?thesis
    using grids_are_components [of "[AddSegment (Coord 0 0), AddSegment (Coord 2 0), AddSegment (Coord 1 0)]"]
    by (simp add: Let_def)
qed

end
