(* ===== verification/Plot_World.thy ===== *)
theory Plot_World
  imports Power_Grid
begin

text \<open>
  The plot of the game client, \<open>client/src/world/plot.rs\<close>: the maps of heights and roads, the index of
  a coordinate in them, and the neighbours of a coordinate with the cost of going there. The costs
  of the diagonals are the integer parts of 10 and 30 times the square root of 2. The lists of
  structures, agents and mobiles, which nothing reads yet, are left out.
\<close>

definition PLOT_SIZE :: nat where
  "PLOT_SIZE = 256"

definition ROAD_TRAVEL_COST :: nat where
  "ROAD_TRAVEL_COST = 10"

definition NON_ROAD_TRAVEL_COST :: nat where
  "NON_ROAD_TRAVEL_COST = ROAD_TRAVEL_COST * 3"

definition DIAGONAL_ROAD_TRAVEL_COST :: nat where
  "DIAGONAL_ROAD_TRAVEL_COST = 14"

definition DIAGONAL_NON_ROAD_TRAVEL_COST :: nat where
  "DIAGONAL_NON_ROAD_TRAVEL_COST = 42"

record plot =
  height_map :: "bool list"
  roads :: "bool list"
  power_grids :: "grid list"
  data_grids :: "grid list"

definition plot_generate :: plot where
  "plot_generate = \<lparr>height_map = replicate (PLOT_SIZE * PLOT_SIZE) False,
     roads = replicate (PLOT_SIZE * PLOT_SIZE) False, power_grids = [], data_grids = []\<rparr>"

definition coord_to_index :: "coord \<Rightarrow> (nat, 'e) result" where
  "coord_to_index c =
     (let x = (if 0 \<le> sint (coord_x c) then sint (coord_x c) else int PLOT_SIZE + sint (coord_x c));
          y = (if 0 \<le> sint (coord_y c) then sint (coord_y c) else int PLOT_SIZE + sint (coord_y c))
      in and_then (assert_rs (0 \<le> x \<and> 0 \<le> y))
        (\<lambda>_. and_then (assert_rs (x < int PLOT_SIZE \<and> y < int PLOT_SIZE))
          (\<lambda>_. Ok (nat y * PLOT_SIZE + nat x))))"

definition bit_at :: "bool list \<Rightarrow> nat \<Rightarrow> (bool, 'e) result" where
  "bit_at bs i = (if i < length bs then Ok (bs ! i) else Panic)"

definition inside :: "coord \<Rightarrow> bool" where
  "inside c \<longleftrightarrow> \<not> (int PLOT_SIZE \<le> sint (coord_x c) \<or> sint (coord_x c) < 0 \<or>
     int PLOT_SIZE \<le> sint (coord_y c) \<or> sint (coord_y c) < 0)"

definition travel_cost :: "bool \<Rightarrow> direction \<Rightarrow> nat" where
  "travel_cost road dir =
     (if road then if is_cardinal dir then ROAD_TRAVEL_COST else DIAGONAL_ROAD_TRAVEL_COST
      else if is_cardinal dir then NON_ROAD_TRAVEL_COST else DIAGONAL_NON_ROAD_TRAVEL_COST)"

definition neighbor_step :: "plot \<Rightarrow> coord \<Rightarrow> direction \<Rightarrow> (coord \<times> nat) list \<Rightarrow> ((coord \<times> nat) list, 'e) result" where
  "neighbor_step self loc dir neighbors =
     (let n_loc = move_in_dir loc dir 1 in
      if \<not> inside n_loc then Ok neighbors
      else and_then (coord_to_index n_loc)
        (\<lambda>i. and_then (bit_at (height_map self) i)
          (\<lambda>open. if \<not> open then Ok neighbors
            else and_then (bit_at (roads self) i)
              (\<lambda>road. Ok (neighbors @ [(n_loc, travel_cost road dir)])))))"

definition neighboring_paths :: "plot \<Rightarrow> coord \<Rightarrow> ((coord \<times> nat) list, 'e) result" where
  "neighboring_paths self loc = for_each (neighbor_step self loc) direction_iterator []"

section \<open>Bounds\<close>

definition plot_ok :: "plot \<Rightarrow> bool" where
  "plot_ok p \<longleftrightarrow> length (height_map p) = PLOT_SIZE * PLOT_SIZE \<and> length (roads p) = PLOT_SIZE * PLOT_SIZE"

definition plot_index :: "coord \<Rightarrow> nat" where
  "plot_index c = nat (sint (coord_y c)) * PLOT_SIZE + nat (sint (coord_x c))"

lemma inside_index:
  assumes "inside c"
  shows "coord_to_index c = Ok (plot_index c)" "plot_index c < PLOT_SIZE * PLOT_SIZE"
  using assms by (auto simp: inside_def coord_to_index_def plot_index_def PLOT_SIZE_def Let_def)

text \<open>Two coordinates on the plot share no place in the maps.\<close>

lemma plot_index_inj:
  assumes "inside a" "inside b" "plot_index a = plot_index b"
  shows "a = b"
proof -
  have 1: "nat (sint (coord_x a)) < 256" "nat (sint (coord_x b)) < 256" using assms(1,2) by (auto simp: inside_def PLOT_SIZE_def)
  have e: "nat (sint (coord_y a)) * 256 + nat (sint (coord_x a)) = nat (sint (coord_y b)) * 256 + nat (sint (coord_x b))"
    using assms(3) by (simp add: plot_index_def PLOT_SIZE_def)
  have "nat (sint (coord_x a)) = nat (sint (coord_x b))" using arg_cong [OF e, of "\<lambda>n. n mod 256"] 1 by simp
  moreover from this e have "nat (sint (coord_y a)) = nat (sint (coord_y b))" by simp
  ultimately have "coord_x a = coord_x b" "coord_y a = coord_y b"
    using assms(1,2) by (auto simp: inside_def sint_eq_iff [symmetric])
  then show ?thesis by (metis coord_eta)
qed

text \<open>
  On a plot with maps of the right size \<open>neighboring_paths\<close> does not panic, and it lists, in the order of
  the directions, the places on the plot whose bit in the height map is set.
\<close>

theorem neighboring_paths_exact:
  assumes "plot_ok p"
  shows "(neighboring_paths p loc :: (_, 'e) result) = Ok (map (\<lambda>d. (move_in_dir loc d 1, travel_cost (roads p ! plot_index (move_in_dir loc d 1)) d))
    (filter (\<lambda>d. inside (move_in_dir loc d 1) \<and> height_map p ! plot_index (move_in_dir loc d 1)) direction_iterator))"
proof -
  let ?f = "\<lambda>d. (move_in_dir loc d 1, travel_cost (roads p ! plot_index (move_in_dir loc d 1)) d)"
  let ?P = "\<lambda>d. inside (move_in_dir loc d 1) \<and> height_map p ! plot_index (move_in_dir loc d 1)"
  have step: "(neighbor_step p loc d ns :: (_, 'e) result) = Ok (if ?P d then ns @ [?f d] else ns)" for d ns
    using assms by (auto simp: neighbor_step_def bit_at_def plot_ok_def inside_index Let_def)
  have "(for_each (neighbor_step p loc) ds ns :: (_, 'e) result) = Ok (ns @ map ?f (filter ?P ds))" for ds ns
    by (induction ds arbitrary: ns) (simp_all add: step)
  then show ?thesis by (simp add: neighboring_paths_def)
qed

lemma generated_plot_is_closed: "plot_ok plot_generate" "neighboring_paths plot_generate loc = Ok []"
proof -
  show ok: "plot_ok plot_generate" by (simp add: plot_ok_def plot_generate_def)
  have "\<not> height_map plot_generate ! plot_index c" if "inside c" for c
    using inside_index(2) [OF that] by (simp add: plot_generate_def)
  then have "filter (\<lambda>d. inside (move_in_dir loc d 1) \<and> height_map plot_generate ! plot_index (move_in_dir loc d 1)) ds = []" for ds
    by auto
  then show "neighboring_paths plot_generate loc = Ok []" unfolding neighboring_paths_exact [OF ok] by simp
qed

end
