(* ===== verification/Rpc.thy ===== *)
theory Rpc
  imports Keeper_View Net_Client
begin

text \<open>
  The handlers of the RPC interface, \<open>core/src/rpc\<close>: the reading of parameters and the mapping of
  errors (\<open>types.rs\<close>), the queries and commands on the chain (\<open>blockchain.rs\<close>) and the commands to the
  network thread (\<open>network.rs\<close>). A handler is modelled up to the value that it passes to the JSON
  library; the reading of one parameter at a type is a field of the record \<open>json_ext\<close>, like the
  lower-case form of a text.
\<close>

section \<open>Parameters and errors\<close>

datatype rpc_message =
    Text string
  | DebugJson string
  | DebugLogic logic_error

datatype rpc_error = InternalError | InvalidRequest | InvalidParams rpc_message

datatype 'v params = ArrayParams "'v list" | MapParams | NoParams

record 'v json_ext =
  j_string :: "'v \<Rightarrow> (string, string) result"
  j_u256 :: "'v \<Rightarrow> (u256, string) result"
  j_u256_array :: "'v \<Rightarrow> (u256, string) result"
  j_u160 :: "'v \<Rightarrow> (u160, string) result"
  j_u64 :: "'v \<Rightarrow> (u64, string) result"
  j_usize :: "'v \<Rightarrow> (usize, string) result"
  j_coord :: "'v \<Rightarrow> (coord, string) result"
  j_block :: "'v \<Rightarrow> (block, string) result"
  j_txn :: "'v \<Rightarrow> (txn, string) result"
  to_lowercase :: "string \<Rightarrow> string"

definition expect_array :: "'v params \<Rightarrow> nat \<Rightarrow> nat \<Rightarrow> ('v list, rpc_error) result" where
  "expect_array p start stop =
     (case p of
        ArrayParams a \<Rightarrow>
          if start \<le> length a \<and> length a < stop then Ok a
          else Err (InvalidParams (Text ''Incorrect number of arguments.''))
      | _ \<Rightarrow> Err (InvalidParams (Text ''Expected array.'')))"

definition from_value :: "('v \<Rightarrow> ('a, string) result) \<Rightarrow> 'v \<Rightarrow> ('a, rpc_error) result" where
  "from_value read v = map_err (\<lambda>e. InvalidParams (DebugJson e)) (read v)"

definition parse_args_simple ::
  "('v \<Rightarrow> ('a, string) result) \<Rightarrow> 'v params \<Rightarrow> nat \<Rightarrow> nat \<Rightarrow> ('a list, rpc_error) result" where
  "parse_args_simple read p start stop = and_then (expect_array p start stop) (map_results (from_value read))"

definition expect_one_arg :: "('v \<Rightarrow> ('a, string) result) \<Rightarrow> 'v params \<Rightarrow> ('a, rpc_error) result" where
  "expect_one_arg read p =
     and_then (expect_array p 1 2) (\<lambda>array. case rev array of [] \<Rightarrow> Panic | v # _ \<Rightarrow> from_value read v)"

definition expect_two_args ::
  "('v \<Rightarrow> ('a, string) result) \<Rightarrow> ('v \<Rightarrow> ('b, string) result) \<Rightarrow> 'v params \<Rightarrow> ('a \<times> 'b, rpc_error) result" where
  "expect_two_args read_a read_b p =
     and_then (expect_array p 2 3)
       (\<lambda>array. case rev array of
          vb # va # _ \<Rightarrow> and_then (from_value read_b vb) (\<lambda>b. and_then (from_value read_a va) (\<lambda>a. Ok (a, b)))
        | _ \<Rightarrow> Panic)"

fun map_rk_err :: "error \<Rightarrow> rpc_error" where
  "map_rk_err (DB _) = InternalError"
| "map_rk_err (Deserialize m) = InvalidParams (Text m)"
| "map_rk_err (Logic err) = InvalidParams (DebugLogic err)"
| "map_rk_err (OutOfMemory m) = InvalidParams (Text m)"
| "map_rk_err (NotFound _) = InvalidRequest"

abbreviation to_rpc_res :: "('a, error) result \<Rightarrow> ('a, rpc_error) result" where
  "to_rpc_res \<equiv> map_err map_rk_err"

definition rpc_do :: "('x, 'a, error) action \<Rightarrow> ('x, 'a, rpc_error) action" where
  "rpc_do m s = (case m s of (r, s') \<Rightarrow> (to_rpc_res r, s'))"

section \<open>The chain\<close>

record block_header_rpc =
  bhr_version :: u16
  bhr_timestamp :: time
  bhr_shard :: u256
  bhr_prev :: u256
  bhr_merkle_root :: u256
  bhr_hash :: u256
  bhr_txn_count :: u64
  bhr_height :: u64

record block_txn_rpc =
  btr_timestamp :: time
  btr_hash :: u256
  btr_size :: u64
  btr_change_count :: u64

record block_rpc =
  br_header :: block_header_rpc
  br_txns :: "block_txn_rpc list"
  br_status :: string
  br_next :: u256

record txn_rpc =
  tr_hash :: u256
  tr_timestamp :: time
  tr_creator :: u160
  tr_mutation :: mutation
  tr_signature :: bin
  tr_size :: u64
  tr_block :: "u256 set option"

definition block_header_rpc_new ::
  "'s ext \<Rightarrow> ('s, 'g) record_keeper \<Rightarrow> block_header \<Rightarrow> (block_header_rpc, error) result" where
  "block_header_rpc_new X rk hdr =
     (let block_hash = header_calculate_hash X hdr in
       and_then (rk_get_block_height X rk block_hash)
         (\<lambda>h. and_then (rk_get_block X rk block_hash)
           (\<lambda>blk. Ok \<lparr>bhr_version = version hdr, bhr_timestamp = timestamp hdr, bhr_shard = shard hdr, bhr_prev = prev hdr,
              bhr_merkle_root = merkle_root hdr, bhr_hash = block_hash, bhr_txn_count = of_nat (length (txns blk)),
              bhr_height = h\<rparr>)))"

definition block_txn_rpc_new :: "'s ext \<Rightarrow> ('s, 'g) record_keeper \<Rightarrow> u256 \<Rightarrow> (block_txn_rpc, error) result" where
  "block_txn_rpc_new X rk h =
     and_then (rk_get_txn X rk h)
       (\<lambda>t. Ok \<lparr>btr_timestamp = txn_timestamp t, btr_hash = h, btr_size = of_nat (txn_calculate_size t),
          btr_change_count = of_nat (length (changes (txn_mutation t)))\<rparr>)"

definition block_rpc_new :: "'s ext \<Rightarrow> ('s, 'g) record_keeper \<Rightarrow> block \<Rightarrow> (block_rpc, error) result" where
  "block_rpc_new X rk blk =
     (let block_hash = block_calculate_hash X blk in
       and_then (block_header_rpc_new X rk (header blk))
         (\<lambda>bh. and_then (rk_get_blocks_of_height X rk (bhr_height bh + 1))
           (\<lambda>l. let nh = (case l of [] \<Rightarrow> U256_ZERO | b # _ \<Rightarrow> b) in
             and_then
               (case rk_is_block_in_current_chain X rk block_hash of
                  Ok b \<Rightarrow> Ok (if b then ''Mainchain'' else ''Uncle'')
                | Err _ \<Rightarrow> Ok ''''
                | Panic \<Rightarrow> Panic
                | Diverge \<Rightarrow> Diverge)
               (\<lambda>status. and_then (map_results (block_txn_rpc_new X rk) (txns blk))
                 (\<lambda>ts. Ok \<lparr>br_header = bh, br_txns = ts, br_status = status, br_next = nh\<rparr>)))))"

definition txn_rpc_new :: "'s ext \<Rightarrow> ('s, 'g) record_keeper \<Rightarrow> txn \<Rightarrow> (txn_rpc, error) result" where
  "txn_rpc_new X rk t =
     and_then (rk_get_txn_blocks X rk (txn_calculate_hash X t))
       (\<lambda>bs. Ok \<lparr>tr_hash = txn_calculate_hash X t, tr_timestamp = txn_timestamp t, tr_creator = creator t,
          tr_mutation = txn_mutation t, tr_signature = signature t, tr_size = of_nat (txn_calculate_size t),
          tr_block = bs\<rparr>)"

definition rpc_get_chain_stats ::
  "'s ext \<Rightarrow> ('s, 'g) record_keeper \<Rightarrow> (record_keeper_statistics, rpc_error) result" where
  "rpc_get_chain_stats X rk = to_rpc_res (rk_get_stats X rk)"

definition rpc_add_block ::
  "'v json_ext \<Rightarrow> 's ext \<Rightarrow> time \<Rightarrow> 'v params \<Rightarrow> (('s, 'g) record_keeper, bool, rpc_error) action" where
  "rpc_add_block J X now p =
     bind_st (read_st (\<lambda>_. expect_one_arg (j_block J) p)) (\<lambda>blk. rpc_do (rk_add_block X now blk True))"

definition rpc_add_pending_txn ::
  "'v json_ext \<Rightarrow> 's ext \<Rightarrow> time \<Rightarrow> 'v params \<Rightarrow> (('s, 'g) record_keeper, bool, rpc_error) action" where
  "rpc_add_pending_txn J X now p =
     bind_st (read_st (\<lambda>_. expect_one_arg (j_txn J) p)) (\<lambda>t. rpc_do (rk_add_pending_txn X now t True))"

definition rpc_get_validator_key ::
  "'v json_ext \<Rightarrow> 's ext \<Rightarrow> ('s, 'g) record_keeper \<Rightarrow> 'v params \<Rightarrow> (bin, rpc_error) result" where
  "rpc_get_validator_key J X rk p = and_then (expect_one_arg (j_u160 J) p) (\<lambda>i. to_rpc_res (rk_get_validator_key X rk i))"

definition rpc_get_validator_stake ::
  "'v json_ext \<Rightarrow> ('s, 'g) record_keeper \<Rightarrow> 'v params \<Rightarrow> (u64, rpc_error) result" where
  "rpc_get_validator_stake J rk p = and_then (expect_one_arg (j_u160 J) p) (\<lambda>i. to_rpc_res (rk_get_validator_stake rk i))"

definition rpc_get_current_block_hash :: "('s, 'g) record_keeper \<Rightarrow> (u256, rpc_error) result" where
  "rpc_get_current_block_hash rk = Ok (rk_get_current_block_hash rk)"

definition rpc_get_current_block_header ::
  "'s ext \<Rightarrow> ('s, 'g) record_keeper \<Rightarrow> (block_header, rpc_error) result" where
  "rpc_get_current_block_header X rk = to_rpc_res (rk_get_current_block_header X rk)"

definition rpc_get_current_block :: "'s ext \<Rightarrow> ('s, 'g) record_keeper \<Rightarrow> (block_rpc, rpc_error) result" where
  "rpc_get_current_block X rk = to_rpc_res (and_then (rk_get_current_block X rk) (block_rpc_new X rk))"

definition rpc_get_block_height ::
  "'v json_ext \<Rightarrow> 's ext \<Rightarrow> ('s, 'g) record_keeper \<Rightarrow> 'v params \<Rightarrow> (u64, rpc_error) result" where
  "rpc_get_block_height J X rk p = and_then (expect_one_arg (j_u256 J) p) (\<lambda>h. to_rpc_res (rk_get_block_height X rk h))"

definition rpc_get_blocks_of_height ::
  "'v json_ext \<Rightarrow> 's ext \<Rightarrow> ('s, 'g) record_keeper \<Rightarrow> 'v params \<Rightarrow> (u256 list, rpc_error) result" where
  "rpc_get_blocks_of_height J X rk p =
     and_then (expect_one_arg (j_u64 J) p) (\<lambda>n. to_rpc_res (rk_get_blocks_of_height X rk n))"

definition rpc_get_latest_blocks ::
  "'v json_ext \<Rightarrow> 's ext \<Rightarrow> ('s, 'g) record_keeper \<Rightarrow> 'v params \<Rightarrow> (block_header_rpc list, rpc_error) result" where
  "rpc_get_latest_blocks J X rk p =
     and_then (expect_one_arg (j_usize J) p)
       (\<lambda>count. if 100 < count then Err (InvalidParams (Text ''Count too large.''))
          else to_rpc_res (and_then (rk_get_latest_blocks X rk (unat count)) (map_results (block_header_rpc_new X rk))))"

definition rpc_get_plot_events ::
  "'v json_ext \<Rightarrow> 's ext \<Rightarrow> ('s, 'g) record_keeper \<Rightarrow> 'v params \<Rightarrow> (raw_events, rpc_error) result" where
  "rpc_get_plot_events J X rk p =
     and_then (expect_two_args (j_coord J) (j_u64 J) p)
       (\<lambda>(plot_id, after_tick). to_rpc_res (rk_get_plot_events X rk plot_id after_tick))"

definition rpc_get_block_header ::
  "'v json_ext \<Rightarrow> 's ext \<Rightarrow> ('s, 'g) record_keeper \<Rightarrow> 'v params \<Rightarrow> (block_header, rpc_error) result" where
  "rpc_get_block_header J X rk p =
     and_then (expect_one_arg (j_u256_array J) p) (\<lambda>h. to_rpc_res (rk_get_block_header X rk h))"

definition rpc_get_block ::
  "'v json_ext \<Rightarrow> 's ext \<Rightarrow> ('s, 'g) record_keeper \<Rightarrow> 'v params \<Rightarrow> (block_rpc, rpc_error) result" where
  "rpc_get_block J X rk p =
     and_then (expect_one_arg (j_u256 J) p)
       (\<lambda>h. to_rpc_res (and_then (rk_get_block X rk h) (block_rpc_new X rk)))"

definition rpc_get_txn ::
  "'v json_ext \<Rightarrow> 's ext \<Rightarrow> ('s, 'g) record_keeper \<Rightarrow> 'v params \<Rightarrow> (txn_rpc, rpc_error) result" where
  "rpc_get_txn J X rk p =
     and_then (expect_one_arg (j_u256 J) p) (\<lambda>h. to_rpc_res (and_then (rk_get_txn X rk h) (txn_rpc_new X rk)))"

definition rpc_get_txn_blocks ::
  "'v json_ext \<Rightarrow> 's ext \<Rightarrow> ('s, 'g) record_keeper \<Rightarrow> 'v params \<Rightarrow> (u256 set option, rpc_error) result" where
  "rpc_get_txn_blocks J X rk p = and_then (expect_one_arg (j_u256 J) p) (\<lambda>h. to_rpc_res (rk_get_txn_blocks X rk h))"

definition rpc_get_account_txns ::
  "'v json_ext \<Rightarrow> 's ext \<Rightarrow> ('s, 'g) record_keeper \<Rightarrow> 'v params \<Rightarrow> (u256 set, rpc_error) result" where
  "rpc_get_account_txns J X rk p = and_then (expect_one_arg (j_u160 J) p) (\<lambda>h. to_rpc_res (rk_get_account_txns X rk h))"

definition rpc_get_txn_receive_time ::
  "'v json_ext \<Rightarrow> 's ext \<Rightarrow> ('s, 'g) record_keeper \<Rightarrow> 'v params \<Rightarrow> (time, rpc_error) result" where
  "rpc_get_txn_receive_time J X rk p =
     and_then (expect_one_arg (j_u256 J) p) (\<lambda>h. to_rpc_res (rk_get_txn_receive_time X rk h))"

definition rpc_sign_txn ::
  "'v json_ext \<Rightarrow> 's ext \<Rightarrow> pkey \<Rightarrow> bin \<Rightarrow> 'v params \<Rightarrow> (('s, 'g) record_keeper, u256 \<times> txn, rpc_error) action" where
  "rpc_sign_txn J X forge_key der p =
     bind_st (read_st (\<lambda>_. expect_one_arg (j_txn J) p))
       (\<lambda>t. let t = txn_sign X (t\<lparr>creator := hash_pub_key X der\<rparr>) forge_key in
         bind_st (rpc_do (rk_is_valid_txn X t)) (\<lambda>_. return_st (txn_calculate_hash X t, t)))"

section \<open>The network\<close>

text \<open>The command that a call of \<open>attach_network\<close> sends to the network thread.\<close>

definition parse_or_zero :: "string \<Rightarrow> (u256, 'e) result" where
  "parse_or_zero s =
     (case u256_from_str s of Ok i \<Rightarrow> Ok i | Err _ \<Rightarrow> Ok U256_ZERO | Panic \<Rightarrow> Panic | Diverge \<Rightarrow> Diverge)"

definition rpc_attach_network :: "'v json_ext \<Rightarrow> 'v params \<Rightarrow> (event, rpc_error) result" where
  "rpc_attach_network J p =
     and_then (parse_args_simple (j_string J) p 2 1000)
       (\<lambda>args. and_then (parse_or_zero (args ! 1))
         (\<lambda>network_id.
           if args ! 0 = ''add'' then
             if length args < 3 then Panic
             else if args ! 2 = ''primary'' then Ok (AttachCmd network_id Primary)
             else if args ! 2 = ''aux'' then Ok (AttachCmd network_id Auxillery)
             else if args ! 2 = ''queryonly'' then Ok (AttachCmd network_id QueryOnly)
             else Err (InvalidParams (Text ''Invalid network mode''))
           else if args ! 0 = ''remove'' then Ok (DetachCmd network_id)
           else Err (InvalidParams (Text (''Invalid operation: '' @ args ! 0)))))"

definition rpc_add_node :: "'v json_ext \<Rightarrow> 'v params \<Rightarrow> (string, rpc_error) result" where
  "rpc_add_node J p =
     and_then (parse_args_simple (j_string J) p 1 4)
       (\<lambda>args. if length args = 3 then Ok ''Not implemented''
         else if length args = 1 \<and> args ! 0 = ''help''
         then Ok ''Usage: add_node <host:port> <network_id> <add|remove>''
         else Err (InvalidParams (Text ''Incorrect number of parameters'')))"

section \<open>What a block looks like from outside\<close>

lemma current_at_height:
  assumes "marks_ok X db" "0 < n" "n \<le> block_ht X db (get_current_block_hash db)"
  shows "get_current_block_of_height X db (of_nat n) =
    Ok ((parent X db ^^ (block_ht X db (get_current_block_hash db) - n)) (get_current_block_hash db))"
  using assms by (fastforce simp: marks_ok_def dest: spec [where x = "block_ht X db (get_current_block_hash db) - n"])

lemma blocks_of_height_front:
  "get_blocks_of_height X db n = Ok l \<Longrightarrow> get_current_block_of_height X db n = Ok c \<Longrightarrow> \<exists>l'. l = c # l'"
  by (auto simp: get_blocks_of_height_def get_current_block_of_height_def result_simps
    split: result.splits error.splits list.splits)

text \<open>The first block above a given height: that of the current chain, or none above the head.\<close>

lemma next_blocks:
  assumes "tip_ok X content db" "on_top X db" "known_block X db b"
  shows "\<exists>l. get_blocks_of_height X db (of_nat (block_ht X db b) + 1) = Ok l \<and>
    (case l of [] \<Rightarrow> U256_ZERO | c # _ \<Rightarrow> c) =
      (if block_ht X db b < block_ht X db (get_current_block_hash db)
       then (parent X db ^^ (block_ht X db (get_current_block_hash db) - Suc (block_ht X db b))) (get_current_block_hash db)
       else U256_ZERO)"
proof -
  let ?h = "get_current_block_hash db" and ?n = "of_nat (block_ht X db b) + 1 :: u64"
  have inv: "chain_inv X db" and m: "marks_ok X db" using assms(1) by (simp_all add: tip_ok_def)
  obtain l where l: "get_blocks_of_height X db ?n = Ok l"
    "\<And>c. c \<in> set l \<longleftrightarrow> known_block X db c \<and> stored_height X db c = Some ?n"
    using chain_inv_height(1) [OF inv] by blast
  show ?thesis
  proof (cases "block_ht X db b < block_ht X db ?h")
    case True
    have "get_current_block_of_height X db ?n = Ok ((parent X db ^^ (block_ht X db ?h - Suc (block_ht X db b))) ?h)"
      using current_at_height [OF m, of "Suc (block_ht X db b)"] True by (simp add: add.commute)
    from blocks_of_height_front [OF l(1) this] show ?thesis using l(1) True by auto
  next
    case False
    have none: "\<not> known_block X db c \<or> stored_height X db c \<noteq> Some ?n" for c
    proof (rule ccontr)
      assume "\<not> ?thesis"
      then have c: "known_block X db c" "stored_height X db c = Some ?n" by simp_all
      have le: "block_ht X db c \<le> block_ht X db b" using assms(2) c(1) False unfolding on_top_def by fastforce
      have e: "(of_nat (block_ht X db c) :: u64) = ?n" using known_stored [OF inv c(1)] c(2) by simp
      have pos: "0 < block_ht X db c"
        using tree.ht_0_iff [of X db c] c(1) inv chain_inv_header(1) [OF inv]
        by (fastforce simp: chain_node_def known_block_def result_simps)
      have u: "unat (of_nat (block_ht X db c) :: u64) = block_ht X db c" "unat (of_nat (block_ht X db b) :: u64) = block_ht X db b"
        using block_ht_bound [of X db c] block_ht_bound [of X db b] by (simp_all add: unat_of_nat_u64)
      have "?n \<noteq> 0" using u(1) pos unfolding e by auto
      then have "unat ?n = Suc (block_ht X db b)" using u(2) unatSuc [of "of_nat (block_ht X db b) :: u64"] by (simp add: add.commute)
      then show False using u(1) le unfolding e by simp
    qed
    then have "l = []" using l(2) by (cases l) auto
    then show ?thesis using l(1) False by simp
  qed
qed

lemma on_current_chain:
  assumes "tip_ok X content db" "on_top X db" "known_block X db b"
  shows "is_part_of_current_chain X db b = Ok (\<exists>j. b = (parent X db ^^ j) (get_current_block_hash db))"
proof -
  let ?h = "get_current_block_hash db"
  have inv: "chain_inv X db" and m: "marks_ok X db" and hk: "known_block X db ?h"
    using assms(1) by (simp_all add: tip_ok_def)
  have node: "chain_node X db ?h" using inv hk by (simp add: chain_node_def)
  have nz: "b \<noteq> U256_ZERO" using assms(3) chain_inv_header(1) [OF inv] by (auto simp: known_block_def result_simps)
  then have pos: "0 < block_ht X db b" using tree.ht_0_iff [of X db b] assms(3) inv by (auto simp: chain_node_def)
  have le: "block_ht X db b \<le> block_ht X db ?h" using assms(2,3) by (simp add: on_top_def)
  have ht: "get_block_height X db b = Ok (of_nat (block_ht X db b))"
    using block_height_stored [OF inv assms(3)] known_stored [OF inv assms(3)] by simp
  have "b = (parent X db ^^ (block_ht X db ?h - block_ht X db b)) ?h" if "b = (parent X db ^^ j) ?h" for j
  proof -
    have "block_ht X db b = block_ht X db ?h - j" using tree.ht_anc [OF node, of j] that by simp
    then have "block_ht X db ?h - block_ht X db b = j" using pos by simp
    then show ?thesis using that by simp
  qed
  then have "b = (parent X db ^^ (block_ht X db ?h - block_ht X db b)) ?h \<longleftrightarrow> (\<exists>j. b = (parent X db ^^ j) ?h)" by blast
  then show ?thesis by (simp add: is_part_of_current_chain_def ht current_at_height [OF m pos le])
qed

text \<open>
  C27: the answer to a query for a known block is the block with its height; it is shown as part of
  the main chain exactly if it is the head or an ancestor of it, and the next block is the block of
  the current chain one above its height, or the zero hash when there is none. The query fails only
  if a transaction of the block cannot be read.
\<close>

theorem shown_block:
  assumes "keeper_ok X content rk" "known_block X (rk_db rk) b" "j_u256 J v = Ok b"
  shows "\<exists>blk. rk_get_block X rk b = Ok blk \<and> rpc_get_block J X rk (ArrayParams [v]) =
    and_then (to_rpc_res (map_results (block_txn_rpc_new X rk) (txns blk)))
      (\<lambda>ts. Ok \<lparr>br_header = \<lparr>bhr_version = version (header blk), bhr_timestamp = timestamp (header blk),
           bhr_shard = shard (header blk), bhr_prev = prev (header blk), bhr_merkle_root = merkle_root (header blk),
           bhr_hash = b, bhr_txn_count = of_nat (length (txns blk)), bhr_height = of_nat (block_ht X (rk_db rk) b)\<rparr>,
         br_txns = ts,
         br_status = (if \<exists>j. b = (parent X (rk_db rk) ^^ j) (rk_get_current_block_hash rk) then ''Mainchain'' else ''Uncle''),
         br_next = (if block_ht X (rk_db rk) b < block_ht X (rk_db rk) (rk_get_current_block_hash rk)
           then (parent X (rk_db rk) ^^ (block_ht X (rk_db rk) (rk_get_current_block_hash rk) - Suc (block_ht X (rk_db rk) b)))
             (rk_get_current_block_hash rk)
           else U256_ZERO)\<rparr>)"
proof -
  let ?db = "rk_db rk"
  have t: "tip_ok X content ?db" "on_top X ?db" using assms(1) by (simp_all add: keeper_ok_def)
  then have inv: "chain_inv X ?db" and hh: "headers_hashed X ?db" and c: "blocks_complete X ?db" by (simp_all add: tip_ok_def)
  obtain blk where blk: "get_block X ?db b = Ok blk" using c assms(2) by (auto simp: blocks_complete_def is_ok_iff)
  then have "get_block_header X ?db b = Ok (header blk)" by (auto simp: get_block_def complete_block_def result_simps)
  then have hash: "header_calculate_hash X (header blk) = b" using hh by (simp add: headers_hashed_def)
  have ht: "get_block_height X ?db b = Ok (of_nat (block_ht X ?db b))"
    using block_height_stored [OF inv assms(2)] known_stored [OF inv assms(2)] by simp
  obtain l where l: "get_blocks_of_height X ?db (of_nat (block_ht X ?db b) + 1) = Ok l"
    "(case l of [] \<Rightarrow> U256_ZERO | c # _ \<Rightarrow> c) = (if block_ht X ?db b < block_ht X ?db (get_current_block_hash ?db)
       then (parent X ?db ^^ (block_ht X ?db (get_current_block_hash ?db) - Suc (block_ht X ?db b))) (get_current_block_hash ?db)
       else U256_ZERO)"
    using next_blocks [OF t assms(2)] by blast
  have one: "expect_one_arg (j_u256 J) (ArrayParams [v]) = Ok b"
    by (simp add: expect_one_arg_def expect_array_def from_value_def assms(3))
  have r: "rk_get_block X rk b = Ok blk" using blk by (simp add: rk_get_block_def)
  have "rpc_get_block J X rk (ArrayParams [v]) = to_rpc_res (block_rpc_new X rk blk)"
    by (simp add: rpc_get_block_def one r)
  also have "\<dots> = to_rpc_res (and_then (map_results (block_txn_rpc_new X rk) (txns blk))
      (\<lambda>ts. Ok \<lparr>br_header = \<lparr>bhr_version = version (header blk), bhr_timestamp = timestamp (header blk),
           bhr_shard = shard (header blk), bhr_prev = prev (header blk), bhr_merkle_root = merkle_root (header blk),
           bhr_hash = b, bhr_txn_count = of_nat (length (txns blk)), bhr_height = of_nat (block_ht X (rk_db rk) b)\<rparr>,
         br_txns = ts,
         br_status = (if \<exists>j. b = (parent X (rk_db rk) ^^ j) (rk_get_current_block_hash rk) then ''Mainchain'' else ''Uncle''),
         br_next = (case l of [] \<Rightarrow> U256_ZERO | c # _ \<Rightarrow> c)\<rparr>))"
    by (simp add: block_rpc_new_def block_header_rpc_new_def block_calculate_hash_def hash rk_get_block_height_def ht r
      rk_get_blocks_of_height_def l(1) rk_is_block_in_current_chain_def on_current_chain [OF t assms(2)]
      rk_get_current_block_hash_def Let_def)
  finally show ?thesis
    using r by (cases "map_results (block_txn_rpc_new X rk) (txns blk)")
      (simp_all add: l(2) rk_get_current_block_hash_def)
qed

text \<open>
  A call of \<open>attach_network\<close> with a network and no mode panics; with three arguments or another
  operation it never does, unless the text of the network is cut inside a character.
\<close>

theorem attach_network_panics:
  assumes "map_results (from_value (j_string J)) vs = Ok args" "2 \<le> length vs" "length vs < 1000"
    and "u256_from_str (args ! 1) \<noteq> Panic" "u256_from_str (args ! 1) \<noteq> Diverge"
  shows "rpc_attach_network J (ArrayParams vs) = Panic \<longleftrightarrow> length vs = 2 \<and> args ! 0 = ''add''"
proof -
  have "length args = length vs" using assms(1) by (simp add: map_results_Ok list_all2_lengthD)
  moreover obtain i where "parse_or_zero (args ! 1) = (Ok i :: (_, rpc_error) result)"
    using assms(4,5) by (cases "u256_from_str (args ! 1)") (auto simp: parse_or_zero_def)
  ultimately show ?thesis
    using assms(1-3) by (auto simp: rpc_attach_network_def parse_args_simple_def expect_array_def)
qed

end
