(* ===== verification/Checkers_Game.thy ===== *)
theory Checkers_Game
  imports Checkers_Rules Keeper
begin

text \<open>
  The checkers game as its users see it, \<open>checkers/src/game.rs\<close>: the board, the players and the moves of
  a game are read from the record keeper and from the cache that the rules share with it (the
  component \<open>rk_game\<close> of the keeper), and a play is a signed transaction given to the record keeper. The DER form of
  the player's key is an argument.
\<close>

type_synonym 's checkers_game = "('s, board game_state_cache) record_keeper"

text \<open>The replay of \<open>get_board\<close>: tick 0 is skipped, a later tick than the one asked for ends it.\<close>

fun replay_until :: "checkers_event codec \<Rightarrow> u64 \<Rightarrow> raw_events \<Rightarrow> board \<Rightarrow> (board, error) result" where
  "replay_until E tick [] b = Ok b"
| "replay_until E tick ((actual_tick, l) # raw_events) b =
     (if actual_tick = 0 then replay_until E tick raw_events b
      else if tick < actual_tick then Ok b
      else and_then (first_event E l)
        (\<lambda>ev. and_then (unwrap_res (from_turn actual_tick))
          (\<lambda>p. case play ev p b of (r, b') \<Rightarrow> and_then (unwrap_res r) (\<lambda>_. replay_until E tick raw_events b'))))"

definition get_board ::
  "'s ext \<Rightarrow> checkers_event codec \<Rightarrow> 's checkers_game \<Rightarrow> plot_id \<Rightarrow> u64 option \<Rightarrow> (board, error) result" where
  "get_board X E self location tick =
     and_then (latest_state (rk_game self) location tick)
       (\<lambda>r. let (actual_tick, b) = (case r of Some p \<Rightarrow> p | None \<Rightarrow> (0, board_default)) in
         case tick of
           None \<Rightarrow> Ok b
         | Some t \<Rightarrow>
             if actual_tick < t then Ok b
             else and_then (rk_get_plot_events X self location 0) (\<lambda>raw_events. replay_until E t raw_events b))"

definition get_players ::
  "'s ext \<Rightarrow> checkers_event codec \<Rightarrow> 's checkers_game \<Rightarrow> plot_id \<Rightarrow> (u160 \<times> u160, error) result" where
  "get_players X E self location =
     and_then (rk_get_plot_events X self location 0)
       (\<lambda>events. case bt_get events 0 of
          None \<Rightarrow> Ok (U160_ZERO, U160_ZERO)
        | Some start \<Rightarrow>
            (case bt_get events 1 of
               Some join \<Rightarrow>
                 and_then (first_event E start)
                   (\<lambda>s. case s of
                      Start p1 p2 \<Rightarrow>
                        and_then (first_event E join)
                          (\<lambda>j. case j of
                             Join player \<Rightarrow>
                               if p1 = U160_ZERO then Ok (player, p2)
                               else if p2 = U160_ZERO then Ok (p1, player) else Panic
                           | _ \<Rightarrow> Panic)
                    | _ \<Rightarrow> Panic)
             | None \<Rightarrow> and_then (first_event E start) (\<lambda>s. case s of Start p1 p2 \<Rightarrow> Ok (p1, p2) | _ \<Rightarrow> Panic)))"

definition get_moves ::
  "'s ext \<Rightarrow> checkers_event codec \<Rightarrow> 's checkers_game \<Rightarrow> plot_id \<Rightarrow> (checkers_event list, error) result" where
  "get_moves X E self location =
     and_then (rk_get_plot_events X self location 2) (map_results (\<lambda>(_, l). first_event E l))"

definition next_tick ::
  "'s ext \<Rightarrow> checkers_event codec \<Rightarrow> 's checkers_game \<Rightarrow> plot_id \<Rightarrow> checkers_event \<Rightarrow> (u64, error) result" where
  "next_tick X E self location event =
     (case event of
        Start _ _ \<Rightarrow> Ok 0
      | Join _ \<Rightarrow> Ok 1
      | _ \<Rightarrow> and_then (get_moves X E self location) (\<lambda>ms. Ok (2 + of_nat (length ms))))"

definition event_txn ::
  "'s ext \<Rightarrow> checkers_event codec \<Rightarrow> pkey \<Rightarrow> bin \<Rightarrow> time \<Rightarrow> plot_id \<Rightarrow> u64 \<Rightarrow> checkers_event \<Rightarrow> txn" where
  "event_txn X E sign_key der now location tick event =
     txn_sign X \<lparr>txn_timestamp = now, creator = hash_pub_key X der,
       txn_mutation = mutation_new\<lparr>changes := [PlotEventCh
         \<lparr>pe_from = location, pe_to = [], pe_tick = tick, pe_event = ser E event\<rparr>]\<rparr>, signature = []\<rparr> sign_key"

definition play_event ::
  "'s ext \<Rightarrow> checkers_event codec \<Rightarrow> pkey \<Rightarrow> bin \<Rightarrow> time \<Rightarrow> plot_id \<Rightarrow> checkers_event \<Rightarrow>
   ('s checkers_game, unit, error) action" where
  "play_event X E sign_key der now location event =
     bind_st (read_st (\<lambda>self. next_tick X E self location event))
       (\<lambda>tick. bind_st (rk_add_pending_txn X now (event_txn X E sign_key der now location tick event) True)
         (\<lambda>_. return_st ()))"

section \<open>What is played is read back\<close>

lemma event_txn_changes:
  "event_changes (changes (txn_mutation (event_txn X E k der now loc tick ev))) =
    [\<lparr>pe_from = loc, pe_to = [], pe_tick = tick, pe_event = ser E ev\<rparr>]"
  by (simp add: event_txn_def txn_sign_def event_changes_def List.map_filter_simps)

text \<open>A transaction that the record keeper takes is appended to the pool, whatever state it is in.\<close>

lemma pending_taken:
  assumes "rk_add_pending_txn X now t fresh rk = (r, rk')" "pending_txns rk' \<noteq> pending_txns rk"
  shows "rk_db rk' = rk_db rk" "pending_txns rk' = pending_txns rk @ [(txn_calculate_hash X t, (now, t))]"
proof -
  let ?h = "txn_calculate_hash X t"
  have new: "hm_get (pending_txns rk) ?h = None"
    and run: "bind_st (rk_is_valid_txn X t) (\<lambda>_ rk. (Ok True, accept_txn now ?h t fresh rk)) rk = (r, rk')"
    using assms by (auto simp: rk_add_pending_txn_def rk_get_txn_def Let_def
      split: option.splits if_splits result.splits error.splits)
  obtain v rk1 where v: "rk_is_valid_txn X t rk = (v, rk1)" by fastforce
  have same: "rk_db rk1 = rk_db rk" "pending_txns rk1 = pending_txns rk"
    using valid_txn_same [OF v] by (simp_all add: same_records_def)
  have "rk' = accept_txn now ?h t fresh rk1"
    using run assms(2) same by (cases v) (auto simp: bind_st_def v)
  then show "rk_db rk' = rk_db rk" "pending_txns rk' = pending_txns rk @ [(?h, (now, t))]"
    using same new by (simp_all add: accept_txn_def Let_def notify_record_def map_of_eq_None_iff hm_insert_fresh)
qed

text \<open>
  A play that the record keeper takes is what the plot shows next: reading the events of the plot
  gives the events from before with the new one at its tick, which is 0 for a start, 1 for a join
  and two more than the number of recorded moves otherwise.
\<close>

lemma played_event_read_back:
  assumes "play_event X E k der now loc ev rk = (Ok (), rk')" "pending_txns rk' \<noteq> pending_txns rk"
  shows "\<exists>tick. next_tick X E rk loc ev = Ok tick \<and>
    (\<forall>from. rk_get_plot_events X rk' loc from = and_then (rk_get_plot_events X rk loc from)
      (\<lambda>events. Ok (if from \<le> tick then fst (add_event events tick (ser E ev)) else events)))"
proof -
  obtain tick b where t: "next_tick X E rk loc ev = Ok tick"
    and a: "rk_add_pending_txn X now (event_txn X E k der now loc tick ev) True rk = (Ok b, rk')"
    using assms(1) by (auto simp: play_event_def result_simps)
  note r = pending_taken [OF a assms(2)]
  have "rk_get_plot_events X rk' loc from = and_then (rk_get_plot_events X rk loc from)
      (\<lambda>events. Ok (if from \<le> tick then fst (add_event events tick (ser E ev)) else events))" for "from"
    by (cases "get_plot_events X (rk_db rk) loc from") (simp_all add: rk_get_plot_events_def r event_txn_changes)
  then show ?thesis using t by blast
qed

lemma bt_insert_last: "\<forall>e \<in> set m. fst e < k \<Longrightarrow> bt_insert k v m = m @ [(k, v)]"
  by (induction m) auto

lemma add_event_last: "\<forall>e \<in> set events. fst e < tick \<Longrightarrow> fst (add_event events tick ev) = events @ [(tick, [ev])]"
  by (auto simp: add_event_def bt_insert_last split: option.splits dest!: map_of_SomeD)

lemma map_results_snoc:
  "map_results f xs = Ok ys \<Longrightarrow> f x = Ok y \<Longrightarrow> map_results f (xs @ [x]) = Ok (ys @ [y])"
  by (simp add: map_results_Ok list_all2_appendI)

text \<open>
  A move or jump that the record keeper takes is from then on the last move of the game: the tick
  that \<open>play\<close> computes from the number of recorded moves places it behind all of them, provided the moves so
  far are at ticks below that number plus two, as the turn order makes them.
\<close>

lemma played_move_listed:
  assumes "codec_ok E" "rk_get_plot_events X rk loc 2 = Ok events" "get_moves X E rk loc = Ok moves"
    and "\<forall>e \<in> set events. fst e < 2 + of_nat (length moves)" "length moves < 2 ^ 64 - 2"
    and "\<exists>i d. ev = Move i d \<or> (\<exists>path. ev = Jump i path)"
    and "play_event X E k der now loc ev rk = (Ok (), rk')" "pending_txns rk' \<noteq> pending_txns rk"
  shows "get_moves X E rk' loc = Ok (moves @ [ev])"
proof -
  let ?tick = "2 + of_nat (length moves) :: u64"
  have "unat ?tick = 2 + length moves"
    using assms(5) by (simp add: unat_word_ariths unat_of_nat)
  then have le: "2 \<le> ?tick" by (simp add: word_le_nat_alt)
  have "next_tick X E rk loc ev = Ok ?tick" using assms(3,6) by (auto simp: next_tick_def)
  with played_event_read_back [OF assms(7,8)]
  have "rk_get_plot_events X rk' loc 2 = Ok (events @ [(?tick, [ser E ev])])"
    using le assms(2) add_event_last [OF assms(4)] by auto
  moreover have "first_event E [ser E ev] = Ok ev" using assms(1) by (simp add: first_event_def codec_okD)
  moreover have "map_results (\<lambda>(_, l). first_event E l) events = Ok moves"
    using assms(2,3) by (simp add: get_moves_def)
  ultimately show ?thesis by (simp add: get_moves_def map_results_snoc)
qed

section \<open>The board at a tick\<close>

text \<open>
  \<open>get_board\<close> replays the recorded events exactly when it should not: a cached board that is older than
  the tick asked for is returned as it is, and one of that very tick is played on from the first
  event again, which fails on the event of tick 1 because no player has that turn.
\<close>

theorem get_board_replay:
  assumes "cache_ok (rk_game rk)"
  shows "history (rk_game rk) loc t = Some b \<Longrightarrow> t < t' \<Longrightarrow> (\<forall>s. t < s \<longrightarrow> s \<le> t' \<longrightarrow> history (rk_game rk) loc s = None) \<Longrightarrow>
      get_board X E rk loc (Some t') = Ok b"
    and "history (rk_game rk) loc t = Some b \<Longrightarrow> 1 \<le> t \<Longrightarrow>
      rk_get_plot_events X rk loc 0 = Ok ((0, start) # (1, [ser E (Join p)]) # moves) \<Longrightarrow> codec_ok E \<Longrightarrow>
      get_board X E rk loc (Some t) = Panic"
proof -
  assume h: "history (rk_game rk) loc t = Some b" and t: "t < t'"
    and no: "\<forall>s. t < s \<longrightarrow> s \<le> t' \<longrightarrow> history (rk_game rk) loc s = None"
  obtain r where r: "latest_state (rk_game rk) loc (Some t') = (Ok r :: (_, error) result)"
    "newest (history (rk_game rk) loc) (Some t') r"
    using latest_state_newest [OF assms, of loc "Some t'"] by blast
  have "r = Some (t, b)"
  proof (cases r)
    case None
    then show ?thesis using r(2) h t by (auto simp: newest_def)
  next
    case (Some q)
    obtain s d where q: "q = (s, d)" by (cases q)
    have s: "history (rk_game rk) loc s = Some d" "s \<le> t'" "\<forall>u > s. u \<le> t' \<longrightarrow> history (rk_game rk) loc u = None"
      using r(2) by (auto simp: newest_def Some q)
    have "s = t" using s no h t by (metis linorder_neqE order_less_imp_le option.distinct(1))
    then show ?thesis using s h by (simp add: Some q)
  qed
  then show "get_board X E rk loc (Some t') = Ok b" using r(1) t by (simp add: get_board_def)
next
  assume h: "history (rk_game rk) loc t = Some b" and t: "1 \<le> t" and E: "codec_ok E"
    and ev: "rk_get_plot_events X rk loc 0 = Ok ((0, start) # (1, [ser E (Join p)]) # moves)"
  have l: "latest_state (rk_game rk) loc (Some t) = (Ok (Some (t, b)) :: (_, error) result)"
    by (rule latest_at_tick [OF assms h])
  have f: "first_event E [ser E (Join p)] = Ok (Join p)" using E by (simp add: first_event_def codec_okD)
  have "unwrap_res (from_turn 1) = (Panic :: (player, error) result)" by (simp add: from_turn_def unwrap_res_def)
  then show "get_board X E rk loc (Some t) = Panic"
    using l ev f t by (cases "t = 0") (simp_all add: get_board_def not_less)
qed

end
