(* ===== verification/Checkers_Rpc.thy ===== *)
theory Checkers_Rpc
  imports Rpc Checkers_Game
begin

text \<open>
  The commands of a player, \<open>checkers/src/rpc.rs\<close>: plots, squares and directions are read from text and
  become events that the game plays. A text is the list of its UTF-8 bytes. The board and the
  players of a game are answered as values; the code writes them into one text.
\<close>

section \<open>Reading text\<close>

function utf8_chars :: "string \<Rightarrow> nat list" where
  "utf8_chars s =
     (case s of
        [] \<Rightarrow> []
      | b # bs \<Rightarrow>
          let n = (of_char b :: nat);
              k = (if n < 128 then 0 else if n < 224 then 1 else if n < 240 then 2 else 3);
              lead = (if n < 128 then n else if n < 224 then n mod 32 else if n < 240 then n mod 16 else n mod 8)
          in fold (\<lambda>c acc. acc * 64 + of_char c mod 64) (take k bs) lead # utf8_chars (drop k bs))"
  by pat_completeness auto
termination by (relation "measure length") (auto simp: less_Suc_eq_le)

declare utf8_chars.simps [simp del]

fun decimal_value :: "nat \<Rightarrow> string \<Rightarrow> nat option" where
  "decimal_value acc [] = Some acc"
| "decimal_value acc (ch # cs) = (case to_digit10 ch of None \<Rightarrow> None | Some d \<Rightarrow> decimal_value (acc * 10 + d) cs)"

text \<open>\<open>str::parse::<i32>\<close>: an optional sign, at least one digit, and a value in range.\<close>

definition parse_i32 :: "string \<Rightarrow> i32 option" where
  "parse_i32 s =
     (let (neg, digits) =
          (case s of [] \<Rightarrow> (False, [])
           | ch # cs \<Rightarrow> if ch = CHR ''-'' then (True, cs) else if ch = CHR ''+'' then (False, cs) else (False, s))
      in if digits = [] then None
         else case decimal_value 0 digits of
           None \<Rightarrow> None
         | Some n \<Rightarrow>
             if neg then if n \<le> 2 ^ 31 then Some (- of_nat n) else None
             else if n < 2 ^ 31 then Some (of_nat n) else None)"

definition read_plot_id :: "string list \<Rightarrow> (plot_id, rpc_error) result" where
  "read_plot_id p_arr =
     (case parse_i32 (p_arr ! 0) of
        None \<Rightarrow> Err (InvalidParams (Text ''X coordinate is not a number!''))
      | Some x \<Rightarrow>
          (case parse_i32 (p_arr ! 1) of
             None \<Rightarrow> Err (InvalidParams (Text ''Y coordinate is not a number!''))
           | Some y \<Rightarrow> Ok (Coord x y)))"

definition read_chess_coord :: "'v json_ext \<Rightarrow> string \<Rightarrow> (coord, rpc_error) result" where
  "read_chess_coord J p =
     (if length p \<noteq> 2 then Err (InvalidParams (Text ''Chess coordinate is not valid''))
      else case utf8_chars (to_lowercase J p) of
          a # b # _ \<Rightarrow>
            let col = (of_nat a :: u8) - 97; row = (of_nat b :: u8) - 49 in
            if 8 \<le> row \<or> 8 \<le> col then Err (InvalidParams (Text ''Chess coordinate is not valid''))
            else Ok (Coord (ucast row) (ucast col))
        | _ \<Rightarrow> Panic)"

definition read_direction :: "'v json_ext \<Rightarrow> string \<Rightarrow> (checkers_dir, rpc_error) result" where
  "read_direction J p =
     (let p = to_lowercase J p in
      if p = ''nw'' then Ok NW
      else if p = ''ne'' then Ok NE
      else if p = ''se'' then Ok SE
      else if p = ''sw'' then Ok SW
      else Err (InvalidParams (Text ''Invalid move direction'')))"

section \<open>Commands\<close>

record checkers_rpc =
  my_player :: pkey
  my_player_der :: bin
  my_player_hash :: u160

definition checkers_rpc_new :: "'s ext \<Rightarrow> pkey \<Rightarrow> bin \<Rightarrow> checkers_rpc" where
  "checkers_rpc_new X k der = \<lparr>my_player = k, my_player_der = der, my_player_hash = hash_pub_key X der\<rparr>"

definition internal :: "('a, 'e) result \<Rightarrow> ('a, rpc_error) result" where
  "internal = map_err (\<lambda>_. InternalError)"

definition get_checkers_board ::
  "'v json_ext \<Rightarrow> 's ext \<Rightarrow> checkers_event codec \<Rightarrow> 's checkers_game \<Rightarrow> 'v params \<Rightarrow>
   (string \<times> (u160 \<times> u160) \<times> board, rpc_error) result" where
  "get_checkers_board J X E game p =
     and_then (parse_args_simple (j_string J) p 2 3)
       (\<lambda>p_arr. and_then (read_plot_id p_arr)
         (\<lambda>pid. and_then (internal (get_players X E game pid))
           (\<lambda>players.
             let status = (if fst players = U160_ZERO \<and> snd players = U160_ZERO then ''not started''
                  else if fst players = U160_ZERO \<or> snd players = U160_ZERO then ''waiting for join'' else ''active'')
             in and_then (internal (get_board X E game pid None)) (\<lambda>b. Ok (status, players, b)))))"

definition square_index :: "coord \<Rightarrow> (u8, rpc_error) result" where
  "square_index c =
     (case rc_to_idx (ucast (coord_x c)) (ucast (coord_y c)) of Ok i \<Rightarrow> Ok i | Err _ \<Rightarrow> Ok 0 | Panic \<Rightarrow> Panic | Diverge \<Rightarrow> Diverge)"

definition read_play :: "'v json_ext \<Rightarrow> string list \<Rightarrow> coord \<Rightarrow> (checkers_event, rpc_error) result" where
  "read_play J p_arr c =
     (let cmd = to_lowercase J (p_arr ! 3) in
      if cmd = ''move'' then
        if length p_arr \<le> 4 then Panic
        else and_then (read_direction J (p_arr ! 4)) (\<lambda>n. and_then (square_index c) (\<lambda>i. Ok (Move i n)))
      else if cmd = ''jump'' then
        and_then (map_results (read_direction J) (drop 4 p_arr)) (\<lambda>moves. and_then (square_index c) (\<lambda>i. Ok (Jump i moves)))
      else Err (InvalidParams (Text (''Unrecognized play command: '' @ p_arr ! 3))))"

definition play_checkers ::
  "'v json_ext \<Rightarrow> 's ext \<Rightarrow> checkers_event codec \<Rightarrow> pkey \<Rightarrow> bin \<Rightarrow> time \<Rightarrow> 'v params \<Rightarrow>
   ('s checkers_game, unit, rpc_error) action" where
  "play_checkers J X E sign_key der now p =
     bind_st (read_st (\<lambda>_. and_then (parse_args_simple (j_string J) p 4 100)
         (\<lambda>p_arr. and_then (read_plot_id p_arr)
           (\<lambda>pid. and_then (read_chess_coord J (p_arr ! 2))
             (\<lambda>c. and_then (read_play J p_arr c) (\<lambda>e. Ok (pid, e)))))))
       (\<lambda>(pid, e). rpc_do (play_event X E sign_key der now pid e))"

definition new_checkers_game ::
  "'v json_ext \<Rightarrow> 's ext \<Rightarrow> checkers_event codec \<Rightarrow> checkers_rpc \<Rightarrow> pkey \<Rightarrow> bin \<Rightarrow> time \<Rightarrow> 'v params \<Rightarrow>
   ('s checkers_game, unit, rpc_error) action" where
  "new_checkers_game J X E self sign_key der now p =
     bind_st (read_st (\<lambda>_. and_then (parse_args_simple (j_string J) p 3 4)
         (\<lambda>p_arr. and_then (read_plot_id p_arr)
           (\<lambda>pid. and_then (map_err (\<lambda>_. InvalidParams (Text ''Could not parse other player!'')) (u160_from_str (p_arr ! 2)))
             (\<lambda>other_player. Ok (pid, other_player))))))
       (\<lambda>(pid, other_player). rpc_do (play_event X E sign_key der now pid (Start (my_player_hash self) other_player)))"

definition join_checkers_game ::
  "'v json_ext \<Rightarrow> 's ext \<Rightarrow> checkers_event codec \<Rightarrow> checkers_rpc \<Rightarrow> pkey \<Rightarrow> bin \<Rightarrow> time \<Rightarrow> 'v params \<Rightarrow>
   ('s checkers_game, unit, rpc_error) action" where
  "join_checkers_game J X E self sign_key der now p =
     bind_st (read_st (\<lambda>_. and_then (parse_args_simple (j_string J) p 2 3) read_plot_id))
       (\<lambda>pid. rpc_do (play_event X E sign_key der now pid (Join (my_player_hash self))))"

definition get_my_player :: "checkers_rpc \<Rightarrow> (u160, rpc_error) result" where
  "get_my_player self = Ok (my_player_hash self)"

definition register_my_player ::
  "'s ext \<Rightarrow> checkers_rpc \<Rightarrow> time \<Rightarrow> ('s checkers_game, u160, rpc_error) action" where
  "register_my_player X self now =
     (let t = txn_sign X \<lparr>txn_timestamp = now, creator = my_player_hash self,
            txn_mutation = mutation_new\<lparr>changes := [NewValidator (my_player_der self)]\<rparr>, signature = []\<rparr> (my_player self)
      in bind_st (rpc_do (rk_add_pending_txn X now t True)) (\<lambda>_. return_st (my_player_hash self)))"

section \<open>What is typed is played\<close>

definition ascii_lower :: "char \<Rightarrow> char" where
  "ascii_lower c = (if 65 \<le> (of_char c :: nat) \<and> (of_char c :: nat) \<le> 90 then char_of ((of_char c :: nat) + 32) else c)"

text \<open>On ASCII text the lower-case form changes the capital letters only.\<close>

definition lower_ok :: "'v json_ext \<Rightarrow> bool" where
  "lower_ok J \<longleftrightarrow> (\<forall>s. (\<forall>c \<in> set s. (of_char c :: nat) < 128) \<longrightarrow> to_lowercase J s = map ascii_lower s)"

text \<open>The name of a square: a letter in either case for the column, a digit for the row.\<close>

definition square_text :: "bool \<Rightarrow> nat \<Rightarrow> nat \<Rightarrow> string" where
  "square_text upper f r = [char_of ((if upper then 65 else 97) + f), char_of (49 + r)]"

lemma utf8_ascii: "\<forall>c \<in> set s. (of_char c :: nat) < 128 \<Longrightarrow> utf8_chars s = map of_char s"
  by (induction s) (simp_all add: utf8_chars.simps)

lemma small_of_char: "n < 128 \<Longrightarrow> (of_char (char_of n) :: nat) = n"
  by (simp add: take_bit_eq_mod)

lemma square_lower:
  assumes "lower_ok J" "f < 8" "r < 8"
  shows "to_lowercase J (square_text upper f r) = square_text False f r"
proof -
  have "\<forall>c \<in> set (square_text upper f r). (of_char c :: nat) < 128"
    using assms(2,3) by (auto simp: square_text_def small_of_char simp del: of_char_of)
  then have "to_lowercase J (square_text upper f r) = map ascii_lower (square_text upper f r)"
    using assms(1) by (simp add: lower_ok_def)
  then show ?thesis
    using assms(2,3) by (auto simp: square_text_def ascii_lower_def small_of_char add.commute simp del: of_char_of)
qed

lemma read_square:
  assumes "lower_ok J" "f < 8" "r < 8"
  shows "read_chess_coord J (square_text upper f r) = Ok (Coord (of_nat r) (of_nat f))"
proof -
  have c: "utf8_chars (square_text False f r) = [97 + f, 49 + r]"
    using assms(2,3) by (subst utf8_ascii) (auto simp: square_text_def small_of_char simp del: of_char_of)
  have w: "\<not> 8 \<le> (of_nat n :: u8)" "(ucast (of_nat n :: u8) :: i32) = of_nat n" if "n < 8" for n
    using that by (simp_all add: word_le_nat_alt unat_of_nat unsigned_of_nat take_bit_nat_eq_self)
  show ?thesis
    using assms(2,3) square_lower [OF assms] by (simp add: read_chess_coord_def c w) (simp add: square_text_def)
qed

lemma square_index_of:
  assumes "f < 8" "r < 8"
  shows "square_index (Coord (of_nat r) (of_nat f)) = Ok (of_nat (8 * r + f))"
proof -
  have w: "(ucast (of_nat n :: i32) :: u8) = of_nat n" "\<not> 7 < (of_nat n :: u8)" if "n < 8" for n
    using that by (simp_all add: word_less_nat_alt unat_of_nat unsigned_of_nat take_bit_nat_eq_self)
  show ?thesis using assms by (simp add: square_index_def rc_to_idx_def w mult.commute)
qed

text \<open>
  C37: a move that a player types is the move that is played: with the plot, the name of a square in
  either case, the word for a move and a direction, an accepted call adds exactly the move of that
  square in that direction as the last move of the game on that plot. The moves so far are those of the
  ticks from 2 up to the tick of the new one, as the rule on turns has them.
\<close>

theorem typed_move_listed:
  assumes "lower_ok J" "codec_ok E" "f < 8" "r < 8"
    and "list_all2 (\<lambda>v s. j_string J v = Ok s) vs [x, y, square_text upper f r, cmd, dir]"
    and "parse_i32 x = Some px" "parse_i32 y = Some py" "to_lowercase J cmd = ''move''" "read_direction J dir = Ok d"
    and "rk_get_plot_events X rk (Coord px py) 2 = Ok events" "get_moves X E rk (Coord px py) = Ok moves"
    and "\<forall>e \<in> set events. fst e < 2 + of_nat (length moves)" "length moves < 2 ^ 64 - 2"
    and "play_checkers J X E k der now (ArrayParams vs) rk = (Ok (), rk')" "pending_txns rk' \<noteq> pending_txns rk"
  shows "get_moves X E rk' (Coord px py) = Ok (moves @ [Move (of_nat (8 * r + f)) d])"
proof -
  let ?args = "[x, y, square_text upper f r, cmd, dir]" and ?ev = "Move (of_nat (8 * r + f)) d"
  have "length vs = 5" using assms(5) list_all2_lengthD by fastforce
  moreover have "map_results (from_value (j_string J)) vs = Ok ?args"
    using assms(5) unfolding map_results_Ok by (rule list_all2_mono) (simp add: from_value_def)
  ultimately have args: "parse_args_simple (j_string J) (ArrayParams vs) 4 100 = Ok ?args"
    by (simp add: parse_args_simple_def expect_array_def)
  have "read_plot_id ?args = Ok (Coord px py)" using assms(6,7) by (simp add: read_plot_id_def)
  moreover have "read_play J ?args (Coord (of_nat r) (of_nat f)) = Ok ?ev"
    using assms(8,9) square_index_of [OF assms(3,4)] by (simp add: read_play_def)
  ultimately have "rpc_do (play_event X E k der now (Coord px py) ?ev) rk = (Ok (), rk')"
    using assms(14) read_square [OF assms(1,3,4)]
    by (simp add: play_checkers_def args bind_st_def read_st_def)
  then have "play_event X E k der now (Coord px py) ?ev rk = (Ok (), rk')"
    by (auto simp: rpc_do_def result_simps split: prod.splits)
  then show ?thesis using assms(2,10-13,15) played_move_listed by blast
qed

text \<open>A move without a direction passes the check of the number of arguments and is a panic.\<close>

lemma move_without_direction_panics:
  assumes "lower_ok J" "f < 8" "r < 8" "list_all2 (\<lambda>v s. j_string J v = Ok s) vs [x, y, square_text upper f r, ''move'']"
    and "parse_i32 x = Some px" "parse_i32 y = Some py"
  shows "play_checkers J X E k der now (ArrayParams vs) rk = (Panic, rk)"
proof -
  let ?args = "[x, y, square_text upper f r, ''move'']"
  have "length vs = 4" using assms(4) list_all2_lengthD by fastforce
  moreover have "map_results (from_value (j_string J)) vs = Ok ?args"
    using assms(4) unfolding map_results_Ok by (rule list_all2_mono) (simp add: from_value_def)
  ultimately have args: "parse_args_simple (j_string J) (ArrayParams vs) 4 100 = Ok ?args"
    by (simp add: parse_args_simple_def expect_array_def)
  have "to_lowercase J ''move'' = ''move''" using assms(1) by (simp add: lower_ok_def ascii_lower_def)
  then show ?thesis
    using assms(5,6) read_square [OF assms(1-3)]
    by (simp add: play_checkers_def args bind_st_def read_st_def read_plot_id_def read_play_def)
qed

end
