(* ===== verification/Game_Demo.thy ===== *)
theory Game_Demo
  imports Checkers_Rpc Keeper_Demo
begin

text \<open>
  A record keeper of the in-memory instance whose store knows the key of one player, who plays the
  first move on an empty plot, and parameters of RPC calls that are texts.
\<close>

definition player_key :: bin where
  "player_key = [7]"

definition game_store :: mem_store where
  "game_store = [(as_bin (Network (ValidatorKey (hash_pub_key mem_ext player_key))), player_key)]"

definition game_keeper :: "(mem_store, board game_state_cache) record_keeper" where
  "game_keeper = record_keeper_new (DatabaseImpl game_store head_ref_default) [] game_state_cache_new"

lemma game_keeper_parts:
  "pending_txns game_keeper = []" "rk_rules game_keeper = []"
  "rk_db game_keeper = DatabaseImpl game_store head_ref_default"
  by (simp_all add: game_keeper_def record_keeper_new_def)

lemma game_keeper_get:
  "get_raw_data_static mem_ext game_store (Network (ValidatorKey (hash_pub_key mem_ext player_key))) = Ok player_key"
  "get_raw_data_static mem_ext game_store (Blockchain (TxnE h)) = Err (NotFound (Blockchain (TxnE h)))"
  "get_raw_data_static mem_ext game_store (Network (PlotE p t)) = Err (NotFound (Network (PlotE p t)))"
  by (simp_all add: game_store_def get_raw_data_static_def mem_ext_def prefix_def bstr_def)

lemma game_keeper_events: "get_plot_events mem_ext (rk_db game_keeper) p t = Ok []"
  by (simp add: game_keeper_get game_keeper_parts plot_events_loop.simps returns_def bt_split_off_def)

lemma game_state_reads:
  "get_validator_key mem_ext (db_state_new (rk_db game_keeper)) (hash_pub_key mem_ext player_key) = Ok player_key"
  "get_plot_events mem_ext (db_state_new (rk_db game_keeper)) p t = Ok []"
  using game_keeper_events
  by (simp_all add: game_keeper_parts game_keeper_get get_validator_key_def db_state_new_def diff_default_empty get_value_def is_value_deleted_def
    get_removed_events_def get_new_events_def)

abbreviation first_txn :: txn where
  "first_txn \<equiv> event_txn mem_ext game_codec (PKey [7]) player_key 5 (Coord 0 0) 2 (Move 41 NE)"

lemma first_change_valid:
  "duplicates_is_valid mem_ext (db_state_new (rk_db game_keeper))
    [(PlotEventCh \<lparr>pe_from = Coord 0 0, pe_to = [], pe_tick = 2, pe_event = e\<rparr>, u)] = Ok ()"
  "plot_event_is_valid [(PlotEventCh \<lparr>pe_from = Coord 0 0, pe_to = [], pe_tick = 2, pe_event = e\<rparr>, u)] = Ok ()"
  by (simp_all add: duplicates_is_valid_def duplicated_within_txn_def duplicated_within_net_def game_state_reads
    refuse_if_def Let_def plot_event_valid_iff)

lemma first_txn_valid: "is_valid_txn_given_state mem_ext (db_state_new (rk_db game_keeper)) first_txn = Ok ()"
proof -
  have m: "public_key_from_der mem_ext b = Ok (PKey b)" "rsa_sign mem_ext k b = b" "rsa_verify mem_ext k b s = Some (b = s)"
    for b k s by (simp_all add: mem_ext_def)
  show ?thesis
    by (simp add: is_valid_txn_given_state_def signature_is_valid_def event_txn_def txn_sign_def game_state_reads m
      verify_signature_def verify_bytes_def sign_bytes_def get_signing_bytes_def admin_check_is_valid_def is_admin_def
      new_validator_is_valid_def txn_duplicates_is_valid_def first_change_valid unwrap_def)
qed

lemma first_move_taken:
  "\<exists>rk'. play_event mem_ext game_codec (PKey [7]) player_key 5 (Coord 0 0) (Move 41 NE) game_keeper = (Ok (), rk') \<and>
    pending_txns rk' \<noteq> []"
proof -
  have g: "get_moves mem_ext game_codec game_keeper (Coord 0 0) = Ok []"
    by (simp add: get_moves_def rk_get_plot_events_def game_keeper_events game_keeper_parts(1))
  have v: "rk_is_valid_txn mem_ext first_txn game_keeper = (Ok (), game_keeper)"
    using first_txn_valid
    by (simp add: rk_is_valid_txn_def on_game_def is_valid_txn_given_lock_def game_keeper_parts(1,2) bind_st_def read_st_def Let_def
      is_valid_mutation_given_state_def signed_changes_def event_txn_def txn_sign_def first_change_valid return_st_def)
  have s: "txn_calculate_size first_txn \<le> MAX_PENDING_TXN_MEM"
    by code_simp
  have n: "get_txn mem_ext (rk_db game_keeper) h = Err (NotFound (Blockchain (TxnE h)))" for h
    by (simp add: get_txn_def game_keeper_parts game_keeper_get)
  have "rk_add_pending_txn mem_ext 5 first_txn True game_keeper =
      (Ok True, accept_txn 5 (txn_calculate_hash mem_ext first_txn) first_txn True game_keeper)"
    using s by (simp add: rk_add_pending_txn_def rk_get_txn_def game_keeper_parts(1) n v bind_st_def Let_def pending_size_def)
  then have "play_event mem_ext game_codec (PKey [7]) player_key 5 (Coord 0 0) (Move 41 NE) game_keeper =
      (Ok (), accept_txn 5 (txn_calculate_hash mem_ext first_txn) first_txn True game_keeper)"
    by (simp add: play_event_def next_tick_def g bind_st_def read_st_def return_st_def)
  then show ?thesis by (simp add: accept_txn_def Let_def notify_record_def game_keeper_parts(1))
qed

subsection \<open>Calls with texts as parameters\<close>

definition demo_json :: "string json_ext" where
  "demo_json = \<lparr>j_string = Ok, j_u256 = u256_from_str, j_u256_array = (\<lambda>_. Err ''array''), j_u160 = u160_from_str,
     j_u64 = (\<lambda>_. Err ''number''), j_usize = (\<lambda>_. Err ''number''), j_coord = (\<lambda>_. Err ''object''),
     j_block = (\<lambda>_. Err ''object''), j_txn = (\<lambda>_. Err ''object''), to_lowercase = map ascii_lower\<rparr>"

lemma demo_json_lower: "lower_ok demo_json"
  by (simp add: lower_ok_def demo_json_def)

lemma demo_move_text:
  "and_then (parse_args_simple (j_string demo_json) (ArrayParams [''0'', ''0'', square_text True 1 5, ''Move'', ''NE'']) 4 100)
     (\<lambda>p_arr. and_then (read_plot_id p_arr)
       (\<lambda>pid. and_then (read_chess_coord demo_json (p_arr ! 2))
         (\<lambda>c. and_then (read_play demo_json p_arr c) (\<lambda>e. Ok (pid, e))))) = Ok (Coord 0 0, Move 41 NE)"
  by code_simp

lemma demo_move_read:
  "play_checkers demo_json mem_ext game_codec (PKey [7]) player_key 5
     (ArrayParams [''0'', ''0'', square_text True 1 5, ''Move'', ''NE'']) game_keeper =
   rpc_do (play_event mem_ext game_codec (PKey [7]) player_key 5 (Coord 0 0) (Move 41 NE)) game_keeper"
  unfolding play_checkers_def demo_move_text by (simp add: bind_st_def read_st_def)

theorem typed_move_listed_witness:
  "\<exists>rk'. play_checkers demo_json mem_ext game_codec (PKey [7]) player_key 5
       (ArrayParams [''0'', ''0'', square_text True 1 5, ''Move'', ''NE'']) game_keeper = (Ok (), rk') \<and>
     get_moves mem_ext game_codec rk' (Coord 0 0) = Ok [Move 41 NE]"
proof -
  let ?vs = "[''0'', ''0'', square_text True 1 5, ''Move'', ''NE'']"
  have e: "rk_get_plot_events mem_ext game_keeper (Coord 0 0) 2 = Ok []"
    by (simp add: rk_get_plot_events_def game_keeper_events game_keeper_parts(1))
  have g: "get_moves mem_ext game_codec game_keeper (Coord 0 0) = Ok []" by (simp add: get_moves_def e)
  obtain rk' where "play_event mem_ext game_codec (PKey [7]) player_key 5 (Coord 0 0) (Move 41 NE) game_keeper = (Ok (), rk')"
    and n: "pending_txns rk' \<noteq> pending_txns game_keeper" using first_move_taken by (auto simp: game_keeper_parts(1))
  then have r: "play_checkers demo_json mem_ext game_codec (PKey [7]) player_key 5 (ArrayParams ?vs) game_keeper = (Ok (), rk')"
    unfolding demo_move_read by (simp add: rpc_do_def)
  have l: "list_all2 (\<lambda>v s. j_string demo_json v = Ok s) ?vs ?vs" by (simp add: demo_json_def)
  have p: "parse_i32 ''0'' = Some 0" by (simp add: parse_i32_def to_digit10_def)
  have c: "to_lowercase demo_json ''Move'' = ''move''" "read_direction demo_json ''NE'' = Ok NE"
    by code_simp+
  from typed_move_listed [OF demo_json_lower game_codec_ok _ _ l p p c e g _ _ r n] r show ?thesis by auto
qed

theorem shown_block_witness:
  "\<exists>a. rpc_get_block demo_json mem_ext demo_keeper (ArrayParams [u256_to_string (demo_hash 1)]) = Ok a \<and>
     bhr_hash (br_header a) = demo_hash 1 \<and> br_status a = ''Mainchain'' \<and> br_next a = U256_ZERO"
proof -
  have k: "known_block mem_ext (rk_db demo_keeper) (demo_hash 1)" using demo_keeper_facts(2) by simp
  have v: "j_u256 demo_json (u256_to_string (demo_hash 1)) = Ok (demo_hash 1)"
    by (simp add: demo_json_def uint_text_round_trip)
  have h: "rk_get_current_block_hash demo_keeper = demo_hash 1"
    by (simp add: rk_get_current_block_hash_def demo_keeper_facts)
  have b: "rk_get_block mem_ext demo_keeper (demo_hash 1) = Ok (demo_block 1 U256_ZERO)"
    using demo_keeper_opened by (simp add: rk_get_block_def)
  have "\<exists>j. demo_hash 1 = (parent mem_ext (rk_db demo_keeper) ^^ j) (demo_hash 1)" by (rule exI [of _ 0]) simp
  then show ?thesis
    using shown_block [OF demo_keeper_facts(1) k v] by (auto simp: b h demo_block_fields)
qed

end
