(* ===== verification/Spec2Isabelle.thy ===== *)
theory Spec2Isabelle
  imports Net_Demo Forging_Demo Plot_World Game_Demo
begin

text \<open>
  \<^bold>\<open>Blockscape\<close>, a block chain for games written in Rust, as definitions of HOL with the theorems that
  make it correct. The program has a core library (\<open>core/\<close>), a node that plays checkers on the chain
  (\<open>checkers/\<close>) and the beginnings of a game client (\<open>client/\<close>).

  \<^bold>\<open>How the program works.\<close> A node keeps a tree of blocks in a RocksDB store. The \<open>RecordKeeper\<close> is the
  only component that writes to it: it validates transactions and blocks by its rules, stores them,
  and walks the \<^emph>\<open>network state\<close> (the effect of the blocks of the current chain: events on plots,
  keys and stakes of validators) to the highest block. All changes of one operation are collected
  in a \<open>DBState\<close> over the database and are written in one batch. The network thread exchanges blocks
  and transactions with peers: it runs an event loop over sockets, timers and commands, holds one
  shard per attached network with its sessions and a repository of known nodes, and hands packages
  of blocks to worker threads, which give them to the record keeper. A forger makes new blocks from
  what the record keeper holds. The checkers game records its plays as events on plots; its rules
  are mutation rules of the record keeper and share a cache of boards with it.

  \<^bold>\<open>Semantics.\<close> The model is that of a release build: integers wrap at their width (words of
  HOL-Library), debug assertions are off. A computation ends with \<open>Ok\<close>, with an error value \<open>Err\<close>, with a
  \<open>Panic\<close> (index out of range, \<open>unwrap\<close>, \<open>assert!\<close>, \<open>unreachable!\<close>, division by zero), or with \<open>Diverge\<close>, the outcome
  of a loop that does not end. A method that changes its receiver is an \<open>action\<close>, a function from the
  state to an outcome and the state after it, also when it fails. A \<open>HashMap\<close> is an association list
  without duplicate keys, a \<open>BTreeMap\<close> a sorted one. Sizes of collections are natural numbers.

  \<^bold>\<open>Code outside the repository\<close> is a parameter: the records \<open>ext\<close> (digests, RSA, the bincode forms of
  composite types, RocksDB), \<open>net_ext\<close> (forms of messages, sockets, name resolution), \<open>pkg_ext\<close>,
  \<open>forge_ext\<close> and \<open>json_ext\<close>. What the code relies on is stated as named predicates on them (\<open>digests_ok\<close>, \<open>codecs_ok\<close>,
  \<open>codec_ok\<close>, \<open>lower_ok\<close>, the locale \<open>rocksdb\<close>). Clocks, random choices and what files contain are arguments (\<open>env\<close> for
  the network thread, with which packets the UDP socket takes and what the receivers of broadcasts answer,
  a new one for every event); what is sent, spawned or notified is a list in the state. \<^theory_text>\<open>Memory_Instance\<close>
  instantiates \<open>ext\<close> by functions that compute, and the theories \<open>Chain_Demo\<close>, \<open>Rules_Demo\<close>, \<open>Keeper_Demo\<close>,
  \<open>Net_Demo\<close>, \<open>Forging_Demo\<close> and \<open>Game_Demo\<close> apply the theorems to concrete states of that instance.

  \<^bold>\<open>The theories and the code they model.\<close>

  \<^item> \<open>Prelude\<close>: outcomes, actions, loops that stop at the first error, maps, bytes of words.
    \<open>Actions\<close>: triples for actions, the logic in which the network thread is verified.
  \<^item> \<open>Base16\<close> (\<open>core/src/base16.rs\<close>), \<open>Big_Uint\<close> (\<open>core/src/primitives/u256.rs\<close>, \<open>u160.rs\<close>), \<open>Coords\<close> (\<open>coord.rs\<close>, \<open>direction.rs\<close>),
    \<open>Primitives\<close> (\<open>event.rs\<close>, \<open>mutation.rs\<close>, \<open>txn.rs\<close>, \<open>block.rs\<close>, \<open>record_keeper/events.rs\<close>, \<open>time.rs\<close>), \<open>Keys\<close> (\<open>record_keeper/key.rs\<close>,
    \<open>error.rs\<close>), \<open>External\<close> (\<open>hash.rs\<close>, \<open>signer.rs\<close>, \<open>range.rs\<close>, Merkle roots and signatures). Shown: order and byte
    orders of the integers by the locale \<open>limb_uint\<close> for both widths, round trips of the text forms,
    exactly which keys of the database share their bytes, and that Merkle roots determine lists of one length.
  \<^item> \<open>Db_Diff\<close>, \<open>Database\<close>, \<open>Net_State\<close>, \<open>Chain_Walk\<close>, \<open>Db_Compile\<close> (\<open>record_keeper/database.rs\<close>, \<open>db_state.rs\<close>): the trait
    \<open>Database\<close> as functions on the type \<open>dbase\<close>, whose constructors are its two implementors, so that states
    can be stacked. \<open>Chain_Store\<close> states what the chain operations need of a database as the locale
    \<open>chain_store\<close> and interprets it for every stack. \<open>Block_Tree\<close> has the invariant \<open>chain_inv\<close> of the stored tree
    and the locale \<open>rooted_tree\<close>; \<open>Lca\<close> and \<open>Walk\<close> show that the search for the common ancestor and for the
    head terminate and are right, and that a walk ends at its target with the current chain marked.
    \<open>Event_Reads\<close> shows what is read of the events of a plot after a state adds or removes one, and
    \<open>Db_Compile\<close> that the batch of a state makes the database read like the state, with the exception of
    plot buckets from which events are only removed.
  \<^item> \<open>Rules\<close> (\<open>record_keeper/rules\<close>), \<open>Game_Cache\<close> (\<open>game_state.rs\<close>), \<open>Block_Package\<close> (\<open>block_package.rs\<close>: a
    package unpacks to the longest list of its blocks that fits the limit), \<open>Record_Keeper\<close>
    (\<open>record_keeper.rs\<close>). \<open>Keeper\<close> shows that every operation keeps the invariant \<open>keeper_ok\<close> whatever its outcome,
    so that a reached record keeper is at a highest block (\<open>tip_ok\<close>) with every known block readable;
    \<open>Liveness\<close> that a created block is accepted and becomes the head.
  \<^item> \<open>Keeper_View\<close>: what forgers read of a record keeper, and its contract as the locale \<open>chain_keeper\<close>,
    interpreted for \<open>Record_Keeper\<close> there and in \<open>Dummy_Keeper\<close> (\<open>dummy.rs\<close>) for the in-memory keeper.
  \<^item> \<open>Forging\<close> (\<open>core/src/forging\<close>: \<open>FlowerPicking\<close> and \<open>EPoS\<close>) and \<open>Forging_Facts\<close>: retargets and waits are the stated
    quotients, requests are settled once and are delivered at the time of their timer, created blocks of \<open>FlowerPicking\<close> validate, and
    the validation of \<open>EPoS\<close> accepts none.
  \<^item> \<open>Checkers\<close> (\<open>checkers/src/checkers.rs\<close>), \<open>Checkers_Rules\<close> (\<open>checkers/src/rules\<close>), \<open>Checkers_Game\<close> (\<open>checkers/src/game.rs\<close>). A
    play is an action that changes the board in place and puts the old board back when a jump is invalid;
    it is compared with rules of the game that are stated without the code's tests of pieces and
    directions, and differs from them only in accepting a jump along an empty path. The rules on events
    keep the order of turns, with the players that the start and the joins seat, and a play that was
    taken is listed as the last move.
  \<^item> \<open>Rpc\<close> (\<open>core/src/rpc/types.rs\<close>, \<open>blockchain.rs\<close>, \<open>network.rs\<close>) and \<open>Checkers_Rpc\<close> (\<open>checkers/src/rpc.rs\<close>): the handlers up to the
    value that is handed to the JSON library, whose readings of parameters are the record \<open>json_ext\<close>. A
    known block is shown at its place in the chain, and a typed move is the move that is played.
  \<^item> \<open>Node_Repo\<close> (\<open>core/src/network/node.rs\<close>), \<open>Protocol\<close> (\<open>protocol.rs\<close>, \<open>job.rs\<close>, \<open>tcp.rs\<close>, \<open>udp.rs\<close>, parts of \<open>context.rs\<close>), \<open>Session\<close>
    (\<open>session.rs\<close> and the handling of packets), \<open>Shard\<close> (\<open>shard.rs\<close>), \<open>Net_Client\<close> (\<open>client.rs\<close>, \<open>context.rs\<close> and the event
    loop, \<open>run_event\<close>). \<open>Net_Inv\<close> and \<open>Net_Safety\<close> build the invariant of the thread from sessions to the whole
    state; \<open>Net_Events\<close> has the transition system of the thread with its workers and the theorems on what
    it reaches: an event is handled and leaves a sound state, or it is one of the events that stop the
    thread (\<open>fatal\<close>), or the outside world fails at that event in a way the code unwraps (\<open>may_stop\<close>: a refused
    datagram, a signature whose verification does not answer, a receiver of broadcasts that panics, as
    the one of \<open>EPoS\<close> can). \<open>Net_Peers\<close> has what a node promises about its peers, and what it does not: the
    opening of a session over UDP replaces an introduced one at the same address. \<open>Node_Repo\<close> states the contract of the repository as the locale \<open>peer_book\<close>.
  \<^item> \<open>Power_Grid\<close> and \<open>Plot_World\<close> (\<open>client/src/world\<close>): the grids of a net are the connected components of its
    segments; the neighbours of a place on a plot.

  \<^bold>\<open>Termination and bounds.\<close> A loop with a measure is a \<open>function\<close> with its termination proof (buckets of
  events, Merkle levels, frames, breadth-first search). A loop that may run for ever in a bad state is
  a \<open>partial_function\<close> read by \<open>returns\<close> (common ancestor, head, events of a plot, chain test, free port),
  and that it returns is proved from the invariant of the state; no fuel is used. Heights are 64-bit
  words: the theorems on adding blocks assume that the heights in the tree leave room for the new
  blocks (\<open>room_for\<close>), and that the hash of a block is not the zero hash, which stands for no block.

  \<^bold>\<open>Not modelled.\<close> The JSON forms of the primitives, and the HTTP server and client (\<open>core/src/rpc/mod.rs\<close>,
  \<open>client.rs\<close>, \<open>control.rs\<close>). Start-up, threads,
  channels, log output and command lines (\<open>checkers/src/boot.rs\<close>, \<open>main.rs\<close>, \<open>forger.rs\<close>, \<open>reporter.rs\<close>). The scheduling
  of futures: an event of the network thread runs to its end, and what it spawns is a task that ends
  at any later time. Floating-point averages (drift of the clock, distance of coordinates). The units
  and modules of the client, which are trait declarations and constants. Locks: an operation of the
  record keeper is one step, although \<open>add_block\<close> gives its read locks back before it takes the write
  locks; what other threads do in between is not part of the model.
\<close>

end
